(* ===== verification/Prelude.thy ===== *)
theory Prelude
  imports Main "HOL-Library.Word" "HOL-Library.Multiset"
begin

unbundle bit_operations_syntax

text \<open>
  Shared vocabulary of the development: the machine types of the C++ sources, the bit
  facts on masks and shifts, list facts about FIFO queues (\<open>std::queue\<close> as a list whose
  head is the front), and the collections of hints the component theories fill.
\<close>

named_theorems sched_frame \<open>which scheduler fields an operation leaves alone\<close>
named_theorems hdr_bits \<open>bit fields of AQL packet headers\<close>

type_synonym u8 = "8 word"
type_synonym u16 = "16 word"
type_synonym u32 = "32 word"
type_synonym u64 = "64 word"

section \<open>Masks and alignment\<close>

lemma and_not_mask_push_drop:
  fixes w :: "'a::len word"
  shows "w AND NOT (mask n) = push_bit n (drop_bit n w)"
  by (rule bit_word_eqI) (auto simp: bit_simps)

lemma unat_push_drop:
  fixes w :: "'a::len word"
  shows "unat (push_bit n (drop_bit n w)) = (unat w div 2 ^ n) * 2 ^ n"
proof -
  have "unat w div 2 ^ n * 2 ^ n \<le> unat w" by simp
  also have "unat w < 2 ^ LENGTH('a)" by simp
  finally have b: "unat w div 2 ^ n * 2 ^ n < 2 ^ LENGTH('a)" .
  have "unat (push_bit n (drop_bit n w)) = take_bit LENGTH('a) (unat w div 2 ^ n * 2 ^ n)"
    unfolding unsigned_push_bit_eq unat_drop_bit_eq
    by (simp only: push_bit_eq_mult drop_bit_eq_div)
  then show ?thesis using b by (simp add: take_bit_nat_eq_self)
qed

lemma unat_and_not_mask:
  fixes w :: "'a::len word"
  shows "unat (w AND NOT (mask n)) = (unat w div 2 ^ n) * 2 ^ n"
  by (simp add: and_not_mask_push_drop unat_push_drop)

section \<open>Lists as FIFO queues\<close>

lemma mset_hd_tl: "q \<noteq> [] \<Longrightarrow> mset q = add_mset (hd q) (mset (tl q))"
  by (cases q) auto

lemma distinct_hd_notin_tl: "distinct q \<Longrightarrow> q \<noteq> [] \<Longrightarrow> hd q \<notin> set (tl q)"
  by (cases q) auto

lemma hd_in_set_ne: "q \<noteq> [] \<Longrightarrow> hd q \<in> set q"
  by (cases q) auto

lemma set_tl_subset: "set (tl q) \<subseteq> set q"
  by (cases q) auto

lemma count_list_snoc [simp]:
  "count_list (xs @ [y]) x = count_list xs x + (if y = x then 1 else 0)"
  by (induction xs) auto

lemma find_append:
  "find P (xs @ ys) = (case find P xs of None \<Rightarrow> find P ys | Some x \<Rightarrow> Some x)"
  by (induction xs) auto

lemma ceil_div_bounds:
  fixes n k :: nat
  assumes "0 < k"
  shows "n \<le> ((n + k - 1) div k) * k" and "((n + k - 1) div k) * k < n + k"
proof -
  have e: "(n + k - 1) div k * k + (n + k - 1) mod k = n + k - 1" by simp
  have m: "(n + k - 1) mod k < k" using assms by simp
  show "n \<le> ((n + k - 1) div k) * k" using e m by linarith
  show "((n + k - 1) div k) * k < n + k" using e m assms by linarith
qed

end
