(* ===== verification/Atmi_Types.thy ===== *)
theory Atmi_Types
  imports Prelude
begin

text \<open>
  The public data of \<open>include/atmi.h\<close>: status codes, device types, task states, places and the
  launch parameters of compute and copy tasks. Device types are bit sets, as in the header, and
  are kept as 32-bit words; task states are a datatype ordered by the header's numbers.
\<close>

section \<open>Status codes and enumerations\<close>

datatype atmi_status_t =
    ATMI_STATUS_SUCCESS | ATMI_STATUS_UNKNOWN | ATMI_STATUS_ERROR
  | ATMI_STATUS_KERNELCOUNT_OVERFLOW

datatype atmi_platform_type_t = BRIG | AMDGCN | X86

type_synonym atmi_devtype_t = u32

definition ATMI_DEVTYPE_CPU :: atmi_devtype_t where "ATMI_DEVTYPE_CPU = 1"
definition ATMI_DEVTYPE_iGPU :: atmi_devtype_t where "ATMI_DEVTYPE_iGPU = 2"
definition ATMI_DEVTYPE_dGPU :: atmi_devtype_t where "ATMI_DEVTYPE_dGPU = 4"
definition ATMI_DEVTYPE_GPU :: atmi_devtype_t where
  "ATMI_DEVTYPE_GPU = ATMI_DEVTYPE_iGPU OR ATMI_DEVTYPE_dGPU"
definition ATMI_DEVTYPE_DSP :: atmi_devtype_t where "ATMI_DEVTYPE_DSP = 8"
definition ATMI_DEVTYPE_ALL :: atmi_devtype_t where "ATMI_DEVTYPE_ALL = push_bit 4 1 - 1"

lemmas devtype_defs =
  ATMI_DEVTYPE_CPU_def ATMI_DEVTYPE_iGPU_def ATMI_DEVTYPE_dGPU_def ATMI_DEVTYPE_GPU_def
  ATMI_DEVTYPE_DSP_def ATMI_DEVTYPE_ALL_def

lemma devtype_distinct [simp]:
  "ATMI_DEVTYPE_CPU \<noteq> ATMI_DEVTYPE_GPU" "ATMI_DEVTYPE_GPU \<noteq> ATMI_DEVTYPE_CPU"
  "ATMI_DEVTYPE_ALL \<noteq> ATMI_DEVTYPE_CPU" "ATMI_DEVTYPE_ALL \<noteq> ATMI_DEVTYPE_GPU"
  "ATMI_DEVTYPE_DSP \<noteq> ATMI_DEVTYPE_CPU" "ATMI_DEVTYPE_DSP \<noteq> ATMI_DEVTYPE_GPU"
  by (simp_all add: devtype_defs)

datatype atmi_memtype_t =
  ATMI_MEMTYPE_FINE_GRAINED | ATMI_MEMTYPE_COARSE_GRAINED | ATMI_MEMTYPE_ANY

datatype atmi_state_t =
    ATMI_UNINITIALIZED | ATMI_INITIALIZED | ATMI_READY | ATMI_DISPATCHED
  | ATMI_EXECUTED | ATMI_COMPLETED | ATMI_FAILED

fun state_num :: "atmi_state_t \<Rightarrow> int" where
  "state_num ATMI_UNINITIALIZED = -1"
| "state_num ATMI_INITIALIZED = 0"
| "state_num ATMI_READY = 1"
| "state_num ATMI_DISPATCHED = 2"
| "state_num ATMI_EXECUTED = 3"
| "state_num ATMI_COMPLETED = 4"
| "state_num ATMI_FAILED = 9999"

lemma state_num_inj: "state_num a = state_num b \<Longrightarrow> a = b"
  by (cases a; cases b) simp_all

text \<open>The sources compare states with \<open><\<close> and \<open>>=\<close>: the order of the enumeration's numbers.\<close>

instantiation atmi_state_t :: linorder
begin

definition less_eq_atmi_state_t :: "atmi_state_t \<Rightarrow> atmi_state_t \<Rightarrow> bool" where
  "a \<le> b \<longleftrightarrow> state_num a \<le> state_num b"

definition less_atmi_state_t :: "atmi_state_t \<Rightarrow> atmi_state_t \<Rightarrow> bool" where
  "a < b \<longleftrightarrow> state_num a < state_num b"

instance
  by standard (auto simp: less_eq_atmi_state_t_def less_atmi_state_t_def intro: state_num_inj)

end

lemmas state_order = less_eq_atmi_state_t_def less_atmi_state_t_def

datatype atmi_scheduler_t = ATMI_SCHED_NONE | ATMI_SCHED_RR

datatype atmi_arg_type_t = ATMI_IN | ATMI_OUT | ATMI_IN_OUT

datatype atmi_task_fence_scope_t =
  ATMI_FENCE_SCOPE_NONE | ATMI_FENCE_SCOPE_DEVICE | ATMI_FENCE_SCOPE_SYSTEM

fun fence_num :: "atmi_task_fence_scope_t \<Rightarrow> nat" where
  "fence_num ATMI_FENCE_SCOPE_NONE = 0"
| "fence_num ATMI_FENCE_SCOPE_DEVICE = 1"
| "fence_num ATMI_FENCE_SCOPE_SYSTEM = 2"

datatype atl_task_type_t = ATL_KERNEL_EXECUTION | ATL_DATA_MOVEMENT

datatype atl_dep_sync_t = ATL_SYNC_BARRIER_PKT | ATL_SYNC_CALLBACK

section \<open>Places and profiles\<close>

record atmi_place_t =
  node_id :: u32
  pl_type :: atmi_devtype_t
  device_id :: int
  cu_mask :: u64

record atmi_mem_place_t =
  mem_node_id :: u32
  dev_type :: atmi_devtype_t
  dev_id :: int
  mem_id :: int

definition ATMI_PLACE_CPU :: "u32 \<Rightarrow> int \<Rightarrow> atmi_place_t" where
  "ATMI_PLACE_CPU node cpu_id =
     \<lparr>node_id = node, pl_type = ATMI_DEVTYPE_CPU, device_id = cpu_id, cu_mask = - 1\<rparr>"

definition ATMI_PLACE_GPU :: "u32 \<Rightarrow> int \<Rightarrow> atmi_place_t" where
  "ATMI_PLACE_GPU node gpu_id =
     \<lparr>node_id = node, pl_type = ATMI_DEVTYPE_GPU, device_id = gpu_id, cu_mask = - 1\<rparr>"

definition ATMI_PLACE_ANY :: "u32 \<Rightarrow> atmi_place_t" where
  "ATMI_PLACE_ANY node =
     \<lparr>node_id = node, pl_type = ATMI_DEVTYPE_ALL, device_id = -1, cu_mask = - 1\<rparr>"

definition ATMI_MEM_PLACE_CPU_MEM :: "u32 \<Rightarrow> int \<Rightarrow> int \<Rightarrow> atmi_mem_place_t" where
  "ATMI_MEM_PLACE_CPU_MEM node cpu_id cpu_mem_id =
     \<lparr>mem_node_id = node, dev_type = ATMI_DEVTYPE_CPU, dev_id = cpu_id, mem_id = cpu_mem_id\<rparr>"

definition ATMI_DEFAULT_PLACE :: atmi_place_t where
  "ATMI_DEFAULT_PLACE =
     \<lparr>node_id = 0, pl_type = ATMI_DEVTYPE_GPU, device_id = 0, cu_mask = - 1\<rparr>"

record atmi_tprofile_t =
  dispatch_time :: u64
  ready_time :: u64
  start_time :: u64
  end_time :: u64

record atmi_task_t =
  at_state :: atmi_state_t
  at_profile :: atmi_tprofile_t

section \<open>Launch parameters\<close>

type_synonym atmi_task_handle_t = u64
type_synonym atmi_taskgroup_handle_t = u64

definition ATMI_NULL_TASK_HANDLE :: atmi_task_handle_t where "ATMI_NULL_TASK_HANDLE = - 1"

text \<open>
  \<open>requires\<close> with \<open>num_required\<close> and \<open>required_groups\<close> with \<open>num_required_groups\<close> are one list
  each: the array and its length. \<open>task_info\<close> is the address of the user's task structure, \<open>None\<close>
  for a null pointer.
\<close>

record atmi_lparm_t =
  lp_gridDim :: "u64 \<times> u64 \<times> u64"
  lp_groupDim :: "u64 \<times> u64 \<times> u64"
  lp_group :: atmi_taskgroup_handle_t
  lp_groupable :: bool
  lp_synchronous :: bool
  lp_acquire_scope :: atmi_task_fence_scope_t
  lp_release_scope :: atmi_task_fence_scope_t
  lp_requires :: "atmi_task_handle_t list"
  lp_required_groups :: "atmi_taskgroup_handle_t list"
  lp_profilable :: bool
  lp_kernel_id :: int
  lp_place :: atmi_place_t
  lp_task_info :: "nat option"

record atmi_cparm_t =
  cp_group :: atmi_taskgroup_handle_t
  cp_groupable :: bool
  cp_profilable :: bool
  cp_synchronous :: bool
  cp_requires :: "atmi_task_handle_t list"
  cp_required_groups :: "atmi_taskgroup_handle_t list"
  cp_task_info :: "nat option"

end
