(* ===== verification/Machine.thy ===== *)
theory Machine
  imports Atmi_Types
begin

text \<open>
  The machine model of \<open>src/runtime/core/machine.cpp\<close>, \<open>machine.h\<close> and \<open>machine.tcc\<close>: memories,
  processors with their queues and memories, the three processor tables, the choice of a
  processor for a place, the choice of a queue, and the parser of the compute-unit masks in
  \<open>ATMI_DEVICE_GPU_WORKERS\<close>. Agents, pools and signals are HSA handles (64-bit words), queues
  are identified by their address. \<open>None\<close> is a failed assertion or an access out of range.
\<close>

type_synonym qid = nat
type_synonym signal = u64

section \<open>Processors and memories\<close>

record ATLMemory =
  mem_pool :: u64
  mem_type :: atmi_memtype_t

record thread_agent_t =
  ta_id :: nat
  worker_sig :: signal
  ta_queue :: qid

record ATLProcessor =
  p_agent :: u64
  p_type :: atmi_devtype_t
  p_queues :: "qid list"
  p_next_best_queue_id :: u32
  p_memories :: "ATLMemory list"
  p_thread_agents :: "thread_agent_t list"

definition new_processor :: "u64 \<Rightarrow> atmi_devtype_t \<Rightarrow> ATLProcessor" where
  "new_processor agent ty =
     \<lparr>p_agent = agent, p_type = ty, p_queues = [], p_next_best_queue_id = 0, p_memories = [],
      p_thread_agents = []\<rparr>"

definition addMemory :: "ATLProcessor \<Rightarrow> ATLMemory \<Rightarrow> ATLProcessor" where
  "addMemory proc mem =
     (if \<exists>mem_obj \<in> set (p_memories proc). mem_pool mem = mem_pool mem_obj then proc
      else proc\<lparr>p_memories := p_memories proc @ [mem]\<rparr>)"

definition get_memory_pool :: "ATLProcessor \<Rightarrow> int \<Rightarrow> u64 option" where
  "get_memory_pool proc mid =
     (let mems = p_memories proc in
      if mems \<noteq> [] \<and> 0 \<le> mid \<and> mid < int (length mems)
      then Some (mem_pool (mems ! nat mid)) else None)"

lemma addMemory_distinct:
  "distinct (map mem_pool (p_memories p)) \<Longrightarrow>
   distinct (map mem_pool (p_memories (addMemory p m)))"
  by (auto simp: addMemory_def)

lemma addMemory_pools:
  "set (map mem_pool (p_memories (addMemory p m)))
   = insert (mem_pool m) (set (map mem_pool (p_memories p)))"
  by (auto simp: addMemory_def)

lemma addMemory_prefix: "\<exists>ms. p_memories (addMemory p m) = p_memories p @ ms"
  by (auto simp: addMemory_def)

lemma addMemories_distinct:
  "distinct (map mem_pool (p_memories p)) \<Longrightarrow>
   distinct (map mem_pool (p_memories (foldl addMemory p ms)))"
  by (induction ms arbitrary: p) (auto simp: addMemory_distinct)

lemma addMemories_pools:
  "set (map mem_pool (p_memories (foldl addMemory p ms)))
   = set (map mem_pool (p_memories p)) \<union> mem_pool ` set ms"
proof (induction ms arbitrary: p)
  case (Cons m ms)
  show ?case using Cons.IH [of "addMemory p m"] addMemory_pools [of p m] by auto
qed simp

section \<open>The machine and the choice of a processor\<close>

record ATLMachine =
  cpu_processors :: "ATLProcessor list"
  gpu_processors :: "ATLProcessor list"
  dsp_processors :: "ATLProcessor list"

definition vector_at :: "'a list \<Rightarrow> int \<Rightarrow> 'a option" where
  "vector_at xs i = (if 0 \<le> i \<and> i < int (length xs) then Some (xs ! nat i) else None)"

text \<open>The template of \<open>machine.tcc\<close>, applied to the table of one processor type.\<close>

definition get_processor :: "ATLProcessor list \<Rightarrow> atmi_place_t \<Rightarrow> ATLProcessor option" where
  "get_processor procs place =
     (let did = device_id place; did = (if did = -1 then 0 else did) in vector_at procs did)"

definition get_processor_by_compute_place ::
  "ATLMachine \<Rightarrow> atmi_place_t \<Rightarrow> ATLProcessor option" where
  "get_processor_by_compute_place mc place =
     (if pl_type place = ATMI_DEVTYPE_CPU then vector_at (cpu_processors mc) (device_id place)
      else if pl_type place = ATMI_DEVTYPE_GPU then
        vector_at (gpu_processors mc) (device_id place)
      else if pl_type place = ATMI_DEVTYPE_DSP then
        vector_at (dsp_processors mc) (device_id place)
      else None)"

definition get_processor_by_mem_place ::
  "ATLMachine \<Rightarrow> atmi_mem_place_t \<Rightarrow> ATLProcessor option" where
  "get_processor_by_mem_place mc place =
     (if dev_type place = ATMI_DEVTYPE_CPU then vector_at (cpu_processors mc) (dev_id place)
      else if dev_type place = ATMI_DEVTYPE_GPU then vector_at (gpu_processors mc) (dev_id place)
      else if dev_type place = ATMI_DEVTYPE_DSP then vector_at (dsp_processors mc) (dev_id place)
      else None)"

definition get_compute_agent :: "ATLMachine \<Rightarrow> atmi_place_t \<Rightarrow> u64 option" where
  "get_compute_agent mc place = map_option p_agent (get_processor_by_compute_place mc place)"

definition get_mem_agent :: "ATLMachine \<Rightarrow> atmi_mem_place_t \<Rightarrow> u64 option" where
  "get_mem_agent mc place = map_option p_agent (get_processor_by_mem_place mc place)"

definition get_memory_pool_by_mem_place :: "ATLMachine \<Rightarrow> atmi_mem_place_t \<Rightarrow> u64 option" where
  "get_memory_pool_by_mem_place mc place =
     Option.bind (get_processor_by_mem_place mc place) (\<lambda>proc. get_memory_pool proc (mem_id place))"

section \<open>Queues\<close>

text \<open>
  \<open>index % queues_.size()\<close> converts the \<open>int\<close> to \<open>size_t\<close> first; a processor with no queue
  divides by zero.
\<close>

definition getQueueAt :: "ATLProcessor \<Rightarrow> int \<Rightarrow> qid option" where
  "getQueueAt proc index =
     (if p_queues proc = [] then None
      else Some (p_queues proc ! (nat (index mod 2 ^ 64) mod length (p_queues proc))))"

definition getBestQueue ::
  "ATLProcessor \<Rightarrow> atmi_scheduler_t \<Rightarrow> qid option \<times> ATLProcessor" where
  "getBestQueue proc sched =
     (if p_queues proc = [] then (None, proc)
      else
        let i = unat (p_next_best_queue_id proc) mod length (p_queues proc) in
        case sched of
          ATMI_SCHED_NONE \<Rightarrow> (getQueueAt proc (int i), proc)
        | ATMI_SCHED_RR \<Rightarrow>
            (getQueueAt proc (int i),
             proc\<lparr>p_next_best_queue_id := p_next_best_queue_id proc + 1\<rparr>))"

definition get_worker_sig_proc :: "ATLProcessor \<Rightarrow> qid \<Rightarrow> signal option" where
  "get_worker_sig_proc proc q =
     map_option worker_sig (find (\<lambda>agent. ta_queue agent = q) (p_thread_agents proc))"

definition getThreadAgentAt :: "ATLProcessor \<Rightarrow> int \<Rightarrow> thread_agent_t option" where
  "getThreadAgentAt proc index = vector_at (p_thread_agents proc) index"

lemma getQueueAt_in: "getQueueAt p i = Some q \<Longrightarrow> q \<in> set (p_queues p)"
  by (auto simp: getQueueAt_def split: if_splits)

lemma getQueueAt_some: "p_queues p \<noteq> [] \<Longrightarrow> \<exists>q. getQueueAt p i = Some q"
  by (simp add: getQueueAt_def)

lemma getQueueAt_nat:
  "p_queues p \<noteq> [] \<Longrightarrow> n < 2 ^ 64 \<Longrightarrow>
   getQueueAt p (int n) = Some (p_queues p ! (n mod length (p_queues p)))"
  by (simp add: getQueueAt_def nat_mod_distrib)

text \<open>
  The worker threads of a CPU processor (\<open>ATLCPUProcessor::createQueues\<close>): queue \<open>i\<close> and its
  agent \<open>i\<close> are created together. The queue and the worker signal of each agent are what
  \<open>hsa_soft_queue_create\<close> and \<open>hsa_signal_create\<close> return, given as the two functions.
\<close>

definition createQueues_cpu ::
  "(nat \<Rightarrow> qid) \<Rightarrow> (nat \<Rightarrow> signal) \<Rightarrow> ATLProcessor \<Rightarrow> nat \<Rightarrow> ATLProcessor" where
  "createQueues_cpu new_q new_sig proc cnt =
     foldl (\<lambda>p i. p\<lparr>p_queues := p_queues p @ [new_q i],
                     p_thread_agents := p_thread_agents p @
                       [\<lparr>ta_id = i, worker_sig = new_sig i, ta_queue = new_q i\<rparr>]\<rparr>)
       proc [0..<cnt]"

lemma createQueues_cpu_fields:
  "p_queues (createQueues_cpu nq ns p n) = p_queues p @ map nq [0..<n]
   \<and> p_thread_agents (createQueues_cpu nq ns p n) = p_thread_agents p @
       map (\<lambda>i. \<lparr>ta_id = i, worker_sig = ns i, ta_queue = nq i\<rparr>) [0..<n]"
  by (induction n) (auto simp: createQueues_cpu_def)

lemma find_map_inj:
  assumes g: "\<And>j. g (h j) = f j"
  shows "inj_on f {..<n} \<Longrightarrow> i < n \<Longrightarrow> find (\<lambda>x. g x = f i) (map h [0..<n]) = Some (h i)"
proof (induction n)
  case (Suc n)
  show ?case
  proof (cases "i < n")
    case True
    then have "find (\<lambda>x. g x = f i) (map h [0..<n]) = Some (h i)"
      using Suc.IH Suc.prems(1) by (auto simp: inj_on_def)
    then show ?thesis by (simp add: find_append)
  next
    case False
    with Suc.prems have "i = n" by simp
    moreover have "find (\<lambda>x. g x = f n) (map h [0..<n]) = None"
      using Suc.prems(1) g by (fastforce simp: find_None_iff inj_on_def)
    ultimately show ?thesis using g by (simp add: find_append)
  qed
qed simp

text \<open>
  After \<open>createQueues\<close> on a fresh CPU processor, whose queues HSA returned at distinct
  addresses, \<open>get_worker_sig\<close> maps every queue to the worker signal of the agent thread that
  was created with it, so a doorbell on a queue wakes the thread that serves that queue.
\<close>

lemma worker_sig_of_created_queue:
  assumes "inj_on new_q {..<n}" and "i < n"
  shows "get_worker_sig_proc
           (createQueues_cpu new_q new_sig (new_processor a ATMI_DEVTYPE_CPU) n) (new_q i)
         = Some (new_sig i)"
  using assms
  by (simp add: get_worker_sig_proc_def createQueues_cpu_fields new_processor_def find_map_inj)

lemma worker_sig_of_created_queue_witness:
  "get_worker_sig_proc
     (createQueues_cpu (\<lambda>i. 100 + i) of_nat (new_processor 7 ATMI_DEVTYPE_CPU) 3) 102 = Some 2"
  using worker_sig_of_created_queue [of "\<lambda>i. 100 + i" 3 2 of_nat 7] by (simp add: inj_on_def)

section \<open>Compute-unit masks\<close>

text \<open>
  \<open>cu_mask_parser\<close> works on a string such as \<^verbatim>\<open>2:0-3;4,6-7\<close> with nested \<open>strtok_r\<close> loops. A call
  of \<open>strtok_r\<close> skips leading delimiters, returns the characters up to the next one and the
  rest behind it; \<open>atoi\<close> reads blanks, a sign and the leading digits.
\<close>

definition strtok :: "char list \<Rightarrow> string \<Rightarrow> (string \<times> string) option" where
  "strtok delims s =
     (let t = dropWhile (\<lambda>c. c \<in> set delims) s in
      if t = [] then None
      else Some (takeWhile (\<lambda>c. c \<notin> set delims) t,
                 drop 1 (dropWhile (\<lambda>c. c \<notin> set delims) t)))"

lemma strtok_shorter:
  assumes "strtok ds s = Some (t, r)"
  shows "length r < length s"
proof -
  let ?u = "dropWhile (\<lambda>c. c \<in> set ds) s"
  from assms have ne: "?u \<noteq> []" and r: "r = drop 1 (dropWhile (\<lambda>c. c \<notin> set ds) ?u)"
    by (auto simp: strtok_def Let_def split: if_splits)
  have "length (drop 1 (dropWhile (\<lambda>c. c \<notin> set ds) ?u)) < length ?u"
    using ne length_dropWhile_le [of "\<lambda>c. c \<notin> set ds" ?u] by (cases ?u) auto
  also have "length ?u \<le> length s" by (rule length_dropWhile_le)
  finally show ?thesis using r by simp
qed

definition digit_val :: "char \<Rightarrow> int" where
  "digit_val c = int (of_char c) - 48"

definition is_digit :: "char \<Rightarrow> bool" where
  "is_digit c = (48 \<le> (of_char c :: nat) \<and> (of_char c :: nat) \<le> 57)"

fun digits_val :: "int \<Rightarrow> string \<Rightarrow> int" where
  "digits_val acc [] = acc"
| "digits_val acc (c # cs) = (if is_digit c then digits_val (10 * acc + digit_val c) cs else acc)"

definition atoi :: "string \<Rightarrow> int" where
  "atoi s =
     (case dropWhile (\<lambda>c. c \<in> set '' '' \<or> of_char c \<in> {9 .. 13 :: nat}) s of
        [] \<Rightarrow> 0
      | c # cs \<Rightarrow>
          if c = CHR ''-'' then - digits_val 0 cs
          else if c = CHR ''+'' then digits_val 0 cs
          else digits_val 0 (c # cs))"

text \<open>
  The loop that sets the bits of one range. A shift by an amount outside \<open>0..63\<close> is undefined in
  C++ and is \<open>None\<close>, as is \<open>atoi\<close> of the null pointer.
\<close>

fun cu_bits :: "u64 \<Rightarrow> int \<Rightarrow> nat \<Rightarrow> u64 option" where
  "cu_bits mask_word offset 0 = Some mask_word"
| "cu_bits mask_word offset (Suc num_cus) =
     (if 0 \<le> offset \<and> offset < 64
      then cu_bits (mask_word OR push_bit (nat offset) 1) (offset + 1) num_cus else None)"

definition cu_range :: "string \<Rightarrow> (int \<times> int) option" where
  "cu_range token2 =
     (case strtok ''-'' token2 of
        None \<Rightarrow> None
      | Some (token3, pch3) \<Rightarrow>
          let offset = atoi token3 in
          case strtok ''-'' pch3 of
            None \<Rightarrow> Some (offset, 1)
          | Some (token3', _) \<Rightarrow> Some (offset, atoi token3' - offset + 1))"

function cu_queue_mask :: "u64 \<Rightarrow> string \<Rightarrow> u64 option" where
  "cu_queue_mask mask_word s =
     (case strtok '','' s of
        None \<Rightarrow> Some mask_word
      | Some (token2, pch2) \<Rightarrow>
          (case cu_range token2 of
             None \<Rightarrow> None
           | Some (offset, num_cus) \<Rightarrow>
               (case cu_bits mask_word offset (nat num_cus) of
                  None \<Rightarrow> None
                | Some m \<Rightarrow> cu_queue_mask m pch2)))"
  by pat_completeness auto
termination
  by (relation "measure (\<lambda>(m, s). length s)") (auto dest: strtok_shorter)

declare cu_queue_mask.simps [simp del]

function cu_queues ::
  "nat \<Rightarrow> nat \<Rightarrow> u64 list \<Rightarrow> bool \<Rightarrow> string \<Rightarrow> (bool \<times> u64 list) option" where
  "cu_queues q cnt cu_masks enable s =
     (case strtok '';'' s of
        None \<Rightarrow> Some (enable, cu_masks)
      | Some (token, pch) \<Rightarrow>
          (if \<not> q < cnt then Some (enable, cu_masks)
           else case cu_queue_mask (cu_masks ! q) token of
               None \<Rightarrow> None
             | Some m \<Rightarrow> cu_queues (q + 1) cnt (cu_masks[q := m]) True pch))"
  by pat_completeness auto
termination
  by (relation "measure (\<lambda>(q, n, m, e, s). length s)") (auto dest: strtok_shorter)

declare cu_queues.simps [simp del]

definition cu_mask_parser ::
  "string option \<Rightarrow> u64 list \<Rightarrow> nat \<Rightarrow> (bool \<times> u64 list) option" where
  "cu_mask_parser gpu_workers cu_masks cnt =
     (case gpu_workers of
        None \<Rightarrow> Some (False, cu_masks)
      | Some s \<Rightarrow>
          let pch = (case strtok '':'' s of None \<Rightarrow> [] | Some (_, r) \<Rightarrow> r) in
          cu_queues 0 cnt cu_masks False pch)"

lemma cu_bits_ranges:
  "cu_bits m off n = Some m' \<Longrightarrow>
   bit m' i = (bit m i \<or> (off \<le> int i \<and> int i < off + int n))"
proof (induction m off n rule: cu_bits.induct)
  case (2 m off n)
  then have r: "0 \<le> off" "off < 64"
    and c: "cu_bits (m OR push_bit (nat off) 1) (off + 1) n = Some m'"
    by (auto split: if_splits)
  from 2(1) [OF conjI [OF r] c] r show ?case
    by (auto simp: bit_simps)
qed auto

lemma cu_bits_defined: "0 \<le> off \<Longrightarrow> off + int n \<le> 64 \<Longrightarrow> \<exists>m'. cu_bits m off n = Some m'"
  by (induction m off n rule: cu_bits.induct) auto

lemma cu_queues_length:
  "cu_queues q n ms e s = Some (e', ms') \<Longrightarrow> length ms' = length ms"
proof (induction q n ms e s arbitrary: e' ms' rule: cu_queues.induct)
  case (1 q n ms e s)
  show ?case
  proof (cases "strtok '';'' s")
    case None
    then show ?thesis using 1(2) by (simp add: cu_queues.simps)
  next
    case (Some tp)
    then obtain t p where tp: "strtok '';'' s = Some (t, p)" by (cases tp) auto
    show ?thesis using 1(2) 1(1) [OF tp refl]
      by (subst (asm) cu_queues.simps) (fastforce simp: tp split: if_splits option.splits)
  qed
qed

section \<open>The queues of a GPU\<close>

text \<open>
  \<open>ATLGPUProcessor::createQueues\<close>. The masks that HSA is given are returned beside the processor,
  one per queue, \<open>None\<close> where no mask is set; an all-zero mask is replaced by all ones. The third
  component is the contents of the environment string afterwards: \<open>strtok_r\<close> works in place on
  what \<open>getenv\<close> returned and leaves a terminator behind the first field, so the string that the
  next caller reads ends there.
\<close>

definition env_after_parse :: "string \<Rightarrow> string" where
  "env_after_parse s =
     (let lead = takeWhile (\<lambda>c. c \<in> set '':'') s; t = dropWhile (\<lambda>c. c \<in> set '':'') s
      in lead @ takeWhile (\<lambda>c. c \<notin> set '':'') t)"

definition createQueues_gpu ::
  "(nat \<Rightarrow> qid) \<Rightarrow> string option \<Rightarrow> ATLProcessor \<Rightarrow> nat \<Rightarrow>
   (ATLProcessor \<times> u64 option list \<times> string option) option" where
  "createQueues_gpu new_q gpu_workers proc cnt =
     (case cu_mask_parser gpu_workers (replicate cnt 0) cnt of
        None \<Rightarrow> None
      | Some (cu_mask_enable, cu_masks) \<Rightarrow>
          let masks = map (\<lambda>i. if cu_mask_enable
                               then Some (if cu_masks ! i = 0 then - 1 else cu_masks ! i)
                               else None) [0..<cnt]
          in Some (proc\<lparr>p_queues := p_queues proc @ map new_q [0..<cnt]\<rparr>, masks,
                   map_option env_after_parse gpu_workers))"

lemma strtok_env_after_parse:
  "case strtok '':'' (env_after_parse s) of None \<Rightarrow> True | Some (_, r) \<Rightarrow> r = []"
proof -
  define t where "t = dropWhile (\<lambda>c. c \<in> set '':'') s"
  define u where "u = takeWhile (\<lambda>c. c \<notin> set '':'') t"
  have "\<forall>c \<in> set (takeWhile (\<lambda>c. c \<in> set '':'') s). c \<in> set '':''"
    by (meson set_takeWhileD)
  moreover have "t = [] \<or> hd t \<notin> set '':''"
    unfolding t_def by (metis hd_dropWhile)
  then have "dropWhile (\<lambda>c. c \<in> set '':'') u = u"
    unfolding u_def by (cases t) auto
  ultimately have d: "dropWhile (\<lambda>c. c \<in> set '':'') (env_after_parse s) = u"
    unfolding env_after_parse_def Let_def t_def [symmetric] u_def [symmetric] by simp
  have "dropWhile (\<lambda>c. c \<notin> set '':'') u = []"
    unfolding u_def by (auto dest: set_takeWhileD)
  then show ?thesis unfolding strtok_def d Let_def by (simp only:) simp
qed

lemma cu_mask_parser_after_parse:
  "cu_mask_parser (Some (env_after_parse s)) ms n = Some (False, ms)"
proof -
  have "(case strtok '':'' (env_after_parse s) of None \<Rightarrow> [] | Some (_, r) \<Rightarrow> r) = []"
    using strtok_env_after_parse [of s] by (auto split: option.splits prod.splits)
  then show ?thesis by (simp add: cu_mask_parser_def cu_queues.simps strtok_def)
qed

text \<open>
  Only the first GPU gets compute-unit masks: whatever the mask string, when its parse
  succeeds for one processor, the same call for the next processor finds the string cut off
  behind its first field and sets no mask on any queue.
\<close>

lemma cu_masks_only_on_first_gpu:
  assumes "createQueues_gpu new_q (Some s) p n = Some (p', masks, env')"
  shows "\<exists>p2. createQueues_gpu new_q' env' q m = Some (p2, replicate m None, env')"
proof -
  have env: "env' = Some (env_after_parse s)"
    using assms by (auto simp: createQueues_gpu_def Let_def split: option.splits)
  have idem: "env_after_parse (env_after_parse s) = env_after_parse s" for s
  proof -
    have "takeWhile (\<lambda>c. c \<noteq> CHR '':'') (dropWhile (\<lambda>c. c = CHR '':'') s) =
      takeWhile (\<lambda>c. c \<noteq> CHR '':'') (dropWhile (\<lambda>c. c = CHR '':'') (takeWhile (\<lambda>c. c \<noteq> CHR '':'') (dropWhile (\<lambda>c. c = CHR '':'') s)))"
      by (induction s) auto
    then show ?thesis by (induction s) (auto simp: env_after_parse_def Let_def)
  qed
  show ?thesis
    unfolding env
    by (simp add: createQueues_gpu_def cu_mask_parser_after_parse idem map_replicate_const)
qed

lemma cu_masks_only_on_first_gpu_witness:
  "\<exists>p2. createQueues_gpu (\<lambda>i. i) (Some ''2'') (new_processor 9 ATMI_DEVTYPE_GPU) 2
     = Some (p2, replicate 2 None, Some ''2'')"
proof -
  have "createQueues_gpu (\<lambda>i. i) (Some ''2:0-3;4,6'') (new_processor 8 ATMI_DEVTYPE_GPU) 2
      = Some (\<lparr>p_agent = 8, p_type = ATMI_DEVTYPE_GPU, p_queues = [0, 1],
          p_next_best_queue_id = 0, p_memories = [], p_thread_agents = []\<rparr>,
          [Some 15, Some 80], Some ''2'')"
    by code_simp
  from cu_masks_only_on_first_gpu [OF this, of "\<lambda>i. i" "new_processor 9 ATMI_DEVTYPE_GPU" 2]
  show ?thesis .
qed

end
