(* ===== verification/Data_Map.thy ===== *)
theory Data_Map
  imports Machine
begin

text \<open>
  The pointer tracker of \<open>include/data.h\<close> and \<open>core/data.cpp\<close>: which allocation an address lies in,
  and the direction of a copy that follows from it. The \<open>std::map\<close> keyed by address ranges is the
  list of its entries in key order; two ranges that overlap are equivalent keys for the
  comparator, so an insertion that overlaps an entry is dropped, and looking up one byte finds
  the entry that contains it.
\<close>

section \<open>The tracker\<close>

record ATLData =
  data_ptr :: u64
  data_host_aliasptr :: u64
  data_bytes :: u64
  data_place :: atmi_mem_place_t
  data_arg_type :: atmi_arg_type_t

record ATLMemoryRange =
  base_pointer :: u64
  end_pointer :: u64

definition memory_range :: "u64 \<Rightarrow> u64 \<Rightarrow> ATLMemoryRange" where
  "memory_range bp size_bytes = \<lparr>base_pointer = bp, end_pointer = bp + size_bytes - 1\<rparr>"

definition range_less :: "ATLMemoryRange \<Rightarrow> ATLMemoryRange \<Rightarrow> bool" where
  "range_less lhs rhs \<longleftrightarrow> end_pointer lhs < base_pointer rhs"

type_synonym tracker = "(ATLMemoryRange \<times> ATLData) list"

fun map_insert :: "ATLMemoryRange \<Rightarrow> ATLData \<Rightarrow> tracker \<Rightarrow> tracker" where
  "map_insert r d [] = [(r, d)]"
| "map_insert r d (x # xs) =
     (if range_less r (fst x) then (r, d) # x # xs
      else if range_less (fst x) r then x # map_insert r d xs
      else x # xs)"

definition equiv_key :: "ATLMemoryRange \<Rightarrow> ATLMemoryRange \<Rightarrow> bool" where
  "equiv_key a b \<longleftrightarrow> \<not> range_less a b \<and> \<not> range_less b a"

definition tracker_insert :: "u64 \<Rightarrow> ATLData \<Rightarrow> tracker \<Rightarrow> tracker" where
  "tracker_insert p d m = map_insert (memory_range p (data_bytes d)) d m"

definition tracker_remove :: "u64 \<Rightarrow> tracker \<Rightarrow> tracker" where
  "tracker_remove p m = filter (\<lambda>x. \<not> equiv_key (fst x) (memory_range p 1)) m"

definition tracker_find :: "u64 \<Rightarrow> tracker \<Rightarrow> ATLData option" where
  "tracker_find p m = map_option snd (find (\<lambda>x. equiv_key (fst x) (memory_range p 1)) m)"

text \<open>
  For a place of a CPU, HSA is also told to let all GPUs access the block; that is the last line
  of \<open>Malloc\<close> in \<open>Memory_API\<close>.
\<close>

definition register_allocation :: "u64 \<Rightarrow> u64 \<Rightarrow> atmi_mem_place_t \<Rightarrow> tracker \<Rightarrow> tracker" where
  "register_allocation ptr size_bytes place m =
     tracker_insert ptr \<lparr>data_ptr = ptr, data_host_aliasptr = 0, data_bytes = size_bytes,
       data_place = place, data_arg_type = ATMI_IN_OUT\<rparr> m"

section \<open>Well-formed trackers\<close>

definition tracker_wf :: "tracker \<Rightarrow> bool" where
  "tracker_wf m \<longleftrightarrow>
     sorted_wrt (\<lambda>a b. range_less (fst a) (fst b)) m \<and>
     (\<forall>x \<in> set m. base_pointer (fst x) \<le> end_pointer (fst x))"

definition contains :: "ATLMemoryRange \<Rightarrow> u64 \<Rightarrow> bool" where
  "contains r p \<longleftrightarrow> base_pointer r \<le> p \<and> p \<le> end_pointer r"

definition overlaps :: "ATLMemoryRange \<Rightarrow> ATLMemoryRange \<Rightarrow> bool" where
  "overlaps a b \<longleftrightarrow> (\<exists>p. contains a p \<and> contains b p)"

lemma equiv_point: "equiv_key r (memory_range p 1) \<longleftrightarrow> contains r p"
  by (auto simp: equiv_key_def range_less_def memory_range_def contains_def)

lemma tracker_find_eq: "tracker_find p m = map_option snd (find (\<lambda>x. contains (fst x) p) m)"
  by (simp add: tracker_find_def equiv_point)

lemma tracker_remove_eq: "tracker_remove p m = filter (\<lambda>x. \<not> contains (fst x) p) m"
  by (simp add: tracker_remove_def equiv_point)

lemma set_map_insert: "set (map_insert r d m) \<subseteq> insert (r, d) (set m)"
  by (induction m) auto

lemma range_less_trans:
  "range_less a b \<Longrightarrow> base_pointer b \<le> end_pointer b \<Longrightarrow> range_less b c \<Longrightarrow> range_less a c"
  by (auto simp: range_less_def)

lemma map_insert_wf:
  assumes "tracker_wf m" and "base_pointer r \<le> end_pointer r"
  shows "tracker_wf (map_insert r d m)"
  using assms(1)
proof (induction m)
  case Nil
  then show ?case using assms(2) by (simp add: tracker_wf_def)
next
  case (Cons x xs)
  have xs: "tracker_wf xs" and x: "base_pointer (fst x) \<le> end_pointer (fst x)"
    and lt: "\<And>y. y \<in> set xs \<Longrightarrow> range_less (fst x) (fst y)"
    using Cons.prems by (auto simp: tracker_wf_def)
  have ih: "tracker_wf (map_insert r d xs)" using Cons.IH [OF xs] .
  have "range_less (fst x) (fst y)"
    if "range_less (fst x) r" "y \<in> set (map_insert r d xs)" for y
  proof -
    have "y = (r, d) \<or> y \<in> set xs" using that(2) set_map_insert [of r d xs] by blast
    then show ?thesis using that(1) lt [of y] by (elim disjE) simp_all
  qed
  moreover have "range_less r (fst y)" if "range_less r (fst x)" "y \<in> set xs" for y
    using that lt x range_less_trans by blast
  ultimately show ?case
    using ih Cons.prems assms(2) x by (auto simp: tracker_wf_def)
qed

lemma map_insert_fresh:
  assumes "\<forall>x \<in> set m. \<not> overlaps (fst x) r" and "tracker_wf m"
    and "base_pointer r \<le> end_pointer r"
  shows "set (map_insert r d m) = insert (r, d) (set m)"
  using assms
proof (induction m)
  case (Cons x xs)
  have b: "base_pointer (fst x) \<le> end_pointer (fst x)"
    using Cons.prems(2) by (auto simp: tracker_wf_def)
  have o: "\<not> overlaps (fst x) r" using Cons.prems(1) by simp
  have "range_less (fst x) r" if "\<not> range_less r (fst x)"
  proof (rule ccontr)
    assume "\<not> range_less (fst x) r"
    then have "contains (fst x) (max (base_pointer (fst x)) (base_pointer r))
        \<and> contains r (max (base_pointer (fst x)) (base_pointer r))"
      using that b Cons.prems(3) by (auto simp: range_less_def contains_def max_def)
    then show False using o unfolding overlaps_def by blast
  qed
  moreover have "tracker_wf xs" using Cons.prems(2) by (auto simp: tracker_wf_def)
  ultimately show ?case using Cons by auto
qed simp

lemma tracker_wf_unique:
  assumes "tracker_wf m" and "x \<in> set m" "y \<in> set m" and "contains (fst x) p" "contains (fst y) p"
  shows "x = y"
proof (rule ccontr)
  assume ne: "x \<noteq> y"
  obtain i j where ij: "i < length m" "j < length m" "m ! i = x" "m ! j = y"
    using assms(2, 3) by (metis in_set_conv_nth)
  then have "i < j \<or> j < i" using ne by (metis linorder_neqE_nat)
  moreover have "range_less (fst (m ! a)) (fst (m ! b))" if "a < b" "b < length m" for a b
    using assms(1) that unfolding tracker_wf_def
    by (elim conjE) (drule sorted_wrt_nth_less, assumption+)
  ultimately have "range_less (fst x) (fst y) \<or> range_less (fst y) (fst x)"
    using ij by blast
  then show False using assms(4, 5) by (auto simp: range_less_def contains_def)
qed

lemma find_unique:
  "x \<in> set m \<Longrightarrow> P x \<Longrightarrow> (\<And>y. y \<in> set m \<Longrightarrow> P y \<Longrightarrow> y = x) \<Longrightarrow> find P m = Some x"
proof (induction m)
  case (Cons a m)
  show ?case
  proof (cases "P a")
    case True
    then have "a = x" by (intro Cons.prems(3)) simp_all
    then show ?thesis using True by simp
  next
    case False
    then have "x \<in> set m" using Cons.prems(1, 2) by auto
    then have "find P m = Some x"
      by (rule Cons.IH [OF _ Cons.prems(2)]) (simp add: Cons.prems(3))
    then show ?thesis using False by simp
  qed
qed simp

lemma tracker_find_some:
  assumes "tracker_wf m"
  shows "tracker_find p m = Some d \<longleftrightarrow> (\<exists>r. (r, d) \<in> set m \<and> contains r p)"
proof
  assume "tracker_find p m = Some d"
  then obtain r where "find (\<lambda>x. contains (fst x) p) m = Some (r, d)"
    by (auto simp: tracker_find_eq)
  then show "\<exists>r. (r, d) \<in> set m \<and> contains r p"
    by (auto simp: find_Some_iff) (metis fst_conv nth_mem)
next
  assume "\<exists>r. (r, d) \<in> set m \<and> contains r p"
  then obtain r where r: "(r, d) \<in> set m" "contains r p" by blast
  have "find (\<lambda>x. contains (fst x) p) m = Some (r, d)"
  proof (rule find_unique)
    show "y = (r, d)" if "y \<in> set m" "contains (fst y) p" for y
      using tracker_wf_unique [OF assms that(1) r(1) that(2)] r(2) by simp
  qed (use r in simp_all)
  then show "tracker_find p m = Some d" by (simp add: tracker_find_eq)
qed

lemma tracker_find_none:
  assumes "tracker_wf m"
  shows "tracker_find p m = None \<longleftrightarrow> (\<forall>x \<in> set m. \<not> contains (fst x) p)"
  by (auto simp: tracker_find_eq find_None_iff)

section \<open>The contract the copy routines rely on\<close>

text \<open>
  A map from addresses to allocations: a block that is registered on fresh addresses is found
  from each of its bytes and from no other, and unregistering from any of its bytes takes back
  exactly that.
\<close>

locale allocation_map =
  fixes valid :: "'m \<Rightarrow> bool"
    and register :: "u64 \<Rightarrow> ATLData \<Rightarrow> 'm \<Rightarrow> 'm"
    and unregister :: "u64 \<Rightarrow> 'm \<Rightarrow> 'm"
    and lookup :: "u64 \<Rightarrow> 'm \<Rightarrow> ATLData option"
  assumes register_valid:
      "valid m \<Longrightarrow> b \<le> b + data_bytes d - 1 \<Longrightarrow> valid (register b d m)"
    and unregister_valid: "valid m \<Longrightarrow> valid (unregister p m)"
    and lookup_register:
      "valid m \<Longrightarrow> b \<le> b + data_bytes d - 1 \<Longrightarrow>
       (\<And>q. b \<le> q \<Longrightarrow> q \<le> b + data_bytes d - 1 \<Longrightarrow> lookup q m = None) \<Longrightarrow>
       lookup p (register b d m) =
         (if b \<le> p \<and> p \<le> b + data_bytes d - 1 then Some d else lookup p m)"
    and lookup_unregister:
      "valid m \<Longrightarrow> b \<le> b + data_bytes d - 1 \<Longrightarrow>
       (\<And>q. b \<le> q \<Longrightarrow> q \<le> b + data_bytes d - 1 \<Longrightarrow> lookup q m = None) \<Longrightarrow>
       b \<le> p \<Longrightarrow> p \<le> b + data_bytes d - 1 \<Longrightarrow>
       lookup q (unregister p (register b d m)) = lookup q m"
begin

lemma two_blocks:
  assumes "valid m" and "b \<le> b + data_bytes d - 1" "c \<le> c + data_bytes e - 1"
    and "b + data_bytes d - 1 < c"
    and "\<And>q. b \<le> q \<Longrightarrow> q \<le> c + data_bytes e - 1 \<Longrightarrow> lookup q m = None"
    and "b \<le> p" "p \<le> b + data_bytes d - 1"
  shows "lookup p (register c e (register b d m)) = Some d"
proof -
  let ?m = "register b d m"
  have 1: "lookup q ?m = (if b \<le> q \<and> q \<le> b + data_bytes d - 1 then Some d else lookup q m)" for q
    using assms(1-5) by (intro lookup_register) auto
  have "lookup p (register c e ?m) =
      (if c \<le> p \<and> p \<le> c + data_bytes e - 1 then Some e else lookup p ?m)"
    using assms by (intro lookup_register register_valid) (auto simp: 1)
  then show ?thesis using assms by (auto simp: 1)
qed

end

lemma contains_memory_range:
  "contains (memory_range b n) p \<longleftrightarrow> b \<le> p \<and> p \<le> b + n - 1"
  by (simp add: contains_def memory_range_def)

lemma tracker_insert_set:
  assumes "tracker_wf m" and "b \<le> b + data_bytes d - 1"
    and "\<And>q. b \<le> q \<Longrightarrow> q \<le> b + data_bytes d - 1 \<Longrightarrow> tracker_find q m = None"
  shows "set (tracker_insert b d m) = insert (memory_range b (data_bytes d), d) (set m)"
  unfolding tracker_insert_def
proof (rule map_insert_fresh)
  show "\<forall>x \<in> set m. \<not> overlaps (fst x) (memory_range b (data_bytes d))"
    using assms(3) tracker_find_none [OF assms(1)]
    by (auto simp: overlaps_def contains_memory_range)
qed (use assms in \<open>simp_all add: memory_range_def\<close>)

lemma tracker_insert_wf:
  "tracker_wf m \<Longrightarrow> b \<le> b + data_bytes d - 1 \<Longrightarrow> tracker_wf (tracker_insert b d m)"
  by (simp add: tracker_insert_def map_insert_wf memory_range_def)

lemma tracker_remove_wf: "tracker_wf m \<Longrightarrow> tracker_wf (tracker_remove p m)"
  by (auto simp: tracker_wf_def tracker_remove_eq sorted_wrt_filter)

lemma tracker_lookup_insert:
  assumes "tracker_wf m" and "b \<le> b + data_bytes d - 1"
    and "\<And>q. b \<le> q \<Longrightarrow> q \<le> b + data_bytes d - 1 \<Longrightarrow> tracker_find q m = None"
  shows "tracker_find p (tracker_insert b d m) =
    (if b \<le> p \<and> p \<le> b + data_bytes d - 1 then Some d else tracker_find p m)"
proof -
  note wf' = tracker_insert_wf [OF assms(1, 2)]
  have st: "set (tracker_insert b d m) = insert (memory_range b (data_bytes d), d) (set m)"
    using assms by (rule tracker_insert_set)
  show ?thesis
  proof (cases "b \<le> p \<and> p \<le> b + data_bytes d - 1")
    case True
    then show ?thesis
      using tracker_find_some [OF wf', of p d] st contains_memory_range by auto
  next
    case False
    have "tracker_find p (tracker_insert b d m) = Some e \<longleftrightarrow> tracker_find p m = Some e" for e
      using False unfolding tracker_find_some [OF wf'] tracker_find_some [OF assms(1)] st
      by (auto simp: contains_memory_range)
    then have "tracker_find p (tracker_insert b d m) = tracker_find p m"
      by (metis not_Some_eq)
    with False show ?thesis by (simp only: if_False)
  qed
qed

lemma tracker_remove_insert:
  assumes "tracker_wf m" and "b \<le> b + data_bytes d - 1"
    and free: "\<And>q. b \<le> q \<Longrightarrow> q \<le> b + data_bytes d - 1 \<Longrightarrow> tracker_find q m = None"
    and p: "b \<le> p" "p \<le> b + data_bytes d - 1"
  shows "tracker_find q (tracker_remove p (tracker_insert b d m)) = tracker_find q m"
proof -
  have wf': "tracker_wf (tracker_remove p (tracker_insert b d m))"
    using assms(1, 2) by (intro tracker_remove_wf tracker_insert_wf)
  have "tracker_find p m = None" using free p by blast
  then have "\<forall>x \<in> set m. \<not> contains (fst x) p" using tracker_find_none [OF assms(1)] by blast
  moreover have "set (tracker_insert b d m) = insert (memory_range b (data_bytes d), d) (set m)"
    using assms(1-3) by (rule tracker_insert_set)
  ultimately have "set (tracker_remove p (tracker_insert b d m)) = set m"
    using p unfolding tracker_remove_eq set_filter by (auto simp: contains_memory_range)
  then have "tracker_find q (tracker_remove p (tracker_insert b d m)) = Some e
      \<longleftrightarrow> tracker_find q m = Some e" for e
    unfolding tracker_find_some [OF wf'] tracker_find_some [OF assms(1)] by simp
  then show ?thesis by (metis not_Some_eq)
qed

interpretation am: allocation_map tracker_wf tracker_insert tracker_remove tracker_find
  by unfold_locales
     (simp_all add: tracker_insert_wf tracker_remove_wf tracker_lookup_insert
        tracker_remove_insert)

text \<open>
  Registration and release of an allocation are exact inverses for every lookup: a block
  registered on addresses that no live block uses is found from each of its bytes and from no
  other address, and removing it by any of its addresses leaves every lookup as it was.
\<close>

lemma tracker_roundtrip:
  assumes "tracker_wf m" and "b \<le> b + data_bytes d - 1"
    and "\<forall>q. b \<le> q \<and> q \<le> b + data_bytes d - 1 \<longrightarrow> tracker_find q m = None"
  shows "tracker_wf (tracker_insert b d m)
    \<and> tracker_find p (tracker_insert b d m) =
        (if b \<le> p \<and> p \<le> b + data_bytes d - 1 then Some d else tracker_find p m)
    \<and> (b \<le> p \<and> p \<le> b + data_bytes d - 1 \<longrightarrow>
        tracker_find q (tracker_remove p (tracker_insert b d m)) = tracker_find q m)"
  using assms am.lookup_register [of m b d p] am.lookup_unregister [of m b d p q]
    am.register_valid [of m b d]
  by auto

lemma tracker_roundtrip_witness:
  "tracker_find 0x1010 (tracker_insert 0x1000
     \<lparr>data_ptr = 0x1000, data_host_aliasptr = 0, data_bytes = 0x20,
      data_place = ATMI_MEM_PLACE_CPU_MEM 0 0 0, data_arg_type = ATMI_IN_OUT\<rparr> []) \<noteq> None"
proof -
  let ?d = "\<lparr>data_ptr = 0x1000, data_host_aliasptr = 0, data_bytes = 0x20,
      data_place = ATMI_MEM_PLACE_CPU_MEM 0 0 0, data_arg_type = ATMI_IN_OUT\<rparr>"
  show ?thesis
    using conjunct1 [OF conjunct2 [OF tracker_roundtrip [of "[]" "0x1000" ?d "0x1010" 0]]]
    by (simp add: tracker_wf_def tracker_find_def [of _ "[]"])
qed

section \<open>The direction of a copy\<close>

datatype Direction = ATMI_H2D | ATMI_D2H | ATMI_D2D | ATMI_H2H

definition is_host :: "ATLData option \<Rightarrow> bool" where
  "is_host d = (case d of None \<Rightarrow> True | Some x \<Rightarrow> dev_type (data_place x) = ATMI_DEVTYPE_CPU)"

definition copy_direction :: "ATLData option \<Rightarrow> ATLData option \<Rightarrow> Direction" where
  "copy_direction src_data dest_data =
     (if is_host src_data \<and> is_host dest_data then ATMI_H2H
      else if src_data \<noteq> None \<and> dest_data = None then ATMI_D2H
      else if src_data = None \<and> dest_data \<noteq> None then ATMI_H2D
      else ATMI_D2D)"

text \<open>
  The source and destination agents: the place of a tracked block that takes part in a device
  copy, else the first CPU.
\<close>

definition copy_agents ::
  "ATLMachine \<Rightarrow> ATLData option \<Rightarrow> ATLData option \<Rightarrow> (u64 \<times> u64) option" where
  "copy_agents mc src_data dest_data =
     Option.bind (get_mem_agent mc (ATMI_MEM_PLACE_CPU_MEM 0 0 0)) (\<lambda>cpu_agent.
       case (copy_direction src_data dest_data, src_data, dest_data) of
         (ATMI_D2H, Some sd, _) \<Rightarrow>
           map_option (\<lambda>a. (a, cpu_agent)) (get_mem_agent mc (data_place sd))
       | (ATMI_H2D, _, Some dd) \<Rightarrow>
           map_option (\<lambda>a. (cpu_agent, a)) (get_mem_agent mc (data_place dd))
       | (ATMI_D2D, Some sd, Some dd) \<Rightarrow>
           Option.bind (get_mem_agent mc (data_place sd))
             (\<lambda>a. map_option (\<lambda>b. (a, b)) (get_mem_agent mc (data_place dd)))
       | _ \<Rightarrow> Some (cpu_agent, cpu_agent))"

lemma copy_direction_staged:
  "copy_direction sd dd \<in> {ATMI_H2D, ATMI_D2H} \<longleftrightarrow>
   (sd = None \<and> \<not> is_host dd) \<or> (\<not> is_host sd \<and> dd = None)"
  by (auto simp: copy_direction_def is_host_def split: option.splits)

end
