(* ===== verification/Kernel.thy ===== *)
theory Kernel
  imports Atmi_Types
begin

text \<open>
  Kernels and their implementations: \<open>include/kernel.h\<close> and the value-level part of
  \<open>core/kernel.cpp\<close>. A kernel refers to its implementations by address; the heap of
  implementations is an argument here and a field of the global state. A kernarg pointer is null,
  a byte offset into the region of an implementation, the buffer a task allocated with
  \<open>malloc\<close> to keep its arguments until a segment is free, or a byte offset into the region of a
  template for tasks that a device launches.
\<close>

type_synonym tid = nat
type_synonym impl_ptr = nat

section \<open>Data\<close>

datatype kptr = KNull | KSegment impl_ptr nat | KStaging tid | KTemplate nat nat

definition MAX_NUM_KERNELS :: nat where "MAX_NUM_KERNELS = 1024 * 16"

definition sizeof_atmi_implicit_args :: u64 where "sizeof_atmi_implicit_args = 80"

record atl_kernel_info_t =
  kernel_object :: u64
  group_segment_size :: u32
  private_segment_size :: u32
  kernel_segment_size :: u32
  ki_num_args :: "u32 option"
  ki_arg_alignments :: "u64 list"
  ki_arg_offsets :: "u64 list"
  ki_arg_sizes :: "u64 list"

record KernelImpl =
  ki_id :: u32
  ki_name :: string
  ki_devtype :: atmi_devtype_t
  ki_platform :: atmi_platform_type_t
  arg_offsets :: "u64 list"
  has_kernarg_region :: bool
  free_kernarg_segments :: "nat list"
  kernarg_segment_size :: u32
  launched_tasks :: "tid list"
  kernel_objects :: "nat \<Rightarrow> u64"
  group_segment_sizes :: "nat \<Rightarrow> u32"
  private_segment_sizes :: "nat \<Rightarrow> u32"
  ki_function :: u64

record Kernel =
  kn_id :: u64
  kn_num_args :: nat
  kn_arg_sizes :: "u64 list"
  kn_impls :: "impl_ptr list"
  kn_id_map :: "u32 \<rightharpoonup> nat"

section \<open>Construction\<close>

definition new_Kernel :: "u64 \<Rightarrow> u64 list \<Rightarrow> Kernel" where
  "new_Kernel k_id sizes =
     \<lparr>kn_id = k_id, kn_num_args = length sizes, kn_arg_sizes = sizes, kn_impls = [],
      kn_id_map = Map.empty\<rparr>"

definition new_KernelImpl ::
  "u32 \<Rightarrow> string \<Rightarrow> atmi_platform_type_t \<Rightarrow> atmi_devtype_t \<Rightarrow> KernelImpl" where
  "new_KernelImpl kid name platform devtype =
     \<lparr>ki_id = kid, ki_name = name, ki_devtype = devtype, ki_platform = platform,
      arg_offsets = [], has_kernarg_region = False, free_kernarg_segments = [],
      kernarg_segment_size = 0, launched_tasks = [], kernel_objects = (\<lambda>_. 0),
      group_segment_sizes = (\<lambda>_. 0), private_segment_sizes = (\<lambda>_. 0), ki_function = 0\<rparr>"

text \<open>
  The argument offsets of a CPU implementation: \<open>kernarg_size\<close> is a \<open>uint32_t\<close> that the 64-bit
  argument sizes are added to.
\<close>

fun cpu_arg_offsets :: "u32 \<Rightarrow> u64 list \<Rightarrow> u64 list \<times> u32" where
  "cpu_arg_offsets kernarg_size [] = ([], kernarg_size)"
| "cpu_arg_offsets kernarg_size (sz # sizes) =
     (let (os, tot) = cpu_arg_offsets (kernarg_size + ucast sz) sizes
      in (ucast kernarg_size # os, tot))"

definition new_CPUKernelImpl :: "u32 \<Rightarrow> string \<Rightarrow> u64 \<Rightarrow> Kernel \<Rightarrow> KernelImpl" where
  "new_CPUKernelImpl kid name fp krn =
     (let (offs, kernarg_size) = cpu_arg_offsets 0 (take (kn_num_args krn) (kn_arg_sizes krn))
      in (new_KernelImpl kid name X86 ATMI_DEVTYPE_CPU)
           \<lparr>arg_offsets := offs, kernarg_segment_size := kernarg_size,
            has_kernarg_region := (kernarg_size \<noteq> 0),
            free_kernarg_segments := [0..<MAX_NUM_KERNELS], ki_function := fp\<rparr>)"

text \<open>
  The constructor of a GPU implementation collects, over the GPUs that have the kernel, the
  kernel objects and segment sizes per device, the largest kernarg segment, and the argument
  offsets of the first such GPU. The vectors are indexed after a \<open>reserve\<close> only; they are tot
  functions here, zero where nothing was written. A metadata list shorter than the number of
  arguments is read out of range, which is \<open>None\<close>.
\<close>

type_synonym kernel_table = "(string \<rightharpoonup> atl_kernel_info_t) list"

fun gpu_impl_loop ::
  "kernel_table \<Rightarrow> string \<Rightarrow> nat \<Rightarrow> nat list \<Rightarrow> bool \<Rightarrow> u32 \<Rightarrow> KernelImpl \<Rightarrow>
   (u32 \<times> KernelImpl) option" where
  "gpu_impl_loop tbl name nargs [] offsets_set max_size impl = Some (max_size, impl)"
| "gpu_impl_loop tbl name nargs (gpu # gpus) offsets_set max_size impl =
     (if \<not> gpu < length tbl then None
      else case (tbl ! gpu) name of
          None \<Rightarrow> gpu_impl_loop tbl name nargs gpus offsets_set max_size impl
        | Some info \<Rightarrow>
            let impl = impl\<lparr>kernel_objects := (kernel_objects impl)(gpu := kernel_object info),
                  group_segment_sizes :=
                    (group_segment_sizes impl)(gpu := group_segment_size info),
                  private_segment_sizes :=
                    (private_segment_sizes impl)(gpu := private_segment_size info)\<rparr>;
                max_size = (if max_size < kernel_segment_size info then kernel_segment_size info
                            else max_size)
            in if offsets_set then gpu_impl_loop tbl name nargs gpus True max_size impl
               else if length (ki_arg_offsets info) < nargs then None
               else gpu_impl_loop tbl name nargs gpus True max_size
                      (impl\<lparr>arg_offsets := take nargs (ki_arg_offsets info)\<rparr>))"

definition new_GPUKernelImpl ::
  "kernel_table \<Rightarrow> nat \<Rightarrow> u32 \<Rightarrow> string \<Rightarrow> Kernel \<Rightarrow> KernelImpl option" where
  "new_GPUKernelImpl tbl gpu_count kid name krn =
     (case gpu_impl_loop tbl name (kn_num_args krn) [0..<gpu_count] False 0
             (new_KernelImpl kid name AMDGCN ATMI_DEVTYPE_GPU) of
        None \<Rightarrow> None
      | Some (max_size, impl) \<Rightarrow>
          Some (impl\<lparr>kernarg_segment_size := max_size, has_kernarg_region := (0 < max_size),
                     free_kernarg_segments := [0..<MAX_NUM_KERNELS]\<rparr>))"

section \<open>Lookup of implementations\<close>

definition isValidId :: "Kernel \<Rightarrow> u32 \<Rightarrow> bool" where
  "isValidId krn kernel_id =
     (case kn_id_map krn kernel_id of
        None \<Rightarrow> False
      | Some idx \<Rightarrow> if idx \<ge> length (kn_impls krn) then False else True)"

definition getKernelIdMapIndex :: "Kernel \<Rightarrow> u32 \<Rightarrow> int" where
  "getKernelIdMapIndex krn kernel_id =
     (if \<not> isValidId krn kernel_id then -1
      else int (the (kn_id_map krn kernel_id)))"

definition getKernelImpl :: "Kernel \<Rightarrow> u32 \<Rightarrow> impl_ptr option" where
  "getKernelImpl krn kernel_id =
     (let idx = getKernelIdMapIndex krn kernel_id in
      if idx < 0 then None else Some (kn_impls krn ! nat idx))"

text \<open>
  The implementation that a launch uses: the requested one, or the first one for the place's
  device type. A kernel with arguments needs an allocated region. The result \<open>-1\<close> is an error;
  \<open>None\<close> is the null dereference of an implementation that \<open>getKernelImpl\<close> did not find.
\<close>

definition getKernelImplId ::
  "(impl_ptr \<Rightarrow> KernelImpl) \<Rightarrow> Kernel \<Rightarrow> atmi_lparm_t \<Rightarrow> int option" where
  "getKernelImplId heap krn lparm =
     (let kernel_id =
        (if lp_kernel_id lparm = -1 then
           (case find (\<lambda>k. ki_devtype (heap k) = pl_type (lp_place lparm)) (kn_impls krn) of
              None \<Rightarrow> -1
            | Some k \<Rightarrow> sint (ki_id (heap k)))
         else if \<not> isValidId krn (word_of_int (lp_kernel_id lparm)) then -1
         else lp_kernel_id lparm)
      in if kernel_id = -1 then Some (-1)
         else case getKernelImpl krn (word_of_int kernel_id) of
             None \<Rightarrow> if kn_num_args krn \<noteq> 0 then None else Some kernel_id
           | Some impl \<Rightarrow>
               if kn_num_args krn \<noteq> 0 \<and> \<not> has_kernarg_region (heap impl) then Some (-1)
               else Some kernel_id)"

text \<open>
  The well-formedness of a kernel: its map numbers the implementations that it lists, and each
  number is the identifier of the implementation found there.
\<close>

definition kernel_wf :: "(impl_ptr \<Rightarrow> KernelImpl) \<Rightarrow> Kernel \<Rightarrow> bool" where
  "kernel_wf heap krn \<longleftrightarrow>
     (\<forall>i < length (kn_impls krn).
        kn_id_map krn (ki_id (heap (kn_impls krn ! i))) = Some i) \<and>
     (\<forall>k i. kn_id_map krn k = Some i \<longrightarrow>
        i < length (kn_impls krn) \<and> ki_id (heap (kn_impls krn ! i)) = k)"

definition add_impl :: "Kernel \<Rightarrow> u32 \<Rightarrow> impl_ptr \<Rightarrow> Kernel" where
  "add_impl krn kid impl =
     krn\<lparr>kn_id_map := (kn_id_map krn)(kid \<mapsto> length (kn_impls krn)),
            kn_impls := kn_impls krn @ [impl]\<rparr>"

lemma new_Kernel_wf: "kernel_wf heap (new_Kernel k sizes)"
  by (simp add: kernel_wf_def new_Kernel_def)

lemma add_impl_wf:
  assumes wf: "kernel_wf heap krn" and new: "kn_id_map krn kid = None"
    and fresh: "impl \<notin> set (kn_impls krn)" and v: "ki_id v = kid"
  shows "kernel_wf (heap(impl := v)) (add_impl krn kid impl)"
proof -
  have h: "(heap(impl := v)) (kn_impls krn ! i) = heap (kn_impls krn ! i)"
    if "i < length (kn_impls krn)" for i
    using fresh that by (metis fun_upd_apply nth_mem)
  have ne: "ki_id (heap (kn_impls krn ! i)) \<noteq> kid" if "i < length (kn_impls krn)" for i
    using wf new that by (auto simp: kernel_wf_def)
  have wf1: "kn_id_map krn (ki_id (heap (kn_impls krn ! i))) = Some i"
    if "i < length (kn_impls krn)" for i
    using wf that unfolding kernel_wf_def by blast
  have wf2: "i < length (kn_impls krn)" "ki_id (heap (kn_impls krn ! i)) = k"
    if "kn_id_map krn k = Some i" for k i
    using wf that unfolding kernel_wf_def by blast+
  show ?thesis
    unfolding kernel_wf_def
  proof (intro conjI allI impI)
    fix i assume "i < length (kn_impls (add_impl krn kid impl))"
    then consider "i < length (kn_impls krn)" | "i = length (kn_impls krn)"
      by (fastforce simp: add_impl_def)
    then show "kn_id_map (add_impl krn kid impl)
        (ki_id ((heap(impl := v)) (kn_impls (add_impl krn kid impl) ! i))) = Some i"
    proof cases
      case 1
      then show ?thesis using wf1 [OF 1] ne [OF 1] h [OF 1]
        by (simp add: add_impl_def nth_append)
    next
      case 2
      then show ?thesis using v by (simp add: add_impl_def nth_append)
    qed
  next
    fix k i assume m: "kn_id_map (add_impl krn kid impl) k = Some i"
    show "i < length (kn_impls (add_impl krn kid impl))"
      and "ki_id ((heap(impl := v)) (kn_impls (add_impl krn kid impl) ! i)) = k"
      using m v wf2 [of k i] h [of i]
      by (auto simp: add_impl_def nth_append split: if_splits)
  qed
qed

lemma isValidId_wf:
  "kernel_wf heap krn \<Longrightarrow> isValidId krn k \<longleftrightarrow> kn_id_map krn k \<noteq> None"
  by (cases "kn_id_map krn k") (auto simp: kernel_wf_def isValidId_def not_le)

lemma getKernelImpl_wf:
  "kernel_wf heap krn \<Longrightarrow>
   getKernelImpl krn k = map_option (\<lambda>i. kn_impls krn ! i) (kn_id_map krn k)"
  by (cases "kn_id_map krn k")
     (auto simp: getKernelImpl_def getKernelIdMapIndex_def isValidId_wf)

lemma getKernelImpl_in: "getKernelImpl krn k = Some p \<Longrightarrow> p \<in> set (kn_impls krn)"
  by (auto simp: getKernelImpl_def getKernelIdMapIndex_def isValidId_def Let_def
      split: if_splits option.splits)

section \<open>Layout of kernarg memory\<close>

text \<open>
  \<open>free_idx * kernarg_segment_size\<close> is a product of an \<open>int\<close> and a \<open>uint32_t\<close>, hence 32 bits
  wide; so is the size \<open>kernarg_segment_size_ * MAX_NUM_KERNELS\<close> that is allocated.
\<close>

definition segment_offset :: "nat \<Rightarrow> u32 \<Rightarrow> nat" where
  "segment_offset idx sz = unat (of_nat idx * sz)"

definition region_bytes :: "u32 \<Rightarrow> nat" where
  "region_bytes sz = unat (sz * of_nat MAX_NUM_KERNELS)"

lemma segment_offset_nowrap:
  assumes "idx < MAX_NUM_KERNELS" and "unat sz * MAX_NUM_KERNELS \<le> 2 ^ 32"
  shows "segment_offset idx sz = idx * unat sz"
proof (cases "unat sz = 0")
  case False
  have "idx * unat sz < MAX_NUM_KERNELS * unat sz" using assms(1) False by simp
  also have "\<dots> \<le> 2 ^ 32" using assms(2) by (simp add: mult.commute)
  finally have "idx * unat sz < 2 ^ LENGTH(32)" by simp
  moreover have "idx < 2 ^ 32" using assms(1) by (simp add: MAX_NUM_KERNELS_def)
  ultimately show ?thesis
    by (simp add: segment_offset_def unat_word_ariths unat_of_nat)
next
  case True
  then have "sz = 0" by (simp add: unat_eq_0)
  then show ?thesis by (simp add: segment_offset_def)
qed

text \<open>
  Kernarg segments never share memory and stay inside the region, as long as the region
  that the 32-bit product asks for is the one that was meant (a segment of less than 256 KiB):
  different indexes of the free pool give disjoint byte ranges within the allocated bytes.
\<close>

lemma kernarg_segments_disjoint:
  assumes "unat sz * MAX_NUM_KERNELS < 2 ^ 32"
    and "i < MAX_NUM_KERNELS" and "j < MAX_NUM_KERNELS" and "i \<noteq> j"
  shows "{segment_offset i sz ..< segment_offset i sz + unat sz} \<inter>
         {segment_offset j sz ..< segment_offset j sz + unat sz} = {}
       \<and> segment_offset i sz + unat sz \<le> region_bytes sz"
proof -
  have oi: "segment_offset i sz = i * unat sz" and oj: "segment_offset j sz = j * unat sz"
    using assms by (simp_all add: segment_offset_nowrap)
  have r: "region_bytes sz = unat sz * MAX_NUM_KERNELS"
    using assms(1)
    by (simp add: region_bytes_def unat_word_ariths unat_of_nat MAX_NUM_KERNELS_def)
  have sep: "Suc a * unat sz \<le> b * unat sz" if "a < b" for a b
    using that by (intro mult_right_mono) auto
  have "Suc i * unat sz \<le> MAX_NUM_KERNELS * unat sz"
    using sep assms(2) by blast
  then have "segment_offset i sz + unat sz \<le> region_bytes sz"
    unfolding oi r by (simp add: mult.commute)
  moreover have "Suc i * unat sz \<le> j * unat sz \<or> Suc j * unat sz \<le> i * unat sz"
    using assms(4) sep by (meson linorder_neqE_nat)
  then have "{segment_offset i sz ..< segment_offset i sz + unat sz} \<inter>
      {segment_offset j sz ..< segment_offset j sz + unat sz} = {}"
    unfolding oi oj by auto
  ultimately show ?thesis by blast
qed

lemma kernarg_segments_disjoint_witness:
  "{segment_offset 1 64 ..< segment_offset 1 64 + 64} \<inter>
   {segment_offset 2 64 ..< segment_offset 2 64 + 64} = {}"
  using kernarg_segments_disjoint [of 64 1 2] by (simp add: MAX_NUM_KERNELS_def)

text \<open>
  The bound is needed: with a segment of 512 KiB the 32-bit products wrap, the region that is
  requested has no bytes at all and segments 0 and 8192 are the same memory.
\<close>

lemma kernarg_segments_collide:
  "region_bytes (2 ^ 19) = 0 \<and> segment_offset 8192 (2 ^ 19) = segment_offset 0 (2 ^ 19)
   \<and> 8192 < MAX_NUM_KERNELS"
  by (simp add: region_bytes_def segment_offset_def MAX_NUM_KERNELS_def)

lemma cpu_arg_offsets_sums:
  assumes "cpu_arg_offsets sz sizes = (os, tot)"
    and "unat sz + sum_list (map unat sizes) < 2 ^ 32"
  shows "length os = length sizes
    \<and> unat tot = unat sz + sum_list (map unat sizes)
    \<and> (\<forall>i < length sizes. unat (os ! i) = unat sz + sum_list (map unat (take i sizes)))"
  using assms
proof (induction sizes arbitrary: sz os tot)
  case (Cons a sizes)
  obtain os' where os': "cpu_arg_offsets (sz + ucast a) sizes = (os', tot)"
    and os: "os = ucast sz # os'"
    using Cons.prems(1) by (auto split: prod.splits)
  have ua: "unat (ucast a :: u32) = unat a"
    using Cons.prems(2) by (simp add: unsigned_ucast_eq take_bit_nat_eq_self)
  then have u: "unat (sz + ucast a) = unat sz + unat a"
    using Cons.prems(2) by (subst unat_add_lem [THEN iffD1]) auto
  have us: "unat (ucast sz :: u64) = unat sz"
    by (simp add: unsigned_ucast_eq take_bit_nat_eq_self order.strict_trans [OF unsigned_less])
  have "length os' = length sizes
    \<and> unat tot = unat (sz + ucast a) + sum_list (map unat sizes)
    \<and> (\<forall>i < length sizes. unat (os' ! i) =
         unat (sz + ucast a) + sum_list (map unat (take i sizes)))"
    using Cons.prems(2) by (intro Cons.IH [OF os']) (simp add: u)
  then show ?case using us u by (auto simp: os nth_Cons split: nat.splits)
qed simp

text \<open>
  The arguments of a CPU kernel are packed without overlap: when the sizes add up to less
  than 4 GiB, argument \<open>i\<close> starts right behind the arguments before it, every argument lies
  inside the segment, and the segment is exactly as long as all arguments together.
\<close>

lemma cpu_kernarg_layout:
  assumes "sum_list (map unat sizes) < 2 ^ 32" and "i < j" and "j < length sizes"
  shows "let impl = new_CPUKernelImpl kid name fp (new_Kernel k sizes);
             off = (\<lambda>i. unat (arg_offsets impl ! i))
         in off i + unat (sizes ! i) \<le> off j
          \<and> off j + unat (sizes ! j) \<le> unat (kernarg_segment_size impl)
          \<and> unat (kernarg_segment_size impl) = sum_list (map unat sizes)"
proof -
  obtain os tot where ot: "cpu_arg_offsets 0 sizes = (os, tot)" by fastforce
  from cpu_arg_offsets_sums [OF ot] assms(1)
  have t: "unat tot = sum_list (map unat sizes)"
    and o: "\<And>i. i < length sizes \<Longrightarrow> unat (os ! i) = sum_list (map unat (take i sizes))"
    by auto
  have step: "sum_list (map unat (take (Suc m) sizes)) =
      sum_list (map unat (take m sizes)) + unat (sizes ! m)" if "m < length sizes" for m
    using that by (simp add: take_Suc_conv_app_nth)
  have mono: "sum_list (map unat (take m sizes)) \<le> sum_list (map unat (take n sizes))"
    if "m \<le> n" for m n
    using that by (metis add.commute le_Suc_ex le_add1 map_append sum_list_append take_add)
  have "sum_list (map unat (take (Suc i) sizes)) \<le> sum_list (map unat (take j sizes))"
    using assms(2) by (intro mono) simp
  moreover have "sum_list (map unat (take (Suc j) sizes)) \<le> sum_list (map unat sizes)"
    using mono [of "Suc j" "length sizes"] assms(3) by simp
  ultimately show ?thesis
    using assms(2, 3) o step
    by (simp add: new_CPUKernelImpl_def new_Kernel_def ot t new_KernelImpl_def)
qed

lemma cpu_kernarg_layout_witness:
  "let impl = new_CPUKernelImpl 0 ''f'' 1 (new_Kernel 1 [8, 4, 16]);
       off = (\<lambda>i. unat (arg_offsets impl ! i))
   in off 1 + 4 \<le> off 2 \<and> unat (kernarg_segment_size impl) = 28"
  using cpu_kernarg_layout [of "[8, 4, 16]" 1 2 0 "''f''" 1 1] by (simp add: Let_def)

end
