(* ===== verification/Packets.thy ===== *)
theory Packets
  imports Atmi_Types
begin

text \<open>
  Bit-level helpers of the runtime: AQL packet headers (\<open>create_header\<close>,
  \<open>packet_store_release\<close>, \<open>get_packet_type\<close>), task handles, the alignment templates of
  \<open>internal.h\<close> and the clock difference \<open>get_nanosecs\<close>. Everything is at the width of the
  C++ types.
\<close>

section \<open>AQL packet headers\<close>

datatype hsa_packet_type_t =
    HSA_PACKET_TYPE_VENDOR_SPECIFIC | HSA_PACKET_TYPE_INVALID | HSA_PACKET_TYPE_KERNEL_DISPATCH
  | HSA_PACKET_TYPE_BARRIER_AND | HSA_PACKET_TYPE_AGENT_DISPATCH | HSA_PACKET_TYPE_BARRIER_OR

fun packet_type_num :: "hsa_packet_type_t \<Rightarrow> u16" where
  "packet_type_num HSA_PACKET_TYPE_VENDOR_SPECIFIC = 0"
| "packet_type_num HSA_PACKET_TYPE_INVALID = 1"
| "packet_type_num HSA_PACKET_TYPE_KERNEL_DISPATCH = 2"
| "packet_type_num HSA_PACKET_TYPE_BARRIER_AND = 3"
| "packet_type_num HSA_PACKET_TYPE_AGENT_DISPATCH = 4"
| "packet_type_num HSA_PACKET_TYPE_BARRIER_OR = 5"

definition HSA_PACKET_HEADER_TYPE :: nat where "HSA_PACKET_HEADER_TYPE = 0"
definition HSA_PACKET_HEADER_BARRIER :: nat where "HSA_PACKET_HEADER_BARRIER = 8"
definition HSA_PACKET_HEADER_ACQUIRE_FENCE_SCOPE :: nat where
  "HSA_PACKET_HEADER_ACQUIRE_FENCE_SCOPE = 9"
definition HSA_PACKET_HEADER_RELEASE_FENCE_SCOPE :: nat where
  "HSA_PACKET_HEADER_RELEASE_FENCE_SCOPE = 11"

lemmas header_positions [hdr_bits] =
  HSA_PACKET_HEADER_TYPE_def HSA_PACKET_HEADER_BARRIER_def
  HSA_PACKET_HEADER_ACQUIRE_FENCE_SCOPE_def HSA_PACKET_HEADER_RELEASE_FENCE_SCOPE_def

text \<open>The barrier argument is an \<open>int\<close> at the call sites that is a converted \<open>bool\<close>.\<close>

definition create_header ::
  "hsa_packet_type_t \<Rightarrow> bool \<Rightarrow> atmi_task_fence_scope_t \<Rightarrow> atmi_task_fence_scope_t \<Rightarrow> u16" where
  "create_header ty barrier acq_fence rel_fence =
     (let header = push_bit HSA_PACKET_HEADER_TYPE (packet_type_num ty);
          header = header OR push_bit HSA_PACKET_HEADER_BARRIER (of_bool barrier);
          header = header OR
            push_bit HSA_PACKET_HEADER_ACQUIRE_FENCE_SCOPE (of_nat (fence_num acq_fence));
          header = header OR
            push_bit HSA_PACKET_HEADER_RELEASE_FENCE_SCOPE (of_nat (fence_num rel_fence))
      in header)"

definition get_packet_type :: "u16 \<Rightarrow> u8" where
  "get_packet_type header = ucast (drop_bit HSA_PACKET_HEADER_TYPE header AND 0xFF)"

text \<open>The 32-bit word that \<open>packet_store_release\<close> writes at the start of a packet.\<close>

definition packet_store_release :: "u16 \<Rightarrow> u16 \<Rightarrow> u32" where
  "packet_store_release header rest = ucast header OR push_bit 16 (ucast rest)"

lemma create_header_type:
  "get_packet_type (create_header ty b acq rel) = ucast (packet_type_num ty)"
  by (cases ty; cases b; cases acq; cases rel)
     (simp_all add: create_header_def get_packet_type_def hdr_bits)

lemma create_header_barrier:
  "bit (create_header ty b acq rel) HSA_PACKET_HEADER_BARRIER = b"
  by (cases ty; cases b; cases acq; cases rel) (simp_all add: create_header_def hdr_bits bit_simps)

lemma create_header_acquire:
  "unat (take_bit 2 (drop_bit HSA_PACKET_HEADER_ACQUIRE_FENCE_SCOPE (create_header ty b acq rel)))
   = fence_num acq"
  by (cases ty; cases b; cases acq; cases rel) (simp_all add: create_header_def hdr_bits)

lemma create_header_release:
  "unat (take_bit 2 (drop_bit HSA_PACKET_HEADER_RELEASE_FENCE_SCOPE (create_header ty b acq rel)))
   = fence_num rel"
  by (cases ty; cases b; cases acq; cases rel) (simp_all add: create_header_def hdr_bits)

lemma packet_type_num_u8_inj:
  "(ucast (packet_type_num a) :: u8) = ucast (packet_type_num b) \<Longrightarrow> a = b"
  by (cases a; cases b) simp_all

lemma fence_num_inj: "fence_num a = fence_num b \<Longrightarrow> a = b"
  by (cases a; cases b) simp_all

text \<open>
  The header word determines the packet type, the barrier bit and the two fence scopes: the
  four bit fields do not overlap, so decoding with \<open>get_packet_type\<close> and the HSA field positions
  gives back exactly what \<open>create_header\<close> was given, and two headers are equal only for equal
  fields.
\<close>

lemma create_header_roundtrip:
  "get_packet_type (create_header ty b acq rel) = ucast (packet_type_num ty)
   \<and> bit (create_header ty b acq rel) HSA_PACKET_HEADER_BARRIER = b
   \<and> unat (take_bit 2 (drop_bit HSA_PACKET_HEADER_ACQUIRE_FENCE_SCOPE
       (create_header ty b acq rel))) = fence_num acq
   \<and> unat (take_bit 2 (drop_bit HSA_PACKET_HEADER_RELEASE_FENCE_SCOPE
       (create_header ty b acq rel))) = fence_num rel
   \<and> (create_header ty b acq rel = create_header ty' b' acq' rel')
       = (ty = ty' \<and> b = b' \<and> acq = acq' \<and> rel = rel')"
proof -
  have "create_header ty b acq rel = create_header ty' b' acq' rel' \<Longrightarrow>
      ty = ty' \<and> b = b' \<and> acq = acq' \<and> rel = rel'"
    using create_header_type [of ty b acq rel] create_header_type [of ty' b' acq' rel']
      create_header_barrier [of ty b acq rel] create_header_barrier [of ty' b' acq' rel']
      create_header_acquire [of ty b acq rel] create_header_acquire [of ty' b' acq' rel']
      create_header_release [of ty b acq rel] create_header_release [of ty' b' acq' rel']
    by (metis packet_type_num_u8_inj fence_num_inj)
  then show ?thesis
    using create_header_type create_header_barrier create_header_acquire create_header_release
    by blast
qed

lemma packet_store_release_header: "ucast (packet_store_release header rest) = header"
  unfolding packet_store_release_def by (rule bit_word_eqI) (auto simp: bit_simps)

lemma packet_store_release_rest: "ucast (drop_bit 16 (packet_store_release header rest)) = rest"
  unfolding packet_store_release_def
  by (rule bit_word_eqI) (auto simp: bit_simps dest: bit_imp_le_length)

section \<open>Task handles\<close>

text \<open>
  A handle is 64 bits wide and its low half is an \<open>int\<close>; assigning the \<open>int\<close> to the handle goes
  through \<open>&=\<close>, which sign-extends it.
\<close>

definition get_task_handle_ID :: "atmi_task_handle_t \<Rightarrow> u32" where
  "get_task_handle_ID t = ucast (0xFFFFFFFF AND t)"

definition set_task_handle_ID :: "atmi_task_handle_t \<Rightarrow> u32 \<Rightarrow> atmi_task_handle_t" where
  "set_task_handle_ID t ID =
     (let task_handle = t OR 0xFFFFFFFFFFFFFFFF in task_handle AND scast ID)"

lemma set_task_handle_ID_eq: "set_task_handle_ID t ID = scast ID"
proof -
  have "(0xFFFFFFFFFFFFFFFF :: u64) = - 1" by simp
  then show ?thesis by (simp only: set_task_handle_ID_def Let_def) simp
qed

lemma get_set_task_handle_ID: "get_task_handle_ID (set_task_handle_ID t ID) = ID"
proof -
  have m: "(0xFFFFFFFF :: u64) = mask 32" by (simp add: mask_eq_exp_minus_1)
  show ?thesis
    unfolding set_task_handle_ID_eq get_task_handle_ID_def m
    by (rule bit_word_eqI) (auto simp: bit_simps)
qed

section \<open>Alignment\<close>

text \<open>
  \<open>alignDown\<close> masks in the 64-bit type of \<open>alignment\<close> and casts back to the type of the value;
  \<open>alignUp\<close> casts the bumped value back before it aligns it down.
\<close>

definition alignDown :: "'a::len word \<Rightarrow> u64 \<Rightarrow> 'a word" where
  "alignDown v alignment = ucast ((ucast v :: u64) AND NOT (alignment - 1))"

definition alignUp :: "'a::len word \<Rightarrow> u64 \<Rightarrow> 'a word" where
  "alignUp v alignment = alignDown (ucast ((ucast v :: u64) + alignment - 1)) alignment"

lemma alignDown_pow2:
  fixes v :: u64
  shows "unat (alignDown v (2 ^ k)) = (unat v div 2 ^ k) * 2 ^ k"
proof -
  have "(2 ^ k - 1 :: u64) = mask k" by (simp add: mask_eq_exp_minus_1)
  then have "alignDown v (2 ^ k) = v AND NOT (mask k)"
    by (simp add: alignDown_def)
  then show ?thesis by (simp only: unat_and_not_mask)
qed

lemma unat_exp64: "k < 64 \<Longrightarrow> unat (2 ^ k :: u64) = 2 ^ k"
  using unsigned_push_bit_eq [of k "1 :: u64", where ?'a = nat]
    power_strict_increasing [of k 64 "2 :: nat"]
  by (simp add: push_bit_eq_mult take_bit_nat_eq_self)

lemma alignUp_pow2:
  fixes v :: u64
  assumes k: "k < 64" and ov: "unat v + 2 ^ k - 1 < 2 ^ 64"
  shows "unat (alignUp v (2 ^ k)) = ((unat v + 2 ^ k - 1) div 2 ^ k) * 2 ^ k"
proof -
  have p: "unat (2 ^ k - 1 :: u64) = 2 ^ k - 1"
  proof -
    have e: "unat (2 ^ k :: u64) = 2 ^ k" using k by (rule unat_exp64)
    then have "(2 ^ k :: u64) \<noteq> 0" by (metis power_not_zero unat_0 zero_neq_numeral)
    then show ?thesis by (simp add: unat_minus_one e)
  qed
  have "unat (v + (2 ^ k - 1)) = unat v + (2 ^ k - 1)"
    using ov p by (subst unat_add_lem [THEN iffD1]) simp_all
  then have "unat (v + 2 ^ k - 1) = unat v + 2 ^ k - 1" by (simp add: algebra_simps)
  then show ?thesis by (simp add: alignUp_def alignDown_pow2)
qed

text \<open>
  For a power-of-two alignment and a value that does not wrap, \<open>alignUp\<close> is the least
  multiple of the alignment that is not below the value.
\<close>

lemma alignUp_least_multiple:
  fixes v :: u64
  assumes "k < 64" and "unat v + 2 ^ k - 1 < 2 ^ 64"
  shows "2 ^ k dvd unat (alignUp v (2 ^ k))
    \<and> unat v \<le> unat (alignUp v (2 ^ k))
    \<and> (\<forall>m. 2 ^ k dvd m \<and> unat v \<le> m \<longrightarrow> unat (alignUp v (2 ^ k)) \<le> m)"
proof (intro conjI allI impI)
  note e = alignUp_pow2 [OF assms]
  show "2 ^ k dvd unat (alignUp v (2 ^ k))" by (simp add: e)
  show "unat v \<le> unat (alignUp v (2 ^ k))"
    unfolding e by (rule ceil_div_bounds) simp
  fix m assume m: "2 ^ k dvd m \<and> unat v \<le> m"
  then obtain q where q: "m = 2 ^ k * q" by (auto elim: dvdE)
  have "(unat v + 2 ^ k - 1) div 2 ^ k * 2 ^ k < m + 2 ^ k"
    using m ceil_div_bounds(2) [of "2 ^ k" "unat v"] by simp
  also have "m + 2 ^ k = (q + 1) * 2 ^ k" by (simp add: q)
  finally have "(unat v + 2 ^ k - 1) div 2 ^ k * 2 ^ k < (q + 1) * 2 ^ k" .
  then have "(unat v + 2 ^ k - 1) div 2 ^ k < q + 1" by (simp only: mult_less_cancel2)
  then show "unat (alignUp v (2 ^ k)) \<le> m" unfolding e q by simp
qed

lemma alignUp_least_multiple_witness:
  "2 ^ 3 dvd unat (alignUp (13 :: u64) (2 ^ 3)) \<and> 13 \<le> unat (alignUp (13 :: u64) (2 ^ 3))
   \<and> unat (alignUp (13 :: u64) (2 ^ 3)) = 16"
  using alignUp_least_multiple [of 3 "13 :: u64"] alignUp_pow2 [of 3 "13 :: u64"] by simp

section \<open>Clock differences\<close>

record timespec =
  tv_sec :: int
  tv_nsec :: int

definition NANOSECS :: int where "NANOSECS = 1000000000"

definition get_nanosecs :: "timespec \<Rightarrow> timespec \<Rightarrow> int" where
  "get_nanosecs start_t end_t =
     (if tv_nsec end_t - tv_nsec start_t < 0 then
        (tv_sec end_t - tv_sec start_t - 1) * NANOSECS
          + (NANOSECS + tv_nsec end_t - tv_nsec start_t)
      else
        (tv_sec end_t - tv_sec start_t) * NANOSECS + (tv_nsec end_t - tv_nsec start_t))"

lemma get_nanosecs_eq:
  "get_nanosecs s e = (tv_sec e * NANOSECS + tv_nsec e) - (tv_sec s * NANOSECS + tv_nsec s)"
  by (simp add: get_nanosecs_def algebra_simps)

end
