(* ===== verification/Resource_Pool.thy ===== *)
theory Resource_Pool
  imports Prelude
begin

text \<open>
  The contract of a pool of reusable resources, as the scheduler relies on it twice: the pool of
  completion signals \<open>FreeSignalPool\<close> and the pool of kernarg segments of a kernel
  implementation are both a \<open>std::queue\<close> that is popped at dispatch and pushed back by the
  completion handler. The laws speak of the multiset of free resources only; that resources are
  never shared and never lost follows for every provider.
\<close>

locale resource_pool =
  fixes free_list :: "'s \<Rightarrow> 'r list"
    and acquire :: "'s \<Rightarrow> ('r \<times> 's) option"
    and give_back :: "'r \<Rightarrow> 's \<Rightarrow> 's"
  assumes acquire_none: "acquire s = None \<longleftrightarrow> free_list s = []"
    and acquire_some:
      "acquire s = Some (r, s') \<Longrightarrow> mset (free_list s) = add_mset r (mset (free_list s'))"
    and give_back_free: "mset (free_list (give_back r s)) = add_mset r (mset (free_list s))"
begin

definition conserved :: "'r multiset \<Rightarrow> 'r multiset \<Rightarrow> 's \<Rightarrow> bool" where
  "conserved all_res held s \<longleftrightarrow> mset (free_list s) + held = all_res"

lemma acquire_conserves:
  "conserved A held s \<Longrightarrow> acquire s = Some (r, s') \<Longrightarrow> conserved A (add_mset r held) s'"
  by (auto simp: conserved_def dest: acquire_some)

lemma give_back_conserves:
  "conserved A (add_mset r held) s \<Longrightarrow> conserved A held (give_back r s)"
  by (simp add: conserved_def give_back_free)

lemma acquire_fresh:
  assumes "conserved A held s" and "\<And>x. Multiset.count A x \<le> 1"
    and "acquire s = Some (r, s')"
  shows "r \<notin># held"
proof
  assume "r \<in># held"
  then have "1 \<le> Multiset.count held r" by (simp add: Suc_le_eq)
  moreover have "1 \<le> Multiset.count (mset (free_list s)) r"
    using acquire_some [OF assms(3)] by simp
  ultimately have "2 \<le> Multiset.count A r"
    using assms(1) unfolding conserved_def by (metis add_mono one_add_one plus_multiset.rep_eq)
  then show False using assms(2) [of r] by linarith
qed

lemma acquire_unless_all_held:
  "conserved A held s \<Longrightarrow> held \<noteq> A \<Longrightarrow> \<exists>r s'. acquire s = Some (r, s')"
  using acquire_none [of s] by (cases "acquire s") (auto simp: conserved_def)

end

section \<open>The provider: front, pop and push of a queue\<close>

definition queue_acquire :: "'r list \<Rightarrow> ('r \<times> 'r list) option" where
  "queue_acquire q = (if q = [] then None else Some (hd q, tl q))"

definition queue_give_back :: "'r \<Rightarrow> 'r list \<Rightarrow> 'r list" where
  "queue_give_back r q = q @ [r]"

interpretation rq: resource_pool "\<lambda>q. q" queue_acquire queue_give_back
  by unfold_locales (auto simp: queue_acquire_def queue_give_back_def mset_hd_tl split: if_splits)

end
