(* ===== verification/Runtime_State.thy ===== *)
theory Runtime_State
  imports Data_Map Kernel Packets Resource_Pool "HOL-Library.Monad_Syntax"
begin

text \<open>
  The state of the runtime: the task objects of \<open>include/task.h\<close>, the task groups of
  \<open>include/taskgroup.h\<close> and the globals of \<open>core/task.cpp\<close> and \<open>core/taskgroup.cpp\<close>. Objects
  live in heaps indexed by their address. A task's address is its index in \<open>AllTasks\<close>, which is
  never shrunk; a group's address is its creation number. Operations that can crash (a null
  dereference, an index out of range, a failed assertion, \<open>exit\<close>) return an option.

  HSA is not part of the sources. What the runtime asks of it is appended to \<open>hsa_log\<close>, and what
  it answers is a function of the log, given with the constants of the machine in \<open>hsa_env\<close>.
  Completion handlers registered with \<open>hsa_amd_signal_async_handler\<close> are the list \<open>handlers\<close>,
  the detached threads of staged copies the list \<open>copy_threads\<close>.
  Mutexes are not modelled: one call of an operation below is one step.
\<close>

type_synonym gid = nat

section \<open>Tasks and groups\<close>

text \<open>
  The counters of predecessors and successors are \<open>uint32_t\<close> in the code and integers here. The
  invariants of the scheduler show that the first never drops below zero, and it takes \<open>2 ^ 32\<close>
  links to one task to wrap it around.
\<close>

record TaskImpl =
  tk_type :: atl_task_type_t
  tk_signal :: signal
  tk_packets :: "(qid \<times> u64) list"
  tk_id :: atmi_task_handle_t
  tk_place :: atmi_place_t
  tk_devtype :: atmi_devtype_t
  tk_state :: atmi_state_t
  tk_task_info :: "nat option"
  tk_group :: "gid option"
  tk_taskgroup :: atmi_taskgroup_handle_t
  num_predecessors :: int
  num_successors :: int
  predecessors :: "tid list"
  and_successors :: "tid list"
  and_predecessors :: "tid list"
  pred_groups :: "gid option list"
  prev_ordered :: "tid option"
  acquire_scope :: atmi_task_fence_scope_t
  release_scope :: atmi_task_fence_scope_t
  profilable :: bool
  groupable :: bool
  synchronous :: bool
  tk_kernel :: u64
  tk_kernel_id :: u32
  tk_kernarg :: kptr
  tk_kernarg_size :: u64
  tk_kernarg_index :: nat
  gridDim :: "u64 \<times> u64 \<times> u64"
  groupDim :: "u64 \<times> u64 \<times> u64"
  data_src_ptr :: u64
  data_dest_ptr :: u64
  data_size :: u64

text \<open>The constructor \<open>TaskImpl()\<close>; what it leaves uninitialised is zero or empty.\<close>

definition new_TaskImpl :: "atl_task_type_t \<Rightarrow> TaskImpl" where
  "new_TaskImpl ty =
     \<lparr>tk_type = ty, tk_signal = 0, tk_packets = [], tk_id = ATMI_NULL_TASK_HANDLE,
      tk_place = ATMI_DEFAULT_PLACE, tk_devtype = ATMI_DEVTYPE_ALL,
      tk_state = ATMI_UNINITIALIZED, tk_task_info = None, tk_group = None, tk_taskgroup = 0,
      num_predecessors = 0, num_successors = 0, predecessors = [], and_successors = [],
      and_predecessors = [], pred_groups = [], prev_ordered = None,
      acquire_scope = ATMI_FENCE_SCOPE_SYSTEM, release_scope = ATMI_FENCE_SCOPE_SYSTEM,
      profilable = False, groupable = False, synchronous = False, tk_kernel = 0,
      tk_kernel_id = - 1, tk_kernarg = KNull, tk_kernarg_size = 0, tk_kernarg_index = 0,
      gridDim = (0, 0, 0), groupDim = (0, 0, 0), data_src_ptr = 0, data_dest_ptr = 0,
      data_size = 0\<rparr>"

text \<open>
  \<open>dispatched_sink_tasks\<close> is a \<open>std::set\<close> of pointers; it is the list of its elements in
  iteration order.
\<close>

record TaskgroupImpl =
  tg_id :: u32
  tg_ordered :: bool
  last_task :: "tid option"
  gpu_queue :: "qid option"
  cpu_queue :: "qid option"
  tg_next_best_queue_id :: u32
  tg_place :: atmi_place_t
  tg_and_successors :: "tid list"
  group_signal :: signal
  task_count :: u32
  running_ordered :: "tid list"
  running_default :: "tid list"
  running_groupable :: "tid list"
  created_tasks :: "tid list"
  dispatched_tasks :: "tid list"
  dispatched_sink :: "tid list"
  first_dispatched :: bool
  callback_started :: bool

text \<open>The constructor of a group; the group's signal is a new one.\<close>

definition new_TaskgroupImpl :: "u32 \<Rightarrow> bool \<Rightarrow> atmi_place_t \<Rightarrow> signal \<Rightarrow> TaskgroupImpl" where
  "new_TaskgroupImpl gid ordered place sg =
     \<lparr>tg_id = gid, tg_ordered = ordered, last_task = None, gpu_queue = None, cpu_queue = None,
      tg_next_best_queue_id = 0, tg_place = place, tg_and_successors = [], group_signal = sg,
      task_count = 0, running_ordered = [], running_default = [], running_groupable = [],
      created_tasks = [], dispatched_tasks = [], dispatched_sink = [], first_dispatched = False,
      callback_started = False\<rparr>"

section \<open>What the runtime asks of HSA\<close>

text \<open>The fields of AQL packets that the runtime fills in.\<close>

record kernel_dispatch_packet =
  kd_header :: u16
  kd_setup :: u16
  kd_workgroup_size :: "u16 \<times> u16 \<times> u16"
  kd_grid_size :: "u32 \<times> u32 \<times> u32"
  kd_private_segment_size :: u32
  kd_group_segment_size :: u32
  kd_kernel_object :: u64
  kd_kernarg_address :: kptr
  kd_reserved2 :: u64
  kd_completion_signal :: signal

record agent_dispatch_packet =
  ad_header :: u16
  ad_type :: u16
  ad_task :: u64
  ad_kernarg :: kptr
  ad_kernel :: u64
  ad_tid :: u64
  ad_completion_signal :: signal

record barrier_packet =
  bp_header :: u16
  bp_dep_signal :: "signal list"
  bp_completion_signal :: "signal option"

datatype aql_packet =
    KernelPacket kernel_dispatch_packet
  | AgentPacket agent_dispatch_packet
  | BarrierPacket barrier_packet

datatype async_handler =
    HandleTask signal tid
  | HandleGroup signal gid
  | HandleBatch signal "tid list"

datatype hsa_call =
    AddWriteIndex qid
  | WaitSlot qid u64
  | WritePacket qid u64 aql_packet
  | RingDoorbell qid u64
  | SignalWorker qid
  | SignalAdd signal int
  | SignalStore signal int
  | SignalSubtract signal int
  | SignalCreate
  | SignalDestroy signal
  | WaitSignalZero signal
  | AsyncCopy u64 u64 u64 u64 u64 "signal list" signal
  | SpawnCopyThread tid
  | SetHostcall kptr u64
  | WaitTask tid
  | WaitGroup gid

text \<open>
  The answers of HSA and of the platform: the write index that an \<open>add_write_index\<close> returns and
  the current one, queue sizes, the handles of new signals, the three identity signals, the
  hostcall buffer of a queue, the dispatch times that profiling reports, and the addresses of
  task objects, which a set of pointers is iterated by.
\<close>

record hsa_env =
  write_index_of :: "hsa_call list \<Rightarrow> qid \<Rightarrow> u64"
  load_write_index_of :: "hsa_call list \<Rightarrow> qid \<Rightarrow> u64"
  queue_size_of :: "qid \<Rightarrow> u32"
  new_signal_of :: "hsa_call list \<Rightarrow> signal"
  IdentityORSignal :: signal
  IdentityANDSignal :: signal
  IdentityCopySignal :: signal
  hostcall_buffer :: "qid \<Rightarrow> nat \<Rightarrow> u64"
  dispatch_start :: "hsa_call list \<Rightarrow> signal \<Rightarrow> u64"
  dispatch_end :: "hsa_call list \<Rightarrow> signal \<Rightarrow> u64"
  timestamp_frequency :: u64
  clock_now :: "hsa_call list \<Rightarrow> timespec"
  context_init_time :: timespec
  task_addr :: "tid \<Rightarrow> u64"

section \<open>The global state\<close>

record rt_state =
  dep_sync :: atl_dep_sync_t
  machine :: ATLMachine
  n_tasks :: nat
  tasks :: "tid \<Rightarrow> TaskImpl"
  groups :: "gid \<Rightarrow> TaskgroupImpl"
  AllTaskgroups :: "gid option list"
  next_group_id :: u32
  kernels :: "u64 \<rightharpoonup> Kernel"
  kernel_counter :: u64
  impls :: "impl_ptr \<Rightarrow> KernelImpl"
  n_impls :: nat
  cpu_impl_counter :: nat
  KernelInfoTable :: kernel_table
  ReadyTaskQueue :: "tid list"
  FreeSignalPool :: "signal list"
  region_mem :: "impl_ptr \<Rightarrow> nat \<Rightarrow> u8"
  staging_mem :: "tid \<Rightarrow> nat \<Rightarrow> u8"
  template_mem :: "nat \<Rightarrow> nat \<Rightarrow> u8"
  user_tasks :: "nat \<Rightarrow> atmi_task_t"
  g_data_map :: tracker
  copy_threads :: "tid list"
  handlers :: "async_handler list"
  hsa_log :: "hsa_call list"
  task_process_hostcall_handler :: "u64 option"
  g_gpu_initialized :: bool
  g_cpu_initialized :: bool
  hostcall_required :: bool
  atmi_initialized :: bool
  g_tasks_initialized :: bool

text \<open>The globals before any call: every flag is clear and every table is empty.\<close>

definition rt_start :: "atl_dep_sync_t \<Rightarrow> ATLMachine \<Rightarrow> kernel_table \<Rightarrow> rt_state" where
  "rt_start sync mc tbl =
     \<lparr>dep_sync = sync, machine = mc, n_tasks = 0, tasks = (\<lambda>_. new_TaskImpl ATL_KERNEL_EXECUTION),
      groups = (\<lambda>_. new_TaskgroupImpl 0 False ATMI_DEFAULT_PLACE 0), AllTaskgroups = [],
      next_group_id = 0, kernels = Map.empty, kernel_counter = 0,
      impls = (\<lambda>_. new_KernelImpl 0 [] X86 ATMI_DEVTYPE_ALL), n_impls = 0, cpu_impl_counter = 0,
      KernelInfoTable = tbl, ReadyTaskQueue = [], FreeSignalPool = [],
      region_mem = (\<lambda>_ _. 0), staging_mem = (\<lambda>_ _. 0), template_mem = (\<lambda>_ _. 0),
      user_tasks = (\<lambda>_. \<lparr>at_state = ATMI_UNINITIALIZED,
        at_profile = \<lparr>dispatch_time = 0, ready_time = 0, start_time = 0, end_time = 0\<rparr>\<rparr>),
      g_data_map = [], copy_threads = [], handlers = [], hsa_log = [],
      task_process_hostcall_handler = None, g_gpu_initialized = False, g_cpu_initialized = False,
      hostcall_required = False, atmi_initialized = False, g_tasks_initialized = False\<rparr>"

definition upd_task :: "tid \<Rightarrow> (TaskImpl \<Rightarrow> TaskImpl) \<Rightarrow> rt_state \<Rightarrow> rt_state" where
  "upd_task x f s = s\<lparr>tasks := (tasks s)(x := f (tasks s x))\<rparr>"

definition upd_group :: "gid \<Rightarrow> (TaskgroupImpl \<Rightarrow> TaskgroupImpl) \<Rightarrow> rt_state \<Rightarrow> rt_state" where
  "upd_group x f s = s\<lparr>groups := (groups s)(x := f (groups s x))\<rparr>"

definition upd_impl :: "impl_ptr \<Rightarrow> (KernelImpl \<Rightarrow> KernelImpl) \<Rightarrow> rt_state \<Rightarrow> rt_state" where
  "upd_impl x f s = s\<lparr>impls := (impls s)(x := f (impls s x))\<rparr>"

lemma upd_task_fields [simp]:
  "dep_sync (upd_task x f s) = dep_sync s"
  "machine (upd_task x f s) = machine s"
  "n_tasks (upd_task x f s) = n_tasks s"
  "groups (upd_task x f s) = groups s"
  "AllTaskgroups (upd_task x f s) = AllTaskgroups s"
  "next_group_id (upd_task x f s) = next_group_id s"
  "kernels (upd_task x f s) = kernels s"
  "kernel_counter (upd_task x f s) = kernel_counter s"
  "impls (upd_task x f s) = impls s"
  "n_impls (upd_task x f s) = n_impls s"
  "cpu_impl_counter (upd_task x f s) = cpu_impl_counter s"
  "KernelInfoTable (upd_task x f s) = KernelInfoTable s"
  "ReadyTaskQueue (upd_task x f s) = ReadyTaskQueue s"
  "FreeSignalPool (upd_task x f s) = FreeSignalPool s"
  "region_mem (upd_task x f s) = region_mem s"
  "staging_mem (upd_task x f s) = staging_mem s"
  "template_mem (upd_task x f s) = template_mem s"
  "user_tasks (upd_task x f s) = user_tasks s"
  "g_data_map (upd_task x f s) = g_data_map s"
  "copy_threads (upd_task x f s) = copy_threads s"
  "handlers (upd_task x f s) = handlers s"
  "hsa_log (upd_task x f s) = hsa_log s"
  "task_process_hostcall_handler (upd_task x f s) = task_process_hostcall_handler s"
  "g_gpu_initialized (upd_task x f s) = g_gpu_initialized s"
  "g_cpu_initialized (upd_task x f s) = g_cpu_initialized s"
  "hostcall_required (upd_task x f s) = hostcall_required s"
  "atmi_initialized (upd_task x f s) = atmi_initialized s"
  "g_tasks_initialized (upd_task x f s) = g_tasks_initialized s"
  "tasks (upd_task x f s) = (tasks s)(x := f (tasks s x))"
  by (simp_all add: upd_task_def)

lemma upd_group_fields [simp]:
  "dep_sync (upd_group x f s) = dep_sync s"
  "machine (upd_group x f s) = machine s"
  "n_tasks (upd_group x f s) = n_tasks s"
  "tasks (upd_group x f s) = tasks s"
  "AllTaskgroups (upd_group x f s) = AllTaskgroups s"
  "next_group_id (upd_group x f s) = next_group_id s"
  "kernels (upd_group x f s) = kernels s"
  "kernel_counter (upd_group x f s) = kernel_counter s"
  "impls (upd_group x f s) = impls s"
  "n_impls (upd_group x f s) = n_impls s"
  "cpu_impl_counter (upd_group x f s) = cpu_impl_counter s"
  "KernelInfoTable (upd_group x f s) = KernelInfoTable s"
  "ReadyTaskQueue (upd_group x f s) = ReadyTaskQueue s"
  "FreeSignalPool (upd_group x f s) = FreeSignalPool s"
  "region_mem (upd_group x f s) = region_mem s"
  "staging_mem (upd_group x f s) = staging_mem s"
  "template_mem (upd_group x f s) = template_mem s"
  "user_tasks (upd_group x f s) = user_tasks s"
  "g_data_map (upd_group x f s) = g_data_map s"
  "copy_threads (upd_group x f s) = copy_threads s"
  "handlers (upd_group x f s) = handlers s"
  "hsa_log (upd_group x f s) = hsa_log s"
  "task_process_hostcall_handler (upd_group x f s) = task_process_hostcall_handler s"
  "g_gpu_initialized (upd_group x f s) = g_gpu_initialized s"
  "g_cpu_initialized (upd_group x f s) = g_cpu_initialized s"
  "hostcall_required (upd_group x f s) = hostcall_required s"
  "atmi_initialized (upd_group x f s) = atmi_initialized s"
  "g_tasks_initialized (upd_group x f s) = g_tasks_initialized s"
  "groups (upd_group x f s) = (groups s)(x := f (groups s x))"
  by (simp_all add: upd_group_def)

lemma upd_impl_fields [simp]:
  "dep_sync (upd_impl x f s) = dep_sync s"
  "machine (upd_impl x f s) = machine s"
  "n_tasks (upd_impl x f s) = n_tasks s"
  "tasks (upd_impl x f s) = tasks s"
  "groups (upd_impl x f s) = groups s"
  "AllTaskgroups (upd_impl x f s) = AllTaskgroups s"
  "next_group_id (upd_impl x f s) = next_group_id s"
  "kernels (upd_impl x f s) = kernels s"
  "kernel_counter (upd_impl x f s) = kernel_counter s"
  "n_impls (upd_impl x f s) = n_impls s"
  "cpu_impl_counter (upd_impl x f s) = cpu_impl_counter s"
  "KernelInfoTable (upd_impl x f s) = KernelInfoTable s"
  "ReadyTaskQueue (upd_impl x f s) = ReadyTaskQueue s"
  "FreeSignalPool (upd_impl x f s) = FreeSignalPool s"
  "region_mem (upd_impl x f s) = region_mem s"
  "staging_mem (upd_impl x f s) = staging_mem s"
  "template_mem (upd_impl x f s) = template_mem s"
  "user_tasks (upd_impl x f s) = user_tasks s"
  "g_data_map (upd_impl x f s) = g_data_map s"
  "copy_threads (upd_impl x f s) = copy_threads s"
  "handlers (upd_impl x f s) = handlers s"
  "hsa_log (upd_impl x f s) = hsa_log s"
  "task_process_hostcall_handler (upd_impl x f s) = task_process_hostcall_handler s"
  "g_gpu_initialized (upd_impl x f s) = g_gpu_initialized s"
  "g_cpu_initialized (upd_impl x f s) = g_cpu_initialized s"
  "hostcall_required (upd_impl x f s) = hostcall_required s"
  "atmi_initialized (upd_impl x f s) = atmi_initialized s"
  "g_tasks_initialized (upd_impl x f s) = g_tasks_initialized s"
  "impls (upd_impl x f s) = (impls s)(x := f (impls s x))"
  by (simp_all add: upd_impl_def)
definition log_call :: "hsa_call \<Rightarrow> rt_state \<Rightarrow> rt_state" where
  "log_call c s = s\<lparr>hsa_log := hsa_log s @ [c]\<rparr>"

abbreviation state_of :: "rt_state \<Rightarrow> tid \<Rightarrow> atmi_state_t" where
  "state_of s t \<equiv> tk_state (tasks s t)"

section \<open>Elementary operations\<close>

definition set_state :: "tid \<Rightarrow> atmi_state_t \<Rightarrow> rt_state \<Rightarrow> rt_state" where
  "set_state t st s =
     (let s = upd_task t (\<lambda>k. k\<lparr>tk_state := st\<rparr>) s in
      case tk_task_info (tasks s t) of
        None \<Rightarrow> s
      | Some u \<Rightarrow> s\<lparr>user_tasks := (user_tasks s)(u := (user_tasks s u)\<lparr>at_state := st\<rparr>)\<rparr>)"

text \<open>
  \<open>get_task_handle_ID\<close> returns an \<open>int\<close> that indexes the vector; the null handle is the null
  pointer, any other handle that was not given out is an access out of range.
\<close>

definition getTaskImpl :: "rt_state \<Rightarrow> atmi_task_handle_t \<Rightarrow> tid option option" where
  "getTaskImpl s t =
     (if t \<noteq> ATMI_NULL_TASK_HANDLE then
        (let idx = unat (scast (get_task_handle_ID t) :: u64) in
         if idx < n_tasks s then Some (Some idx) else None)
      else Some None)"

definition getTaskgroupImpl :: "rt_state \<Rightarrow> atmi_taskgroup_handle_t \<Rightarrow> gid option" where
  "getTaskgroupImpl s t =
     (if unat t < length (AllTaskgroups s) then AllTaskgroups s ! unat t else None)"

definition get_kernel_obj :: "rt_state \<Rightarrow> u64 \<Rightarrow> Kernel option" where
  "get_kernel_obj s k = kernels s k"

definition task_impl :: "rt_state \<Rightarrow> tid \<Rightarrow> impl_ptr option" where
  "task_impl s t =
     Option.bind (kernels s (tk_kernel (tasks s t)))
       (\<lambda>krn. getKernelImpl krn (tk_kernel_id (tasks s t)))"

definition updateMetrics :: "hsa_env \<Rightarrow> tid \<Rightarrow> rt_state \<Rightarrow> rt_state option" where
  "updateMetrics E t s =
     (let k = tasks s t in
      if profilable k \<and> tk_devtype k = ATMI_DEVTYPE_GPU then
        do {
          _ \<leftarrow> get_compute_agent (machine s) (tk_place k);
          case tk_task_info k of
            None \<Rightarrow> Some s
          | Some u \<Rightarrow>
              let unit = timestamp_frequency E div of_int NANOSECS in
              if unit = 0 then None
              else
                let st = dispatch_start E (hsa_log s) (tk_signal k) div unit;
                    en = dispatch_end E (hsa_log s) (tk_signal k) div unit
                in Some (s\<lparr>user_tasks := (user_tasks s)(u := (user_tasks s u)\<lparr>at_profile :=
                       \<lparr>dispatch_time = st, ready_time = st, start_time = st, end_time = en\<rparr>\<rparr>)\<rparr>)
        }
      else Some s)"

definition RegisterTaskHostcallHandler :: "u64 \<Rightarrow> rt_state \<Rightarrow> atmi_status_t \<times> rt_state" where
  "RegisterTaskHostcallHandler fp s =
     (case task_process_hostcall_handler s of
        None \<Rightarrow> (ATMI_STATUS_SUCCESS, s\<lparr>task_process_hostcall_handler := Some fp\<rparr>)
      | Some _ \<Rightarrow> (ATMI_STATUS_ERROR, s))"

section \<open>What scheduling looks at\<close>

text \<open>
  Much of the code writes packets, user memory or the choice of a queue and does not touch what
  the scheduling decisions read. \<open>sched_core\<close> erases those parts of a state; an operation that
  leaves it alone preserves every invariant that is stated on it.
\<close>

definition task_core :: "TaskImpl \<Rightarrow> TaskImpl" where
  "task_core k = k\<lparr>tk_packets := [], tk_kernarg := KNull\<rparr>"

definition group_core :: "TaskgroupImpl \<Rightarrow> TaskgroupImpl" where
  "group_core g = g\<lparr>gpu_queue := None, cpu_queue := None, tg_next_best_queue_id := 0\<rparr>"

definition sched_core :: "rt_state \<Rightarrow> rt_state" where
  "sched_core s = s\<lparr>hsa_log := [], region_mem := (\<lambda>_ _. 0), staging_mem := (\<lambda>_ _. 0),
      template_mem := (\<lambda>_ _. 0), user_tasks := (\<lambda>_. undefined), tasks := task_core \<circ> tasks s,
      groups := group_core \<circ> groups s\<rparr>"

lemma sched_core_log [simp]: "sched_core (log_call c s) = sched_core s"
  by (simp add: sched_core_def log_call_def)

lemma sched_core_mem [simp]:
  "sched_core (s\<lparr>region_mem := a\<rparr>) = sched_core s"
  "sched_core (s\<lparr>staging_mem := b\<rparr>) = sched_core s"
  "sched_core (s\<lparr>user_tasks := c\<rparr>) = sched_core s"
  "sched_core (s\<lparr>hsa_log := d\<rparr>) = sched_core s"
  "sched_core (s\<lparr>template_mem := e\<rparr>) = sched_core s"
  by (simp_all add: sched_core_def)

lemma sched_core_upd_task:
  "(\<And>k. task_core (f k) = task_core k) \<Longrightarrow> sched_core (upd_task t f s) = sched_core s"
  by (simp add: sched_core_def upd_task_def fun_eq_iff)

lemma sched_core_upd_group:
  "(\<And>k. group_core (f k) = group_core k) \<Longrightarrow> sched_core (upd_group t f s) = sched_core s"
  by (simp add: sched_core_def upd_group_def fun_eq_iff)

lemma sched_core_upd_task_comm:
  "(\<And>k. task_core (f k) = f (task_core k)) \<Longrightarrow>
   sched_core (upd_task t f s) = upd_task t f (sched_core s)"
  by (simp add: sched_core_def upd_task_def fun_eq_iff)

lemma sched_core_upd_group_comm:
  "(\<And>k. group_core (f k) = f (group_core k)) \<Longrightarrow>
   sched_core (upd_group t f s) = upd_group t f (sched_core s)"
  by (simp add: sched_core_def upd_group_def fun_eq_iff)

lemma sched_core_set_state:
  "sched_core (set_state t st s) = sched_core (upd_task t (\<lambda>k. k\<lparr>tk_state := st\<rparr>) s)"
  by (simp add: set_state_def Let_def split: option.splits)

lemma updateMetrics_core: "updateMetrics E t s = Some s' \<Longrightarrow> sched_core s' = sched_core s"
  by (auto simp: updateMetrics_def Let_def bind_eq_Some_conv split: if_splits option.splits)

end
