(* ===== verification/Taskgroup.thy ===== *)
theory Taskgroup
  imports Runtime_State
begin

text \<open>
  Task groups: \<open>core/taskgroup.cpp\<close> and the queue choice of \<open>include/taskgroup.h\<close>. A group is
  created at the address that is its index in \<open>AllTaskgroups\<close>; a released group leaves a null
  entry behind, so that handles stay valid.
\<close>

section \<open>Creation and release\<close>

text \<open>
  \<open>TaskGroupCreate\<close> with a handle to write to. \<open>None\<close> is the failed assertion that the group's
  number is its index.
\<close>

definition TaskGroupCreate ::
  "hsa_env \<Rightarrow> bool \<Rightarrow> atmi_place_t \<Rightarrow> rt_state \<Rightarrow> (atmi_taskgroup_handle_t \<times> rt_state) option" where
  "TaskGroupCreate E ordered place s =
     (let g = length (AllTaskgroups s);
          obj = new_TaskgroupImpl (next_group_id s) ordered place (new_signal_of E (hsa_log s));
          s = log_call SignalCreate s;
          s = s\<lparr>next_group_id := next_group_id s + 1, groups := (groups s)(g := obj),
                AllTaskgroups := AllTaskgroups s @ [Some g]\<rparr>
      in if length (AllTaskgroups s) - 1 = unat (tg_id obj)
         then Some (ucast (tg_id obj), s) else None)"

definition TaskGroupRelease ::
  "atmi_taskgroup_handle_t \<Rightarrow> rt_state \<Rightarrow> atmi_status_t \<times> rt_state" where
  "TaskGroupRelease h s =
     (case getTaskgroupImpl s h of
        None \<Rightarrow> (ATMI_STATUS_ERROR, s)
      | Some g \<Rightarrow>
          let s = log_call (SignalDestroy (group_signal (groups s g))) s;
              s = upd_group g (\<lambda>k. k\<lparr>running_groupable := [], running_ordered := [],
                    running_default := [], tg_and_successors := []\<rparr>) s
          in (ATMI_STATUS_SUCCESS, s\<lparr>AllTaskgroups := (AllTaskgroups s)[unat h := None]\<rparr>))"

definition clearSavedTasks :: "gid \<Rightarrow> rt_state \<Rightarrow> rt_state" where
  "clearSavedTasks g s =
     upd_group g (\<lambda>k. k\<lparr>running_ordered := [], running_default := [], running_groupable := []\<rparr>) s"

section \<open>The table of groups\<close>

text \<open>
  The table is numbered by the static counter and each live entry is the group created at that
  index.
\<close>

definition groups_wf :: "rt_state \<Rightarrow> bool" where
  "groups_wf s \<longleftrightarrow>
     unat (next_group_id s) = length (AllTaskgroups s) \<and>
     (\<forall>i < length (AllTaskgroups s). AllTaskgroups s ! i \<in> {None, Some i})"

lemma TaskGroupCreate_wf:
  assumes "groups_wf s" and "length (AllTaskgroups s) + 1 < 2 ^ 32"
  shows "\<exists>h s'. TaskGroupCreate E ordered place s = Some (h, s') \<and> groups_wf s'
    \<and> unat h = length (AllTaskgroups s) \<and> getTaskgroupImpl s' h = Some (unat h)
    \<and> AllTaskgroups s' = AllTaskgroups s @ [Some (unat h)]
    \<and> groups s' = (groups s)(unat h := new_TaskgroupImpl (next_group_id s) ordered place
          (new_signal_of E (hsa_log s)))
    \<and> tasks s' = tasks s \<and> n_tasks s' = n_tasks s"
proof -
  let ?n = "next_group_id s"
  have n: "unat ?n = length (AllTaskgroups s)" using assms(1) by (simp add: groups_wf_def)
  have inc: "unat (?n + 1) = Suc (unat ?n)"
    using assms(2) n by (simp add: unat_word_ariths)
  have uc: "unat (ucast ?n :: u64) = unat ?n"
    by (simp add: unsigned_ucast_eq take_bit_nat_eq_self order.strict_trans [OF unsigned_less])
  show ?thesis
    using assms(1) n inc
    by (auto simp: TaskGroupCreate_def Let_def new_TaskgroupImpl_def log_call_def groups_wf_def
        getTaskgroupImpl_def uc nth_append less_Suc_eq)
qed

lemma TaskGroupRelease_table:
  "AllTaskgroups (snd (TaskGroupRelease h s)) =
     (if getTaskgroupImpl s h = None then AllTaskgroups s else (AllTaskgroups s)[unat h := None])"
  "next_group_id (snd (TaskGroupRelease h s)) = next_group_id s"
  by (auto simp: TaskGroupRelease_def Let_def log_call_def split: option.splits)

lemma TaskGroupRelease_wf: "groups_wf s \<Longrightarrow> groups_wf (snd (TaskGroupRelease h s))"
  unfolding groups_wf_def TaskGroupRelease_table
  by (auto simp: nth_list_update) (metis nth_list_update_eq nth_list_update_neq)

text \<open>
  A group handle denotes the group it was given out for, until that group is released:
  creating and releasing other groups does not change what the handle finds, and after the
  release it finds nothing, for good.
\<close>

lemma taskgroup_handle_stable:
  assumes "groups_wf s" and "length (AllTaskgroups s) + 1 < 2 ^ 32"
    and "getTaskgroupImpl s h = Some g"
  shows "(\<exists>h' s'. TaskGroupCreate E ordered place s = Some (h', s') \<and> groups_wf s'
            \<and> h' \<noteq> h \<and> getTaskgroupImpl s' h = Some g \<and> groups s' g = groups s g)
    \<and> (h2 \<noteq> h \<longrightarrow> getTaskgroupImpl (snd (TaskGroupRelease h2 s)) h = Some g)
    \<and> fst (TaskGroupRelease h s) = ATMI_STATUS_SUCCESS
    \<and> getTaskgroupImpl (snd (TaskGroupRelease h s)) h = None"
proof (intro conjI)
  have hb: "unat h < length (AllTaskgroups s)" and hg: "AllTaskgroups s ! unat h = Some g"
    using assms(3) by (auto simp: getTaskgroupImpl_def split: if_splits)
  have g: "g = unat h" using assms(1) hb hg by (fastforce simp: groups_wf_def)
  obtain h' s' where c: "TaskGroupCreate E ordered place s = Some (h', s')" "groups_wf s'"
    "unat h' = length (AllTaskgroups s)" "AllTaskgroups s' = AllTaskgroups s @ [Some (unat h')]"
    "groups s' = (groups s)(unat h' := new_TaskgroupImpl (next_group_id s) ordered place
          (new_signal_of E (hsa_log s)))"
    using TaskGroupCreate_wf [OF assms(1, 2), of E ordered place] by blast
  have "h' \<noteq> h" using c(3) hb by auto
  moreover have "getTaskgroupImpl s' h = Some g"
    using c(4) hb hg by (simp add: getTaskgroupImpl_def nth_append)
  moreover have "groups s' g = groups s g" using c(3, 5) hb g by simp
  ultimately show "\<exists>h' s'. TaskGroupCreate E ordered place s = Some (h', s') \<and> groups_wf s'
            \<and> h' \<noteq> h \<and> getTaskgroupImpl s' h = Some g \<and> groups s' g = groups s g"
    using c(1, 2) by blast
  show "h2 \<noteq> h \<longrightarrow> getTaskgroupImpl (snd (TaskGroupRelease h2 s)) h = Some g"
    using hb hg
    by (auto simp: TaskGroupRelease_def getTaskgroupImpl_def Let_def log_call_def
        nth_list_update word_unat_eq_iff split: if_splits option.splits)
  show "fst (TaskGroupRelease h s) = ATMI_STATUS_SUCCESS"
    by (simp add: TaskGroupRelease_def assms(3) Let_def)
  show "getTaskgroupImpl (snd (TaskGroupRelease h s)) h = None"
    using hb unfolding getTaskgroupImpl_def [of "snd _"] TaskGroupRelease_table
    by (simp add: assms(3))
qed

lemma taskgroup_handle_stable_witness:
  "let s = (rt_start ATL_SYNC_CALLBACK \<lparr>cpu_processors = [], gpu_processors = [], dsp_processors = []\<rparr> [])
             \<lparr>AllTaskgroups := [Some 0, Some 1], next_group_id := 2\<rparr>
   in getTaskgroupImpl s 0 = Some 0 \<and> getTaskgroupImpl (snd (TaskGroupRelease 1 s)) 0 = Some 0 \<and>
     getTaskgroupImpl (snd (TaskGroupRelease 0 s)) 0 = None"
proof -
  let ?s = "(rt_start ATL_SYNC_CALLBACK \<lparr>cpu_processors = [], gpu_processors = [], dsp_processors = []\<rparr> [])
             \<lparr>AllTaskgroups := [Some 0, Some 1], next_group_id := 2\<rparr>"
  have wf: "groups_wf ?s" by (simp add: groups_wf_def nth_Cons')
  have l: "length (AllTaskgroups ?s) + 1 < 2 ^ 32" by simp
  have g: "getTaskgroupImpl ?s 0 = Some 0" by (simp add: getTaskgroupImpl_def)
  show ?thesis
    using taskgroup_handle_stable [OF wf l g, of undefined False ATMI_DEFAULT_PLACE 1] g by simp
qed

section \<open>The choice of a queue\<close>

definition getBestQueueID :: "atmi_scheduler_t \<Rightarrow> TaskgroupImpl \<Rightarrow> int \<times> TaskgroupImpl" where
  "getBestQueueID sched g =
     (case sched of
        ATMI_SCHED_NONE \<Rightarrow> (sint (tg_next_best_queue_id g), g)
      | ATMI_SCHED_RR \<Rightarrow>
          (sint (tg_next_best_queue_id g),
           g\<lparr>tg_next_best_queue_id := tg_next_best_queue_id g + 1\<rparr>))"

text \<open>
  \<open>chooseQueueFromPlace\<close> on the table of processors that the template parameter selects. \<open>None\<close>
  is a device number out of range or a processor without queues.
\<close>

definition chooseQueueFromPlace ::
  "ATLProcessor list \<Rightarrow> atmi_place_t \<Rightarrow> TaskgroupImpl \<Rightarrow> (qid \<times> TaskgroupImpl) option" where
  "chooseQueueFromPlace procs place g =
     do {
       proc \<leftarrow> get_processor procs place;
       let sched = (if tg_ordered g then ATMI_SCHED_NONE else ATMI_SCHED_RR);
       if tg_ordered g then
         (case (if pl_type place = ATMI_DEVTYPE_GPU then gpu_queue g else cpu_queue g) of
            Some q \<Rightarrow> Some (q, g)
          | None \<Rightarrow>
              do {
                q \<leftarrow> getQueueAt proc (sint (tg_id g));
                Some (q, if pl_type place = ATMI_DEVTYPE_GPU then g\<lparr>gpu_queue := Some q\<rparr>
                         else if pl_type place = ATMI_DEVTYPE_CPU then g\<lparr>cpu_queue := Some q\<rparr>
                         else g)
              })
       else
         do {
           let (n, g) = getBestQueueID sched g;
           q \<leftarrow> getQueueAt proc n;
           Some (q, g)
         }
     }"

lemma chooseQueueFromPlace_core:
  "chooseQueueFromPlace procs place g = Some (q, g') \<Longrightarrow> group_core g' = group_core g"
  by (auto simp: chooseQueueFromPlace_def getBestQueueID_def bind_eq_Some_conv group_core_def
      Let_def split: if_splits option.splits prod.splits)

text \<open>
  An ordered group keeps its queue: once a queue was chosen for a GPU or CPU place, every
  later choice for a place of that type that names an existing processor gives the same queue
  and changes nothing, whichever device the place names.
\<close>

lemma ordered_group_keeps_queue:
  assumes "tg_ordered g" and "chooseQueueFromPlace procs place g = Some (q, g')"
    and "pl_type place = pl_type place'"
    and "pl_type place = ATMI_DEVTYPE_GPU \<or> pl_type place = ATMI_DEVTYPE_CPU"
    and "get_processor procs' place' \<noteq> None"
  shows "chooseQueueFromPlace procs' place' g' = Some (q, g')"
  using assms
  by (auto simp: chooseQueueFromPlace_def bind_eq_Some_conv Let_def split: if_splits option.splits)

text \<open>
  The queues that a sequence of choices for one place gives.
\<close>

fun choose_queues ::
  "nat \<Rightarrow> ATLProcessor list \<Rightarrow> atmi_place_t \<Rightarrow> TaskgroupImpl \<Rightarrow> qid list option" where
  "choose_queues 0 procs place g = Some []"
| "choose_queues (Suc n) procs place g =
     do {
       (q, g) \<leftarrow> chooseQueueFromPlace procs place g;
       qs \<leftarrow> choose_queues n procs place g;
       Some (q # qs)
     }"

lemma ordered_group_keeps_queue_witness:
  "chooseQueueFromPlace [(new_processor 1 ATMI_DEVTYPE_GPU)\<lparr>p_queues := [7, 8]\<rparr>]
     (ATMI_PLACE_GPU 0 0) ((new_TaskgroupImpl 3 True ATMI_DEFAULT_PLACE 0)\<lparr>gpu_queue := Some 8\<rparr>)
   = Some (8, (new_TaskgroupImpl 3 True ATMI_DEFAULT_PLACE 0)\<lparr>gpu_queue := Some 8\<rparr>)"
  by (rule ordered_group_keeps_queue
      [where g = "new_TaskgroupImpl 3 True ATMI_DEFAULT_PLACE 0" and place = "ATMI_PLACE_GPU 0 0"
        and procs = "[(new_processor 1 ATMI_DEVTYPE_GPU)\<lparr>p_queues := [7, 8]\<rparr>]"])
     (simp_all add: new_TaskgroupImpl_def chooseQueueFromPlace_def get_processor_def
       ATMI_PLACE_GPU_def vector_at_def getQueueAt_def mod_Suc numeral_3_eq_3)

text \<open>
  An unordered group deals its tasks out in turn: as long as the group's 31-bit counter
  does not wrap, the \<open>i\<close>-th of \<open>n\<close> tasks for a place goes to queue number \<open>start + i\<close> modulo the
  number of queues of that processor, so any run of that many tasks uses every queue once.
\<close>

lemma unordered_group_round_robin:
  assumes "\<not> tg_ordered g" and "get_processor procs place = Some proc"
    and "p_queues proc \<noteq> []" and "unat (tg_next_best_queue_id g) + n \<le> 2 ^ 31"
  shows "choose_queues n procs place g =
    Some (map (\<lambda>i. p_queues proc ! ((unat (tg_next_best_queue_id g) + i)
                                     mod length (p_queues proc))) [0..<n])"
  using assms(1, 4)
proof (induction n arbitrary: g)
  case (Suc n)
  let ?c = "tg_next_best_queue_id g"
  have c: "unat ?c < 2 ^ 31" using Suc.prems(2) by simp
  have s: "sint ?c = int (unat ?c)"
  proof -
    have "int (unat ?c) < int (2 ^ 31)" using c by (simp only: of_nat_less_iff)
    then have "uint ?c < 2 ^ 31" by simp
    moreover have "- (2 ^ 31) \<le> uint ?c" by (rule order_trans [of _ 0]) simp_all
    ultimately have "signed_take_bit 31 (uint ?c) = uint ?c"
      by (intro signed_take_bit_int_eq_self)
    then show ?thesis by (simp add: sint_uint)
  qed
  have inc: "unat (?c + 1) = Suc (unat ?c)"
    using c by (simp add: unat_word_ariths)
  have "unat ?c < 2 ^ 64" using c by simp
  then have "getQueueAt proc (sint ?c) = Some (p_queues proc ! (unat ?c mod length (p_queues proc)))"
    unfolding s by (rule getQueueAt_nat [OF assms(3)])
  then have ch: "chooseQueueFromPlace procs place g =
      Some (p_queues proc ! (unat ?c mod length (p_queues proc)),
            g\<lparr>tg_next_best_queue_id := ?c + 1\<rparr>)"
    using Suc.prems(1) assms(2)
    by (simp add: chooseQueueFromPlace_def getBestQueueID_def)
  have "choose_queues n procs place (g\<lparr>tg_next_best_queue_id := ?c + 1\<rparr>) =
    Some (map (\<lambda>i. p_queues proc ! ((Suc (unat ?c) + i) mod length (p_queues proc))) [0..<n])"
    using Suc.IH [of "g\<lparr>tg_next_best_queue_id := ?c + 1\<rparr>"] Suc.prems inc by simp
  then show ?case
    by (simp add: ch map_upt_Suc del: upt_Suc)
qed simp

lemma unordered_group_round_robin_witness:
  "choose_queues 3 [(new_processor 1 ATMI_DEVTYPE_GPU)\<lparr>p_queues := [7, 8]\<rparr>] (ATMI_PLACE_GPU 0 0)
     (new_TaskgroupImpl 3 False ATMI_DEFAULT_PLACE 0)
   = Some (map (\<lambda>i. [7, 8] ! ((0 + i) mod length [7, 8 :: nat])) [0..<3])"
  using unordered_group_round_robin
    [of "new_TaskgroupImpl 3 False ATMI_DEFAULT_PLACE 0"
        "[(new_processor 1 ATMI_DEVTYPE_GPU)\<lparr>p_queues := [7, 8]\<rparr>]" "ATMI_PLACE_GPU 0 0"
        "(new_processor 1 ATMI_DEVTYPE_GPU)\<lparr>p_queues := [7, 8]\<rparr>" 3]
  by (simp add: new_TaskgroupImpl_def get_processor_def ATMI_PLACE_GPU_def vector_at_def)

end
