(* ===== verification/Barrier.thy ===== *)
theory Barrier
  imports Taskgroup
begin

text \<open>
  Barrier packets (\<open>enqueue_barrier_async\<close>, \<open>enqueue_barrier\<close>, \<open>enqueue_barrier_tasks\<close> of
  \<open>core/task.cpp\<close>): a list of dependencies is spread over packets of at most five signals each.
\<close>

section \<open>Writing packets to a queue\<close>

definition queue_slot :: "hsa_env \<Rightarrow> qid \<Rightarrow> u64 \<Rightarrow> u64" where
  "queue_slot E q index = index AND ucast (queue_size_of E q - 1)"

text \<open>
  Reserve the next packet of a queue and wait until the queue has room for it. The wait is an
  entry of the log: the loop ends when HSA reports a read index that is close enough.
\<close>

definition reserve_packet :: "hsa_env \<Rightarrow> qid \<Rightarrow> rt_state \<Rightarrow> u64 \<times> rt_state" where
  "reserve_packet E q s =
     (let index = write_index_of E (hsa_log s) q
      in (index, log_call (WaitSlot q index) (log_call (AddWriteIndex q) s)))"

definition HSA_BARRIER_MAX_DEPENDENT_TASKS :: nat where
  "HSA_BARRIER_MAX_DEPENDENT_TASKS = 5"

definition barrier_packet_for ::
  "hsa_env \<Rightarrow> bool \<Rightarrow> bool \<Rightarrow> bool \<Rightarrow> signal list \<Rightarrow> barrier_packet" where
  "barrier_packet_for E or_flag need_completion last_bpkt deps =
     \<lparr>bp_header = create_header
        (if or_flag then HSA_PACKET_TYPE_BARRIER_OR else HSA_PACKET_TYPE_BARRIER_AND)
        last_bpkt ATMI_FENCE_SCOPE_NONE ATMI_FENCE_SCOPE_NONE,
      bp_dep_signal = deps,
      bp_completion_signal =
        (if last_bpkt \<and> need_completion
         then Some (if or_flag then IdentityORSignal E else IdentityANDSignal E) else None)\<rparr>"

text \<open>
  The loop over the packets; the first argument counts the packets that remain. The body takes
  up to five of the remaining tasks and the last packet rings the doorbell. (At the end of the
  array the code reads one element past it before it looks at \<open>tasks_remaining\<close>; the value is
  not used.)
\<close>

fun barrier_packets ::
  "nat \<Rightarrow> hsa_env \<Rightarrow> qid \<Rightarrow> bool \<Rightarrow> bool \<Rightarrow> tid list \<Rightarrow> rt_state \<Rightarrow> rt_state" where
  "barrier_packets 0 E q or_flag need_completion ts s = s"
| "barrier_packets (Suc n) E q or_flag need_completion ts s =
     (let last_bpkt = (n = 0);
          (index, s) = reserve_packet E q s;
          deps = map (\<lambda>t. tk_signal (tasks s t)) (take HSA_BARRIER_MAX_DEPENDENT_TASKS ts);
          s = log_call (WritePacket q (queue_slot E q index)
                (BarrierPacket (barrier_packet_for E or_flag need_completion last_bpkt deps))) s;
          s = (if last_bpkt then log_call (RingDoorbell q index) s else s)
      in barrier_packets n E q or_flag need_completion
           (drop HSA_BARRIER_MAX_DEPENDENT_TASKS ts) s)"

definition enqueue_barrier_async ::
  "hsa_env \<Rightarrow> qid option \<Rightarrow> tid list \<Rightarrow> bool \<Rightarrow> bool \<Rightarrow> rt_state \<Rightarrow> rt_state" where
  "enqueue_barrier_async E queue dep_task_list or_flag need_completion s =
     (case queue of
        None \<Rightarrow> s
      | Some q \<Rightarrow>
          if dep_task_list = [] then s
          else
            let barrier_pkt_count =
                  (length dep_task_list + HSA_BARRIER_MAX_DEPENDENT_TASKS - 1)
                    div HSA_BARRIER_MAX_DEPENDENT_TASKS
            in barrier_packets barrier_pkt_count E q or_flag need_completion dep_task_list s)"

text \<open>
  \<open>enqueue_barrier\<close>: the callers never ask to wait, which would wait on a signal that
  \<open>enqueue_barrier_async\<close> leaves uninitialised (\<open>None\<close>); \<open>signal_worker\<close> of a null queue crashes.
\<close>

definition enqueue_barrier ::
  "hsa_env \<Rightarrow> qid option \<Rightarrow> tid list \<Rightarrow> bool \<Rightarrow> bool \<Rightarrow> atmi_devtype_t \<Rightarrow> bool \<Rightarrow> rt_state \<Rightarrow>
   rt_state option" where
  "enqueue_barrier E queue dep_task_list wait_flag or_flag devtype need_completion s =
     (let s = enqueue_barrier_async E queue dep_task_list or_flag need_completion s in
      if wait_flag then None
      else if devtype = ATMI_DEVTYPE_CPU then
        (case queue of None \<Rightarrow> None | Some q \<Rightarrow> Some (log_call (SignalWorker q) s))
      else Some s)"

definition enqueue_barrier_tasks :: "hsa_env \<Rightarrow> tid list \<Rightarrow> rt_state \<Rightarrow> rt_state option" where
  "enqueue_barrier_tasks E ts s =
     (if ts \<noteq> [] then
        do {
          let s = log_call (SignalStore (IdentityANDSignal E) 1) s;
          let t = last ts;
          (q, s) \<leftarrow> (case tk_packets (tasks s t) of
               (q, _) # _ \<Rightarrow> Some (q, s)
             | [] \<Rightarrow>
                 do {
                   g \<leftarrow> tk_group (tasks s t);
                   (q, obj) \<leftarrow> chooseQueueFromPlace (gpu_processors (machine s))
                                (tk_place (tasks s t)) (groups s g);
                   Some (q, upd_group g (\<lambda>_. obj) s)
                 });
          enqueue_barrier E (Some q) ts False False (tk_devtype (tasks s t)) True s
        }
      else Some s)"

section \<open>Every dependency is waited for\<close>

text \<open>The barrier packets among the calls that were made, in order.\<close>

fun barriers_of :: "hsa_call list \<Rightarrow> barrier_packet list" where
  "barriers_of [] = []"
| "barriers_of (WritePacket q i (BarrierPacket b) # cs) = b # barriers_of cs"
| "barriers_of (_ # cs) = barriers_of cs"

fun doorbells_of :: "hsa_call list \<Rightarrow> (qid \<times> u64) list" where
  "doorbells_of [] = []"
| "doorbells_of (RingDoorbell q i # cs) = (q, i) # doorbells_of cs"
| "doorbells_of (_ # cs) = doorbells_of cs"

lemma barriers_of_append [simp]: "barriers_of (xs @ ys) = barriers_of xs @ barriers_of ys"
  by (induction xs rule: barriers_of.induct) auto

lemma doorbells_of_append [simp]: "doorbells_of (xs @ ys) = doorbells_of xs @ doorbells_of ys"
  by (induction xs rule: doorbells_of.induct) auto

lemma reserve_packet_core: "sched_core (snd (reserve_packet E q s)) = sched_core s"
  by (simp add: reserve_packet_def Let_def)

lemma reserve_packet_log:
  "hsa_log (snd (reserve_packet E q s)) =
     hsa_log s @ [AddWriteIndex q, WaitSlot q (fst (reserve_packet E q s))]"
  "tasks (snd (reserve_packet E q s)) = tasks s" "groups (snd (reserve_packet E q s)) = groups s"
  by (simp_all add: reserve_packet_def Let_def log_call_def)

lemma barrier_packets_core: "sched_core (barrier_packets n E q f nc ts s) = sched_core s"
  by (induction n E q f nc ts s rule: barrier_packets.induct) (simp_all add: Let_def reserve_packet_def)

lemma enqueue_barrier_core:
  "enqueue_barrier E q ts w f ty nc s = Some s' \<Longrightarrow> sched_core s' = sched_core s"
  by (auto simp: enqueue_barrier_def enqueue_barrier_async_def barrier_packets_core Let_def
      split: if_splits option.splits)

lemma barrier_packets_log:
  "\<exists>cs. hsa_log (barrier_packets n E q f nc ts s) = hsa_log s @ cs \<and>
     tasks (barrier_packets n E q f nc ts s) = tasks s \<and>
     length (barriers_of cs) = n \<and>
     concat (map bp_dep_signal (barriers_of cs)) =
       map (\<lambda>t. tk_signal (tasks s t)) (take (5 * n) ts) \<and>
     (\<forall>b \<in> set (barriers_of cs). length (bp_dep_signal b) \<le> 5) \<and>
     map (\<lambda>b. bit (bp_header b) HSA_PACKET_HEADER_BARRIER) (barriers_of cs) =
       (if n = 0 then [] else replicate (n - 1) False @ [True]) \<and>
     map fst (doorbells_of cs) = (if n = 0 then [] else [q])"
proof (induction n arbitrary: ts s)
  case (Suc n)
  let ?idx = "fst (reserve_packet E q s)" and ?s1 = "snd (reserve_packet E q s)"
  let ?deps = "map (\<lambda>t. tk_signal (tasks s t)) (take 5 ts)"
  let ?b = "barrier_packet_for E f nc (n = 0) ?deps"
  let ?s2 = "log_call (WritePacket q (queue_slot E q ?idx) (BarrierPacket ?b)) ?s1"
  let ?s3 = "if n = 0 then log_call (RingDoorbell q ?idx) ?s2 else ?s2"
  have step: "barrier_packets (Suc n) E q f nc ts s = barrier_packets n E q f nc (drop 5 ts) ?s3"
    by (simp add: Let_def HSA_BARRIER_MAX_DEPENDENT_TASKS_def reserve_packet_log
        case_prod_beta)
  have l3: "hsa_log ?s3 = hsa_log s @ [AddWriteIndex q, WaitSlot q ?idx,
      WritePacket q (queue_slot E q ?idx) (BarrierPacket ?b)] @
      (if n = 0 then [RingDoorbell q ?idx] else [])" and t3: "tasks ?s3 = tasks s"
    by (simp_all add: log_call_def reserve_packet_log)
  have dep: "bp_dep_signal ?b = ?deps" and hdr: "bit (bp_header ?b) HSA_PACKET_HEADER_BARRIER = (n = 0)"
    by (simp_all add: barrier_packet_for_def create_header_barrier)
  have tk: "take 5 ts @ take (5 * n) (drop 5 ts) = take (5 * Suc n) ts"
    by (metis mult_Suc_right take_add)
  obtain cs where cs: "hsa_log (barrier_packets n E q f nc (drop 5 ts) ?s3) = hsa_log ?s3 @ cs"
    "tasks (barrier_packets n E q f nc (drop 5 ts) ?s3) = tasks ?s3"
    "length (barriers_of cs) = n"
    "concat (map bp_dep_signal (barriers_of cs)) =
       map (\<lambda>t. tk_signal (tasks ?s3 t)) (take (5 * n) (drop 5 ts))"
    "\<forall>b \<in> set (barriers_of cs). length (bp_dep_signal b) \<le> 5"
    "map (\<lambda>b. bit (bp_header b) HSA_PACKET_HEADER_BARRIER) (barriers_of cs) =
       (if n = 0 then [] else replicate (n - 1) False @ [True])"
    "map fst (doorbells_of cs) = (if n = 0 then [] else [q])"
    using Suc.IH [of "drop 5 ts" ?s3] by blast
  let ?cs = "[AddWriteIndex q, WaitSlot q ?idx, WritePacket q (queue_slot E q ?idx) (BarrierPacket ?b)]
      @ (if n = 0 then [RingDoorbell q ?idx] else []) @ cs"
  have bo: "barriers_of ?cs = ?b # barriers_of cs"
    and do: "doorbells_of ?cs = (if n = 0 then [(q, ?idx)] else []) @ doorbells_of cs"
    by simp_all
  have rep: "replicate n False = False # replicate (n - 1) False" if "n \<noteq> 0"
    using that by (cases n) simp_all
  show ?case
    unfolding step
  proof (intro exI [of _ ?cs] conjI)
    show "concat (map bp_dep_signal (barriers_of ?cs)) =
        map (\<lambda>t. tk_signal (tasks s t)) (take (5 * Suc n) ts)"
      unfolding bo tk [symmetric] by (simp add: dep cs(4) t3)
  qed (use cs l3 t3 bo do dep hdr rep in auto)
qed simp

text \<open>
  C22. A barrier covers all of its dependencies: for \<open>n > 0\<close> dependencies, exactly
  \<open>\<lceil>n/5\<rceil>\<close> packets are written, each with at most five signals, together they hold the signals
  of all the tasks in order, only the last one has the barrier bit that holds back the packet
  behind it, and the doorbell of the queue, and of no other, rings once.
\<close>

theorem barrier_covers_dependencies:
  assumes "ts \<noteq> []"
  shows "\<exists>cs. hsa_log (enqueue_barrier_async E (Some q) ts f nc s) = hsa_log s @ cs
    \<and> concat (map bp_dep_signal (barriers_of cs)) = map (\<lambda>t. tk_signal (tasks s t)) ts
    \<and> length (barriers_of cs) = (length ts + 4) div 5
    \<and> (\<forall>b \<in> set (barriers_of cs). length (bp_dep_signal b) \<le> 5)
    \<and> map (\<lambda>b. bit (bp_header b) HSA_PACKET_HEADER_BARRIER) (barriers_of cs) =
        replicate ((length ts + 4) div 5 - 1) False @ [True]
    \<and> map fst (doorbells_of cs) = [q]"
proof -
  let ?n = "(length ts + 4) div 5"
  have le: "length ts \<le> 5 * ?n" using ceil_div_bounds(1) [of 5 "length ts"] by simp
  have nz: "?n \<noteq> 0" using assms by (cases ts) auto
  have tk: "take (5 * ?n) ts = ts" using le by simp
  have e: "enqueue_barrier_async E (Some q) ts f nc s = barrier_packets ?n E q f nc ts s"
    using assms by (simp add: enqueue_barrier_async_def HSA_BARRIER_MAX_DEPENDENT_TASKS_def
        add.commute)
  show ?thesis
    using barrier_packets_log [of ?n E q f nc ts s] unfolding e tk if_not_P [OF nz]
    by (elim exE conjE) (intro exI conjI, assumption+)
qed

theorem barrier_covers_dependencies_witness:
  "\<forall>E s. \<exists>cs. hsa_log (enqueue_barrier_async E (Some 3) [0, 1, 2, 3, 4, 5] False True s) = hsa_log s @ cs
    \<and> length (barriers_of cs) = 2 \<and> map fst (doorbells_of cs) = [3]"
proof (intro allI)
  fix E s
  show "\<exists>cs. hsa_log (enqueue_barrier_async E (Some 3) [0, 1, 2, 3, 4, 5] False True s) = hsa_log s @ cs
    \<and> length (barriers_of cs) = 2 \<and> map fst (doorbells_of cs) = [3]"
    using barrier_covers_dependencies [of "[0, 1, 2, 3, 4, 5]" E 3 False True s] by auto
qed

end
