(* ===== verification/Kernarg.thy ===== *)
theory Kernarg
  imports Runtime_State
begin

text \<open>
  Kernel arguments in memory: how arguments are copied to the buffer that a task keeps until it
  is dispatched and to the kernarg segment it is given (\<open>updateKernargRegion\<close>,
  \<open>acquire_kernarg_segment\<close> and the segment part of the two \<open>tryDispatch\<close> functions of
  \<open>core/task.cpp\<close>). An argument is the list of the bytes that its pointer leads to.
\<close>

section \<open>Bytes\<close>

definition write_bytes :: "(nat \<Rightarrow> u8) \<Rightarrow> nat \<Rightarrow> u8 list \<Rightarrow> nat \<Rightarrow> u8" where
  "write_bytes m off bs = (\<lambda>i. if off \<le> i \<and> i < off + length bs then bs ! (i - off) else m i)"

definition read_bytes :: "(nat \<Rightarrow> u8) \<Rightarrow> nat \<Rightarrow> nat \<Rightarrow> u8 list" where
  "read_bytes m off n = map (\<lambda>i. m (off + i)) [0..<n]"

lemma length_read_bytes [simp]: "length (read_bytes m off n) = n"
  by (simp add: read_bytes_def)

lemma read_write_same: "read_bytes (write_bytes m off bs) off (length bs) = bs"
  by (rule nth_equalityI) (simp_all add: read_bytes_def write_bytes_def)

lemma read_write_other:
  "off + length bs \<le> a \<or> a + n \<le> off \<Longrightarrow> read_bytes (write_bytes m off bs) a n = read_bytes m a n"
  by (auto simp: read_bytes_def write_bytes_def)

lemma read_within_write:
  "d + n \<le> length bs \<Longrightarrow>
   read_bytes (write_bytes m off bs) (off + d) n = take n (drop d bs)"
  by (rule nth_equalityI) (auto simp: read_bytes_def write_bytes_def)

lemma take_drop_read_bytes:
  "d + n \<le> k \<Longrightarrow> take n (drop d (read_bytes m off k)) = read_bytes m (off + d) n"
  by (rule nth_equalityI) (auto simp: read_bytes_def add.assoc)

section \<open>Kernarg memory\<close>

definition kmem_write :: "kptr \<Rightarrow> nat \<Rightarrow> u8 list \<Rightarrow> rt_state \<Rightarrow> rt_state option" where
  "kmem_write ptr d bs s =
     (case ptr of
        KNull \<Rightarrow> None
      | KSegment p off \<Rightarrow>
          Some (s\<lparr>region_mem := (region_mem s)(p := write_bytes (region_mem s p) (off + d) bs)\<rparr>)
      | KStaging t \<Rightarrow>
          Some (s\<lparr>staging_mem := (staging_mem s)(t := write_bytes (staging_mem s t) d bs)\<rparr>)
      | KTemplate n off \<Rightarrow>
          Some (s\<lparr>template_mem := (template_mem s)(n := write_bytes (template_mem s n) (off + d) bs)\<rparr>))"

definition kmem_read :: "rt_state \<Rightarrow> kptr \<Rightarrow> nat \<Rightarrow> nat \<Rightarrow> u8 list option" where
  "kmem_read s ptr d n =
     (case ptr of
        KNull \<Rightarrow> None
      | KSegment p off \<Rightarrow> Some (read_bytes (region_mem s p) (off + d) n)
      | KStaging t \<Rightarrow> Some (read_bytes (staging_mem s t) d n)
      | KTemplate m off \<Rightarrow> Some (read_bytes (template_mem s m) (off + d) n))"

text \<open>Words in the memory of the machine, in its byte order.\<close>

fun le_bytes :: "nat \<Rightarrow> u64 \<Rightarrow> u8 list" where
  "le_bytes 0 w = []"
| "le_bytes (Suc n) w = ucast w # le_bytes n (drop_bit 8 w)"

fun from_le :: "u8 list \<Rightarrow> u64" where
  "from_le [] = 0"
| "from_le (b # bs) = ucast b OR push_bit 8 (from_le bs)"

lemma length_le_bytes [simp]: "length (le_bytes n w) = n"
  by (induction n w rule: le_bytes.induct) auto

lemma from_le_bytes: "from_le (le_bytes n w) = take_bit (8 * n) w"
proof (induction n w rule: le_bytes.induct)
  case (2 n w)
  show ?case unfolding le_bytes.simps from_le.simps 2
    by (rule bit_word_eqI) (auto simp: bit_simps not_le)
qed simp

lemma from_le64 [simp]: "from_le (le_bytes 8 w) = w"
  using from_le_bytes [of 8 w] by (simp add: take_bit_word_eq_self)

lemma kmem_write_core: "kmem_write p d bs s = Some s' \<Longrightarrow> sched_core s' = sched_core s"
  by (auto simp: kmem_write_def split: kptr.splits)

lemma kmem_write_objects:
  "kmem_write p d bs s = Some s' \<Longrightarrow>
   tasks s' = tasks s \<and> impls s' = impls s \<and> kernels s' = kernels s \<and> groups s' = groups s"
  by (auto simp: kmem_write_def split: kptr.splits)

lemma kmem_read_write_same:
  "kmem_write p d bs s = Some s' \<Longrightarrow> kmem_read s' p d (length bs) = Some bs"
  by (auto simp: kmem_write_def kmem_read_def read_write_same split: kptr.splits)

lemma kmem_read_write_other:
  "kmem_write p d bs s = Some s' \<Longrightarrow> d + length bs \<le> a \<or> a + n \<le> d \<Longrightarrow>
   kmem_read s' p a n = kmem_read s p a n"
  by (auto simp: kmem_write_def kmem_read_def read_write_other split: kptr.splits)

section \<open>Copying the arguments\<close>

fun copy_args ::
  "kptr \<Rightarrow> u64 list \<Rightarrow> u64 list \<Rightarrow> u8 list list \<Rightarrow> nat list \<Rightarrow> rt_state \<Rightarrow> rt_state option" where
  "copy_args ptr offs sizes args [] s = Some s"
| "copy_args ptr offs sizes args (i # is) s =
     (if i < length offs \<and> i < length sizes \<and> i < length args \<and>
         unat (sizes ! i) \<le> length (args ! i)
      then Option.bind (kmem_write ptr (unat (offs ! i)) (take (unat (sizes ! i)) (args ! i)) s)
             (copy_args ptr offs sizes args is)
      else None)"

definition updateKernargRegion ::
  "tid \<Rightarrow> u8 list list option \<Rightarrow> rt_state \<Rightarrow> rt_state option" where
  "updateKernargRegion t args s =
     do {
       krn \<leftarrow> kernels s (tk_kernel (tasks s t));
       if kn_num_args krn = 0 then Some s
       else do {
         impl \<leftarrow> getKernelImpl krn (tk_kernel_id (tasks s t));
         as \<leftarrow> args;
         copy_args (tk_kernarg (tasks s t)) (arg_offsets (impls s impl)) (kn_arg_sizes krn) as
           [0..<kn_num_args krn] s
       }
     }"

lemma copy_args_preserves:
  assumes w: "\<And>d bs s s'. kmem_write p d bs s = Some s' \<Longrightarrow> F s' = F s"
  shows "copy_args p os szs as is s = Some s' \<Longrightarrow> F s' = F s"
proof (induction "is" arbitrary: s)
  case (Cons i js)
  then obtain s1 where
    "kmem_write p (unat (os ! i)) (take (unat (szs ! i)) (as ! i)) s = Some s1"
    and "copy_args p os szs as js s1 = Some s'"
    by (auto simp: bind_eq_Some_conv split: if_splits)
  then show ?case using Cons.IH w by metis
qed simp

lemma copy_args_core: "copy_args p os szs as is s = Some s' \<Longrightarrow> sched_core s' = sched_core s"
  using copy_args_preserves [of p sched_core] kmem_write_core by blast

lemma copy_args_objects:
  assumes "copy_args p os szs as is s = Some s'"
  shows "tasks s' = tasks s \<and> impls s' = impls s \<and> kernels s' = kernels s \<and> groups s' = groups s"
  using copy_args_preserves [of p "\<lambda>s. (tasks s, impls s, kernels s, groups s)"]
    kmem_write_objects assms by blast

lemma updateKernargRegion_core:
  "updateKernargRegion t args s = Some s' \<Longrightarrow> sched_core s' = sched_core s"
  by (auto simp: updateKernargRegion_def bind_eq_Some_conv copy_args_core split: if_splits)

lemma updateKernargRegion_objects:
  "updateKernargRegion t args s = Some s' \<Longrightarrow>
   tasks s' = tasks s \<and> impls s' = impls s \<and> kernels s' = kernels s \<and> groups s' = groups s"
  by (auto simp: updateKernargRegion_def bind_eq_Some_conv copy_args_objects split: if_splits)

text \<open>Arguments are laid out without overlap: offsets and sizes are disjoint intervals.\<close>

definition args_disjoint :: "u64 list \<Rightarrow> u64 list \<Rightarrow> nat \<Rightarrow> bool" where
  "args_disjoint offs sizes n \<longleftrightarrow>
     (\<forall>i < n. \<forall>j < n. i \<noteq> j \<longrightarrow>
        unat (offs ! i) + unat (sizes ! i) \<le> unat (offs ! j) \<or>
        unat (offs ! j) + unat (sizes ! j) \<le> unat (offs ! i))"

lemma copy_args_other:
  assumes "copy_args p os szs as is s = Some s'" and "args_disjoint os szs n"
    and "set is \<subseteq> {..<n}" and "i < n" and "i \<notin> set is"
  shows "kmem_read s' p (unat (os ! i)) (unat (szs ! i)) =
         kmem_read s p (unat (os ! i)) (unat (szs ! i))"
  using assms
proof (induction p os szs as "is" s rule: copy_args.induct)
  case (2 p os szs as j js s)
  from 2(2) obtain s1 where
    s1: "kmem_write p (unat (os ! j)) (take (unat (szs ! j)) (as ! j)) s = Some s1"
    and r: "copy_args p os szs as js s1 = Some s'"
    and g: "j < length os \<and> j < length szs \<and> j < length as \<and> unat (szs ! j) \<le> length (as ! j)"
    by (auto simp: bind_eq_Some_conv split: if_splits)
  have "kmem_read s' p (unat (os ! i)) (unat (szs ! i)) =
        kmem_read s1 p (unat (os ! i)) (unat (szs ! i))"
    by (rule 2(1) [OF g s1 r 2(3)]) (use 2(4-6) in auto)
  also have "\<dots> = kmem_read s p (unat (os ! i)) (unat (szs ! i))"
    using 2(3-6) g by (intro kmem_read_write_other [OF s1]) (auto simp: args_disjoint_def)
  finally show ?case .
qed simp

lemma copy_args_read:
  assumes "copy_args p os szs as is s = Some s'" and "args_disjoint os szs n"
    and "set is \<subseteq> {..<n}" and "distinct is" and "i \<in> set is"
  shows "kmem_read s' p (unat (os ! i)) (unat (szs ! i)) = Some (take (unat (szs ! i)) (as ! i))"
  using assms
proof (induction p os szs as "is" s rule: copy_args.induct)
  case (2 p os szs as j js s)
  from 2(2) obtain s1 where
    s1: "kmem_write p (unat (os ! j)) (take (unat (szs ! j)) (as ! j)) s = Some s1"
    and r: "copy_args p os szs as js s1 = Some s'"
    and g: "j < length os \<and> j < length szs \<and> j < length as \<and> unat (szs ! j) \<le> length (as ! j)"
    by (auto simp: bind_eq_Some_conv split: if_splits)
  show ?case
  proof (cases "i = j")
    case True
    have "kmem_read s1 p (unat (os ! j)) (unat (szs ! j)) = Some (take (unat (szs ! j)) (as ! j))"
      using kmem_read_write_same [OF s1] g by simp
    then show ?thesis
      using copy_args_other [OF r 2(3), of i] 2(4, 5) True by simp
  next
    case False
    show ?thesis by (rule 2(1) [OF g s1 r 2(3)]) (use 2(4-6) False in auto)
  qed
qed simp

section \<open>Kernarg segments\<close>

text \<open>
  The address of a segment. A kernel implementation without arguments has no region; its
  segments are the null pointer.
\<close>

definition segment_addr :: "rt_state \<Rightarrow> impl_ptr \<Rightarrow> nat \<Rightarrow> kptr" where
  "segment_addr s p idx =
     (if has_kernarg_region (impls s p)
      then KSegment p (segment_offset idx (kernarg_segment_size (impls s p))) else KNull)"

definition acquire_kernarg_segment :: "impl_ptr \<Rightarrow> rt_state \<Rightarrow> kptr \<times> int \<times> rt_state" where
  "acquire_kernarg_segment p s =
     (case queue_acquire (free_kernarg_segments (impls s p)) of
        None \<Rightarrow> (KNull, -1, s)
      | Some (free_idx, rest) \<Rightarrow>
          (segment_addr s p free_idx, int free_idx,
           upd_impl p (\<lambda>k. k\<lparr>free_kernarg_segments := rest\<rparr>) s))"

text \<open>
  The bytes that are moved from the staging buffer: for AMDGCN kernels all but the implicit
  arguments at the end. A segment smaller than those makes the \<open>size_t\<close> subtraction wrap and
  the copy run off the buffer, which is \<open>None\<close>.
\<close>

definition size_to_copy :: "TaskImpl \<Rightarrow> KernelImpl \<Rightarrow> u64 option" where
  "size_to_copy k impl =
     (if tk_devtype k = ATMI_DEVTYPE_GPU \<and> ki_platform impl = AMDGCN
      then (if tk_kernarg_size k < sizeof_atmi_implicit_args then None
            else Some (tk_kernarg_size k - sizeof_atmi_implicit_args))
      else Some (tk_kernarg_size k))"

definition acquire_kernarg :: "tid \<Rightarrow> u8 list list option \<Rightarrow> rt_state \<Rightarrow> rt_state option" where
  "acquire_kernarg t args s =
     do {
       p \<leftarrow> task_impl s t;
       let s = upd_impl p (\<lambda>k. k\<lparr>launched_tasks := launched_tasks k @ [t]\<rparr>) s;
       (free_idx, rest) \<leftarrow> queue_acquire (free_kernarg_segments (impls s p));
       let addr = segment_addr s p free_idx;
       let s = upd_task t (\<lambda>k. k\<lparr>tk_kernarg_index := free_idx\<rparr>) s;
       let s = upd_impl p (\<lambda>k. k\<lparr>free_kernarg_segments := rest\<rparr>) s;
       case tk_kernarg (tasks s t) of
         KNull \<Rightarrow> updateKernargRegion t args (upd_task t (\<lambda>k. k\<lparr>tk_kernarg := addr\<rparr>) s)
       | KStaging u \<Rightarrow>
           do {
             n \<leftarrow> size_to_copy (tasks s t) (impls s p);
             s \<leftarrow> (if n = 0 then Some s
                   else do {
                     bs \<leftarrow> kmem_read s (KStaging u) 0 (unat n);
                     kmem_write addr 0 bs s
                   });
             Some (upd_task t (\<lambda>k. k\<lparr>tk_kernarg := addr\<rparr>) s)
           }
       | KSegment _ _ \<Rightarrow> None
       | KTemplate _ _ \<Rightarrow> None
     }"

text \<open>Saving the arguments of a task that is not dispatched yet in a buffer of its own.\<close>

definition save_kernargs :: "tid \<Rightarrow> u8 list list option \<Rightarrow> rt_state \<Rightarrow> rt_state option" where
  "save_kernargs t args s =
     (if tk_kernarg (tasks s t) = KNull
      then updateKernargRegion t args (upd_task t (\<lambda>k. k\<lparr>tk_kernarg := KStaging t\<rparr>) s)
      else Some s)"

lemma save_kernargs_core: "save_kernargs t args s = Some s' \<Longrightarrow> sched_core s' = sched_core s"
  by (auto simp: save_kernargs_def sched_core_upd_task task_core_def split: if_splits
      dest!: updateKernargRegion_core)

lemma acquire_kernarg_core:
  assumes "acquire_kernarg t args s = Some s'"
  shows "\<exists>p. task_impl s t = Some p \<and> free_kernarg_segments (impls s p) \<noteq> [] \<and>
    sched_core s' = sched_core (upd_task t
      (\<lambda>k. k\<lparr>tk_kernarg_index := hd (free_kernarg_segments (impls s p))\<rparr>)
      (upd_impl p (\<lambda>k. k\<lparr>launched_tasks := launched_tasks k @ [t],
         free_kernarg_segments := tl (free_kernarg_segments k)\<rparr>) s))"
proof -
  obtain p where p: "task_impl s t = Some p" "free_kernarg_segments (impls s p) \<noteq> []"
    using assms by (auto simp: acquire_kernarg_def bind_eq_Some_conv queue_acquire_def Let_def
        split: if_splits)
  let ?s1 = "upd_impl p (\<lambda>k. k\<lparr>free_kernarg_segments := tl (free_kernarg_segments (impls s p))\<rparr>)
      (upd_task t (\<lambda>k. k\<lparr>tk_kernarg_index := hd (free_kernarg_segments (impls s p))\<rparr>)
        (upd_impl p (\<lambda>k. k\<lparr>launched_tasks := launched_tasks k @ [t]\<rparr>) s))"
  have "sched_core s' = sched_core ?s1"
    using assms p
    by (auto simp: acquire_kernarg_def bind_eq_Some_conv queue_acquire_def Let_def
        sched_core_upd_task task_core_def
        split: if_splits kptr.splits dest!: updateKernargRegion_core kmem_write_core)
  also have "?s1 = upd_task t
      (\<lambda>k. k\<lparr>tk_kernarg_index := hd (free_kernarg_segments (impls s p))\<rparr>)
      (upd_impl p (\<lambda>k. k\<lparr>launched_tasks := launched_tasks k @ [t],
         free_kernarg_segments := tl (free_kernarg_segments k)\<rparr>) s)"
    by (simp add: upd_impl_def upd_task_def)
  finally show ?thesis using p by blast
qed

lemma kernargs_in_segment:
  assumes save: "save_kernargs t (Some args) s = Some s1"
    and null: "tk_kernarg (tasks s t) = KNull"
    and krn: "kernels s (tk_kernel (tasks s t)) = Some krn"
    and impl: "getKernelImpl krn (tk_kernel_id (tasks s t)) = Some p"
    and layout: "args_disjoint (arg_offsets (impls s p)) (kn_arg_sizes krn) (kn_num_args krn)"
    and n: "size_to_copy (tasks s t) (impls s p) = Some n"
    and i: "i < kn_num_args krn"
    and inside: "unat (arg_offsets (impls s p) ! i) + unat (kn_arg_sizes krn ! i) \<le> unat n"
    and nonempty: "kn_arg_sizes krn ! i \<noteq> 0"
    and acq: "acquire_kernarg t args' s1 = Some s2"
  shows "kmem_read s2 (tk_kernarg (tasks s2 t)) (unat (arg_offsets (impls s p) ! i))
           (unat (kn_arg_sizes krn ! i)) = Some (take (unat (kn_arg_sizes krn ! i)) (args ! i))"
proof -
  let ?os = "arg_offsets (impls s p)" and ?szs = "kn_arg_sizes krn" and ?n = "kn_num_args krn"
  let ?o = "unat (?os ! i)" and ?z = "unat (?szs ! i)"
  let ?s0 = "upd_task t (\<lambda>k. k\<lparr>tk_kernarg := KStaging t\<rparr>) s"
  have up: "updateKernargRegion t (Some args) ?s0 = Some s1"
    using save null by (simp add: save_kernargs_def)
  then have cp: "copy_args (KStaging t) ?os ?szs args [0..<?n] ?s0 = Some s1"
    using krn impl i by (simp add: updateKernargRegion_def)
  have obj: "tasks s1 = tasks ?s0" "impls s1 = impls s" "kernels s1 = kernels s"
    using updateKernargRegion_objects [OF up] by simp_all
  have rd: "kmem_read s1 (KStaging t) ?o ?z = Some (take ?z (args ! i))"
    using copy_args_read [OF cp layout, of i] i by (simp add: atLeast0LessThan)
  have ti: "task_impl s1 t = Some p" and st: "tk_kernarg (tasks s1 t) = KStaging t"
    using obj krn impl by (simp_all add: task_impl_def)
  have szc: "size_to_copy k im = Some n"
    if "tk_devtype k = tk_devtype (tasks s t)" "tk_kernarg_size k = tk_kernarg_size (tasks s t)"
      "ki_platform im = ki_platform (impls s p)" for k im
    using n that by (auto simp: size_to_copy_def split: if_splits)
  have n0: "0 < unat (?szs ! i)" using nonempty by (simp add: unat_gt_0)
  then have nz: "n \<noteq> 0" using inside by auto
  obtain idx rest where q: "queue_acquire (free_kernarg_segments (impls s1 p)) = Some (idx, rest)"
    using acq ti by (auto simp: acquire_kernarg_def bind_eq_Some_conv Let_def)
  define sa where "sa = upd_impl p (\<lambda>k. k\<lparr>free_kernarg_segments := rest\<rparr>)
      (upd_task t (\<lambda>k. k\<lparr>tk_kernarg_index := idx\<rparr>)
        (upd_impl p (\<lambda>k. k\<lparr>launched_tasks := launched_tasks k @ [t]\<rparr>) s1))"
  define addr where "addr = segment_addr
      (upd_impl p (\<lambda>k. k\<lparr>launched_tasks := launched_tasks k @ [t]\<rparr>) s1) p idx"
  let ?bs = "read_bytes (staging_mem s1 t) 0 (unat n)"
  have sa: "tk_kernarg (tasks sa t) = KStaging t" "size_to_copy (tasks sa t) (impls sa p) = Some n"
    "kmem_read sa (KStaging t) 0 (unat n) = Some ?bs"
    using st obj by (simp_all add: sa_def szc kmem_read_def)
  have "acquire_kernarg t args' s1 = do { s \<leftarrow> kmem_write addr 0 ?bs sa;
           Some (upd_task t (\<lambda>k. k\<lparr>tk_kernarg := addr\<rparr>) s) }"
    using ti q sa nz st
    by (simp add: acquire_kernarg_def Let_def addr_def [symmetric] sa_def [symmetric]
        del: upd_impl_fields upd_task_fields) (simp add: sa_def addr_def)
  then obtain sb where sb: "kmem_write addr 0 ?bs sa = Some sb"
    and s2: "s2 = upd_task t (\<lambda>k. k\<lparr>tk_kernarg := addr\<rparr>) sb"
    using acq by (cases "kmem_write addr 0 ?bs sa") auto
  have "kmem_read s2 (tk_kernarg (tasks s2 t)) ?o ?z = kmem_read sb addr ?o ?z"
    by (simp add: s2 kmem_read_def split: kptr.splits)
  also have "\<dots> = Some (read_bytes (staging_mem s1 t) ?o ?z)"
    using sb inside
    by (auto simp: kmem_write_def kmem_read_def read_within_write take_drop_read_bytes
        read_within_write [where off = 0, simplified] split: kptr.splits)
  also have "read_bytes (staging_mem s1 t) ?o ?z = take ?z (args ! i)"
    using rd by (simp add: kmem_read_def)
  finally show ?thesis .
qed

text \<open>
  C23. The arguments that the caller passed reach the kernel unchanged: saving them in the
  task's own buffer when it is created and moving the buffer to the segment when the task is
  dispatched leaves in the segment, at each argument's offset, exactly the bytes that were
  passed, for every layout without overlap whose arguments lie before the implicit ones.
\<close>

theorem kernargs_reach_segment:
  assumes save: "save_kernargs t (Some args) s = Some s1"
    and null: "tk_kernarg (tasks s t) = KNull"
    and krn: "kernels s (tk_kernel (tasks s t)) = Some krn"
    and impl: "getKernelImpl krn (tk_kernel_id (tasks s t)) = Some p"
    and layout: "args_disjoint (arg_offsets (impls s p)) (kn_arg_sizes krn) (kn_num_args krn)"
    and n: "size_to_copy (tasks s t) (impls s p) = Some n"
    and i: "i < kn_num_args krn"
    and inside: "unat (arg_offsets (impls s p) ! i) + unat (kn_arg_sizes krn ! i) \<le> unat n"
    and nonempty: "kn_arg_sizes krn ! i \<noteq> 0"
    and acq: "acquire_kernarg t args' s1 = Some s2"
  shows "kmem_read s2 (tk_kernarg (tasks s2 t)) (unat (arg_offsets (impls s p) ! i))
           (unat (kn_arg_sizes krn ! i)) = Some (take (unat (kn_arg_sizes krn ! i)) (args ! i))"
  by (rule kernargs_in_segment [OF assms])

text \<open>One CPU kernel with two arguments, one byte and two bytes long, and a task of it.\<close>

definition demo_args_state :: rt_state where
  "demo_args_state =
     (rt_start ATL_SYNC_CALLBACK \<lparr>cpu_processors = [], gpu_processors = [], dsp_processors = []\<rparr> [])
       \<lparr>kernels := [1 \<mapsto> \<lparr>kn_id = 1, kn_num_args = 2, kn_arg_sizes = [1, 2], kn_impls = [0],
          kn_id_map = [0 \<mapsto> 0]\<rparr>],
        impls := (\<lambda>_. (new_KernelImpl 0 [] X86 ATMI_DEVTYPE_CPU)\<lparr>arg_offsets := [0, 1],
          has_kernarg_region := True, free_kernarg_segments := [5, 6], kernarg_segment_size := 3\<rparr>),
        n_impls := 1, n_tasks := 1,
        tasks := (\<lambda>_. (new_TaskImpl ATL_KERNEL_EXECUTION)\<lparr>tk_kernel := 1, tk_kernel_id := 0,
          tk_devtype := ATMI_DEVTYPE_CPU, tk_kernarg_size := 3\<rparr>)\<rparr>"

lemma demo_args_runs:
  "map_option (\<lambda>s. kmem_read s (tk_kernarg (tasks s 0)) 1 2)
     (Option.bind (save_kernargs 0 (Some [[9], [17, 18]]) demo_args_state) (acquire_kernarg 0 None)) =
   Some (Some [17, 18])"
  by code_simp

theorem kernargs_reach_segment_witness:
  "\<exists>s1 s2. save_kernargs 0 (Some [[9], [17, 18]]) demo_args_state = Some s1 \<and>
     acquire_kernarg 0 None s1 = Some s2 \<and>
     kmem_read s2 (tk_kernarg (tasks s2 0)) 1 2 = Some [17, 18]"
proof -
  obtain s1 s2 where s1: "save_kernargs 0 (Some [[9], [17, 18]]) demo_args_state = Some s1"
    and s2: "acquire_kernarg 0 None s1 = Some s2"
    using demo_args_runs by (auto simp: bind_eq_Some_conv)
  let ?im = "impls demo_args_state 0"
  let ?krn = "\<lparr>kn_id = 1, kn_num_args = 2, kn_arg_sizes = [1, 2], kn_impls = [0], kn_id_map = [0 \<mapsto> 0]\<rparr>"
  have "kmem_read s2 (tk_kernarg (tasks s2 0)) (unat (arg_offsets ?im ! 1)) (unat (kn_arg_sizes ?krn ! 1)) =
      Some (take (unat (kn_arg_sizes ?krn ! 1)) ([[9], [17, 18]] ! 1))"
    by (rule kernargs_reach_segment [OF s1 _ _ _ _ _ _ _ _ s2, where krn = ?krn and p = 0 and n = 3])
       (auto simp: demo_args_state_def new_TaskImpl_def new_KernelImpl_def getKernelImpl_def
          getKernelIdMapIndex_def isValidId_def args_disjoint_def size_to_copy_def less_2_cases_iff)
  then have "kmem_read s2 (tk_kernarg (tasks s2 0)) 1 2 = Some [17, 18]"
    by (simp add: demo_args_state_def)
  then show ?thesis using s1 s2 by blast
qed

end
