(* ===== verification/Dispatch.thy ===== *)
theory Dispatch
  imports Barrier Kernarg
begin

text \<open>
  The two virtual operations of a task: \<open>acquireAqlPacket\<close> reserves packets and raises the
  completion signal, \<open>dispatch\<close> fills the packets in and rings the doorbells. Compute tasks are
  in \<open>core/task.cpp\<close>, copy tasks in \<open>core/data.cpp\<close>.
\<close>

section \<open>Reserving packets\<close>

text \<open>
  The number of CPU threads of a task: the product of the grid dimensions as an \<open>int\<close>, one if it
  is zero.
\<close>

definition cpu_thread_count :: "u64 \<times> u64 \<times> u64 \<Rightarrow> int" where
  "cpu_thread_count grid =
     (case grid of (x, y, z) \<Rightarrow>
        let thread_count = sint (ucast (x * y * z) :: u32)
        in if thread_count = 0 then 1 else thread_count)"

text \<open>
  A single thread runs on the queue the group chose: it is swapped to the front. A queue that is
  not in the list is an access out of range.
\<close>

definition swap_to_front :: "qid \<Rightarrow> qid list \<Rightarrow> qid list option" where
  "swap_to_front this_Q queues =
     (let q = length (takeWhile (\<lambda>x. x \<noteq> this_Q) queues) in
      if q < length queues
      then (let tmp = queues ! 0; queues = queues[0 := queues ! q] in Some (queues[q := tmp]))
      else None)"

fun acquire_cpu_packets ::
  "hsa_env \<Rightarrow> tid \<Rightarrow> qid list \<Rightarrow> nat list \<Rightarrow> rt_state \<Rightarrow> rt_state option" where
  "acquire_cpu_packets E t queues [] s = Some s"
| "acquire_cpu_packets E t queues (i # is) s =
     (if queues = [] then None
      else
        let q = queues ! (i mod length queues);
            (index, s) = reserve_packet E q s;
            s = upd_task t (\<lambda>k. k\<lparr>tk_packets := tk_packets k @ [(q, index)]\<rparr>) s
        in acquire_cpu_packets E t queues is s)"

definition task_queue :: "hsa_env \<Rightarrow> tid \<Rightarrow> rt_state \<Rightarrow> (qid \<times> rt_state) option" where
  "task_queue E t s =
     do {
       let k = tasks s t;
       g \<leftarrow> tk_group k;
       (this_Q, obj) \<leftarrow>
         (if tk_devtype k = ATMI_DEVTYPE_GPU
          then chooseQueueFromPlace (gpu_processors (machine s)) (tk_place k) (groups s g)
          else if tk_devtype k = ATMI_DEVTYPE_CPU
          then chooseQueueFromPlace (cpu_processors (machine s)) (tk_place k) (groups s g)
          else None);
       Some (this_Q, upd_group g (\<lambda>_. obj) s)
     }"

definition enqueue_pred_barrier :: "hsa_env \<Rightarrow> qid \<Rightarrow> tid \<Rightarrow> rt_state \<Rightarrow> rt_state option" where
  "enqueue_pred_barrier E this_Q t s =
     (let k = tasks s t in
      if dep_sync s = ATL_SYNC_BARRIER_PKT \<and> and_predecessors k \<noteq> []
      then enqueue_barrier E (Some this_Q) (and_predecessors k) False False (tk_devtype k) False s
      else Some s)"

definition reserve_gpu_packet :: "hsa_env \<Rightarrow> qid \<Rightarrow> tid \<Rightarrow> rt_state \<Rightarrow> rt_state" where
  "reserve_gpu_packet E this_Q t s =
     (let s = log_call (SignalAdd (tk_signal (tasks s t)) 1) s;
          (index, s) = reserve_packet E this_Q s
      in upd_task t (\<lambda>k. k\<lparr>tk_packets := tk_packets k @ [(this_Q, index)]\<rparr>) s)"

definition reserve_cpu_packets :: "hsa_env \<Rightarrow> qid \<Rightarrow> tid \<Rightarrow> rt_state \<Rightarrow> rt_state option" where
  "reserve_cpu_packets E this_Q t s =
     do {
       let k = tasks s t;
       proc \<leftarrow> get_processor (cpu_processors (machine s)) (tk_place k);
       let thread_count = cpu_thread_count (gridDim k);
       queues \<leftarrow> (if thread_count = 1 then swap_to_front this_Q (p_queues proc)
                 else Some (p_queues proc));
       acquire_cpu_packets E t queues [0..<nat thread_count]
         (log_call (SignalAdd (tk_signal k) thread_count) s)
     }"

definition compute_acquireAqlPacket :: "hsa_env \<Rightarrow> tid \<Rightarrow> rt_state \<Rightarrow> rt_state option" where
  "compute_acquireAqlPacket E t s =
     do {
       (this_Q, s) \<leftarrow> task_queue E t s;
       s \<leftarrow> enqueue_pred_barrier E this_Q t s;
       if tk_devtype (tasks s t) = ATMI_DEVTYPE_GPU
       then Some (reserve_gpu_packet E this_Q t s)
       else reserve_cpu_packets E this_Q t s
     }"

definition data_acquireAqlPacket :: "tid \<Rightarrow> rt_state \<Rightarrow> rt_state" where
  "data_acquireAqlPacket t s =
     (let k = tasks s t;
          src_data = tracker_find (data_src_ptr k) (g_data_map s);
          dest_data = tracker_find (data_dest_ptr k) (g_data_map s);
          ty = copy_direction src_data dest_data
      in if ty = ATMI_H2D \<or> ty = ATMI_D2H then log_call (SignalAdd (tk_signal k) 2) s
         else log_call (SignalAdd (tk_signal k) 1) s)"

definition acquireAqlPacket :: "hsa_env \<Rightarrow> tid \<Rightarrow> rt_state \<Rightarrow> rt_state option" where
  "acquireAqlPacket E t s =
     (case tk_type (tasks s t) of
        ATL_KERNEL_EXECUTION \<Rightarrow> compute_acquireAqlPacket E t s
      | ATL_DATA_MOVEMENT \<Rightarrow> Some (data_acquireAqlPacket t s))"

lemma acquire_cpu_packets_core:
  "acquire_cpu_packets E t qs is s = Some s' \<Longrightarrow> sched_core s' = sched_core s"
  by (induction E t qs "is" s rule: acquire_cpu_packets.induct)
     (auto simp: Let_def reserve_packet_def sched_core_upd_task task_core_def split: if_splits)

lemma choose_queue_core:
  "chooseQueueFromPlace ps pl (groups s g) = Some (q, obj) \<Longrightarrow>
   sched_core (upd_group g (\<lambda>_. obj) s) = sched_core s"
  by (drule chooseQueueFromPlace_core) (simp add: sched_core_def upd_group_def fun_eq_iff)

lemma task_queue_core: "task_queue E t s = Some (q, s') \<Longrightarrow> sched_core s' = sched_core s"
  by (auto simp: task_queue_def bind_eq_Some_conv choose_queue_core Let_def split: if_splits)

lemma enqueue_pred_barrier_core:
  "enqueue_pred_barrier E q t s = Some s' \<Longrightarrow> sched_core s' = sched_core s"
  by (auto simp: enqueue_pred_barrier_def Let_def enqueue_barrier_core split: if_splits)

lemma reserve_gpu_packet_core: "sched_core (reserve_gpu_packet E q t s) = sched_core s"
  by (simp add: reserve_gpu_packet_def Let_def case_prod_beta sched_core_upd_task task_core_def
      reserve_packet_core)

lemma reserve_cpu_packets_core:
  "reserve_cpu_packets E q t s = Some s' \<Longrightarrow> sched_core s' = sched_core s"
  by (auto simp: reserve_cpu_packets_def Let_def bind_eq_Some_conv
      simp del: acquire_cpu_packets.simps split: if_splits dest!: acquire_cpu_packets_core)

lemma compute_acquireAqlPacket_core:
  "compute_acquireAqlPacket E t s = Some s' \<Longrightarrow> sched_core s' = sched_core s"
  by (auto simp: compute_acquireAqlPacket_def bind_eq_Some_conv reserve_gpu_packet_core
      split: if_splits
      dest!: task_queue_core enqueue_pred_barrier_core reserve_cpu_packets_core)

lemma acquireAqlPacket_core:
  "acquireAqlPacket E t s = Some s' \<Longrightarrow> sched_core s' = sched_core s"
  by (auto simp: acquireAqlPacket_def data_acquireAqlPacket_def compute_acquireAqlPacket_core
      Let_def split: atl_task_type_t.splits if_splits)

section \<open>Filling packets in\<close>

definition grid_ndim :: "u64 \<times> u64 \<times> u64 \<Rightarrow> nat" where
  "grid_ndim grid = (case grid of (x, y, z) \<Rightarrow> if z > 1 then 3 else if y > 1 then 2 else 1)"

text \<open>The fields of the packet are narrower than the \<open>unsigned long\<close> sizes that they are assigned.\<close>

definition clip_dims ::
  "nat \<Rightarrow> u64 \<times> u64 \<times> u64 \<Rightarrow> 'w::len word \<times> 'w::len word \<times> 'w::len word" where
  "clip_dims ndim d =
     (case d of (x, y, z) \<Rightarrow>
        (ucast x, if ndim > 1 then ucast y else 1, if ndim > 2 then ucast z else 1))"

text \<open>
  The slot of a queue is not cleared before it is reused: \<open>setup |= ndim\<close> adds to the setup word
  of the kernel packet that was there before, if nothing else was written to the slot since.
\<close>

fun slot_setup :: "hsa_call list \<Rightarrow> qid \<Rightarrow> u64 \<Rightarrow> u16" where
  "slot_setup [] q i = 0"
| "slot_setup (c # cs) q i =
     (if \<exists>p \<in> set cs. case p of WritePacket q' i' _ \<Rightarrow> q' = q \<and> i' = i | _ \<Rightarrow> False
      then slot_setup cs q i
      else case c of
          WritePacket q' i' (KernelPacket k) \<Rightarrow> if q' = q \<and> i' = i then kd_setup k else 0
        | _ \<Rightarrow> 0)"

text \<open>
  The implicit arguments are at the end of the segment; the three grid offsets are the first 24
  bytes of them. A segment that is shorter than the implicit arguments is \<open>None\<close>.
\<close>

definition zero_grid_offsets :: "tid \<Rightarrow> rt_state \<Rightarrow> rt_state option" where
  "zero_grid_offsets t s =
     (let k = tasks s t in
      if tk_kernarg_size k < sizeof_atmi_implicit_args then None
      else kmem_write (tk_kernarg k) (unat (tk_kernarg_size k - sizeof_atmi_implicit_args))
             (replicate 24 0) s)"

text \<open>The buffer of the handler goes to \<open>hostcall_ptr\<close>, the 8 bytes behind the grid offsets.\<close>

definition set_hostcall ::
  "hsa_env \<Rightarrow> qid \<Rightarrow> nat \<Rightarrow> tid \<Rightarrow> KernelImpl \<Rightarrow> rt_state \<Rightarrow> rt_state option" where
  "set_hostcall E q proc_id t impl s =
     (if hostcall_required s \<and> task_process_hostcall_handler s \<noteq> None \<and> ki_platform impl = AMDGCN
      then
        let k = tasks s t;
            buffer = hostcall_buffer E q proc_id;
            s = log_call (SetHostcall (tk_kernarg k) buffer) s
        in if tk_kernarg_size k < sizeof_atmi_implicit_args then None
           else kmem_write (tk_kernarg k) (unat (tk_kernarg_size k - sizeof_atmi_implicit_args) + 24)
                  (le_bytes 8 buffer) s
      else Some s)"

definition push_groupable :: "gid \<Rightarrow> tid \<Rightarrow> rt_state \<Rightarrow> rt_state" where
  "push_groupable g t s =
     (if groupable (tasks s t)
      then upd_group g (\<lambda>k. k\<lparr>running_groupable := running_groupable k @ [t]\<rparr>) s else s)"

definition gpu_packet ::
  "TaskImpl \<Rightarrow> bool \<Rightarrow> KernelImpl \<Rightarrow> nat \<Rightarrow> u16 \<Rightarrow> kernel_dispatch_packet" where
  "gpu_packet k ordered impl proc_id old_setup =
     (let ndim = grid_ndim (gridDim k) in
      \<lparr>kd_header = create_header HSA_PACKET_TYPE_KERNEL_DISPATCH ordered (acquire_scope k)
         (release_scope k),
       kd_setup = old_setup OR of_nat ndim,
       kd_workgroup_size = clip_dims ndim (groupDim k),
       kd_grid_size = clip_dims ndim (gridDim k),
       kd_private_segment_size = private_segment_sizes impl proc_id,
       kd_group_segment_size = group_segment_sizes impl proc_id,
       kd_kernel_object = kernel_objects impl proc_id,
       kd_kernarg_address = tk_kernarg k,
       kd_reserved2 = tk_id k,
       kd_completion_signal = tk_signal k\<rparr>)"

definition dispatch_gpu :: "hsa_env \<Rightarrow> tid \<Rightarrow> gid \<Rightarrow> nat \<Rightarrow> rt_state \<Rightarrow> rt_state option" where
  "dispatch_gpu E t g proc_id s =
     do {
       let k = tasks s t;
       (this_Q, index) \<leftarrow> (case tk_packets k of [] \<Rightarrow> None | p # _ \<Rightarrow> Some p);
       p \<leftarrow> task_impl s t;
       let impl = impls s p;
       let s = push_groupable g t s;
       s \<leftarrow> zero_grid_offsets t s;
       s \<leftarrow> set_hostcall E this_Q proc_id t impl s;
       let slot = queue_slot E this_Q index;
       let pkt = gpu_packet k (tg_ordered (groups s g)) impl proc_id
                   (slot_setup (hsa_log s) this_Q slot);
       let s = set_state t ATMI_DISPATCHED s;
       let s = log_call (WritePacket this_Q slot (KernelPacket pkt)) s;
       Some (log_call (RingDoorbell this_Q index) s)
     }"

definition cpu_packet :: "TaskImpl \<Rightarrow> bool \<Rightarrow> int \<Rightarrow> nat \<Rightarrow> agent_dispatch_packet" where
  "cpu_packet k ordered impl_index i =
     \<lparr>ad_header = create_header HSA_PACKET_TYPE_AGENT_DISPATCH ordered (acquire_scope k)
        (release_scope k),
      ad_type = word_of_int impl_index, ad_task = tk_id k, ad_kernarg = tk_kernarg k,
      ad_kernel = tk_kernel k, ad_tid = of_nat i, ad_completion_signal = tk_signal k\<rparr>"

fun write_cpu_packets ::
  "hsa_env \<Rightarrow> TaskImpl \<Rightarrow> bool \<Rightarrow> int \<Rightarrow> nat \<Rightarrow> (qid \<times> u64) list \<Rightarrow> rt_state \<Rightarrow> rt_state" where
  "write_cpu_packets E k ordered impl_index i [] s = s"
| "write_cpu_packets E k ordered impl_index i ((q, index) # ps) s =
     write_cpu_packets E k ordered impl_index (i + 1) ps
       (log_call (WritePacket q (queue_slot E q index)
          (AgentPacket (cpu_packet k ordered impl_index i))) s)"

fun ring_cpu_doorbells :: "hsa_env \<Rightarrow> (qid \<times> u64) list \<Rightarrow> rt_state \<Rightarrow> rt_state" where
  "ring_cpu_doorbells E [] s = s"
| "ring_cpu_doorbells E ((q, _) # ps) s =
     (let index = load_write_index_of E (hsa_log s) q - 1
      in ring_cpu_doorbells E ps (log_call (SignalWorker q) (log_call (RingDoorbell q index) s)))"

definition record_dispatch_time :: "hsa_env \<Rightarrow> timespec \<Rightarrow> tid \<Rightarrow> rt_state \<Rightarrow> rt_state" where
  "record_dispatch_time E now t s =
     (case (profilable (tasks s t), tk_task_info (tasks s t)) of
        (True, Some u) \<Rightarrow>
          s\<lparr>user_tasks := (user_tasks s)(u := (user_tasks s u)\<lparr>at_profile :=
            (at_profile (user_tasks s u))\<lparr>dispatch_time :=
               word_of_int (get_nanosecs (context_init_time E) now)\<rparr>\<rparr>)\<rparr>
      | _ \<Rightarrow> s)"

definition dispatch_cpu :: "hsa_env \<Rightarrow> tid \<Rightarrow> gid \<Rightarrow> rt_state \<Rightarrow> rt_state option" where
  "dispatch_cpu E t g s =
     do {
       let k = tasks s t;
       let now = clock_now E (hsa_log s);
       krn \<leftarrow> kernels s (tk_kernel k);
       let s = push_groupable g t s;
       let s = write_cpu_packets E k (tg_ordered (groups s g))
                 (getKernelIdMapIndex krn (tk_kernel_id k)) 0 (tk_packets k) s;
       let s = set_state t ATMI_DISPATCHED s;
       let s = record_dispatch_time E now t s;
       Some (ring_cpu_doorbells E (tk_packets k) s)
     }"

text \<open>
  \<open>ComputeTaskImpl::dispatch\<close>. A task whose device type is neither does nothing; so does, in
  the code, a task whose packet has a null queue, which \<open>acquireAqlPacket\<close> never leaves behind.
\<close>

definition compute_dispatch :: "hsa_env \<Rightarrow> tid \<Rightarrow> rt_state \<Rightarrow> rt_state option" where
  "compute_dispatch E t s =
     do {
       let k = tasks s t;
       g \<leftarrow> tk_group k;
       let proc_id = (if device_id (tk_place k) = -1 then 0 else device_id (tk_place k));
       if tk_packets k = [] then None
       else if tk_devtype k = ATMI_DEVTYPE_GPU then
         (if proc_id < 0 then None else dispatch_gpu E t g (nat proc_id) s)
       else if tk_devtype k = ATMI_DEVTYPE_CPU then dispatch_cpu E t g s
       else Some s
     }"

text \<open>
  \<open>DataTaskImpl::dispatch\<close>. A copy between a device and untracked host memory is left to a
  detached thread; the others are issued here. All dependencies must have been dispatched.
\<close>

definition issue_copy ::
  "tid \<Rightarrow> Direction \<Rightarrow> u64 \<times> u64 \<Rightarrow> signal list \<Rightarrow> rt_state \<Rightarrow> rt_state" where
  "issue_copy t ty agents dep_signals s =
     (if ty = ATMI_H2D \<or> ty = ATMI_D2H then
        log_call (SpawnCopyThread t) (s\<lparr>copy_threads := copy_threads s @ [t]\<rparr>)
      else
        let k = tasks s t;
            s = set_state t ATMI_DISPATCHED s;
            deps = (if dep_sync s = ATL_SYNC_BARRIER_PKT then dep_signals else [])
        in log_call (AsyncCopy (data_dest_ptr k) (snd agents) (data_src_ptr k) (fst agents)
             (data_size k) deps (tk_signal k)) s)"

definition data_dispatch :: "hsa_env \<Rightarrow> tid \<Rightarrow> rt_state \<Rightarrow> rt_state option" where
  "data_dispatch E t s =
     do {
       let k = tasks s t;
       g \<leftarrow> tk_group k;
       _ \<leftarrow> (if \<forall>p \<in> set (and_predecessors k). state_of s p \<ge> ATMI_DISPATCHED
             then Some () else None);
       let dep_signals = map (\<lambda>p. tk_signal (tasks s p)) (and_predecessors k);
       let src_data = tracker_find (data_src_ptr k) (g_data_map s);
       let dest_data = tracker_find (data_dest_ptr k) (g_data_map s);
       agents \<leftarrow> copy_agents (machine s) src_data dest_data;
       Some (issue_copy t (copy_direction src_data dest_data) agents dep_signals
         (push_groupable g t s))
     }"

definition dispatch :: "hsa_env \<Rightarrow> tid \<Rightarrow> rt_state \<Rightarrow> rt_state option" where
  "dispatch E t s =
     (case tk_type (tasks s t) of
        ATL_KERNEL_EXECUTION \<Rightarrow> compute_dispatch E t s
      | ATL_DATA_MOVEMENT \<Rightarrow> data_dispatch E t s)"

section \<open>What dispatching changes for the scheduler\<close>

lemma zero_grid_offsets_core:
  "zero_grid_offsets t s = Some s' \<Longrightarrow> sched_core s' = sched_core s"
  by (auto simp: zero_grid_offsets_def Let_def kmem_write_core split: if_splits)

lemma set_hostcall_core:
  "set_hostcall E q n t impl s = Some s' \<Longrightarrow> sched_core s' = sched_core s"
  by (auto simp: set_hostcall_def Let_def dest!: kmem_write_core split: if_splits)

lemma write_cpu_packets_core [simp]:
  "sched_core (write_cpu_packets E k o' ix i ps s) = sched_core s"
  by (induction E k o' ix i ps s rule: write_cpu_packets.induct) auto

lemma ring_cpu_doorbells_core [simp]: "sched_core (ring_cpu_doorbells E ps s) = sched_core s"
  by (induction E ps s rule: ring_cpu_doorbells.induct) (auto simp: Let_def)

lemma set_state_core_cong:
  "sched_core s' = sched_core s \<Longrightarrow> sched_core (set_state t st s') = sched_core (set_state t st s)"
  by (simp add: sched_core_set_state sched_core_upd_task_comm task_core_def)

lemma record_dispatch_time_core [simp]:
  "sched_core (record_dispatch_time E now t s) = sched_core s"
  by (simp add: record_dispatch_time_def split: bool.split option.split)

lemma issue_copy_core:
  "sched_core (issue_copy t ty ags deps s) =
     (if ty = ATMI_H2D \<or> ty = ATMI_D2H
      then sched_core (s\<lparr>copy_threads := copy_threads s @ [t]\<rparr>)
      else sched_core (set_state t ATMI_DISPATCHED s))"
  by (simp add: issue_copy_def Let_def)

lemma copy_threads_push [simp]: "copy_threads (push_groupable g t s) = copy_threads s"
  by (simp add: push_groupable_def)

lemma dispatch_gpu_core:
  "dispatch_gpu E t g n s = Some s' \<Longrightarrow>
   sched_core s' = sched_core (set_state t ATMI_DISPATCHED (push_groupable g t s))"
  by (auto simp: dispatch_gpu_def Let_def bind_eq_Some_conv split: list.splits
      intro!: set_state_core_cong dest!: zero_grid_offsets_core set_hostcall_core)

lemma dispatch_cpu_core:
  "dispatch_cpu E t g s = Some s' \<Longrightarrow>
   sched_core s' = sched_core (set_state t ATMI_DISPATCHED (push_groupable g t s))"
  by (auto simp: dispatch_cpu_def Let_def bind_eq_Some_conv intro!: set_state_core_cong)

text \<open>
  A dispatch records a groupable task with its group and either marks the task dispatched or,
  for a staged copy, leaves that to the copy thread; nothing else that scheduling reads changes.
\<close>

lemma dispatch_core:
  assumes "dispatch E t s = Some s'"
  obtains g where "tk_group (tasks s t) = Some g" and "sched_core s' = sched_core s"
    | g where "tk_group (tasks s t) = Some g"
        and "sched_core s' = sched_core (set_state t ATMI_DISPATCHED (push_groupable g t s))"
    | g where "tk_group (tasks s t) = Some g" and "tk_type (tasks s t) = ATL_DATA_MOVEMENT"
        and "sched_core s' = sched_core ((push_groupable g t s)
              \<lparr>copy_threads := copy_threads s @ [t]\<rparr>)"
proof (cases "tk_type (tasks s t)")
  case ATL_KERNEL_EXECUTION
  then have "compute_dispatch E t s = Some s'" using assms by (simp add: dispatch_def)
  then show ?thesis
    using that(1, 2)
    by (auto simp: compute_dispatch_def Let_def bind_eq_Some_conv split: if_splits
        dest!: dispatch_gpu_core dispatch_cpu_core)
next
  case ATL_DATA_MOVEMENT
  then have "data_dispatch E t s = Some s'" using assms by (simp add: dispatch_def)
  then obtain g where g: "tk_group (tasks s t) = Some g" and c:
    "sched_core s' = sched_core ((push_groupable g t s)\<lparr>copy_threads := copy_threads s @ [t]\<rparr>) \<or>
     sched_core s' = sched_core (set_state t ATMI_DISPATCHED (push_groupable g t s))"
    by (auto simp: data_dispatch_def Let_def bind_eq_Some_conv issue_copy_core)
  then show ?thesis using that(2, 3) ATL_DATA_MOVEMENT by blast
qed

end
