(* ===== verification/Host_Callback.thy ===== *)
theory Host_Callback
  imports Dispatch
begin

text \<open>
  Dependency resolution with host callbacks: \<open>TaskImpl::tryDispatchHostCallback\<close> of
  \<open>core/task.cpp\<close>. A task that has unfinished predecessors is linked behind them and counts them;
  a task that has none takes a signal and a kernarg segment and reserves its packet.
\<close>

section \<open>Links to predecessors\<close>

definition link_task :: "tid \<Rightarrow> tid \<Rightarrow> rt_state \<Rightarrow> rt_state" where
  "link_task t p s =
     upd_task t (\<lambda>k. k\<lparr>num_predecessors := num_predecessors k + 1\<rparr>)
       (upd_task p (\<lambda>k. k\<lparr>and_successors := and_successors k @ [t]\<rparr>) s)"

fun link_preds :: "tid \<Rightarrow> tid list \<Rightarrow> rt_state \<Rightarrow> bool \<times> rt_state" where
  "link_preds t [] s = (False, s)"
| "link_preds t (p # ps) s =
     (if state_of s p < ATMI_EXECUTED
      then (True, snd (link_preds t ps (link_task t p s)))
      else link_preds t ps s)"

definition link_group :: "tid \<Rightarrow> gid \<Rightarrow> rt_state \<Rightarrow> rt_state" where
  "link_group t g s =
     upd_task t (\<lambda>k. k\<lparr>num_predecessors := num_predecessors k + 1\<rparr>)
       (upd_group g (\<lambda>k. k\<lparr>tg_and_successors := tg_and_successors k @ [t]\<rparr>) s)"

fun link_groups :: "tid \<Rightarrow> gid option list \<Rightarrow> rt_state \<Rightarrow> bool \<times> rt_state" where
  "link_groups t [] s = (False, s)"
| "link_groups t (None # gs) s = link_groups t gs s"
| "link_groups t (Some g # gs) s =
     (if task_count (groups s g) > 0
      then (True, snd (link_groups t gs (link_group t g s)))
      else link_groups t gs s)"

section \<open>The order within a group\<close>

definition same_engine :: "TaskImpl \<Rightarrow> TaskImpl \<Rightarrow> bool" where
  "same_engine prev k \<longleftrightarrow>
     (tk_type prev = ATL_DATA_MOVEMENT \<and> tk_type k = ATL_DATA_MOVEMENT) \<or>
     (tk_type prev = ATL_KERNEL_EXECUTION \<and> tk_type k = ATL_KERNEL_EXECUTION \<and>
        ((tk_devtype prev = ATMI_DEVTYPE_CPU \<and> tk_devtype k = ATMI_DEVTYPE_CPU) \<or>
         (tk_devtype prev = ATMI_DEVTYPE_GPU \<and> tk_devtype k = ATMI_DEVTYPE_GPU)))"

definition other_engine :: "TaskImpl \<Rightarrow> TaskImpl \<Rightarrow> bool" where
  "other_engine prev k \<longleftrightarrow>
     (tk_type prev = ATL_DATA_MOVEMENT \<and> tk_type k = ATL_KERNEL_EXECUTION) \<or>
     (tk_type prev = ATL_KERNEL_EXECUTION \<and> tk_type k = ATL_DATA_MOVEMENT) \<or>
     (tk_devtype prev = ATMI_DEVTYPE_GPU \<and> tk_devtype k = ATMI_DEVTYPE_CPU) \<or>
     (tk_devtype prev = ATMI_DEVTYPE_CPU \<and> tk_devtype k = ATMI_DEVTYPE_GPU)"

definition ordered_check :: "tid \<Rightarrow> rt_state \<Rightarrow> bool \<times> rt_state" where
  "ordered_check t s =
     (case prev_ordered (tasks s t) of
        None \<Rightarrow> (False, s)
      | Some p \<Rightarrow>
          if state_of s p < ATMI_READY \<and> same_engine (tasks s p) (tasks s t) then (True, s)
          else if state_of s p < ATMI_EXECUTED \<and> other_engine (tasks s p) (tasks s t) then
            (True, if state_of s t < ATMI_INITIALIZED then link_task t p s else s)
          else (False, s))"

section \<open>Resources\<close>

text \<open>
  The implementation of a compute task; the code dereferences it, so a compute task without one
  crashes (\<open>None\<close>). A copy task has none.
\<close>

definition task_kernel_impl :: "rt_state \<Rightarrow> tid \<Rightarrow> impl_ptr option option" where
  "task_kernel_impl s t =
     (case tk_type (tasks s t) of
        ATL_KERNEL_EXECUTION \<Rightarrow> map_option Some (task_impl s t)
      | ATL_DATA_MOVEMENT \<Rightarrow> Some None)"

definition no_segment :: "rt_state \<Rightarrow> impl_ptr option \<Rightarrow> bool" where
  "no_segment s impl =
     (case impl of None \<Rightarrow> False | Some p \<Rightarrow> free_kernarg_segments (impls s p) = [])"

definition take_signal :: "tid \<Rightarrow> gid \<Rightarrow> rt_state \<Rightarrow> rt_state option" where
  "take_signal t g s =
     (if groupable (tasks s t)
      then Some (upd_task t (\<lambda>k. k\<lparr>tk_signal := group_signal (groups s g)\<rparr>) s)
      else do {
        (sg, rest) \<leftarrow> queue_acquire (FreeSignalPool s);
        Some (upd_task t (\<lambda>k. k\<lparr>tk_signal := sg\<rparr>) (s\<lparr>FreeSignalPool := rest\<rparr>))
      })"

definition pop_ordered :: "gid \<Rightarrow> rt_state \<Rightarrow> rt_state option" where
  "pop_ordered g s =
     (if tg_ordered (groups s g) then
        (if running_ordered (groups s g) = [] then None
         else Some (upd_group g (\<lambda>k. k\<lparr>running_ordered := tl (running_ordered k)\<rparr>) s))
      else Some s)"

definition take_kernarg :: "tid \<Rightarrow> u8 list list option \<Rightarrow> rt_state \<Rightarrow> rt_state option" where
  "take_kernarg t args s =
     (if tk_type (tasks s t) = ATL_KERNEL_EXECUTION then acquire_kernarg t args s else Some s)"

definition keep_kernargs :: "tid \<Rightarrow> u8 list list option \<Rightarrow> rt_state \<Rightarrow> rt_state option" where
  "keep_kernargs t args s =
     (if tk_type (tasks s t) = ATL_KERNEL_EXECUTION then save_kernargs t args s else Some s)"

section \<open>tryDispatchHostCallback\<close>

text \<open>A task whose dependencies are met and whose resources are free gets them.\<close>

definition host_grant ::
  "hsa_env \<Rightarrow> tid \<Rightarrow> gid \<Rightarrow> u8 list list option \<Rightarrow> rt_state \<Rightarrow> rt_state option" where
  "host_grant E t g args s =
     do {
       s \<leftarrow> take_signal t g s;
       s \<leftarrow> take_kernarg t args s;
       s \<leftarrow> pop_ordered g s;
       s \<leftarrow> acquireAqlPacket E t s;
       Some (set_state t ATMI_READY s)
     }"

definition host_links :: "tid \<Rightarrow> rt_state \<Rightarrow> bool \<times> rt_state" where
  "host_links t s =
     (if state_of s t < ATMI_INITIALIZED then
        (let (w1, s1) = link_preds t (predecessors (tasks s t)) s;
             (w2, s2) = link_groups t (pred_groups (tasks s t)) s1
         in (w1 \<or> w2, s2))
      else (False, s))"

text \<open>
  All the reasons to wait, with the links they leave: explicit predecessors and predecessor
  groups first, and only when there is none the previous task of an ordered group.
\<close>

definition host_dependencies :: "tid \<Rightarrow> rt_state \<Rightarrow> bool \<times> rt_state" where
  "host_dependencies t s =
     (let (waiting, s) = host_links t s in
      if waiting then (True, s) else ordered_check t s)"

definition host_resources_missing :: "tid \<Rightarrow> impl_ptr option \<Rightarrow> rt_state \<Rightarrow> bool" where
  "host_resources_missing t impl s \<longleftrightarrow>
     no_segment s impl \<or> (\<not> groupable (tasks s t) \<and> FreeSignalPool s = [])"

definition host_postpone ::
  "tid \<Rightarrow> gid \<Rightarrow> bool \<Rightarrow> u8 list list option \<Rightarrow> rt_state \<Rightarrow> rt_state option" where
  "host_postpone t g waiting args s =
     do {
       s \<leftarrow> keep_kernargs t args s;
       let s = set_state t ATMI_INITIALIZED s;
       Some (if \<not> waiting \<and> \<not> tg_ordered (groups s g)
             then s\<lparr>ReadyTaskQueue := ReadyTaskQueue s @ [t]\<rparr> else s)
     }"

definition tryDispatchHostCallback ::
  "hsa_env \<Rightarrow> tid \<Rightarrow> u8 list list option \<Rightarrow> rt_state \<Rightarrow> (bool \<times> rt_state) option" where
  "tryDispatchHostCallback E t args s =
     do {
       g \<leftarrow> tk_group (tasks s t);
       impl \<leftarrow> task_kernel_impl s t;
       if state_of s t \<ge> ATMI_READY then Some (False, s)
       else
         let (waiting, s) = host_dependencies t s in
         if \<not> waiting \<and> \<not> host_resources_missing t impl s then
           map_option (\<lambda>s. (True, s)) (host_grant E t g args s)
         else
           map_option (\<lambda>s. (False, s)) (host_postpone t g waiting args s)
     }"

end
