(* ===== verification/Barrier_Dispatch.thy ===== *)
theory Barrier_Dispatch
  imports Host_Callback
begin

text \<open>
  Dependency resolution with barrier packets: \<open>TaskImpl::tryDispatchBarrierPacket\<close> of
  \<open>core/task.cpp\<close>. Tasks of a group are dispatched in the order of their creation as soon as all
  their predecessors are dispatched; the queue waits for the unfinished ones.
\<close>

section \<open>The check\<close>

definition deps_dispatched :: "tid \<Rightarrow> rt_state \<Rightarrow> bool" where
  "deps_dispatched t s \<longleftrightarrow>
     (\<forall>p \<in> set (predecessors (tasks s t)). \<not> state_of s p < ATMI_DISPATCHED) \<and>
     (case prev_ordered (tasks s t) of
        None \<Rightarrow> True
      | Some p \<Rightarrow> \<not> state_of s p < ATMI_DISPATCHED)"

text \<open>
  \<open>None\<close> is a compute task whose kernel was released; an implementation that is not found is
  tolerated here and crashes when a segment is taken from it.
\<close>

definition lenient_kernel_impl :: "rt_state \<Rightarrow> tid \<Rightarrow> impl_ptr option option" where
  "lenient_kernel_impl s t =
     (case tk_type (tasks s t) of
        ATL_KERNEL_EXECUTION \<Rightarrow>
          map_option (\<lambda>krn. getKernelImpl krn (tk_kernel_id (tasks s t)))
            (kernels s (tk_kernel (tasks s t)))
      | ATL_DATA_MOVEMENT \<Rightarrow> Some None)"

section \<open>Links to predecessors\<close>

definition add_and_predecessor :: "tid \<Rightarrow> tid \<Rightarrow> rt_state \<Rightarrow> rt_state" where
  "add_and_predecessor t p s =
     upd_task t (\<lambda>k. k\<lparr>and_predecessors := and_predecessors k @ [p]\<rparr>)
       (upd_task p (\<lambda>k. k\<lparr>num_successors := num_successors k + 1\<rparr>) s)"

fun add_and_predecessors :: "tid \<Rightarrow> tid list \<Rightarrow> rt_state \<Rightarrow> rt_state" where
  "add_and_predecessors t [] s = s"
| "add_and_predecessors t (p # ps) s =
     add_and_predecessors t ps
       (if state_of s p < ATMI_EXECUTED then add_and_predecessor t p s else s)"

definition sink_insert :: "hsa_env \<Rightarrow> tid \<Rightarrow> tid list \<Rightarrow> tid list" where
  "sink_insert E t ts = (if t \<in> set ts then ts else insort_key (task_addr E) t ts)"

text \<open>
  The task leaves the list of created tasks, joins the dispatched ones and becomes a sink; its
  predecessors are sinks no more.
\<close>

definition move_to_dispatched :: "hsa_env \<Rightarrow> tid \<Rightarrow> gid \<Rightarrow> rt_state \<Rightarrow> rt_state" where
  "move_to_dispatched E t g s =
     (let preds = and_predecessors (tasks s t);
          prev = (case prev_ordered (tasks s t) of None \<Rightarrow> [] | Some p \<Rightarrow> [p])
      in upd_group g (\<lambda>k. k\<lparr>dispatched_tasks := dispatched_tasks k @ [t],
           created_tasks := tl (created_tasks k),
           dispatched_sink :=
             filter (\<lambda>x. x \<notin> set preds \<and> x \<notin> set prev) (sink_insert E t (dispatched_sink k))\<rparr>) s)"

definition ordered_and_predecessor :: "tid \<Rightarrow> gid \<Rightarrow> rt_state \<Rightarrow> rt_state" where
  "ordered_and_predecessor t g s =
     (case prev_ordered (tasks s t) of
        None \<Rightarrow> s
      | Some p \<Rightarrow>
          if tg_ordered (groups s g) \<and> other_engine (tasks s p) (tasks s t) \<and>
             state_of s p < ATMI_EXECUTED
          then add_and_predecessor t p s else s)"

section \<open>tryDispatchBarrierPacket\<close>

definition barrier_take_signal :: "tid \<Rightarrow> gid \<Rightarrow> rt_state \<Rightarrow> rt_state option" where
  "barrier_take_signal t g s =
     (if \<not> groupable (tasks s t)
      then do {
        (sg, rest) \<leftarrow> queue_acquire (FreeSignalPool s);
        Some (upd_task t (\<lambda>k. k\<lparr>tk_signal := sg\<rparr>) (s\<lparr>FreeSignalPool := rest\<rparr>))
      }
      else Some (upd_task t (\<lambda>k. k\<lparr>tk_signal := group_signal (groups s g)\<rparr>) s))"

definition barrier_grant ::
  "hsa_env \<Rightarrow> tid \<Rightarrow> gid \<Rightarrow> u8 list list option \<Rightarrow> rt_state \<Rightarrow> rt_state option" where
  "barrier_grant E t g args s =
     do {
       s \<leftarrow> barrier_take_signal t g s;
       s \<leftarrow> take_kernarg t args s;
       let s = add_and_predecessors t (predecessors (tasks s t)) s;
       let s = move_to_dispatched E t g s;
       let s = ordered_and_predecessor t g s;
       s \<leftarrow> acquireAqlPacket E t s;
       Some (set_state t ATMI_READY s)
     }"

definition barrier_postpone :: "tid \<Rightarrow> u8 list list option \<Rightarrow> rt_state \<Rightarrow> rt_state option" where
  "barrier_postpone t args s =
     do {
       s \<leftarrow> keep_kernargs t args s;
       Some (set_state t ATMI_INITIALIZED s)
     }"

text \<open>
  The head of the created tasks of this task's group is tried, which need not be this task. The
  first component of the result is the task that is to be dispatched.
\<close>

definition tryDispatchBarrierPacket ::
  "hsa_env \<Rightarrow> tid \<Rightarrow> u8 list list option \<Rightarrow> rt_state \<Rightarrow> (tid option \<times> rt_state) option" where
  "tryDispatchBarrierPacket E this args s =
     do {
       g \<leftarrow> tk_group (tasks s this);
       case created_tasks (groups s g) of
         [] \<Rightarrow> Some (None, s)
       | t # _ \<Rightarrow>
           do {
             impl \<leftarrow> lenient_kernel_impl s t;
             if state_of s t \<ge> ATMI_READY then Some (None, s)
             else if deps_dispatched t s then
               (if FreeSignalPool s = [] \<or> no_segment s impl then
                  map_option (\<lambda>s. (None, s))
                    (barrier_postpone t args (upd_task t (\<lambda>k. k\<lparr>and_predecessors := []\<rparr>) s))
                else map_option (\<lambda>s. (Some t, s)) (barrier_grant E t g args s))
             else map_option (\<lambda>s. (None, s)) (barrier_postpone t args s)
           }
     }"

end
