(* ===== verification/Scheduler.thy ===== *)
theory Scheduler
  imports Barrier_Dispatch
begin

text \<open>
  \<open>TaskImpl::tryDispatch\<close>, \<open>TaskImpl::doProgress\<close> and the two completion handlers
  \<open>handle_signal\<close> and \<open>handle_group_signal\<close> of \<open>core/task.cpp\<close>. A synchronous task makes its caller
  wait; the wait is a result, which says what is waited for, and what the code does after it is
  \<open>finish_wait\<close>. Whoever waits does nothing else.
\<close>

section \<open>Waiting\<close>

datatype wait_for = NoWait | AwaitTask tid | AwaitGroup gid tid

section \<open>tryDispatch\<close>

text \<open>
  Registering the completion handler of a dispatched task. A groupable task registers its
  group's handler unless one is registered.
\<close>

definition register_callback :: "tid \<Rightarrow> rt_state \<Rightarrow> rt_state option" where
  "register_callback t s =
     (if \<not> groupable (tasks s t) then
        Some (if dep_sync s = ATL_SYNC_CALLBACK
              then s\<lparr>handlers := handlers s @ [HandleTask (tk_signal (tasks s t)) t]\<rparr> else s)
      else do {
        g \<leftarrow> tk_group (tasks s t);
        Some (if callback_started (groups s g) then s
              else (upd_group g (\<lambda>k. k\<lparr>callback_started := True\<rparr>) s)
                     \<lparr>handlers := handlers s @ [HandleGroup (tk_signal (tasks s t)) g]\<rparr>)
      })"

text \<open>
  The barrier mode's answer to a failed attempt: a barrier over the sink tasks is enqueued whose
  completion lets the handler reclaim everything dispatched so far. The application thread does
  so once, until the handler resets the flag.
\<close>

definition flush_dispatched :: "hsa_env \<Rightarrow> gid \<Rightarrow> rt_state \<Rightarrow> rt_state option" where
  "flush_dispatched E g s =
     (let ts = dispatched_sink (groups s g); batch = dispatched_tasks (groups s g) in
      if ts \<noteq> [] then
        do {
          let s = upd_group g (\<lambda>k. k\<lparr>dispatched_sink := [], dispatched_tasks := []\<rparr>) s;
          s \<leftarrow> enqueue_barrier_tasks E ts s;
          Some (s\<lparr>handlers := handlers s @ [HandleBatch (IdentityANDSignal E) batch]\<rparr>)
        }
      else Some s)"

definition barrier_no_dispatch :: "hsa_env \<Rightarrow> gid \<Rightarrow> bool \<Rightarrow> rt_state \<Rightarrow> rt_state option" where
  "barrier_no_dispatch E g isCallback s =
     (let cas_succeeded = \<not> first_dispatched (groups s g);
          s = upd_group g (\<lambda>k. k\<lparr>first_dispatched := True\<rparr>) s
      in if isCallback \<or> cas_succeeded then flush_dispatched E g s else Some s)"

definition select_dispatch ::
  "hsa_env \<Rightarrow> tid \<Rightarrow> u8 list list option \<Rightarrow> bool \<Rightarrow> rt_state \<Rightarrow> (tid option \<times> rt_state) option" where
  "select_dispatch E t args isCallback s =
     (case dep_sync s of
        ATL_SYNC_CALLBACK \<Rightarrow>
          map_option (\<lambda>(d, s). (if d then Some t else None, s)) (tryDispatchHostCallback E t args s)
      | ATL_SYNC_BARRIER_PKT \<Rightarrow>
          do {
            g \<leftarrow> tk_group (tasks s t);
            if isCallback \<or> \<not> first_dispatched (groups s g)
            then tryDispatchBarrierPacket E t args s else Some (None, s)
          })"

definition tryDispatch ::
  "hsa_env \<Rightarrow> tid \<Rightarrow> u8 list list option \<Rightarrow> bool \<Rightarrow> rt_state \<Rightarrow>
   (bool \<times> wait_for \<times> rt_state) option" where
  "tryDispatch E t args isCallback s =
     do {
       g \<leftarrow> tk_group (tasks s t);
       (sel, s) \<leftarrow> select_dispatch E t args isCallback s;
       s \<leftarrow> (case sel of
               Some r \<Rightarrow> Option.bind (dispatch E r s) (register_callback r)
             | None \<Rightarrow>
                 if dep_sync s = ATL_SYNC_BARRIER_PKT then barrier_no_dispatch E g isCallback s
                 else Some s);
       Some (if synchronous (tasks s t)
             then (False, if groupable (tasks s t) then AwaitGroup g t else AwaitTask t, s)
             else (sel \<noteq> None, NoWait, s))
     }"

text \<open>What a synchronous launch does when its wait is over.\<close>

definition finish_wait :: "hsa_env \<Rightarrow> tid \<Rightarrow> rt_state \<Rightarrow> rt_state option" where
  "finish_wait E t s = map_option (set_state t ATMI_COMPLETED) (updateMetrics E t s)"

section \<open>doProgress\<close>

text \<open>
  The loop over the front of an ordered group's list of running tasks. Every dispatched task
  leaves the list, so one more round than its length is enough.
\<close>

fun ordered_loop ::
  "nat \<Rightarrow> hsa_env \<Rightarrow> gid \<Rightarrow> bool \<Rightarrow> rt_state \<Rightarrow> (wait_for \<times> rt_state) option" where
  "ordered_loop 0 E g isCallback s = None"
| "ordered_loop (Suc n) E g isCallback s =
     (case running_ordered (groups s g) of
        [] \<Rightarrow> Some (NoWait, s)
      | t # _ \<Rightarrow>
          do {
            (d, w, s) \<leftarrow> tryDispatch E t None isCallback s;
            if d then ordered_loop n E g isCallback s else Some (w, s)
          })"

text \<open>The loop over the ready queue: as many rounds as there were tasks in it.\<close>

fun ready_loop :: "nat \<Rightarrow> hsa_env \<Rightarrow> rt_state \<Rightarrow> (wait_for \<times> rt_state) option" where
  "ready_loop 0 E s = Some (NoWait, s)"
| "ready_loop (Suc n) E s =
     (case ReadyTaskQueue s of
        [] \<Rightarrow> ready_loop n E s
      | t # q \<Rightarrow>
          do {
            (d, w, s) \<leftarrow> tryDispatch E t None True (s\<lparr>ReadyTaskQueue := q\<rparr>);
            if w = NoWait then ready_loop n E s else Some (w, s)
          })"

text \<open>The loop of the barrier mode, which takes the created tasks of the group in turn.\<close>

fun created_loop ::
  "nat \<Rightarrow> hsa_env \<Rightarrow> tid \<Rightarrow> bool \<Rightarrow> rt_state \<Rightarrow> (wait_for \<times> rt_state) option" where
  "created_loop 0 E t isCallback s = None"
| "created_loop (Suc n) E t isCallback s =
     do {
       (d, w, s) \<leftarrow> tryDispatch E t None isCallback s;
       if d then created_loop n E t isCallback s else Some (w, s)
     }"

definition doProgress :: "hsa_env \<Rightarrow> tid \<Rightarrow> rt_state \<Rightarrow> (wait_for \<times> rt_state) option" where
  "doProgress E t s =
     do {
       g \<leftarrow> tk_group (tasks s t);
       case dep_sync s of
         ATL_SYNC_CALLBACK \<Rightarrow>
           if tg_ordered (groups s g)
           then ordered_loop (Suc (length (running_ordered (groups s g)))) E g True s
           else ready_loop (length (ReadyTaskQueue s)) E s
       | ATL_SYNC_BARRIER_PKT \<Rightarrow>
           if created_tasks (groups s g) = []
           then Some (NoWait, upd_group g (\<lambda>k. k\<lparr>first_dispatched := False\<rparr>) s)
           else created_loop (Suc (length (created_tasks (groups s g)))) E t True s
     }"

section \<open>handle\_signal\<close>

text \<open>
  Decrement the counts of the successors, in order; those that reach zero are collected.
\<close>

fun release_successors :: "tid list \<Rightarrow> rt_state \<Rightarrow> tid list \<times> rt_state" where
  "release_successors [] s = ([], s)"
| "release_successors (u # us) s =
     (let s = upd_task u (\<lambda>k. k\<lparr>num_predecessors := num_predecessors k - 1\<rparr>) s;
          (temp_list, s') = release_successors us s
      in (if num_predecessors (tasks s u) = 0 then u # temp_list else temp_list, s'))"

definition free_segment :: "tid \<Rightarrow> rt_state \<Rightarrow> rt_state option" where
  "free_segment t s =
     (case tk_type (tasks s t) of
        ATL_DATA_MOVEMENT \<Rightarrow> Some s
      | ATL_KERNEL_EXECUTION \<Rightarrow>
          do {
            p \<leftarrow> task_impl s t;
            Some (upd_impl p (\<lambda>k. k\<lparr>free_kernarg_segments :=
              queue_give_back (tk_kernarg_index (tasks s t)) (free_kernarg_segments k)\<rparr>) s)
          })"

definition free_signal :: "tid \<Rightarrow> rt_state \<Rightarrow> rt_state" where
  "free_signal t s =
     s\<lparr>FreeSignalPool := queue_give_back (tk_signal (tasks s t)) (FreeSignalPool s)\<rparr>"

definition complete_task :: "hsa_env \<Rightarrow> tid \<Rightarrow> rt_state \<Rightarrow> rt_state option" where
  "complete_task E t s =
     do {
       let s = set_state t ATMI_EXECUTED s;
       let (temp_list, s) = release_successors (and_successors (tasks s t)) s;
       let s = s\<lparr>ReadyTaskQueue := ReadyTaskQueue s @ temp_list\<rparr>;
       s \<leftarrow> free_segment t (free_signal t s);
       s \<leftarrow> updateMetrics E t s;
       Some (set_state t ATMI_COMPLETED s)
     }"

definition handle_signal_callback ::
  "hsa_env \<Rightarrow> tid \<Rightarrow> rt_state \<Rightarrow> (wait_for \<times> rt_state) option" where
  "handle_signal_callback E t s =
     (if groupable (tasks s t) then None
      else Option.bind (complete_task E t s) (doProgress E t))"

definition retire_task :: "hsa_env \<Rightarrow> tid \<Rightarrow> rt_state \<Rightarrow> rt_state option" where
  "retire_task E t s =
     (if groupable (tasks s t) then None
      else do {
        s \<leftarrow> free_segment t (set_state t ATMI_EXECUTED s);
        s \<leftarrow> updateMetrics E t (free_signal t s);
        Some (set_state t ATMI_COMPLETED s)
      })"

fun retire_tasks :: "hsa_env \<Rightarrow> tid list \<Rightarrow> rt_state \<Rightarrow> rt_state option" where
  "retire_tasks E [] s = Some s"
| "retire_tasks E (t # ts) s = Option.bind (retire_task E t s) (retire_tasks E ts)"

text \<open>
  \<open>handle_signal_barrier_pkt\<close>. The handler was registered for the first task of the batch, which
  has to exist; \<open>doProgress\<close> is called for that task.
\<close>

definition handle_signal_barrier_pkt ::
  "hsa_env \<Rightarrow> tid list \<Rightarrow> rt_state \<Rightarrow> (wait_for \<times> rt_state) option" where
  "handle_signal_barrier_pkt E batch s =
     (case batch of
        [] \<Rightarrow> None
      | t # _ \<Rightarrow> Option.bind (retire_tasks E batch s) (doProgress E t))"

section \<open>handle\_group\_signal\<close>

fun release_and_predecessors :: "tid list \<Rightarrow> rt_state \<Rightarrow> (signal list \<times> rt_state) option" where
  "release_and_predecessors [] s = Some ([], s)"
| "release_and_predecessors (p # ps) s =
     (if \<not> state_of s p \<ge> ATMI_DISPATCHED then None
      else do {
        let s = upd_task p (\<lambda>k. k\<lparr>num_successors := num_successors k - 1\<rparr>) s;
        (sigs, s') \<leftarrow> release_and_predecessors ps s;
        Some (if state_of s p \<ge> ATMI_EXECUTED \<and> num_successors (tasks s p) = 0
              then tk_signal (tasks s p) # sigs else sigs, s')
      })"

definition complete_group_task :: "hsa_env \<Rightarrow> tid \<Rightarrow> rt_state \<Rightarrow> rt_state option" where
  "complete_group_task E t s =
     do {
       s \<leftarrow> free_segment t s;
       s \<leftarrow> (if dep_sync s = ATL_SYNC_BARRIER_PKT then
               do {
                 (sigs, s) \<leftarrow> release_and_predecessors (and_predecessors (tasks s t)) s;
                 Some (s\<lparr>FreeSignalPool := FreeSignalPool s @ sigs\<rparr>)
               }
             else Some s);
       s \<leftarrow> updateMetrics E t s;
       Some (set_state t ATMI_COMPLETED s)
     }"

fun complete_group_tasks :: "hsa_env \<Rightarrow> tid list \<Rightarrow> rt_state \<Rightarrow> rt_state option" where
  "complete_group_tasks E [] s = Some s"
| "complete_group_tasks E (t # ts) s =
     Option.bind (complete_group_task E t s) (complete_group_tasks E ts)"

text \<open>
  The first critical section: the group's running tasks are taken over; an ordered group also
  drops as many entries from the front of its ordered list.
\<close>

definition collect_group :: "gid \<Rightarrow> rt_state \<Rightarrow> tid list \<times> rt_state" where
  "collect_group g s =
     (let group_tasks = running_groupable (groups s g);
          s = log_call (WaitSignalZero (group_signal (groups s g))) s
      in (group_tasks,
          upd_group g (\<lambda>k. k\<lparr>running_groupable := [],
            running_ordered := (if tg_ordered k then drop (length group_tasks) (running_ordered k)
                                else running_ordered k),
            callback_started := False\<rparr>) s))"

text \<open>
  The successors of a finished group. \<open>successors\<close> is a reference to the group's list, which is
  cleared before it is walked; the walk sees the cleared list.
\<close>

definition release_group_successors ::
  "hsa_env \<Rightarrow> gid \<Rightarrow> rt_state \<Rightarrow> (wait_for \<times> rt_state) option" where
  "release_group_successors E g s =
     (let s = upd_group g (\<lambda>k. k\<lparr>tg_and_successors := []\<rparr>) s;
          successors = tg_and_successors (groups s g);
          (temp_list, s) = release_successors successors s;
          s = s\<lparr>ReadyTaskQueue := ReadyTaskQueue s @ temp_list\<rparr>
      in if temp_list \<noteq> [] then doProgress E (last temp_list) s else Some (NoWait, s))"

definition handle_group_signal ::
  "hsa_env \<Rightarrow> gid \<Rightarrow> rt_state \<Rightarrow> (wait_for \<times> rt_state) option" where
  "handle_group_signal E g s =
     do {
       let (group_tasks, s) = collect_group g s;
       s \<leftarrow> complete_group_tasks E group_tasks s;
       (w, s) \<leftarrow> (if group_tasks \<noteq> [] then doProgress E (last group_tasks) s else Some (NoWait, s));
       if w \<noteq> NoWait then Some (w, s)
       else
         let s = upd_group g (\<lambda>k. k\<lparr>task_count := task_count k - of_nat (length group_tasks)\<rparr>) s in
         if dep_sync s = ATL_SYNC_CALLBACK \<and> task_count (groups s g) = 0
         then release_group_successors E g s
         else Some (NoWait, s)
     }"

end
