(* ===== verification/Kernel_API.thy ===== *)
theory Kernel_API
  imports Runtime_State
begin

text \<open>
  Creation and release of kernels in the global state: the \<open>Runtime\<close> functions of
  \<open>core/kernel.cpp\<close>. A kernel's address is its handle; a released kernel is gone from the map, and
  every later use of it by a task is a crash.
\<close>

section \<open>Creation\<close>

definition CreateEmptyKernel :: "u64 list \<Rightarrow> rt_state \<Rightarrow> u64 \<times> rt_state" where
  "CreateEmptyKernel sizes s =
     (let k_id = kernel_counter s + 1
      in (k_id, s\<lparr>kernel_counter := k_id, kernels := (kernels s)(k_id \<mapsto> new_Kernel k_id sizes)\<rparr>))"

text \<open>Decimal numerals, as \<open>std::to_string\<close> prints them.\<close>

fun nat_string :: "nat \<Rightarrow> string" where
  "nat_string n =
     (if n < 10 then [char_of (48 + n)] else nat_string (n div 10) @ [char_of (48 + n mod 10)])"

declare nat_string.simps [simp del]

definition cpu_impl_name :: "nat \<Rightarrow> u64 \<Rightarrow> string" where
  "cpu_impl_name counter k_id = ''_x86_'' @ nat_string counter @ ''_'' @ nat_string (unat k_id)"

text \<open>A new implementation is put on the heap and numbered by its place in the kernel's list.\<close>

definition install_impl :: "u64 \<Rightarrow> Kernel \<Rightarrow> u32 \<Rightarrow> KernelImpl \<Rightarrow> rt_state \<Rightarrow> rt_state" where
  "install_impl k_id krn kid impl s =
     s\<lparr>impls := (impls s)(n_impls s := impl), n_impls := n_impls s + 1,
       kernels := (kernels s)(k_id \<mapsto> add_impl krn kid (n_impls s))\<rparr>"

definition AddCPUKernelImpl ::
  "u64 \<Rightarrow> u64 \<Rightarrow> u32 \<Rightarrow> rt_state \<Rightarrow> (atmi_status_t \<times> rt_state) option" where
  "AddCPUKernelImpl k_id fp kid s =
     (if \<not> atmi_initialized s then Some (ATMI_STATUS_ERROR, s)
      else do {
        let name = cpu_impl_name (cpu_impl_counter s) k_id;
        let s = s\<lparr>cpu_impl_counter := cpu_impl_counter s + 1\<rparr>;
        krn \<leftarrow> kernels s k_id;
        if kn_id_map krn kid \<noteq> None then Some (ATMI_STATUS_ERROR, s)
        else Some (ATMI_STATUS_SUCCESS,
                   install_impl k_id krn kid (new_CPUKernelImpl kid name fp krn) s)
      })"

definition AddGPUKernelImpl ::
  "u64 \<Rightarrow> string \<Rightarrow> u32 \<Rightarrow> rt_state \<Rightarrow> (atmi_status_t \<times> rt_state) option" where
  "AddGPUKernelImpl k_id name kid s =
     (if \<not> atmi_initialized s \<or> KernelInfoTable s = [] then Some (ATMI_STATUS_ERROR, s)
      else do {
        krn \<leftarrow> kernels s k_id;
        if kn_id_map krn kid \<noteq> None then Some (ATMI_STATUS_ERROR, s)
        else
          let gpu_count = length (gpu_processors (machine s)) in
          if length (KernelInfoTable s) < gpu_count then None
          else if \<forall>gpu < gpu_count. (KernelInfoTable s ! gpu) name = None
          then Some (ATMI_STATUS_ERROR, s)
          else do {
            impl \<leftarrow> new_GPUKernelImpl (KernelInfoTable s) gpu_count kid name krn;
            Some (ATMI_STATUS_SUCCESS, install_impl k_id krn kid impl s)
          }
      })"

text \<open>The variable arguments of \<open>CreateKernel\<close>: a device type and what goes with it.\<close>

datatype impl_arg = GPUImpl string | CPUImpl u64 | UnknownImpl atmi_devtype_t

text \<open>An implementation that cannot be added exits the program (\<open>ATMIErrorCheck\<close>).\<close>

fun add_impls :: "u64 \<Rightarrow> impl_arg list \<Rightarrow> nat \<Rightarrow> rt_state \<Rightarrow> (atmi_status_t \<times> rt_state) option" where
  "add_impls k_id [] i s = Some (ATMI_STATUS_SUCCESS, s)"
| "add_impls k_id (GPUImpl name # as) i s =
     do {
       (st, s) \<leftarrow> AddGPUKernelImpl k_id name (of_nat i) s;
       if st = ATMI_STATUS_SUCCESS then add_impls k_id as (i + 1) s else None
     }"
| "add_impls k_id (CPUImpl fp # as) i s =
     do {
       (st, s) \<leftarrow> AddCPUKernelImpl k_id fp (of_nat i) s;
       if st = ATMI_STATUS_SUCCESS then add_impls k_id as (i + 1) s else None
     }"
| "add_impls k_id (UnknownImpl ty # as) i s = Some (ATMI_STATUS_ERROR, s)"

definition CreateKernel ::
  "u64 list \<Rightarrow> impl_arg list \<Rightarrow> rt_state \<Rightarrow> (atmi_status_t \<times> u64 option \<times> rt_state) option" where
  "CreateKernel sizes args s =
     (if \<not> atmi_initialized s then Some (ATMI_STATUS_ERROR, None, s)
      else
        let (k_id, s) = CreateEmptyKernel sizes s in
        map_option (\<lambda>(st, s). (st, Some k_id, s)) (add_impls k_id args 0 s))"

section \<open>Release\<close>

text \<open>
  The destructor of a derived class frees the region before the base destructor waits for the
  tasks; the tasks that are waited for are the result's second component.
\<close>

definition release_waits :: "rt_state \<Rightarrow> Kernel \<Rightarrow> tid list" where
  "release_waits s krn =
     concat (map (\<lambda>p. filter (\<lambda>t. state_of s t < ATMI_COMPLETED) (launched_tasks (impls s p)))
       (kn_impls krn))"

definition free_impl :: "impl_ptr \<Rightarrow> rt_state \<Rightarrow> rt_state" where
  "free_impl p s =
     upd_impl p (\<lambda>k. k\<lparr>has_kernarg_region := False, launched_tasks := [], arg_offsets := [],
       free_kernarg_segments := []\<rparr>) s"

definition ReleaseKernel :: "u64 \<Rightarrow> rt_state \<Rightarrow> tid list \<times> rt_state" where
  "ReleaseKernel k_id s =
     (case kernels s k_id of
        None \<Rightarrow> ([], s)
      | Some krn \<Rightarrow>
          (release_waits s krn,
           (fold free_impl (kn_impls krn) s)\<lparr>kernels := (kernels s)(k_id := None)\<rparr>))"

section \<open>Well-formed kernels\<close>

text \<open>
  Every kernel numbers its implementations consistently, its handle is one that was given out,
  and implementations are on the allocated part of the heap and belong to one kernel.
\<close>

definition kernels_wf :: "rt_state \<Rightarrow> bool" where
  "kernels_wf s \<longleftrightarrow>
     (\<forall>k krn. kernels s k = Some krn \<longrightarrow>
        kernel_wf (impls s) krn \<and> unat k \<le> unat (kernel_counter s) \<and>
        set (kn_impls krn) \<subseteq> {..<n_impls s})"

lemma kernel_wf_cong:
  assumes "\<And>p. p \<in> set (kn_impls krn) \<Longrightarrow> ki_id (h p) = ki_id (h' p)"
  shows "kernel_wf h krn = kernel_wf h' krn"
proof -
  let ?ids = "\<lambda>h. map (\<lambda>p. ki_id (h p)) (kn_impls krn)"
  have "kernel_wf h krn \<longleftrightarrow>
      (\<forall>i < length (?ids h). kn_id_map krn (?ids h ! i) = Some i) \<and>
      (\<forall>k i. kn_id_map krn k = Some i \<longrightarrow> i < length (?ids h) \<and> ?ids h ! i = k)" for h
    unfolding kernel_wf_def by (simp cong: conj_cong)
  moreover have "?ids h = ?ids h'" using assms by simp
  ultimately show ?thesis by (simp only:)
qed

lemma CreateEmptyKernel_wf:
  assumes "kernels_wf s" and "unat (kernel_counter s) + 1 < 2 ^ 64"
    and "CreateEmptyKernel sizes s = (k, s')"
  shows "kernels_wf s' \<and> kernels s k = None \<and> kernels s' k = Some (new_Kernel k sizes)"
proof -
  have inc: "unat (kernel_counter s + 1) = Suc (unat (kernel_counter s))"
    using assms(2) by (simp add: unat_word_ariths)
  have none: "kernels s (kernel_counter s + 1) = None"
    using assms(1) inc unfolding kernels_wf_def by (metis Suc_n_not_le_n option.exhaust)
  have s': "k = kernel_counter s + 1"
    "s' = s\<lparr>kernel_counter := k, kernels := (kernels s)(k \<mapsto> new_Kernel k sizes)\<rparr>"
    using assms(3) by (auto simp: CreateEmptyKernel_def Let_def)
  have "kernels_wf s'"
    unfolding kernels_wf_def
  proof (intro allI impI)
    fix k2 krn assume k2: "kernels s' k2 = Some krn"
    show "kernel_wf (impls s') krn \<and> unat k2 \<le> unat (kernel_counter s') \<and>
        set (kn_impls krn) \<subseteq> {..<n_impls s'}"
    proof (cases "k2 = k")
      case True
      then have "krn = new_Kernel k sizes" using k2 s'(2) by simp
      then show ?thesis using True s' by (simp add: new_Kernel_wf) (simp add: new_Kernel_def)
    next
      case False
      then have "kernels s k2 = Some krn" using k2 s'(2) by simp
      then have "kernel_wf (impls s) krn \<and> unat k2 \<le> unat (kernel_counter s) \<and>
          set (kn_impls krn) \<subseteq> {..<n_impls s}"
        using assms(1) unfolding kernels_wf_def by blast
      then show ?thesis using s' inc by auto
    qed
  qed
  then show ?thesis using none s' by simp
qed

lemma install_impl_wf:
  assumes "kernels_wf s" and "kernels s k = Some krn" and "kn_id_map krn kid = None"
    and "ki_id impl = kid"
  shows "kernels_wf (install_impl k krn kid impl s)"
proof -
  have wf: "kernel_wf (impls s) krn'" "set (kn_impls krn') \<subseteq> {..<n_impls s}"
      "unat k' \<le> unat (kernel_counter s)"
    if "kernels s k' = Some krn'" for k' krn'
    using assms(1) that unfolding kernels_wf_def by blast+
  have other: "kernel_wf ((impls s)(n_impls s := impl)) krn'" if "kernels s k' = Some krn'" for k' krn'
  proof -
    have "kernel_wf ((impls s)(n_impls s := impl)) krn' = kernel_wf (impls s) krn'"
      using wf(2) [OF that] by (intro kernel_wf_cong) auto
    then show ?thesis using wf(1) [OF that] by simp
  qed
  have "kernel_wf ((impls s)(n_impls s := impl)) (add_impl krn kid (n_impls s))"
    using wf [OF assms(2)] assms(3, 4) by (intro add_impl_wf) auto
  moreover have "set (kn_impls (add_impl krn kid (n_impls s))) \<subseteq> {..<Suc (n_impls s)}"
    using wf(2) [OF assms(2)] by (auto simp: add_impl_def)
  ultimately show ?thesis
    using other wf(2) wf(3) assms(2)
    unfolding kernels_wf_def install_impl_def
    by (auto simp: less_Suc_eq split: if_splits) blast+
qed

lemma new_CPUKernelImpl_id: "ki_id (new_CPUKernelImpl kid name fp krn) = kid"
  by (simp add: new_CPUKernelImpl_def new_KernelImpl_def split: prod.split)

lemma gpu_impl_loop_id:
  "gpu_impl_loop tbl name n gpus st m impl = Some (m', impl') \<Longrightarrow> ki_id impl' = ki_id impl"
  by (induction tbl name n gpus st m impl rule: gpu_impl_loop.induct)
     (auto simp: Let_def split: if_splits option.splits)

lemma new_GPUKernelImpl_id:
  "new_GPUKernelImpl tbl n kid name krn = Some impl \<Longrightarrow> ki_id impl = kid"
  by (auto simp: new_GPUKernelImpl_def new_KernelImpl_def split: option.splits
      dest!: gpu_impl_loop_id)

lemma kernels_wf_counter [simp]: "kernels_wf (s\<lparr>cpu_impl_counter := n\<rparr>) = kernels_wf s"
  by (simp add: kernels_wf_def)

lemma AddCPUKernelImpl_wf:
  assumes "kernels_wf s" and "AddCPUKernelImpl k fp kid s = Some (st, s')"
  shows "kernels_wf s'"
proof (cases "\<exists>krn. atmi_initialized s \<and> kernels s k = Some krn \<and> kn_id_map krn kid = None")
  case True
  then obtain krn where k: "atmi_initialized s" "kernels s k = Some krn" "kn_id_map krn kid = None"
    by blast
  let ?s = "s\<lparr>cpu_impl_counter := cpu_impl_counter s + 1\<rparr>"
  have "s' = install_impl k krn kid
      (new_CPUKernelImpl kid (cpu_impl_name (cpu_impl_counter s) k) fp krn) ?s"
    using assms(2) k by (simp add: AddCPUKernelImpl_def)
  then show ?thesis
    using install_impl_wf [of ?s k krn kid] assms(1) k by (simp add: new_CPUKernelImpl_id)
next
  case False
  then have "s' = s \<or> s' = s\<lparr>cpu_impl_counter := cpu_impl_counter s + 1\<rparr>"
    using assms(2)
    by (auto simp: AddCPUKernelImpl_def bind_eq_Some_conv Let_def split: if_splits)
  then show ?thesis using assms(1) by auto
qed

lemma AddGPUKernelImpl_wf:
  "kernels_wf s \<Longrightarrow> AddGPUKernelImpl k name kid s = Some (st, s') \<Longrightarrow> kernels_wf s'"
  by (auto simp: AddGPUKernelImpl_def bind_eq_Some_conv Let_def
      intro!: install_impl_wf new_GPUKernelImpl_id split: if_splits)

lemma add_impl_lookup:
  assumes "kernel_wf h krn" and "kn_id_map krn kid = None"
  shows "getKernelImpl (add_impl krn kid p) kid = Some p"
    and "kid2 \<noteq> kid \<Longrightarrow> getKernelImpl (add_impl krn kid p) kid2 = getKernelImpl krn kid2"
proof -
  have b: "i < length (kn_impls krn)" if "kn_id_map krn k = Some i" for k i
    using assms(1) that unfolding kernel_wf_def by blast
  show "getKernelImpl (add_impl krn kid p) kid = Some p"
    by (simp add: getKernelImpl_def getKernelIdMapIndex_def isValidId_def add_impl_def)
  show "getKernelImpl (add_impl krn kid p) kid2 = getKernelImpl krn kid2" if "kid2 \<noteq> kid"
    using that b
    by (auto simp: getKernelImpl_def getKernelIdMapIndex_def isValidId_def add_impl_def nth_append
        split: option.splits) (use b in fastforce)+
qed

text \<open>
  Adding an implementation under a fresh identifier makes exactly that identifier resolve to
  it: every other identifier of every kernel resolves as before, and the kernel table stays
  well-formed; a second addition under the same identifier is refused.
\<close>

lemma AddCPUKernelImpl_lookup:
  assumes "kernels_wf s" and "AddCPUKernelImpl k fp kid s = Some (ATMI_STATUS_SUCCESS, s')"
  shows "\<exists>krn krn'. kernels s k = Some krn \<and> kernels s' k = Some krn'
    \<and> getKernelImpl krn' kid = Some (n_impls s)
    \<and> ki_function (impls s' (n_impls s)) = fp
    \<and> (\<forall>kid2. kid2 \<noteq> kid \<longrightarrow> getKernelImpl krn' kid2 = getKernelImpl krn kid2)
    \<and> (\<forall>k2. k2 \<noteq> k \<longrightarrow> kernels s' k2 = kernels s k2)
    \<and> kernels_wf s'
    \<and> (\<exists>s''. AddCPUKernelImpl k fp2 kid s' = Some (ATMI_STATUS_ERROR, s''))"
proof -
  obtain krn where k: "atmi_initialized s" "kernels s k = Some krn" "kn_id_map krn kid = None"
    and s': "s' = install_impl k krn kid
      (new_CPUKernelImpl kid (cpu_impl_name (cpu_impl_counter s) k) fp krn)
      (s\<lparr>cpu_impl_counter := cpu_impl_counter s + 1\<rparr>)"
    using assms(2) by (auto simp: AddCPUKernelImpl_def bind_eq_Some_conv Let_def split: if_splits)
  have wf: "kernel_wf (impls s) krn" using assms(1) k(2) unfolding kernels_wf_def by blast
  have fp: "ki_function (new_CPUKernelImpl kid nm fp krn) = fp" for nm
    by (simp add: new_CPUKernelImpl_def split: prod.split)
  have wf': "kernels_wf s'" using AddCPUKernelImpl_wf assms by blast
  have dup: "AddCPUKernelImpl k fp2 kid s' =
      Some (ATMI_STATUS_ERROR, s'\<lparr>cpu_impl_counter := cpu_impl_counter s' + 1\<rparr>)"
    using k by (simp add: s' install_impl_def AddCPUKernelImpl_def add_impl_def)
  show ?thesis
    using k wf' dup fp add_impl_lookup [OF wf k(3)]
    by (intro exI [of _ krn] exI [of _ "add_impl krn kid (n_impls s)"])
       (auto simp: s' install_impl_def)
qed

text \<open>A started runtime with one kernel of two arguments and no implementation.\<close>

definition demo_kernel_state :: rt_state where
  "demo_kernel_state =
     (snd (CreateEmptyKernel [8, 4]
       (rt_start ATL_SYNC_CALLBACK \<lparr>cpu_processors = [], gpu_processors = [], dsp_processors = []\<rparr> [])))
       \<lparr>atmi_initialized := True\<rparr>"

lemma AddCPUKernelImpl_lookup_witness:
  "\<exists>s' krn'. AddCPUKernelImpl 1 0x400 3 demo_kernel_state = Some (ATMI_STATUS_SUCCESS, s') \<and>
     kernels s' 1 = Some krn' \<and> getKernelImpl krn' 3 = Some 0 \<and> getKernelImpl krn' 4 = None"
proof -
  let ?s = demo_kernel_state
  have k: "kernels ?s 1 = Some (new_Kernel 1 [8, 4])" "atmi_initialized ?s" "n_impls ?s = 0"
    by (simp_all add: demo_kernel_state_def CreateEmptyKernel_def rt_start_def)
  have "kernels_wf ?s"
    by (auto simp: demo_kernel_state_def CreateEmptyKernel_def rt_start_def kernels_wf_def
        kernel_wf_def new_Kernel_def)
  moreover obtain s' where s': "AddCPUKernelImpl 1 0x400 3 ?s = Some (ATMI_STATUS_SUCCESS, s')"
    using k by (simp add: AddCPUKernelImpl_def new_Kernel_def)
  ultimately obtain krn krn' where "kernels ?s 1 = Some krn" "kernels s' 1 = Some krn'"
    "getKernelImpl krn' 3 = Some (n_impls ?s)"
    "\<forall>kid2. kid2 \<noteq> 3 \<longrightarrow> getKernelImpl krn' kid2 = getKernelImpl krn kid2"
    using AddCPUKernelImpl_lookup [of ?s 1 "0x400" 3 s'] by blast
  then show ?thesis
    using s' k by (auto simp: getKernelImpl_def new_Kernel_def isValidId_def getKernelIdMapIndex_def)
qed

end
