(* ===== verification/Task_API.thy ===== *)
theory Task_API
  imports Scheduler Kernel_API
begin

text \<open>
  The task calls of the API: creating, activating and launching compute tasks
  (\<open>core/task.cpp\<close>), asynchronous copies (\<open>core/data.cpp\<close>), waiting for tasks and groups
  (\<open>core/task.cpp\<close>, \<open>core/taskgroup.cpp\<close>).
\<close>

section \<open>Task construction\<close>

text \<open>A new task object is appended to \<open>AllTasks\<close>; its index, as an \<open>int\<close>, is its identifier.\<close>

definition new_task :: "TaskImpl \<Rightarrow> rt_state \<Rightarrow> tid \<times> rt_state" where
  "new_task k s =
     (let t = n_tasks s;
          new_id = set_task_handle_ID 0 (of_nat t)
      in (t, s\<lparr>n_tasks := t + 1, tasks := (tasks s)(t := k\<lparr>tk_id := new_id\<rparr>)\<rparr>))"

text \<open>Null handles among the required tasks are skipped.\<close>

fun required_tasks :: "rt_state \<Rightarrow> atmi_task_handle_t list \<Rightarrow> tid list option" where
  "required_tasks s [] = Some []"
| "required_tasks s (h # hs) =
     do {
       p \<leftarrow> getTaskImpl s h;
       ps \<leftarrow> required_tasks s hs;
       Some (case p of None \<Rightarrow> ps | Some p \<Rightarrow> p # ps)
     }"

text \<open>
  The end of both constructors: the task joins its group. The group of an invalid handle is a
  null dereference.
\<close>

definition join_group :: "tid \<Rightarrow> rt_state \<Rightarrow> rt_state option" where
  "join_group t s =
     do {
       g \<leftarrow> tk_group (tasks s t);
       let obj = groups s g;
       let s = (if tg_ordered obj then
                  upd_task t (\<lambda>k. k\<lparr>prev_ordered := last_task obj\<rparr>)
                    (upd_group g (\<lambda>k. k\<lparr>running_ordered := running_ordered k @ [t],
                                       last_task := Some t\<rparr>) s)
                else upd_group g (\<lambda>k. k\<lparr>running_default := running_default k @ [t]\<rparr>) s);
       Some (if groupable (tasks s t)
             then upd_group g (\<lambda>k. k\<lparr>task_count := task_count k + 1\<rparr>) s else s)
     }"

definition set_launch_params ::
  "rt_state \<Rightarrow> KernelImpl \<Rightarrow> atmi_lparm_t \<Rightarrow> tid list \<Rightarrow> TaskImpl \<Rightarrow> TaskImpl" where
  "set_launch_params s impl lparm preds k =
     k\<lparr>tk_kernarg := KNull, tk_kernarg_size := ucast (kernarg_segment_size impl),
       tk_devtype := ki_devtype impl, profilable := lp_profilable lparm,
       groupable := lp_groupable lparm, tk_task_info := lp_task_info lparm,
       acquire_scope := lp_acquire_scope lparm, release_scope := lp_release_scope lparm,
       gridDim := lp_gridDim lparm, groupDim := lp_groupDim lparm,
       tk_taskgroup := lp_group lparm, tk_group := getTaskgroupImpl s (lp_group lparm),
       tk_place := lp_place lparm, synchronous := lp_synchronous lparm,
       num_predecessors := 0, num_successors := 0, predecessors := preds,
       pred_groups := map (getTaskgroupImpl s) (lp_required_groups lparm)\<rparr>"

definition setParams :: "tid \<Rightarrow> atmi_lparm_t \<Rightarrow> rt_state \<Rightarrow> rt_state option" where
  "setParams t lparm s =
     do {
       p \<leftarrow> task_impl s t;
       preds \<leftarrow> required_tasks s (lp_requires lparm);
       join_group t (upd_task t (set_launch_params s (impls s p) lparm preds) s)
     }"

definition new_ComputeTaskImpl ::
  "atmi_lparm_t \<Rightarrow> u64 \<Rightarrow> int \<Rightarrow> rt_state \<Rightarrow> (tid \<times> rt_state) option" where
  "new_ComputeTaskImpl lparm k_id kernel_id s =
     do {
       let (t, s) = new_task ((new_TaskImpl ATL_KERNEL_EXECUTION)
             \<lparr>tk_kernel := k_id, tk_kernel_id := word_of_int kernel_id\<rparr>) s;
       s \<leftarrow> setParams t lparm s;
       Some (t, s)
     }"

text \<open>The null pointer result of \<open>createComputeTaskImpl\<close> is the inner \<open>None\<close>.\<close>

definition createComputeTaskImpl ::
  "atmi_lparm_t \<Rightarrow> u64 \<Rightarrow> rt_state \<Rightarrow> (tid option \<times> rt_state) option" where
  "createComputeTaskImpl lparm k_id s =
     (case get_kernel_obj s k_id of
        None \<Rightarrow> Some (None, s)
      | Some krn \<Rightarrow>
          do {
            kernel_id \<leftarrow> getKernelImplId (impls s) krn lparm;
            if kernel_id = -1 then Some (None, s)
            else map_option (\<lambda>(t, s). (Some t, s)) (new_ComputeTaskImpl lparm k_id kernel_id s)
          })"

definition place_uninitialized :: "rt_state \<Rightarrow> atmi_lparm_t \<Rightarrow> bool" where
  "place_uninitialized s lparm \<longleftrightarrow>
     (pl_type (lp_place lparm) AND ATMI_DEVTYPE_GPU \<noteq> 0 \<and> \<not> g_gpu_initialized s) \<or>
     (pl_type (lp_place lparm) AND ATMI_DEVTYPE_CPU \<noteq> 0 \<and> \<not> g_cpu_initialized s)"

section \<open>Launching\<close>

definition tryLaunchKernel ::
  "hsa_env \<Rightarrow> tid \<Rightarrow> u8 list list option \<Rightarrow> rt_state \<Rightarrow>
   (atmi_task_handle_t \<times> wait_for \<times> rt_state) option" where
  "tryLaunchKernel E t args s =
     do {
       s \<leftarrow> (if dep_sync s = ATL_SYNC_BARRIER_PKT then
               do {
                 g \<leftarrow> tk_group (tasks s t);
                 s \<leftarrow> save_kernargs t args s;
                 Some (upd_group g (\<lambda>k. k\<lparr>created_tasks := created_tasks k @ [t]\<rparr>) s)
               }
             else Some s);
       (_, w, s) \<leftarrow> tryDispatch E t args False s;
       Some (tk_id (tasks s t), w, s)
     }"

definition LaunchTask ::
  "hsa_env \<Rightarrow> atmi_lparm_t \<Rightarrow> u64 \<Rightarrow> u8 list list option \<Rightarrow> rt_state \<Rightarrow>
   (atmi_task_handle_t \<times> wait_for \<times> rt_state) option" where
  "LaunchTask E lparm k_id args s =
     (if place_uninitialized s lparm then Some (ATMI_NULL_TASK_HANDLE, NoWait, s)
      else do {
        (t, s) \<leftarrow> createComputeTaskImpl lparm k_id s;
        case t of
          None \<Rightarrow> Some (ATMI_NULL_TASK_HANDLE, NoWait, s)
        | Some t \<Rightarrow> Option.bind (save_kernargs t args s) (tryLaunchKernel E t args)
      })"

definition CreateTaskTemplate :: "u64 \<Rightarrow> rt_state \<Rightarrow> atmi_task_handle_t \<times> rt_state" where
  "CreateTaskTemplate k_id s =
     (case get_kernel_obj s k_id of
        None \<Rightarrow> (ATMI_NULL_TASK_HANDLE, s)
      | Some krn \<Rightarrow>
          let (t, s) = new_task ((new_TaskImpl ATL_KERNEL_EXECUTION)\<lparr>tk_kernel := k_id\<rparr>) s
          in (tk_id (tasks s t), s))"

definition ActivateTaskTemplate ::
  "hsa_env \<Rightarrow> atmi_task_handle_t \<Rightarrow> atmi_lparm_t \<Rightarrow> u8 list list option \<Rightarrow> rt_state \<Rightarrow>
   (atmi_task_handle_t \<times> wait_for \<times> rt_state) option" where
  "ActivateTaskTemplate E h lparm args s =
     do {
       t \<leftarrow> getTaskImpl s h;
       case t of
         None \<Rightarrow> Some (ATMI_NULL_TASK_HANDLE, NoWait, s)
       | Some t \<Rightarrow>
           if tk_type (tasks s t) \<noteq> ATL_KERNEL_EXECUTION
           then Some (ATMI_NULL_TASK_HANDLE, NoWait, s)
           else do {
             krn \<leftarrow> kernels s (tk_kernel (tasks s t));
             kernel_id \<leftarrow> getKernelImplId (impls s) krn lparm;
             if kernel_id = -1 then Some (ATMI_NULL_TASK_HANDLE, NoWait, s)
             else do {
               let s = upd_task t (\<lambda>k. k\<lparr>tk_kernel_id := word_of_int kernel_id\<rparr>) s;
               s \<leftarrow> setParams t lparm s;
               tryLaunchKernel E t args s
             }
           }
     }"

section \<open>Creating and activating\<close>

definition CreateTask ::
  "atmi_lparm_t \<Rightarrow> u64 \<Rightarrow> u8 list list option \<Rightarrow> rt_state \<Rightarrow>
   (atmi_task_handle_t \<times> rt_state) option" where
  "CreateTask lparm k_id args s =
     (if place_uninitialized s lparm then Some (ATMI_NULL_TASK_HANDLE, s)
      else do {
        (t, s) \<leftarrow> createComputeTaskImpl lparm k_id s;
        case t of
          None \<Rightarrow> Some (ATMI_NULL_TASK_HANDLE, s)
        | Some t \<Rightarrow>
            do {
              let (_, s) = link_preds t (predecessors (tasks s t)) s;
              let (_, s) = link_groups t (pred_groups (tasks s t)) s;
              s \<leftarrow> save_kernargs t args s;
              g \<leftarrow> tk_group (tasks s t);
              let s = (if dep_sync s = ATL_SYNC_BARRIER_PKT
                       then upd_group g (\<lambda>k. k\<lparr>created_tasks := created_tasks k @ [t]\<rparr>) s else s);
              let s = set_state t ATMI_INITIALIZED s;
              Some (tk_id (tasks s t), s)
            }
      })"

definition ActivateTask ::
  "hsa_env \<Rightarrow> atmi_task_handle_t \<Rightarrow> rt_state \<Rightarrow>
   (atmi_task_handle_t \<times> wait_for \<times> rt_state) option" where
  "ActivateTask E h s =
     do {
       t \<leftarrow> getTaskImpl s h;
       case t of
         None \<Rightarrow> Some (ATMI_NULL_TASK_HANDLE, NoWait, s)
       | Some t \<Rightarrow>
           let id_t = tk_id (tasks s t) in
           case dep_sync s of
             ATL_SYNC_BARRIER_PKT \<Rightarrow>
               do {
                 g \<leftarrow> tk_group (tasks s t);
                 (w, s) \<leftarrow> created_loop (Suc (length (created_tasks (groups s g)))) E t False s;
                 Some (id_t, w, s)
               }
           | ATL_SYNC_CALLBACK \<Rightarrow>
               (case tk_group (tasks s t) of
                  Some g \<Rightarrow>
                    if tg_ordered (groups s g) then
                      do {
                        (w, s) \<leftarrow> ordered_loop (Suc (length (running_ordered (groups s g)))) E g
                                   False s;
                        Some (id_t, w, s)
                      }
                    else if predecessors (tasks s t) = [] then
                      do {
                        (_, w, s) \<leftarrow> tryDispatch E t None False s;
                        Some (id_t, w, s)
                      }
                    else Some (id_t, NoWait, s)
                | None \<Rightarrow> if predecessors (tasks s t) = [] then None else Some (id_t, NoWait, s))
     }"

section \<open>Asynchronous copies\<close>

text \<open>\<open>DataTaskImpl\<close>'s constructor asserts that every required task exists.\<close>

fun required_tasks_nonnull :: "rt_state \<Rightarrow> atmi_task_handle_t list \<Rightarrow> tid list option" where
  "required_tasks_nonnull s [] = Some []"
| "required_tasks_nonnull s (h # hs) =
     do {
       p \<leftarrow> getTaskImpl s h;
       p \<leftarrow> p;
       ps \<leftarrow> required_tasks_nonnull s hs;
       Some (p # ps)
     }"

definition set_copy_params ::
  "rt_state \<Rightarrow> atmi_cparm_t \<Rightarrow> tid list \<Rightarrow> TaskImpl \<Rightarrow> TaskImpl" where
  "set_copy_params s lparm preds k =
     k\<lparr>tk_taskgroup := cp_group lparm, tk_group := getTaskgroupImpl s (cp_group lparm),
       profilable := cp_profilable lparm, groupable := cp_groupable lparm,
       tk_task_info := cp_task_info lparm, tk_place := ATMI_PLACE_GPU 0 0,
       predecessors := preds,
       pred_groups := map (getTaskgroupImpl s) (cp_required_groups lparm)\<rparr>"

definition new_DataTaskImpl ::
  "atmi_cparm_t \<Rightarrow> u64 \<Rightarrow> u64 \<Rightarrow> u64 \<Rightarrow> rt_state \<Rightarrow> (tid \<times> rt_state) option" where
  "new_DataTaskImpl lparm dest src sz s =
     do {
       let (t, s) = new_task ((new_TaskImpl ATL_DATA_MOVEMENT)
             \<lparr>data_dest_ptr := dest, data_src_ptr := src, data_size := sz\<rparr>) s;
       preds \<leftarrow> required_tasks_nonnull s (cp_requires lparm);
       s \<leftarrow> join_group t (upd_task t (set_copy_params s lparm preds) s);
       Some (t, s)
     }"

definition MemcpyAsync ::
  "hsa_env \<Rightarrow> atmi_cparm_t \<Rightarrow> u64 \<Rightarrow> u64 \<Rightarrow> u64 \<Rightarrow> rt_state \<Rightarrow>
   (atmi_task_handle_t \<times> wait_for \<times> rt_state) option" where
  "MemcpyAsync E lparm dest src sz s =
     do {
       (t, s) \<leftarrow> new_DataTaskImpl lparm dest src sz s;
       g \<leftarrow> tk_group (tasks s t);
       let s = (if dep_sync s = ATL_SYNC_BARRIER_PKT
                then upd_group g (\<lambda>k. k\<lparr>created_tasks := created_tasks k @ [t]\<rparr>) s else s);
       (_, w, s) \<leftarrow> tryDispatch E t None False s;
       Some (tk_id (tasks s t), w, s)
     }"

text \<open>
  The detached thread of a staged copy: it issues the device copy between the device block and a
  temporary host block, whose allocation and release are HSA's, marks the task dispatched, waits
  for the copy and takes its own share off the completion signal.
\<close>

definition copy_thread :: "hsa_env \<Rightarrow> u64 \<Rightarrow> tid \<Rightarrow> rt_state \<Rightarrow> rt_state option" where
  "copy_thread E temp_host_ptr t s =
     do {
       let k = tasks s t;
       let src_data = tracker_find (data_src_ptr k) (g_data_map s);
       let dest_data = tracker_find (data_dest_ptr k) (g_data_map s);
       (src_agent, dest_agent) \<leftarrow> copy_agents (machine s) src_data dest_data;
       let h2d = (copy_direction src_data dest_data = ATMI_H2D);
       let src_ptr = (if h2d then temp_host_ptr else data_src_ptr k);
       let dest_ptr = (if h2d then data_dest_ptr k else temp_host_ptr);
       let deps = (if dep_sync s = ATL_SYNC_BARRIER_PKT
                   then map (\<lambda>p. tk_signal (tasks s p)) (and_predecessors k) else []);
       let s = log_call (AsyncCopy dest_ptr dest_agent src_ptr src_agent (data_size k) deps
                 (tk_signal k)) s;
       let s = set_state t ATMI_DISPATCHED s;
       let s = s\<lparr>copy_threads := remove1 t (copy_threads s)\<rparr>;
       Some (log_call (SignalSubtract (tk_signal k) 1) s)
     }"

section \<open>Waiting for tasks and groups\<close>

text \<open>
  \<open>TaskImpl::wait\<close> spins until the task is completed. With barrier packets it first makes sure
  that somebody will notice the completion: once the task is dispatched and no handler is at
  work in its group, a barrier over the group's sinks is enqueued.
\<close>

definition wait_flush :: "hsa_env \<Rightarrow> tid \<Rightarrow> rt_state \<Rightarrow> rt_state option" where
  "wait_flush E t s =
     (if dep_sync s = ATL_SYNC_BARRIER_PKT \<and> state_of s t < ATMI_EXECUTED then
        do {
          g \<leftarrow> tk_group (tasks s t);
          if first_dispatched (groups s g) then Some s
          else do {
            let ts = dispatched_sink (groups s g);
            let batch = dispatched_tasks (groups s g);
            let s = upd_group g (\<lambda>k. k\<lparr>dispatched_sink := [], dispatched_tasks := []\<rparr>) s;
            s \<leftarrow> enqueue_barrier_tasks E ts s;
            Some (if ts \<noteq> []
                  then s\<lparr>handlers := handlers s @ [HandleBatch (IdentityANDSignal E) batch]\<rparr> else s)
          }
        }
      else Some s)"

definition wait_done :: "rt_state \<Rightarrow> tid \<Rightarrow> bool" where
  "wait_done s t \<longleftrightarrow> state_of s t = ATMI_COMPLETED"

definition TaskWait ::
  "atmi_task_handle_t \<Rightarrow> rt_state \<Rightarrow> (atmi_status_t \<times> tid option) option" where
  "TaskWait h s =
     map_option (\<lambda>t. case t of
        None \<Rightarrow> (ATMI_STATUS_ERROR, None) | Some t \<Rightarrow> (ATMI_STATUS_SUCCESS, Some t))
       (getTaskImpl s h)"

text \<open>
  \<open>TaskgroupImpl::sync\<close>: when its loops end, and what it does then. \<open>None\<close> is the call of \<open>wait\<close>
  on the null last task of an ordered group that has none.
\<close>

definition sync_tasks :: "gid \<Rightarrow> rt_state \<Rightarrow> tid list option" where
  "sync_tasks g s =
     (if tg_ordered (groups s g)
      then map_option (\<lambda>t. [t]) (last_task (groups s g))
      else Some (running_default (groups s g)))"

definition sync_done :: "gid \<Rightarrow> rt_state \<Rightarrow> bool" where
  "sync_done g s \<longleftrightarrow>
     task_count (groups s g) = 0 \<and>
     (case sync_tasks g s of None \<Rightarrow> True | Some ts \<Rightarrow> \<forall>t \<in> set ts. wait_done s t)"

definition sync_finish :: "gid \<Rightarrow> rt_state \<Rightarrow> rt_state option" where
  "sync_finish g s =
     do {
       ts \<leftarrow> sync_tasks g s;
       let s = fold (\<lambda>t. set_state t ATMI_COMPLETED) ts s;
       let s = (if tg_ordered (groups s g) then upd_group g (\<lambda>k. k\<lparr>last_task := None\<rparr>) s else s);
       Some (clearSavedTasks g s)
     }"

definition TaskGroupSync :: "atmi_taskgroup_handle_t \<Rightarrow> rt_state \<Rightarrow> atmi_status_t \<times> gid option" where
  "TaskGroupSync h s = (ATMI_STATUS_SUCCESS, getTaskgroupImpl s h)"

end
