(* ===== verification/Sched_Core.thy ===== *)
theory Sched_Core
  imports Task_API
begin

text \<open>
  An abstract scheduler: what each operation of the callback mode does to the part of the state
  that scheduling reads (\<open>sched_core\<close>). Packets, memory, queue choices, metrics and the log are
  gone; what is left of granting, dispatching and completing a task is a few assignments. The
  lemmas say that the operations of the code implement them.
\<close>

section \<open>Fields of a core\<close>

lemma task_core_fields [sched_frame]:
  "tk_type (task_core k) = tk_type k" "tk_signal (task_core k) = tk_signal k"
  "tk_id (task_core k) = tk_id k" "tk_place (task_core k) = tk_place k"
  "tk_devtype (task_core k) = tk_devtype k" "tk_state (task_core k) = tk_state k"
  "tk_task_info (task_core k) = tk_task_info k" "tk_group (task_core k) = tk_group k"
  "num_predecessors (task_core k) = num_predecessors k"
  "num_successors (task_core k) = num_successors k"
  "predecessors (task_core k) = predecessors k"
  "and_successors (task_core k) = and_successors k"
  "and_predecessors (task_core k) = and_predecessors k"
  "pred_groups (task_core k) = pred_groups k" "prev_ordered (task_core k) = prev_ordered k"
  "groupable (task_core k) = groupable k" "synchronous (task_core k) = synchronous k"
  "tk_kernel (task_core k) = tk_kernel k" "tk_kernel_id (task_core k) = tk_kernel_id k"
  "tk_kernarg_index (task_core k) = tk_kernarg_index k"
  by (simp_all add: task_core_def)

lemma group_core_fields [sched_frame]:
  "tg_id (group_core g) = tg_id g" "tg_ordered (group_core g) = tg_ordered g"
  "last_task (group_core g) = last_task g" "tg_and_successors (group_core g) = tg_and_successors g"
  "group_signal (group_core g) = group_signal g" "task_count (group_core g) = task_count g"
  "running_ordered (group_core g) = running_ordered g"
  "running_default (group_core g) = running_default g"
  "running_groupable (group_core g) = running_groupable g"
  "created_tasks (group_core g) = created_tasks g"
  "dispatched_tasks (group_core g) = dispatched_tasks g"
  "dispatched_sink (group_core g) = dispatched_sink g"
  "first_dispatched (group_core g) = first_dispatched g"
  "callback_started (group_core g) = callback_started g"
  by (simp_all add: group_core_def)

lemma sched_core_fields [sched_frame]:
  "dep_sync (sched_core s) = dep_sync s" "machine (sched_core s) = machine s"
  "n_tasks (sched_core s) = n_tasks s" "tasks (sched_core s) t = task_core (tasks s t)"
  "groups (sched_core s) g = group_core (groups s g)"
  "AllTaskgroups (sched_core s) = AllTaskgroups s" "next_group_id (sched_core s) = next_group_id s"
  "kernels (sched_core s) = kernels s" "kernel_counter (sched_core s) = kernel_counter s"
  "impls (sched_core s) = impls s" "n_impls (sched_core s) = n_impls s"
  "ReadyTaskQueue (sched_core s) = ReadyTaskQueue s"
  "FreeSignalPool (sched_core s) = FreeSignalPool s" "g_data_map (sched_core s) = g_data_map s"
  "copy_threads (sched_core s) = copy_threads s" "handlers (sched_core s) = handlers s"
  by (simp_all add: sched_core_def)

lemma sched_core_impl [sched_frame]: "sched_core (upd_impl p f s) = upd_impl p f (sched_core s)"
  by (simp add: sched_core_def upd_impl_def)

lemma sched_core_upds [sched_frame]:
  "sched_core (s\<lparr>FreeSignalPool := a\<rparr>) = (sched_core s)\<lparr>FreeSignalPool := a\<rparr>"
  "sched_core (s\<lparr>ReadyTaskQueue := b\<rparr>) = (sched_core s)\<lparr>ReadyTaskQueue := b\<rparr>"
  "sched_core (s\<lparr>handlers := c\<rparr>) = (sched_core s)\<lparr>handlers := c\<rparr>"
  "sched_core (s\<lparr>copy_threads := d\<rparr>) = (sched_core s)\<lparr>copy_threads := d\<rparr>"
  by (simp_all add: sched_core_def)

lemma sched_core_task_state [sched_frame]:
  "sched_core (upd_task t (\<lambda>k. k\<lparr>tk_state := st\<rparr>) s) =
     upd_task t (\<lambda>k. k\<lparr>tk_state := st\<rparr>) (sched_core s)"
  "sched_core (upd_task t (\<lambda>k. k\<lparr>tk_signal := sg\<rparr>) s) =
     upd_task t (\<lambda>k. k\<lparr>tk_signal := sg\<rparr>) (sched_core s)"
  "sched_core (upd_task t (\<lambda>k. k\<lparr>tk_kernarg_index := i\<rparr>) s) =
     upd_task t (\<lambda>k. k\<lparr>tk_kernarg_index := i\<rparr>) (sched_core s)"
  "sched_core (upd_task t (\<lambda>k. k\<lparr>num_predecessors := num_predecessors k - 1\<rparr>) s) =
     upd_task t (\<lambda>k. k\<lparr>num_predecessors := num_predecessors k - 1\<rparr>) (sched_core s)"
  by (rule sched_core_upd_task_comm, simp add: task_core_def)+

lemma sched_core_group_upds [sched_frame]:
  "sched_core (upd_group g (\<lambda>k. k\<lparr>running_ordered := tl (running_ordered k)\<rparr>) s) =
     upd_group g (\<lambda>k. k\<lparr>running_ordered := tl (running_ordered k)\<rparr>) (sched_core s)"
  "sched_core (upd_group g (\<lambda>k. k\<lparr>running_groupable := running_groupable k @ [t]\<rparr>) s) =
     upd_group g (\<lambda>k. k\<lparr>running_groupable := running_groupable k @ [t]\<rparr>) (sched_core s)"
  by (rule sched_core_upd_group_comm, simp add: group_core_def)+

lemmas sched_core_set_state_eq [sched_frame] = sched_core_set_state [unfolded sched_core_task_state]

lemma task_impl_core [sched_frame]: "task_impl (sched_core s) t = task_impl s t"
  by (simp add: task_impl_def sched_frame)

text \<open>What two states with the same core share.\<close>

lemma core_eq_fields:
  assumes "sched_core s' = sched_core s"
  shows "dep_sync s' = dep_sync s" "n_tasks s' = n_tasks s"
    "task_core (tasks s' t) = task_core (tasks s t)"
    "group_core (groups s' g) = group_core (groups s g)"
    "AllTaskgroups s' = AllTaskgroups s" "kernels s' = kernels s" "impls s' = impls s"
    "n_impls s' = n_impls s" "ReadyTaskQueue s' = ReadyTaskQueue s"
    "FreeSignalPool s' = FreeSignalPool s" "copy_threads s' = copy_threads s"
    "handlers s' = handlers s" "task_impl s' t = task_impl s t"
  using assms by (metis sched_core_fields task_impl_core)+

lemma core_eq_task_fields:
  assumes "sched_core s' = sched_core s"
  shows "tk_type (tasks s' t) = tk_type (tasks s t)"
    "tk_signal (tasks s' t) = tk_signal (tasks s t)" "state_of s' t = state_of s t"
    "tk_group (tasks s' t) = tk_group (tasks s t)"
    "num_predecessors (tasks s' t) = num_predecessors (tasks s t)"
    "predecessors (tasks s' t) = predecessors (tasks s t)"
    "and_successors (tasks s' t) = and_successors (tasks s t)"
    "groupable (tasks s' t) = groupable (tasks s t)"
    "synchronous (tasks s' t) = synchronous (tasks s t)"
    "tk_kernarg_index (tasks s' t) = tk_kernarg_index (tasks s t)"
    "tg_ordered (groups s' g) = tg_ordered (groups s g)"
    "running_ordered (groups s' g) = running_ordered (groups s g)"
    "running_groupable (groups s' g) = running_groupable (groups s g)"
    "callback_started (groups s' g) = callback_started (groups s g)"
    "group_signal (groups s' g) = group_signal (groups s g)"
  using core_eq_fields(3, 4) [OF assms] by (metis task_core_fields group_core_fields)+

section \<open>The abstract operations\<close>

text \<open>Granting: signal, segment, place in the ordered list, state.\<close>

definition grant_abs :: "tid \<Rightarrow> gid \<Rightarrow> impl_ptr option \<Rightarrow> rt_state \<Rightarrow> rt_state" where
  "grant_abs t g impl s =
     (let s = (if groupable (tasks s t)
               then upd_task t (\<lambda>k. k\<lparr>tk_signal := group_signal (groups s g)\<rparr>) s
               else upd_task t (\<lambda>k. k\<lparr>tk_signal := hd (FreeSignalPool s)\<rparr>)
                      (s\<lparr>FreeSignalPool := tl (FreeSignalPool s)\<rparr>));
          s = (case impl of
                 None \<Rightarrow> s
               | Some p \<Rightarrow>
                   upd_task t (\<lambda>k. k\<lparr>tk_kernarg_index := hd (free_kernarg_segments (impls s p))\<rparr>)
                     (upd_impl p (\<lambda>k. k\<lparr>launched_tasks := launched_tasks k @ [t],
                        free_kernarg_segments := tl (free_kernarg_segments k)\<rparr>) s));
          s = (if tg_ordered (groups s g)
               then upd_group g (\<lambda>k. k\<lparr>running_ordered := tl (running_ordered k)\<rparr>) s else s)
      in upd_task t (\<lambda>k. k\<lparr>tk_state := ATMI_READY\<rparr>) s)"

definition postpone_abs :: "tid \<Rightarrow> bool \<Rightarrow> rt_state \<Rightarrow> rt_state" where
  "postpone_abs t push s =
     (let s = upd_task t (\<lambda>k. k\<lparr>tk_state := ATMI_INITIALIZED\<rparr>) s
      in if push then s\<lparr>ReadyTaskQueue := ReadyTaskQueue s @ [t]\<rparr> else s)"

lemma take_signal_exact:
  "take_signal t g s = Some s' \<Longrightarrow>
   s' = (if groupable (tasks s t)
         then upd_task t (\<lambda>k. k\<lparr>tk_signal := group_signal (groups s g)\<rparr>) s
         else upd_task t (\<lambda>k. k\<lparr>tk_signal := hd (FreeSignalPool s)\<rparr>)
                (s\<lparr>FreeSignalPool := tl (FreeSignalPool s)\<rparr>))
   \<and> (\<not> groupable (tasks s t) \<longrightarrow> FreeSignalPool s \<noteq> [])"
  by (auto simp: take_signal_def queue_acquire_def bind_eq_Some_conv split: if_splits)

lemma task_impl_upd_signal:
  "task_impl (upd_task t (\<lambda>k. k\<lparr>tk_signal := sg\<rparr>) s) t = task_impl s t"
  "task_impl (s\<lparr>FreeSignalPool := q\<rparr>) t = task_impl s t"
  "task_impl (upd_task t (\<lambda>k. k\<lparr>tk_signal := sg\<rparr>) (s\<lparr>FreeSignalPool := q\<rparr>)) t = task_impl s t"
  by (simp_all add: task_impl_def)

lemma sched_core_acquire_kernarg [sched_frame]:
  "sched_core (upd_task t (\<lambda>k. k\<lparr>tk_kernarg_index := i\<rparr>)
     (upd_impl p (\<lambda>k. k\<lparr>launched_tasks := launched_tasks k @ [t], free_kernarg_segments := tl (free_kernarg_segments k)\<rparr>) s)) =
   upd_task t (\<lambda>k. k\<lparr>tk_kernarg_index := i\<rparr>)
     (upd_impl p (\<lambda>k. k\<lparr>launched_tasks := launched_tasks k @ [t], free_kernarg_segments := tl (free_kernarg_segments k)\<rparr>) (sched_core s))"
  by (simp only: sched_core_task_state sched_core_impl)

lemma pop_ordered_core:
  assumes "pop_ordered g s = Some s'" and "sched_core s = sched_core s0"
  shows "sched_core s' = (if tg_ordered (groups s0 g)
      then upd_group g (\<lambda>k. k\<lparr>running_ordered := tl (running_ordered k)\<rparr>) (sched_core s0)
      else sched_core s0)"
  using assms core_eq_task_fields(11) [OF assms(2), of g]
  by (auto simp: pop_ordered_def sched_core_group_upds split: if_splits)

lemma take_kernarg_core:
  assumes "take_kernarg t args s = Some s'" and "task_kernel_impl s t = Some impl"
  shows "sched_core s' = sched_core (case impl of None \<Rightarrow> s
     | Some p \<Rightarrow> upd_task t (\<lambda>k. k\<lparr>tk_kernarg_index := hd (free_kernarg_segments (impls s p))\<rparr>)
         (upd_impl p (\<lambda>k. k\<lparr>launched_tasks := launched_tasks k @ [t],
            free_kernarg_segments := tl (free_kernarg_segments k)\<rparr>) s))"
proof (cases "tk_type (tasks s t)")
  case ATL_KERNEL_EXECUTION
  then have i: "impl = task_impl s t" "task_impl s t \<noteq> None"
    using assms(2) by (auto simp: task_kernel_impl_def)
  moreover have "acquire_kernarg t args s = Some s'"
    using assms(1) ATL_KERNEL_EXECUTION by (simp add: take_kernarg_def)
  ultimately show ?thesis using acquire_kernarg_core [of t args s s'] by auto
next
  case ATL_DATA_MOVEMENT
  then show ?thesis using assms by (simp add: take_kernarg_def task_kernel_impl_def)
qed

text \<open>Granting implements the abstract grant.\<close>

lemma host_grant_core:
  assumes "host_grant E t g args s = Some s'" and "task_kernel_impl s t = Some impl"
  shows "sched_core s' = sched_core (grant_abs t g impl s)"
proof -
  obtain s1 s2 s3 s4 where s1: "take_signal t g s = Some s1"
    and s2: "take_kernarg t args s1 = Some s2" and s3: "pop_ordered g s2 = Some s3"
    and s4: "acquireAqlPacket E t s3 = Some s4" and s': "s' = set_state t ATMI_READY s4"
    using assms(1) by (auto simp: host_grant_def bind_eq_Some_conv)
  note e1 = take_signal_exact [OF s1, THEN conjunct1]
  have ty: "tk_type (tasks s1 t) = tk_type (tasks s t)" unfolding e1 by simp
  let ?a2 = "case impl of None \<Rightarrow> s1
     | Some p \<Rightarrow> upd_task t (\<lambda>k. k\<lparr>tk_kernarg_index := hd (free_kernarg_segments (impls s1 p))\<rparr>)
         (upd_impl p (\<lambda>k. k\<lparr>launched_tasks := launched_tasks k @ [t],
            free_kernarg_segments := tl (free_kernarg_segments k)\<rparr>) s1)"
  have "task_impl s1 t = task_impl s t" unfolding e1 by (simp add: task_impl_upd_signal)
  then have "task_kernel_impl s1 t = Some impl"
    using assms(2) ty by (simp add: task_kernel_impl_def split: atl_task_type_t.splits)
  from take_kernarg_core [OF s2 this] have c2: "sched_core s2 = sched_core ?a2" .
  have "sched_core s' = upd_task t (\<lambda>k. k\<lparr>tk_state := ATMI_READY\<rparr>) (sched_core s3)"
    using acquireAqlPacket_core [OF s4] s' by (simp add: sched_core_set_state_eq)
  also have "sched_core s3 = (if tg_ordered (groups ?a2 g)
      then upd_group g (\<lambda>k. k\<lparr>running_ordered := tl (running_ordered k)\<rparr>) (sched_core ?a2)
      else sched_core ?a2)"
    by (rule pop_ordered_core [OF s3 c2])
  finally show ?thesis
    unfolding grant_abs_def Let_def e1 [symmetric]
    by (simp add: sched_core_task_state sched_core_group_upds)
qed

lemma host_postpone_core:
  assumes "host_postpone t g waiting args s = Some s'"
  shows "sched_core s' = sched_core (postpone_abs t (\<not> waiting \<and> \<not> tg_ordered (groups s g)) s)"
proof -
  obtain s1 where k: "keep_kernargs t args s = Some s1"
    and s': "s' = (let s = set_state t ATMI_INITIALIZED s1
                   in if \<not> waiting \<and> \<not> tg_ordered (groups s g)
                      then s\<lparr>ReadyTaskQueue := ReadyTaskQueue s @ [t]\<rparr> else s)"
    using assms by (auto simp: host_postpone_def bind_eq_Some_conv Let_def)
  have c: "sched_core s1 = sched_core s"
    using k by (auto simp: keep_kernargs_def save_kernargs_core split: if_splits)
  let ?s2 = "set_state t ATMI_INITIALIZED s1"
  have c2: "sched_core ?s2 = sched_core (upd_task t (\<lambda>k. k\<lparr>tk_state := ATMI_INITIALIZED\<rparr>) s)"
    by (simp add: sched_core_set_state_eq sched_core_task_state c)
  have o: "tg_ordered (groups ?s2 g) = tg_ordered (groups s g)" "ReadyTaskQueue ?s2 = ReadyTaskQueue s"
    using core_eq_task_fields(11) [OF c2, of g] core_eq_fields(9) [OF c2] by simp_all
  show ?thesis
    unfolding s' Let_def o postpone_abs_def
    by (simp add: sched_core_upds c2)
qed

end
