(* ===== verification/Sched_Invariants.thy ===== *)
theory Sched_Invariants
  imports Sched_Core
begin

text \<open>
  The invariants of the callback mode and the proofs that the steps of the abstract scheduler
  keep them: completion signals and kernarg segments are held by exactly one running task or are
  free, completion handlers are registered for the running tasks, and the counts of unfinished
  predecessors cover the links.
\<close>

section \<open>Sums over the tasks\<close>

definition task_sum :: "(TaskImpl \<Rightarrow> 'a::comm_monoid_add) \<Rightarrow> rt_state \<Rightarrow> 'a" where
  "task_sum f s = (\<Sum>t<n_tasks s. f (tasks s t))"

lemma task_sum_upd:
  fixes f :: "TaskImpl \<Rightarrow> 'a::comm_monoid_add"
  assumes "t < n_tasks s" and "tasks s' = (tasks s)(t := k)" and "n_tasks s' = n_tasks s"
  shows "task_sum f s' + f (tasks s t) = task_sum f s + f k"
proof -
  have split: "(\<Sum>x<n_tasks s. h x) = h t + (\<Sum>x \<in> {..<n_tasks s} - {t}. h x)"
    for h :: "nat \<Rightarrow> 'a"
    using assms(1) by (intro sum.remove) auto
  have "(\<Sum>x \<in> {..<n_tasks s} - {t}. f (tasks s' x)) = (\<Sum>x \<in> {..<n_tasks s} - {t}. f (tasks s x))"
    by (intro sum.cong) (auto simp: assms(2))
  then show ?thesis
    unfolding task_sum_def assms(3) split
    by (simp add: assms(2) add.assoc add.commute add.left_commute)
qed

lemma task_sum_cong:
  assumes "n_tasks s' = n_tasks s" and "\<And>t. f (tasks s' t) = f (tasks s t)"
  shows "task_sum f s' = task_sum f s"
  by (simp add: task_sum_def assms)

lemma task_sum_core:
  "sched_core s' = sched_core s \<Longrightarrow> (\<And>k. f (task_core k) = f k) \<Longrightarrow>
   task_sum f s' = task_sum f s"
  by (metis core_eq_fields(2, 3) task_sum_cong)

lemma task_sum_new:
  assumes "n_tasks s' = Suc (n_tasks s)" and "\<And>t. t < n_tasks s \<Longrightarrow> f (tasks s' t) = f (tasks s t)"
  shows "task_sum f s' = task_sum f s + f (tasks s' (n_tasks s))"
  using assms by (simp add: task_sum_def)

section \<open>Who holds what\<close>

definition active :: "TaskImpl \<Rightarrow> bool" where
  "active k \<longleftrightarrow> ATMI_READY \<le> tk_state k \<and> tk_state k \<le> ATMI_EXECUTED"

definition live :: "TaskImpl \<Rightarrow> bool" where
  "live k \<longleftrightarrow> tk_state k = ATMI_READY \<or> tk_state k = ATMI_DISPATCHED"

lemma active_iff:
  "active k \<longleftrightarrow> tk_state k \<in> {ATMI_READY, ATMI_DISPATCHED, ATMI_EXECUTED}"
  by (cases "tk_state k") (simp_all add: active_def state_order)

lemma live_active: "live k \<Longrightarrow> active k"
  by (auto simp: live_def active_iff)

lemma less_ready_iff: "st < ATMI_READY \<longleftrightarrow> st \<in> {ATMI_UNINITIALIZED, ATMI_INITIALIZED}"
  by (cases st) (simp_all add: state_order)

lemma less_executed_iff:
  "st < ATMI_EXECUTED \<longleftrightarrow>
   st \<in> {ATMI_UNINITIALIZED, ATMI_INITIALIZED, ATMI_READY, ATMI_DISPATCHED}"
  by (cases st) (simp_all add: state_order)

lemma less_initialized_iff: "st < ATMI_INITIALIZED \<longleftrightarrow> st = ATMI_UNINITIALIZED"
  by (cases st) (simp_all add: state_order)

definition sig_of :: "TaskImpl \<Rightarrow> signal multiset" where
  "sig_of k = (if active k \<and> \<not> groupable k then {#tk_signal k#} else {#})"

definition impl_of :: "(u64 \<rightharpoonup> Kernel) \<Rightarrow> TaskImpl \<Rightarrow> impl_ptr option" where
  "impl_of ks k =
     (if tk_type k = ATL_KERNEL_EXECUTION
      then Option.bind (ks (tk_kernel k)) (\<lambda>krn. getKernelImpl krn (tk_kernel_id k)) else None)"

definition seg_of :: "(u64 \<rightharpoonup> Kernel) \<Rightarrow> impl_ptr \<Rightarrow> TaskImpl \<Rightarrow> nat multiset" where
  "seg_of ks p k = (if active k \<and> impl_of ks k = Some p then {#tk_kernarg_index k#} else {#})"

text \<open>The signals \<open>A\<close> of the pool are free or held by one running task each.\<close>

definition signal_inv :: "signal multiset \<Rightarrow> rt_state \<Rightarrow> bool" where
  "signal_inv A s \<longleftrightarrow> rq.conserved A (task_sum sig_of s) (FreeSignalPool s)"

text \<open>So are the segments of each implementation; \<open>B\<close> gives the segments it was created with.\<close>

definition segment_inv :: "(impl_ptr \<Rightarrow> nat multiset) \<Rightarrow> rt_state \<Rightarrow> bool" where
  "segment_inv B s \<longleftrightarrow>
     (\<forall>p < n_impls s. rq.conserved (B p) (task_sum (seg_of (kernels s) p) s)
        (free_kernarg_segments (impls s p)))"

fun handler_tasks :: "async_handler list \<Rightarrow> tid list" where
  "handler_tasks [] = []"
| "handler_tasks (HandleTask sg t # hs) = t # handler_tasks hs"
| "handler_tasks (_ # hs) = handler_tasks hs"

definition handler_inv :: "rt_state \<Rightarrow> bool" where
  "handler_inv s \<longleftrightarrow>
     (\<forall>sg t. HandleTask sg t \<in> set (handlers s) \<longrightarrow>
        t < n_tasks s \<and> live (tasks s t) \<and> \<not> groupable (tasks s t) \<and> tk_signal (tasks s t) = sg) \<and>
     distinct (handler_tasks (handlers s)) \<and>
     (\<forall>g t. t \<in> set (running_groupable (groups s g)) \<longrightarrow>
        t < n_tasks s \<and> live (tasks s t) \<and> groupable (tasks s t) \<and> tk_group (tasks s t) = Some g) \<and>
     (\<forall>g. distinct (running_groupable (groups s g)))"

lemma handler_tasks_append [simp]:
  "handler_tasks (xs @ ys) = handler_tasks xs @ handler_tasks ys"
  by (induction xs rule: handler_tasks.induct) auto

lemma handler_tasks_iff: "t \<in> set (handler_tasks hs) \<longleftrightarrow> (\<exists>sg. HandleTask sg t \<in> set hs)"
  by (induction hs rule: handler_tasks.induct) auto

lemma task_core_holds [simp]:
  "active (task_core k) = active k" "live (task_core k) = live k"
  "sig_of (task_core k) = sig_of k" "impl_of ks (task_core k) = impl_of ks k"
  "seg_of ks p (task_core k) = seg_of ks p k"
  by (simp_all add: active_def live_def sig_of_def impl_of_def seg_of_def sched_frame)

lemma core_eq_live:
  "sched_core s' = sched_core s \<Longrightarrow> live (tasks s' t) = live (tasks s t)"
  "sched_core s' = sched_core s \<Longrightarrow> active (tasks s' t) = active (tasks s t)"
  by (metis core_eq_fields(3) task_core_holds(1, 2))+

lemma signal_inv_core:
  assumes "sched_core s' = sched_core s"
  shows "signal_inv A s' = signal_inv A s"
  unfolding signal_inv_def core_eq_fields(10) [OF assms]
    task_sum_core [OF assms, of sig_of, simplified] ..

lemma segment_inv_core:
  assumes "sched_core s' = sched_core s"
  shows "segment_inv B s' = segment_inv B s"
  unfolding segment_inv_def core_eq_fields(6-8) [OF assms]
    task_sum_core [OF assms, of "seg_of ks p" for ks p, simplified] ..

lemma handler_inv_core:
  assumes "sched_core s' = sched_core s"
  shows "handler_inv s' = handler_inv s"
  unfolding handler_inv_def core_eq_fields(2, 12) [OF assms] core_eq_live(1) [OF assms]
    core_eq_task_fields(2, 4, 8, 13) [OF assms] ..

lemma task_kernel_impl_of:
  "task_kernel_impl s t = Some impl \<Longrightarrow> impl = impl_of (kernels s) (tasks s t)"
  by (auto simp: task_kernel_impl_def task_impl_def impl_of_def split: atl_task_type_t.splits)

section \<open>Granting\<close>

lemma grant_abs_fields:
  "tasks (grant_abs t g impl s) = (tasks s)(t := (tasks s t)
     \<lparr>tk_signal := (if groupable (tasks s t) then group_signal (groups s g)
                    else hd (FreeSignalPool s)),
      tk_kernarg_index := (case impl of None \<Rightarrow> tk_kernarg_index (tasks s t)
                           | Some p \<Rightarrow> hd (free_kernarg_segments (impls s p))),
      tk_state := ATMI_READY\<rparr>)"
  "n_tasks (grant_abs t g impl s) = n_tasks s"
  "FreeSignalPool (grant_abs t g impl s) =
     (if groupable (tasks s t) then FreeSignalPool s else tl (FreeSignalPool s))"
  "kernels (grant_abs t g impl s) = kernels s" "n_impls (grant_abs t g impl s) = n_impls s"
  "free_kernarg_segments (impls (grant_abs t g impl s) p) =
     (if impl = Some p then tl (free_kernarg_segments (impls s p))
      else free_kernarg_segments (impls s p))"
  "handlers (grant_abs t g impl s) = handlers s"
  "ReadyTaskQueue (grant_abs t g impl s) = ReadyTaskQueue s"
  "copy_threads (grant_abs t g impl s) = copy_threads s"
  "AllTaskgroups (grant_abs t g impl s) = AllTaskgroups s"
  "dep_sync (grant_abs t g impl s) = dep_sync s"
  "running_groupable (groups (grant_abs t g impl s) g') = running_groupable (groups s g')"
  "tg_and_successors (groups (grant_abs t g impl s) g') = tg_and_successors (groups s g')"
  "tg_ordered (groups (grant_abs t g impl s) g') = tg_ordered (groups s g')"
  "running_ordered (groups (grant_abs t g impl s) g') =
     (if g' = g \<and> tg_ordered (groups s g) then tl (running_ordered (groups s g))
      else running_ordered (groups s g'))"
  by (auto simp: grant_abs_def Let_def fun_eq_iff split: option.split)

lemma signal_inv_grant:
  assumes inv: "signal_inv A s" and t: "t < n_tasks s" "\<not> active (tasks s t)"
    and free: "groupable (tasks s t) \<or> FreeSignalPool s \<noteq> []"
  shows "signal_inv A (grant_abs t g impl s)"
proof -
  note sum = task_sum_upd [OF t(1) grant_abs_fields(1, 2), of sig_of g impl]
  have a: "active (tasks s t\<lparr>tk_signal := x, tk_kernarg_index := y, tk_state := ATMI_READY\<rparr>)" for x y
    by (simp add: active_iff)
  show ?thesis
  proof (cases "groupable (tasks s t)")
    case True
    then have "task_sum sig_of (grant_abs t g impl s) = task_sum sig_of s"
      using sum t(2) by (simp add: sig_of_def)
    then show ?thesis using inv True by (simp add: signal_inv_def grant_abs_fields)
  next
    case False
    then have "task_sum sig_of (grant_abs t g impl s) =
        add_mset (hd (FreeSignalPool s)) (task_sum sig_of s)"
      using sum t(2) a by (simp add: sig_of_def)
    moreover have "queue_acquire (FreeSignalPool s) =
        Some (hd (FreeSignalPool s), FreeSignalPool (grant_abs t g impl s))"
      using free False by (simp add: queue_acquire_def grant_abs_fields)
    ultimately show ?thesis
      using inv rq.acquire_conserves unfolding signal_inv_def by metis
  qed
qed

lemma segment_inv_grant:
  assumes inv: "segment_inv B s" and t: "t < n_tasks s" "\<not> active (tasks s t)"
    and impl: "impl = impl_of (kernels s) (tasks s t)" and free: "\<not> no_segment s impl"
  shows "segment_inv B (grant_abs t g impl s)"
  unfolding segment_inv_def
proof (intro allI impI)
  fix p assume p: "p < n_impls (grant_abs t g impl s)"
  let ?f = "seg_of (kernels s) p" and ?s' = "grant_abs t g impl s"
  note sum = task_sum_upd [OF t(1) grant_abs_fields(1, 2), of ?f g impl]
  have c: "rq.conserved (B p) (task_sum ?f s) (free_kernarg_segments (impls s p))"
    using inv p by (simp add: segment_inv_def grant_abs_fields)
  have io: "impl_of ks (tasks s t\<lparr>tk_signal := x, tk_kernarg_index := y, tk_state := z\<rparr>) =
      impl_of ks (tasks s t)" for ks x y z
    by (simp add: impl_of_def)
  have a: "active (tasks s t\<lparr>tk_signal := x, tk_kernarg_index := y, tk_state := ATMI_READY\<rparr>)" for x y
    by (simp add: active_iff)
  show "rq.conserved (B p) (task_sum (seg_of (kernels ?s') p) ?s')
      (free_kernarg_segments (impls ?s' p))"
  proof (cases "impl = Some p")
    case True
    have "task_sum ?f ?s' = add_mset (hd (free_kernarg_segments (impls s p))) (task_sum ?f s)"
      using sum t(2) a True impl io by (simp add: seg_of_def)
    moreover have "queue_acquire (free_kernarg_segments (impls s p)) =
        Some (hd (free_kernarg_segments (impls s p)), free_kernarg_segments (impls ?s' p))"
      using free True by (simp add: queue_acquire_def grant_abs_fields no_segment_def)
    ultimately show ?thesis
      using c rq.acquire_conserves unfolding grant_abs_fields(4) by metis
  next
    case False
    have "task_sum ?f ?s' = task_sum ?f s"
      using sum t(2) False impl io by (simp add: seg_of_def)
    then show ?thesis using c False by (simp add: grant_abs_fields)
  qed
qed

lemma handler_inv_grant:
  assumes "handler_inv s" and "\<not> active (tasks s t)"
  shows "handler_inv (grant_abs t g impl s)"
  using assms live_active by (auto simp: handler_inv_def grant_abs_fields)

section \<open>Steps that move no resource\<close>

lemma signal_inv_cong:
  assumes "n_tasks s' = n_tasks s" "FreeSignalPool s' = FreeSignalPool s"
    and "\<And>x. sig_of (tasks s' x) = sig_of (tasks s x)"
  shows "signal_inv A s' = signal_inv A s"
  by (simp add: signal_inv_def assms task_sum_def)

lemma segment_inv_cong:
  assumes "n_tasks s' = n_tasks s" "n_impls s' = n_impls s" "kernels s' = kernels s"
    and "\<And>p. free_kernarg_segments (impls s' p) = free_kernarg_segments (impls s p)"
    and "\<And>x ks p. seg_of ks p (tasks s' x) = seg_of ks p (tasks s x)"
  shows "segment_inv B s' = segment_inv B s"
  by (simp add: segment_inv_def assms task_sum_def)

lemma handler_inv_cong:
  assumes "n_tasks s' = n_tasks s" "handlers s' = handlers s"
    and "\<And>x. live (tasks s' x) = live (tasks s x)"
    and "\<And>x. groupable (tasks s' x) = groupable (tasks s x)"
    and "\<And>x. tk_signal (tasks s' x) = tk_signal (tasks s x)"
    and "\<And>x. tk_group (tasks s' x) = tk_group (tasks s x)"
    and "\<And>g. running_groupable (groups s' g) = running_groupable (groups s g)"
  shows "handler_inv s' = handler_inv s"
  by (simp add: handler_inv_def assms)

text \<open>The three invariants together, which most steps keep for the same reason.\<close>

definition resource_inv :: "signal multiset \<Rightarrow> (impl_ptr \<Rightarrow> nat multiset) \<Rightarrow> rt_state \<Rightarrow> bool" where
  "resource_inv A B s \<longleftrightarrow> signal_inv A s \<and> segment_inv B s \<and> handler_inv s"

lemma resource_inv_core:
  "sched_core s' = sched_core s \<Longrightarrow> resource_inv A B s' = resource_inv A B s"
  using signal_inv_core segment_inv_core handler_inv_core unfolding resource_inv_def by blast

text \<open>What a task holds, and what of it the handlers look at.\<close>

definition holdings :: "TaskImpl \<Rightarrow> TaskImpl" where
  "holdings k = k\<lparr>num_predecessors := 0, num_successors := 0, and_successors := [],
     and_predecessors := [], tk_packets := [], tk_kernarg := KNull\<rparr>"

lemma holdings_eq:
  assumes "holdings k = holdings k'"
  shows "active k = active k'" "live k = live k'" "sig_of k = sig_of k'"
    "seg_of ks p k = seg_of ks p k'" "groupable k = groupable k'" "tk_signal k = tk_signal k'"
    "tk_group k = tk_group k'"
proof -
  have e: "tk_state k = tk_state k'" "groupable k = groupable k'" "tk_signal k = tk_signal k'"
    "tk_group k = tk_group k'" "tk_type k = tk_type k'" "tk_kernel k = tk_kernel k'"
    "tk_kernel_id k = tk_kernel_id k'" "tk_kernarg_index k = tk_kernarg_index k'"
    using assms by (cases k; cases k'; simp add: holdings_def)+
  then show "active k = active k'" "live k = live k'" "sig_of k = sig_of k'"
    "seg_of ks p k = seg_of ks p k'" "groupable k = groupable k'" "tk_signal k = tk_signal k'"
    "tk_group k = tk_group k'"
    by (simp_all add: active_def live_def sig_of_def seg_of_def impl_of_def)
qed

lemma resource_inv_holdings:
  assumes "n_tasks s' = n_tasks s" "n_impls s' = n_impls s" "kernels s' = kernels s"
    "FreeSignalPool s' = FreeSignalPool s" "handlers s' = handlers s"
    and "\<And>p. free_kernarg_segments (impls s' p) = free_kernarg_segments (impls s p)"
    and h: "\<And>x. holdings (tasks s' x) = holdings (tasks s x)"
    and "\<And>g. running_groupable (groups s' g) = running_groupable (groups s g)"
  shows "resource_inv A B s' = resource_inv A B s"
proof -
  note e = holdings_eq [OF h]
  have "signal_inv A s' = signal_inv A s"
    using assms e by (intro signal_inv_cong) simp_all
  moreover have "segment_inv B s' = segment_inv B s"
    using assms e by (intro segment_inv_cong) simp_all
  moreover have "handler_inv s' = handler_inv s"
    using assms e by (intro handler_inv_cong) simp_all
  ultimately show ?thesis by (simp add: resource_inv_def)
qed

lemma resource_inv_links:
  "resource_inv A B (link_task t p s) = resource_inv A B s"
  "resource_inv A B (link_group t g s) = resource_inv A B s"
  by (rule resource_inv_holdings; simp add: link_task_def link_group_def holdings_def)+

lemma host_dependencies_induct:
  assumes task: "\<And>p s. P s \<Longrightarrow> P (link_task t p s)"
    and group: "\<And>g s. P s \<Longrightarrow> P (link_group t g s)"
  shows "P s \<Longrightarrow> P (snd (host_dependencies t s))"
proof -
  have lp: "P s \<Longrightarrow> P (snd (link_preds t ps s))" for ps s
    by (induction ps arbitrary: s) (auto intro: task)
  have lg: "P s \<Longrightarrow> P (snd (link_groups t gs s))" for gs s
  proof (induction gs arbitrary: s)
    case (Cons a gs)
    then show ?case by (cases a) (auto intro: group)
  qed simp
  have hl: "P s \<Longrightarrow> P (snd (host_links t s))" for s
    using lp [of s "predecessors (tasks s t)"] lg
    by (auto simp: host_links_def Let_def split: prod.split) (metis snd_conv)+
  have oc: "P s \<Longrightarrow> P (snd (ordered_check t s))" for s
    by (auto simp: ordered_check_def intro: task split: option.split)
  show "P s \<Longrightarrow> P (snd (host_dependencies t s))"
    using hl [of s] oc by (auto simp: host_dependencies_def Let_def split: prod.split)
qed

lemma resource_inv_dependencies:
  "resource_inv A B s \<Longrightarrow> resource_inv A B (snd (host_dependencies t s))"
  by (rule host_dependencies_induct) (simp_all add: resource_inv_links)

lemma resource_inv_postpone:
  assumes "resource_inv A B s" and "\<not> active (tasks s t)"
  shows "resource_inv A B (postpone_abs t push s)"
proof -
  let ?s = "postpone_abs t push s"
  have na: "\<not> active (tasks s t\<lparr>tk_state := ATMI_INITIALIZED\<rparr>)" by (simp add: active_iff)
  have f: "n_tasks ?s = n_tasks s" "n_impls ?s = n_impls s" "kernels ?s = kernels s"
    "FreeSignalPool ?s = FreeSignalPool s" "handlers ?s = handlers s" "impls ?s = impls s"
    "groups ?s = groups s"
    "tasks ?s = (tasks s)(t := (tasks s t)\<lparr>tk_state := ATMI_INITIALIZED\<rparr>)"
    by (simp_all add: postpone_abs_def Let_def)
  have sg: "sig_of (tasks ?s x) = sig_of (tasks s x)" "seg_of ks p (tasks ?s x) = seg_of ks p (tasks s x)"
    "live (tasks ?s x) = live (tasks s x)" "groupable (tasks ?s x) = groupable (tasks s x)"
    "tk_signal (tasks ?s x) = tk_signal (tasks s x)" "tk_group (tasks ?s x) = tk_group (tasks s x)"
    for x ks p
    using na assms(2) live_active by (auto simp: f sig_of_def seg_of_def)
  have "signal_inv A ?s = signal_inv A s" using f sg by (intro signal_inv_cong) simp_all
  moreover have "segment_inv B ?s = segment_inv B s" using f sg by (intro segment_inv_cong) simp_all
  moreover have "handler_inv ?s = handler_inv s" using f sg by (intro handler_inv_cong) simp_all
  ultimately show ?thesis using assms(1) by (simp add: resource_inv_def)
qed

lemma resource_inv_grant:
  assumes "resource_inv A B s" and "t < n_tasks s" "\<not> active (tasks s t)"
    and "task_kernel_impl s t = Some impl" and "\<not> host_resources_missing t impl s"
  shows "resource_inv A B (grant_abs t g impl s)"
  using assms signal_inv_grant [of A s t] segment_inv_grant [of B s t impl]
    handler_inv_grant [of s t] task_kernel_impl_of [OF assms(4)]
  by (auto simp: resource_inv_def host_resources_missing_def)

section \<open>Dispatching\<close>

text \<open>
  Between the grant and the registration of its handler a task is live and unregistered; a
  dispatch moves no resource and puts a groupable task on its group's list.
\<close>

lemma resource_inv_dispatched:
  assumes inv: "resource_inv A B s" and t: "t < n_tasks s" "tk_state (tasks s t) = ATMI_READY"
    and g: "tk_group (tasks s t) = Some g"
    and new: "\<And>g. t \<notin> set (running_groupable (groups s g))"
  shows "resource_inv A B (push_groupable g t s)"
    and "resource_inv A B (set_state t ATMI_DISPATCHED (push_groupable g t s))"
proof -
  let ?s1 = "push_groupable g t s"
  have l: "live (tasks s t)" using t by (simp add: live_def)
  have f: "n_tasks ?s1 = n_tasks s" "n_impls ?s1 = n_impls s" "kernels ?s1 = kernels s"
    "FreeSignalPool ?s1 = FreeSignalPool s" "handlers ?s1 = handlers s" "impls ?s1 = impls s"
    "tasks ?s1 = tasks s"
    by (simp_all add: push_groupable_def)
  have "signal_inv A ?s1 = signal_inv A s" by (intro signal_inv_cong) (simp_all add: f)
  moreover have "segment_inv B ?s1 = segment_inv B s" by (intro segment_inv_cong) (simp_all add: f)
  moreover have "handler_inv ?s1"
    using inv new t l g unfolding resource_inv_def handler_inv_def f
    by (auto simp: push_groupable_def split: if_splits)
  ultimately show 1: "resource_inv A B ?s1" using inv by (simp add: resource_inv_def)
  let ?s2 = "set_state t ATMI_DISPATCHED ?s1"
  let ?s3 = "upd_task t (\<lambda>k. k\<lparr>tk_state := ATMI_DISPATCHED\<rparr>) ?s1"
  have c: "sched_core ?s2 = sched_core ?s3" by (rule sched_core_set_state)
  have k: "sig_of (tasks ?s3 x) = sig_of (tasks ?s1 x)"
    "seg_of ks p (tasks ?s3 x) = seg_of ks p (tasks ?s1 x)" "live (tasks ?s3 x) = live (tasks ?s1 x)"
    "groupable (tasks ?s3 x) = groupable (tasks ?s1 x)"
    "tk_signal (tasks ?s3 x) = tk_signal (tasks ?s1 x)"
    "tk_group (tasks ?s3 x) = tk_group (tasks ?s1 x)" for x ks p
    using t by (auto simp: f sig_of_def seg_of_def active_iff live_def impl_of_def)
  have "signal_inv A ?s3 = signal_inv A ?s1" using k by (intro signal_inv_cong) simp_all
  moreover have "segment_inv B ?s3 = segment_inv B ?s1" using k by (intro segment_inv_cong) simp_all
  moreover have "handler_inv ?s3 = handler_inv ?s1" using k by (intro handler_inv_cong) simp_all
  ultimately show "resource_inv A B ?s2"
    using 1 resource_inv_core [OF c] by (simp add: resource_inv_def)
qed

end
