(* ===== verification/Sched_Steps.thy ===== *)
theory Sched_Steps
  imports Sched_Invariants
begin

text \<open>
  The operations of the callback mode keep the resource invariants: \<open>tryDispatch\<close>, the progress
  loops, the completion handlers, and the calls that create and launch tasks.
\<close>

section \<open>What never changes\<close>

text \<open>
  The part of the state that scheduling reads but does not write: the mode, the tables, each
  task's group, kind and predecessors, each group's kind.
\<close>

definition static_task ::
  "TaskImpl \<Rightarrow> atl_task_type_t \<times> gid option \<times> bool \<times> tid list \<times> gid option list \<times> bool \<times> u64 \<times> u32"
  where
  "static_task k = (tk_type k, tk_group k, groupable k, predecessors k, pred_groups k,
     synchronous k, tk_kernel k, tk_kernel_id k)"

definition static ::
  "rt_state \<Rightarrow> atl_dep_sync_t \<times> nat \<times> (u64 \<rightharpoonup> Kernel) \<times> nat \<times> gid option list \<times>
     (tid \<Rightarrow> atl_task_type_t \<times> gid option \<times> bool \<times> tid list \<times> gid option list \<times> bool \<times> u64 \<times> u32) \<times>
     (gid \<Rightarrow> bool)" where
  "static s = (dep_sync s, n_tasks s, kernels s, n_impls s, AllTaskgroups s,
     (\<lambda>t. static_task (tasks s t)), (\<lambda>g. tg_ordered (groups s g)))"

lemma static_fields:
  assumes "static s' = static s"
  shows "dep_sync s' = dep_sync s" "n_tasks s' = n_tasks s" "kernels s' = kernels s"
    "n_impls s' = n_impls s" "AllTaskgroups s' = AllTaskgroups s"
    "tk_type (tasks s' t) = tk_type (tasks s t)" "tk_group (tasks s' t) = tk_group (tasks s t)"
    "groupable (tasks s' t) = groupable (tasks s t)"
    "predecessors (tasks s' t) = predecessors (tasks s t)"
    "pred_groups (tasks s' t) = pred_groups (tasks s t)"
    "synchronous (tasks s' t) = synchronous (tasks s t)"
    "tk_kernel (tasks s' t) = tk_kernel (tasks s t)"
    "tk_kernel_id (tasks s' t) = tk_kernel_id (tasks s t)"
    "tg_ordered (groups s' g) = tg_ordered (groups s g)"
  using assms by (auto simp: static_def static_task_def static_task_def fun_eq_iff)

lemma static_core:
  assumes "sched_core s' = sched_core s"
  shows "static s' = static s"
proof -
  have "static_task (task_core k) = static_task k" for k
    by (simp add: static_task_def sched_frame)
  then have "static_task (tasks s' t) = static_task (tasks s t)" for t
    using core_eq_fields(3) [OF assms, of t] by metis
  then show ?thesis
    unfolding static_def core_eq_fields(1, 2, 5, 6, 8) [OF assms]
      core_eq_task_fields(11) [OF assms] by simp
qed

lemma static_links: "static (link_task t p s) = static s" "static (link_group t g s) = static s"
  by (auto simp: static_def static_task_def link_task_def link_group_def fun_eq_iff)

lemma static_dependencies: "static (snd (host_dependencies t s)) = static s"
  by (rule host_dependencies_induct [where P = "\<lambda>s'. static s' = static s"])
     (simp_all add: static_links)

lemma static_grant: "static (grant_abs t g impl s) = static s"
  by (auto simp: static_def static_task_def grant_abs_fields fun_eq_iff)

lemma static_postpone: "static (postpone_abs t push s) = static s"
  by (auto simp: static_def static_task_def postpone_abs_def Let_def fun_eq_iff)

lemma static_push: "static (push_groupable g t s) = static s"
  by (auto simp: static_def static_task_def push_groupable_def fun_eq_iff)

lemma static_set_state: "static (set_state t st s) = static s"
proof -
  have "static (upd_task t (\<lambda>k. k\<lparr>tk_state := st\<rparr>) s) = static s"
    by (auto simp: static_def static_task_def fun_eq_iff)
  then show ?thesis using static_core [OF sched_core_set_state] by metis
qed

lemma static_simple [simp]:
  "static (s\<lparr>copy_threads := a\<rparr>) = static s" "static (s\<lparr>handlers := b\<rparr>) = static s"
  "static (s\<lparr>ReadyTaskQueue := c\<rparr>) = static s" "static (s\<lparr>FreeSignalPool := d\<rparr>) = static s"
  "static (upd_impl p f s) = static s"
  by (simp_all add: static_def)

lemma static_group_upd:
  "(\<And>k. tg_ordered (f k) = tg_ordered k) \<Longrightarrow> static (upd_group g f s) = static s"
  by (auto simp: static_def static_task_def fun_eq_iff)

lemma static_dispatch: "dispatch E t s = Some s' \<Longrightarrow> static s' = static s"
  by (erule dispatch_core)
     (metis static_core static_set_state static_push static_simple(1))+

lemma static_register: "register_callback t s = Some s' \<Longrightarrow> static s' = static s"
  by (auto simp: register_callback_def bind_eq_Some_conv static_group_upd split: if_splits)

section \<open>tryDispatch\<close>

text \<open>The ways an attempt can go in the callback mode.\<close>

lemma tryDispatchHostCallback_cases:
  assumes "tryDispatchHostCallback E t args s = Some (d, s')"
  obtains (busy) "\<not> d" "s' = s" "state_of s t \<ge> ATMI_READY"
    | (postponed) g waiting s1 where "\<not> d" "tk_group (tasks s t) = Some g"
        "host_dependencies t s = (waiting, s1)" "state_of s t < ATMI_READY"
        "sched_core s' = sched_core (postpone_abs t (\<not> waiting \<and> \<not> tg_ordered (groups s1 g)) s1)"
    | (granted) g impl s1 where d "tk_group (tasks s t) = Some g"
        "host_dependencies t s = (False, s1)" "state_of s t < ATMI_READY"
        "task_kernel_impl s1 t = Some impl" "\<not> host_resources_missing t impl s1"
        "sched_core s' = sched_core (grant_abs t g impl s1)"
proof -
  obtain g impl where g: "tk_group (tasks s t) = Some g" and i: "task_kernel_impl s t = Some impl"
    using assms by (auto simp: tryDispatchHostCallback_def bind_eq_Some_conv)
  obtain waiting s1 where dep: "host_dependencies t s = (waiting, s1)" by fastforce
  show thesis
  proof (cases "state_of s t \<ge> ATMI_READY")
    case True
    then show thesis using assms g i busy by (simp add: tryDispatchHostCallback_def)
  next
    case False
    then have lt: "state_of s t < ATMI_READY" by simp
    have "static s1 = static s" using static_dependencies [of t s] dep by simp
    note kt = static_fields [OF this]
    have "task_impl s1 t = task_impl s t" by (simp add: task_impl_def kt)
    then have i1: "task_kernel_impl s1 t = Some impl"
      using i kt(6) by (simp add: task_kernel_impl_def split: atl_task_type_t.splits)
    show thesis
    proof (cases "\<not> waiting \<and> \<not> host_resources_missing t impl s1")
      case True
      then have "d" "host_grant E t g args s1 = Some s'"
        using assms g i False dep by (auto simp: tryDispatchHostCallback_def)
      moreover have "host_dependencies t s = (False, s1)" using dep True by simp
      ultimately show thesis using granted [OF _ g _ lt i1] True host_grant_core [OF _ i1] by simp
    next
      case wait: False
      then have "\<not> d" "host_postpone t g waiting args s1 = Some s'"
        using assms g i False dep by (auto simp: tryDispatchHostCallback_def split: if_splits)
      then show thesis using postponed [OF _ g dep lt] host_postpone_core by simp
    qed
  qed
qed

lemma tryDispatch_callback:
  assumes "dep_sync s = ATL_SYNC_CALLBACK" and "tryDispatch E t args isC s = Some (d, w, s')"
  obtains (undispatched) "tryDispatchHostCallback E t args s = Some (False, s')" "\<not> d"
    | (dispatched) s0 s1 where "tryDispatchHostCallback E t args s = Some (True, s0)"
        "dispatch E t s0 = Some s1" "register_callback t s1 = Some s'"
proof -
  obtain b s0 where h: "tryDispatchHostCallback E t args s = Some (b, s0)"
    using assms by (auto simp: tryDispatch_def select_dispatch_def bind_eq_Some_conv)
  have ds: "dep_sync s0 = ATL_SYNC_CALLBACK" if "\<not> b"
    using h
  proof (cases rule: tryDispatchHostCallback_cases)
    case (postponed g waiting s1)
    then show ?thesis
      using assms(1) static_fields(1) [OF static_core [OF postponed(5)]]
        static_fields(1) [OF static_postpone, of t _ s1]
        static_fields(1) [OF static_dependencies, of t s] by simp
  qed (use assms that in auto)
  show thesis
  proof (cases b)
    case True
    then obtain s1 where "dispatch E t s0 = Some s1" "register_callback t s1 = Some s'"
      using assms h
      by (auto simp: tryDispatch_def select_dispatch_def bind_eq_Some_conv split: if_splits)
    then show thesis using dispatched h True by simp
  next
    case False
    then have e: "s' = s0" "\<not> d"
      using assms h ds
      by (auto simp: tryDispatch_def select_dispatch_def bind_eq_Some_conv split: if_splits)
    show thesis by (rule undispatched) (use h False e in simp_all)
  qed
qed

lemma static_tryDispatchHostCallback:
  assumes "tryDispatchHostCallback E t args s = Some (d, s')"
  shows "static s' = static s"
  using assms
proof (cases rule: tryDispatchHostCallback_cases)
  case (postponed g waiting s1)
  then show ?thesis
    using static_core [OF postponed(5)] static_postpone static_dependencies [of t s] by simp
next
  case (granted g impl s1)
  then show ?thesis
    using static_core [OF granted(7)] static_grant static_dependencies [of t s] by simp
qed simp

lemma static_tryDispatch:
  assumes "dep_sync s = ATL_SYNC_CALLBACK" and "tryDispatch E t args isC s = Some (d, w, s')"
  shows "static s' = static s"
  using assms
proof (cases rule: tryDispatch_callback)
  case (dispatched s0 s1)
  then show ?thesis
    using static_tryDispatchHostCallback static_dispatch static_register by metis
qed (rule static_tryDispatchHostCallback)

text \<open>Registering the handler of a live task that has none.\<close>

lemma resource_inv_register:
  assumes "resource_inv A B s" and "t < n_tasks s" "live (tasks s t)"
    and "dep_sync s = ATL_SYNC_CALLBACK" and "t \<notin> set (handler_tasks (handlers s))"
    and "register_callback t s = Some s'"
  shows "resource_inv A B s'"
proof (cases "groupable (tasks s t)")
  case False
  then have s': "s' = s\<lparr>handlers := handlers s @ [HandleTask (tk_signal (tasks s t)) t]\<rparr>"
    using assms by (simp add: register_callback_def)
  have "handler_inv s'"
    using assms False unfolding s' resource_inv_def handler_inv_def by auto
  moreover have "signal_inv A s' = signal_inv A s" unfolding s' by (intro signal_inv_cong) simp_all
  moreover have "segment_inv B s' = segment_inv B s" unfolding s' by (intro segment_inv_cong) simp_all
  ultimately show ?thesis using assms(1) by (simp add: resource_inv_def)
next
  case True
  then obtain g where g: "tk_group (tasks s t) = Some g" and s': "s' = s \<or>
      s' = (upd_group g (\<lambda>k. k\<lparr>callback_started := True\<rparr>) s)
             \<lparr>handlers := handlers s @ [HandleGroup (tk_signal (tasks s t)) g]\<rparr>"
    using assms by (auto simp: register_callback_def bind_eq_Some_conv split: if_splits)
  let ?s2 = "(upd_group g (\<lambda>k. k\<lparr>callback_started := True\<rparr>) s)
             \<lparr>handlers := handlers s @ [HandleGroup (tk_signal (tasks s t)) g]\<rparr>"
  have "handler_inv ?s2"
    using assms unfolding resource_inv_def handler_inv_def by auto
  moreover have "signal_inv A ?s2 = signal_inv A s" by (intro signal_inv_cong) simp_all
  moreover have "segment_inv B ?s2 = segment_inv B s" by (intro segment_inv_cong) simp_all
  ultimately show ?thesis using assms(1) s' by (auto simp: resource_inv_def)
qed

text \<open>What a dispatch leaves behind: the invariants, a live task, the handlers untouched.\<close>

lemma dispatch_resource:
  assumes inv: "resource_inv A B s" and t: "t < n_tasks s" "tk_state (tasks s t) = ATMI_READY"
    and new: "\<And>g. t \<notin> set (running_groupable (groups s g))"
    and d: "dispatch E t s = Some s'"
  shows "resource_inv A B s' \<and> live (tasks s' t) \<and> handlers s' = handlers s"
proof -
  have h: "handlers (push_groupable g t s) = handlers s" "live (tasks (push_groupable g t s) t)"
    "\<And>st. handlers (upd_task t (\<lambda>k. k\<lparr>tk_state := st\<rparr>) (push_groupable g t s)) = handlers s" for g
    using t by (auto simp: push_groupable_def live_def)
  show ?thesis
    using d
  proof (cases rule: dispatch_core)
    case (1 g)
    then show ?thesis
      using inv t resource_inv_core [OF 1(2)] core_eq_live(1) [OF 1(2), of t]
        core_eq_fields(12) [OF 1(2)] by (simp add: live_def)
  next
    case (2 g)
    have "sched_core s' = sched_core (upd_task t (\<lambda>k. k\<lparr>tk_state := ATMI_DISPATCHED\<rparr>)
        (push_groupable g t s))"
      using 2(2) sched_core_set_state by simp
    note c = core_eq_live(1) [OF this, of t] core_eq_fields(12) [OF this]
    show ?thesis
      using resource_inv_dispatched(2) [OF inv t 2(1) new] resource_inv_core [OF 2(2)] c h(3)
      by (simp add: live_def)
  next
    case (3 g)
    let ?x = "(push_groupable g t s)\<lparr>copy_threads := copy_threads s @ [t]\<rparr>"
    have "resource_inv A B ?x = resource_inv A B (push_groupable g t s)"
      by (rule resource_inv_holdings) simp_all
    then show ?thesis
      using resource_inv_dispatched(1) [OF inv t 3(1) new] resource_inv_core [OF 3(3)]
        core_eq_live(1) [OF 3(3), of t] core_eq_fields(12) [OF 3(3)] h by simp
  qed
qed

lemma dependencies_state:
  "state_of (snd (host_dependencies t s)) x = state_of s x"
  "handlers (snd (host_dependencies t s)) = handlers s"
  "running_groupable (groups (snd (host_dependencies t s)) g) = running_groupable (groups s g)"
proof -
  have "(\<forall>x. state_of (snd (host_dependencies t s)) x = state_of s x) \<and>
      handlers (snd (host_dependencies t s)) = handlers s \<and>
      (\<forall>g. running_groupable (groups (snd (host_dependencies t s)) g) = running_groupable (groups s g))"
    by (rule host_dependencies_induct) (auto simp: link_task_def link_group_def)
  then show "state_of (snd (host_dependencies t s)) x = state_of s x"
    "handlers (snd (host_dependencies t s)) = handlers s"
    "running_groupable (groups (snd (host_dependencies t s)) g) = running_groupable (groups s g)"
    by blast+
qed

lemma tryDispatch_resource:
  assumes inv: "resource_inv A B s" and t: "t < n_tasks s"
    and cb: "dep_sync s = ATL_SYNC_CALLBACK"
    and td: "tryDispatch E t args isC s = Some (d, w, s')"
  shows "resource_inv A B s'"
  using cb td
proof (cases rule: tryDispatch_callback)
  case undispatched
  from undispatched(1) show ?thesis
  proof (cases rule: tryDispatchHostCallback_cases)
    case (postponed g waiting s1)
    have "resource_inv A B s1" using resource_inv_dependencies [OF inv, of t] postponed(3) by simp
    moreover have "\<not> active (tasks s1 t)"
      using postponed(3, 4) dependencies_state(1) [of t s t] by (auto simp: active_def)
    ultimately show ?thesis
      using resource_inv_postpone resource_inv_core [OF postponed(5)] by simp
  qed (use inv in simp_all)
next
  case (dispatched s0 s1)
  from dispatched(1) show ?thesis
  proof (cases rule: tryDispatchHostCallback_cases)
    case (granted g impl sd)
    have sd: "sd = snd (host_dependencies t s)" using granted(3) by simp
    have isd: "resource_inv A B sd" using resource_inv_dependencies [OF inv, of t] sd by simp
    have st: "\<not> active (tasks sd t)"
      using granted(4) dependencies_state(1) [of t s t] sd by (auto simp: active_def)
    have nt: "n_tasks sd = n_tasks s"
      using static_fields(2) [OF static_dependencies, of t s] sd by simp
    let ?g = "grant_abs t g impl sd"
    have ig: "resource_inv A B ?g" using resource_inv_grant [OF isd _ st granted(5, 6)] t nt by simp
    then have i0: "resource_inv A B s0" using resource_inv_core [OF granted(7)] by simp
    have r: "tk_state (tasks s0 t) = ATMI_READY"
      using core_eq_task_fields(3) [OF granted(7), of t] by (simp add: grant_abs_fields)
    have n0: "n_tasks s0 = n_tasks s"
      using static_tryDispatchHostCallback [OF dispatched(1)] static_fields(2) by metis
    have hi: "handler_inv sd" using isd by (simp add: resource_inv_def)
    have new: "t \<notin> set (running_groupable (groups s0 g'))" for g'
      using hi st live_active core_eq_task_fields(13) [OF granted(7), of g']
      by (auto simp: grant_abs_fields handler_inv_def)
    have nh: "t \<notin> set (handler_tasks (handlers s0))"
      using hi st live_active core_eq_fields(12) [OF granted(7)]
      by (auto simp: grant_abs_fields handler_inv_def handler_tasks_iff)
    have dr: "resource_inv A B s1 \<and> live (tasks s1 t) \<and> handlers s1 = handlers s0"
      by (rule dispatch_resource [OF i0 _ r new dispatched(2)]) (simp add: n0 t)
    have "n_tasks s1 = n_tasks s" "dep_sync s1 = ATL_SYNC_CALLBACK"
      using static_fields(1, 2) [OF static_dispatch [OF dispatched(2)]] n0 cb
        static_fields(1) [OF static_tryDispatchHostCallback [OF dispatched(1)]] by simp_all
    then show ?thesis
      using resource_inv_register [OF conjunct1 [OF dr] _ _ _ _ dispatched(3)] dr nh t by simp
  qed simp_all
qed

end
