(* ===== verification/Sched_Depend.thy ===== *)
theory Sched_Depend
  imports Sched_Steps
begin

text \<open>
  The dependency invariants of the callback mode: the count of unfinished predecessors covers the
  links, the links cover the declared predecessors, a task waits in the ready queue or leaves for
  a queue of a device only when its predecessors have executed; and a state only advances.
\<close>

section \<open>Links\<close>

definition pend_of :: "tid \<Rightarrow> TaskImpl \<Rightarrow> nat" where
  "pend_of u k = (if tk_state k < ATMI_EXECUTED then count_list (and_successors k) u else 0)"

text \<open>How many unfinished tasks will decrement the count of \<open>u\<close>.\<close>

definition pend :: "tid \<Rightarrow> rt_state \<Rightarrow> nat" where
  "pend u = task_sum (pend_of u)"

definition preds_done :: "rt_state \<Rightarrow> tid \<Rightarrow> bool" where
  "preds_done s t \<longleftrightarrow> (\<forall>p \<in> set (predecessors (tasks s t)). ATMI_EXECUTED \<le> state_of s p)"

definition linked :: "rt_state \<Rightarrow> tid \<Rightarrow> bool" where
  "linked s t \<longleftrightarrow> (\<forall>p \<in> set (predecessors (tasks s t)).
     ATMI_EXECUTED \<le> state_of s p \<or> t \<in> set (and_successors (tasks s p)))"

definition in_unordered :: "rt_state \<Rightarrow> tid \<Rightarrow> bool" where
  "in_unordered s t \<longleftrightarrow>
     (case tk_group (tasks s t) of None \<Rightarrow> False | Some g \<Rightarrow> \<not> tg_ordered (groups s g))"

section \<open>Advancing\<close>

definition advances :: "rt_state \<Rightarrow> rt_state \<Rightarrow> bool" where
  "advances s s' \<longleftrightarrow> static s' = static s \<and> (\<forall>x. state_of s x \<le> state_of s' x) \<and>
     (\<forall>x. set (and_successors (tasks s x)) \<subseteq> set (and_successors (tasks s' x)))"

lemma advances_refl: "advances s s"
  by (simp add: advances_def)

lemma advances_trans: "advances s s' \<Longrightarrow> advances s' s'' \<Longrightarrow> advances s s''"
  unfolding advances_def by (metis order_trans subset_trans)

lemma advances_core_right:
  assumes "sched_core s'' = sched_core s'" and "advances s s'"
  shows "advances s s''"
  using assms(2) unfolding advances_def static_core [OF assms(1)] core_eq_task_fields [OF assms(1)]
  by simp

lemma advances_task_fields:
  assumes "advances s s'"
  shows "predecessors (tasks s' x) = predecessors (tasks s x)" "n_tasks s' = n_tasks s"
    "in_unordered s' x = in_unordered s x" "tg_ordered (groups s' g) = tg_ordered (groups s g)"
    "tk_group (tasks s' x) = tk_group (tasks s x)" "dep_sync s' = dep_sync s"
  using assms static_fields [of s' s] unfolding advances_def in_unordered_def
  by (simp_all split: option.split)

lemma preds_done_advances: "advances s s' \<Longrightarrow> preds_done s t \<Longrightarrow> preds_done s' t"
  unfolding preds_done_def
  by (metis advances_def advances_task_fields(1) order_trans)

lemma linked_advances: "advances s s' \<Longrightarrow> linked s t \<Longrightarrow> linked s' t"
  unfolding linked_def
  by (metis advances_def advances_task_fields(1) order_trans subsetD)

lemma preds_done_linked: "preds_done s t \<Longrightarrow> linked s t"
  by (auto simp: preds_done_def linked_def)

section \<open>The invariant\<close>

text \<open>\<open>X\<close> is the set of tasks that are being linked and are not yet marked initialized.\<close>

definition dep_inv :: "tid set \<Rightarrow> rt_state \<Rightarrow> bool" where
  "dep_inv X s \<longleftrightarrow>
     (\<forall>u < n_tasks s. int (pend u s) \<le> num_predecessors (tasks s u)) \<and>
     (\<forall>p < n_tasks s. \<forall>u \<in> set (and_successors (tasks s p)).
        u < n_tasks s \<and> (u \<in> X \<or> ATMI_INITIALIZED \<le> state_of s u)) \<and>
     (\<forall>u < n_tasks s. \<forall>p \<in> set (predecessors (tasks s u)). p < n_tasks s) \<and>
     (\<forall>u < n_tasks s. ATMI_INITIALIZED \<le> state_of s u \<longrightarrow> linked s u) \<and>
     (\<forall>u \<in> set (ReadyTaskQueue s). u < n_tasks s \<and> ATMI_INITIALIZED \<le> state_of s u \<and> preds_done s u) \<and>
     (\<forall>u < n_tasks s. ATMI_READY \<le> state_of s u \<longrightarrow> in_unordered s u \<longrightarrow> preds_done s u) \<and>
     (\<forall>g. \<forall>u \<in> set (running_ordered (groups s g)).
        u < n_tasks s \<and> tk_group (tasks s u) = Some g \<and> tg_ordered (groups s g))"

lemma dep_invD:
  assumes "dep_inv X s"
  shows "u < n_tasks s \<Longrightarrow> int (pend u s) \<le> num_predecessors (tasks s u)"
    "p < n_tasks s \<Longrightarrow> u \<in> set (and_successors (tasks s p)) \<Longrightarrow>
       u < n_tasks s \<and> (u \<in> X \<or> ATMI_INITIALIZED \<le> state_of s u)"
    "u < n_tasks s \<Longrightarrow> p \<in> set (predecessors (tasks s u)) \<Longrightarrow> p < n_tasks s"
    "u < n_tasks s \<Longrightarrow> ATMI_INITIALIZED \<le> state_of s u \<Longrightarrow> linked s u"
    "u \<in> set (ReadyTaskQueue s) \<Longrightarrow>
       u < n_tasks s \<and> ATMI_INITIALIZED \<le> state_of s u \<and> preds_done s u"
    "u < n_tasks s \<Longrightarrow> ATMI_READY \<le> state_of s u \<Longrightarrow> in_unordered s u \<Longrightarrow> preds_done s u"
    "u \<in> set (running_ordered (groups s g)) \<Longrightarrow>
       u < n_tasks s \<and> tk_group (tasks s u) = Some g \<and> tg_ordered (groups s g)"
  using assms unfolding dep_inv_def by blast+

lemma pend_core: "sched_core s' = sched_core s \<Longrightarrow> pend u s' = pend u s"
  unfolding pend_def by (rule task_sum_core) (simp_all add: pend_of_def sched_frame)

lemma dep_inv_core:
  assumes "sched_core s' = sched_core s"
  shows "dep_inv X s' = dep_inv X s"
  unfolding dep_inv_def pend_core [OF assms] core_eq_fields(2, 9) [OF assms]
    core_eq_task_fields [OF assms] linked_def preds_done_def in_unordered_def ..

text \<open>
  The common case of a step: the state advances, the links and the ordered lists stay or shrink,
  and the tasks that leave the state before \<open>READY\<close> are ready to.
\<close>

lemma dep_inv_advance:
  assumes inv: "dep_inv X s" and adv: "advances s s'"
    and pend: "\<And>u. u < n_tasks s \<Longrightarrow> int (pend u s') \<le> num_predecessors (tasks s' u)"
    and succ: "\<And>p u. p < n_tasks s \<Longrightarrow> u \<in> set (and_successors (tasks s' p)) \<Longrightarrow>
      u < n_tasks s \<and> (u \<in> X' \<or> ATMI_INITIALIZED \<le> state_of s' u)"
    and init: "\<And>u. u < n_tasks s \<Longrightarrow> ATMI_INITIALIZED \<le> state_of s' u \<Longrightarrow>
      state_of s u < ATMI_INITIALIZED \<Longrightarrow> linked s' u"
    and queue: "\<And>u. u \<in> set (ReadyTaskQueue s') \<Longrightarrow> u \<in> set (ReadyTaskQueue s) \<or>
      u < n_tasks s \<and> ATMI_INITIALIZED \<le> state_of s' u \<and> preds_done s' u"
    and ready: "\<And>u. u < n_tasks s \<Longrightarrow> ATMI_READY \<le> state_of s' u \<Longrightarrow>
      state_of s u < ATMI_READY \<Longrightarrow> in_unordered s u \<Longrightarrow> preds_done s' u"
    and ordered: "\<And>g. set (running_ordered (groups s' g)) \<subseteq> set (running_ordered (groups s g))"
  shows "dep_inv X' s'"
proof -
  note f = advances_task_fields [OF adv] and d = dep_invD [OF inv]
  have mono: "state_of s x \<le> state_of s' x" for x using adv by (simp add: advances_def)
  have "linked s' u" if "u < n_tasks s" "ATMI_INITIALIZED \<le> state_of s' u" for u
    using init [OF that] d(4) [OF that(1)] linked_advances [OF adv] by (meson not_less)
  moreover have "u < n_tasks s \<and> ATMI_INITIALIZED \<le> state_of s' u \<and> preds_done s' u"
    if "u \<in> set (ReadyTaskQueue s')" for u
    using queue [OF that] d(5) preds_done_advances [OF adv] mono order_trans by blast
  moreover have "preds_done s' u"
    if "u < n_tasks s" "ATMI_READY \<le> state_of s' u" "in_unordered s u" for u
    using ready [OF that(1, 2) _ that(3)] d(6) [OF that(1) _ that(3)] preds_done_advances [OF adv]
    by (meson not_less)
  moreover have "u < n_tasks s \<and> tk_group (tasks s u) = Some g \<and> tg_ordered (groups s g)"
    if "u \<in> set (running_ordered (groups s' g))" for g u
    using d(7) ordered that by blast
  ultimately show ?thesis
    unfolding dep_inv_def f using pend succ d(3) by blast
qed

lemma dep_inv_exceptions:
  assumes inv: "dep_inv X s" and sub: "\<And>u. u \<in> X \<Longrightarrow> u \<in> Y \<or> ATMI_INITIALIZED \<le> state_of s u"
  shows "dep_inv Y s"
proof (rule dep_inv_advance [OF inv advances_refl])
  show "u < n_tasks s \<and> (u \<in> Y \<or> ATMI_INITIALIZED \<le> state_of s u)"
    if "p < n_tasks s" "u \<in> set (and_successors (tasks s p))" for p u
    using dep_invD(2) [OF inv that] sub by metis
qed (use dep_invD(1) [OF inv] in auto)

lemma dep_inv_mono: "dep_inv {} s \<Longrightarrow> dep_inv Y s"
  by (erule dep_inv_exceptions) simp

text \<open>A task that is marked initialized leaves the exceptions.\<close>

lemma dep_inv_drop: "dep_inv {t} s \<Longrightarrow> ATMI_INITIALIZED \<le> state_of s t \<Longrightarrow> dep_inv {} s"
  by (erule dep_inv_exceptions) simp

section \<open>Counting links\<close>

lemma pend_cong:
  assumes "n_tasks s' = n_tasks s"
    and "\<And>x. tk_state (tasks s' x) = tk_state (tasks s x)"
    and "\<And>x. and_successors (tasks s' x) = and_successors (tasks s x)"
  shows "pend u s' = pend u s"
  unfolding pend_def using assms by (intro task_sum_cong) (simp_all add: pend_of_def)

lemma pend_less:
  assumes "n_tasks s' = n_tasks s"
    and "\<And>x. tk_state (tasks s x) \<le> tk_state (tasks s' x)"
    and "\<And>x. and_successors (tasks s' x) = and_successors (tasks s x)"
  shows "pend u s' \<le> pend u s"
  unfolding pend_def task_sum_def assms(1)
  using assms(2) by (intro sum_mono) (auto simp: pend_of_def assms(3) intro: le_less_trans)

lemma pend_link:
  "pend u (link_task t p s) =
     pend u s + (if u = t \<and> p < n_tasks s \<and> state_of s p < ATMI_EXECUTED then 1 else 0)"
proof -
  let ?s1 = "upd_task p (\<lambda>k. k\<lparr>and_successors := and_successors k @ [t]\<rparr>) s"
  have "pend u (link_task t p s) = pend u ?s1"
    by (rule pend_cong) (simp_all add: link_task_def)
  moreover have "pend u ?s1 =
      pend u s + (if u = t \<and> p < n_tasks s \<and> state_of s p < ATMI_EXECUTED then 1 else 0)"
  proof (cases "p < n_tasks s")
    case True
    have "tasks ?s1 = (tasks s)(p := (tasks s p)
        \<lparr>and_successors := and_successors (tasks s p) @ [t]\<rparr>)" by simp
    from task_sum_upd [OF True this, of "pend_of u"] True show ?thesis
      unfolding pend_def by (simp add: pend_of_def split: if_splits)
  next
    case False
    then show ?thesis unfolding pend_def task_sum_def by (auto intro: sum.cong)
  qed
  ultimately show ?thesis by simp
qed

lemma advances_links: "advances s (link_task t p s)" "advances s (link_group t g s)"
  unfolding advances_def static_links by (auto simp: link_task_def link_group_def)

lemma link_task_dep:
  assumes inv: "dep_inv {t} s" and t: "t < n_tasks s"
  shows "dep_inv {t} (link_task t p s)"
proof (rule dep_inv_advance [OF inv advances_links(1)])
  note f = link_task_def
  show "int (pend u (link_task t p s)) \<le> num_predecessors (tasks (link_task t p s) u)"
    if "u < n_tasks s" for u
    using dep_invD(1) [OF inv that] by (simp add: pend_link) (auto simp: f)
  show "u < n_tasks s \<and> (u \<in> {t} \<or> ATMI_INITIALIZED \<le> state_of (link_task t p s) u)"
    if "q < n_tasks s" "u \<in> set (and_successors (tasks (link_task t p s) q))" for q u
    using dep_invD(2) [OF inv that(1), of u] that(2) t by (auto simp: f split: if_splits)
qed (auto simp: link_task_def split: if_splits)

lemma link_group_dep:
  assumes inv: "dep_inv {t} s" and t: "t < n_tasks s"
  shows "dep_inv {t} (link_group t g s)"
proof -
  have "pend u (link_group t g s) = pend u s" for u by (rule pend_cong) (simp_all add: link_group_def)
  note p = this
  show ?thesis
  proof (rule dep_inv_advance [OF inv advances_links(2)])
    show "int (pend u (link_group t g s)) \<le> num_predecessors (tasks (link_group t g s) u)"
      if "u < n_tasks s" for u
      using dep_invD(1) [OF inv that] by (simp add: p) (auto simp: link_group_def)
    show "u < n_tasks s \<and> (u \<in> {t} \<or> ATMI_INITIALIZED \<le> state_of (link_group t g s) u)"
      if "q < n_tasks s" "u \<in> set (and_successors (tasks (link_group t g s) q))" for q u
      using dep_invD(2) [OF inv that(1), of u] that(2) by (auto simp: link_group_def split: if_splits)
  qed (auto simp: link_group_def split: if_splits)
qed

section \<open>Resolving the dependencies of a task\<close>

lemma link_preds_dep:
  assumes "dep_inv {t} s" and "t < n_tasks s" and "link_preds t ps s = (w, s')"
  shows "dep_inv {t} s' \<and> advances s s' \<and> (\<forall>x. state_of s' x = state_of s x) \<and>
    (\<forall>p \<in> set ps. ATMI_EXECUTED \<le> state_of s p \<or> t \<in> set (and_successors (tasks s' p))) \<and>
    (\<not> w \<longrightarrow> s' = s \<and> (\<forall>p \<in> set ps. ATMI_EXECUTED \<le> state_of s p))"
  using assms
proof (induction ps arbitrary: s w)
  case Nil
  then show ?case by (simp add: advances_refl)
next
  case (Cons p ps)
  show ?case
  proof (cases "state_of s p < ATMI_EXECUTED")
    case True
    let ?s1 = "link_task t p s"
    obtain w1 where w: "w" "link_preds t ps ?s1 = (w1, s')"
      using Cons.prems(3) True by (cases "link_preds t ps ?s1") auto
    have st: "state_of ?s1 x = state_of s x" "t \<in> set (and_successors (tasks ?s1 p))"
      "n_tasks ?s1 = n_tasks s" for x
      by (auto simp: link_task_def)
    have ih: "dep_inv {t} s' \<and> advances ?s1 s' \<and> (\<forall>x. state_of s' x = state_of ?s1 x) \<and>
      (\<forall>p \<in> set ps. ATMI_EXECUTED \<le> state_of ?s1 p \<or> t \<in> set (and_successors (tasks s' p)))"
      using Cons.IH [OF link_task_dep [OF Cons.prems(1, 2)] _ w(2)] Cons.prems(2) st(3) by simp
    have "t \<in> set (and_successors (tasks s' p))"
      using ih st(2) unfolding advances_def by blast
    then show ?thesis
      using ih w(1) st(1) advances_trans [OF advances_links(1), of t p s s'] by simp
  next
    case False
    then show ?thesis using Cons by auto
  qed
qed

lemma link_groups_dep:
  assumes "dep_inv {t} s" and "t < n_tasks s" and "link_groups t gs s = (w, s')"
  shows "dep_inv {t} s' \<and> advances s s' \<and> (\<forall>x. state_of s' x = state_of s x) \<and> (\<not> w \<longrightarrow> s' = s)"
  using assms
proof (induction gs arbitrary: s w)
  case Nil
  then show ?case by (simp add: advances_refl)
next
  case (Cons a gs)
  show ?case
  proof (cases "\<exists>g. a = Some g \<and> task_count (groups s g) > 0")
    case True
    then obtain g where a: "a = Some g" "task_count (groups s g) > 0" by blast
    let ?s1 = "link_group t g s"
    obtain w1 where w: "w" "link_groups t gs ?s1 = (w1, s')"
      using Cons.prems(3) a by (cases "link_groups t gs ?s1") auto
    have st: "state_of ?s1 x = state_of s x" "n_tasks ?s1 = n_tasks s" for x
      by (auto simp: link_group_def)
    have "dep_inv {t} s' \<and> advances ?s1 s' \<and> (\<forall>x. state_of s' x = state_of ?s1 x)"
      using Cons.IH [OF link_group_dep [OF Cons.prems(1, 2)] _ w(2)] Cons.prems(2) st(2) by simp
    then show ?thesis
      using w(1) st(1) advances_trans [OF advances_links(2), of t g s s'] by simp
  next
    case False
    then have "link_groups t gs s = (w, s')" using Cons.prems(3) by (cases a) auto
    then show ?thesis using Cons by simp
  qed
qed

lemma host_links_dep:
  assumes inv: "dep_inv {} s" and t: "t < n_tasks s" and h: "host_links t s = (w, s')"
  shows "dep_inv {t} s' \<and> advances s s' \<and> (\<forall>x. state_of s' x = state_of s x) \<and> linked s' t \<and>
    (\<not> w \<longrightarrow> s' = s) \<and> (\<not> w \<longrightarrow> state_of s t < ATMI_INITIALIZED \<longrightarrow> preds_done s t)"
proof (cases "state_of s t < ATMI_INITIALIZED")
  case True
  obtain w1 s1 w2 where l: "link_preds t (predecessors (tasks s t)) s = (w1, s1)"
    "link_groups t (pred_groups (tasks s t)) s1 = (w2, s')" "w = (w1 \<or> w2)"
    using h True by (auto simp: host_links_def split: prod.splits)
  note a = link_preds_dep [OF dep_inv_mono [OF inv] t l(1)]
  have t1: "t < n_tasks s1" using a t advances_task_fields(2) by auto
  have b: "dep_inv {t} s' \<and> advances s1 s' \<and> (\<forall>x. state_of s' x = state_of s1 x) \<and> (\<not> w2 \<longrightarrow> s' = s1)"
    using link_groups_dep [OF _ t1 l(2)] a by blast
  have "predecessors (tasks s1 t) = predecessors (tasks s t)"
    using a advances_task_fields(1) by blast
  then have "linked s1 t" using a by (simp add: linked_def)
  then have "linked s' t" using b linked_advances by blast
  then show ?thesis
    using a b l(3) advances_trans [of s s1 s'] by (auto simp: preds_done_def)
next
  case False
  then have "w = False" "s' = s" using h by (auto simp: host_links_def)
  then show ?thesis
    using False inv t dep_invD(4) [OF inv t] dep_inv_mono by (auto simp: advances_refl not_less)
qed

lemma host_dependencies_dep:
  assumes inv: "dep_inv {} s" and t: "t < n_tasks s" and h: "host_dependencies t s = (w, s')"
  shows "dep_inv {t} s'" and "advances s s'" and "state_of s' x = state_of s x"
    and "linked s' t" and "\<not> w \<Longrightarrow> state_of s t < ATMI_INITIALIZED \<Longrightarrow> preds_done s' t"
proof -
  obtain w1 s1 where l: "host_links t s = (w1, s1)" by fastforce
  note a = host_links_dep [OF inv t l]
  have "s' = s1 \<or> (\<not> w1 \<and> (\<exists>p. s' = link_task t p s1))"
    using h l by (auto simp: host_dependencies_def ordered_check_def split: if_splits option.splits)
  then consider "s' = s1" | p where "\<not> w1" "s' = link_task t p s1" by blast
  then have "dep_inv {t} s' \<and> advances s s' \<and> (\<forall>x. state_of s' x = state_of s x) \<and> linked s' t \<and>
    (\<not> w \<longrightarrow> state_of s t < ATMI_INITIALIZED \<longrightarrow> preds_done s' t)"
  proof cases
    case 1
    have "w1 \<longrightarrow> w" using h l by (auto simp: host_dependencies_def)
    then show ?thesis using a 1 by auto
  next
    case 2
    have "t < n_tasks s1" using a t advances_task_fields(2) by metis
    then have "dep_inv {t} s'" using link_task_dep [OF conjunct1 [OF a]] 2 by simp
    moreover have "advances s1 s'" using 2 advances_links by simp
    moreover have "state_of s' x = state_of s1 x" for x using 2 by (simp add: link_task_def)
    ultimately show ?thesis
      using a 2 advances_trans linked_advances preds_done_advances [of s s' t] by simp metis
  qed
  then show "dep_inv {t} s'" "advances s s'" "state_of s' x = state_of s x" "linked s' t"
    "\<not> w \<Longrightarrow> state_of s t < ATMI_INITIALIZED \<Longrightarrow> preds_done s' t" by blast+
qed

section \<open>Postponing, granting and running\<close>

lemma pend_state:
  assumes "tasks s' = (tasks s)(t := k)" and "n_tasks s' = n_tasks s"
    and "and_successors k = and_successors (tasks s t)"
    and "tk_state k < ATMI_EXECUTED" "state_of s t < ATMI_EXECUTED"
  shows "pend u s' = pend u s"
  unfolding pend_def using assms by (intro task_sum_cong) (auto simp: pend_of_def)

lemma postpone_dep:
  assumes inv: "dep_inv {t} s" and t: "t < n_tasks s" "linked s t" "state_of s t < ATMI_READY"
    and push: "push \<Longrightarrow> preds_done s t"
  shows "dep_inv {} (postpone_abs t push s)" and "advances s (postpone_abs t push s)"
proof -
  let ?s = "postpone_abs t push s"
  have f: "tasks ?s = (tasks s)(t := (tasks s t)\<lparr>tk_state := ATMI_INITIALIZED\<rparr>)"
    "n_tasks ?s = n_tasks s" "groups ?s = groups s"
    "set (ReadyTaskQueue ?s) \<subseteq> set (ReadyTaskQueue s) \<union> (if push then {t} else {})"
    by (auto simp: postpone_abs_def Let_def)
  show adv: "advances s ?s"
    using t(3) less_ready_iff [of "state_of s t"] static_postpone [of t push s]
    by (auto simp: advances_def f state_order)
  have pe: "pend u ?s = pend u s" for u
    using t(3) less_ready_iff [of "state_of s t"]
    by (intro pend_state [OF f(1, 2)]) (auto simp: state_order)
  show "dep_inv {} ?s"
  proof (rule dep_inv_advance [OF inv adv])
    show "int (pend u ?s) \<le> num_predecessors (tasks ?s u)" if "u < n_tasks s" for u
      using dep_invD(1) [OF inv that] by (simp add: pe) (auto simp: f)
    show "u < n_tasks s \<and> (u \<in> {} \<or> ATMI_INITIALIZED \<le> state_of ?s u)"
      if "p < n_tasks s" "u \<in> set (and_successors (tasks ?s p))" for p u
      using dep_invD(2) [OF inv that(1), of u] that(2) by (auto simp: f split: if_splits)
    show "linked ?s u" if "ATMI_INITIALIZED \<le> state_of ?s u" "state_of s u < ATMI_INITIALIZED" for u
      using that t(2) linked_advances [OF adv] by (auto simp: f split: if_splits)
    show "u \<in> set (ReadyTaskQueue s) \<or>
        u < n_tasks s \<and> ATMI_INITIALIZED \<le> state_of ?s u \<and> preds_done ?s u"
      if "u \<in> set (ReadyTaskQueue ?s)" for u
      using subsetD [OF f(4) that] push preds_done_advances [OF adv, of t] t(1)
      by (auto simp: f(1) split: if_splits)
  qed (auto simp: f state_order split: if_splits)
qed

lemma grant_dep:
  assumes inv: "dep_inv {t} s" and t: "t < n_tasks s" "linked s t" "state_of s t < ATMI_READY"
    and preds: "in_unordered s t \<Longrightarrow> preds_done s t"
  shows "dep_inv {} (grant_abs t g impl s)" and "advances s (grant_abs t g impl s)"
proof -
  let ?s = "grant_abs t g impl s"
  note f = grant_abs_fields
  show adv: "advances s ?s"
    using t(3) static_grant [of t g impl s] by (auto simp: advances_def f)
  have pe: "pend u ?s = pend u s" for u
    using t(3) less_ready_iff [of "state_of s t"]
    by (intro pend_state [OF f(1, 2)]) (auto simp: state_order)
  show "dep_inv {} ?s"
  proof (rule dep_inv_advance [OF inv adv])
    show "int (pend u ?s) \<le> num_predecessors (tasks ?s u)" if "u < n_tasks s" for u
      using dep_invD(1) [OF inv that] by (simp add: pe) (auto simp: f)
    show "u < n_tasks s \<and> (u \<in> {} \<or> ATMI_INITIALIZED \<le> state_of ?s u)"
      if "p < n_tasks s" "u \<in> set (and_successors (tasks ?s p))" for p u
      using dep_invD(2) [OF inv that(1), of u] that(2)
      by (auto simp: f state_order split: if_splits)
    show "linked ?s u" if "ATMI_INITIALIZED \<le> state_of ?s u" "state_of s u < ATMI_INITIALIZED" for u
      using that t(2) linked_advances [OF adv] by (auto simp: f split: if_splits)
    show "preds_done ?s u"
      if "ATMI_READY \<le> state_of ?s u" "state_of s u < ATMI_READY" "in_unordered s u" for u
      using that preds preds_done_advances [OF adv] by (auto simp: f split: if_splits)
    show "set (running_ordered (groups ?s g')) \<subseteq> set (running_ordered (groups s g'))" for g'
      using set_tl_subset [of "running_ordered (groups s g)"] by (auto simp: f)
  qed (auto simp: f split: if_splits)
qed

text \<open>A step that only moves tasks which already run.\<close>

lemma dep_inv_running:
  assumes inv: "dep_inv X s" and st: "static s' = static s"
    and f: "\<And>x. and_successors (tasks s' x) = and_successors (tasks s x)"
      "\<And>x. num_predecessors (tasks s' x) = num_predecessors (tasks s x)"
    and queue: "set (ReadyTaskQueue s') \<subseteq> set (ReadyTaskQueue s)"
    and ordered: "\<And>g. set (running_ordered (groups s' g)) \<subseteq> set (running_ordered (groups s g))"
    and moved: "\<And>x. state_of s' x = state_of s x \<or>
      ATMI_READY \<le> state_of s x \<and> state_of s x \<le> state_of s' x"
  shows "dep_inv X s'" and "advances s s'"
proof -
  have mono: "state_of s x \<le> state_of s' x" for x using moved [of x] by auto
  show adv: "advances s s'" unfolding advances_def using st mono f(1) by simp
  have n: "n_tasks s' = n_tasks s" by (rule static_fields(2) [OF st])
  have low: "ATMI_INITIALIZED \<le> state_of s x"
    if "ATMI_INITIALIZED \<le> state_of s' x" for x
    using moved [of x] that by (cases "state_of s x") (auto simp: state_order)
  show "dep_inv X s'"
  proof (rule dep_inv_advance [OF inv adv])
    show "int (pend u s') \<le> num_predecessors (tasks s' u)" if "u < n_tasks s" for u
      using dep_invD(1) [OF inv that] pend_less [OF n mono f(1), of u] f(2) by simp
    show "u < n_tasks s \<and> (u \<in> X \<or> ATMI_INITIALIZED \<le> state_of s' u)"
      if "p < n_tasks s" "u \<in> set (and_successors (tasks s' p))" for p u
      using dep_invD(2) [OF inv that(1), of u] that(2) mono [of u] f(1) by auto
    show "linked s' u" if "ATMI_INITIALIZED \<le> state_of s' u" "state_of s u < ATMI_INITIALIZED" for u
      using low that by (auto simp: not_less [symmetric])
    show "preds_done s' u" if "ATMI_READY \<le> state_of s' u" "state_of s u < ATMI_READY" for u
      using moved [of u] that by auto
  qed (use queue ordered in auto)
qed

section \<open>tryDispatch\<close>

lemma push_dep:
  assumes "dep_inv X s"
  shows "dep_inv X (push_groupable g t s)" and "advances s (push_groupable g t s)"
  by (rule dep_inv_running [OF assms static_push]; auto simp: push_groupable_def)+

lemma dispatched_dep:
  assumes "dep_inv X s" and "ATMI_READY \<le> state_of s t" "state_of s t \<le> st"
  shows "dep_inv X (set_state t st s)" and "advances s (set_state t st s)"
proof -
  let ?s = "upd_task t (\<lambda>k. k\<lparr>tk_state := st\<rparr>) s"
  have c: "sched_core (set_state t st s) = sched_core ?s" by (rule sched_core_set_state)
  have st: "static ?s = static s"
    using static_core [OF c] static_set_state by metis
  have "dep_inv X ?s" "advances s ?s"
    by (rule dep_inv_running [OF assms(1) st]; use assms in auto)+
  then show "dep_inv X (set_state t st s)" "advances s (set_state t st s)"
    using dep_inv_core [OF c] advances_core_right [OF c] by simp_all
qed

lemma copy_threads_dep:
  assumes "dep_inv X s"
  shows "dep_inv X (s\<lparr>copy_threads := c\<rparr>)" and "advances s (s\<lparr>copy_threads := c\<rparr>)"
  by (rule dep_inv_running [OF assms]; simp)+

lemma handlers_dep:
  assumes "dep_inv X s"
  shows "dep_inv X (s\<lparr>handlers := h\<rparr>)" and "advances s (s\<lparr>handlers := h\<rparr>)"
  by (rule dep_inv_running [OF assms]; simp)+

lemma dispatch_dep:
  assumes inv: "dep_inv X s" and st: "state_of s t = ATMI_READY" and d: "dispatch E t s = Some s'"
  shows "dep_inv X s'" and "advances s s'"
proof -
  have p: "dep_inv X (push_groupable g t s)" "advances s (push_groupable g t s)"
    "state_of (push_groupable g t s) t = ATMI_READY"
    "copy_threads (push_groupable g t s) = copy_threads s" for g
    using push_dep [OF inv] st by (auto simp: push_groupable_def)
  have "dep_inv X s' \<and> advances s s'"
    using d
  proof (cases rule: dispatch_core)
    case (1 g)
    then show ?thesis
      using inv dep_inv_core [OF 1(2)] advances_core_right [OF 1(2) advances_refl] by simp
  next
    case (2 g)
    let ?x = "set_state t ATMI_DISPATCHED (push_groupable g t s)"
    have "dep_inv X ?x" "advances (push_groupable g t s) ?x"
      by (rule dispatched_dep [OF p(1)]; simp add: p(3) state_order)+
    then show ?thesis
      using dep_inv_core [OF 2(2)] advances_core_right [OF 2(2)] advances_trans [OF p(2)] by simp
  next
    case (3 g)
    let ?x = "(push_groupable g t s)\<lparr>copy_threads := copy_threads s @ [t]\<rparr>"
    have "dep_inv X ?x" "advances (push_groupable g t s) ?x"
      by (rule copy_threads_dep [OF p(1)])+
    then show ?thesis
      using dep_inv_core [OF 3(3)] advances_core_right [OF 3(3)] advances_trans [OF p(2)] by simp
  qed
  then show "dep_inv X s'" "advances s s'" by blast+
qed

lemma register_dep:
  assumes inv: "dep_inv X s" and r: "register_callback t s = Some s'"
  shows "dep_inv X s'" and "advances s s'"
proof -
  have g: "dep_inv X (upd_group g (\<lambda>k. k\<lparr>callback_started := True\<rparr>) s)"
    "advances s (upd_group g (\<lambda>k. k\<lparr>callback_started := True\<rparr>) s)" for g
    by (rule dep_inv_running [OF inv static_group_upd]; auto)+
  have "s' = s \<or> (\<exists>h. s' = s\<lparr>handlers := h\<rparr>) \<or>
      (\<exists>g h. s' = (upd_group g (\<lambda>k. k\<lparr>callback_started := True\<rparr>) s)\<lparr>handlers := h\<rparr>)"
    using r by (auto simp: register_callback_def bind_eq_Some_conv split: if_splits)
  then have "dep_inv X s' \<and> advances s s'"
    using inv advances_refl handlers_dep [OF inv] handlers_dep [OF g(1)] advances_trans [OF g(2)]
    by blast
  then show "dep_inv X s'" "advances s s'" by blast+
qed

text \<open>
  What a task has to meet before anyone tries to dispatch it: it has not been linked yet, it
  belongs to an ordered group, or its predecessors have executed.
\<close>

definition dispatchable :: "rt_state \<Rightarrow> tid \<Rightarrow> bool" where
  "dispatchable s t \<longleftrightarrow> t < n_tasks s \<and>
     (ATMI_INITIALIZED \<le> state_of s t \<longrightarrow> in_unordered s t \<longrightarrow> preds_done s t)"

lemma tryDispatchHostCallback_dep:
  assumes inv: "dep_inv {} s" and t: "dispatchable s t"
    and h: "tryDispatchHostCallback E t args s = Some (d, s')"
  shows "dep_inv {} s' \<and> advances s s' \<and> (d \<longrightarrow> state_of s' t = ATMI_READY)"
  using h
proof (cases rule: tryDispatchHostCallback_cases)
  case busy
  then show ?thesis using inv by (simp add: advances_refl)
next
  case (postponed g waiting s1)
  have tn: "t < n_tasks s" using t by (simp add: dispatchable_def)
  note a = host_dependencies_dep [OF inv tn postponed(3)]
  have t1: "t < n_tasks s1" "state_of s1 t < ATMI_READY"
    using tn advances_task_fields(2) [OF a(2)] a(3) postponed(4) by simp_all
  have "preds_done s1 t" if "\<not> waiting \<and> \<not> tg_ordered (groups s1 g)"
  proof (cases "state_of s t < ATMI_INITIALIZED")
    case True
    then show ?thesis using a(5) that by simp
  next
    case False
    have "in_unordered s t"
      using that postponed(2) advances_task_fields(4) [OF a(2), of g] by (simp add: in_unordered_def)
    then show ?thesis
      using False t preds_done_advances [OF a(2)] by (simp add: dispatchable_def)
  qed
  note p = postpone_dep [OF a(1) t1(1) a(4) t1(2) this]
  show ?thesis
    using p(1) advances_trans [OF a(2) p(2)] dep_inv_core [OF postponed(5)]
      advances_core_right [OF postponed(5)] postponed(1) by simp
next
  case (granted g impl s1)
  have tn: "t < n_tasks s" using t by (simp add: dispatchable_def)
  note a = host_dependencies_dep [OF inv tn granted(3)]
  have t1: "t < n_tasks s1" "state_of s1 t < ATMI_READY"
    using tn advances_task_fields(2) [OF a(2)] a(3) granted(4) by simp_all
  have "preds_done s1 t" if "in_unordered s1 t"
    using a(5) that t preds_done_advances [OF a(2)] advances_task_fields(3) [OF a(2)]
    by (cases "state_of s t < ATMI_INITIALIZED") (auto simp: dispatchable_def not_less)
  note p = grant_dep [OF a(1) t1(1) a(4) t1(2) this, of g impl]
  have "state_of s' t = ATMI_READY"
    using core_eq_task_fields(3) [OF granted(7), of t] by (simp add: grant_abs_fields)
  then show ?thesis
    using p(1) advances_trans [OF a(2) p(2)] dep_inv_core [OF granted(7)]
      advances_core_right [OF granted(7)] by simp
qed

lemma tryDispatch_dep:
  assumes inv: "dep_inv {} s" and t: "dispatchable s t"
    and cb: "dep_sync s = ATL_SYNC_CALLBACK"
    and td: "tryDispatch E t args isC s = Some (d, w, s')"
  shows "dep_inv {} s' \<and> advances s s'"
  using cb td
proof (cases rule: tryDispatch_callback)
  case undispatched
  then show ?thesis using tryDispatchHostCallback_dep [OF inv t] by blast
next
  case (dispatched s0 s1)
  note a = tryDispatchHostCallback_dep [OF inv t dispatched(1)]
  have "state_of s0 t = ATMI_READY" using a by simp
  note b = dispatch_dep [OF conjunct1 [OF a] this dispatched(2)]
  note c = register_dep [OF b(1) dispatched(3)]
  show ?thesis using c a b(2) advances_trans by blast
qed

end
