(* ===== verification/Sched_Progress.thy ===== *)
theory Sched_Progress
  imports Sched_Depend
begin

text \<open>
  The combined invariant of the callback mode, and that the progress loops, the completion
  handlers and the copy threads keep it.
\<close>

section \<open>The invariant of the callback mode\<close>

text \<open>A task whose copy a detached thread has yet to issue is ready and not dispatched.\<close>

definition copy_inv :: "rt_state \<Rightarrow> bool" where
  "copy_inv s \<longleftrightarrow> distinct (copy_threads s) \<and>
     (\<forall>t \<in> set (copy_threads s). t < n_tasks s \<and> state_of s t = ATMI_READY)"

definition cb_inv :: "signal multiset \<Rightarrow> (impl_ptr \<Rightarrow> nat multiset) \<Rightarrow> rt_state \<Rightarrow> bool" where
  "cb_inv A B s \<longleftrightarrow> dep_sync s = ATL_SYNC_CALLBACK \<and> resource_inv A B s \<and> dep_inv {} s \<and> copy_inv s"

lemma copy_inv_core:
  assumes "sched_core s' = sched_core s"
  shows "copy_inv s' = copy_inv s"
  unfolding copy_inv_def core_eq_fields(2, 11) [OF assms] core_eq_task_fields(3) [OF assms] ..

lemma copy_inv_same:
  assumes "copy_inv s" and "n_tasks s' = n_tasks s" "copy_threads s' = copy_threads s"
    and "\<And>x. x \<in> set (copy_threads s) \<Longrightarrow> state_of s' x = state_of s x"
  shows "copy_inv s'"
  using assms by (auto simp: copy_inv_def)

lemma dependencies_copy_threads: "copy_threads (snd (host_dependencies t s)) = copy_threads s"
  by (rule host_dependencies_induct [where P = "\<lambda>s'. copy_threads s' = copy_threads s"])
     (simp_all add: link_task_def link_group_def)

lemma tryDispatchHostCallback_copy:
  assumes c: "copy_inv s" and h: "tryDispatchHostCallback E t args s = Some (d, s')"
  shows "copy_inv s' \<and> (d \<longrightarrow> t \<notin> set (copy_threads s'))"
proof -
  have notin: "t \<notin> set (copy_threads s)" if "state_of s t < ATMI_READY"
    using c that by (auto simp: copy_inv_def)
  show ?thesis
    using h
  proof (cases rule: tryDispatchHostCallback_cases)
    case busy
    then show ?thesis using c by simp
  next
    case (postponed g waiting s1)
    let ?s = "postpone_abs t (\<not> waiting \<and> \<not> tg_ordered (groups s1 g)) s1"
    have s1: "s1 = snd (host_dependencies t s)" using postponed(3) by simp
    have n: "n_tasks s1 = n_tasks s" unfolding s1 by (rule static_fields(2) [OF static_dependencies])
    have "copy_threads ?s = copy_threads s" "n_tasks ?s = n_tasks s"
      using dependencies_copy_threads [of t s] n by (simp_all add: postpone_abs_def Let_def s1)
    moreover have "state_of ?s x = state_of s x" if "x \<noteq> t" for x
      using dependencies_state(1) [of t s x] that by (simp add: postpone_abs_def Let_def s1)
    ultimately have "copy_inv ?s" using copy_inv_same [OF c] notin [OF postponed(4)] by metis
    then show ?thesis using copy_inv_core [OF postponed(5)] postponed(1) by simp
  next
    case (granted g impl s1)
    let ?s = "grant_abs t g impl s1"
    have s1: "s1 = snd (host_dependencies t s)" using granted(3) by simp
    have n: "n_tasks ?s = n_tasks s"
      unfolding s1 grant_abs_fields by (rule static_fields(2) [OF static_dependencies])
    have ct: "copy_threads ?s = copy_threads s"
      using dependencies_copy_threads [of t s] by (simp add: grant_abs_fields s1)
    moreover have "state_of ?s x = state_of s x" if "x \<noteq> t" for x
      using dependencies_state(1) [of t s x] that by (simp add: grant_abs_fields s1)
    ultimately have "copy_inv ?s" using copy_inv_same [OF c n] notin [OF granted(4)] by metis
    then show ?thesis
      using copy_inv_core [OF granted(7)] core_eq_fields(11) [OF granted(7)] ct notin [OF granted(4)]
      by simp
  qed
qed

lemma dispatch_copy:
  assumes c: "copy_inv s" and t: "t < n_tasks s" "state_of s t = ATMI_READY" "t \<notin> set (copy_threads s)"
    and d: "dispatch E t s = Some s'"
  shows "copy_inv s'"
proof -
  have p: "copy_inv (push_groupable g t s)" "copy_threads (push_groupable g t s) = copy_threads s"
    "n_tasks (push_groupable g t s) = n_tasks s" "tasks (push_groupable g t s) = tasks s" for g
    using c by (auto simp: copy_inv_def push_groupable_def)
  show ?thesis
    using d
  proof (cases rule: dispatch_core)
    case (1 g)
    then show ?thesis using c copy_inv_core by metis
  next
    case (2 g)
    let ?x = "upd_task t (\<lambda>k. k\<lparr>tk_state := ATMI_DISPATCHED\<rparr>) (push_groupable g t s)"
    have "copy_inv ?x" using p t(3) by (auto simp: copy_inv_def)
    moreover have "sched_core s' = sched_core ?x" using 2(2) sched_core_set_state by simp
    ultimately show ?thesis using copy_inv_core by metis
  next
    case (3 g)
    have "copy_inv ((push_groupable g t s)\<lparr>copy_threads := copy_threads s @ [t]\<rparr>)"
      using p t c by (auto simp: copy_inv_def)
    then show ?thesis using copy_inv_core [OF 3(3)] by simp
  qed
qed

lemma register_fields:
  assumes "register_callback t s = Some s'"
  shows "copy_threads s' = copy_threads s" "tasks s' = tasks s" "n_tasks s' = n_tasks s"
  using assms by (auto simp: register_callback_def bind_eq_Some_conv split: if_splits)

lemma tryDispatch_copy:
  assumes c: "copy_inv s" and inv: "dep_inv {} s" "dispatchable s t"
    and cb: "dep_sync s = ATL_SYNC_CALLBACK"
    and td: "tryDispatch E t args isC s = Some (d, w, s')"
  shows "copy_inv s'"
  using cb td
proof (cases rule: tryDispatch_callback)
  case undispatched
  then show ?thesis using tryDispatchHostCallback_copy [OF c] by blast
next
  case (dispatched s0 s1)
  note a = tryDispatchHostCallback_copy [OF c dispatched(1)]
  note b = tryDispatchHostCallback_dep [OF inv dispatched(1)]
  have "t < n_tasks s0"
    using inv(2) advances_task_fields(2) b unfolding dispatchable_def by metis
  then have "copy_inv s1" using dispatch_copy [of s0 t] a b dispatched(2) by simp
  then show ?thesis using register_fields [OF dispatched(3)] by (simp add: copy_inv_def)
qed

lemma cb_inv_core: "sched_core s' = sched_core s \<Longrightarrow> cb_inv A B s' = cb_inv A B s"
  unfolding cb_inv_def using core_eq_fields(1) resource_inv_core dep_inv_core copy_inv_core by metis

lemma tryDispatch_cb:
  assumes "cb_inv A B s" and "dispatchable s t" and "tryDispatch E t args isC s = Some (d, w, s')"
  shows "cb_inv A B s'" and "advances s s'"
proof -
  have cb: "dep_sync s = ATL_SYNC_CALLBACK" and t: "t < n_tasks s"
    using assms by (simp_all add: cb_inv_def dispatchable_def)
  have i: "resource_inv A B s" "dep_inv {} s" "copy_inv s" using assms(1) by (simp_all add: cb_inv_def)
  note d = tryDispatch_dep [OF i(2) assms(2) cb assms(3)]
  show "advances s s'" using d by blast
  then have "dep_sync s' = ATL_SYNC_CALLBACK" using cb advances_task_fields(6) by simp
  then show "cb_inv A B s'"
    unfolding cb_inv_def
    using tryDispatch_resource [OF i(1) t cb assms(3)] d
      tryDispatch_copy [OF i(3, 2) assms(2) cb assms(3)] by blast
qed

section \<open>The progress loops\<close>

lemma ordered_loop_cb:
  assumes "cb_inv A B s" and "tg_ordered (groups s g)" and "ordered_loop n E g isC s = Some (w, s')"
  shows "cb_inv A B s' \<and> advances s s'"
  using assms
proof (induction n arbitrary: s)
  case (Suc n)
  show ?case
  proof (cases "running_ordered (groups s g)")
    case Nil
    then show ?thesis using Suc.prems by (simp add: advances_refl)
  next
    case (Cons t ts)
    then have "t < n_tasks s \<and> tk_group (tasks s t) = Some g \<and> tg_ordered (groups s g)"
      using Suc.prems(1) dep_invD(7) [of "{}" s t g] by (simp add: cb_inv_def)
    then have t: "dispatchable s t" by (simp add: dispatchable_def in_unordered_def)
    obtain d w1 s1 where td: "tryDispatch E t None isC s = Some (d, w1, s1)"
      and rest: "if d then ordered_loop n E g isC s1 = Some (w, s') else s' = s1"
      using Suc.prems(3) Cons by (auto simp: bind_eq_Some_conv split: if_splits)
    note step = tryDispatch_cb [OF Suc.prems(1) t td]
    have "tg_ordered (groups s1 g)" using Suc.prems(2) advances_task_fields(4) [OF step(2)] by simp
    then show ?thesis
      using rest step Suc.IH [OF step(1)] advances_trans [OF step(2)] by (cases d) auto
  qed
qed simp

text \<open>
  Every task that the loop dispatches leaves the list, so the loop ends: with more rounds than
  there are entries, the number of rounds no longer matters.
\<close>

lemma dispatch_running_ordered:
  assumes "dispatch E t s = Some s'"
  shows "running_ordered (groups s' g) = running_ordered (groups s g)"
proof -
  have p: "running_ordered (groups (push_groupable h t s) g) = running_ordered (groups s g)" for h
    by (simp add: push_groupable_def)
  have st: "groups (set_state t st x) = groups x" for st x
    by (simp add: set_state_def Let_def split: option.split)
  show ?thesis
    using assms
  proof (cases rule: dispatch_core)
    case (1 h)
    then show ?thesis using core_eq_task_fields(12) [OF 1(2), of g] by simp
  next
    case (2 h)
    then show ?thesis using core_eq_task_fields(12) [OF 2(2), of g] p st by simp
  next
    case (3 h)
    then show ?thesis using core_eq_task_fields(12) [OF 3(3), of g] p by simp
  qed
qed

lemma register_running_ordered:
  "register_callback t s = Some s' \<Longrightarrow>
   running_ordered (groups s' g) = running_ordered (groups s g)"
  by (auto simp: register_callback_def bind_eq_Some_conv split: if_splits)

lemma tryDispatch_pops:
  assumes cb: "dep_sync s = ATL_SYNC_CALLBACK" and td: "tryDispatch E t args isC s = Some (True, w, s')"
    and g: "tk_group (tasks s t) = Some g" "tg_ordered (groups s g)" "running_ordered (groups s g) \<noteq> []"
  shows "length (running_ordered (groups s' g)) < length (running_ordered (groups s g))"
  using cb td
proof (cases rule: tryDispatch_callback)
  case (dispatched s0 s1)
  from dispatched(1) show ?thesis
  proof (cases rule: tryDispatchHostCallback_cases)
    case (granted h impl sd)
    have sd: "sd = snd (host_dependencies t s)" using granted(3) by simp
    have ro: "running_ordered (groups sd g) = running_ordered (groups s g)"
      unfolding sd by (rule host_dependencies_induct
          [where P = "\<lambda>x. running_ordered (groups x g) = running_ordered (groups s g)"])
        (auto simp: link_task_def link_group_def)
    have "tg_ordered (groups sd g)"
      unfolding sd using g(2) static_fields(14) [OF static_dependencies, of t s g] by simp
    then have "running_ordered (groups s0 g) = tl (running_ordered (groups s g))"
      using core_eq_task_fields(12) [OF granted(7), of g] granted(2) g(1) ro
      by (simp add: grant_abs_fields)
    then show ?thesis
      using dispatch_running_ordered [OF dispatched(2)] register_running_ordered [OF dispatched(3)] g(3)
      by simp
  qed simp_all
qed simp

lemma ordered_loop_fuel:
  assumes "cb_inv A B s" and "tg_ordered (groups s g)"
    and "length (running_ordered (groups s g)) < n"
  shows "ordered_loop (n + k) E g isC s = ordered_loop n E g isC s"
  using assms
proof (induction n arbitrary: s)
  case (Suc n)
  show ?case
  proof (cases "running_ordered (groups s g)")
    case Nil
    then show ?thesis by simp
  next
    case (Cons t ts)
    then have tg: "t < n_tasks s \<and> tk_group (tasks s t) = Some g \<and> tg_ordered (groups s g)"
      using Suc.prems(1) dep_invD(7) [of "{}" s t g] by (simp add: cb_inv_def)
    then have t: "dispatchable s t" by (simp add: dispatchable_def in_unordered_def)
    have cb: "dep_sync s = ATL_SYNC_CALLBACK" using Suc.prems(1) by (simp add: cb_inv_def)
    show ?thesis
    proof (cases "tryDispatch E t None isC s")
      case None
      then show ?thesis using Cons by simp
    next
      case (Some r)
      obtain d w s1 where r: "r = (d, w, s1)" by (cases r) auto
      note td = Some [unfolded r]
      note step = tryDispatch_cb [OF Suc.prems(1) t td]
      show ?thesis
      proof (cases d)
        case True
        have "tryDispatch E t None isC s = Some (True, w, s1)" using td True by simp
        from tryDispatch_pops [OF cb this] have "length (running_ordered (groups s1 g)) < n"
          using tg Cons Suc.prems(3) by simp
        moreover have "tg_ordered (groups s1 g)"
          using Suc.prems(2) advances_task_fields(4) [OF step(2)] by simp
        ultimately show ?thesis using Suc.IH [OF step(1)] Cons td True by simp
      next
        case False
        then show ?thesis using Cons td by simp
      qed
    qed
  qed
qed simp

text \<open>
  One round of the loop, apart from the bound on the rounds: what it does with the head of the
  list (\<open>None\<close> when the dispatch crashes; a flag that is False when the loop returns), and the
  rounds after which the loop goes on.
\<close>

definition ordered_head ::
  "hsa_env \<Rightarrow> gid \<Rightarrow> bool \<Rightarrow> rt_state \<Rightarrow> (bool \<times> wait_for \<times> rt_state) option" where
  "ordered_head E g isC s =
     (case running_ordered (groups s g) of
        [] \<Rightarrow> Some (False, NoWait, s)
      | t # _ \<Rightarrow> tryDispatch E t None isC s)"

definition ordered_round :: "hsa_env \<Rightarrow> gid \<Rightarrow> bool \<Rightarrow> rt_state \<Rightarrow> rt_state \<Rightarrow> bool" where
  "ordered_round E g isC s s' \<longleftrightarrow> (\<exists>w. ordered_head E g isC s = Some (True, w, s'))"

lemma ordered_loop_head:
  "ordered_loop (Suc n) E g isC s =
     (case ordered_head E g isC s of
        None \<Rightarrow> None
      | Some (d, w, s') \<Rightarrow> if d then ordered_loop n E g isC s' else Some (w, s'))"
  by (auto simp: ordered_head_def split: list.split option.split)

lemma ordered_round_step:
  assumes "cb_inv A B s" and "tg_ordered (groups s g)" and "ordered_round E g isC s s'"
  shows "cb_inv A B s'" and "tg_ordered (groups s' g)"
    and "length (running_ordered (groups s' g)) < length (running_ordered (groups s g))"
proof -
  obtain t ts w where l: "running_ordered (groups s g) = t # ts"
    and td: "tryDispatch E t None isC s = Some (True, w, s')"
    using assms(3) by (auto simp: ordered_round_def ordered_head_def split: list.splits)
  have tg: "t < n_tasks s \<and> tk_group (tasks s t) = Some g"
    using assms(1, 2) l dep_invD(7) [of "{}" s t g] by (simp add: cb_inv_def)
  then have "dispatchable s t" using assms(2) by (simp add: dispatchable_def in_unordered_def)
  note step = tryDispatch_cb [OF assms(1) this td]
  show "cb_inv A B s'" "tg_ordered (groups s' g)"
    using step assms(2) advances_task_fields(4) [OF step(2)] by simp_all
  show "length (running_ordered (groups s' g)) < length (running_ordered (groups s g))"
    using tryDispatch_pops [OF _ td] tg assms(1, 2) l by (simp add: cb_inv_def)
qed

text \<open>Every round takes a task off the list, so there are no more rounds than entries.\<close>

lemma ordered_rounds_bounded:
  assumes "cb_inv A B s" and "tg_ordered (groups s g)" and "(ordered_round E g isC ^^ k) s s'"
  shows "cb_inv A B s' \<and> tg_ordered (groups s' g) \<and>
    k + length (running_ordered (groups s' g)) \<le> length (running_ordered (groups s g))"
  using assms(3)
proof (induction k arbitrary: s')
  case (Suc k)
  then obtain u where u: "(ordered_round E g isC ^^ k) s u" "ordered_round E g isC u s'" by auto
  from Suc.IH [OF u(1)] have i: "cb_inv A B u" "tg_ordered (groups u g)"
    "k + length (running_ordered (groups u g)) \<le> length (running_ordered (groups s g))" by blast+
  from ordered_round_step [OF i(1, 2) u(2)] i(3) show ?case by simp
qed (use assms in simp)

text \<open>So the loop comes to a round that does not go on, and its result is that of this round.\<close>

lemma ordered_loop_ends:
  assumes "cb_inv A B s" and "tg_ordered (groups s g)"
    and "length (running_ordered (groups s g)) < n"
  shows "\<exists>k s'. (ordered_round E g isC ^^ k) s s' \<and> (\<nexists>u. ordered_round E g isC s' u) \<and>
    ordered_loop n E g isC s = map_option snd (ordered_head E g isC s')"
  using assms
proof (induction n arbitrary: s)
  case (Suc n)
  show ?case
  proof (cases "\<exists>u. ordered_round E g isC s u")
    case True
    then obtain w u where h: "ordered_head E g isC s = Some (True, w, u)"
      by (auto simp: ordered_round_def)
    then have r: "ordered_round E g isC s u" by (auto simp: ordered_round_def)
    note step = ordered_round_step [OF Suc.prems(1, 2) r]
    obtain k s' where "(ordered_round E g isC ^^ k) u s'" "\<nexists>v. ordered_round E g isC s' v"
      "ordered_loop n E g isC u = map_option snd (ordered_head E g isC s')"
      using Suc.IH [OF step(1, 2)] step(3) Suc.prems(3) by auto
    then show ?thesis
      using r h by (intro exI [of _ "Suc k"] exI [of _ s'])
        (auto simp: ordered_loop_head relpowp_Suc_I2 simp del: ordered_loop.simps relpowp.simps)
  next
    case False
    then have "ordered_loop (Suc n) E g isC s = map_option snd (ordered_head E g isC s)"
      unfolding ordered_loop_head by (auto simp: ordered_round_def split: option.split)
    then show ?thesis using False by (intro exI [of _ 0] exI [of _ s]) auto
  qed
qed simp

lemma cb_inv_pop_ready:
  assumes inv: "cb_inv A B s" and q: "ReadyTaskQueue s = t # q"
  shows "cb_inv A B (s\<lparr>ReadyTaskQueue := q\<rparr>)" and "advances s (s\<lparr>ReadyTaskQueue := q\<rparr>)"
    and "dispatchable (s\<lparr>ReadyTaskQueue := q\<rparr>) t"
proof -
  let ?s = "s\<lparr>ReadyTaskQueue := q\<rparr>"
  have i: "resource_inv A B s" "dep_inv {} s" "copy_inv s" "dep_sync s = ATL_SYNC_CALLBACK"
    using inv by (simp_all add: cb_inv_def)
  have d: "dep_inv {} ?s" and adv: "advances s ?s"
    by (rule dep_inv_running [OF i(2)]; use q in auto)+
  have "resource_inv A B ?s = resource_inv A B s" by (rule resource_inv_holdings) simp_all
  moreover have "copy_inv ?s" using i(3) by (simp add: copy_inv_def)
  ultimately show "cb_inv A B ?s" "advances s ?s" using d adv i by (simp_all add: cb_inv_def)
  show "dispatchable ?s t"
    using dep_invD(5) [OF i(2), of t] q preds_done_advances [OF adv, of t]
    by (simp add: dispatchable_def)
qed

lemma ready_loop_cb:
  assumes "cb_inv A B s" and "ready_loop n E s = Some (w, s')"
  shows "cb_inv A B s' \<and> advances s s'"
  using assms
proof (induction n arbitrary: s)
  case (Suc n)
  show ?case
  proof (cases "ReadyTaskQueue s")
    case Nil
    then show ?thesis using Suc by simp
  next
    case (Cons t q)
    note p = cb_inv_pop_ready [OF Suc.prems(1) Cons]
    obtain d w1 s1 where td: "tryDispatch E t None True (s\<lparr>ReadyTaskQueue := q\<rparr>) = Some (d, w1, s1)"
      and rest: "if w1 = NoWait then ready_loop n E s1 = Some (w, s') else s' = s1"
      using Suc.prems(2) Cons by (auto simp: bind_eq_Some_conv split: if_splits)
    note step = tryDispatch_cb [OF p(1, 3) td]
    show ?thesis
      using rest step(1) Suc.IH [OF step(1)] advances_trans [OF advances_trans [OF p(2) step(2)]]
        advances_trans [OF p(2) step(2)] by (cases "w1 = NoWait") auto
  qed
qed (simp add: advances_refl)

lemma doProgress_cb:
  assumes "cb_inv A B s" and "doProgress E t s = Some (w, s')"
  shows "cb_inv A B s' \<and> advances s s'"
proof -
  have "dep_sync s = ATL_SYNC_CALLBACK" using assms(1) by (simp add: cb_inv_def)
  moreover obtain g where "tk_group (tasks s t) = Some g"
    using assms(2) by (auto simp: doProgress_def bind_eq_Some_conv)
  ultimately have "if tg_ordered (groups s g)
      then ordered_loop (Suc (length (running_ordered (groups s g)))) E g True s = Some (w, s')
      else ready_loop (length (ReadyTaskQueue s)) E s = Some (w, s')"
    using assms(2) by (simp del: ordered_loop.simps add: doProgress_def split: if_splits)
  then show ?thesis
    using ordered_loop_cb ready_loop_cb assms(1) by (metis (full_types))
qed

section \<open>Completing a task\<close>

lemma release_successors_effect:
  "snd (release_successors us s) = s\<lparr>tasks := (\<lambda>x. (tasks s x)
     \<lparr>num_predecessors := num_predecessors (tasks s x) - int (count_list us x)\<rparr>)\<rparr>"
proof (induction us arbitrary: s)
  case (Cons u us)
  show ?case by (auto simp: Let_def split_def Cons upd_task_def fun_eq_iff)
qed simp

lemma release_successors_released:
  "u \<in> set (fst (release_successors us s)) \<Longrightarrow>
   \<exists>k. 0 < k \<and> k \<le> count_list us u \<and> num_predecessors (tasks s u) = int k"
proof (induction us arbitrary: s)
  case (Cons v us)
  let ?s = "upd_task v (\<lambda>k. k\<lparr>num_predecessors := num_predecessors k - 1\<rparr>) s"
  consider "u = v" "num_predecessors (tasks s v) = 1" | "u \<in> set (fst (release_successors us ?s))"
    using Cons.prems by (auto simp: Let_def split_def split: if_splits)
  then show ?case
  proof cases
    case 1
    then show ?thesis by (intro exI [of _ 1]) simp
  next
    case 2
    then obtain k where "0 < k" "k \<le> count_list us u" "num_predecessors (tasks ?s u) = int k"
      using Cons.IH by blast
    then show ?thesis by (cases "u = v") (auto intro: exI [of _ "Suc k"])
  qed
qed simp

lemma release_successors_cong:
  "(\<And>x. num_predecessors (tasks s' x) = num_predecessors (tasks s x)) \<Longrightarrow>
   fst (release_successors us s') = fst (release_successors us s)"
proof (induction us arbitrary: s s')
  case (Cons u us)
  let ?f = "upd_task u (\<lambda>k. k\<lparr>num_predecessors := num_predecessors k - 1\<rparr>)"
  have "fst (release_successors us (?f s')) = fst (release_successors us (?f s))"
    by (rule Cons.IH) (simp add: Cons.prems)
  then show ?case by (simp add: Let_def split_def Cons.prems)
qed simp

text \<open>
  The tasks that the end of their predecessor makes ready, in the order of its list of successors
  \<open>us\<close>: one at each position where the entries up to it bring the task's counter to zero.
\<close>

definition freed :: "tid list \<Rightarrow> rt_state \<Rightarrow> tid list" where
  "freed us s =
     map (nth us)
       (filter (\<lambda>i. num_predecessors (tasks s (us ! i)) = int (count_list (take (Suc i) us) (us ! i)))
          [0..<length us])"

lemma freed_is_released: "freed us s = fst (release_successors us s)"
proof (induction us arbitrary: s)
  case (Cons u us)
  let ?s = "upd_task u (\<lambda>k. k\<lparr>num_predecessors := num_predecessors k - 1\<rparr>) s"
  have "[0..<length (u # us)] = 0 # map Suc [0..<length us]"
    by (simp add: upt_conv_Cons map_Suc_upt del: upt_Suc)
  then have "freed (u # us) s = (if num_predecessors (tasks s u) = 1 then [u] else []) @ freed us ?s"
    unfolding freed_def
    by (auto simp: filter_map o_def intro!: arg_cong [where f = "map ((!) us)"] filter_cong)
  then show ?case by (simp add: Cons Let_def split_def)
qed (simp add: freed_def)

text \<open>What the completion of a task does to the scheduling state.\<close>

definition complete_abs :: "tid \<Rightarrow> rt_state \<Rightarrow> rt_state" where
  "complete_abs t s =
     (let us = and_successors (tasks s t);
          s' = s\<lparr>tasks := (\<lambda>x. (tasks s x)
                   \<lparr>num_predecessors := num_predecessors (tasks s x) - int (count_list us x),
                    tk_state := (if x = t then ATMI_COMPLETED else state_of s x)\<rparr>),
                 ReadyTaskQueue := ReadyTaskQueue s @ freed us s,
                 FreeSignalPool := queue_give_back (tk_signal (tasks s t)) (FreeSignalPool s)\<rparr>
      in case impl_of (kernels s) (tasks s t) of
           None \<Rightarrow> s'
         | Some p \<Rightarrow> upd_impl p (\<lambda>k. k\<lparr>free_kernarg_segments :=
             queue_give_back (tk_kernarg_index (tasks s t)) (free_kernarg_segments k)\<rparr>) s')"

lemma complete_abs_fields:
  "tasks (complete_abs t s) x = (tasks s x)
     \<lparr>num_predecessors := num_predecessors (tasks s x) - int (count_list (and_successors (tasks s t)) x),
      tk_state := (if x = t then ATMI_COMPLETED else state_of s x)\<rparr>"
  "ReadyTaskQueue (complete_abs t s) =
     ReadyTaskQueue s @ fst (release_successors (and_successors (tasks s t)) s)"
  "FreeSignalPool (complete_abs t s) = queue_give_back (tk_signal (tasks s t)) (FreeSignalPool s)"
  "free_kernarg_segments (impls (complete_abs t s) p) =
     (if impl_of (kernels s) (tasks s t) = Some p
      then queue_give_back (tk_kernarg_index (tasks s t)) (free_kernarg_segments (impls s p))
      else free_kernarg_segments (impls s p))"
  "n_tasks (complete_abs t s) = n_tasks s" "groups (complete_abs t s) = groups s"
  "kernels (complete_abs t s) = kernels s" "n_impls (complete_abs t s) = n_impls s"
  "handlers (complete_abs t s) = handlers s" "copy_threads (complete_abs t s) = copy_threads s"
  "dep_sync (complete_abs t s) = dep_sync s" "AllTaskgroups (complete_abs t s) = AllTaskgroups s"
  by (auto simp: complete_abs_def freed_is_released Let_def split: option.split)

lemma set_state_exact:
  "\<exists>m. set_state t st s = (upd_task t (\<lambda>k. k\<lparr>tk_state := st\<rparr>) s)\<lparr>user_tasks := m\<rparr>"
  by (auto simp: set_state_def Let_def upd_task_def split: option.split intro: exI [of _ "user_tasks s"])

lemma release_after_state:
  "fst (release_successors us ((upd_task t (\<lambda>k. k\<lparr>tk_state := st\<rparr>) s)\<lparr>user_tasks := m\<rparr>)) =
   fst (release_successors us s)"
  by (rule release_successors_cong) simp

lemma complete_task_core:
  assumes "complete_task E t s = Some s'"
  shows "sched_core s' = sched_core (complete_abs t s)"
proof -
  let ?u = "upd_task t (\<lambda>k. k\<lparr>tk_state := ATMI_EXECUTED\<rparr>) s"
  let ?us = "and_successors (tasks s t)"
  obtain m where m: "set_state t ATMI_EXECUTED s = ?u\<lparr>user_tasks := m\<rparr>"
    using set_state_exact by blast
  let ?r = "snd (release_successors ?us (?u\<lparr>user_tasks := m\<rparr>))"
  let ?q = "free_signal t (?r\<lparr>ReadyTaskQueue := ReadyTaskQueue ?r @ fst (release_successors ?us s)\<rparr>)"
  obtain s5 s6 where 5: "free_segment t ?q = Some s5" and 6: "updateMetrics E t s5 = Some s6"
    and s': "s' = set_state t ATMI_COMPLETED s6"
    using assms by (auto simp: complete_task_def Let_def split_def m bind_eq_Some_conv
        release_after_state)
  have "sched_core s' = upd_task t (\<lambda>k. k\<lparr>tk_state := ATMI_COMPLETED\<rparr>) (sched_core s5)"
    using updateMetrics_core [OF 6] s' by (simp add: sched_core_set_state_eq)
  moreover have "upd_task t (\<lambda>k. k\<lparr>tk_state := ATMI_COMPLETED\<rparr>) s5 = (complete_abs t s)\<lparr>user_tasks := m\<rparr>"
  proof (cases "tk_type (tasks s t)")
    case ATL_KERNEL_EXECUTION
    then obtain p where "task_impl ?q t = Some p" "impl_of (kernels s) (tasks s t) = Some p"
      using 5 by (auto simp: free_segment_def bind_eq_Some_conv release_successors_effect
          free_signal_def task_impl_def impl_of_def)
    then show ?thesis
      using 5 ATL_KERNEL_EXECUTION
      by (auto simp: free_segment_def release_successors_effect free_signal_def complete_abs_def
          freed_is_released upd_task_def upd_impl_def Let_def fun_eq_iff)
  next
    case ATL_DATA_MOVEMENT
    then have "s5 = ?q"
      using 5 by (auto simp: free_segment_def release_successors_effect free_signal_def)
    then show ?thesis
      using ATL_DATA_MOVEMENT
      by (auto simp: release_successors_effect free_signal_def complete_abs_def impl_of_def
          freed_is_released
          upd_task_def Let_def fun_eq_iff)
  qed
  ultimately show ?thesis by (metis sched_core_task_state(1) sched_core_mem(3))
qed

section \<open>Completion keeps the invariants\<close>

lemma task_sum_complete:
  fixes f :: "TaskImpl \<Rightarrow> 'a::comm_monoid_add"
  assumes "t < n_tasks s" and "\<And>k n. f (k\<lparr>num_predecessors := n\<rparr>) = f k"
  shows "task_sum f (complete_abs t s) + f (tasks s t) =
    task_sum f s + f ((tasks s t)\<lparr>tk_state := ATMI_COMPLETED\<rparr>)"
proof -
  let ?s = "upd_task t (\<lambda>k. k\<lparr>tk_state := ATMI_COMPLETED\<rparr>) s"
  have "f (tasks (complete_abs t s) x) = f (tasks ?s x)" for x
  proof -
    have "tasks (complete_abs t s) x = (tasks ?s x)\<lparr>num_predecessors :=
        num_predecessors (tasks (complete_abs t s) x)\<rparr>"
      by (simp add: complete_abs_fields)
    then show ?thesis by (metis assms(2))
  qed
  then have "task_sum f (complete_abs t s) = task_sum f ?s"
    by (intro task_sum_cong) (simp_all add: complete_abs_fields)
  then show ?thesis using task_sum_upd [OF assms(1), of ?s, of _ f] by simp
qed

lemma handler_invD:
  assumes "handler_inv s"
  shows "HandleTask sg t \<in> set (handlers s) \<Longrightarrow>
      t < n_tasks s \<and> live (tasks s t) \<and> \<not> groupable (tasks s t) \<and> tk_signal (tasks s t) = sg"
    "distinct (handler_tasks (handlers s))"
    "t \<in> set (running_groupable (groups s g)) \<Longrightarrow>
      t < n_tasks s \<and> live (tasks s t) \<and> groupable (tasks s t) \<and> tk_group (tasks s t) = Some g"
    "distinct (running_groupable (groups s g))"
  using assms unfolding handler_inv_def by blast+

lemma holds_num_predecessors [simp]:
  "active (k\<lparr>num_predecessors := n\<rparr>) = active k"
  "sig_of (k\<lparr>num_predecessors := n\<rparr>) = sig_of k"
  "seg_of ks p (k\<lparr>num_predecessors := n\<rparr>) = seg_of ks p k"
  by (simp_all add: active_def sig_of_def seg_of_def impl_of_def)

lemma holds_inactive: "\<not> active k \<Longrightarrow> sig_of k = {#}" "\<not> active k \<Longrightarrow> seg_of ks p k = {#}"
  by (simp_all add: sig_of_def seg_of_def)

text \<open>The resources of a live task go back when it completes.\<close>

lemma complete_signal_inv:
  assumes "signal_inv A s" and t: "t < n_tasks s" "live (tasks s t)" "\<not> groupable (tasks s t)"
  shows "signal_inv A (complete_abs t s)"
proof -
  have dead: "\<not> active ((tasks s t)\<lparr>tk_state := ATMI_COMPLETED\<rparr>)" by (simp add: active_iff)
  have "add_mset (tk_signal (tasks s t)) (task_sum sig_of (complete_abs t s)) = task_sum sig_of s"
    using task_sum_complete [of t s sig_of] t holds_inactive(1) [OF dead] live_active [OF t(2)]
    by (simp add: sig_of_def [of "tasks s t"])
  then have "rq.conserved A (add_mset (tk_signal (tasks s t)) (task_sum sig_of (complete_abs t s)))
      (FreeSignalPool s)"
    using assms(1) by (simp add: signal_inv_def)
  from rq.give_back_conserves [OF this] show ?thesis
    by (simp add: signal_inv_def complete_abs_fields)
qed

lemma complete_segment_inv:
  assumes "segment_inv B s" and t: "t < n_tasks s" "live (tasks s t)"
  shows "segment_inv B (complete_abs t s)"
  unfolding segment_inv_def
proof (intro allI impI)
  fix p assume "p < n_impls (complete_abs t s)"
  let ?f = "seg_of (kernels s) p" and ?s = "complete_abs t s"
  have dead: "\<not> active ((tasks s t)\<lparr>tk_state := ATMI_COMPLETED\<rparr>)" by (simp add: active_iff)
  have c: "rq.conserved (B p) (task_sum ?f s) (free_kernarg_segments (impls s p))"
    using assms(1) \<open>p < n_impls ?s\<close> by (simp add: segment_inv_def complete_abs_fields)
  have sum: "task_sum ?f ?s + ?f (tasks s t) = task_sum ?f s"
    using task_sum_complete [of t s ?f] t(1) holds_inactive(2) [OF dead] by simp
  show "rq.conserved (B p) (task_sum (seg_of (kernels ?s) p) ?s) (free_kernarg_segments (impls ?s p))"
  proof (cases "impl_of (kernels s) (tasks s t) = Some p")
    case True
    then have "add_mset (tk_kernarg_index (tasks s t)) (task_sum ?f ?s) = task_sum ?f s"
      using sum live_active [OF t(2)] by (simp add: seg_of_def)
    then have "rq.conserved (B p) (add_mset (tk_kernarg_index (tasks s t)) (task_sum ?f ?s))
        (free_kernarg_segments (impls s p))"
      using c by simp
    from rq.give_back_conserves [OF this] True show ?thesis by (simp add: complete_abs_fields)
  next
    case False
    then have "task_sum ?f ?s = task_sum ?f s" using sum by (simp add: seg_of_def)
    then show ?thesis using c False by (simp add: complete_abs_fields)
  qed
qed

lemma complete_resource:
  assumes inv: "resource_inv A B s" and h: "handlers s = hs1 @ HandleTask sg t # hs2"
  shows "resource_inv A B (complete_abs t (s\<lparr>handlers := hs1 @ hs2\<rparr>))"
proof -
  let ?pre = "s\<lparr>handlers := hs1 @ hs2\<rparr>"
  let ?s = "complete_abs t ?pre"
  note f = complete_abs_fields
  have hi: "handler_inv s" and si: "signal_inv A s" and gi: "segment_inv B s"
    using inv by (simp_all add: resource_inv_def)
  have t: "t < n_tasks s" "live (tasks s t)" "\<not> groupable (tasks s t)"
    using handler_invD(1) [OF hi, of sg t] h by simp_all
  have "signal_inv A ?pre = signal_inv A s" "segment_inv B ?pre = segment_inv B s"
    by (intro signal_inv_cong segment_inv_cong; simp)+
  then have 1: "signal_inv A ?s" and 2: "segment_inv B ?s"
    using complete_signal_inv [of A ?pre t] complete_segment_inv [of B ?pre t] si gi t by simp_all
  have d: "distinct (handler_tasks (hs1 @ HandleTask sg t # hs2))"
    using handler_invD(2) [OF hi] h by simp
  have out: "HandleTask sg' t \<notin> set (hs1 @ hs2)" for sg'
    using d by (auto simp: handler_tasks_iff)
  have "handler_inv ?s"
    unfolding handler_inv_def
  proof (intro conjI allI impI)
    fix sg' x assume x: "HandleTask sg' x \<in> set (handlers ?s)"
    then have "HandleTask sg' x \<in> set (handlers s)" "x \<noteq> t" using h out by (auto simp: f)
    then show "x < n_tasks ?s" "live (tasks ?s x)" "\<not> groupable (tasks ?s x)"
      "tk_signal (tasks ?s x) = sg'"
      using handler_invD(1) [OF hi] by (auto simp: f live_def)
  next
    show "distinct (handler_tasks (handlers ?s))" using d by (auto simp: f)
  next
    fix g x assume "x \<in> set (running_groupable (groups ?s g))"
    then have "x \<in> set (running_groupable (groups s g))" "x \<noteq> t"
      using handler_invD(3) [OF hi] t(3) by (auto simp: f)
    then show "x < n_tasks ?s" "live (tasks ?s x)" "groupable (tasks ?s x)"
      "tk_group (tasks ?s x) = Some g"
      using handler_invD(3) [OF hi] by (auto simp: f live_def)
  next
    show "distinct (running_groupable (groups ?s g))" for g
      using handler_invD(4) [OF hi] by (simp add: f)
  qed
  with 1 2 show ?thesis by (simp add: resource_inv_def)
qed

lemma complete_dep:
  assumes inv: "dep_inv {} s" and t: "t < n_tasks s" "live (tasks s t)"
  shows "dep_inv {} (complete_abs t s)" and "advances s (complete_abs t s)"
proof -
  let ?s = "complete_abs t s" and ?us = "and_successors (tasks s t)"
  note f = complete_abs_fields
  have lt: "state_of s t < ATMI_EXECUTED" "ATMI_READY \<le> state_of s t"
    using t(2) by (auto simp: live_def state_order)
  have st: "static ?s = static s"
    by (auto simp: static_def f static_task_def fun_eq_iff)
  show adv: "advances s ?s"
    unfolding advances_def using st lt by (auto simp: f state_order)
  have pe: "pend u ?s + count_list ?us u = pend u s" for u
    using task_sum_complete [OF t(1), of "pend_of u"] lt(1)
    by (simp add: pend_def pend_of_def state_order)
  have rel: "pend u ?s = 0 \<and> u < n_tasks s" if "u \<in> set (fst (release_successors ?us s))" for u
  proof -
    note r = release_successors_released [OF that]
    obtain k where k: "0 < k" "k \<le> count_list ?us u" "num_predecessors (tasks s u) = int k"
      using r by blast
    then have "u \<in> set ?us" by (metis count_list_0_iff le_zero_eq less_numeral_extra(3))
    then have u: "u < n_tasks s" using dep_invD(2) [OF inv t(1)] by blast
    then show ?thesis using dep_invD(1) [OF inv u] pe [of u] k by simp
  qed
  have nopend: "preds_done ?s u" if u: "u < n_tasks s" "linked ?s u" "pend u ?s = 0" for u
    unfolding preds_done_def
  proof
    fix p assume p: "p \<in> set (predecessors (tasks ?s u))"
    then have "p < n_tasks s" using dep_invD(3) [OF inv u(1)] by (simp add: f)
    then have "pend_of u (tasks ?s p) = 0"
      using u(3) unfolding pend_def task_sum_def by (simp add: f(5))
    then show "ATMI_EXECUTED \<le> state_of ?s p"
      using u(2) p unfolding linked_def pend_of_def
      by (auto simp: count_list_0_iff not_less split: if_splits)
  qed
  have q: "ATMI_INITIALIZED \<le> state_of ?s u \<and> preds_done ?s u"
    if "u \<in> set (fst (release_successors ?us s))" for u
  proof -
    have u: "u < n_tasks s" "pend u ?s = 0" using rel [OF that] by simp_all
    have "u \<in> set ?us"
      using release_successors_released [OF that]
      by (metis count_list_0_iff le_zero_eq less_numeral_extra(3))
    then have i: "ATMI_INITIALIZED \<le> state_of s u" using dep_invD(2) [OF inv t(1)] by blast
    then show ?thesis
      using nopend [OF u(1) _ u(2)] dep_invD(4) [OF inv u(1)] linked_advances [OF adv]
      by (auto simp: f state_order)
  qed
  show "dep_inv {} ?s"
  proof (rule dep_inv_advance [OF inv adv])
    show "int (pend u ?s) \<le> num_predecessors (tasks ?s u)" if "u < n_tasks s" for u
      using dep_invD(1) [OF inv that] pe [of u] by (simp add: f)
    show "u < n_tasks s \<and> (u \<in> {} \<or> ATMI_INITIALIZED \<le> state_of ?s u)"
      if "p < n_tasks s" "u \<in> set (and_successors (tasks ?s p))" for p u
      using dep_invD(2) [OF inv that(1), of u] that(2) by (auto simp: f state_order)
    show "linked ?s u" if "ATMI_INITIALIZED \<le> state_of ?s u" "state_of s u < ATMI_INITIALIZED" for u
      using that lt by (auto simp: f state_order less_initialized_iff split: if_splits)
    show "u \<in> set (ReadyTaskQueue s) \<or>
        u < n_tasks s \<and> ATMI_INITIALIZED \<le> state_of ?s u \<and> preds_done ?s u"
      if "u \<in> set (ReadyTaskQueue ?s)" for u
      using that q rel by (auto simp: f(2))
    show "preds_done ?s u" if "ATMI_READY \<le> state_of ?s u" "state_of s u < ATMI_READY" for u
      using that lt by (auto simp: f split: if_splits)
  qed (simp add: f)
qed

text \<open>
  The completion handler of a task fires: it is taken off the list of handlers, the task completes
  and the scheduler makes progress. The signal of a copy whose thread is still at work is not zero.
\<close>

lemma complete_cb:
  assumes inv: "cb_inv A B s" and h: "handlers s = hs1 @ HandleTask sg t # hs2"
    and c: "t \<notin> set (copy_threads s)"
    and d: "complete_task E t (s\<lparr>handlers := hs1 @ hs2\<rparr>) = Some s'"
  shows "cb_inv A B s'" and "advances s s'" and "state_of s' t = ATMI_COMPLETED"
proof -
  let ?pre = "s\<lparr>handlers := hs1 @ hs2\<rparr>"
  let ?s = "complete_abs t ?pre"
  have i: "resource_inv A B s" "dep_inv {} s" "copy_inv s" "dep_sync s = ATL_SYNC_CALLBACK"
    using inv by (simp_all add: cb_inv_def)
  have t: "t < n_tasks ?pre" "live (tasks ?pre t)"
    using handler_invD(1) [of s sg t] i(1) h by (simp_all add: resource_inv_def)
  note e = complete_task_core [OF d]
  note p = handlers_dep [OF i(2), of "hs1 @ hs2"]
  note q = complete_dep [OF p(1) t]
  have "copy_inv ?s"
    by (rule copy_inv_same [OF i(3)]) (use c in \<open>auto simp: complete_abs_fields\<close>)
  then have "cb_inv A B ?s"
    using complete_resource [OF i(1) h] q(1) i(4) by (simp add: cb_inv_def complete_abs_fields)
  then show "cb_inv A B s'" using cb_inv_core [OF e] by simp
  show "advances s s'" by (rule advances_core_right [OF e advances_trans [OF p(2) q(2)]])
  show "state_of s' t = ATMI_COMPLETED"
    using core_eq_task_fields(3) [OF e, of t] by (simp add: complete_abs_fields)
qed

lemma handle_signal_cb:
  assumes inv: "cb_inv A B s" and h: "handlers s = hs1 @ HandleTask sg t # hs2"
    and c: "t \<notin> set (copy_threads s)"
    and d: "handle_signal_callback E t (s\<lparr>handlers := hs1 @ hs2\<rparr>) = Some (w, s')"
  shows "cb_inv A B s'" and "advances s s'"
proof -
  obtain s1 where 1: "complete_task E t (s\<lparr>handlers := hs1 @ hs2\<rparr>) = Some s1"
    and 2: "doProgress E t s1 = Some (w, s')"
    using d by (auto simp: handle_signal_callback_def bind_eq_Some_conv split: if_splits)
  note a = complete_cb [OF inv h c 1]
  show "cb_inv A B s'" "advances s s'"
    using doProgress_cb [OF a(1) 2] advances_trans [OF a(2)] by blast+
qed

end
