(* ===== verification/Sched_Groups.thy ===== *)
theory Sched_Groups
  imports Sched_Progress
begin

text \<open>
  The completion handler of a task group keeps the invariants: it takes over the group's running
  tasks, gives their kernarg segments back, completes them and makes progress.
\<close>

section \<open>Completing the tasks of a group\<close>

definition complete_group_abs :: "tid \<Rightarrow> rt_state \<Rightarrow> rt_state" where
  "complete_group_abs t s =
     upd_task t (\<lambda>k. k\<lparr>tk_state := ATMI_COMPLETED\<rparr>)
       (case impl_of (kernels s) (tasks s t) of
          None \<Rightarrow> s
        | Some p \<Rightarrow> upd_impl p (\<lambda>k. k\<lparr>free_kernarg_segments :=
            queue_give_back (tk_kernarg_index (tasks s t)) (free_kernarg_segments k)\<rparr>) s)"

lemma complete_group_abs_fields:
  "tasks (complete_group_abs t s) = (tasks s)(t := (tasks s t)\<lparr>tk_state := ATMI_COMPLETED\<rparr>)"
  "free_kernarg_segments (impls (complete_group_abs t s) p) =
     (if impl_of (kernels s) (tasks s t) = Some p
      then queue_give_back (tk_kernarg_index (tasks s t)) (free_kernarg_segments (impls s p))
      else free_kernarg_segments (impls s p))"
  "n_tasks (complete_group_abs t s) = n_tasks s" "groups (complete_group_abs t s) = groups s"
  "kernels (complete_group_abs t s) = kernels s" "n_impls (complete_group_abs t s) = n_impls s"
  "handlers (complete_group_abs t s) = handlers s"
  "copy_threads (complete_group_abs t s) = copy_threads s"
  "dep_sync (complete_group_abs t s) = dep_sync s"
  "ReadyTaskQueue (complete_group_abs t s) = ReadyTaskQueue s"
  "FreeSignalPool (complete_group_abs t s) = FreeSignalPool s"
  "AllTaskgroups (complete_group_abs t s) = AllTaskgroups s"
  by (auto simp: complete_group_abs_def split: option.split)

lemma complete_group_task_core:
  assumes "dep_sync s = ATL_SYNC_CALLBACK" and "complete_group_task E t s = Some s'"
  shows "sched_core s' = sched_core (complete_group_abs t s)"
proof -
  obtain s1 s2 where 1: "free_segment t s = Some s1" and 2: "updateMetrics E t s1 = Some s2"
    and s': "s' = set_state t ATMI_COMPLETED s2" and "dep_sync s1 = dep_sync s"
    using assms by (auto simp: complete_group_task_def bind_eq_Some_conv free_segment_def
        split: if_splits atl_task_type_t.splits)
  have "s1 = (case impl_of (kernels s) (tasks s t) of None \<Rightarrow> s
      | Some p \<Rightarrow> upd_impl p (\<lambda>k. k\<lparr>free_kernarg_segments :=
          queue_give_back (tk_kernarg_index (tasks s t)) (free_kernarg_segments k)\<rparr>) s)"
    using 1 by (auto simp: free_segment_def impl_of_def task_impl_def bind_eq_Some_conv
        split: atl_task_type_t.splits)
  then have "complete_group_abs t s = upd_task t (\<lambda>k. k\<lparr>tk_state := ATMI_COMPLETED\<rparr>) s1"
    by (simp add: complete_group_abs_def)
  then show ?thesis
    using updateMetrics_core [OF 2] s' by (simp add: sched_core_set_state_eq sched_core_task_state)
qed

text \<open>What the handler knows of the tasks it has taken over.\<close>

definition taken_over :: "tid list \<Rightarrow> rt_state \<Rightarrow> bool" where
  "taken_over ts s \<longleftrightarrow> distinct ts \<and>
     (\<forall>t \<in> set ts. t < n_tasks s \<and> live (tasks s t) \<and> groupable (tasks s t) \<and>
        t \<notin> set (copy_threads s) \<and> (\<forall>g. t \<notin> set (running_groupable (groups s g))))"

lemma complete_group_resource:
  assumes inv: "resource_inv A B s" and t: "taken_over (t # ts) s"
  shows "resource_inv A B (complete_group_abs t s)" "taken_over ts (complete_group_abs t s)"
proof -
  let ?s = "complete_group_abs t s"
  note f = complete_group_abs_fields
  have hi: "handler_inv s" and si: "signal_inv A s" and gi: "segment_inv B s"
    using inv by (simp_all add: resource_inv_def)
  have tt: "t < n_tasks s" "live (tasks s t)" "groupable (tasks s t)" "t \<notin> set ts"
    "\<And>g. t \<notin> set (running_groupable (groups s g))"
    using t by (auto simp: taken_over_def)
  have act: "active (tasks s t)" using live_active tt(2) by blast
  have dead: "\<not> active ((tasks s t)\<lparr>tk_state := ATMI_COMPLETED\<rparr>)" by (simp add: active_iff)
  have "sig_of (tasks ?s x) = sig_of (tasks s x)" for x using tt(3) by (simp add: f sig_of_def)
  then have "signal_inv A ?s = signal_inv A s" by (intro signal_inv_cong) (simp_all add: f)
  moreover have "segment_inv B ?s"
    unfolding segment_inv_def
  proof (intro allI impI)
    fix p assume "p < n_impls ?s"
    then have c: "rq.conserved (B p) (task_sum (seg_of (kernels s) p) s)
        (free_kernarg_segments (impls s p))"
      using gi by (simp add: segment_inv_def f)
    have sum: "task_sum (seg_of (kernels s) p) ?s + seg_of (kernels s) p (tasks s t) =
        task_sum (seg_of (kernels s) p) s"
      using task_sum_upd [OF tt(1) f(1) f(3), of "seg_of (kernels s) p"]
        holds_inactive(2) [OF dead] by simp
    show "rq.conserved (B p) (task_sum (seg_of (kernels ?s) p) ?s)
        (free_kernarg_segments (impls ?s p))"
    proof (cases "impl_of (kernels s) (tasks s t) = Some p")
      case True
      then have "add_mset (tk_kernarg_index (tasks s t)) (task_sum (seg_of (kernels s) p) ?s) =
          task_sum (seg_of (kernels s) p) s"
        using sum act by (simp add: seg_of_def)
      then have "rq.conserved (B p) (add_mset (tk_kernarg_index (tasks s t))
          (task_sum (seg_of (kernels s) p) ?s)) (free_kernarg_segments (impls s p))"
        using c by simp
      from rq.give_back_conserves [OF this] True show ?thesis by (simp add: f)
    next
      case False
      then have "task_sum (seg_of (kernels s) p) ?s = task_sum (seg_of (kernels s) p) s"
        using sum by (simp add: seg_of_def)
      then show ?thesis using c False by (simp add: f)
    qed
  qed
  moreover have "handler_inv ?s"
    unfolding handler_inv_def f
    using handler_invD [OF hi] tt(3, 5) by (auto simp: live_def)
  ultimately show "resource_inv A B ?s" using si by (simp add: resource_inv_def)
  show "taken_over ts ?s" using t unfolding taken_over_def f by (auto simp: live_def)
qed

lemma complete_group_cb:
  assumes inv: "cb_inv A B s" and t: "taken_over (t # ts) s" and c: "complete_group_task E t s = Some s'"
  shows "cb_inv A B s'" "advances s s'" "taken_over ts s'"
proof -
  let ?s = "complete_group_abs t s"
  note f = complete_group_abs_fields
  have i: "resource_inv A B s" "dep_inv {} s" "copy_inv s" "dep_sync s = ATL_SYNC_CALLBACK"
    using inv by (simp_all add: cb_inv_def)
  have l: "live (tasks s t)" "t \<notin> set (copy_threads s)" using t by (simp_all add: taken_over_def)
  note e = complete_group_task_core [OF i(4) c]
  note r = complete_group_resource [OF i(1) t]
  have st: "static ?s = static s" by (auto simp: static_def f static_task_def fun_eq_iff)
  have d: "dep_inv {} ?s" "advances s ?s"
    by (rule dep_inv_running [OF i(2) st]; use l(1) in \<open>auto simp: f live_def state_order\<close>)+
  have "copy_inv ?s" by (rule copy_inv_same [OF i(3)]) (use l(2) in \<open>auto simp: f\<close>)
  then have "cb_inv A B ?s" using r(1) d(1) i(4) by (simp add: cb_inv_def f)
  then show "cb_inv A B s'" using cb_inv_core [OF e] by simp
  show "advances s s'" by (rule advances_core_right [OF e d(2)])
  have "taken_over ts s' = taken_over ts ?s"
    unfolding taken_over_def core_eq_fields(2, 11) [OF e] core_eq_live(1) [OF e]
      core_eq_task_fields(8, 13) [OF e] ..
  then show "taken_over ts s'" using r(2) by simp
qed

lemma complete_group_tasks_cb:
  assumes "cb_inv A B s" and "taken_over ts s" and "complete_group_tasks E ts s = Some s'"
  shows "cb_inv A B s' \<and> advances s s'"
  using assms
proof (induction ts arbitrary: s)
  case Nil
  then show ?case by (simp add: advances_refl)
next
  case (Cons t ts)
  obtain s1 where 1: "complete_group_task E t s = Some s1" and 2: "complete_group_tasks E ts s1 = Some s'"
    using Cons.prems(3) by (auto simp: bind_eq_Some_conv)
  note a = complete_group_cb [OF Cons.prems(1, 2) 1]
  show ?case using Cons.IH [OF a(1, 3) 2] advances_trans [OF a(2)] by blast
qed

section \<open>The handler\<close>

lemma cb_inv_quiet:
  assumes inv: "cb_inv A B s" and st: "static s' = static s"
    and f: "tasks s' = tasks s" "impls s' = impls s" "FreeSignalPool s' = FreeSignalPool s"
      "handler_tasks (handlers s') = handler_tasks (handlers s)"
      "\<And>sg t. HandleTask sg t \<in> set (handlers s') \<longleftrightarrow> HandleTask sg t \<in> set (handlers s)"
      "copy_threads s' = copy_threads s" "ReadyTaskQueue s' = ReadyTaskQueue s"
    and ordered: "\<And>g. set (running_ordered (groups s' g)) \<subseteq> set (running_ordered (groups s g))"
    and running: "\<And>g. running_groupable (groups s' g) = running_groupable (groups s g) \<or>
      running_groupable (groups s' g) = []"
  shows "cb_inv A B s'" and "advances s s'"
proof -
  have i: "resource_inv A B s" "dep_inv {} s" "copy_inv s" "dep_sync s = ATL_SYNC_CALLBACK"
    using inv by (simp_all add: cb_inv_def)
  note k = static_fields [OF st]
  have d: "dep_inv {} s'" and adv: "advances s s'"
    by (rule dep_inv_running [OF i(2) st]; use f ordered in auto)+
  have "signal_inv A s' = signal_inv A s" using f k by (intro signal_inv_cong) simp_all
  moreover have "segment_inv B s' = segment_inv B s" using f k by (intro segment_inv_cong) simp_all
  moreover have "handler_inv s'"
  proof -
    have hi: "handler_inv s" using i(1) by (simp add: resource_inv_def)
    have sub: "set (running_groupable (groups s' g)) \<subseteq> set (running_groupable (groups s g))"
      "distinct (running_groupable (groups s' g))" for g
      using running [of g] handler_invD(4) [OF hi] by auto
    show ?thesis
      unfolding handler_inv_def k f
      using handler_invD [OF hi] sub by blast
  qed
  moreover have "copy_inv s'" using i(3) k f by (simp add: copy_inv_def)
  ultimately show "cb_inv A B s'" "advances s s'"
    using i(1, 4) d adv k(1) by (simp_all add: cb_inv_def resource_inv_def)
qed

lemma release_group_successors_cb:
  assumes inv: "cb_inv A B s" and r: "release_group_successors E g s = Some (w, s')"
  shows "cb_inv A B s' \<and> advances s s'"
proof -
  have "s' = upd_group g (\<lambda>k. k\<lparr>tg_and_successors := []\<rparr>) s"
    using r by (simp add: release_group_successors_def Let_def)
  then show ?thesis
    using cb_inv_quiet [OF inv static_group_upd [of "\<lambda>k. k\<lparr>tg_and_successors := []\<rparr>" g s]]
    by simp
qed

lemma collect_group_cb:
  assumes inv: "cb_inv A B s" and c: "collect_group g s = (ts, s')"
    and copy: "\<forall>t \<in> set (running_groupable (groups s g)). t \<notin> set (copy_threads s)"
  shows "cb_inv A B s'" "advances s s'" "taken_over ts s'" "ts = running_groupable (groups s g)"
proof -
  have hi: "handler_inv s" using inv by (simp add: cb_inv_def resource_inv_def)
  let ?x = "upd_group g (\<lambda>k. k\<lparr>running_groupable := [],
    running_ordered := (if tg_ordered k then drop (length ts) (running_ordered k)
                        else running_ordered k), callback_started := False\<rparr>) s"
  have s': "sched_core s' = sched_core ?x" and ts: "ts = running_groupable (groups s g)"
    using c by (auto simp: collect_group_def Let_def log_call_def sched_core_def upd_group_def)
  have st: "static ?x = static s" by (rule static_group_upd) simp
  have x: "cb_inv A B ?x" "advances s ?x"
    by (rule cb_inv_quiet [OF inv st]; auto dest: in_set_dropD)+
  then show "cb_inv A B s'" "advances s s'"
    using cb_inv_core [OF s'] advances_core_right [OF s'] by simp_all
  have "taken_over ts ?x"
    unfolding taken_over_def
  proof (intro conjI ballI allI)
    show "distinct ts" using handler_invD(4) [OF hi] by (simp add: ts)
    fix t assume "t \<in> set ts"
    note t = this [unfolded ts] and k = handler_invD(3) [OF hi this [unfolded ts]]
    show "t < n_tasks ?x" "live (tasks ?x t)" "groupable (tasks ?x t)" using k by simp_all
    show "t \<notin> set (copy_threads ?x)" using copy t by simp
    show "t \<notin> set (running_groupable (groups ?x g'))" for g'
      using k handler_invD(3) [OF hi, of t g'] by auto
  qed
  then show "taken_over ts s'"
    unfolding taken_over_def core_eq_fields(2, 11) [OF s'] core_eq_live(1) [OF s']
      core_eq_task_fields(8, 13) [OF s'] .
  show "ts = running_groupable (groups s g)" by (rule ts)
qed

text \<open>The group's handler fires: it leaves the list of handlers and runs.\<close>

lemma handle_group_signal_cb:
  assumes inv: "cb_inv A B s" and h: "handlers s = hs1 @ HandleGroup sg g # hs2"
    and copy: "\<forall>t \<in> set (running_groupable (groups s g)). t \<notin> set (copy_threads s)"
    and d: "handle_group_signal E g (s\<lparr>handlers := hs1 @ hs2\<rparr>) = Some (w, s')"
  shows "cb_inv A B s'" and "advances s s'"
proof -
  let ?pre = "s\<lparr>handlers := hs1 @ hs2\<rparr>"
  have pre: "cb_inv A B ?pre" "advances s ?pre"
    by (rule cb_inv_quiet [OF inv]; use h in auto)+
  obtain ts s1 where 1: "collect_group g ?pre = (ts, s1)" by fastforce
  note a = collect_group_cb [OF pre(1) 1]
  obtain s2 where 2: "complete_group_tasks E ts s1 = Some s2"
    using d by (auto simp: handle_group_signal_def 1 bind_eq_Some_conv)
  obtain w1 s3 where 3: "(if ts \<noteq> [] then doProgress E (last ts) s2 else Some (NoWait, s2)) = Some (w1, s3)"
    using d by (auto simp: handle_group_signal_def 1 2 bind_eq_Some_conv)
  let ?s4 = "upd_group g (\<lambda>k. k\<lparr>task_count := task_count k - of_nat (length ts)\<rparr>) s3"
  have 4: "(if w1 \<noteq> NoWait then Some (w1, s3)
      else if dep_sync ?s4 = ATL_SYNC_CALLBACK \<and> task_count (groups ?s4 g) = 0
           then release_group_successors E g ?s4 else Some (NoWait, ?s4)) = Some (w, s')"
    using d by (simp only: handle_group_signal_def 1 2 3 Let_def prod.case bind.bind_lunit)
  have b: "cb_inv A B s2" "advances s1 s2" using complete_group_tasks_cb [OF _ _ 2] a copy by simp_all
  have c: "cb_inv A B s3" "advances s2 s3"
    using 3 b doProgress_cb [of A B s2 E] advances_refl by (auto split: if_splits)
  have st: "static ?s4 = static s3" by (rule static_group_upd) simp
  have e: "cb_inv A B ?s4" "advances s3 ?s4"
    by (rule cb_inv_quiet [OF c(1) st]; simp)+
  have "cb_inv A B s' \<and> advances s3 s'"
  proof (cases "w1 = NoWait")
    case False
    then show ?thesis using 4 c(1) advances_refl by simp
  next
    case True
    then have "release_group_successors E g ?s4 = Some (w, s') \<or> s' = ?s4"
      using 4 by (simp split: if_splits)
    then show ?thesis
      using e release_group_successors_cb [OF e(1)] advances_trans [OF e(2)] by blast
  qed
  moreover have "advances s s3"
    using advances_trans [OF advances_trans [OF advances_trans [OF pre(2) a(2)]]] b(2) c(2) copy
    by simp
  ultimately show "cb_inv A B s'" "advances s s'" using advances_trans by blast+
qed

end
