(* ===== verification/Sched_Calls.thy ===== *)
theory Sched_Calls
  imports Sched_Groups
begin

text \<open>
  The calls of the application keep the invariants of the callback mode: creating, launching and
  activating tasks, copies, task groups, and what a waiting thread does when its wait is over.
\<close>

section \<open>The tables\<close>

text \<open>
  Between two calls of the application a task without a group is a template that has not been
  activated, and groups are where the table says.
\<close>

definition table_inv :: "rt_state \<Rightarrow> bool" where
  "table_inv s \<longleftrightarrow>
     (\<forall>i < length (AllTaskgroups s). AllTaskgroups s ! i \<in> {None, Some i}) \<and>
     (\<forall>t < n_tasks s. \<forall>g. tk_group (tasks s t) = Some g \<longrightarrow> g < length (AllTaskgroups s))"

definition templates_inv :: "rt_state \<Rightarrow> bool" where
  "templates_inv s \<longleftrightarrow>
     (\<forall>t < n_tasks s. state_of s t = ATMI_UNINITIALIZED \<longrightarrow> tk_group (tasks s t) = None)"

lemma table_inv_static: "static s' = static s \<Longrightarrow> table_inv s' = table_inv s"
  using static_fields(2, 5, 7) [of s' s] by (simp add: table_inv_def)

lemma templates_inv_advances:
  assumes "advances s s'" and "templates_inv s"
  shows "templates_inv s'"
proof -
  have "state_of s t = ATMI_UNINITIALIZED" if "state_of s' t = ATMI_UNINITIALIZED" for t
  proof -
    have "state_of s t \<le> ATMI_UNINITIALIZED" using assms(1) that unfolding advances_def by metis
    then show ?thesis by (cases "state_of s t") (simp_all add: state_order)
  qed
  then show ?thesis
    using assms advances_task_fields(2, 5) [OF assms(1)] unfolding templates_inv_def by auto
qed

lemma getTaskImpl_bound: "getTaskImpl s h = Some (Some t) \<Longrightarrow> t < n_tasks s"
  by (auto simp: getTaskImpl_def Let_def split: if_splits)

lemma getTaskgroupImpl_bound:
  assumes "table_inv s" and "getTaskgroupImpl s h = Some g"
  shows "g < length (AllTaskgroups s)"
  using assms unfolding table_inv_def getTaskgroupImpl_def by (fastforce split: if_splits)

lemma required_tasks_bound: "required_tasks s hs = Some ps \<Longrightarrow> p \<in> set ps \<Longrightarrow> p < n_tasks s"
  by (induction hs arbitrary: ps)
     (auto simp: bind_eq_Some_conv getTaskImpl_bound split: option.splits)

lemma required_tasks_nonnull_bound:
  "required_tasks_nonnull s hs = Some ps \<Longrightarrow> p \<in> set ps \<Longrightarrow> p < n_tasks s"
  by (induction hs arbitrary: ps) (auto simp: bind_eq_Some_conv getTaskImpl_bound)

section \<open>A task joins\<close>

text \<open>
  \<open>joins t s s'\<close>: the state \<open>s'\<close> is \<open>s\<close> with the task \<open>t\<close>, new or a template so far, set up for a
  launch: not yet linked, its predecessors given, in its group's lists.
\<close>

definition joins :: "tid \<Rightarrow> rt_state \<Rightarrow> rt_state \<Rightarrow> bool" where
  "joins t s s' \<longleftrightarrow>
     (t = n_tasks s \<and> n_tasks s' = Suc (n_tasks s) \<and> and_successors (tasks s' t) = [] \<or>
      t < n_tasks s \<and> n_tasks s' = n_tasks s \<and> state_of s t = ATMI_UNINITIALIZED \<and>
        tk_group (tasks s t) = None \<and> and_successors (tasks s' t) = and_successors (tasks s t)) \<and>
     state_of s' t = ATMI_UNINITIALIZED \<and> num_predecessors (tasks s' t) = 0 \<and>
     (\<forall>p \<in> set (predecessors (tasks s' t)). p < n_tasks s') \<and>
     (\<forall>x. x \<noteq> t \<longrightarrow> tasks s' x = tasks s x) \<and>
     (\<forall>g. tg_ordered (groups s' g) = tg_ordered (groups s g) \<and>
        running_groupable (groups s' g) = running_groupable (groups s g) \<and>
        set (running_ordered (groups s' g)) \<subseteq> set (running_ordered (groups s g)) \<union>
          (if tg_ordered (groups s g) \<and> tk_group (tasks s' t) = Some g then {t} else {})) \<and>
     (\<forall>g. tk_group (tasks s' t) = Some g \<longrightarrow> g < length (AllTaskgroups s)) \<and>
     dep_sync s' = dep_sync s \<and> kernels s' = kernels s \<and> n_impls s' = n_impls s \<and>
     impls s' = impls s \<and> ReadyTaskQueue s' = ReadyTaskQueue s \<and>
     FreeSignalPool s' = FreeSignalPool s \<and> handlers s' = handlers s \<and>
     copy_threads s' = copy_threads s \<and> AllTaskgroups s' = AllTaskgroups s \<and>
     (\<forall>g. created_tasks (groups s' g) = created_tasks (groups s g) \<and>
        dispatched_tasks (groups s' g) = dispatched_tasks (groups s g) \<and>
        dispatched_sink (groups s' g) = dispatched_sink (groups s g) \<and>
        first_dispatched (groups s' g) = first_dispatched (groups s g))"

lemma joins_task_sum:
  fixes f :: "TaskImpl \<Rightarrow> 'a::comm_monoid_add"
  assumes j: "joins t s s'"
    and new: "\<And>k. and_successors k = [] \<Longrightarrow> tk_state k = ATMI_UNINITIALIZED \<Longrightarrow> f k = 0"
    and old: "\<And>k k'. tk_state k = ATMI_UNINITIALIZED \<Longrightarrow> tk_state k' = ATMI_UNINITIALIZED \<Longrightarrow>
      and_successors k = and_successors k' \<Longrightarrow> f k = f k'"
  shows "task_sum f s' = task_sum f s"
proof -
  have st: "state_of s' t = ATMI_UNINITIALIZED" and oth: "\<And>x. x \<noteq> t \<Longrightarrow> tasks s' x = tasks s x"
    using j by (simp_all add: joins_def)
  consider "t = n_tasks s" "n_tasks s' = Suc (n_tasks s)" "and_successors (tasks s' t) = []"
    | "n_tasks s' = n_tasks s" "state_of s t = ATMI_UNINITIALIZED"
      "and_successors (tasks s' t) = and_successors (tasks s t)"
    using j unfolding joins_def by blast
  then show ?thesis
  proof cases
    case 1
    then show ?thesis using task_sum_new [of s' s f] oth new [OF 1(3) st] by simp
  next
    case 2
    have "f (tasks s' x) = f (tasks s x)" for x
      using old [OF st 2(2, 3)] oth by (cases "x = t") auto
    then show ?thesis by (intro task_sum_cong) (simp_all add: 2)
  qed
qed

lemma joins_not_running:
  assumes j: "joins t s s'" and inv: "cb_inv A B s"
  shows "t \<notin> set (running_groupable (groups s g))" "HandleTask sg t \<notin> set (handlers s)"
    "t \<notin> set (copy_threads s)" "t \<notin> set (ReadyTaskQueue s)" "t \<notin> set (running_ordered (groups s g))"
    "p < n_tasks s \<Longrightarrow> t \<notin> set (and_successors (tasks s p))"
proof -
  have i: "handler_inv s" "dep_inv {} s" "copy_inv s"
    using inv by (simp_all add: cb_inv_def resource_inv_def)
  have u: "\<not> t < n_tasks s \<or> t < n_tasks s \<and> state_of s t = ATMI_UNINITIALIZED \<and> tk_group (tasks s t) = None"
    using j by (auto simp: joins_def)
  show "t \<notin> set (running_groupable (groups s g))" "HandleTask sg t \<notin> set (handlers s)"
    using u handler_invD(1) [OF i(1), of sg t] handler_invD(3) [OF i(1), of t g]
    by (auto simp: live_def)
  show "t \<notin> set (copy_threads s)" using u i(3) by (auto simp: copy_inv_def)
  show "t \<notin> set (ReadyTaskQueue s)" using u dep_invD(5) [OF i(2), of t] by (auto simp: state_order)
  show "t \<notin> set (running_ordered (groups s g))" using u dep_invD(7) [OF i(2), of t g] by auto
  show "t \<notin> set (and_successors (tasks s p))" if "p < n_tasks s"
    using u dep_invD(2) [OF i(2) that, of t] by (auto simp: state_order)
qed

lemma joins_resource:
  assumes j: "joins t s s'" and inv: "cb_inv A B s"
  shows "resource_inv A B s'"
proof -
  have i: "signal_inv A s" "segment_inv B s" "handler_inv s"
    using inv by (simp_all add: cb_inv_def resource_inv_def)
  have f: "FreeSignalPool s' = FreeSignalPool s" "kernels s' = kernels s" "n_impls s' = n_impls s"
    "impls s' = impls s" "handlers s' = handlers s" "n_tasks s \<le> n_tasks s'"
    "\<And>g. running_groupable (groups s' g) = running_groupable (groups s g)"
    "\<And>x. x \<noteq> t \<Longrightarrow> tasks s' x = tasks s x"
    using j by (auto simp: joins_def)
  have "task_sum sig_of s' = task_sum sig_of s"
    by (rule joins_task_sum [OF j]) (simp_all add: sig_of_def active_iff)
  then have "signal_inv A s'" using i(1) f by (simp add: signal_inv_def)
  moreover have "task_sum (seg_of ks p) s' = task_sum (seg_of ks p) s" for ks p
    by (rule joins_task_sum [OF j]) (simp_all add: seg_of_def active_iff)
  then have "segment_inv B s'" using i(2) f by (simp add: segment_inv_def)
  moreover have "handler_inv s'"
    unfolding handler_inv_def f(5, 7)
  proof (intro conjI allI impI)
    fix sg x assume x: "HandleTask sg x \<in> set (handlers s)"
    have "x \<noteq> t" using x joins_not_running(2) [OF j inv, of sg] by blast
    then show "x < n_tasks s'" "live (tasks s' x)" "\<not> groupable (tasks s' x)"
      "tk_signal (tasks s' x) = sg"
      using handler_invD(1) [OF i(3) x] f(6, 8) by simp_all
  next
    fix g x assume x: "x \<in> set (running_groupable (groups s g))"
    have "x \<noteq> t" using x joins_not_running(1) [OF j inv, of g] by blast
    then show "x < n_tasks s'" "live (tasks s' x)" "groupable (tasks s' x)"
      "tk_group (tasks s' x) = Some g"
      using handler_invD(3) [OF i(3) x] f(6, 8) by simp_all
  qed (use handler_invD(2, 4) [OF i(3)] in simp_all)
  ultimately show ?thesis by (simp add: resource_inv_def)
qed

lemma joins_dep:
  assumes j: "joins t s s'" and inv: "cb_inv A B s"
  shows "dep_inv {} s'"
proof -
  have d: "dep_inv {} s" using inv by (simp add: cb_inv_def)
  have f: "state_of s' t = ATMI_UNINITIALIZED" "num_predecessors (tasks s' t) = 0"
    "\<forall>p \<in> set (predecessors (tasks s' t)). p < n_tasks s'"
    "\<And>x. x \<noteq> t \<Longrightarrow> tasks s' x = tasks s x" "ReadyTaskQueue s' = ReadyTaskQueue s"
    "n_tasks s \<le> n_tasks s'" "t < n_tasks s'"
    "\<And>g. tg_ordered (groups s' g) = tg_ordered (groups s g)"
    "\<And>g. set (running_ordered (groups s' g)) \<subseteq> set (running_ordered (groups s g)) \<union>
          (if tg_ordered (groups s g) \<and> tk_group (tasks s' t) = Some g then {t} else {})"
    using j by (auto simp: joins_def)
  have old: "u < n_tasks s" if "u < n_tasks s'" "u \<noteq> t" for u using that j by (auto simp: joins_def)
  have suc: "set (and_successors (tasks s' p)) \<subseteq> (if p < n_tasks s then set (and_successors (tasks s p)) else {})"
    if "p < n_tasks s'" for p
    using j that by (cases "p = t") (auto simp: joins_def less_Suc_eq)
  have sucs: "set (and_successors (tasks s p)) \<subseteq> set (and_successors (tasks s' p))" if "p < n_tasks s" for p
    using j that by (cases "p = t") (auto simp: joins_def)
  have st: "state_of s' p = state_of s p" if "p < n_tasks s" for p
    using j that by (cases "p = t") (auto simp: joins_def)
  have pend: "pend u s' = pend u s" for u
    unfolding pend_def by (rule joins_task_sum [OF j]) (simp_all add: pend_of_def)
  have none: "pend t s = 0"
    unfolding pend_def task_sum_def
  proof (rule sum.neutral, intro ballI)
    fix p assume "p \<in> {..<n_tasks s}"
    then show "pend_of t (tasks s p) = 0"
      using joins_not_running(6) [OF j inv, of p] by (simp add: pend_of_def count_list_0_iff)
  qed
  have carry: "linked s u \<Longrightarrow> linked s' u" "preds_done s u \<Longrightarrow> preds_done s' u"
    if "u < n_tasks s" "u \<noteq> t" for u
    using dep_invD(3) [OF d that(1)] sucs st f(4) [OF that(2)]
    unfolding linked_def preds_done_def by (metis subsetD)+
  have io: "in_unordered s' u = in_unordered s u" if "u \<noteq> t" for u
    using f(4) [OF that] f(8) by (simp add: in_unordered_def split: option.split)
  show ?thesis
    unfolding dep_inv_def
  proof (intro conjI allI impI ballI)
    fix u assume u: "u < n_tasks s'"
    show "int (pend u s') \<le> num_predecessors (tasks s' u)"
      using pend none f(2) dep_invD(1) [OF d old [OF u]] f(4) by (cases "u = t") auto
    show "p < n_tasks s'" if "p \<in> set (predecessors (tasks s' u))" for p
      using that f(3, 4) f(6) dep_invD(3) [OF d old [OF u], of p] by (cases "u = t") auto
    show "linked s' u" if "ATMI_INITIALIZED \<le> state_of s' u"
    proof -
      have ne: "u \<noteq> t" using that f(1) by (auto simp: state_order)
      then show ?thesis using carry(1) [OF old [OF u ne] ne] dep_invD(4) [OF d old [OF u ne]] that f(4)
        by simp
    qed
    show "preds_done s' u" if "ATMI_READY \<le> state_of s' u" "in_unordered s' u"
    proof -
      have ne: "u \<noteq> t" using that f(1) by (auto simp: state_order)
      then show ?thesis
        using carry(2) [OF old [OF u ne] ne] dep_invD(6) [OF d old [OF u ne]] that f(4) io by simp
    qed
  next
    fix p u assume p: "p < n_tasks s'" and u: "u \<in> set (and_successors (tasks s' p))"
    then have "p < n_tasks s" "u \<in> set (and_successors (tasks s p))"
      using suc [OF p] by (auto split: if_splits)
    then have "u < n_tasks s \<and> ATMI_INITIALIZED \<le> state_of s u" using dep_invD(2) [OF d] by blast
    then show "u < n_tasks s'" "u \<in> {} \<or> ATMI_INITIALIZED \<le> state_of s' u" using f(6) st by auto
  next
    fix u assume u: "u \<in> set (ReadyTaskQueue s')"
    then have ne: "u \<noteq> t" using joins_not_running(4) [OF j inv] f(5) by auto
    have "u < n_tasks s \<and> ATMI_INITIALIZED \<le> state_of s u \<and> preds_done s u"
      using dep_invD(5) [OF d] u f(5) by simp
    then show "u < n_tasks s'" "ATMI_INITIALIZED \<le> state_of s' u" "preds_done s' u"
      using f(6) st carry(2) [OF _ ne] by auto
  next
    fix g u assume "u \<in> set (running_ordered (groups s' g))"
    then have "u \<in> set (running_ordered (groups s g)) \<or>
        u = t \<and> tg_ordered (groups s g) \<and> tk_group (tasks s' t) = Some g"
      using f(9) [of g] by (auto split: if_splits)
    then have "u < n_tasks s' \<and> tk_group (tasks s' u) = Some g \<and> tg_ordered (groups s' g)"
      using dep_invD(7) [OF d, of u g] joins_not_running(5) [OF j inv, of g] f(4, 6, 7, 8)
      by (cases "u = t") auto
    then show "u < n_tasks s'" "tk_group (tasks s' u) = Some g" "tg_ordered (groups s' g)" by simp_all
  qed
qed

lemma joins_cb:
  assumes j: "joins t s s'" and inv: "cb_inv A B s"
  shows "cb_inv A B s'" and "dispatchable s' t"
proof -
  have "copy_inv s'"
    using inv joins_not_running(3) [OF j inv] j unfolding cb_inv_def copy_inv_def joins_def
    by (metis less_Suc_eq)
  moreover have "dep_sync s' = dep_sync s" using j by (simp add: joins_def)
  ultimately show "cb_inv A B s'"
    using joins_dep [OF j inv] joins_resource [OF j inv] inv by (simp add: cb_inv_def)
  show "dispatchable s' t"
    using j by (auto simp: joins_def dispatchable_def state_order)
qed

lemma joins_table:
  assumes j: "joins t s s'" and "table_inv s"
  shows "table_inv s'"
  using assms by (auto simp: joins_def table_inv_def) (metis less_Suc_eq)+

section \<open>Constructing tasks\<close>

lemma joins_upd_group:
  assumes "joins t s s1"
    and "\<And>k. tg_ordered (f k) = tg_ordered k" "\<And>k. running_groupable (f k) = running_groupable k"
      "\<And>k. running_ordered (f k) = running_ordered k" "\<And>k. created_tasks (f k) = created_tasks k"
      "\<And>k. dispatched_tasks (f k) = dispatched_tasks k"
      "\<And>k. dispatched_sink (f k) = dispatched_sink k"
      "\<And>k. first_dispatched (f k) = first_dispatched k"
  shows "joins t s (upd_group a f s1)"
proof -
  have "tg_ordered (groups (upd_group a f s1) g) = tg_ordered (groups s1 g)"
    "running_groupable (groups (upd_group a f s1) g) = running_groupable (groups s1 g)"
    "running_ordered (groups (upd_group a f s1) g) = running_ordered (groups s1 g)"
    "created_tasks (groups (upd_group a f s1) g) = created_tasks (groups s1 g)"
    "dispatched_tasks (groups (upd_group a f s1) g) = dispatched_tasks (groups s1 g)"
    "dispatched_sink (groups (upd_group a f s1) g) = dispatched_sink (groups s1 g)"
    "first_dispatched (groups (upd_group a f s1) g) = first_dispatched (groups s1 g)" for g
    using assms(2-8) by simp_all
  then show ?thesis using assms(1) unfolding joins_def by simp
qed

lemma join_group_joins:
  assumes j: "joins t s s1" and g: "groups s1 = groups s" and join: "join_group t s1 = Some s'"
  shows "joins t s s'"
proof -
  obtain a where a: "tk_group (tasks s1 t) = Some a" using join by (auto simp: join_group_def bind_eq_Some_conv)
  let ?x = "if tg_ordered (groups s a) then
                  upd_task t (\<lambda>k. k\<lparr>prev_ordered := last_task (groups s a)\<rparr>)
                    (upd_group a (\<lambda>k. k\<lparr>running_ordered := running_ordered k @ [t],
                                       last_task := Some t\<rparr>) s1)
                else upd_group a (\<lambda>k. k\<lparr>running_default := running_default k @ [t]\<rparr>) s1"
  have s': "s' = (if groupable (tasks ?x t) then upd_group a (\<lambda>k. k\<lparr>task_count := task_count k + 1\<rparr>) ?x else ?x)"
    using join by (simp only: join_group_def a g Let_def bind.bind_lunit option.inject)
  have "joins t s ?x" using j a g unfolding joins_def by auto
  then show ?thesis unfolding s' using joins_upd_group [of t s ?x] by (simp split del: if_split) simp
qed

lemma getTaskgroupImpl_table: "AllTaskgroups s' = AllTaskgroups s \<Longrightarrow> getTaskgroupImpl s' h = getTaskgroupImpl s h"
  by (simp add: getTaskgroupImpl_def)

text \<open>A new task object is a task that joins without a group; so is a template.\<close>

lemma new_task_joins:
  assumes "new_task k s = (t, s')" and "tk_state k = ATMI_UNINITIALIZED" "and_successors k = []"
    "num_predecessors k = 0" "predecessors k = []" "tk_group k = None"
  shows "joins t s s'" "t = n_tasks s" "groups s' = groups s" "AllTaskgroups s' = AllTaskgroups s"
    "n_tasks s' = Suc (n_tasks s)" "tasks s' t = k\<lparr>tk_id := tk_id (tasks s' t)\<rparr>"
  using assms by (auto simp: new_task_def Let_def joins_def)

lemma template_joins:
  assumes "t < n_tasks s" and "state_of s t = ATMI_UNINITIALIZED" "tk_group (tasks s t) = None"
  shows "joins t s (upd_task t (\<lambda>k. k\<lparr>tk_kernel_id := i, num_predecessors := 0, predecessors := []\<rparr>) s)"
  using assms by (auto simp: joins_def)

lemma joins_setup:
  assumes j: "joins t s (upd_task t g s1)" and gr: "groups s1 = groups s"
    and g: "\<And>k. tk_state (g k) = tk_state k" "\<And>k. and_successors (g k) = and_successors k"
    and f: "\<And>k. tk_state (f k) = tk_state k" "\<And>k. and_successors (f k) = and_successors k"
      "num_predecessors (f (tasks s1 t)) = 0"
      "\<And>p. p \<in> set (predecessors (f (tasks s1 t))) \<Longrightarrow> p < n_tasks s1"
      "\<And>a. tk_group (f (tasks s1 t)) = Some a \<Longrightarrow> a < length (AllTaskgroups s)"
  shows "joins t s (upd_task t f s1)"
proof -
  have "tk_state (tasks s1 t) = ATMI_UNINITIALIZED" using j g(1) by (simp add: joins_def)
  then show ?thesis
    using j g f gr unfolding joins_def by simp
qed

lemma setParams_joins:
  assumes tab: "table_inv s" and g: "groups s1 = groups s" "AllTaskgroups s1 = AllTaskgroups s"
    and j: "joins t s (upd_task t (\<lambda>k. k\<lparr>num_predecessors := 0, predecessors := []\<rparr>) s1)"
    and p: "setParams t lparm s1 = Some s'"
  shows "joins t s s'"
proof -
  obtain i preds where req: "required_tasks s1 (lp_requires lparm) = Some preds"
    and join: "join_group t (upd_task t (set_launch_params s1 (impls s1 i) lparm preds) s1) = Some s'"
    using p by (auto simp: setParams_def bind_eq_Some_conv)
  let ?s2 = "upd_task t (set_launch_params s1 (impls s1 i) lparm preds) s1"
  have "p < n_tasks s1" if "p \<in> set preds" for p using required_tasks_bound [OF req that] .
  moreover have "g < length (AllTaskgroups s)" if "getTaskgroupImpl s1 (lp_group lparm) = Some g" for g
    using that getTaskgroupImpl_bound [OF tab] getTaskgroupImpl_table [OF g(2)] by simp
  ultimately have "joins t s ?s2"
    using joins_setup [OF j g(1), of "set_launch_params s1 (impls s1 i) lparm preds"]
    by (simp add: set_launch_params_def)
  from join_group_joins [OF this _ join] show ?thesis using g(1) by simp
qed

lemma new_TaskImpl_fields [simp]:
  "tk_state (new_TaskImpl ty) = ATMI_UNINITIALIZED" "and_successors (new_TaskImpl ty) = []"
  "num_predecessors (new_TaskImpl ty) = 0" "predecessors (new_TaskImpl ty) = []"
  "tk_group (new_TaskImpl ty) = None" "tk_type (new_TaskImpl ty) = ty"
  by (simp_all add: new_TaskImpl_def)

lemma new_ComputeTaskImpl_joins:
  assumes "table_inv s" and "new_ComputeTaskImpl lparm k_id kernel_id s = Some (t, s')"
  shows "joins t s s'" "t = n_tasks s"
proof -
  let ?k = "(new_TaskImpl ATL_KERNEL_EXECUTION)\<lparr>tk_kernel := k_id, tk_kernel_id := word_of_int kernel_id\<rparr>"
  obtain s1 where n: "new_task ?k s = (t, s1)" and p: "setParams t lparm s1 = Some s'"
    using assms(2) by (auto simp: new_ComputeTaskImpl_def bind_eq_Some_conv split: prod.splits)
  note j = new_task_joins [OF n, simplified]
  have "joins t s (upd_task t (\<lambda>k. k\<lparr>num_predecessors := 0, predecessors := []\<rparr>) s1)"
    by (rule joins_setup [of t s "\<lambda>k. k"]) (use j(1, 3) in \<open>simp_all add: joins_def upd_task_def\<close>)
  from setParams_joins [OF assms(1) j(3, 4) this p] show "joins t s s'" .
  show "t = n_tasks s" by (rule j(2))
qed

lemma createComputeTaskImpl_joins:
  assumes "table_inv s" and "createComputeTaskImpl lparm k_id s = Some (r, s')"
  shows "r = None \<and> s' = s \<or> (\<exists>t. r = Some t \<and> joins t s s' \<and> t = n_tasks s)"
  using assms(2) new_ComputeTaskImpl_joins [OF assms(1)]
  by (auto simp: createComputeTaskImpl_def bind_eq_Some_conv split: option.splits if_splits)

lemma new_DataTaskImpl_joins:
  assumes tab: "table_inv s" and d: "new_DataTaskImpl lparm dest src sz s = Some (t, s')"
  shows "joins t s s'" "t = n_tasks s"
proof -
  let ?k = "(new_TaskImpl ATL_DATA_MOVEMENT)\<lparr>data_dest_ptr := dest, data_src_ptr := src, data_size := sz\<rparr>"
  obtain s1 preds where n: "new_task ?k s = (t, s1)"
    and req: "required_tasks_nonnull s1 (cp_requires lparm) = Some preds"
    and join: "join_group t (upd_task t (set_copy_params s1 lparm preds) s1) = Some s'"
    using d by (auto simp: new_DataTaskImpl_def bind_eq_Some_conv split: prod.splits)
  note j = new_task_joins [OF n, simplified]
  let ?s2 = "upd_task t (set_copy_params s1 lparm preds) s1"
  have "p < n_tasks s1" if "p \<in> set preds" for p using required_tasks_nonnull_bound [OF req that] .
  moreover have "g < length (AllTaskgroups s)" if "getTaskgroupImpl s1 (cp_group lparm) = Some g" for g
    using that getTaskgroupImpl_bound [OF tab] getTaskgroupImpl_table [OF j(4)] by simp
  ultimately have "joins t s ?s2" using j(1, 3) unfolding joins_def by (auto simp: set_copy_params_def)
  from join_group_joins [OF this _ join] show "joins t s s'" using j(3) by simp
  show "t = n_tasks s" by (rule j(2))
qed

definition enrols :: "tid \<Rightarrow> rt_state \<Rightarrow> rt_state \<Rightarrow> bool" where
  "enrols t s s' \<longleftrightarrow>
     (\<forall>g. task_count (groups s' g) = task_count (groups s g) +
        (if tk_group (tasks s' t) = Some g \<and> groupable (tasks s' t) then 1 else 0)) \<and>
     (\<forall>g. set (running_default (groups s g)) \<subseteq> set (running_default (groups s' g))) \<and>
     (\<forall>g. tk_group (tasks s' t) = Some g \<longrightarrow> \<not> tg_ordered (groups s g) \<longrightarrow>
        t \<in> set (running_default (groups s' g)))"

lemma join_group_enrols:
  assumes g: "groups s1 = groups s" and join: "join_group t s1 = Some s'"
  shows "enrols t s s'"
proof -
  obtain a where a: "tk_group (tasks s1 t) = Some a" using join by (auto simp: join_group_def bind_eq_Some_conv)
  define x where "x = (if tg_ordered (groups s a) then
                  upd_task t (\<lambda>k. k\<lparr>prev_ordered := last_task (groups s a)\<rparr>)
                    (upd_group a (\<lambda>k. k\<lparr>running_ordered := running_ordered k @ [t],
                                       last_task := Some t\<rparr>) s1)
                else upd_group a (\<lambda>k. k\<lparr>running_default := running_default k @ [t]\<rparr>) s1)"
  have s': "s' = (if groupable (tasks x t) then upd_group a (\<lambda>k. k\<lparr>task_count := task_count k + 1\<rparr>) x else x)"
    using join unfolding x_def by (simp only: join_group_def a g Let_def bind.bind_lunit option.inject)
  have x: "tk_group (tasks x t) = Some a" "groupable (tasks x t) = groupable (tasks s1 t)"
    "\<And>g'. task_count (groups x g') = task_count (groups s g')"
    "\<And>g'. set (running_default (groups s g')) \<subseteq> set (running_default (groups x g'))"
    "\<not> tg_ordered (groups s a) \<Longrightarrow> t \<in> set (running_default (groups x a))"
    unfolding x_def using a g by auto
  have y: "tasks s' = tasks x"
    "\<And>g'. task_count (groups s' g') = task_count (groups x g') +
       (if g' = a \<and> groupable (tasks x t) then 1 else 0)"
    "\<And>g'. running_default (groups s' g') = running_default (groups x g')"
    unfolding s' by simp_all
  show ?thesis unfolding enrols_def y using x by auto
qed

lemma new_task_groups: "new_task k s = (t, s') \<Longrightarrow> groups s' = groups s"
  by (auto simp: new_task_def Let_def)

lemma setParams_enrols:
  assumes "groups s1 = groups s" and "setParams t lparm s1 = Some s'"
  shows "enrols t s s'"
proof -
  obtain i preds where
    "join_group t (upd_task t (set_launch_params s1 (impls s1 i) lparm preds) s1) = Some s'"
    using assms(2) by (auto simp: setParams_def bind_eq_Some_conv)
  from join_group_enrols [OF _ this] assms(1) show ?thesis by simp
qed

lemma createComputeTaskImpl_enrols:
  assumes "createComputeTaskImpl lparm k_id s = Some (Some t, s')"
  shows "enrols t s s'"
proof -
  obtain i k s1 where n: "new_task k s = (t, s1)" and p: "setParams t lparm s1 = Some s'"
    using assms
    by (auto simp: createComputeTaskImpl_def new_ComputeTaskImpl_def bind_eq_Some_conv
        split: option.splits if_splits prod.splits)
  show ?thesis by (rule setParams_enrols [OF new_task_groups [OF n] p])
qed

lemma new_DataTaskImpl_enrols:
  assumes "new_DataTaskImpl lparm dest src sz s = Some (t, s')"
  shows "enrols t s s'"
proof -
  obtain k s1 preds where n: "new_task k s = (t, s1)"
    and join: "join_group t (upd_task t (set_copy_params s1 lparm preds) s1) = Some s'"
    using assms by (auto simp: new_DataTaskImpl_def bind_eq_Some_conv split: prod.splits)
  from join_group_enrols [OF _ join] new_task_groups [OF n] show ?thesis by simp
qed

text \<open>
  \<open>launches\<close>: what every call that launches a task does. The task joins, its arguments may be
  saved, and the call tries to dispatch it.
\<close>

definition launches :: "hsa_env \<Rightarrow> rt_state \<Rightarrow> wait_for \<Rightarrow> rt_state \<Rightarrow> bool" where
  "launches E s w s' \<longleftrightarrow>
     (\<exists>t s1 s2 args d. joins t s s1 \<and> enrols t s s1 \<and> sched_core s2 = sched_core s1 \<and>
        tryDispatch E t args False s2 = Some (d, w, s'))"

lemma launchesI:
  "joins t s s1 \<Longrightarrow> enrols t s s1 \<Longrightarrow> sched_core s2 = sched_core s1 \<Longrightarrow>
   tryDispatch E t args False s2 = Some (d, w, s') \<Longrightarrow> launches E s w s'"
  unfolding launches_def by blast

lemma LaunchTask_launches:
  assumes tab: "table_inv s" and sync: "dep_sync s = ATL_SYNC_CALLBACK"
    and l: "LaunchTask E lparm k_id args s = Some (h, w, s')"
  shows "s' = s \<and> w = NoWait \<or> launches E s w s'"
proof -
  consider "s' = s" "w = NoWait" | t s1 s2 where "createComputeTaskImpl lparm k_id s = Some (Some t, s1)"
      "save_kernargs t args s1 = Some s2" "tryLaunchKernel E t args s2 = Some (h, w, s')"
    | "createComputeTaskImpl lparm k_id s = Some (None, s')" "w = NoWait"
    using l by (fastforce simp: LaunchTask_def bind_eq_Some_conv split: if_splits option.splits)
  then show ?thesis
  proof cases
    case (2 t s1 s2)
    have j: "joins t s s1" using createComputeTaskImpl_joins [OF tab 2(1)] by auto
    note c = save_kernargs_core [OF 2(2)]
    have "dep_sync s1 = ATL_SYNC_CALLBACK" using j sync by (simp add: joins_def)
    then have "dep_sync s2 = ATL_SYNC_CALLBACK" using core_eq_fields(1) [OF c] by simp
    then obtain d where "tryDispatch E t args False s2 = Some (d, w, s')"
      using 2(3) by (auto simp: tryLaunchKernel_def bind_eq_Some_conv)
    from launchesI [OF j createComputeTaskImpl_enrols [OF 2(1)] c this] show ?thesis by blast
  next
    case 3
    then show ?thesis using createComputeTaskImpl_joins [OF tab] by fastforce
  qed simp
qed

lemma MemcpyAsync_launches:
  assumes tab: "table_inv s" and sync: "dep_sync s = ATL_SYNC_CALLBACK"
    and l: "MemcpyAsync E lparm dest src sz s = Some (h, w, s')"
  shows "launches E s w s'"
proof -
  obtain t s1 where n: "new_DataTaskImpl lparm dest src sz s = Some (t, s1)"
    using l by (auto simp: MemcpyAsync_def bind_eq_Some_conv)
  note j = new_DataTaskImpl_joins(1) [OF tab n]
  have "dep_sync s1 = ATL_SYNC_CALLBACK" using j sync by (simp add: joins_def)
  then obtain d where "tryDispatch E t None False s1 = Some (d, w, s')"
    using l n by (auto simp: MemcpyAsync_def bind_eq_Some_conv Let_def)
  from launchesI [OF j new_DataTaskImpl_enrols [OF n] refl this] show ?thesis .
qed

text \<open>Activating a template that has not been activated: \<open>setParams\<close> sets it up, then it launches.\<close>

lemma ActivateTaskTemplate_launches:
  assumes tab: "table_inv s" and sync: "dep_sync s = ATL_SYNC_CALLBACK" and tmpl: "templates_inv s"
    and l: "ActivateTaskTemplate E h lparm args s = Some (h', w, s')"
    and fresh: "\<forall>t. getTaskImpl s h = Some (Some t) \<longrightarrow> state_of s t = ATMI_UNINITIALIZED"
  shows "s' = s \<and> w = NoWait \<or> launches E s w s'"
proof -
  consider "s' = s" "w = NoWait" | t i s1 where "getTaskImpl s h = Some (Some t)"
      "setParams t lparm (upd_task t (\<lambda>k. k\<lparr>tk_kernel_id := i\<rparr>) s) = Some s1"
      "tryLaunchKernel E t args s1 = Some (h', w, s')"
    using l by (fastforce simp: ActivateTaskTemplate_def bind_eq_Some_conv Let_def
        split: if_splits option.splits)
  then show ?thesis
  proof cases
    case (2 t i s1)
    have t: "t < n_tasks s" "state_of s t = ATMI_UNINITIALIZED"
      using getTaskImpl_bound [OF 2(1)] fresh 2(1) by simp_all
    have "tk_group (tasks s t) = None" using tmpl t by (simp add: templates_inv_def)
    note pre = template_joins [OF t this, of i]
    let ?s1 = "upd_task t (\<lambda>k. k\<lparr>tk_kernel_id := i\<rparr>) s"
    have "upd_task t (\<lambda>k. k\<lparr>num_predecessors := 0, predecessors := []\<rparr>) ?s1 =
        upd_task t (\<lambda>k. k\<lparr>tk_kernel_id := i, num_predecessors := 0, predecessors := []\<rparr>) s"
      by (simp add: upd_task_def)
    then have "joins t s (upd_task t (\<lambda>k. k\<lparr>num_predecessors := 0, predecessors := []\<rparr>) ?s1)"
      using pre by metis
    from setParams_joins [OF tab _ _ this 2(2)] have j: "joins t s s1" by simp
    then have "dep_sync s1 = ATL_SYNC_CALLBACK" using sync by (simp add: joins_def)
    then obtain d where "tryDispatch E t args False s1 = Some (d, w, s')"
      using 2(3) by (auto simp: tryLaunchKernel_def bind_eq_Some_conv)
    from launchesI [OF j setParams_enrols [OF _ 2(2)] refl this] show ?thesis by simp
  qed simp
qed

text \<open>Creating without launching: the task is linked, its arguments are saved, it is initialized.\<close>

definition initializes :: "tid \<Rightarrow> rt_state \<Rightarrow> rt_state \<Rightarrow> bool" where
  "initializes t s s' \<longleftrightarrow>
     (\<exists>w1 s1 w2 s2 s3. link_preds t (predecessors (tasks s t)) s = (w1, s1) \<and>
        link_groups t (pred_groups (tasks s1 t)) s1 = (w2, s2) \<and>
        sched_core s3 = sched_core s2 \<and> s' = set_state t ATMI_INITIALIZED s3)"

lemma link_preds_sync: "dep_sync (snd (link_preds t ps s)) = dep_sync s"
  by (induction ps arbitrary: s) (simp_all add: link_task_def)

lemma link_groups_sync: "dep_sync (snd (link_groups t gs s)) = dep_sync s"
proof (induction gs arbitrary: s)
  case (Cons a gs)
  then show ?case by (cases a) (simp_all add: link_group_def)
qed simp

lemma CreateTask_initializes:
  assumes tab: "table_inv s" and sync: "dep_sync s = ATL_SYNC_CALLBACK"
    and l: "CreateTask lparm k_id args s = Some (h, s')"
  shows "s' = s \<or> (\<exists>t s0. joins t s s0 \<and> enrols t s s0 \<and> initializes t s0 s')"
proof (cases "place_uninitialized s lparm")
  case True
  then show ?thesis using l by (simp add: CreateTask_def)
next
  case False
  obtain r s0 where c: "createComputeTaskImpl lparm k_id s = Some (r, s0)"
    using l False by (auto simp: CreateTask_def bind_eq_Some_conv)
  show ?thesis
  proof (cases r)
    case None
    then show ?thesis using l False c createComputeTaskImpl_joins [OF tab c] by (simp add: CreateTask_def)
  next
    case (Some t)
    have j: "joins t s s0" using createComputeTaskImpl_joins [OF tab c] Some by auto
    obtain w1 s1 where 3: "link_preds t (predecessors (tasks s0 t)) s0 = (w1, s1)" by fastforce
    obtain w2 s2 where 4: "link_groups t (pred_groups (tasks s1 t)) s1 = (w2, s2)" by fastforce
    obtain s3 where 5: "save_kernargs t args s2 = Some s3"
      using l False c Some by (auto simp: CreateTask_def 3 4 bind_eq_Some_conv)
    note e = save_kernargs_core [OF 5]
    have "dep_sync s0 = ATL_SYNC_CALLBACK" using j sync by (simp add: joins_def)
    then have "dep_sync s2 = ATL_SYNC_CALLBACK"
      using link_preds_sync [of t "predecessors (tasks s0 t)" s0]
        link_groups_sync [of t "pred_groups (tasks s1 t)" s1] 3 4 by simp
    then have "dep_sync s3 = ATL_SYNC_CALLBACK" using core_eq_fields(1) [OF e] by simp
    then have "s' = set_state t ATMI_INITIALIZED s3"
      using l False c Some 5 by (auto simp: CreateTask_def 3 4 bind_eq_Some_conv Let_def)
    then have "initializes t s0 s'" using 3 4 e unfolding initializes_def by blast
    then show ?thesis using j createComputeTaskImpl_enrols c Some by blast
  qed
qed

section \<open>The calls\<close>

definition sys_inv :: "signal multiset \<Rightarrow> (impl_ptr \<Rightarrow> nat multiset) \<Rightarrow> rt_state \<Rightarrow> bool" where
  "sys_inv A B s \<longleftrightarrow> cb_inv A B s \<and> table_inv s \<and> templates_inv s"

text \<open>
  No task is forgotten, no task goes back, and what a task was launched with stays.
\<close>

definition ages :: "rt_state \<Rightarrow> rt_state \<Rightarrow> bool" where
  "ages s s' \<longleftrightarrow> n_tasks s \<le> n_tasks s' \<and>
     (\<forall>x < n_tasks s. state_of s x \<le> state_of s' x \<and>
        (ATMI_INITIALIZED \<le> state_of s x \<longrightarrow> static_task (tasks s' x) = static_task (tasks s x)))"

lemma ages_refl: "ages s s"
  by (simp add: ages_def)

lemma ages_trans: "ages s s' \<Longrightarrow> ages s' s'' \<Longrightarrow> ages s s''"
  unfolding ages_def by (metis less_le_trans order_trans)

lemma advances_ages: "advances s s' \<Longrightarrow> ages s s'"
  using advances_task_fields(2) [of s s'] unfolding ages_def advances_def
  by (auto simp: static_def fun_eq_iff)

lemma joins_ages:
  assumes "joins t s s'"
  shows "ages s s'"
proof -
  have "state_of s x \<le> state_of s' x \<and>
      (ATMI_INITIALIZED \<le> state_of s x \<longrightarrow> static_task (tasks s' x) = static_task (tasks s x))"
    if "x < n_tasks s" for x
    using assms that by (cases "x = t") (auto simp: joins_def state_order)
  moreover have "n_tasks s \<le> n_tasks s'" using assms by (auto simp: joins_def)
  ultimately show ?thesis by (simp add: ages_def)
qed

lemma sys_inv_advances:
  assumes "sys_inv A B s" and "cb_inv A B s'" and "advances s s'"
  shows "sys_inv A B s' \<and> ages s s'"
proof -
  have "static s' = static s" using assms(3) by (simp add: advances_def)
  then have "table_inv s'" using table_inv_static [of s' s] assms(1) by (simp add: sys_inv_def)
  then show ?thesis
    using assms templates_inv_advances [OF assms(3)] advances_ages [OF assms(3)]
    by (simp add: sys_inv_def)
qed

lemma tryDispatch_initialized:
  assumes "dep_sync s = ATL_SYNC_CALLBACK" and "dep_inv {} s" "dispatchable s t"
    and td: "tryDispatch E t args isC s = Some (d, w, s')"
  shows "ATMI_INITIALIZED \<le> state_of s' t"
proof -
  have host: "ATMI_INITIALIZED \<le> state_of s1 t"
    if "tryDispatchHostCallback E t args s = Some (b, s1)" for b s1
    using that
  proof (cases rule: tryDispatchHostCallback_cases)
    case busy
    then show ?thesis by (cases "state_of s t") (simp_all add: state_order)
  next
    case (postponed g waiting sd)
    show ?thesis
      using core_eq_task_fields(3) [OF postponed(5), of t] by (simp add: postpone_abs_def Let_def)
  next
    case (granted g impl sd)
    show ?thesis
      using core_eq_task_fields(3) [OF granted(7), of t] by (simp add: grant_abs_fields state_order)
  qed
  show ?thesis
    using assms(1) td
  proof (cases rule: tryDispatch_callback)
    case undispatched
    then show ?thesis using host by blast
  next
    case (dispatched s1 s2)
    note a = tryDispatchHostCallback_dep [OF assms(2, 3) dispatched(1)]
    have "advances s1 s2" using dispatch_dep(2) [OF conjunct1 [OF a] _ dispatched(2)] a by simp
    then have "state_of s1 t \<le> state_of s2 t" by (simp add: advances_def)
    moreover have "state_of s2 t = state_of s' t" using register_fields(2) [OF dispatched(3)] by simp
    ultimately show ?thesis using host [OF dispatched(1)] by (metis order_trans)
  qed
qed

text \<open>A task joins and ends up initialized: the invariants hold between calls again.\<close>

lemma joined_sys:
  assumes inv: "sys_inv A B s" and j: "joins t s s1"
    and cb: "cb_inv A B s2" and adv: "advances s1 s2" and t: "ATMI_INITIALIZED \<le> state_of s2 t"
  shows "sys_inv A B s2 \<and> ages s s2"
proof -
  have tab: "table_inv s2"
    using joins_table [OF j] inv table_inv_static adv unfolding sys_inv_def advances_def by blast
  have "tk_group (tasks s2 x) = None"
    if x: "x < n_tasks s2" "state_of s2 x = ATMI_UNINITIALIZED" for x
  proof -
    have ne: "x \<noteq> t" using x(2) t by (auto simp: state_order)
    have "state_of s1 x \<le> ATMI_UNINITIALIZED" using adv x(2) unfolding advances_def by metis
    then have u: "state_of s1 x = ATMI_UNINITIALIZED" by (cases "state_of s1 x") (simp_all add: state_order)
    have "x < n_tasks s" "tasks s1 x = tasks s x"
      using j x(1) ne advances_task_fields(2) [OF adv] by (auto simp: joins_def less_Suc_eq)
    then have "tk_group (tasks s1 x) = None" using inv u by (simp add: sys_inv_def templates_inv_def)
    then show ?thesis using advances_task_fields(5) [OF adv] by simp
  qed
  then have "templates_inv s2" by (simp add: templates_inv_def)
  then show ?thesis
    using cb tab ages_trans [OF joins_ages [OF j] advances_ages [OF adv]] by (simp add: sys_inv_def)
qed

lemma launch_sys:
  assumes inv: "sys_inv A B s" and j: "joins t s s1" and c: "sched_core s2 = sched_core s1"
    and td: "tryDispatch E t args isC s2 = Some (d, w, s')"
  shows "sys_inv A B s' \<and> ages s s'"
proof -
  have cb: "cb_inv A B s" using inv by (simp add: sys_inv_def)
  note b = joins_cb [OF j cb]
  have 2: "cb_inv A B s2" using b(1) cb_inv_core [OF c] by simp
  have adv: "advances s1 s2" by (rule advances_core_right [OF c advances_refl])
  have "in_unordered s2 t = in_unordered s1 t" "n_tasks s2 = n_tasks s1" "state_of s2 t = state_of s1 t"
    using advances_task_fields [OF adv] core_eq_task_fields(3) [OF c] by simp_all
  then have t: "dispatchable s2 t"
    using b(2) preds_done_advances [OF adv] by (auto simp: dispatchable_def)
  note d = tryDispatch_cb [OF 2 t td]
  have "ATMI_INITIALIZED \<le> state_of s' t"
    by (rule tryDispatch_initialized [OF _ _ t td]) (use 2 in \<open>simp_all add: cb_inv_def\<close>)
  then show ?thesis by (rule joined_sys [OF inv j d(1) advances_trans [OF adv d(2)]])
qed

lemma launches_sys:
  assumes "sys_inv A B s" and "launches E s w s'"
  shows "sys_inv A B s' \<and> ages s s'"
  using assms launch_sys unfolding launches_def by blast

lemma CreateTaskTemplate_sys:
  assumes inv: "sys_inv A B s"
  shows "sys_inv A B (snd (CreateTaskTemplate k_id s)) \<and> ages s (snd (CreateTaskTemplate k_id s))"
proof (cases "get_kernel_obj s k_id")
  case None
  then show ?thesis using inv ages_refl by (simp add: CreateTaskTemplate_def)
next
  case (Some krn)
  obtain t s1 where n: "new_task ((new_TaskImpl ATL_KERNEL_EXECUTION)\<lparr>tk_kernel := k_id\<rparr>) s = (t, s1)"
    by fastforce
  note j = new_task_joins [OF n, simplified]
  have "snd (CreateTaskTemplate k_id s) = s1" using Some n by (simp add: CreateTaskTemplate_def)
  moreover have "templates_inv s1"
    unfolding templates_inv_def
  proof (intro allI impI)
    fix x assume x: "x < n_tasks s1" "state_of s1 x = ATMI_UNINITIALIZED"
    show "tk_group (tasks s1 x) = None"
    proof (cases "x = t")
      case True
      then show ?thesis by (subst True, subst j(6)) simp
    next
      case False
      then have "tasks s1 x = tasks s x" "x < n_tasks s" using j(1, 2, 5) x(1) by (simp_all add: joins_def)
      then show ?thesis using inv x(2) by (simp add: sys_inv_def templates_inv_def)
    qed
  qed
  ultimately show ?thesis
    using joins_cb(1) [OF j(1)] joins_table [OF j(1)] joins_ages [OF j(1)] inv by (simp add: sys_inv_def)
qed

section \<open>Creating without launching\<close>

lemma resource_inv_links_all:
  "resource_inv A B (snd (link_preds t ps s)) = resource_inv A B s"
  "resource_inv A B (snd (link_groups t gs s)) = resource_inv A B s"
proof -
  show "resource_inv A B (snd (link_preds t ps s)) = resource_inv A B s"
    by (induction ps arbitrary: s) (simp_all add: resource_inv_links)
  show "resource_inv A B (snd (link_groups t gs s)) = resource_inv A B s"
  proof (induction gs arbitrary: s)
    case (Cons a gs)
    then show ?case by (cases a) (simp_all add: resource_inv_links)
  qed simp
qed

lemma links_copy_threads:
  "copy_threads (snd (link_preds t ps s)) = copy_threads s"
  "copy_threads (snd (link_groups t gs s)) = copy_threads s"
proof -
  show "copy_threads (snd (link_preds t ps s)) = copy_threads s"
    by (induction ps arbitrary: s) (simp_all add: link_task_def)
  show "copy_threads (snd (link_groups t gs s)) = copy_threads s"
  proof (induction gs arbitrary: s)
    case (Cons a gs)
    then show ?case by (cases a) (simp_all add: link_group_def)
  qed simp
qed

lemma initialize_cb:
  assumes inv: "cb_inv A B s" and t: "t < n_tasks s" "state_of s t = ATMI_UNINITIALIZED"
    and i: "initializes t s s'"
  shows "cb_inv A B s'" "advances s s'" "state_of s' t = ATMI_INITIALIZED"
proof -
  obtain w1 s1 w2 s2 s3 where 1: "link_preds t (predecessors (tasks s t)) s = (w1, s1)"
    and 2: "link_groups t (pred_groups (tasks s1 t)) s1 = (w2, s2)"
    and c: "sched_core s3 = sched_core s2" and s': "s' = set_state t ATMI_INITIALIZED s3"
    using i unfolding initializes_def by blast
  have i: "resource_inv A B s" "dep_inv {} s" "copy_inv s" "dep_sync s = ATL_SYNC_CALLBACK"
    using inv by (simp_all add: cb_inv_def)
  have adv1: "advances s s1" using link_preds_dep [OF dep_inv_mono [OF i(2)] t(1) 1] by blast
  have "pred_groups (tasks s1 t) = pred_groups (tasks s t)"
    using adv1 static_fields(10) [of s1 s t] by (simp add: advances_def)
  then have h: "host_links t s = (w1 \<or> w2, s2)"
    using 1 2 t(2) by (simp add: host_links_def state_order)
  note a = host_links_dep [OF i(2) t(1) h]
  let ?p = "postpone_abs t False s2"
  have adv: "advances s s2" using a by blast
  have t2: "t < n_tasks s2" "linked s2 t" "state_of s2 t < ATMI_READY"
    using t a advances_task_fields(2) [OF adv] by (simp_all add: state_order)
  have p: "dep_inv {} ?p" "advances s2 ?p"
    by (rule postpone_dep [OF conjunct1 [OF a] t2]; simp)+
  have "s2 = snd (link_groups t (pred_groups (tasks s1 t)) (snd (link_preds t (predecessors (tasks s t)) s)))"
    using 1 2 by simp
  then have r: "resource_inv A B s2" "copy_threads s2 = copy_threads s"
    using i(1) by (simp_all only: resource_inv_links_all links_copy_threads)
  have "\<not> active (tasks s2 t)" using t2(3) by (auto simp: active_def)
  then have "resource_inv A B ?p" by (rule resource_inv_postpone [OF r(1)])
  moreover have "copy_inv ?p"
  proof (rule copy_inv_same [OF i(3)])
    show "n_tasks ?p = n_tasks s" using advances_task_fields(2) [OF adv] by (simp add: postpone_abs_def)
    show "copy_threads ?p = copy_threads s" using r(2) by (simp add: postpone_abs_def)
    show "state_of ?p x = state_of s x" if "x \<in> set (copy_threads s)" for x
      using that i(3) t(2) a by (auto simp: postpone_abs_def copy_inv_def)
  qed
  moreover have "dep_sync ?p = ATL_SYNC_CALLBACK"
    using advances_task_fields(6) [OF adv] i(4) by (simp add: postpone_abs_def)
  ultimately have cb: "cb_inv A B ?p" using p(1) by (simp add: cb_inv_def)
  have e: "sched_core (set_state t ATMI_INITIALIZED s3) = sched_core ?p"
    by (simp add: sched_core_set_state_eq postpone_abs_def sched_core_task_state c)
  show "cb_inv A B s'" using cb cb_inv_core [OF e] s' by simp
  show "advances s s'" unfolding s'
    by (rule advances_core_right [OF e advances_trans [OF adv p(2)]])
  show "state_of s' t = ATMI_INITIALIZED"
    using core_eq_task_fields(3) [OF e, of t] s' by (simp add: postpone_abs_def)
qed

lemma initializes_sys:
  assumes inv: "sys_inv A B s" and j: "joins t s s0" and i: "initializes t s0 s'"
  shows "sys_inv A B s' \<and> ages s s'"
proof -
  have cb: "cb_inv A B s0" using joins_cb(1) [OF j] inv by (simp add: sys_inv_def)
  have "t < n_tasks s0" "state_of s0 t = ATMI_UNINITIALIZED" using j by (auto simp: joins_def)
  note a = initialize_cb [OF cb this i]
  show ?thesis using joined_sys [OF inv j a(1, 2)] a(3) by simp
qed

section \<open>Activating, copying, waiting\<close>

lemma ActivateTask_cases:
  assumes sync: "dep_sync s = ATL_SYNC_CALLBACK" and l: "ActivateTask E h s = Some (h', w, s')"
  obtains (nobody) "s' = s" "w = NoWait"
    | (group) g where "tg_ordered (groups s g)"
        "ordered_loop (Suc (length (running_ordered (groups s g)))) E g False s = Some (w, s')"
    | (single) t d where "dispatchable s t" "tryDispatch E t None False s = Some (d, w, s')"
proof -
  obtain r where r: "getTaskImpl s h = Some r" using l by (auto simp: ActivateTask_def bind_eq_Some_conv)
  show thesis
  proof (cases r)
    case None
    then show ?thesis using l r nobody by (simp add: ActivateTask_def)
  next
    case (Some t)
    have t: "t < n_tasks s" using getTaskImpl_bound r Some by simp
    show ?thesis
    proof (cases "tk_group (tasks s t)")
      case None
      then show ?thesis using l r Some sync nobody by (simp add: ActivateTask_def split: if_splits)
    next
      case g: (Some g)
      have "predecessors (tasks s t) = [] \<Longrightarrow> dispatchable s t"
        using t by (simp add: dispatchable_def preds_done_def)
      then show ?thesis
        using l r Some sync g group single nobody
        by (auto simp del: ordered_loop.simps simp: ActivateTask_def bind_eq_Some_conv Let_def
            split: if_splits)
    qed
  qed
qed

lemma ActivateTask_sys:
  assumes inv: "sys_inv A B s" and l: "ActivateTask E h s = Some (h', w, s')"
  shows "sys_inv A B s' \<and> ages s s'"
proof -
  have cb: "cb_inv A B s" and sync: "dep_sync s = ATL_SYNC_CALLBACK"
    using inv by (simp_all add: sys_inv_def cb_inv_def)
  show ?thesis
    using sync l
  proof (cases rule: ActivateTask_cases)
    case nobody
    then show ?thesis using inv ages_refl by simp
  next
    case (group g)
    then show ?thesis using ordered_loop_cb [OF cb] sys_inv_advances [OF inv] by blast
  next
    case (single t d)
    then show ?thesis using tryDispatch_cb [OF cb] sys_inv_advances [OF inv] by blast
  qed
qed

lemma resource_inv_live_state:
  assumes inv: "resource_inv A B s" and t: "live (tasks s t)" "st = ATMI_READY \<or> st = ATMI_DISPATCHED"
  shows "resource_inv A B (upd_task t (\<lambda>k. k\<lparr>tk_state := st\<rparr>) s)"
proof -
  let ?x = "upd_task t (\<lambda>k. k\<lparr>tk_state := st\<rparr>) s"
  have k: "sig_of (tasks ?x y) = sig_of (tasks s y)"
    "seg_of ks p (tasks ?x y) = seg_of ks p (tasks s y)" "live (tasks ?x y) = live (tasks s y)"
    "groupable (tasks ?x y) = groupable (tasks s y)" "tk_signal (tasks ?x y) = tk_signal (tasks s y)"
    "tk_group (tasks ?x y) = tk_group (tasks s y)" for y ks p
    using t by (auto simp: sig_of_def seg_of_def active_iff live_def impl_of_def)
  have "signal_inv A ?x = signal_inv A s" using k by (intro signal_inv_cong) simp_all
  moreover have "segment_inv B ?x = segment_inv B s" using k by (intro segment_inv_cong) simp_all
  moreover have "handler_inv ?x = handler_inv s" using k by (intro handler_inv_cong) simp_all
  ultimately show ?thesis using inv by (simp add: resource_inv_def)
qed

lemma copy_thread_sys:
  assumes inv: "sys_inv A B s" and t: "t \<in> set (copy_threads s)"
    and c: "copy_thread E temp t s = Some s'"
  shows "sys_inv A B s' \<and> ages s s'"
proof -
  have i: "resource_inv A B s" "dep_inv {} s" "copy_inv s" "dep_sync s = ATL_SYNC_CALLBACK"
    using inv by (simp_all add: sys_inv_def cb_inv_def)
  have r: "state_of s t = ATMI_READY" using t i(3) by (simp add: copy_inv_def)
  let ?u = "upd_task t (\<lambda>k. k\<lparr>tk_state := ATMI_DISPATCHED\<rparr>) s"
  let ?x = "?u\<lparr>copy_threads := remove1 t (copy_threads s)\<rparr>"
  have "copy_threads (log_call k s) = copy_threads s" "copy_threads (set_state t st s) = copy_threads s"
    for k st s by (simp_all add: log_call_def set_state_def Let_def split: option.split)
  then have e: "sched_core s' = sched_core ?x"
    using c by (auto simp: copy_thread_def Let_def bind_eq_Some_conv sched_core_upds
        sched_core_set_state_eq sched_core_task_state)
  have "resource_inv A B ?u" by (rule resource_inv_live_state [OF i(1)]) (simp_all add: live_def r)
  then have 1: "resource_inv A B ?x" by (subst resource_inv_holdings [of _ ?u]) simp_all
  have u: "dep_inv {} ?u" "advances s ?u"
    using dispatched_dep [OF i(2), of t ATMI_DISPATCHED] r dep_inv_core [OF sched_core_set_state]
      advances_core_right [OF sched_core_set_state [symmetric]] by (simp_all add: state_order)
  note x = copy_threads_dep [OF u(1), of "remove1 t (copy_threads s)"]
  have "copy_inv ?x" using i(3) by (auto simp: copy_inv_def)
  then have "cb_inv A B ?x" using 1 x(1) i(4) by (simp add: cb_inv_def)
  then have "cb_inv A B s'" using cb_inv_core [OF e] by simp
  then show ?thesis
    by (rule sys_inv_advances [OF inv _ advances_core_right [OF e advances_trans [OF u(2) x(2)]]])
qed

lemma set_completed_core:
  "state_of s t = ATMI_COMPLETED \<Longrightarrow> sched_core (set_state t ATMI_COMPLETED s) = sched_core s"
proof -
  assume "state_of s t = ATMI_COMPLETED"
  then have "(tasks s t)\<lparr>tk_state := ATMI_COMPLETED\<rparr> = tasks s t" by (cases "tasks s t") simp
  then have "upd_task t (\<lambda>k. k\<lparr>tk_state := ATMI_COMPLETED\<rparr>) s = s" by (simp add: upd_task_def)
  then show ?thesis using sched_core_set_state by metis
qed

lemma sys_inv_core:
  assumes "sched_core s' = sched_core s" and "sys_inv A B s"
  shows "sys_inv A B s' \<and> ages s s'"
  using sys_inv_advances [OF assms(2) _ advances_core_right [OF assms(1) advances_refl]]
    cb_inv_core [OF assms(1)] assms(2) by (simp add: sys_inv_def)

lemma finish_wait_core:
  assumes t: "state_of s t = ATMI_COMPLETED" and f: "finish_wait E t s = Some s'"
  shows "sched_core s' = sched_core s"
proof -
  obtain s1 where 1: "updateMetrics E t s = Some s1" and s': "s' = set_state t ATMI_COMPLETED s1"
    using f by (auto simp: finish_wait_def)
  note c = updateMetrics_core [OF 1]
  have "state_of s1 t = ATMI_COMPLETED" using core_eq_task_fields(3) [OF c] t by simp
  then show ?thesis using set_completed_core c s' by simp
qed

lemma fold_completed_core:
  "\<forall>t \<in> set ts. state_of s t = ATMI_COMPLETED \<Longrightarrow>
   sched_core (fold (\<lambda>t. set_state t ATMI_COMPLETED) ts s) = sched_core s"
proof (induction ts arbitrary: s)
  case (Cons t ts)
  have c: "sched_core (set_state t ATMI_COMPLETED s) = sched_core s"
    using set_completed_core Cons.prems by simp
  have "state_of (set_state t ATMI_COMPLETED s) x = ATMI_COMPLETED" if "x \<in> set ts" for x
    using core_eq_task_fields(3) [OF c] Cons.prems that by simp
  then show ?case using Cons.IH c by simp
qed simp

lemma sync_finish_sys:
  assumes inv: "sys_inv A B s" and fin: "sync_done g s" and f: "sync_finish g s = Some s'"
  shows "sys_inv A B s' \<and> ages s s'"
proof -
  obtain ts where ts: "sync_tasks g s = Some ts"
    and s': "s' = (let s = fold (\<lambda>t. set_state t ATMI_COMPLETED) ts s;
       s = (if tg_ordered (groups s g) then upd_group g (\<lambda>k. k\<lparr>last_task := None\<rparr>) s else s)
       in clearSavedTasks g s)"
    using f by (auto simp: sync_finish_def bind_eq_Some_conv Let_def)
  let ?s1 = "fold (\<lambda>t. set_state t ATMI_COMPLETED) ts s"
  have c: "sched_core ?s1 = sched_core s"
    using fin ts by (intro fold_completed_core) (auto simp: sync_done_def wait_done_def)
  have 1: "sys_inv A B ?s1" "ages s ?s1" using sys_inv_core [OF c inv] by simp_all
  have cb: "cb_inv A B ?s1" using 1 by (simp add: sys_inv_def)
  have st: "static s' = static ?s1"
    unfolding s' by (auto simp: Let_def clearSavedTasks_def static_def static_task_def fun_eq_iff)
  have q: "cb_inv A B s'" "advances ?s1 s'"
    by (rule cb_inv_quiet [OF cb st]; auto simp: s' Let_def clearSavedTasks_def)+
  show ?thesis using sys_inv_advances [OF 1(1) q] ages_trans [OF 1(2)] by blast
qed

lemma sync_finish_state:
  assumes fin: "sync_done g s" and f: "sync_finish g s = Some s'"
  shows "state_of s' x = state_of s x"
proof -
  obtain ts where ts: "sync_tasks g s = Some ts"
    and s': "s' = (let s = fold (\<lambda>t. set_state t ATMI_COMPLETED) ts s;
       s = (if tg_ordered (groups s g) then upd_group g (\<lambda>k. k\<lparr>last_task := None\<rparr>) s else s)
       in clearSavedTasks g s)"
    using f by (auto simp: sync_finish_def bind_eq_Some_conv Let_def)
  have "sched_core (fold (\<lambda>t. set_state t ATMI_COMPLETED) ts s) = sched_core s"
    using fin ts by (intro fold_completed_core) (auto simp: sync_done_def wait_done_def)
  from core_eq_task_fields(3) [OF this, of x] show ?thesis
    by (simp add: s' Let_def clearSavedTasks_def)
qed

section \<open>Groups\<close>

lemma dep_inv_groups:
  assumes inv: "dep_inv X s" and f: "n_tasks s' = n_tasks s" "tasks s' = tasks s"
      "ReadyTaskQueue s' = ReadyTaskQueue s"
    and io: "\<And>t. t < n_tasks s \<Longrightarrow> in_unordered s' t = in_unordered s t"
    and ro: "\<And>g u. u \<in> set (running_ordered (groups s' g)) \<Longrightarrow>
      u < n_tasks s \<and> tk_group (tasks s u) = Some g \<and> tg_ordered (groups s' g)"
  shows "dep_inv X s'"
proof -
  note d = dep_invD [OF inv]
  have same: "pend u s' = pend u s" "linked s' u = linked s u" "preds_done s' u = preds_done s u" for u
    using pend_cong [of s' s u] by (simp_all add: f linked_def preds_done_def)
  have "preds_done s u" if "u < n_tasks s" "ATMI_READY \<le> state_of s u" "in_unordered s' u" for u
    using d(6) [OF that(1, 2)] io [OF that(1)] that(3) by simp
  then show ?thesis
    unfolding dep_inv_def same f using d(1-5) ro by blast
qed

lemma TaskGroupCreate_sys:
  assumes inv: "sys_inv A B s" and c: "TaskGroupCreate E ordered place s = Some (h, s')"
  shows "sys_inv A B s' \<and> ages s s'"
proof -
  let ?g = "length (AllTaskgroups s)"
  have i: "resource_inv A B s" "dep_inv {} s" "copy_inv s" "dep_sync s = ATL_SYNC_CALLBACK"
    "table_inv s" "templates_inv s"
    using inv by (simp_all add: sys_inv_def cb_inv_def)
  obtain obj where s': "tasks s' = tasks s" "n_tasks s' = n_tasks s" "groups s' = (groups s)(?g := obj)"
    "AllTaskgroups s' = AllTaskgroups s @ [Some ?g]" "dep_sync s' = dep_sync s"
    "kernels s' = kernels s" "n_impls s' = n_impls s" "impls s' = impls s"
    "FreeSignalPool s' = FreeSignalPool s" "handlers s' = handlers s"
    "ReadyTaskQueue s' = ReadyTaskQueue s" "copy_threads s' = copy_threads s"
    and o: "running_groupable obj = []" "running_ordered obj = []"
    using c by (auto simp: TaskGroupCreate_def Let_def log_call_def new_TaskgroupImpl_def split: if_splits)
  have ne: "tk_group (tasks s t) \<noteq> Some ?g" if "t < n_tasks s" for t
    using i(5) that by (auto simp: table_inv_def)
  have io: "in_unordered s' t = in_unordered s t" if "t < n_tasks s" for t
    using ne [OF that] by (auto simp: in_unordered_def s' split: option.split)
  have "signal_inv A s' = signal_inv A s" by (intro signal_inv_cong) (simp_all add: s')
  moreover have "segment_inv B s' = segment_inv B s" by (intro segment_inv_cong) (simp_all add: s')
  moreover have "handler_inv s'"
    using i(1) by (auto simp: resource_inv_def handler_inv_def s' o)
  ultimately have "resource_inv A B s'" using i(1) by (simp add: resource_inv_def)
  moreover have "dep_inv {} s'"
    by (rule dep_inv_groups [OF i(2) s'(2, 1, 11) io])
       (use dep_invD(7) [OF i(2)] in \<open>auto simp: s' o split: if_splits\<close>)
  moreover have "copy_inv s'" using i(3) by (simp add: copy_inv_def s')
  moreover have "table_inv s'"
    using i(5) by (auto simp: table_inv_def s' nth_append less_Suc_eq)
  moreover have "templates_inv s'" using i(6) by (simp add: templates_inv_def s')
  ultimately show ?thesis using i(4) by (simp add: sys_inv_def cb_inv_def ages_def s')
qed

lemma cb_inv_table: "cb_inv A B (s\<lparr>AllTaskgroups := a\<rparr>) = cb_inv A B s"
proof -
  let ?s = "s\<lparr>AllTaskgroups := a\<rparr>"
  have "signal_inv A ?s = signal_inv A s" by (rule signal_inv_cong) simp_all
  moreover have "segment_inv B ?s = segment_inv B s" by (rule segment_inv_cong) simp_all
  moreover have "handler_inv ?s = handler_inv s" by (rule handler_inv_cong) simp_all
  ultimately have r: "resource_inv A B ?s = resource_inv A B s" by (simp add: resource_inv_def)
  have "pend u ?s = pend u s" for u by (rule pend_cong) simp_all
  moreover have "in_unordered ?s u = in_unordered s u" for u
    by (simp add: in_unordered_def split: option.split)
  ultimately have "dep_inv {} ?s = dep_inv {} s"
    by (simp add: dep_inv_def linked_def preds_done_def)
  with r show ?thesis by (simp add: cb_inv_def copy_inv_def)
qed

lemma TaskGroupRelease_sys:
  assumes inv: "sys_inv A B s" and c: "TaskGroupRelease h s = (r, s')"
  shows "sys_inv A B s' \<and> ages s s'"
proof (cases "getTaskgroupImpl s h")
  case None
  then show ?thesis using c inv ages_refl by (simp add: TaskGroupRelease_def)
next
  case (Some g)
  let ?x = "upd_group g (\<lambda>k. k\<lparr>running_groupable := [], running_ordered := [],
                    running_default := [], tg_and_successors := []\<rparr>)
              (log_call (SignalDestroy (group_signal (groups s g))) s)"
  have s': "s' = ?x\<lparr>AllTaskgroups := (AllTaskgroups s)[unat h := None]\<rparr>"
    using c Some by (simp add: TaskGroupRelease_def Let_def log_call_def)
  have cb: "cb_inv A B s" using inv by (simp add: sys_inv_def)
  have st: "static ?x = static s" by (auto simp: static_def static_task_def log_call_def fun_eq_iff)
  have q: "cb_inv A B ?x" "advances s ?x"
    by (rule cb_inv_quiet [OF cb st]; auto simp: log_call_def)+
  have x: "sys_inv A B ?x" "ages s ?x" using sys_inv_advances [OF inv q] by simp_all
  have "table_inv s'"
    using x(1) unfolding sys_inv_def table_inv_def s'
    by (simp add: log_call_def) (metis nth_list_update_eq nth_list_update_neq)
  then show ?thesis
    using x cb_inv_table unfolding s' by (simp add: sys_inv_def templates_inv_def ages_def)
qed

end
