(* ===== verification/Sched_Sync.thy ===== *)
theory Sched_Sync
  imports Sched_Calls
begin

text \<open>
  What a group knows of its tasks: the count of its groupable tasks that are not completed, and
  the list of the tasks a wait for an unordered group walks. Both are kept by every operation, so
  that a wait for a group returns only after the group's tasks.
\<close>

section \<open>Counting the tasks of a group\<close>

definition open_of :: "gid \<Rightarrow> TaskImpl \<Rightarrow> nat" where
  "open_of g k = (if tk_group k = Some g \<and> groupable k \<and> tk_state k \<noteq> ATMI_COMPLETED then 1 else 0)"

definition closed_of :: "gid \<Rightarrow> TaskImpl \<Rightarrow> nat" where
  "closed_of g k = (if tk_group k = Some g \<and> groupable k \<and> tk_state k = ATMI_COMPLETED then 1 else 0)"

abbreviation group_open :: "gid \<Rightarrow> rt_state \<Rightarrow> nat" where
  "group_open g \<equiv> task_sum (open_of g)"

abbreviation group_closed :: "gid \<Rightarrow> rt_state \<Rightarrow> nat" where
  "group_closed g \<equiv> task_sum (closed_of g)"

text \<open>
  \<open>owed g\<close> tasks of the group \<open>g\<close> were completed by the handler that is at work; it takes them off
  the count when it is through. A handler that never comes back leaves the count too high.
\<close>

definition sync_inv :: "(gid \<Rightarrow> nat) \<Rightarrow> rt_state \<Rightarrow> bool" where
  "sync_inv owed s \<longleftrightarrow>
     (\<forall>g. \<exists>l. owed g + l \<le> group_closed g s \<and>
        task_count (groups s g) = of_nat (group_open g s + owed g + l)) \<and>
     (\<forall>t < n_tasks s. \<forall>g. tk_group (tasks s t) = Some g \<longrightarrow> \<not> tg_ordered (groups s g) \<longrightarrow>
        state_of s t \<noteq> ATMI_COMPLETED \<longrightarrow> t \<in> set (running_default (groups s g)))"

lemma open_closed_bound: "group_open g s + group_closed g s \<le> n_tasks s"
proof -
  have "open_of g k + closed_of g k \<le> 1" for k by (simp add: open_of_def closed_of_def)
  then have "(\<Sum>t<n_tasks s. open_of g (tasks s t) + closed_of g (tasks s t)) \<le> (\<Sum>t<n_tasks s. 1)"
    by (intro sum_mono)
  then show ?thesis by (simp add: task_sum_def sum.distrib)
qed

section \<open>Steps that leave the counts alone\<close>

definition settles :: "rt_state \<Rightarrow> rt_state \<Rightarrow> bool" where
  "settles s s' \<longleftrightarrow> static s' = static s \<and>
     (\<forall>g. task_count (groups s' g) = task_count (groups s g) \<and>
        running_default (groups s' g) = running_default (groups s g)) \<and>
     (\<forall>x. state_of s x = ATMI_COMPLETED \<longrightarrow> state_of s' x = ATMI_COMPLETED) \<and>
     (\<forall>x. groupable (tasks s x) \<longrightarrow> state_of s' x = ATMI_COMPLETED \<longrightarrow> state_of s x = ATMI_COMPLETED)"

lemma settles_refl: "settles s s"
  by (simp add: settles_def)

lemma settles_trans: "settles s s' \<Longrightarrow> settles s' s'' \<Longrightarrow> settles s s''"
  unfolding settles_def by (metis static_fields(8))

lemma settles_core:
  assumes "sched_core s' = sched_core s"
  shows "settles s s'"
proof -
  have "task_count (groups s' g) = task_count (groups s g)"
    "running_default (groups s' g) = running_default (groups s g)" for g
    using core_eq_fields(4) [OF assms, of g] by (metis group_core_fields)+
  then show ?thesis
    using static_core [OF assms] core_eq_task_fields(3) [OF assms] by (simp add: settles_def)
qed

lemma settles_core_right: "sched_core s'' = sched_core s' \<Longrightarrow> settles s s' \<Longrightarrow> settles s s''"
  by (metis settles_core settles_trans)

lemma settles_sync_inv:
  assumes st: "settles s s'" and inv: "sync_inv owed s"
  shows "sync_inv owed s'"
proof -
  have k: "static s' = static s" using st by (simp add: settles_def)
  note f = static_fields [OF k]
  have c: "groupable (tasks s x) \<Longrightarrow> (state_of s' x = ATMI_COMPLETED) = (state_of s x = ATMI_COMPLETED)"
    for x using st by (auto simp: settles_def)
  have "group_open g s' = group_open g s" "group_closed g s' = group_closed g s" for g
    by (rule task_sum_cong; use f c in \<open>auto simp: open_of_def closed_of_def\<close>)+
  then show ?thesis
    using inv st f unfolding sync_inv_def settles_def by metis
qed

text \<open>Updates of one task or one group.\<close>

lemma settles_task_state:
  assumes "state_of s t \<noteq> ATMI_COMPLETED" and "st = ATMI_COMPLETED \<Longrightarrow> \<not> groupable (tasks s t)"
  shows "settles s (set_state t st s)"
proof -
  let ?s = "upd_task t (\<lambda>k. k\<lparr>tk_state := st\<rparr>) s"
  have "static ?s = static s" by (auto simp: static_def static_task_def fun_eq_iff)
  then have "settles s ?s" using assms by (auto simp: settles_def)
  then show ?thesis by (rule settles_core_right [OF sched_core_set_state])
qed

lemma settles_group_upd:
  assumes "\<And>k. task_count (f k) = task_count k" "\<And>k. running_default (f k) = running_default k"
    and "\<And>k. tg_ordered (f k) = tg_ordered k"
  shows "settles s (upd_group g f s)"
  using static_group_upd [of f g s] assms by (auto simp: settles_def)

lemma settles_simple [simp]:
  "settles s (s\<lparr>handlers := a\<rparr>)" "settles s (s\<lparr>ReadyTaskQueue := b\<rparr>)"
  "settles s (s\<lparr>copy_threads := c\<rparr>)" "settles s (s\<lparr>FreeSignalPool := d\<rparr>)"
  "settles s (link_task t p s)" "settles s (link_group t g s)"
  using static_links by (auto simp: settles_def link_task_def link_group_def)

lemma settles_dependencies: "settles s (snd (host_dependencies t s))"
  by (rule host_dependencies_induct [where P = "settles s"])
     (blast intro: settles_trans settles_simple settles_refl)+

lemma settles_postpone:
  "state_of s t < ATMI_READY \<Longrightarrow> settles s (postpone_abs t push s)"
  using static_postpone [of t push s] by (auto simp: settles_def postpone_abs_def Let_def state_order)

lemma grant_abs_counts:
  "task_count (groups (grant_abs t g impl s) g') = task_count (groups s g')"
  "running_default (groups (grant_abs t g impl s) g') = running_default (groups s g')"
  by (auto simp: grant_abs_def Let_def split: option.split)

lemma settles_grant: "state_of s t < ATMI_READY \<Longrightarrow> settles s (grant_abs t g impl s)"
  using static_grant [of t g impl s]
  by (auto simp: settles_def grant_abs_fields(1) grant_abs_counts state_order)

lemma settles_dispatch:
  assumes "state_of s t = ATMI_READY" and "dispatch E t s = Some s'"
  shows "settles s s'"
proof -
  have p: "settles s (push_groupable g t s)" "state_of (push_groupable g t s) t = ATMI_READY" for g
    using assms(1) settles_group_upd by (auto simp: push_groupable_def settles_refl)
  show ?thesis
    using assms(2)
  proof (cases rule: dispatch_core)
    case (1 g)
    from 1(2) show ?thesis by (rule settles_core)
  next
    case (2 g)
    have "settles (push_groupable g t s) (set_state t ATMI_DISPATCHED (push_groupable g t s))"
      by (rule settles_task_state) (simp_all add: p(2))
    then show ?thesis using settles_core_right [OF 2(2)] settles_trans [OF p(1)] by blast
  next
    case (3 g)
    show ?thesis
      by (rule settles_core_right [OF 3(3)], rule settles_trans [OF p(1)]) (rule settles_simple)
  qed
qed

lemma settles_register: "register_callback t s = Some s' \<Longrightarrow> settles s s'"
  by (auto simp: register_callback_def bind_eq_Some_conv settles_refl split: if_splits
      intro!: settles_trans [OF settles_group_upd settles_simple(1)])

lemma settles_tryDispatchHostCallback:
  assumes "tryDispatchHostCallback E t args s = Some (d, s')"
  shows "settles s s' \<and> (d \<longrightarrow> state_of s' t = ATMI_READY)"
  using assms
proof (cases rule: tryDispatchHostCallback_cases)
  case busy
  then show ?thesis by (simp add: settles_refl)
next
  case (postponed g waiting s1)
  have "settles s s1" "state_of s1 t < ATMI_READY"
    using settles_dependencies [of s t] dependencies_state(1) [of t s t] postponed(3, 4) by simp_all
  then show ?thesis
    using settles_core_right [OF postponed(5)] settles_postpone settles_trans postponed(1) by blast
next
  case (granted g impl s1)
  have a: "settles s s1" "state_of s1 t < ATMI_READY"
    using settles_dependencies [of s t] dependencies_state(1) [of t s t] granted(3, 4) by simp_all
  have "state_of s' t = ATMI_READY"
    using core_eq_task_fields(3) [OF granted(7), of t] by (simp add: grant_abs_fields)
  then show ?thesis
    using settles_core_right [OF granted(7)] settles_grant [OF a(2)] settles_trans [OF a(1)] by blast
qed

lemma settles_tryDispatch:
  assumes "dep_sync s = ATL_SYNC_CALLBACK" and "tryDispatch E t args isC s = Some (d, w, s')"
  shows "settles s s'"
  using assms
proof (cases rule: tryDispatch_callback)
  case undispatched
  then show ?thesis using settles_tryDispatchHostCallback by blast
next
  case (dispatched s1 s2)
  note a = settles_tryDispatchHostCallback [OF dispatched(1)]
  have "settles s1 s2" by (rule settles_dispatch [OF _ dispatched(2)]) (use a in simp)
  then show ?thesis
    using a settles_register [OF dispatched(3)] settles_trans [of s s1 s2] settles_trans [of s s2 s']
    by simp
qed

lemma settles_sync: "settles s s' \<Longrightarrow> dep_sync s' = dep_sync s"
  using static_fields(1) [of s' s] by (simp add: settles_def)

section \<open>The progress loops\<close>

lemma settles_ordered_loop:
  "dep_sync s = ATL_SYNC_CALLBACK \<Longrightarrow> ordered_loop n E g isC s = Some (w, s') \<Longrightarrow> settles s s'"
proof (induction n arbitrary: s)
  case (Suc n)
  show ?case
  proof (cases "running_ordered (groups s g)")
    case Nil
    then show ?thesis using Suc.prems by (simp add: settles_refl)
  next
    case (Cons t ts)
    obtain d w1 s1 where td: "tryDispatch E t None isC s = Some (d, w1, s1)"
      and rest: "if d then ordered_loop n E g isC s1 = Some (w, s') else s' = s1"
      using Suc.prems(2) Cons by (auto simp: bind_eq_Some_conv split: if_splits)
    note a = settles_tryDispatch [OF Suc.prems(1) td]
    have "dep_sync s1 = ATL_SYNC_CALLBACK" using settles_sync [OF a] Suc.prems(1) by simp
    then show ?thesis using rest a Suc.IH [of s1] settles_trans [OF a] by (cases d) auto
  qed
qed simp

lemma settles_ready_loop:
  "dep_sync s = ATL_SYNC_CALLBACK \<Longrightarrow> ready_loop n E s = Some (w, s') \<Longrightarrow> settles s s'"
proof (induction n arbitrary: s)
  case (Suc n)
  show ?case
  proof (cases "ReadyTaskQueue s")
    case Nil
    then show ?thesis using Suc by simp
  next
    case (Cons t q)
    let ?q = "s\<lparr>ReadyTaskQueue := q\<rparr>"
    obtain d w1 s1 where td: "tryDispatch E t None True ?q = Some (d, w1, s1)"
      and rest: "if w1 = NoWait then ready_loop n E s1 = Some (w, s') else s' = s1"
      using Suc.prems(2) Cons by (auto simp: bind_eq_Some_conv split: if_splits)
    have a: "settles s s1"
      using settles_tryDispatch [OF _ td] Suc.prems(1) settles_trans [OF settles_simple(2)] by simp
    have "dep_sync s1 = ATL_SYNC_CALLBACK" using settles_sync [OF a] Suc.prems(1) by simp
    then show ?thesis using rest a Suc.IH [of s1] settles_trans [OF a] by (cases "w1 = NoWait") auto
  qed
qed (simp add: settles_refl)

lemma settles_doProgress:
  assumes "dep_sync s = ATL_SYNC_CALLBACK" and "doProgress E t s = Some (w, s')"
  shows "settles s s'"
proof -
  obtain g where "tk_group (tasks s t) = Some g"
    using assms(2) by (auto simp: doProgress_def bind_eq_Some_conv)
  then have "if tg_ordered (groups s g)
      then ordered_loop (Suc (length (running_ordered (groups s g)))) E g True s = Some (w, s')
      else ready_loop (length (ReadyTaskQueue s)) E s = Some (w, s')"
    using assms by (simp del: ordered_loop.simps add: doProgress_def split: if_splits)
  then show ?thesis
    using settles_ordered_loop [OF assms(1)] settles_ready_loop [OF assms(1)] by (metis (full_types))
qed

section \<open>The completion handlers\<close>

lemma settles_handle_signal:
  assumes "\<not> groupable (tasks s t)" and sync: "dep_sync s = ATL_SYNC_CALLBACK"
    and "handle_signal_callback E t s = Some (w, s')"
  shows "settles s s'"
proof -
  obtain s1 where 1: "complete_task E t s = Some s1" and 2: "doProgress E t s1 = Some (w, s')"
    using assms(1, 3) by (auto simp: handle_signal_callback_def bind_eq_Some_conv)
  have "static (complete_abs t s) = static s"
    by (auto simp: static_def complete_abs_fields static_task_def fun_eq_iff)
  then have "settles s (complete_abs t s)"
    using assms(1) by (auto simp: settles_def complete_abs_fields)
  then have a: "settles s s1" by (rule settles_core_right [OF complete_task_core [OF 1]])
  have "dep_sync s1 = ATL_SYNC_CALLBACK" using settles_sync [OF a] sync by simp
  from settles_trans [OF a settles_doProgress [OF this 2]] show ?thesis .
qed

lemma complete_group_task_sync:
  assumes inv: "sync_inv owed s" and sync: "dep_sync s = ATL_SYNC_CALLBACK"
    and t: "t < n_tasks s" "live (tasks s t)" "groupable (tasks s t)" "tk_group (tasks s t) = Some g"
    and c: "complete_group_task E t s = Some s'"
  shows "sync_inv (owed(g := Suc (owed g))) s'"
proof -
  let ?s = "complete_group_abs t s"
  note f = complete_group_abs_fields
  have ne: "state_of s t \<noteq> ATMI_COMPLETED" using t(2) by (auto simp: live_def)
  have o: "group_open g' ?s + (if g' = g then 1 else 0) = group_open g' s" for g'
    using task_sum_upd [OF t(1) f(1) f(3), of "open_of g'"] t ne by (auto simp: open_of_def)
  have c': "group_closed g' ?s = group_closed g' s + (if g' = g then 1 else 0)" for g'
    using task_sum_upd [OF t(1) f(1) f(3), of "closed_of g'"] t ne by (auto simp: closed_of_def)
  have "\<exists>l. (owed(g := Suc (owed g))) g' + l \<le> group_closed g' ?s \<and>
      task_count (groups ?s g') = of_nat (group_open g' ?s + (owed(g := Suc (owed g))) g' + l)" for g'
  proof -
    obtain l where "owed g' + l \<le> group_closed g' s"
      "task_count (groups s g') = of_nat (group_open g' s + owed g' + l)"
      using inv unfolding sync_inv_def by blast
    then show ?thesis
      using o [of g', symmetric] c' [of g'] by (intro exI [of _ l]) (auto simp: f(4))
  qed
  moreover have "t' \<in> set (running_default (groups ?s g'))"
    if "t' < n_tasks ?s" "tk_group (tasks ?s t') = Some g'" "\<not> tg_ordered (groups ?s g')"
      "state_of ?s t' \<noteq> ATMI_COMPLETED" for t' g'
    using inv that unfolding sync_inv_def by (auto simp: f split: if_splits)
  ultimately have "sync_inv (owed(g := Suc (owed g))) ?s" unfolding sync_inv_def by blast
  with settles_core [OF complete_group_task_core [OF sync c]] show ?thesis by (rule settles_sync_inv)
qed

lemma complete_group_tasks_sync:
  assumes "sync_inv owed s" and "cb_inv A B s" "taken_over ts s"
    and "\<forall>t \<in> set ts. tk_group (tasks s t) = Some g" and "complete_group_tasks E ts s = Some s'"
  shows "sync_inv (owed(g := owed g + length ts)) s'"
  using assms
proof (induction ts arbitrary: s owed)
  case (Cons t ts)
  obtain s1 where 1: "complete_group_task E t s = Some s1" and 2: "complete_group_tasks E ts s1 = Some s'"
    using Cons.prems(5) by (auto simp: bind_eq_Some_conv)
  note a = complete_group_cb [OF Cons.prems(2, 3) 1]
  have sync: "dep_sync s = ATL_SYNC_CALLBACK" using Cons.prems(2) by (simp add: cb_inv_def)
  have "sync_inv (owed(g := Suc (owed g))) s1"
    using complete_group_task_sync [OF Cons.prems(1) sync _ _ _ _ 1] Cons.prems(3, 4)
    by (simp add: taken_over_def)
  moreover have "\<forall>t \<in> set ts. tk_group (tasks s1 t) = Some g"
    using Cons.prems(4) advances_task_fields(5) [OF a(2)] by simp
  ultimately have "sync_inv ((owed(g := Suc (owed g)))(g := (owed(g := Suc (owed g))) g + length ts)) s'"
    using Cons.IH [OF _ a(1, 3) _ 2] by blast
  moreover have "(owed(g := Suc (owed g)))(g := (owed(g := Suc (owed g))) g + length ts) =
      owed(g := owed g + length (t # ts))" by auto
  ultimately show ?case by (simp only:)
qed simp

lemma sync_inv_forget:
  assumes "sync_inv owed s"
  shows "sync_inv (\<lambda>_. 0) s"
  unfolding sync_inv_def
proof (intro conjI allI)
  fix g
  obtain l where "owed g + l \<le> group_closed g s"
    "task_count (groups s g) = of_nat (group_open g s + owed g + l)"
    using assms unfolding sync_inv_def by blast
  then show "\<exists>l. 0 + l \<le> group_closed g s \<and> task_count (groups s g) = of_nat (group_open g s + 0 + l)"
    by (intro exI [of _ "owed g + l"]) simp
qed (use assms in \<open>auto simp: sync_inv_def\<close>)

lemma sync_inv_pay:
  assumes inv: "sync_inv ((\<lambda>_. 0)(g := n)) s"
  shows "sync_inv (\<lambda>_. 0) (upd_group g (\<lambda>k. k\<lparr>task_count := task_count k - of_nat n\<rparr>) s)"
    (is "sync_inv _ ?s")
proof -
  have "group_open g' ?s = group_open g' s" "group_closed g' ?s = group_closed g' s" for g'
    by (rule task_sum_cong; simp)+
  moreover have "\<exists>l. l \<le> group_closed g' s \<and> task_count (groups ?s g') = of_nat (group_open g' s + l)" for g'
  proof -
    obtain l where "((\<lambda>_. 0)(g := n)) g' + l \<le> group_closed g' s"
      "task_count (groups s g') = of_nat (group_open g' s + ((\<lambda>_. 0)(g := n)) g' + l)"
      using inv unfolding sync_inv_def by blast
    then show ?thesis by (intro exI [of _ l]) (auto split: if_splits)
  qed
  ultimately show ?thesis using inv unfolding sync_inv_def by simp
qed

lemma handle_group_signal_sync:
  assumes inv: "cb_inv A B s" "sync_inv (\<lambda>_. 0) s"
    and h: "handlers s = hs1 @ HandleGroup sg g # hs2"
    and copy: "\<forall>t \<in> set (running_groupable (groups s g)). t \<notin> set (copy_threads s)"
    and d: "handle_group_signal E g (s\<lparr>handlers := hs1 @ hs2\<rparr>) = Some (w, s')"
  shows "sync_inv (\<lambda>_. 0) s'"
proof -
  let ?pre = "s\<lparr>handlers := hs1 @ hs2\<rparr>"
  have pre: "cb_inv A B ?pre" "advances s ?pre"
    by (rule cb_inv_quiet [OF inv(1)]; use h in auto)+
  obtain ts s1 where 1: "collect_group g ?pre = (ts, s1)" by fastforce
  note a = collect_group_cb [OF pre(1) 1]
  have ts: "ts = running_groupable (groups s g)" using a(4) copy by simp
  let ?x = "upd_group g (\<lambda>k. k\<lparr>running_groupable := [],
    running_ordered := (if tg_ordered k then drop (length ts) (running_ordered k)
                        else running_ordered k), callback_started := False\<rparr>) ?pre"
  have "sched_core s1 = sched_core ?x"
    using 1 by (auto simp: collect_group_def Let_def log_call_def sched_core_def upd_group_def)
  moreover have "settles ?pre ?x" by (rule settles_group_upd) simp_all
  ultimately have st1: "settles s s1" using settles_core_right settles_trans [OF settles_simple(1)] by blast
  obtain s2 where 2: "complete_group_tasks E ts s1 = Some s2"
    using d by (auto simp: handle_group_signal_def 1 bind_eq_Some_conv)
  obtain w1 s3 where 3: "(if ts \<noteq> [] then doProgress E (last ts) s2 else Some (NoWait, s2)) = Some (w1, s3)"
    using d by (auto simp: handle_group_signal_def 1 2 bind_eq_Some_conv)
  let ?s4 = "upd_group g (\<lambda>k. k\<lparr>task_count := task_count k - of_nat (length ts)\<rparr>) s3"
  have 4: "(if w1 \<noteq> NoWait then Some (w1, s3)
      else if dep_sync ?s4 = ATL_SYNC_CALLBACK \<and> task_count (groups ?s4 g) = 0
           then release_group_successors E g ?s4 else Some (NoWait, ?s4)) = Some (w, s')"
    using d by (simp only: handle_group_signal_def 1 2 3 Let_def prod.case bind.bind_lunit)
  have "handler_inv s" using inv(1) by (simp add: cb_inv_def resource_inv_def)
  then have "\<forall>t \<in> set ts. tk_group (tasks s t) = Some g" using handler_invD(3) ts by blast
  then have "\<forall>t \<in> set ts. tk_group (tasks s1 t) = Some g"
    using st1 static_fields(7) [of s1 s] by (simp add: settles_def)
  then have b: "sync_inv ((\<lambda>_. 0)(g := length ts)) s2"
    using complete_group_tasks_sync [OF settles_sync_inv [OF st1 inv(2)] _ _ _ 2] a copy by simp
  have "cb_inv A B s2" using complete_group_tasks_cb [OF _ _ 2] a copy by simp
  then have "dep_sync s2 = ATL_SYNC_CALLBACK" by (simp add: cb_inv_def)
  then have "settles s2 s3" using 3 settles_doProgress settles_refl by (auto split: if_splits)
  then have c: "sync_inv ((\<lambda>_. 0)(g := length ts)) s3" using settles_sync_inv b by blast
  show ?thesis
  proof (cases "w1 = NoWait")
    case False
    then show ?thesis using 4 sync_inv_forget [OF c] by simp
  next
    case True
    then consider "s' = ?s4" | "release_group_successors E g ?s4 = Some (w, s')"
      using 4 by (auto split: if_splits)
    then show ?thesis
    proof cases
      case 1
      then show ?thesis using sync_inv_pay [OF c] by simp
    next
      case 2
      then have "s' = upd_group g (\<lambda>k. k\<lparr>tg_and_successors := []\<rparr>) ?s4"
        by (simp add: release_group_successors_def Let_def)
      moreover have "settles ?s4 (upd_group g (\<lambda>k. k\<lparr>tg_and_successors := []\<rparr>) ?s4)"
        by (rule settles_group_upd) simp_all
      ultimately show ?thesis using settles_sync_inv sync_inv_pay [OF c] by simp
    qed
  qed
qed

section \<open>A task joins its group\<close>

lemma joins_sync_inv:
  assumes j: "joins t s s'" and e: "enrols t s s'" and inv: "sync_inv (\<lambda>_. 0) s"
  shows "sync_inv (\<lambda>_. 0) s'"
proof -
  let ?k = "tasks s' t"
  have st: "state_of s' t = ATMI_UNINITIALIZED" and oth: "\<And>x. x \<noteq> t \<Longrightarrow> tasks s' x = tasks s x"
    and or: "\<And>g. tg_ordered (groups s' g) = tg_ordered (groups s g)"
    using j by (simp_all add: joins_def)
  consider "t = n_tasks s" "n_tasks s' = Suc (n_tasks s)"
    | "t < n_tasks s" "n_tasks s' = n_tasks s" "state_of s t = ATMI_UNINITIALIZED"
      "tk_group (tasks s t) = None"
    using j by (auto simp: joins_def)
  then have sums: "group_open g s' = group_open g s + open_of g ?k \<and> group_closed g s' = group_closed g s" for g
  proof cases
    case 1
    then show ?thesis
      using task_sum_new [of s' s "open_of g"] task_sum_new [of s' s "closed_of g"] oth st
      by (simp add: closed_of_def)
  next
    case 2
    have u: "tasks s' = (tasks s)(t := ?k)" using oth by auto
    show ?thesis
      using task_sum_upd [OF 2(1) u 2(2), of "open_of g"] task_sum_upd [OF 2(1) u 2(2), of "closed_of g"]
        2(3, 4) st by (simp add: open_of_def closed_of_def)
  qed
  have "\<exists>l. 0 + l \<le> group_closed g s' \<and> task_count (groups s' g) = of_nat (group_open g s' + 0 + l)" for g
  proof -
    have "\<exists>l. l \<le> group_closed g s \<and> task_count (groups s g) = of_nat (group_open g s + l)"
      using inv unfolding sync_inv_def by simp
    then obtain l where "l \<le> group_closed g s" "task_count (groups s g) = of_nat (group_open g s + l)"
      by blast
    then show ?thesis
      using sums [of g] e st by (intro exI [of _ l]) (auto simp: enrols_def open_of_def)
  qed
  moreover have "x \<in> set (running_default (groups s' g))"
    if "x < n_tasks s'" "tk_group (tasks s' x) = Some g" "\<not> tg_ordered (groups s' g)"
      "state_of s' x \<noteq> ATMI_COMPLETED" for x g
  proof (cases "x = t")
    case True
    then show ?thesis using e that or by (simp add: enrols_def)
  next
    case False
    then have "x < n_tasks s" using that(1) j by (auto simp: joins_def)
    then have "x \<in> set (running_default (groups s g))"
      using inv that oth [OF False] or unfolding sync_inv_def by simp
    then show ?thesis using e unfolding enrols_def by blast
  qed
  ultimately show ?thesis unfolding sync_inv_def by blast
qed

section \<open>The calls\<close>

lemma launches_sync:
  assumes inv: "sync_inv (\<lambda>_. 0) s" and sync: "dep_sync s = ATL_SYNC_CALLBACK"
    and l: "launches E s w s'"
  shows "sync_inv (\<lambda>_. 0) s'"
proof -
  obtain t s1 s2 args d where j: "joins t s s1" "enrols t s s1" and c: "sched_core s2 = sched_core s1"
    and td: "tryDispatch E t args False s2 = Some (d, w, s')"
    using l unfolding launches_def by blast
  have "dep_sync s1 = ATL_SYNC_CALLBACK" using j(1) sync by (simp add: joins_def)
  then have 2: "dep_sync s2 = ATL_SYNC_CALLBACK" using core_eq_fields(1) [OF c] by simp
  have "settles s1 s'" by (rule settles_trans [OF settles_core [OF c] settles_tryDispatch [OF 2 td]])
  then show ?thesis using settles_sync_inv joins_sync_inv [OF j inv] by blast
qed

lemma settles_link_preds: "settles s (snd (link_preds t ps s))"
proof (induction ps arbitrary: s)
  case (Cons p ps)
  then show ?case using settles_trans [OF settles_simple(5) Cons, of s t p] by simp
qed (simp add: settles_refl)

lemma settles_link_groups: "settles s (snd (link_groups t gs s))"
proof (induction gs arbitrary: s)
  case (Cons a gs)
  show ?case
  proof (cases a)
    case None
    then show ?thesis using Cons by simp
  next
    case (Some g)
    then show ?thesis using Cons [of s] settles_trans [OF settles_simple(6) Cons, of s t g] by simp
  qed
qed (simp add: settles_refl)

lemma link_preds_state: "state_of (snd (link_preds t ps s)) x = state_of s x"
  by (induction ps arbitrary: s) (simp_all add: link_task_def)

lemma link_groups_state: "state_of (snd (link_groups t gs s)) x = state_of s x"
proof (induction gs arbitrary: s)
  case (Cons a gs)
  then show ?case by (cases a) (simp_all add: link_group_def)
qed simp

lemma initializes_sync:
  assumes inv: "sync_inv (\<lambda>_. 0) s" and j: "joins t s s0" "enrols t s s0" and i: "initializes t s0 s'"
  shows "sync_inv (\<lambda>_. 0) s'"
proof -
  obtain w1 s1 w2 s2 s3 where 1: "link_preds t (predecessors (tasks s0 t)) s0 = (w1, s1)"
    and 2: "link_groups t (pred_groups (tasks s1 t)) s1 = (w2, s2)"
    and c: "sched_core s3 = sched_core s2" and s': "s' = set_state t ATMI_INITIALIZED s3"
    using i unfolding initializes_def by blast
  have a: "settles s0 s3"
    using settles_link_preds [of s0 t] settles_link_groups [of s1 t] 1 2 settles_core [OF c]
    by (metis settles_trans snd_conv)
  show ?thesis
  proof (cases "state_of s3 t = ATMI_COMPLETED")
    case False
    then have "settles s3 s'" unfolding s' by (rule settles_task_state) simp
    then show ?thesis using settles_sync_inv joins_sync_inv [OF j inv] settles_trans [OF a] by blast
  next
    case True
    have "state_of s1 t = state_of s0 t" "state_of s2 t = state_of s1 t"
      using link_preds_state [of t "predecessors (tasks s0 t)" s0 t]
        link_groups_state [of t "pred_groups (tasks s1 t)" s1 t] 1 2 by simp_all
    then have "state_of s3 t = state_of s0 t" using core_eq_task_fields(3) [OF c] by simp
    then show ?thesis using True j(1) by (simp add: joins_def)
  qed
qed

lemma ActivateTask_sync:
  assumes inv: "sync_inv (\<lambda>_. 0) s" and sync: "dep_sync s = ATL_SYNC_CALLBACK"
    and l: "ActivateTask E h s = Some (h', w, s')"
  shows "sync_inv (\<lambda>_. 0) s'"
  using sync l
proof (cases rule: ActivateTask_cases)
  case (group g)
  then show ?thesis using settles_ordered_loop [OF sync] settles_sync_inv inv by blast
next
  case (single t d)
  then show ?thesis using settles_tryDispatch [OF sync] settles_sync_inv inv by blast
qed (use inv in simp)

lemma CreateTaskTemplate_sync:
  assumes inv: "sync_inv (\<lambda>_. 0) s"
  shows "sync_inv (\<lambda>_. 0) (snd (CreateTaskTemplate k_id s))"
proof (cases "get_kernel_obj s k_id")
  case None
  then show ?thesis using inv by (simp add: CreateTaskTemplate_def)
next
  case (Some krn)
  obtain t s1 where n: "new_task ((new_TaskImpl ATL_KERNEL_EXECUTION)\<lparr>tk_kernel := k_id\<rparr>) s = (t, s1)"
    by fastforce
  note j = new_task_joins [OF n, simplified]
  have "tk_group (tasks s1 t) = None" by (subst j(6)) simp
  then have "enrols t s s1" by (simp add: enrols_def j(3))
  then show ?thesis using joins_sync_inv [OF j(1) _ inv] Some n by (simp add: CreateTaskTemplate_def)
qed

lemma copy_thread_sync:
  assumes inv: "sync_inv (\<lambda>_. 0) s" and r: "state_of s t = ATMI_READY"
    and c: "copy_thread E temp t s = Some s'"
  shows "sync_inv (\<lambda>_. 0) s'"
proof -
  obtain s1 k where 1: "s1 = log_call k s"
    and s': "s' = log_call (SignalSubtract (tk_signal (tasks s t)) 1)
      ((set_state t ATMI_DISPATCHED s1)\<lparr>copy_threads := remove1 t (copy_threads (set_state t ATMI_DISPATCHED s1))\<rparr>)"
    using c by (auto simp: copy_thread_def Let_def bind_eq_Some_conv)
  have "settles s s1" unfolding 1 by (rule settles_core) simp
  moreover have "settles s1 (set_state t ATMI_DISPATCHED s1)"
    by (rule settles_task_state) (simp_all add: 1 log_call_def r)
  moreover have "settles (set_state t ATMI_DISPATCHED s1) s'"
    unfolding s' by (rule settles_core_right [OF _ settles_simple(3)]) simp
  ultimately show ?thesis using settles_trans settles_sync_inv [OF _ inv] by blast
qed

section \<open>Waiting for a group\<close>

text \<open>
  When a wait for a group ends, its groupable tasks have completed, and all its tasks have when
  the group is unordered. The count is a 32-bit number and does not wrap as long as there are
  fewer tasks.
\<close>

lemma sync_done_completed:
  assumes inv: "sync_inv (\<lambda>_. 0) s" and n: "n_tasks s < 2 ^ 32" and fin: "sync_done g s"
    and t: "t < n_tasks s" "tk_group (tasks s t) = Some g"
    and k: "groupable (tasks s t) \<or> \<not> tg_ordered (groups s g)"
  shows "state_of s t = ATMI_COMPLETED"
proof (rule ccontr)
  assume ne: "state_of s t \<noteq> ATMI_COMPLETED"
  show False
  proof (cases "groupable (tasks s t)")
    case True
    have "\<exists>l. l \<le> group_closed g s \<and> task_count (groups s g) = of_nat (group_open g s + l)"
      using inv unfolding sync_inv_def by simp
    then obtain l where l: "l \<le> group_closed g s" "of_nat (group_open g s + l) = (0 :: u32)"
      using fin by (auto simp: sync_done_def)
    have "group_open g s + l < 2 ^ 32" using open_closed_bound [of g s] l(1) n by linarith
    then have "group_open g s + l = 0"
      using l(2) by (simp only: word_of_nat_eq_0_iff exp_dvd_iff_exp_udvd) (auto dest: nat_dvd_not_less)
    moreover have "open_of g (tasks s t) \<le> group_open g s"
      unfolding task_sum_def using t(1) by (intro member_le_sum) auto
    ultimately show False using True t(2) ne by (simp add: open_of_def)
  next
    case False
    then have "t \<in> set (running_default (groups s g))" "\<not> tg_ordered (groups s g)"
      using inv t ne k unfolding sync_inv_def by blast+
    then show False using fin ne by (auto simp: sync_done_def sync_tasks_def wait_done_def)
  qed
qed

text \<open>Afterwards the lists of the group are dropped.\<close>

lemma sync_inv_drop_lists:
  assumes inv: "sync_inv (\<lambda>_. 0) s" and n: "n_tasks s < 2 ^ 32" and fin: "sync_done g s"
    and f: "tasks s' = tasks s" "n_tasks s' = n_tasks s"
      "\<And>g'. task_count (groups s' g') = task_count (groups s g')"
      "\<And>g'. tg_ordered (groups s' g') = tg_ordered (groups s g')"
      "\<And>g'. g' \<noteq> g \<Longrightarrow> running_default (groups s' g') = running_default (groups s g')"
  shows "sync_inv (\<lambda>_. 0) s'"
proof -
  have "group_open g' s' = group_open g' s" "group_closed g' s' = group_closed g' s" for g'
    by (rule task_sum_cong; simp add: f)+
  moreover have "t \<in> set (running_default (groups s' g'))"
    if "t < n_tasks s" "tk_group (tasks s t) = Some g'" "\<not> tg_ordered (groups s g')"
      "state_of s t \<noteq> ATMI_COMPLETED" for t g'
    using that inv f(5) sync_done_completed [OF inv n fin that(1)] unfolding sync_inv_def by metis
  ultimately show ?thesis using inv f unfolding sync_inv_def by simp
qed

lemma sync_finish_sync:
  assumes inv: "sync_inv (\<lambda>_. 0) s" and n: "n_tasks s < 2 ^ 32" and fin: "sync_done g s"
    and f: "sync_finish g s = Some s'"
  shows "sync_inv (\<lambda>_. 0) s'"
proof -
  obtain ts where ts: "sync_tasks g s = Some ts"
    and s': "s' = (let s = fold (\<lambda>t. set_state t ATMI_COMPLETED) ts s;
       s = (if tg_ordered (groups s g) then upd_group g (\<lambda>k. k\<lparr>last_task := None\<rparr>) s else s)
       in clearSavedTasks g s)"
    using f by (auto simp: sync_finish_def bind_eq_Some_conv Let_def)
  let ?s1 = "fold (\<lambda>t. set_state t ATMI_COMPLETED) ts s"
  have c: "sched_core ?s1 = sched_core s"
    using fin ts by (intro fold_completed_core) (auto simp: sync_done_def wait_done_def)
  note st = settles_core [OF c]
  have 1: "sync_inv (\<lambda>_. 0) ?s1" "n_tasks ?s1 < 2 ^ 32"
    using settles_sync_inv [OF st inv] core_eq_fields(2) [OF c] n by simp_all
  have t: "sync_tasks g ?s1 = Some ts" and "task_count (groups ?s1 g) = 0"
    using st ts fin static_fields(14) [of ?s1 s g] core_eq_fields(4) [OF c, of g]
    unfolding settles_def sync_tasks_def sync_done_def
    by (simp_all split: if_splits) (metis group_core_fields(3))
  moreover have "\<forall>t \<in> set ts. wait_done ?s1 t"
    using fin ts core_eq_task_fields(3) [OF c] by (simp add: sync_done_def wait_done_def)
  ultimately have "sync_done g ?s1" by (simp add: sync_done_def)
  from sync_inv_drop_lists [OF 1 this] show ?thesis
    unfolding s' by (simp add: Let_def clearSavedTasks_def)
qed

lemma TaskGroupRelease_sync:
  assumes inv: "sync_inv (\<lambda>_. 0) s" and n: "n_tasks s < 2 ^ 32"
    and fin: "\<forall>g. getTaskgroupImpl s h = Some g \<longrightarrow> sync_done g s"
    and c: "TaskGroupRelease h s = (r, s')"
  shows "sync_inv (\<lambda>_. 0) s'"
proof (cases "getTaskgroupImpl s h")
  case None
  then show ?thesis using c inv by (simp add: TaskGroupRelease_def)
next
  case (Some g)
  then have "sync_done g s" using fin by simp
  then show ?thesis
    by (rule sync_inv_drop_lists [OF inv n])
       (use c Some in \<open>auto simp: TaskGroupRelease_def Let_def log_call_def split: if_splits\<close>)
qed

lemma TaskGroupCreate_sync:
  assumes inv: "sync_inv (\<lambda>_. 0) s" and tab: "table_inv s"
    and c: "TaskGroupCreate E ordered place s = Some (h, s')"
  shows "sync_inv (\<lambda>_. 0) s'"
proof -
  let ?g = "length (AllTaskgroups s)"
  obtain obj where s': "tasks s' = tasks s" "n_tasks s' = n_tasks s" "groups s' = (groups s)(?g := obj)"
    and o: "task_count obj = 0"
    using c by (auto simp: TaskGroupCreate_def Let_def log_call_def new_TaskgroupImpl_def split: if_splits)
  have ne: "tk_group (tasks s t) \<noteq> Some ?g" if "t < n_tasks s" for t
    using tab that by (auto simp: table_inv_def)
  have "group_open g s' = group_open g s" "group_closed g s' = group_closed g s" for g
    by (rule task_sum_cong; simp add: s')+
  moreover have "group_open ?g s = 0" "group_closed ?g s = 0"
    using ne by (auto simp: task_sum_def open_of_def closed_of_def intro!: sum.neutral)
  ultimately show ?thesis
    using inv ne o unfolding sync_inv_def by (auto simp: s')
qed

end
