(* ===== verification/Sched_System.thy ===== *)
theory Sched_System
  imports Sched_Sync
begin

text \<open>
  The runtime at work, in the callback mode: the application's threads call the API in any order
  and with any arguments, HSA fires completion handlers in any order, detached threads issue their
  copies when they get to it. The steps are those calls; what holds in every reachable
  configuration is proved by induction over them.
\<close>

section \<open>Who waits\<close>

text \<open>A wait that a call reports is for a task that was launched, and for its group.\<close>

definition wait_ok :: "rt_state \<Rightarrow> wait_for \<Rightarrow> bool" where
  "wait_ok s w =
     (case w of
        NoWait \<Rightarrow> True
      | AwaitTask t \<Rightarrow> t < n_tasks s \<and> ATMI_INITIALIZED \<le> state_of s t
      | AwaitGroup g t \<Rightarrow> t < n_tasks s \<and> ATMI_INITIALIZED \<le> state_of s t \<and>
          groupable (tasks s t) \<and> tk_group (tasks s t) = Some g)"

lemma wait_ok_NoWait [simp]: "wait_ok s NoWait"
  by (simp add: wait_ok_def)

lemma wait_ok_ages: "ages s s' \<Longrightarrow> wait_ok s w \<Longrightarrow> wait_ok s' w"
  unfolding wait_ok_def ages_def
  by (auto simp: static_task_def split: wait_for.splits intro: less_le_trans order_trans)

lemma tryDispatch_wait:
  assumes cb: "cb_inv A B s" and t: "dispatchable s t"
    and td: "tryDispatch E t args isC s = Some (d, w, s')"
  shows "wait_ok s' w"
proof -
  have sync: "dep_sync s = ATL_SYNC_CALLBACK" and dep: "dep_inv {} s"
    using cb by (simp_all add: cb_inv_def)
  have init: "ATMI_INITIALIZED \<le> state_of s' t" by (rule tryDispatch_initialized [OF sync dep t td])
  note adv = tryDispatch_cb(2) [OF cb t td]
  have n: "t < n_tasks s'" using t advances_task_fields(2) [OF adv] by (simp add: dispatchable_def)
  obtain g where g: "tk_group (tasks s t) = Some g"
    "w = NoWait \<or> w = AwaitTask t \<or> w = AwaitGroup g t \<and> groupable (tasks s' t)"
    using td by (auto simp: tryDispatch_def bind_eq_Some_conv split: if_splits)
  then show ?thesis
    using init n advances_task_fields(5) [OF adv, of t] by (auto simp: wait_ok_def)
qed

lemma ordered_loop_wait:
  assumes "cb_inv A B s" and "tg_ordered (groups s g)" and "ordered_loop n E g isC s = Some (w, s')"
  shows "wait_ok s' w"
  using assms
proof (induction n arbitrary: s)
  case (Suc n)
  show ?case
  proof (cases "running_ordered (groups s g)")
    case Nil
    then show ?thesis using Suc.prems by simp
  next
    case (Cons t ts)
    then have "t < n_tasks s \<and> tk_group (tasks s t) = Some g \<and> tg_ordered (groups s g)"
      using Suc.prems(1) dep_invD(7) [of "{}" s t g] by (simp add: cb_inv_def)
    then have t: "dispatchable s t" by (simp add: dispatchable_def in_unordered_def)
    obtain d w1 s1 where td: "tryDispatch E t None isC s = Some (d, w1, s1)"
      and rest: "if d then ordered_loop n E g isC s1 = Some (w, s') else s' = s1 \<and> w = w1"
      using Suc.prems(3) Cons by (auto simp: bind_eq_Some_conv split: if_splits)
    note step = tryDispatch_cb [OF Suc.prems(1) t td]
    have "tg_ordered (groups s1 g)" using Suc.prems(2) advances_task_fields(4) [OF step(2)] by simp
    then show ?thesis
      using rest Suc.IH [OF step(1)] tryDispatch_wait [OF Suc.prems(1) t td] by (cases d) auto
  qed
qed simp

section \<open>Configurations and steps\<close>

text \<open>
  \<open>waiting\<close> are the application threads that wait for a synchronous task; \<open>stuck\<close> is what the
  thread that runs the completion handlers waits for. HSA runs the handlers on one thread, so no
  handler fires while that thread waits.
\<close>

record config =
  rt :: rt_state
  waiting :: "wait_for list"
  stuck :: wait_for

definition returned :: "config \<Rightarrow> wait_for \<Rightarrow> rt_state \<Rightarrow> config" where
  "returned c w s = c\<lparr>rt := s, waiting := (if w = NoWait then waiting c else w # waiting c)\<rparr>"

text \<open>Task identifiers are \<open>int\<close>s; a run stays within them.\<close>

definition room :: "config \<Rightarrow> bool" where
  "room c \<longleftrightarrow> n_tasks (rt c) \<le> 2 ^ 31"

inductive step :: "hsa_env \<Rightarrow> config \<Rightarrow> config \<Rightarrow> bool" for E where
  launch: "LaunchTask E lparm k_id args (rt c) = Some (h, w, s') \<Longrightarrow>
    step E c (returned c w s')"
| create: "CreateTask lparm k_id args (rt c) = Some (h, s') \<Longrightarrow>
    step E c (c\<lparr>rt := s'\<rparr>)"
| activate: "ActivateTask E h (rt c) = Some (h', w, s') \<Longrightarrow> step E c (returned c w s')"
| template: "CreateTaskTemplate k_id (rt c) = (h, s') \<Longrightarrow> step E c (c\<lparr>rt := s'\<rparr>)"
| activate_template: "ActivateTaskTemplate E h lparm args (rt c) = Some (h', w, s') \<Longrightarrow>
    \<forall>t. getTaskImpl (rt c) h = Some (Some t) \<longrightarrow> state_of (rt c) t = ATMI_UNINITIALIZED \<Longrightarrow>
    step E c (returned c w s')"
| copy: "MemcpyAsync E cparm dest src sz (rt c) = Some (h, w, s') \<Longrightarrow>
    step E c (returned c w s')"
| copy_issue: "t \<in> set (copy_threads (rt c)) \<Longrightarrow> copy_thread E temp t (rt c) = Some s' \<Longrightarrow>
    step E c (c\<lparr>rt := s'\<rparr>)"
| group_create: "TaskGroupCreate E ordered place (rt c) = Some (h, s') \<Longrightarrow> step E c (c\<lparr>rt := s'\<rparr>)"
| group_sync: "TaskGroupSync h (rt c) = (r, Some g) \<Longrightarrow> sync_done g (rt c) \<Longrightarrow>
    sync_finish g (rt c) = Some s' \<Longrightarrow> step E c (c\<lparr>rt := s'\<rparr>)"
| group_release: "TaskGroupRelease h (rt c) = (r, s') \<Longrightarrow>
    \<forall>g. getTaskgroupImpl (rt c) h = Some g \<longrightarrow> sync_done g (rt c) \<Longrightarrow> step E c (c\<lparr>rt := s'\<rparr>)"
| task_wait: "AwaitTask t \<in> set (waiting c) \<Longrightarrow> wait_done (rt c) t \<Longrightarrow>
    finish_wait E t (rt c) = Some s' \<Longrightarrow>
    step E c (c\<lparr>rt := s', waiting := remove1 (AwaitTask t) (waiting c)\<rparr>)"
| group_wait: "AwaitGroup g t \<in> set (waiting c) \<Longrightarrow> sync_done g (rt c) \<Longrightarrow>
    sync_finish g (rt c) = Some s1 \<Longrightarrow> finish_wait E t s1 = Some s' \<Longrightarrow>
    step E c (c\<lparr>rt := s', waiting := remove1 (AwaitGroup g t) (waiting c)\<rparr>)"
| task_handler: "stuck c = NoWait \<Longrightarrow> handlers (rt c) = hs1 @ HandleTask sg t # hs2 \<Longrightarrow>
    t \<notin> set (copy_threads (rt c)) \<Longrightarrow>
    handle_signal_callback E t ((rt c)\<lparr>handlers := hs1 @ hs2\<rparr>) = Some (w, s') \<Longrightarrow>
    step E c (c\<lparr>rt := s', stuck := w\<rparr>)"
| group_handler: "stuck c = NoWait \<Longrightarrow> handlers (rt c) = hs1 @ HandleGroup sg g # hs2 \<Longrightarrow>
    \<forall>t \<in> set (running_groupable (groups (rt c) g)). t \<notin> set (copy_threads (rt c)) \<Longrightarrow>
    handle_group_signal E g ((rt c)\<lparr>handlers := hs1 @ hs2\<rparr>) = Some (w, s') \<Longrightarrow>
    step E c (c\<lparr>rt := s', stuck := w\<rparr>)"

inductive_cases stuck_stepE: "step E c (c\<lparr>rt := s', stuck := w\<rparr>)"

text \<open>The runtime after its start: kernels and pools set up, no task yet.\<close>

definition started :: "signal multiset \<Rightarrow> (impl_ptr \<Rightarrow> nat multiset) \<Rightarrow> rt_state \<Rightarrow> bool" where
  "started A B s \<longleftrightarrow> dep_sync s = ATL_SYNC_CALLBACK \<and> n_tasks s = 0 \<and>
     mset (FreeSignalPool s) = A \<and> (\<forall>p < n_impls s. mset (free_kernarg_segments (impls s p)) = B p) \<and>
     ReadyTaskQueue s = [] \<and> handlers s = [] \<and> copy_threads s = [] \<and>
     (\<forall>i < length (AllTaskgroups s). AllTaskgroups s ! i \<in> {None, Some i}) \<and>
     (\<forall>g. running_ordered (groups s g) = [] \<and> running_groupable (groups s g) = [] \<and>
        task_count (groups s g) = 0)"

inductive reachable ::
  "hsa_env \<Rightarrow> signal multiset \<Rightarrow> (impl_ptr \<Rightarrow> nat multiset) \<Rightarrow> config \<Rightarrow> bool" for E A B where
  start: "started A B s \<Longrightarrow> reachable E A B \<lparr>rt = s, waiting = [], stuck = NoWait\<rparr>"
| run: "reachable E A B c \<Longrightarrow> step E c c' \<Longrightarrow> room c' \<Longrightarrow> reachable E A B c'"

section \<open>The invariant of the system\<close>

definition config_inv ::
  "signal multiset \<Rightarrow> (impl_ptr \<Rightarrow> nat multiset) \<Rightarrow> config \<Rightarrow> bool" where
  "config_inv A B c \<longleftrightarrow> sys_inv A B (rt c) \<and> sync_inv (\<lambda>_. 0) (rt c) \<and>
     room c \<and> (\<forall>w \<in> set (waiting c). wait_ok (rt c) w)"

lemma started_inv:
  assumes "started A B s"
  shows "config_inv A B \<lparr>rt = s, waiting = [], stuck = NoWait\<rparr>"
proof -
  have "resource_inv A B s"
    using assms by (simp add: started_def resource_inv_def signal_inv_def segment_inv_def
        handler_inv_def rq.conserved_def task_sum_def)
  moreover have "dep_inv {} s" using assms by (simp add: started_def dep_inv_def)
  moreover have "sync_inv (\<lambda>_. 0) s"
    using assms by (simp add: started_def sync_inv_def task_sum_def)
  ultimately show ?thesis
    using assms by (simp add: started_def config_inv_def sys_inv_def cb_inv_def copy_inv_def
        table_inv_def templates_inv_def room_def)
qed

text \<open>What one call does to the state, as far as configurations are concerned.\<close>

definition call_ok ::
  "signal multiset \<Rightarrow> (impl_ptr \<Rightarrow> nat multiset) \<Rightarrow> rt_state \<Rightarrow> wait_for \<Rightarrow> rt_state \<Rightarrow> bool" where
  "call_ok A B s w s' \<longleftrightarrow> sys_inv A B s' \<and> ages s s' \<and> sync_inv (\<lambda>_. 0) s' \<and> wait_ok s' w"

lemma call_okI:
  "sys_inv A B s' \<and> ages s s' \<Longrightarrow> sync_inv (\<lambda>_. 0) s' \<Longrightarrow> wait_ok s' w \<Longrightarrow> call_ok A B s w s'"
  by (simp add: call_ok_def)

lemma call_ok_refl: "sys_inv A B s \<Longrightarrow> sync_inv (\<lambda>_. 0) s \<Longrightarrow> call_ok A B s NoWait s"
  by (simp add: call_ok_def ages_refl)

lemma launches_ok:
  assumes inv: "sys_inv A B s" "sync_inv (\<lambda>_. 0) s" and l: "launches E s w s'"
  shows "call_ok A B s w s'"
proof (rule call_okI [OF launches_sys [OF inv(1) l]])
  have cb: "cb_inv A B s" using inv(1) by (simp add: sys_inv_def)
  show "sync_inv (\<lambda>_. 0) s'"
    using launches_sync [OF inv(2) _ l] cb by (simp add: cb_inv_def)
  obtain t s1 s2 args d where j: "joins t s s1" and c: "sched_core s2 = sched_core s1"
    and td: "tryDispatch E t args False s2 = Some (d, w, s')"
    using l unfolding launches_def by blast
  note b = joins_cb [OF j cb]
  have 2: "cb_inv A B s2" using b(1) cb_inv_core [OF c] by simp
  have adv: "advances s1 s2" by (rule advances_core_right [OF c advances_refl])
  have "in_unordered s2 t = in_unordered s1 t" "n_tasks s2 = n_tasks s1" "state_of s2 t = state_of s1 t"
    using advances_task_fields [OF adv] core_eq_task_fields(3) [OF c] by simp_all
  then have t: "dispatchable s2 t"
    using b(2) preds_done_advances [OF adv] by (auto simp: dispatchable_def)
  show "wait_ok s' w" by (rule tryDispatch_wait [OF 2 t td])
qed

lemma ActivateTask_ok:
  assumes inv: "sys_inv A B s" "sync_inv (\<lambda>_. 0) s" and l: "ActivateTask E h s = Some (h', w, s')"
  shows "call_ok A B s w s'"
proof (rule call_okI [OF ActivateTask_sys [OF inv(1) l]])
  have cb: "cb_inv A B s" and sync: "dep_sync s = ATL_SYNC_CALLBACK"
    using inv(1) by (simp_all add: sys_inv_def cb_inv_def)
  show "sync_inv (\<lambda>_. 0) s'" by (rule ActivateTask_sync [OF inv(2) sync l])
  show "wait_ok s' w"
    using sync l
  proof (cases rule: ActivateTask_cases)
    case (group g)
    then show ?thesis using ordered_loop_wait [OF cb] by blast
  next
    case (single t d)
    then show ?thesis using tryDispatch_wait [OF cb] by blast
  qed simp
qed

lemma call_ok_returned:
  assumes "config_inv A B c" and "call_ok A B (rt c) w s'" and "room (returned c w s')"
  shows "config_inv A B (returned c w s') \<and> ages (rt c) (rt (returned c w s'))"
  using assms wait_ok_ages by (auto simp: config_inv_def call_ok_def returned_def)

lemma call_ok_silent:
  assumes "config_inv A B c" and "sys_inv A B s' \<and> ages (rt c) s'" "sync_inv (\<lambda>_. 0) s'"
    and "room (c\<lparr>rt := s', waiting := ws, stuck := w\<rparr>)" and "set ws \<subseteq> set (waiting c)"
  shows "config_inv A B (c\<lparr>rt := s', waiting := ws, stuck := w\<rparr>) \<and>
    ages (rt c) (rt (c\<lparr>rt := s', waiting := ws, stuck := w\<rparr>))"
  using assms wait_ok_ages by (auto simp: config_inv_def)

text \<open>Every step keeps the invariant, and no task is forgotten or goes back.\<close>

lemma step_inv:
  assumes "step E c c'" and inv: "config_inv A B c" and room: "room c'"
  shows "config_inv A B c' \<and> ages (rt c) (rt c')"
proof -
  have i: "sys_inv A B (rt c)" "sync_inv (\<lambda>_. 0) (rt c)" "table_inv (rt c)" "templates_inv (rt c)"
    "dep_sync (rt c) = ATL_SYNC_CALLBACK" "cb_inv A B (rt c)" "room c"
    using inv by (simp_all add: config_inv_def sys_inv_def cb_inv_def)
  have n: "n_tasks (rt c) < 2 ^ 32" using i(7) by (simp add: room_def)
  note refl = call_ok_refl [OF i(1, 2)] and ok = launches_ok [OF i(1, 2)]
  have silent: "config_inv A B c' \<and> ages (rt c) (rt c')"
    if "sys_inv A B s' \<and> ages (rt c) s'" "sync_inv (\<lambda>_. 0) s'"
      "c' = c\<lparr>rt := s', waiting := ws, stuck := w\<rparr>" "set ws \<subseteq> set (waiting c)" for s' ws w
    using call_ok_silent [OF inv that(1, 2) _ that(4), of w] room that(3) by simp
  have same: "c\<lparr>rt := s'\<rparr> = c\<lparr>rt := s', waiting := waiting c, stuck := stuck c\<rparr>"
    "c\<lparr>rt := s', waiting := ws\<rparr> = c\<lparr>rt := s', waiting := ws, stuck := stuck c\<rparr>"
    "c\<lparr>rt := s', stuck := w\<rparr> = c\<lparr>rt := s', waiting := waiting c, stuck := w\<rparr>" for s' ws w
    by simp_all
  show ?thesis
    using assms(1)
  proof cases
    case (launch lparm k_id args h w s')
    then have "call_ok A B (rt c) w s'" using LaunchTask_launches [OF i(3, 5)] refl ok by blast
    then show ?thesis using call_ok_returned [OF inv] launch(1) room by simp
  next
    case (create lparm k_id args h s')
    have "sys_inv A B s' \<and> ages (rt c) s' \<and> sync_inv (\<lambda>_. 0) s'"
      using CreateTask_initializes [OF i(3, 5) create(2)] initializes_sys [OF i(1)]
        initializes_sync [OF i(2)] i(1, 2) ages_refl by blast
    then show ?thesis using silent create(1) same(1) by blast
  next
    case (activate h h' w s')
    then show ?thesis using call_ok_returned [OF inv ActivateTask_ok [OF i(1, 2) activate(2)]] room by simp
  next
    case (template k_id h s')
    then have "s' = snd (CreateTaskTemplate k_id (rt c))" by simp
    then show ?thesis
      using silent template(1) same(1) CreateTaskTemplate_sys [OF i(1)] CreateTaskTemplate_sync [OF i(2)]
      by blast
  next
    case (activate_template h lparm args h' w s')
    then have "call_ok A B (rt c) w s'"
      using ActivateTaskTemplate_launches [OF i(3, 5, 4)] refl ok by blast
    then show ?thesis using call_ok_returned [OF inv] activate_template(1) room by simp
  next
    case (copy cparm dest src sz h w s')
    then have "call_ok A B (rt c) w s'" using MemcpyAsync_launches [OF i(3, 5)] ok by blast
    then show ?thesis using call_ok_returned [OF inv] copy(1) room by simp
  next
    case (copy_issue t temp s')
    have "state_of (rt c) t = ATMI_READY"
      using i(6) copy_issue(2) by (simp add: cb_inv_def copy_inv_def)
    then show ?thesis
      using silent copy_issue(1) same(1) copy_thread_sys [OF i(1) copy_issue(2, 3)]
        copy_thread_sync [OF i(2) _ copy_issue(3)] by blast
  next
    case (group_create ordered place h s')
    then show ?thesis
      using silent same(1) TaskGroupCreate_sys [OF i(1)] TaskGroupCreate_sync [OF i(2, 3)] by blast
  next
    case (group_sync h r g s')
    then show ?thesis
      using silent same(1) sync_finish_sys [OF i(1)] sync_finish_sync [OF i(2) n] by blast
  next
    case (group_release h r s')
    then show ?thesis
      using silent same(1) TaskGroupRelease_sys [OF i(1)] TaskGroupRelease_sync [OF i(2) n] by blast
  next
    case (task_wait t s')
    have t: "state_of (rt c) t = ATMI_COMPLETED" using task_wait(3) by (simp add: wait_done_def)
    note e = finish_wait_core [OF t task_wait(4)]
    show ?thesis
      using silent task_wait(1) same(2) sys_inv_core [OF e i(1)] settles_sync_inv [OF settles_core [OF e] i(2)]
        set_remove1_subset by metis
  next
    case (group_wait g t s1 s')
    have w: "t < n_tasks (rt c)" "groupable (tasks (rt c) t)" "tk_group (tasks (rt c) t) = Some g"
      using inv group_wait(2) by (auto simp: config_inv_def wait_ok_def)
    have a: "sys_inv A B s1 \<and> ages (rt c) s1" by (rule sync_finish_sys [OF i(1) group_wait(3, 4)])
    have b: "sync_inv (\<lambda>_. 0) s1" by (rule sync_finish_sync [OF i(2) n group_wait(3, 4)])
    have "state_of (rt c) t = ATMI_COMPLETED"
      using sync_done_completed [OF i(2) n group_wait(3) w(1, 3)] w(2) by simp
    then have t: "state_of s1 t = ATMI_COMPLETED" using sync_finish_state [OF group_wait(3, 4)] by simp
    note e = finish_wait_core [OF t group_wait(5)]
    have "sys_inv A B s' \<and> ages (rt c) s'" using sys_inv_core [OF e] a ages_trans by blast
    then show ?thesis
      using silent group_wait(1) same(2) settles_sync_inv [OF settles_core [OF e] b]
        set_remove1_subset by metis
  next
    case (task_handler hs1 sg t hs2 w s')
    have hi: "handler_inv (rt c)" using i(6) by (simp add: cb_inv_def resource_inv_def)
    note a = handle_signal_cb [OF i(6) task_handler(3, 4, 5)]
    have ng: "\<not> groupable (tasks (rt c) t)" using handler_invD(1) [OF hi, of sg t] task_handler(3) by simp
    have "settles (rt c) s'"
      using settles_trans [OF settles_simple(1) settles_handle_signal [OF _ _ task_handler(5)]] ng i(5)
      by simp
    then show ?thesis
      using silent task_handler(1) same(3) sys_inv_advances [OF i(1) a] settles_sync_inv [OF _ i(2)] by blast
  next
    case (group_handler hs1 sg g hs2 w s')
    note a = handle_group_signal_cb [OF i(6) group_handler(3, 4, 5)]
      and b = handle_group_signal_sync [OF i(6, 2) group_handler(3, 4, 5)]
    show ?thesis using silent group_handler(1) same(3) sys_inv_advances [OF i(1) a] b by blast
  qed
qed

lemma reachable_inv: "reachable E A B c \<Longrightarrow> config_inv A B c"
proof (induction rule: reachable.induct)
  case (start s)
  then show ?case by (rule started_inv)
next
  case (run c c')
  then show ?case using step_inv by blast
qed

section \<open>What the partition of resources means\<close>

lemma task_sum_two:
  fixes f :: "TaskImpl \<Rightarrow> 'a multiset"
  assumes "t < n_tasks s" "u < n_tasks s" "t \<noteq> u"
  shows "f (tasks s t) + f (tasks s u) \<subseteq># task_sum f s"
proof -
  have "task_sum f s = f (tasks s t) + (\<Sum>x \<in> {..<n_tasks s} - {t}. f (tasks s x))"
    unfolding task_sum_def using assms by (intro sum.remove) auto
  also have "(\<Sum>x \<in> {..<n_tasks s} - {t}. f (tasks s x)) =
      f (tasks s u) + (\<Sum>x \<in> {..<n_tasks s} - {t} - {u}. f (tasks s x))"
    using assms by (intro sum.remove) auto
  finally show ?thesis by (simp add: add.assoc [symmetric])
qed

lemma task_sum_one:
  fixes f :: "TaskImpl \<Rightarrow> 'a multiset"
  assumes "t < n_tasks s"
  shows "f (tasks s t) \<subseteq># task_sum f s"
proof -
  have "task_sum f s = f (tasks s t) + (\<Sum>x \<in> {..<n_tasks s} - {t}. f (tasks s x))"
    unfolding task_sum_def using assms by (intro sum.remove) auto
  then show ?thesis by simp
qed

lemma distinct_partition:
  assumes "mset q + task_sum f s = A" and one: "\<And>x. Multiset.count A x \<le> 1"
    and t: "t < n_tasks s" "f (tasks s t) = {#x#}"
  shows "x \<notin> set q" and "u < n_tasks s \<Longrightarrow> u \<noteq> t \<Longrightarrow> f (tasks s u) = {#y#} \<Longrightarrow> y \<noteq> x"
proof -
  have "mset q + {#x#} \<subseteq># A" using task_sum_one [OF t(1), of f] t(2) assms(1) by auto
  then have "Multiset.count (mset q) x + 1 \<le> Multiset.count A x"
    by (metis count_add_mset add_mset_add_single mset_subset_eq_count Suc_eq_plus1)
  then have "Multiset.count (mset q) x = 0" using one [of x] by linarith
  then show "x \<notin> set q" by simp
  show "y \<noteq> x" if u: "u < n_tasks s" "u \<noteq> t" "f (tasks s u) = {#y#}"
  proof
    assume "y = x"
    have "task_sum f s \<subseteq># A" using assms(1) by auto
    then have "{#x#} + {#x#} \<subseteq># A"
      using task_sum_two [OF t(1) u(1), of f] u t(2) \<open>y = x\<close> subset_mset.order_trans by force
    then have "Multiset.count ({#x#} + {#x#}) x \<le> Multiset.count A x" by (rule mset_subset_eq_count)
    then show False using one [of x] by simp
  qed
qed

lemma reachable_parts:
  assumes "reachable E A B c"
  shows "cb_inv A B (rt c)" "sync_inv (\<lambda>_. 0) (rt c)" "dep_inv {} (rt c)" "signal_inv A (rt c)"
    "segment_inv B (rt c)" "handler_inv (rt c)" "copy_inv (rt c)" "n_tasks (rt c) < 2 ^ 32"
  using reachable_inv [OF assms]
  by (simp_all add: config_inv_def sys_inv_def cb_inv_def resource_inv_def room_def)

end
