(* ===== verification/Sched_Exec.thy ===== *)
theory Sched_Exec
  imports Sched_System
begin

text \<open>
  The steps of the system as a function of an event, so that a run can be evaluated: every event
  that goes through is a step of the relation. The runs of the witnesses are lists of events on a
  small machine.
\<close>

section \<open>Events\<close>

datatype event =
    EvLaunch atmi_lparm_t u64 "u8 list list option"
  | EvCreate atmi_lparm_t u64 "u8 list list option"
  | EvActivate atmi_task_handle_t
  | EvCopy atmi_cparm_t u64 u64 u64
  | EvCopyIssue tid u64
  | EvGroupCreate bool atmi_place_t
  | EvGroupSync atmi_taskgroup_handle_t
  | EvHandler nat

definition fire_handler :: "hsa_env \<Rightarrow> nat \<Rightarrow> config \<Rightarrow> config option" where
  "fire_handler E i c =
     (let s = rt c; hs = handlers s in
      if stuck c \<noteq> NoWait \<or> length hs \<le> i then None
      else
        let s0 = s\<lparr>handlers := take i hs @ drop (Suc i) hs\<rparr> in
        case hs ! i of
          HandleTask sg t \<Rightarrow>
            if t \<in> set (copy_threads s) then None
            else map_option (\<lambda>(w, s'). c\<lparr>rt := s', stuck := w\<rparr>) (handle_signal_callback E t s0)
        | HandleGroup sg g \<Rightarrow>
            if \<exists>t \<in> set (running_groupable (groups s g)). t \<in> set (copy_threads s) then None
            else map_option (\<lambda>(w, s'). c\<lparr>rt := s', stuck := w\<rparr>) (handle_group_signal E g s0)
        | HandleBatch sg ts \<Rightarrow> None)"

fun fire :: "hsa_env \<Rightarrow> event \<Rightarrow> config \<Rightarrow> config option" where
  "fire E (EvLaunch lparm k_id args) c =
     map_option (\<lambda>(h, w, s'). returned c w s') (LaunchTask E lparm k_id args (rt c))"
| "fire E (EvCreate lparm k_id args) c =
     map_option (\<lambda>(h, s'). c\<lparr>rt := s'\<rparr>) (CreateTask lparm k_id args (rt c))"
| "fire E (EvActivate h) c =
     map_option (\<lambda>(h', w, s'). returned c w s') (ActivateTask E h (rt c))"
| "fire E (EvCopy cparm dest src sz) c =
     map_option (\<lambda>(h, w, s'). returned c w s') (MemcpyAsync E cparm dest src sz (rt c))"
| "fire E (EvCopyIssue t temp) c =
     (if t \<in> set (copy_threads (rt c))
      then map_option (\<lambda>s'. c\<lparr>rt := s'\<rparr>) (copy_thread E temp t (rt c)) else None)"
| "fire E (EvGroupCreate ordered place) c =
     map_option (\<lambda>(h, s'). c\<lparr>rt := s'\<rparr>) (TaskGroupCreate E ordered place (rt c))"
| "fire E (EvGroupSync h) c =
     (case snd (TaskGroupSync h (rt c)) of
        None \<Rightarrow> None
      | Some g \<Rightarrow>
          if sync_done g (rt c) then map_option (\<lambda>s'. c\<lparr>rt := s'\<rparr>) (sync_finish g (rt c)) else None)"
| "fire E (EvHandler i) c = fire_handler E i c"

fun fire_all :: "hsa_env \<Rightarrow> event list \<Rightarrow> config \<Rightarrow> config option" where
  "fire_all E [] c = Some c"
| "fire_all E (e # es) c =
     Option.bind (fire E e c) (\<lambda>c'. if int (n_tasks (rt c')) \<le> 2 ^ 31 then fire_all E es c' else None)"

lemma fire_handler_step:
  assumes "fire_handler E i c = Some c'"
  shows "step E c c'"
proof -
  let ?hs = "handlers (rt c)"
  have i: "stuck c = NoWait" "i < length ?hs"
    using assms by (auto simp: fire_handler_def Let_def split: if_splits)
  note hs = id_take_nth_drop [OF i(2)]
  show ?thesis
  proof (cases "?hs ! i")
    case (HandleTask sg t)
    then show ?thesis
      using assms i hs step.task_handler [of c "take i ?hs" sg t "drop (Suc i) ?hs" E]
      by (auto simp: fire_handler_def Let_def split: if_splits)
  next
    case (HandleGroup sg g)
    then show ?thesis
      using assms i hs step.group_handler [of c "take i ?hs" sg g "drop (Suc i) ?hs" E]
      by (auto simp: fire_handler_def Let_def split: if_splits)
  next
    case (HandleBatch sg ts)
    then show ?thesis using assms i by (simp add: fire_handler_def Let_def)
  qed
qed

lemma fire_step: "fire E e c = Some c' \<Longrightarrow> step E c c'"
  by (cases e)
     (auto simp: TaskGroupSync_def fire_handler_step intro: step.intros split: if_splits option.splits)

lemma fire_all_reachable:
  "reachable E A B c \<Longrightarrow> fire_all E es c = Some c' \<Longrightarrow> reachable E A B c'"
proof (induction es arbitrary: c)
  case (Cons e es)
  then obtain c1 where "fire E e c = Some c1" "room c1" "fire_all E es c1 = Some c'"
    by (auto simp: bind_eq_Some_conv room_def split: if_splits)
  then show ?case using Cons.IH Cons.prems(1) reachable.run fire_step by blast
qed simp

section \<open>A small machine\<close>

text \<open>One CPU; HSA hands out signals counted from 1000; nothing else is asked.\<close>

definition demo_env :: hsa_env where
  "demo_env =
     \<lparr>write_index_of = (\<lambda>l q. of_nat (length l)), load_write_index_of = (\<lambda>l q. of_nat (length l)),
      queue_size_of = (\<lambda>_. 1024), new_signal_of = (\<lambda>l. 1000 + of_nat (length l)),
      IdentityORSignal = 1, IdentityANDSignal = 2, IdentityCopySignal = 3,
      hostcall_buffer = (\<lambda>_ _. 0), dispatch_start = (\<lambda>_ _. 0), dispatch_end = (\<lambda>_ _. 0),
      timestamp_frequency = 1000000000, clock_now = (\<lambda>_. \<lparr>tv_sec = 0, tv_nsec = 0\<rparr>),
      context_init_time = \<lparr>tv_sec = 0, tv_nsec = 0\<rparr>, task_addr = of_nat\<rparr>"

definition demo_machine :: ATLMachine where
  "demo_machine =
     \<lparr>cpu_processors = [new_processor 7 ATMI_DEVTYPE_CPU],
      gpu_processors = [], dsp_processors = []\<rparr>"

definition demo_start :: "signal list \<Rightarrow> rt_state" where
  "demo_start sigs = (rt_start ATL_SYNC_CALLBACK demo_machine [])\<lparr>FreeSignalPool := sigs\<rparr>"

definition demo_config :: "signal list \<Rightarrow> config" where
  "demo_config sigs = \<lparr>rt = demo_start sigs, waiting = [], stuck = NoWait\<rparr>"

lemma demo_reachable: "reachable E (mset sigs) B (demo_config sigs)"
  unfolding demo_config_def
  by (rule reachable.start) (simp add: started_def demo_start_def rt_start_def new_TaskgroupImpl_def)

text \<open>An asynchronous copy in a group, after other tasks.\<close>

definition demo_copy :: "atmi_taskgroup_handle_t \<Rightarrow> bool \<Rightarrow> atmi_task_handle_t list \<Rightarrow> event" where
  "demo_copy g grp reqs =
     EvCopy \<lparr>cp_group = g, cp_groupable = grp, cp_profilable = False, cp_synchronous = False,
       cp_requires = reqs, cp_required_groups = [], cp_task_info = None\<rparr> 0x2000 0x1000 64"

text \<open>A run that was evaluated ends in a reachable configuration.\<close>

lemma demo_run:
  assumes "map_option f (fire_all demo_env es (demo_config sigs)) = Some v"
  shows "\<exists>c. reachable demo_env (mset sigs) (\<lambda>_. {#}) c \<and> f c = v"
proof -
  obtain c where c: "fire_all demo_env es (demo_config sigs) = Some c" "f c = v" using assms by auto
  from fire_all_reachable [OF demo_reachable c(1)] c(2) show ?thesis by blast
qed

text \<open>Two copies in an unordered group, the second after the first; the first completes.\<close>

definition demo_chain :: "event list" where
  "demo_chain = [EvGroupCreate False ATMI_DEFAULT_PLACE, demo_copy 0 False [],
     demo_copy 0 False [0], EvHandler 0]"

lemma demo_chain_run:
  "map_option (\<lambda>c. (n_tasks (rt c), map (\<lambda>t. state_of (rt c) t) [0, 1], predecessors (tasks (rt c) 1),
       in_unordered (rt c) 1, map (\<lambda>t. groupable (tasks (rt c) t)) [0, 1],
       tk_signal (tasks (rt c) 1), FreeSignalPool (rt c)))
     (fire_all demo_env demo_chain (demo_config [100, 101])) =
   Some (2, [ATMI_COMPLETED, ATMI_DISPATCHED], [0], True, [False, False], 101, [100])"
  unfolding demo_chain_def by code_simp

section \<open>A machine with a kernel\<close>

text \<open>
  One CPU with two queues, one CPU kernel with an argument of two bytes, and the kernarg segments
  \<open>segs\<close>.
\<close>

definition demo_kernel_start :: "signal list \<Rightarrow> nat list \<Rightarrow> rt_state" where
  "demo_kernel_start sigs segs =
     (rt_start ATL_SYNC_CALLBACK
        \<lparr>cpu_processors = [(new_processor 7 ATMI_DEVTYPE_CPU)\<lparr>p_queues := [40, 41]\<rparr>],
         gpu_processors = [], dsp_processors = []\<rparr> [])
       \<lparr>FreeSignalPool := sigs, atmi_initialized := True, g_cpu_initialized := True,
        kernels := [1 \<mapsto> \<lparr>kn_id = 1, kn_num_args = 1, kn_arg_sizes = [2], kn_impls = [0],
          kn_id_map = [0 \<mapsto> 0]\<rparr>],
        impls := (\<lambda>_. (new_KernelImpl 0 [] X86 ATMI_DEVTYPE_CPU)\<lparr>arg_offsets := [0],
          has_kernarg_region := True, free_kernarg_segments := segs, kernarg_segment_size := 2\<rparr>),
        n_impls := 1\<rparr>"

definition demo_kernel_config :: "signal list \<Rightarrow> nat list \<Rightarrow> config" where
  "demo_kernel_config sigs segs = \<lparr>rt = demo_kernel_start sigs segs, waiting = [], stuck = NoWait\<rparr>"

lemma demo_kernel_reachable:
  "reachable E (mset sigs) (\<lambda>_. mset segs) (demo_kernel_config sigs segs)"
  unfolding demo_kernel_config_def
  by (rule reachable.start)
     (simp add: started_def demo_kernel_start_def rt_start_def new_TaskgroupImpl_def new_KernelImpl_def)

lemma demo_kernel_run:
  assumes "map_option f (fire_all demo_env es (demo_kernel_config sigs segs)) = Some v"
  shows "\<exists>c. reachable demo_env (mset sigs) (\<lambda>_. mset segs) c \<and> f c = v"
proof -
  obtain c where c: "fire_all demo_env es (demo_kernel_config sigs segs) = Some c" "f c = v"
    using assms by auto
  from fire_all_reachable [OF demo_kernel_reachable c(1)] c(2) show ?thesis by blast
qed

lemma demo_kernel_step:
  assumes "Option.bind (fire_all demo_env es (demo_kernel_config sigs segs))
      (\<lambda>c. map_option (f c) (fire demo_env e c)) = Some v"
  shows "\<exists>c c'. reachable demo_env (mset sigs) (\<lambda>_. mset segs) c \<and> step demo_env c c' \<and> f c c' = v"
proof -
  obtain c c' where c: "fire_all demo_env es (demo_kernel_config sigs segs) = Some c"
    "fire demo_env e c = Some c'" "f c c' = v"
    using assms by (auto simp: bind_eq_Some_conv)
  from fire_all_reachable [OF demo_kernel_reachable c(1)] fire_step [OF c(2)] c(3) show ?thesis
    by blast
qed

text \<open>A launch of the kernel with one thread.\<close>

definition demo_lparm ::
  "atmi_taskgroup_handle_t \<Rightarrow> bool \<Rightarrow> bool \<Rightarrow> atmi_task_handle_t list \<Rightarrow>
   atmi_taskgroup_handle_t list \<Rightarrow> atmi_lparm_t" where
  "demo_lparm g grp sync reqs greqs =
     \<lparr>lp_gridDim = (1, 1, 1), lp_groupDim = (1, 1, 1), lp_group = g, lp_groupable = grp,
      lp_synchronous = sync, lp_acquire_scope = ATMI_FENCE_SCOPE_SYSTEM,
      lp_release_scope = ATMI_FENCE_SCOPE_SYSTEM, lp_requires = reqs, lp_required_groups = greqs,
      lp_profilable = False, lp_kernel_id = 0, lp_place = ATMI_PLACE_CPU 0 0, lp_task_info = None\<rparr>"

definition demo_launch ::
  "atmi_taskgroup_handle_t \<Rightarrow> bool \<Rightarrow> atmi_task_handle_t list \<Rightarrow>
   atmi_taskgroup_handle_t list \<Rightarrow> event" where
  "demo_launch g grp reqs greqs = EvLaunch (demo_lparm g grp False reqs greqs) 1 (Some [[3, 4]])"

text \<open>
  Three independent launches with two segments: the third waits in the ready queue until one of
  the others is done.
\<close>

definition demo_busy :: "event list" where
  "demo_busy = [EvGroupCreate False ATMI_DEFAULT_PLACE, demo_launch 0 False [] [],
     demo_launch 0 False [] [], demo_launch 0 False [] []]"

lemma demo_busy_run:
  "map_option (\<lambda>c. (n_tasks (rt c), map (\<lambda>t. state_of (rt c) t) [0, 1, 2],
       map (\<lambda>t. (tk_signal (tasks (rt c) t), tk_kernarg_index (tasks (rt c) t))) [0, 1],
       map (\<lambda>t. impl_of (kernels (rt c)) (tasks (rt c) t)) [0, 1], n_impls (rt c),
       ReadyTaskQueue (rt c), handlers (rt c)))
     (fire_all demo_env demo_busy (demo_kernel_config [100, 101, 102] [0, 1])) =
   Some (3, [ATMI_DISPATCHED, ATMI_DISPATCHED, ATMI_INITIALIZED], [(100, 0), (101, 1)],
     [Some 0, Some 0], 1, [2], [HandleTask 100 0, HandleTask 101 1])"
  unfolding demo_busy_def by code_simp

lemma demo_step_run:
  "Option.bind (fire_all demo_env demo_busy (demo_kernel_config [100, 101, 102] [0, 1]))
     (\<lambda>c. map_option (\<lambda>c'. (n_tasks (rt c), n_tasks (rt c'), state_of (rt c) 2, state_of (rt c') 2))
        (fire demo_env (EvHandler 0) c)) =
   Some (3, 3, ATMI_INITIALIZED, ATMI_DISPATCHED)"
  unfolding demo_busy_def by code_simp

text \<open>Two launches, the second of which requires the first.\<close>

lemma demo_linked_run:
  "map_option (\<lambda>c. (n_tasks (rt c), map (\<lambda>t. state_of (rt c) t) [0, 1],
       map (\<lambda>t. and_successors (tasks (rt c) t)) [0, 1]))
     (fire_all demo_env [EvGroupCreate False ATMI_DEFAULT_PLACE, demo_launch 0 False [] [],
        demo_launch 0 False [0] []] (demo_kernel_config [100, 101, 102] [0, 1, 2])) =
   Some (2, [ATMI_DISPATCHED, ATMI_INITIALIZED], [[1], []])"
  by code_simp

text \<open>A task that was created and not activated, and what granting would give it.\<close>

lemma demo_created_run:
  "map_option (\<lambda>c. (state_of (rt c) 0, task_kernel_impl (rt c) 0,
       map_option (\<lambda>s. (tk_signal (tasks s 0), FreeSignalPool s)) (host_grant demo_env 0 0 None (rt c))))
     (fire_all demo_env [EvGroupCreate False ATMI_DEFAULT_PLACE,
        EvCreate (demo_lparm 0 False False [] []) 1 (Some [[3, 4]])] (demo_kernel_config [100, 101] [0, 1])) =
   Some (ATMI_INITIALIZED, Some (Some 0), Some (100, [101]))"
  by code_simp

text \<open>What the completion of a task does that another one waits for.\<close>

lemma demo_release_run:
  "map_option (\<lambda>c. (num_predecessors (tasks (rt c) 1),
       map_option (\<lambda>s. (state_of s 0, num_predecessors (tasks s 1), ReadyTaskQueue s, FreeSignalPool s))
         (complete_task demo_env 0 (rt c))))
     (fire_all demo_env [EvGroupCreate False ATMI_DEFAULT_PLACE, demo_launch 0 False [] [],
         demo_launch 0 False [0] []] (demo_kernel_config [100, 101] [0, 1])) =
   Some (1, Some (ATMI_COMPLETED, 0, [1], [101, 100]))"
  by code_simp

text \<open>Two created tasks of an ordered group wait to be dispatched.\<close>

lemma demo_drain_run:
  "map_option (\<lambda>c. (tg_ordered (groups (rt c) 0), running_ordered (groups (rt c) 0),
       map_option (\<lambda>(w, s). (w, map (state_of s) [0, 1], running_ordered (groups s 0)))
         (ordered_loop 3 demo_env 0 True (rt c))))
     (fire_all demo_env [EvGroupCreate True ATMI_DEFAULT_PLACE,
         EvCreate (demo_lparm 0 False False [] []) 1 (Some [[3, 4]]),
         EvCreate (demo_lparm 0 False False [] []) 1 (Some [[3, 4]])] (demo_kernel_config [100, 101] [0, 1])) =
   Some (True, [0, 1], Some (NoWait, [ATMI_DISPATCHED, ATMI_DISPATCHED], []))"
  by code_simp

text \<open>An ordered group whose only task is completed.\<close>

lemma demo_synced_run:
  "map_option (\<lambda>c. (tg_ordered (groups (rt c) 0), sync_done 0 (rt c), last_task (groups (rt c) 0),
       running_ordered (groups (rt c) 0), sync_finish 0 (rt c) \<noteq> None))
     (fire_all demo_env [EvGroupCreate True ATMI_DEFAULT_PLACE, demo_launch 0 False [] [], EvHandler 0]
       (demo_kernel_config [100, 101] [0, 1])) =
   Some (True, True, Some 0, [], True)"
  by code_simp

text \<open>A task created when its only predecessor was done already, then activated.\<close>

definition demo_late :: "event list" where
  "demo_late = [EvGroupCreate False ATMI_DEFAULT_PLACE, demo_launch 0 False [] [], EvHandler 0,
     EvCreate (demo_lparm 0 False False [0] []) 1 (Some [[3, 4]])]"

lemma demo_late_run:
  "map_option (\<lambda>c. (dep_sync (rt c), n_tasks (rt c), map (\<lambda>t. state_of (rt c) t) [0, 1],
       getTaskImpl (rt c) 1, tk_group (tasks (rt c) 1), tg_ordered (groups (rt c) 0),
       predecessors (tasks (rt c) 1), (tk_id (tasks (rt c) 1),
       num_predecessors (tasks (rt c) 1), ReadyTaskQueue (rt c), handlers (rt c))))
     (fire_all demo_env demo_late (demo_kernel_config [100, 101] [0, 1])) =
   Some (ATL_SYNC_CALLBACK, 2, [ATMI_COMPLETED, ATMI_INITIALIZED], Some (Some 1), Some 0, False,
     [0], (1, 0, [], []))"
  unfolding demo_late_def by code_simp

lemma demo_idle_run:
  "map_option (\<lambda>c. (n_tasks (rt c), map (\<lambda>t. state_of (rt c) t) [0, 1, 2], n_impls (rt c)))
     (fire_all demo_env (demo_busy @ [EvHandler 0, EvHandler 0, EvHandler 0])
        (demo_kernel_config [100, 101, 102] [0, 1])) =
   Some (3, [ATMI_COMPLETED, ATMI_COMPLETED, ATMI_COMPLETED], 1)"
  unfolding demo_busy_def by code_simp

text \<open>
  A group of two groupable tasks, and a third task that requires the group, after the group's
  handler ran.
\<close>

definition demo_group :: "event list" where
  "demo_group = [EvGroupCreate False ATMI_DEFAULT_PLACE, EvGroupCreate False ATMI_DEFAULT_PLACE,
     demo_launch 0 True [] [], demo_launch 0 True [] [], demo_launch 1 False [] [0], EvHandler 0]"

lemma demo_group_run:
  "map_option (\<lambda>c. (n_tasks (rt c), map (\<lambda>t. state_of (rt c) t) [0, 1, 2],
       map (\<lambda>t. tk_group (tasks (rt c) t)) [0, 1], map (\<lambda>t. groupable (tasks (rt c) t)) [0, 1],
       num_predecessors (tasks (rt c) 2), tg_and_successors (groups (rt c) 0), sync_done 0 (rt c),
       (ReadyTaskQueue (rt c), handlers (rt c), copy_threads (rt c), stuck c)))
     (fire_all demo_env demo_group (demo_kernel_config [100, 101] [0, 1, 2])) =
   Some (3, [ATMI_COMPLETED, ATMI_COMPLETED, ATMI_INITIALIZED], [Some 0, Some 0], [True, True],
     1, [], True, ([], [], [], NoWait))"
  unfolding demo_group_def by code_simp

text \<open>
  An ordered group with two tasks, the second of which requires a task of another group that still
  runs, when the first completes.
\<close>

definition demo_ordered :: "event list" where
  "demo_ordered = [EvGroupCreate True ATMI_DEFAULT_PLACE, EvGroupCreate False ATMI_DEFAULT_PLACE,
     demo_launch 1 False [] [], demo_launch 0 False [] [], demo_launch 0 False [0] [], EvHandler 1]"

lemma demo_ordered_run:
  "map_option (\<lambda>c. (n_tasks (rt c), map (\<lambda>t. state_of (rt c) t) [0, 1, 2],
       predecessors (tasks (rt c) 2), running_ordered (groups (rt c) 0)))
     (fire_all demo_env demo_ordered (demo_kernel_config [100, 101, 102] [0, 1, 2])) =
   Some (3, [ATMI_DISPATCHED, ATMI_COMPLETED, ATMI_DISPATCHED], [0], [])"
  unfolding demo_ordered_def by code_simp

text \<open>A copy to a registered GPU block, which is staged: a detached thread has yet to issue it.\<close>

definition demo_mapped_config :: "signal list \<Rightarrow> config" where
  "demo_mapped_config sigs =
     \<lparr>rt = (demo_start sigs)\<lparr>
        machine := demo_machine\<lparr>gpu_processors := [new_processor 8 ATMI_DEVTYPE_GPU]\<rparr>,
        g_data_map := [(memory_range 0x2000 256,
        \<lparr>data_ptr = 0x2000, data_host_aliasptr = 0, data_bytes = 256,
         data_place = \<lparr>mem_node_id = 0, dev_type = ATMI_DEVTYPE_GPU, dev_id = 0, mem_id = 0\<rparr>,
         data_arg_type = ATMI_IN\<rparr>)]\<rparr>,
      waiting = [], stuck = NoWait\<rparr>"

lemma demo_mapped_run:
  "\<exists>c. reachable demo_env (mset [100, 101]) (\<lambda>_. {#}) c \<and> copy_threads (rt c) = [0]"
proof -
  have "map_option (\<lambda>c. copy_threads (rt c)) (fire_all demo_env
      [EvGroupCreate False ATMI_DEFAULT_PLACE, demo_copy 0 False []] (demo_mapped_config [100, 101])) =
    Some [0]"
    by code_simp
  then obtain c where c: "fire_all demo_env [EvGroupCreate False ATMI_DEFAULT_PLACE, demo_copy 0 False []]
      (demo_mapped_config [100, 101]) = Some c" "copy_threads (rt c) = [0]"
    by auto
  have "reachable demo_env (mset [100, 101]) (\<lambda>_. {#}) (demo_mapped_config [100, 101])"
    unfolding demo_mapped_config_def
    by (rule reachable.start) (simp add: started_def demo_start_def rt_start_def new_TaskgroupImpl_def)
  from fire_all_reachable [OF this c(1)] c(2) show ?thesis by blast
qed

end
