(* ===== verification/Barrier_Invariants.thy ===== *)
theory Barrier_Invariants
  imports Sched_Calls
begin

text \<open>
  The invariants of the barrier mode for tasks that are not groupable (the completion handler of
  the mode asserts that there are no others): who holds signals and kernarg segments, where every
  task is between its launch and its completion, and that the sink tasks, over which the barrier
  before a completion handler is enqueued, stand for all the tasks that the handler retires.
\<close>

section \<open>What the sinks stand for\<close>

text \<open>
  The links by which the code drops a task from the sinks: \<open>u\<close> has \<open>t\<close> in its dependency list, so
  its packets are behind a barrier on the signal of \<open>t\<close>, or \<open>u\<close> follows \<open>t\<close> in an ordered group.
  A link of the second kind alone is no wait: a copy that follows a copy gets no dependency.
\<close>

definition comes_after :: "rt_state \<Rightarrow> tid \<Rightarrow> tid \<Rightarrow> bool" where
  "comes_after s u t \<longleftrightarrow>
     t \<in> set (and_predecessors (tasks s u)) \<or> prev_ordered (tasks s u) = Some t"

fun covered :: "rt_state \<Rightarrow> tid list \<Rightarrow> tid list \<Rightarrow> bool" where
  "covered s S [] = True"
| "covered s S (t # ts) = ((t \<in> set S \<or> (\<exists>u \<in> set ts. comes_after s u t)) \<and> covered s S ts)"

lemma covered_cong:
  "(\<And>u t. u \<in> set ts \<Longrightarrow> comes_after s' u t = comes_after s u t) \<Longrightarrow>
   covered s' S ts = covered s S ts"
  by (induction ts) auto

lemma covered_snoc:
  assumes "covered s S ts" and "\<And>u x. u \<in> set ts \<Longrightarrow> comes_after s' u x = comes_after s u x"
    and "\<And>x. x \<in> set S \<Longrightarrow> x \<in> set S' \<or> comes_after s' t x" and "t \<in> set S'"
  shows "covered s' S' (ts @ [t])"
  using assms by (induction ts) auto

lemma covered_sinks: "covered s [] ts \<Longrightarrow> ts = []"
proof (induction ts)
  case (Cons t ts)
  then show ?case by (cases ts) auto
qed simp

text \<open>Every task leads to a sink.\<close>

lemma covered_reaches:
  assumes "covered s S ts" and "t \<in> set ts"
  shows "\<exists>u \<in> set S. (comes_after s)\<^sup>*\<^sup>* u t"
  using assms
proof (induction ts arbitrary: t)
  case (Cons a ts)
  have a: "a \<in> set S \<or> (\<exists>u \<in> set ts. comes_after s u a)" using Cons.prems(1) by simp
  show ?case
  proof (cases "t \<in> set ts")
    case True
    then show ?thesis using Cons by simp
  next
    case False
    then have ta: "t = a" using Cons.prems(2) by simp
    show ?thesis
    proof (cases "a \<in> set S")
      case False
      then obtain u where u: "u \<in> set ts" "comes_after s u a" using a by blast
      then obtain v where "v \<in> set S" "(comes_after s)\<^sup>*\<^sup>* v u" using Cons by auto
      then show ?thesis using u(2) ta rtranclp.rtrancl_into_rtrancl [of "comes_after s" v u a] by blast
    qed (use ta in auto)
  qed
qed simp

text \<open>Where every link of the list is a dependency, the tasks of the chain wait for each other.\<close>

definition depends_on :: "rt_state \<Rightarrow> tid \<Rightarrow> tid \<Rightarrow> bool" where
  "depends_on s u t \<longleftrightarrow> t \<in> set (and_predecessors (tasks s u))"

lemma covered_depends:
  assumes "covered s S ts" and "t \<in> set ts"
    and "\<And>u x. u \<in> set ts \<Longrightarrow> x \<in> set ts \<Longrightarrow> prev_ordered (tasks s u) = Some x \<Longrightarrow> depends_on s u x"
  shows "\<exists>u \<in> set S. (depends_on s)\<^sup>*\<^sup>* u t"
  using assms
proof (induction ts arbitrary: t)
  case (Cons a ts)
  have IH: "\<exists>v \<in> set S. (depends_on s)\<^sup>*\<^sup>* v x" if "x \<in> set ts" for x
    using Cons.IH [OF _ that] Cons.prems(1, 3) by simp
  show ?case
  proof (cases "t \<in> set ts")
    case False
    then have ta: "t = a" using Cons.prems(2) by simp
    show ?thesis
    proof (cases "a \<in> set S")
      case False
      then obtain u where u: "u \<in> set ts" "comes_after s u a" using Cons.prems(1) by auto
      then have d: "depends_on s u a" using Cons.prems(3) [of u a] by (auto simp: comes_after_def depends_on_def)
      obtain v where "v \<in> set S" "(depends_on s)\<^sup>*\<^sup>* v u" using IH [OF u(1)] by blast
      then show ?thesis using d ta rtranclp.rtrancl_into_rtrancl [of "depends_on s" v u a] by blast
    qed (use ta in auto)
  qed (rule IH)
qed simp

section \<open>The invariant\<close>

fun batch_tasks :: "async_handler list \<Rightarrow> tid list" where
  "batch_tasks [] = []"
| "batch_tasks (HandleBatch sg ts # hs) = ts @ batch_tasks hs"
| "batch_tasks (_ # hs) = batch_tasks hs"

lemma batch_tasks_append [simp]: "batch_tasks (xs @ ys) = batch_tasks xs @ batch_tasks ys"
  by (induction xs rule: batch_tasks.induct) auto

text \<open>The tasks that wait for a handler; a handler at work has \<open>X\<close> left to retire.\<close>

definition owned :: "tid list \<Rightarrow> rt_state \<Rightarrow> tid list" where
  "owned X s = X @ batch_tasks (handlers s)"

definition lists_inv :: "tid list \<Rightarrow> rt_state \<Rightarrow> bool" where
  "lists_inv X s \<longleftrightarrow>
     (\<forall>h \<in> set (handlers s). \<exists>sg ts. h = HandleBatch sg ts \<and> ts \<noteq> []) \<and>
     distinct (owned X s) \<and>
     (\<forall>t \<in> set (owned X s). t < n_tasks s \<and> live (tasks s t)) \<and>
     (\<forall>g. distinct (dispatched_tasks (groups s g)) \<and>
        (\<forall>t \<in> set (dispatched_tasks (groups s g)). t < n_tasks s \<and> live (tasks s t) \<and>
           tk_group (tasks s t) = Some g \<and> t \<notin> set (owned X s)) \<and>
        set (dispatched_sink (groups s g)) \<subseteq> set (dispatched_tasks (groups s g)) \<and>
        covered s (dispatched_sink (groups s g)) (dispatched_tasks (groups s g))) \<and>
     (\<forall>g. distinct (created_tasks (groups s g)) \<and>
        (\<forall>t \<in> set (created_tasks (groups s g)). t < n_tasks s \<and>
           tk_group (tasks s t) = Some g \<and> state_of s t < ATMI_READY))"

definition tasks_inv :: "tid list \<Rightarrow> rt_state \<Rightarrow> bool" where
  "tasks_inv X s \<longleftrightarrow> (\<forall>t < n_tasks s. \<not> groupable (tasks s t) \<and>
     (state_of s t < ATMI_READY \<longrightarrow> and_predecessors (tasks s t) = []) \<and>
     (live (tasks s t) \<longrightarrow> t \<in> set (owned X s) \<or>
        (\<exists>g. t \<in> set (dispatched_tasks (groups s g)))) \<and>
     (\<forall>g. tk_group (tasks s t) = Some g \<longrightarrow> state_of s t < ATMI_READY \<longrightarrow>
        t \<in> set (created_tasks (groups s g))) \<and>
     (tk_group (tasks s t) = None \<longrightarrow> state_of s t = ATMI_UNINITIALIZED) \<and>
     state_of s t \<noteq> ATMI_EXECUTED)"

definition bar_inv ::
  "signal multiset \<Rightarrow> (impl_ptr \<Rightarrow> nat multiset) \<Rightarrow> tid list \<Rightarrow> rt_state \<Rightarrow> bool" where
  "bar_inv A B X s \<longleftrightarrow> dep_sync s = ATL_SYNC_BARRIER_PKT \<and> signal_inv A s \<and> segment_inv B s \<and>
     copy_inv s \<and> table_inv s \<and> lists_inv X s \<and> tasks_inv X s"

lemma bar_invD:
  assumes "bar_inv A B X s"
  shows "dep_sync s = ATL_SYNC_BARRIER_PKT" "signal_inv A s" "segment_inv B s" "copy_inv s"
    "table_inv s" "lists_inv X s" "tasks_inv X s"
  using assms by (simp_all add: bar_inv_def)

lemma lists_invD:
  assumes "lists_inv X s"
  shows "h \<in> set (handlers s) \<Longrightarrow> \<exists>sg ts. h = HandleBatch sg ts \<and> ts \<noteq> []" "distinct (owned X s)"
    "t \<in> set (owned X s) \<Longrightarrow> t < n_tasks s \<and> live (tasks s t)"
    "distinct (dispatched_tasks (groups s g))"
    "t \<in> set (dispatched_tasks (groups s g)) \<Longrightarrow> t < n_tasks s \<and> live (tasks s t) \<and>
       tk_group (tasks s t) = Some g \<and> t \<notin> set (owned X s)"
    "covered s (dispatched_sink (groups s g)) (dispatched_tasks (groups s g))"
    "distinct (created_tasks (groups s g))"
    "t \<in> set (created_tasks (groups s g)) \<Longrightarrow> t < n_tasks s \<and> tk_group (tasks s t) = Some g \<and>
       state_of s t < ATMI_READY"
    "set (dispatched_sink (groups s g)) \<subseteq> set (dispatched_tasks (groups s g))"
  using assms unfolding lists_inv_def by blast+

lemma tasks_invD:
  assumes "tasks_inv X s" and "t < n_tasks s"
  shows "\<not> groupable (tasks s t)" "state_of s t < ATMI_READY \<Longrightarrow> and_predecessors (tasks s t) = []"
    "live (tasks s t) \<Longrightarrow> t \<in> set (owned X s) \<or> (\<exists>g. t \<in> set (dispatched_tasks (groups s g)))"
    "tk_group (tasks s t) = Some g \<Longrightarrow> state_of s t < ATMI_READY \<Longrightarrow>
       t \<in> set (created_tasks (groups s g))"
    "tk_group (tasks s t) = None \<Longrightarrow> state_of s t = ATMI_UNINITIALIZED"
    "state_of s t \<noteq> ATMI_EXECUTED"
  using assms unfolding tasks_inv_def by blast+

lemma core_eq_barrier_fields:
  assumes "sched_core s' = sched_core s"
  shows "and_predecessors (tasks s' t) = and_predecessors (tasks s t)"
    "prev_ordered (tasks s' t) = prev_ordered (tasks s t)"
    "created_tasks (groups s' g) = created_tasks (groups s g)"
    "dispatched_tasks (groups s' g) = dispatched_tasks (groups s g)"
    "dispatched_sink (groups s' g) = dispatched_sink (groups s g)"
    "first_dispatched (groups s' g) = first_dispatched (groups s g)"
  using core_eq_fields(3, 4) [OF assms] by (metis task_core_fields group_core_fields)+

lemma comes_after_core:
  assumes "sched_core s' = sched_core s"
  shows "comes_after s' = comes_after s"
  by (simp add: comes_after_def fun_eq_iff core_eq_barrier_fields(1, 2) [OF assms])

lemma covered_core:
  assumes "sched_core s' = sched_core s"
  shows "covered s' S ts = covered s S ts"
  by (rule covered_cong) (simp only: comes_after_core [OF assms])

lemma bar_inv_core:
  assumes e: "sched_core s' = sched_core s"
  shows "bar_inv A B X s' = bar_inv A B X s"
proof -
  have "table_inv s' = table_inv s" by (rule table_inv_static [OF static_core [OF e]])
  moreover have "owned X s' = owned X s" by (simp add: owned_def core_eq_fields [OF e])
  ultimately show ?thesis
    unfolding bar_inv_def lists_inv_def tasks_inv_def
    by (simp add: signal_inv_core [OF e] segment_inv_core [OF e] copy_inv_core [OF e]
        core_eq_fields(1, 2, 12) [OF e] core_eq_task_fields [OF e] core_eq_live(1) [OF e]
        core_eq_barrier_fields [OF e] covered_core [OF e])
qed

text \<open>A change that moves no task and no resource.\<close>

lemma bar_inv_quiet:
  assumes inv: "bar_inv A B X s"
    and f: "dep_sync s' = dep_sync s" "n_tasks s' = n_tasks s" "kernels s' = kernels s"
      "n_impls s' = n_impls s" "FreeSignalPool s' = FreeSignalPool s" "handlers s' = handlers s"
      "copy_threads s' = copy_threads s" "AllTaskgroups s' = AllTaskgroups s"
      "\<And>p. free_kernarg_segments (impls s' p) = free_kernarg_segments (impls s p)"
    and t: "\<And>x. sig_of (tasks s' x) = sig_of (tasks s x)"
      "\<And>x ks p. seg_of ks p (tasks s' x) = seg_of ks p (tasks s x)"
      "\<And>x. live (tasks s' x) = live (tasks s x)"
      "\<And>x. groupable (tasks s' x) = groupable (tasks s x)"
      "\<And>x. tk_group (tasks s' x) = tk_group (tasks s x)"
      "\<And>x. state_of s' x < ATMI_READY \<longleftrightarrow> state_of s x < ATMI_READY"
      "\<And>x. and_predecessors (tasks s' x) = and_predecessors (tasks s x)"
      "\<And>x. prev_ordered (tasks s' x) = prev_ordered (tasks s x)"
      "\<And>x. x < n_tasks s \<Longrightarrow> tk_group (tasks s x) = None \<Longrightarrow> state_of s' x = state_of s x"
      "\<And>x. x < n_tasks s \<Longrightarrow> state_of s' x \<noteq> ATMI_EXECUTED"
      "\<And>x. x \<in> set (copy_threads s) \<Longrightarrow> state_of s' x = state_of s x"
    and g: "\<And>h. created_tasks (groups s' h) = created_tasks (groups s h)"
      "\<And>h. dispatched_tasks (groups s' h) = dispatched_tasks (groups s h)"
      "\<And>h. dispatched_sink (groups s' h) = dispatched_sink (groups s h)"
  shows "bar_inv A B X s'"
proof -
  note i = bar_invD [OF inv]
  have "signal_inv A s'" using signal_inv_cong [OF f(2) f(5) t(1)] i(2) by simp
  moreover have "segment_inv B s'" using segment_inv_cong [OF f(2) f(4) f(3) f(9) t(2)] i(3) by simp
  moreover have "copy_inv s'" by (rule copy_inv_same [OF i(4) f(2) f(7) t(11)])
  moreover have "table_inv s'" using i(5) by (simp add: table_inv_def f t)
  moreover have ow: "owned X s' = owned X s" by (simp add: owned_def f)
  moreover have cov: "covered s' S ts = covered s S ts" for S ts
    by (rule covered_cong) (simp only: comes_after_def t(7, 8))
  moreover have "lists_inv X s'"
    using i(6) unfolding lists_inv_def ow f(2, 6) t(3, 5, 6) g cov .
  moreover have "tasks_inv X s'"
    unfolding tasks_inv_def ow f(2) t(3-7) g
    using tasks_invD [OF i(7)] t(9, 10) by auto
  ultimately show ?thesis using i(1) f(1) by (simp add: bar_inv_def)
qed

section \<open>Postponing and granting\<close>

lemma barrier_postpone_core:
  "barrier_postpone t args s = Some s' \<Longrightarrow>
   sched_core s' = sched_core (upd_task t (\<lambda>k. k\<lparr>tk_state := ATMI_INITIALIZED\<rparr>) s)"
  by (auto simp: barrier_postpone_def bind_eq_Some_conv sched_core_set_state_eq
      sched_core_task_state keep_kernargs_def save_kernargs_core split: if_splits)

lemma bar_inv_postponed:
  assumes inv: "bar_inv A B X s" and t: "t < n_tasks s" "state_of s t < ATMI_READY"
    and g: "tk_group (tasks s t) = Some g"
  shows "bar_inv A B X (upd_task t (\<lambda>k. k\<lparr>tk_state := ATMI_INITIALIZED\<rparr>) s)"
proof -
  have "t \<notin> set (copy_threads s)" using bar_invD(4) [OF inv] t(2) by (auto simp: copy_inv_def)
  moreover have "\<not> active (tasks s t)" "\<not> live (tasks s t)"
    using t(2) by (auto simp: active_iff live_def less_ready_iff)
  ultimately show ?thesis
    using t g tasks_invD(6) [OF bar_invD(7) [OF inv]]
    by (intro bar_inv_quiet [OF inv])
       (auto simp: sig_of_def seg_of_def live_def active_iff impl_of_def less_ready_iff)
qed

text \<open>The links that a grant makes; they change nothing that resources depend on.\<close>

lemma add_and_predecessors_fields:
  "holdings (tasks (add_and_predecessors t ps s) x) = holdings (tasks s x)"
  "x \<noteq> t \<Longrightarrow> and_predecessors (tasks (add_and_predecessors t ps s) x) = and_predecessors (tasks s x)"
  "prev_ordered (tasks (add_and_predecessors t ps s) x) = prev_ordered (tasks s x)"
  "set (and_predecessors (tasks (add_and_predecessors t ps s) t)) =
     set (and_predecessors (tasks s t)) \<union> {p \<in> set ps. state_of s p < ATMI_EXECUTED}"
  "groups (add_and_predecessors t ps s) = groups s"
  "n_tasks (add_and_predecessors t ps s) = n_tasks s"
  "\<exists>k. add_and_predecessors t ps s = s\<lparr>tasks := k\<rparr>"
proof -
  have "(\<forall>x. holdings (tasks (add_and_predecessors t ps s) x) = holdings (tasks s x)) \<and>
      (\<forall>x. x \<noteq> t \<longrightarrow> and_predecessors (tasks (add_and_predecessors t ps s) x) = and_predecessors (tasks s x)) \<and>
      (\<forall>x. prev_ordered (tasks (add_and_predecessors t ps s) x) = prev_ordered (tasks s x)) \<and>
      (\<exists>k. add_and_predecessors t ps s = s\<lparr>tasks := k\<rparr>)"
  proof (induction ps arbitrary: s)
    case (Cons p ps)
    have "\<exists>k. add_and_predecessor t p s = s\<lparr>tasks := k\<rparr>"
      by (auto simp: add_and_predecessor_def upd_task_def)
    then show ?case using Cons [of s] Cons [of "add_and_predecessor t p s"]
      by (auto simp: add_and_predecessor_def holdings_def)
  next
    case (Nil s)
    have "s = s\<lparr>tasks := tasks s\<rparr>" by simp
    then show ?case by (metis add_and_predecessors.simps(1))
  qed
  then show "holdings (tasks (add_and_predecessors t ps s) x) = holdings (tasks s x)"
    "x \<noteq> t \<Longrightarrow> and_predecessors (tasks (add_and_predecessors t ps s) x) = and_predecessors (tasks s x)"
    "prev_ordered (tasks (add_and_predecessors t ps s) x) = prev_ordered (tasks s x)"
    "\<exists>k. add_and_predecessors t ps s = s\<lparr>tasks := k\<rparr>"
    by blast+
  then show "groups (add_and_predecessors t ps s) = groups s"
    "n_tasks (add_and_predecessors t ps s) = n_tasks s"
    by auto
  show "set (and_predecessors (tasks (add_and_predecessors t ps s) t)) =
     set (and_predecessors (tasks s t)) \<union> {p \<in> set ps. state_of s p < ATMI_EXECUTED}"
  proof (induction ps arbitrary: s)
    case (Cons p ps)
    have "state_of (add_and_predecessor t p s) x = state_of s x" for x
      by (simp add: add_and_predecessor_def)
    then show ?case using Cons [of s] Cons [of "add_and_predecessor t p s"]
      by (auto simp: add_and_predecessor_def)
  qed simp
qed

lemma barrier_take_signal_eq: "barrier_take_signal t g s = take_signal t g s"
  by (simp add: barrier_take_signal_def take_signal_def)

lemma holdings_state: "holdings k = holdings k' \<Longrightarrow> tk_state k = tk_state k'"
  by (cases k; cases k'; simp add: holdings_def)

lemma holdings_ready:
  "holdings k = holdings k' \<Longrightarrow> holdings (k\<lparr>tk_state := st\<rparr>) = holdings (k'\<lparr>tk_state := st\<rparr>)"
  by (cases k; cases k'; simp add: holdings_def)

lemma move_to_dispatched_fields:
  "\<exists>G. move_to_dispatched E t g s = s\<lparr>groups := G\<rparr>"
  "created_tasks (groups (move_to_dispatched E t g s) h) =
     (if h = g then tl (created_tasks (groups s g)) else created_tasks (groups s h))"
  "dispatched_tasks (groups (move_to_dispatched E t g s) h) =
     (if h = g then dispatched_tasks (groups s g) @ [t] else dispatched_tasks (groups s h))"
  "h \<noteq> g \<Longrightarrow> dispatched_sink (groups (move_to_dispatched E t g s) h) = dispatched_sink (groups s h)"
  "set (dispatched_sink (groups (move_to_dispatched E t g s) g)) =
     insert t (set (dispatched_sink (groups s g))) - set (and_predecessors (tasks s t)) -
     {x. prev_ordered (tasks s t) = Some x}"
  "first_dispatched (groups (move_to_dispatched E t g s) h) = first_dispatched (groups s h)"
  by (auto simp: move_to_dispatched_def Let_def upd_group_def sink_insert_def set_insort_key
      split: option.splits)

lemma ordered_and_predecessor_fields:
  "holdings (tasks (ordered_and_predecessor t g s) x) = holdings (tasks s x)"
  "x \<noteq> t \<Longrightarrow> and_predecessors (tasks (ordered_and_predecessor t g s) x) = and_predecessors (tasks s x)"
  "prev_ordered (tasks (ordered_and_predecessor t g s) x) = prev_ordered (tasks s x)"
  "set (and_predecessors (tasks s t)) \<subseteq> set (and_predecessors (tasks (ordered_and_predecessor t g s) t))"
  "\<exists>k. ordered_and_predecessor t g s = s\<lparr>tasks := k\<rparr>"
proof -
  have same: "\<exists>k. s = s\<lparr>tasks := k\<rparr>" by (rule exI [of _ "tasks s"]) simp
  show "holdings (tasks (ordered_and_predecessor t g s) x) = holdings (tasks s x)"
    "x \<noteq> t \<Longrightarrow> and_predecessors (tasks (ordered_and_predecessor t g s) x) = and_predecessors (tasks s x)"
    "prev_ordered (tasks (ordered_and_predecessor t g s) x) = prev_ordered (tasks s x)"
    "set (and_predecessors (tasks s t)) \<subseteq> set (and_predecessors (tasks (ordered_and_predecessor t g s) t))"
    by (auto simp: ordered_and_predecessor_def add_and_predecessor_def holdings_def split: option.split)
  show "\<exists>k. ordered_and_predecessor t g s = s\<lparr>tasks := k\<rparr>"
    using same
    by (auto simp: ordered_and_predecessor_def add_and_predecessor_def upd_task_def split: option.split)
qed

lemma lenient_impl:
  assumes "lenient_kernel_impl s t = Some impl" and "take_kernarg t args s1 = Some s2"
    and "tasks s1 t = (tasks s t)\<lparr>tk_signal := sg\<rparr>" and "kernels s1 = kernels s"
  shows "task_kernel_impl s1 t = Some impl"
  using assms
  by (auto simp: lenient_kernel_impl_def task_kernel_impl_def take_kernarg_def acquire_kernarg_def
      task_impl_def bind_eq_Some_conv split: atl_task_type_t.splits)

text \<open>
  What a grant does: the resources of the task as \<open>grant_abs\<close> assigns them, its way from the
  created to the dispatched tasks, its links, and the sinks that it replaces.
\<close>

lemma barrier_grant_steps:
  assumes "barrier_grant E t g args s = Some s'" and "lenient_kernel_impl s t = Some impl"
    and "\<not> groupable (tasks s t)"
  obtains s2 s5 where "sched_core s' = sched_core (upd_task t (\<lambda>k. k\<lparr>tk_state := ATMI_READY\<rparr>) s5)"
    and "s5 = ordered_and_predecessor t g (move_to_dispatched E t g
           (add_and_predecessors t (predecessors (tasks s2 t)) s2))"
    and "task_kernel_impl (upd_task t (\<lambda>k. k\<lparr>tk_signal := hd (FreeSignalPool s)\<rparr>)
           (s\<lparr>FreeSignalPool := tl (FreeSignalPool s)\<rparr>)) t = Some impl"
    and "sched_core (upd_task t (\<lambda>k. k\<lparr>tk_state := ATMI_READY\<rparr>) s2) =
           sched_core (upd_group g (\<lambda>k. k\<lparr>running_ordered := running_ordered (groups s g)\<rparr>)
             (grant_abs t g impl s))"
    and "FreeSignalPool s \<noteq> []"
proof -
  obtain s1 s2 s6 where s1: "take_signal t g s = Some s1" and s2: "take_kernarg t args s1 = Some s2"
    and s6: "acquireAqlPacket E t (ordered_and_predecessor t g (move_to_dispatched E t g
           (add_and_predecessors t (predecessors (tasks s2 t)) s2))) = Some s6"
    and s': "s' = set_state t ATMI_READY s6"
    using assms(1) by (auto simp: barrier_grant_def bind_eq_Some_conv barrier_take_signal_eq Let_def)
  let ?s5 = "ordered_and_predecessor t g (move_to_dispatched E t g
           (add_and_predecessors t (predecessors (tasks s2 t)) s2))"
  note e1 = take_signal_exact [OF s1]
  have s1_eq: "s1 = upd_task t (\<lambda>k. k\<lparr>tk_signal := hd (FreeSignalPool s)\<rparr>)
      (s\<lparr>FreeSignalPool := tl (FreeSignalPool s)\<rparr>)"
    using e1 assms(3) by simp
  have i: "task_kernel_impl s1 t = Some impl"
    using lenient_impl [OF assms(2) s2, of "hd (FreeSignalPool s)"] s1_eq by simp
  note c2 = take_kernarg_core [OF s2 i]
  have "sched_core s' = sched_core (upd_task t (\<lambda>k. k\<lparr>tk_state := ATMI_READY\<rparr>) ?s5)"
    using acquireAqlPacket_core [OF s6] s' by (simp add: sched_core_set_state_eq sched_core_task_state)
  moreover have "upd_group g (\<lambda>k. k\<lparr>running_ordered := running_ordered (groups s g)\<rparr>)
       (grant_abs t g impl s) = upd_task t (\<lambda>k. k\<lparr>tk_state := ATMI_READY\<rparr>)
      (case impl of None \<Rightarrow> s1
     | Some p \<Rightarrow> upd_task t (\<lambda>k. k\<lparr>tk_kernarg_index := hd (free_kernarg_segments (impls s1 p))\<rparr>)
         (upd_impl p (\<lambda>k. k\<lparr>launched_tasks := launched_tasks k @ [t],
            free_kernarg_segments := tl (free_kernarg_segments k)\<rparr>) s1))"
    using assms(3)
    by (simp add: grant_abs_def Let_def s1_eq upd_task_def upd_impl_def upd_group_def fun_eq_iff
        split: option.split)
  then have "sched_core (upd_task t (\<lambda>k. k\<lparr>tk_state := ATMI_READY\<rparr>) s2) =
      sched_core (upd_group g (\<lambda>k. k\<lparr>running_ordered := running_ordered (groups s g)\<rparr>)
             (grant_abs t g impl s))"
    using c2 by (simp add: sched_core_task_state)
  ultimately show thesis using that [of ?s5 s2] i s1_eq e1 assms(3) by simp
qed

lemma barrier_grant_fields:
  assumes b: "barrier_grant E t g args s = Some s'" and i: "lenient_kernel_impl s t = Some impl"
    and ng: "\<not> groupable (tasks s t)"
  defines "G \<equiv> grant_abs t g impl s"
  shows "\<And>f :: TaskImpl \<Rightarrow> 'a. (\<And>k. f (task_core k) = f k) \<Longrightarrow>
      (\<And>k k'. holdings k = holdings k' \<Longrightarrow> f k = f k') \<Longrightarrow> f (tasks s' x) = f (tasks G x)"
    and "n_tasks s' = n_tasks s" "dep_sync s' = dep_sync s" "kernels s' = kernels s"
      "n_impls s' = n_impls s" "FreeSignalPool s' = FreeSignalPool G" "handlers s' = handlers s"
      "copy_threads s' = copy_threads s" "AllTaskgroups s' = AllTaskgroups s" "impls s' = impls G"
    and "x \<noteq> t \<Longrightarrow> and_predecessors (tasks s' x) = and_predecessors (tasks s x)"
    and "prev_ordered (tasks s' x) = prev_ordered (tasks s x)"
    and "created_tasks (groups s' h) =
       (if h = g then tl (created_tasks (groups s g)) else created_tasks (groups s h))"
    and "dispatched_tasks (groups s' h) =
       (if h = g then dispatched_tasks (groups s g) @ [t] else dispatched_tasks (groups s h))"
    and "h \<noteq> g \<Longrightarrow> dispatched_sink (groups s' h) = dispatched_sink (groups s h)"
    and "set (dispatched_sink (groups s' g)) \<subseteq> insert t (set (dispatched_sink (groups s g)))"
    and "y \<in> set (dispatched_sink (groups s g)) \<Longrightarrow>
       y \<in> set (dispatched_sink (groups s' g)) \<or> comes_after s' t y"
    and "t \<notin> set (and_predecessors (tasks s t)) \<Longrightarrow>
       t \<notin> set (predecessors (tasks s t)) \<Longrightarrow>
       prev_ordered (tasks s t) \<noteq> Some t \<Longrightarrow> t \<in> set (dispatched_sink (groups s' g))"
    and "p \<in> set (predecessors (tasks s t)) \<Longrightarrow> p \<noteq> t \<Longrightarrow> state_of s p < ATMI_EXECUTED \<Longrightarrow>
       p \<in> set (and_predecessors (tasks s' t))"
    and "first_dispatched (groups s' h) = first_dispatched (groups s h)"
proof -
  obtain s2 s5 ps where c: "sched_core s' = sched_core (upd_task t (\<lambda>k. k\<lparr>tk_state := ATMI_READY\<rparr>) s5)"
    and s5: "s5 = ordered_and_predecessor t g (move_to_dispatched E t g (add_and_predecessors t ps s2))"
    and ps: "ps = predecessors (tasks s2 t)"
    and c2: "sched_core (upd_task t (\<lambda>k. k\<lparr>tk_state := ATMI_READY\<rparr>) s2) =
           sched_core (upd_group g (\<lambda>k. k\<lparr>running_ordered := running_ordered (groups s g)\<rparr>) G)"
    using barrier_grant_steps [OF b i ng] unfolding G_def by metis
  let ?P = "upd_task t (\<lambda>k. k\<lparr>tk_state := ATMI_READY\<rparr>) s5"
  let ?Q = "upd_task t (\<lambda>k. k\<lparr>tk_state := ATMI_READY\<rparr>) s2"
  let ?R = "upd_group g (\<lambda>k. k\<lparr>running_ordered := running_ordered (groups s g)\<rparr>) G"
  let ?s3 = "add_and_predecessors t ps s2"
  let ?s4 = "move_to_dispatched E t g ?s3"
  note f3 = add_and_predecessors_fields [where t = t and ps = ps and s = s2]
  note f4 = move_to_dispatched_fields [where E = E and t = t and g = g and s = ?s3]
  note f5 = ordered_and_predecessor_fields [where t = t and g = g and s = ?s4]
  obtain ks where ks: "?s3 = s2\<lparr>tasks := ks\<rparr>" using f3(7) by blast
  obtain gs where gs: "?s4 = ?s3\<lparr>groups := gs\<rparr>" using f4(1) by blast
  obtain ks' where ks': "s5 = ?s4\<lparr>tasks := ks'\<rparr>" using f5(5) s5 by blast
  have t4: "tasks ?s4 = tasks ?s3" unfolding gs by simp
  have g5: "groups s5 = groups ?s4" unfolding ks' by simp
  have fr: "n_tasks s5 = n_tasks s2" "dep_sync s5 = dep_sync s2" "kernels s5 = kernels s2"
    "n_impls s5 = n_impls s2" "FreeSignalPool s5 = FreeSignalPool s2" "handlers s5 = handlers s2"
    "copy_threads s5 = copy_threads s2" "AllTaskgroups s5 = AllTaskgroups s2" "impls s5 = impls s2"
    unfolding ks' gs by (simp_all add: ks)
  show "n_tasks s' = n_tasks s" "dep_sync s' = dep_sync s" "kernels s' = kernels s"
      "n_impls s' = n_impls s" "FreeSignalPool s' = FreeSignalPool G" "handlers s' = handlers s"
      "copy_threads s' = copy_threads s" "AllTaskgroups s' = AllTaskgroups s" "impls s' = impls G"
    using core_eq_fields(1, 2, 5-8, 10-12) [OF c] core_eq_fields(1, 2, 5-8, 10-12) [OF c2]
    by (simp_all add: fr G_def grant_abs_fields)
  have h5: "holdings (tasks s5 x) = holdings (tasks s2 x)" for x
    unfolding s5 f5(1) t4 f3(1) ..
  have hPQ: "holdings (tasks ?P x) = holdings (tasks ?Q x)" for x
    by (cases "x = t") (simp_all add: h5 holdings_ready [OF h5])
  show "f (tasks s' x) = f (tasks G x)" if "\<And>k. f (task_core k) = f k"
    "\<And>k k'. holdings k = holdings k' \<Longrightarrow> f k = f k'" for f :: "TaskImpl \<Rightarrow> 'a"
  proof -
    have "f (tasks s' x) = f (tasks ?P x)" using core_eq_fields(3) [OF c, of x] that(1) by metis
    also have "\<dots> = f (tasks ?Q x)" by (rule that(2) [OF hPQ])
    also have "\<dots> = f (tasks ?R x)" using core_eq_fields(3) [OF c2, of x] that(1) by metis
    finally show ?thesis by simp
  qed
  have c2x: "and_predecessors (tasks s2 x) = and_predecessors (tasks s x)"
    "prev_ordered (tasks s2 x) = prev_ordered (tasks s x)"
    "created_tasks (groups s2 h) = created_tasks (groups s h)"
    "dispatched_tasks (groups s2 h) = dispatched_tasks (groups s h)"
    "dispatched_sink (groups s2 h) = dispatched_sink (groups s h)"
    "predecessors (tasks s2 x) = predecessors (tasks s x)" for x h
    using core_eq_barrier_fields(1, 2) [OF c2, of x] core_eq_barrier_fields(3-5) [OF c2, of h]
      core_eq_task_fields(6) [OF c2, of x]
    by (auto simp: G_def grant_abs_def Let_def split: if_splits option.splits)
  have ap: "and_predecessors (tasks s' x) = and_predecessors (tasks s5 x)"
    "prev_ordered (tasks s' x) = prev_ordered (tasks s5 x)" for x
    using core_eq_barrier_fields(1, 2) [OF c, of x] by auto
  show "and_predecessors (tasks s' x) = and_predecessors (tasks s x)" if "x \<noteq> t"
    unfolding ap s5 using f5(2) [OF that] f3(2) [OF that] by (simp add: t4 c2x)
  show pr: "prev_ordered (tasks s' x) = prev_ordered (tasks s x)" for x
    unfolding ap s5 f5(3) by (simp add: t4 f3(3) c2x)
  have gr: "created_tasks (groups s' h) = created_tasks (groups ?s4 h)"
    "dispatched_tasks (groups s' h) = dispatched_tasks (groups ?s4 h)"
    "dispatched_sink (groups s' h) = dispatched_sink (groups ?s4 h)" for h
    using core_eq_barrier_fields(3-5) [OF c, of h] by (simp_all add: g5)
  show "created_tasks (groups s' h) =
       (if h = g then tl (created_tasks (groups s g)) else created_tasks (groups s h))"
    "dispatched_tasks (groups s' h) =
       (if h = g then dispatched_tasks (groups s g) @ [t] else dispatched_tasks (groups s h))"
    "h \<noteq> g \<Longrightarrow> dispatched_sink (groups s' h) = dispatched_sink (groups s h)"
    unfolding gr f4(2, 3) f3(5) c2x using f4(4) by (simp_all add: f3(5) c2x)
  have sink: "set (dispatched_sink (groups s' g)) = insert t (set (dispatched_sink (groups s g))) -
      set (and_predecessors (tasks ?s3 t)) - {x. prev_ordered (tasks s t) = Some x}"
    unfolding gr f4(5) f3(3, 5) c2x ..
  then show "set (dispatched_sink (groups s' g)) \<subseteq> insert t (set (dispatched_sink (groups s g)))" by blast
  have "set (and_predecessors (tasks ?s3 t)) \<subseteq> set (and_predecessors (tasks s' t))"
    unfolding ap s5 using f5(4) by (simp add: t4)
  then show "y \<in> set (dispatched_sink (groups s' g)) \<or> comes_after s' t y"
    if "y \<in> set (dispatched_sink (groups s g))"
    using that sink pr [of t] by (auto simp: comes_after_def)
  show "t \<in> set (dispatched_sink (groups s' g))" if "t \<notin> set (and_predecessors (tasks s t))"
    "t \<notin> set (predecessors (tasks s t))" "prev_ordered (tasks s t) \<noteq> Some t"
    using that sink f3(4) c2x ps by auto
  show "first_dispatched (groups s' h) = first_dispatched (groups s h)"
    using core_eq_barrier_fields(6) [OF c, of h] core_eq_barrier_fields(6) [OF c2, of h] f4(6) [of h]
    by (simp add: g5 f3(5) G_def grant_abs_def Let_def split: if_splits option.splits)
  show "p \<in> set (and_predecessors (tasks s' t))"
    if "p \<in> set (predecessors (tasks s t))" "p \<noteq> t" "state_of s p < ATMI_EXECUTED"
  proof -
    have "state_of s2 p = state_of s p"
      using core_eq_task_fields(3) [OF c2, of p] that(2) by (simp add: G_def grant_abs_fields(1))
    then have "p \<in> set (and_predecessors (tasks ?s3 t))" using f3(4) that c2x(6) ps by simp
    then show ?thesis unfolding ap s5 using f5(4) t4 by auto
  qed
qed

lemma bar_inv_granted:
  assumes inv: "bar_inv A B X s" and cr: "created_tasks (groups s g) = t # rest"
    and dep: "deps_dispatched t s" and i: "lenient_kernel_impl s t = Some impl"
    and free: "FreeSignalPool s \<noteq> []" "\<not> no_segment s impl"
    and b: "barrier_grant E t g args s = Some s'"
  shows "bar_inv A B X s' \<and> state_of s' t = ATMI_READY \<and> n_tasks s' = n_tasks s"
proof -
  note I = bar_invD [OF inv]
  note L = lists_invD [OF I(6)]
  have t: "t < n_tasks s" "tk_group (tasks s t) = Some g" "state_of s t < ATMI_READY"
    using L(8) [of t g] cr by simp_all
  note T = tasks_invD [OF I(7)]
  have ng: "\<not> groupable (tasks s t)" by (rule T(1) [OF t(1)])
  have na: "\<not> active (tasks s t)" "\<not> live (tasks s t)"
    using t(3) by (auto simp: active_iff live_def less_ready_iff)
  have out: "t \<notin> set (owned X s)" "t \<notin> set (dispatched_tasks (groups s h))"
    "t \<notin> set (copy_threads s)" for h
    using L(3) [of t] L(5) [of t h] na I(4) t(3) by (auto simp: copy_inv_def)
  let ?G = "grant_abs t g impl s"
  note F = barrier_grant_fields [OF b i ng]
  have k: "sig_of (tasks s' x) = sig_of (tasks ?G x)" "seg_of ks p (tasks s' x) = seg_of ks p (tasks ?G x)"
    "live (tasks s' x) = live (tasks ?G x)" "groupable (tasks s' x) = groupable (tasks ?G x)"
    "tk_group (tasks s' x) = tk_group (tasks ?G x)" "state_of s' x = state_of ?G x" for x ks p
    using F(1) [of sig_of x, OF task_core_holds(3) holdings_eq(3)]
      F(1) [of "seg_of ks p" x, OF task_core_holds(5) holdings_eq(4)]
      F(1) [of live x, OF task_core_holds(2) holdings_eq(2)]
      F(1) [of groupable x, OF task_core_fields(16) holdings_eq(5)]
      F(1) [of tk_group x, OF task_core_fields(8) holdings_eq(7)]
      F(1) [of tk_state x, OF task_core_fields(6) holdings_state] by blast+
  have io: "impl = impl_of (kernels s) (tasks s t)"
  proof -
    obtain s2 s5 where "task_kernel_impl (upd_task t (\<lambda>k. k\<lparr>tk_signal := hd (FreeSignalPool s)\<rparr>)
           (s\<lparr>FreeSignalPool := tl (FreeSignalPool s)\<rparr>)) t = Some impl"
      using barrier_grant_steps [OF b i ng] by metis
    from task_kernel_impl_of [OF this] show ?thesis by (simp add: impl_of_def)
  qed
  have st: "state_of s' x = (if x = t then ATMI_READY else state_of s x)"
    "live (tasks s' x) = (x = t \<or> live (tasks s x))" "groupable (tasks s' x) = groupable (tasks s x)"
    "tk_group (tasks s' x) = tk_group (tasks s x)" for x
    unfolding k by (auto simp: grant_abs_fields(1) live_def)
  have "signal_inv A ?G" "segment_inv B ?G"
    using signal_inv_grant [OF I(2) t(1) na(1)] segment_inv_grant [OF I(3) t(1) na(1) io free(2)]
      free(1) by simp_all
  then have "signal_inv A s'" "segment_inv B s'"
    using signal_inv_cong [of s' ?G A] segment_inv_cong [of s' ?G B] k(1, 2)
    by (simp_all add: F(2-10) grant_abs_fields(2-5))
  moreover have "copy_inv s'"
    by (rule copy_inv_same [OF I(4)]) (use out(3) in \<open>auto simp: F(2, 8) st\<close>)
  moreover have "table_inv s'" using I(5) by (simp add: table_inv_def F(2, 9) st)
  moreover have ow: "owned X s' = owned X s" by (simp add: owned_def F(7))
  have sink: "t \<in> set (dispatched_sink (groups s' g))"
  proof (rule F(18))
    show "t \<notin> set (and_predecessors (tasks s t))" using T(2) [OF t(1) t(3)] by simp
    show "t \<notin> set (predecessors (tasks s t))" "prev_ordered (tasks s t) \<noteq> Some t"
      using dep t(3) by (auto simp: deps_dispatched_def state_order less_ready_iff split: option.splits)
  qed
  have wb: "comes_after s' u x = comes_after s u x" if "u \<in> set (dispatched_tasks (groups s h))" for u x h
  proof -
    have "u \<noteq> t" using that out(2) by blast
    then show ?thesis by (simp add: comes_after_def F(11) F(12))
  qed
  have cov: "covered s' (dispatched_sink (groups s' h)) (dispatched_tasks (groups s' h))" for h
  proof (cases "h = g")
    case True
    have "covered s' (dispatched_sink (groups s' g)) (dispatched_tasks (groups s g) @ [t])"
    proof (rule covered_snoc [OF L(6)])
    qed (use wb [of _ g] F(17) sink in auto)
    then show ?thesis by (simp add: F(14) True)
  next
    case False
    have "covered s' (dispatched_sink (groups s h)) (dispatched_tasks (groups s h)) =
        covered s (dispatched_sink (groups s h)) (dispatched_tasks (groups s h))"
      using wb [of _ h] by (intro covered_cong) simp
    then show ?thesis using L(6) False by (simp add: F(14, 15))
  qed
  moreover have "lists_inv X s'"
    unfolding lists_inv_def ow
  proof (intro conjI allI ballI)
    fix h x
    show "distinct (dispatched_tasks (groups s' h))" using L(4) out(2) by (simp add: F(14))
    show "covered s' (dispatched_sink (groups s' h)) (dispatched_tasks (groups s' h))" by (rule cov)
    show "set (dispatched_sink (groups s' h)) \<subseteq> set (dispatched_tasks (groups s' h))"
      using L(9) F(15) [of h] F(16) by (cases "h = g") (auto simp: F(14))
    show "distinct (created_tasks (groups s' h))" using L(7) [of h] cr by (auto simp: F(13))
    assume x: "x \<in> set (dispatched_tasks (groups s' h))"
    then have "x \<in> set (dispatched_tasks (groups s h)) \<or> x = t \<and> h = g" by (auto simp: F(14) split: if_splits)
    then show "x < n_tasks s'" "live (tasks s' x)" "tk_group (tasks s' x) = Some h" "x \<notin> set (owned X s)"
      using L(5) [of x h] t(1, 2) out(1) by (auto simp: F(2) st)
  next
    fix h x assume x: "x \<in> set (created_tasks (groups s' h))"
    then have "x \<in> set (created_tasks (groups s h))" "x \<noteq> t"
      using cr L(7) [of g] L(8) [of x h] t(2) by (auto simp: F(13) split: if_splits)
    then show "x < n_tasks s'" "tk_group (tasks s' x) = Some h" "state_of s' x < ATMI_READY"
      using L(8) [of x h] by (simp_all add: F(2) st)
  qed (use L(1, 2, 3) in \<open>auto simp: F(2, 7) st\<close>)
  moreover have "tasks_inv X s'"
    unfolding tasks_inv_def ow
  proof (intro allI impI conjI)
    fix x assume "x < n_tasks s'"
    then have x: "x < n_tasks s" by (simp add: F(2))
    note T = T [OF x]
    show "\<not> groupable (tasks s' x)" using T(1) by (simp add: st)
    show "and_predecessors (tasks s' x) = []" if "state_of s' x < ATMI_READY"
      using that T(2) F(11) [of x] by (auto simp: st split: if_splits)
    show "x \<in> set (owned X s) \<or> (\<exists>h. x \<in> set (dispatched_tasks (groups s' h)))" if "live (tasks s' x)"
      using that T(3) by (auto simp: st F(14))
    show "x \<in> set (created_tasks (groups s' h))"
      if "tk_group (tasks s' x) = Some h" "state_of s' x < ATMI_READY" for h
    proof -
      have "x \<noteq> t" "tk_group (tasks s x) = Some h" "state_of s x < ATMI_READY"
        using that by (auto simp: st split: if_splits)
      then show ?thesis using T(4) [of h] cr by (auto simp: F(13))
    qed
    show "state_of s' x = ATMI_UNINITIALIZED" if "tk_group (tasks s' x) = None"
      using that T(5) t(2) by (auto simp: st)
    show "state_of s' x \<noteq> ATMI_EXECUTED" using T(6) by (simp add: st)
  qed
  ultimately show ?thesis using I(1) by (simp add: bar_inv_def F(2, 3) st)
qed

end
