(* ===== verification/Barrier_Progress.thy ===== *)
theory Barrier_Progress
  imports Barrier_Invariants
begin

text \<open>
  The operations of the barrier mode keep its invariant: dispatching, the barrier over the sinks,
  \<open>tryDispatch\<close>, the progress loop and the completion handler that retires a batch of tasks.
\<close>

section \<open>Dispatching\<close>

lemma bar_inv_copy_threads:
  assumes "bar_inv A B X s" and "copy_inv (s\<lparr>copy_threads := l\<rparr>)"
  shows "bar_inv A B X (s\<lparr>copy_threads := l\<rparr>)"
proof -
  let ?s = "s\<lparr>copy_threads := l\<rparr>"
  have "signal_inv A ?s = signal_inv A s" "segment_inv B ?s = segment_inv B s"
    by (intro signal_inv_cong segment_inv_cong; simp)+
  moreover have cov: "covered ?s S ts = covered s S ts" for S ts
    by (rule covered_cong) (simp add: comes_after_def)
  moreover have "lists_inv X ?s = lists_inv X s" unfolding lists_inv_def cov by (simp add: owned_def)
  moreover have "tasks_inv X ?s = tasks_inv X s" by (simp add: tasks_inv_def owned_def)
  moreover have "table_inv ?s = table_inv s" by (simp add: table_inv_def)
  ultimately show ?thesis using assms unfolding bar_inv_def by simp
qed

lemma bar_inv_live_state:
  assumes inv: "bar_inv A B X s" and t: "t < n_tasks s" "state_of s t = ATMI_READY"
    and c: "t \<notin> set (copy_threads s)"
  shows "bar_inv A B X (upd_task t (\<lambda>k. k\<lparr>tk_state := ATMI_DISPATCHED\<rparr>) s)"
proof -
  have "tk_group (tasks s t) \<noteq> None"
    using tasks_invD(5) [OF bar_invD(7) [OF inv] t(1)] t(2) by auto
  then show ?thesis
    using t c tasks_invD(6) [OF bar_invD(7) [OF inv]]
    by (intro bar_inv_quiet [OF inv])
       (auto simp: sig_of_def seg_of_def live_def active_iff impl_of_def less_ready_iff)
qed

lemma bar_inv_dispatch:
  assumes inv: "bar_inv A B X s" and t: "t < n_tasks s" "state_of s t = ATMI_READY"
    and c: "t \<notin> set (copy_threads s)" and d: "dispatch E t s = Some s'"
  shows "bar_inv A B X s'"
proof -
  have ng: "\<not> groupable (tasks s t)" by (rule tasks_invD(1) [OF bar_invD(7) [OF inv] t(1)])
  then have p: "push_groupable g t s = s" for g by (simp add: push_groupable_def)
  show ?thesis
    using d
  proof (cases rule: dispatch_core)
    case (1 g)
    then show ?thesis using inv bar_inv_core [OF 1(2)] by simp
  next
    case (2 g)
    have "sched_core s' = sched_core (upd_task t (\<lambda>k. k\<lparr>tk_state := ATMI_DISPATCHED\<rparr>) s)"
      using 2(2) sched_core_set_state [of t ATMI_DISPATCHED s] by (simp add: p)
    then show ?thesis using bar_inv_core bar_inv_live_state [OF inv t c] by blast
  next
    case (3 g)
    have "copy_inv (s\<lparr>copy_threads := copy_threads s @ [t]\<rparr>)"
      using bar_invD(4) [OF inv] t c by (simp add: copy_inv_def)
    from bar_inv_copy_threads [OF inv this] show ?thesis
      using bar_inv_core [OF 3(3) [unfolded p]] by blast
  qed
qed

lemma dispatch_created:
  assumes "dispatch E t s = Some s'"
  shows "created_tasks (groups s' h) = created_tasks (groups s h)"
proof -
  have p: "created_tasks (groups (push_groupable g t s) h) = created_tasks (groups s h)" for g
    by (simp add: push_groupable_def)
  show ?thesis
    using assms
  proof (cases rule: dispatch_core)
    case (1 g)
    show ?thesis by (rule core_eq_barrier_fields(3) [OF 1(2)])
  next
    case (2 g)
    have "sched_core s' = sched_core (upd_task t (\<lambda>k. k\<lparr>tk_state := ATMI_DISPATCHED\<rparr>)
        (push_groupable g t s))"
      using 2(2) sched_core_set_state by simp
    from core_eq_barrier_fields(3) [OF this, of h] show ?thesis by (simp add: p)
  next
    case (3 g)
    from core_eq_barrier_fields(3) [OF 3(3), of h] show ?thesis by (simp add: p)
  qed
qed

section \<open>The barrier over the sinks\<close>

lemma enqueue_barrier_tasks_core:
  assumes "enqueue_barrier_tasks E ts s = Some s'"
  shows "sched_core s' = sched_core s"
proof (cases "ts = []")
  case False
  let ?s = "log_call (SignalStore (IdentityANDSignal E) 1) s" and ?t = "last ts"
  obtain q s1 where q: "(case tk_packets (tasks ?s ?t) of (q, _) # _ \<Rightarrow> Some (q, ?s)
      | [] \<Rightarrow> do {
          g \<leftarrow> tk_group (tasks ?s ?t);
          (q, obj) \<leftarrow> chooseQueueFromPlace (gpu_processors (machine ?s)) (tk_place (tasks ?s ?t))
            (groups ?s g);
          Some (q, upd_group g (\<lambda>_. obj) ?s)
        }) = Some (q, s1)"
    and e: "enqueue_barrier E (Some q) ts False False (tk_devtype (tasks s1 ?t)) True s1 = Some s'"
    using assms False by (auto simp: enqueue_barrier_tasks_def Let_def bind_eq_Some_conv)
  have "sched_core s1 = sched_core ?s"
    using q choose_queue_core by (fastforce simp: bind_eq_Some_conv split: list.splits)
  then show ?thesis using enqueue_barrier_core [OF e] by simp
qed (use assms in \<open>simp add: enqueue_barrier_tasks_def\<close>)

lemma bar_inv_flushed:
  assumes inv: "bar_inv A B X s" and ne: "dispatched_sink (groups s g) \<noteq> []"
  shows "bar_inv A B X ((upd_group g (\<lambda>k. k\<lparr>dispatched_sink := [], dispatched_tasks := []\<rparr>) s)
    \<lparr>handlers := handlers s @ [HandleBatch sg (dispatched_tasks (groups s g))]\<rparr>)"
proof -
  let ?s = "(upd_group g (\<lambda>k. k\<lparr>dispatched_sink := [], dispatched_tasks := []\<rparr>) s)
    \<lparr>handlers := handlers s @ [HandleBatch sg (dispatched_tasks (groups s g))]\<rparr>"
  note I = bar_invD [OF inv]
  note L = lists_invD [OF I(6)] and T = tasks_invD [OF I(7)]
  have "signal_inv A ?s = signal_inv A s" "segment_inv B ?s = segment_inv B s"
    by (intro signal_inv_cong segment_inv_cong; simp)+
  moreover have ow: "owned X ?s = owned X s @ dispatched_tasks (groups s g)" by (simp add: owned_def)
  moreover have cov: "covered ?s S ts = covered s S ts" for S ts
    by (rule covered_cong) (simp add: comes_after_def)
  moreover have "dispatched_tasks (groups s g) \<noteq> []" using ne L(9) [of g] by auto
  have same_group: "h = g" if "x \<in> set (dispatched_tasks (groups s h))"
    "x \<in> set (dispatched_tasks (groups s g))" for x h
    using L(5) [OF that(1)] L(5) [OF that(2)] by simp
  have gf: "created_tasks (groups ?s h) = created_tasks (groups s h)"
    "dispatched_tasks (groups ?s h) = (if h = g then [] else dispatched_tasks (groups s h))"
    "dispatched_sink (groups ?s h) = (if h = g then [] else dispatched_sink (groups s h))" for h
    by simp_all
  have tf: "tasks ?s = tasks s" "n_tasks ?s = n_tasks s" by simp_all
  have "lists_inv X ?s"
    unfolding lists_inv_def ow cov gf tf
  proof (intro conjI ballI allI)
    show "\<exists>sg ts. h = HandleBatch sg ts \<and> ts \<noteq> []" if "h \<in> set (handlers ?s)" for h
      using that L(1) \<open>dispatched_tasks (groups s g) \<noteq> []\<close> by auto
    show "distinct (owned X s @ dispatched_tasks (groups s g))" using L(2, 4, 5) by auto
  qed (use L(3-9) same_group in \<open>auto split: if_splits\<close>)
  moreover have "tasks_inv X ?s"
    unfolding tasks_inv_def ow
  proof (intro allI impI conjI)
    fix x assume "x < n_tasks ?s"
    then have x: "x < n_tasks s" by simp
    note T = T [OF x]
    show "\<not> groupable (tasks ?s x)" "state_of ?s x \<noteq> ATMI_EXECUTED" using T(1, 6) by simp_all
    show "and_predecessors (tasks ?s x) = []" if "state_of ?s x < ATMI_READY" using that T(2) by simp
    show "x \<in> set (owned X s @ dispatched_tasks (groups s g)) \<or>
        (\<exists>h. x \<in> set (dispatched_tasks (groups ?s h)))" if "live (tasks ?s x)"
    proof -
      from that T(3) consider "x \<in> set (owned X s)" | h where "x \<in> set (dispatched_tasks (groups s h))"
        by auto
      then show ?thesis
      proof cases
        case (2 h)
        then show ?thesis by (cases "h = g") auto
      qed simp
    qed
    show "x \<in> set (created_tasks (groups ?s h))"
      if "tk_group (tasks ?s x) = Some h" "state_of ?s x < ATMI_READY" for h
      using that T(4) unfolding gf by simp
    show "state_of ?s x = ATMI_UNINITIALIZED" if "tk_group (tasks ?s x) = None" using that T(5) by simp
  qed
  ultimately show ?thesis
    using I(1-5) by (simp add: bar_inv_def copy_inv_def table_inv_def)
qed

text \<open>
  What an operation leaves alone: the tasks there are, the groups they belong to and what they
  require. No task goes back, a task that got its resources keeps its links, and a task that gets
  them has all its required tasks dispatched and a link to each that is not executed.
\<close>

definition ready_ok :: "rt_state \<Rightarrow> tid \<Rightarrow> bool" where
  "ready_ok s t \<longleftrightarrow> (\<forall>p \<in> set (predecessors (tasks s t)). ATMI_DISPATCHED \<le> state_of s p \<and>
     (p \<in> set (and_predecessors (tasks s t)) \<or> ATMI_EXECUTED \<le> state_of s p))"

definition same_tasks :: "rt_state \<Rightarrow> rt_state \<Rightarrow> bool" where
  "same_tasks s s' \<longleftrightarrow> n_tasks s' = n_tasks s \<and>
     (\<forall>x. tk_group (tasks s' x) = tk_group (tasks s x) \<and>
        predecessors (tasks s' x) = predecessors (tasks s x) \<and> state_of s x \<le> state_of s' x \<and>
        (ATMI_READY \<le> state_of s x \<longrightarrow> and_predecessors (tasks s' x) = and_predecessors (tasks s x)) \<and>
        (ATMI_READY \<le> state_of s' x \<longrightarrow> ATMI_READY \<le> state_of s x \<or> ready_ok s' x))"

lemma same_tasksD:
  assumes "same_tasks s s'"
  shows "n_tasks s' = n_tasks s" "tk_group (tasks s' x) = tk_group (tasks s x)"
    "predecessors (tasks s' x) = predecessors (tasks s x)" "state_of s x \<le> state_of s' x"
    "ATMI_READY \<le> state_of s x \<Longrightarrow> and_predecessors (tasks s' x) = and_predecessors (tasks s x)"
    "ATMI_READY \<le> state_of s' x \<Longrightarrow> ATMI_READY \<le> state_of s x \<or> ready_ok s' x"
  using assms unfolding same_tasks_def by blast+

lemma same_tasks_ready_ok:
  assumes st: "same_tasks s s'" and r: "ATMI_READY \<le> state_of s x" "ready_ok s x"
  shows "ready_ok s' x"
  using r same_tasksD(3, 5) [OF st, of x] same_tasksD(4) [OF st] order_trans
  unfolding ready_ok_def by (metis (no_types, lifting))

text \<open>The tasks stay as they are, but for what nothing above looks at.\<close>

lemma same_tasks_quiet:
  assumes "n_tasks s' = n_tasks s"
    and "\<And>x. tk_group (tasks s' x) = tk_group (tasks s x)"
      "\<And>x. predecessors (tasks s' x) = predecessors (tasks s x)"
      "\<And>x. and_predecessors (tasks s' x) = and_predecessors (tasks s x)"
      "\<And>x. state_of s x \<le> state_of s' x"
      "\<And>x. ATMI_READY \<le> state_of s' x \<Longrightarrow> ATMI_READY \<le> state_of s x"
  shows "same_tasks s s'"
  using assms by (simp add: same_tasks_def)

lemma same_tasks_refl: "same_tasks s s"
  by (rule same_tasks_quiet) simp_all

lemma same_tasks_trans:
  assumes 1: "same_tasks s s1" and 2: "same_tasks s1 s2"
  shows "same_tasks s s2"
  unfolding same_tasks_def
proof (intro conjI allI impI)
  fix x
  note a = same_tasksD(2-6) [OF 1, of x] and b = same_tasksD(2-6) [OF 2, of x]
  show "tk_group (tasks s2 x) = tk_group (tasks s x)"
    "predecessors (tasks s2 x) = predecessors (tasks s x)" using a(1, 2) b(1, 2) by simp_all
  show "state_of s x \<le> state_of s2 x" using a(3) b(3) by (rule order_trans)
  show "and_predecessors (tasks s2 x) = and_predecessors (tasks s x)" if "ATMI_READY \<le> state_of s x"
    using a(4) [OF that] b(4) order_trans [OF that a(3)] by simp
  show "ATMI_READY \<le> state_of s x \<or> ready_ok s2 x" if "ATMI_READY \<le> state_of s2 x"
    using b(5) [OF that] a(5) same_tasks_ready_ok [OF 2] by blast
qed (use same_tasksD(1) [OF 1] same_tasksD(1) [OF 2] in simp)

lemma same_tasks_core:
  assumes "sched_core s' = sched_core s"
  shows "same_tasks s s'"
  using core_eq_barrier_fields(1) [OF assms]
  by (intro same_tasks_quiet) (simp_all only: core_eq_fields(2) [OF assms]
      core_eq_task_fields(3, 4, 6) [OF assms] order_refl)

lemma bar_inv_first:
  assumes "bar_inv A B X s"
  shows "bar_inv A B X (upd_group g (\<lambda>k. k\<lparr>first_dispatched := b\<rparr>) s)"
  using tasks_invD(6) [OF bar_invD(7) [OF assms]] by (intro bar_inv_quiet [OF assms]) auto

lemma flush_dispatched_bar:
  assumes inv: "bar_inv A B X s" and f: "flush_dispatched E g s = Some s'"
  shows "bar_inv A B X s' \<and> same_tasks s s' \<and>
    (\<forall>h. created_tasks (groups s' h) = created_tasks (groups s h))"
proof (cases "dispatched_sink (groups s g) = []")
  case True
  then show ?thesis using f inv same_tasks_refl by (simp add: flush_dispatched_def Let_def)
next
  case False
  let ?s1 = "upd_group g (\<lambda>k. k\<lparr>dispatched_sink := [], dispatched_tasks := []\<rparr>) s"
  let ?h = "HandleBatch (IdentityANDSignal E) (dispatched_tasks (groups s g))"
  obtain s2 where 2: "enqueue_barrier_tasks E (dispatched_sink (groups s g)) ?s1 = Some s2"
    and s': "s' = s2\<lparr>handlers := handlers s2 @ [?h]\<rparr>"
    using f False by (auto simp: flush_dispatched_def Let_def bind_eq_Some_conv)
  note c = enqueue_barrier_tasks_core [OF 2]
  have "handlers s2 = handlers s" using core_eq_fields(12) [OF c] by simp
  then have e: "sched_core s' = sched_core (?s1\<lparr>handlers := handlers s @ [?h]\<rparr>)"
    unfolding s' sched_core_upds c by simp
  have "bar_inv A B X s'"
    using bar_inv_core [OF e] bar_inv_flushed [OF inv False, of "IdentityANDSignal E"] by simp
  moreover have "same_tasks s (?s1\<lparr>handlers := handlers s @ [?h]\<rparr>)" by (rule same_tasks_quiet) simp_all
  then have "same_tasks s s'" using same_tasks_core [OF e] same_tasks_trans by blast
  moreover have "created_tasks (groups s' h) = created_tasks (groups s h)" for h
    using core_eq_barrier_fields(3) [OF e, of h] by simp
  ultimately show ?thesis by blast
qed

lemma barrier_no_dispatch_bar:
  assumes inv: "bar_inv A B X s" and f: "barrier_no_dispatch E g isC s = Some s'"
  shows "bar_inv A B X s' \<and> same_tasks s s' \<and>
    (\<forall>h. created_tasks (groups s' h) = created_tasks (groups s h))"
proof -
  let ?s1 = "upd_group g (\<lambda>k. k\<lparr>first_dispatched := True\<rparr>) s"
  have 1: "bar_inv A B X ?s1" by (rule bar_inv_first [OF inv])
  have st: "same_tasks s ?s1" by (rule same_tasks_quiet) simp_all
  have cr: "created_tasks (groups ?s1 h) = created_tasks (groups s h)" for h by simp
  have "s' = ?s1 \<or> flush_dispatched E g ?s1 = Some s'"
    using f by (auto simp: barrier_no_dispatch_def Let_def split: if_splits)
  then show ?thesis
    using 1 st cr flush_dispatched_bar [OF 1] same_tasks_trans [OF st] by (elim disjE) auto
qed

lemma holdings_predecessors: "holdings k = holdings k' \<Longrightarrow> predecessors k = predecessors k'"
  by (cases k; cases k'; simp add: holdings_def)

lemma same_tasks_dispatch:
  assumes r: "state_of s t = ATMI_READY" and d: "dispatch E t s = Some s'"
  shows "same_tasks s s'"
proof -
  have p: "tasks (push_groupable g t s) = tasks s" "n_tasks (push_groupable g t s) = n_tasks s"
    for g
    by (simp_all add: push_groupable_def)
  show ?thesis
    using d
  proof (cases rule: dispatch_core)
    case (1 g)
    then show ?thesis by (simp add: same_tasks_core)
  next
    case (2 g)
    have e: "sched_core s' = sched_core (upd_task t (\<lambda>k. k\<lparr>tk_state := ATMI_DISPATCHED\<rparr>)
        (push_groupable g t s))"
      using 2(2) sched_core_set_state by simp
    have "same_tasks s (upd_task t (\<lambda>k. k\<lparr>tk_state := ATMI_DISPATCHED\<rparr>) (push_groupable g t s))"
      using r by (intro same_tasks_quiet) (auto simp: p state_order split: if_splits)
    then show ?thesis using same_tasks_core [OF e] same_tasks_trans by blast
  next
    case (3 g)
    have "same_tasks s ((push_groupable g t s)\<lparr>copy_threads := copy_threads s @ [t]\<rparr>)"
      by (intro same_tasks_quiet) (simp_all add: p)
    then show ?thesis using same_tasks_core [OF 3(3)] same_tasks_trans by blast
  qed
qed

section \<open>tryDispatch\<close>

lemma tryDispatchBarrierPacket_bar:
  assumes inv: "bar_inv A B X s" and g: "tk_group (tasks s this) = Some g"
    and h: "tryDispatchBarrierPacket E this args s = Some (sel, s')"
  shows "bar_inv A B X s' \<and> same_tasks s s' \<and>
    (case sel of
       None \<Rightarrow> created_tasks (groups s' g) = created_tasks (groups s g)
     | Some r \<Rightarrow> created_tasks (groups s g) = r # created_tasks (groups s' g) \<and>
         state_of s' r = ATMI_READY \<and> r < n_tasks s' \<and> r \<notin> set (copy_threads s'))"
proof (cases "created_tasks (groups s g)")
  case Nil
  then show ?thesis using h g inv same_tasks_refl by (simp add: tryDispatchBarrierPacket_def)
next
  case (Cons t rest)
  obtain impl where i: "lenient_kernel_impl s t = Some impl"
    using h g Cons by (auto simp: tryDispatchBarrierPacket_def bind_eq_Some_conv)
  have t: "t < n_tasks s" "tk_group (tasks s t) = Some g" "state_of s t < ATMI_READY"
    using lists_invD(8) [OF bar_invD(6) [OF inv], of t g] Cons by simp_all
  then have nr: "\<not> state_of s t \<ge> ATMI_READY" by simp
  have "and_predecessors (tasks s t) = []"
    by (rule tasks_invD(2) [OF bar_invD(7) [OF inv] t(1, 3)])
  then have clear: "upd_task t (\<lambda>k. k\<lparr>and_predecessors := []\<rparr>) s = s"
    by (cases "tasks s t") (simp add: upd_task_def fun_upd_idem_iff)
  consider (postponed) "sel = None" "barrier_postpone t args s = Some s'"
    | (granted) "sel = Some t" "deps_dispatched t s" "FreeSignalPool s \<noteq> []" "\<not> no_segment s impl"
        "barrier_grant E t g args s = Some s'"
    using h by (auto simp: tryDispatchBarrierPacket_def g Cons i nr clear split: if_splits)
  then show ?thesis
  proof cases
    case postponed
    let ?p = "upd_task t (\<lambda>k. k\<lparr>tk_state := ATMI_INITIALIZED\<rparr>) s"
    have e: "sched_core s' = sched_core ?p" by (rule barrier_postpone_core [OF postponed(2)])
    have "bar_inv A B X s'" using bar_inv_core [OF e] bar_inv_postponed [OF inv t(1, 3, 2)] by simp
    moreover have "same_tasks s ?p"
      using t(3) by (intro same_tasks_quiet) (auto simp: state_order less_ready_iff split: if_splits)
    then have "same_tasks s s'" using same_tasks_core [OF e] same_tasks_trans by blast
    moreover have "created_tasks (groups s' g) = created_tasks (groups s g)"
      using core_eq_barrier_fields(3) [OF e, of g] by simp
    ultimately show ?thesis using postponed(1) by simp
  next
    case granted
    have ng: "\<not> groupable (tasks s t)" by (rule tasks_invD(1) [OF bar_invD(7) [OF inv] t(1)])
    note F = barrier_grant_fields [OF granted(5) i ng]
    note b = bar_inv_granted [OF inv Cons granted(2) i granted(3, 4, 5)]
    have "tk_group (tasks s' x) = tk_group (tasks s x)" for x
      using F(1) [of tk_group x, OF task_core_fields(8) holdings_eq(7)]
      by (simp add: grant_abs_fields(1))
    moreover have "predecessors (tasks s' x) = predecessors (tasks s x)" for x
      using F(1) [of predecessors x, OF task_core_fields(11) holdings_predecessors]
      by (simp add: grant_abs_fields(1))
    moreover have st: "state_of s' x = (if x = t then ATMI_READY else state_of s x)" for x
      using F(1) [of tk_state x, OF task_core_fields(6) holdings_state] by (simp add: grant_abs_fields(1))
    moreover have "ready_ok s' t"
      unfolding ready_ok_def
    proof
      fix p assume "p \<in> set (predecessors (tasks s' t))"
      then have p: "p \<in> set (predecessors (tasks s t))"
        using F(1) [of predecessors t, OF task_core_fields(11) holdings_predecessors]
        by (simp add: grant_abs_fields(1))
      then have d: "ATMI_DISPATCHED \<le> state_of s p"
        using granted(2) by (simp add: deps_dispatched_def not_less)
      then have "p \<noteq> t" using t(3) by (auto simp: state_order less_ready_iff)
      then show "ATMI_DISPATCHED \<le> state_of s' p \<and>
          (p \<in> set (and_predecessors (tasks s' t)) \<or> ATMI_EXECUTED \<le> state_of s' p)"
        using d F(19) [OF p] st by (auto simp: not_less)
    qed
    ultimately have "same_tasks s s'"
      using F(2, 11) t(3) unfolding same_tasks_def by (auto simp: less_ready_iff state_order)
    moreover have "t \<notin> set (copy_threads s')"
      using bar_invD(4) [OF inv] t(3) F(8) by (auto simp: copy_inv_def)
    ultimately show ?thesis using b granted(1) Cons F(13) [of g] t(1) by simp
  qed
qed

lemma tryDispatch_bar:
  assumes inv: "bar_inv A B X s" and td: "tryDispatch E t args isC s = Some (d, w, s')"
  shows "bar_inv A B X s' \<and> same_tasks s s' \<and>
    (\<exists>g. tk_group (tasks s t) = Some g \<and>
       length (created_tasks (groups s' g)) + (if d then 1 else 0) \<le> length (created_tasks (groups s g)))"
proof -
  obtain g where g: "tk_group (tasks s t) = Some g" using td by (auto simp: tryDispatch_def bind_eq_Some_conv)
  have sync: "dep_sync s = ATL_SYNC_BARRIER_PKT" by (rule bar_invD(1) [OF inv])
  obtain sel s1 s2 where sel: "select_dispatch E t args isC s = Some (sel, s1)"
    and s2: "(case sel of Some r \<Rightarrow> Option.bind (dispatch E r s1) (register_callback r)
             | None \<Rightarrow> if dep_sync s1 = ATL_SYNC_BARRIER_PKT then barrier_no_dispatch E g isC s1
                 else Some s1) = Some s2" and s': "s' = s2" and d: "d \<Longrightarrow> sel \<noteq> None"
    using td g by (auto simp: tryDispatch_def bind_eq_Some_conv split: if_splits)
  have "sel = None \<and> s1 = s \<or> tryDispatchBarrierPacket E t args s = Some (sel, s1)"
    using sel sync g by (auto simp: select_dispatch_def split: if_splits)
  then have b: "bar_inv A B X s1 \<and> same_tasks s s1 \<and>
    (case sel of
       None \<Rightarrow> created_tasks (groups s1 g) = created_tasks (groups s g)
     | Some r \<Rightarrow> created_tasks (groups s g) = r # created_tasks (groups s1 g) \<and>
         state_of s1 r = ATMI_READY \<and> r < n_tasks s1 \<and> r \<notin> set (copy_threads s1))"
    using tryDispatchBarrierPacket_bar [OF inv g] inv same_tasks_refl by auto
  show ?thesis
  proof (cases sel)
    case None
    have "barrier_no_dispatch E g isC s1 = Some s2"
      using s2 None bar_invD(1) [of A B X s1] b by simp
    from barrier_no_dispatch_bar [OF _ this] b show ?thesis
      using None d g s' same_tasks_trans by fastforce
  next
    case (Some r)
    have 1: "bar_inv A B X s1" "state_of s1 r = ATMI_READY" "r < n_tasks s1" "r \<notin> set (copy_threads s1)"
      using b Some by simp_all
    obtain s0 where s0: "dispatch E r s1 = Some s0" and reg: "register_callback r s0 = Some s2"
      using s2 Some by (auto simp: bind_eq_Some_conv)
    have 0: "bar_inv A B X s0" by (rule bar_inv_dispatch [OF 1(1, 3, 2, 4) s0])
    note st = static_dispatch [OF s0]
    have "r < n_tasks s0" using static_fields(2) [OF st] 1(3) by simp
    then have "\<not> groupable (tasks s0 r)" using tasks_invD(1) [OF bar_invD(7) [OF 0]] by blast
    then have e: "s2 = s0" using reg bar_invD(1) [OF 0] by (simp add: register_callback_def)
    have "same_tasks s1 s0" by (rule same_tasks_dispatch [OF 1(2) s0])
    then have "same_tasks s s'" using b same_tasks_trans s' e by blast
    moreover have "created_tasks (groups s0 g) = created_tasks (groups s1 g)"
      using dispatch_created [OF s0] by simp
    ultimately show ?thesis using b Some g 0 e s' by simp
  qed
qed


section \<open>The progress loop\<close>

lemma created_loop_bar:
  assumes "bar_inv A B X s" and "created_loop n E t isC s = Some (w, s')"
  shows "bar_inv A B X s' \<and> same_tasks s s'"
  using assms
proof (induction n arbitrary: s)
  case (Suc n)
  obtain d w1 s1 where td: "tryDispatch E t None isC s = Some (d, w1, s1)"
    and rest: "if d then created_loop n E t isC s1 = Some (w, s') else s' = s1"
    using Suc.prems(2) by (auto simp: bind_eq_Some_conv split: if_splits)
  have "bar_inv A B X s1" "same_tasks s s1" using tryDispatch_bar [OF Suc.prems(1) td] by blast+
  then show ?case using rest Suc.IH [of s1] same_tasks_trans by (cases d) auto
qed simp

text \<open>
  Every round that goes on takes a task off the list of created tasks: with more rounds than the
  list has tasks their number does not matter.
\<close>

lemma created_loop_fuel:
  assumes "bar_inv A B X s" and "tk_group (tasks s t) = Some g"
    and "length (created_tasks (groups s g)) < n"
  shows "created_loop (n + k) E t isC s = created_loop n E t isC s"
  using assms
proof (induction n arbitrary: s)
  case (Suc n)
  show ?case
  proof (cases "tryDispatch E t None isC s")
    case (Some r)
    obtain d w s1 where r: "r = (d, w, s1)" by (cases r) auto
    have td: "tryDispatch E t None isC s = Some (d, w, s1)" using Some r by simp
    note b = tryDispatch_bar [OF Suc.prems(1) td]
    have g: "tk_group (tasks s1 t) = Some g" using b Suc.prems(2) same_tasksD(2) by metis
    show ?thesis
    proof (cases d)
      case True
      then have "length (created_tasks (groups s1 g)) < n" using b Suc.prems(2, 3) by simp
      then show ?thesis using Suc.IH [OF _ g] b td True by simp
    qed (simp add: td)
  qed simp
qed simp

lemma doProgress_bar:
  assumes inv: "bar_inv A B X s" and p: "doProgress E t s = Some (w, s')"
  shows "bar_inv A B X s' \<and> same_tasks s s'"
proof -
  have sync: "dep_sync s = ATL_SYNC_BARRIER_PKT" by (rule bar_invD(1) [OF inv])
  obtain g where g: "tk_group (tasks s t) = Some g"
    using p by (auto simp: doProgress_def bind_eq_Some_conv)
  show ?thesis
  proof (cases "created_tasks (groups s g) = []")
    case True
    then have "s' = upd_group g (\<lambda>k. k\<lparr>first_dispatched := False\<rparr>) s"
      using p by (simp add: doProgress_def sync g)
    moreover have "same_tasks s (upd_group g (\<lambda>k. k\<lparr>first_dispatched := False\<rparr>) s)"
      by (rule same_tasks_quiet) simp_all
    ultimately show ?thesis using bar_inv_first [OF inv] by simp
  next
    case False
    then have "created_loop (Suc (length (created_tasks (groups s g)))) E t True s = Some (w, s')"
      using p by (simp del: created_loop.simps add: doProgress_def sync g)
    then show ?thesis by (rule created_loop_bar [OF inv])
  qed
qed

section \<open>Retiring a batch\<close>

definition retire_abs :: "tid \<Rightarrow> rt_state \<Rightarrow> rt_state" where
  "retire_abs t s =
     (let s' = (upd_task t (\<lambda>k. k\<lparr>tk_state := ATMI_COMPLETED\<rparr>) s)
                 \<lparr>FreeSignalPool := queue_give_back (tk_signal (tasks s t)) (FreeSignalPool s)\<rparr>
      in case impl_of (kernels s) (tasks s t) of
           None \<Rightarrow> s'
         | Some p \<Rightarrow> upd_impl p (\<lambda>k. k\<lparr>free_kernarg_segments :=
             queue_give_back (tk_kernarg_index (tasks s t)) (free_kernarg_segments k)\<rparr>) s')"

lemma retire_abs_fields:
  "tasks (retire_abs t s) = (tasks s)(t := (tasks s t)\<lparr>tk_state := ATMI_COMPLETED\<rparr>)"
  "FreeSignalPool (retire_abs t s) = FreeSignalPool (complete_abs t s)"
  "impls (retire_abs t s) = impls (complete_abs t s)"
  "n_tasks (retire_abs t s) = n_tasks s" "groups (retire_abs t s) = groups s"
  "kernels (retire_abs t s) = kernels s" "n_impls (retire_abs t s) = n_impls s"
  "handlers (retire_abs t s) = handlers s" "copy_threads (retire_abs t s) = copy_threads s"
  "dep_sync (retire_abs t s) = dep_sync s" "AllTaskgroups (retire_abs t s) = AllTaskgroups s"
  by (auto simp: retire_abs_def complete_abs_def Let_def upd_task_def upd_impl_def
      split: option.split)

lemma retire_task_core:
  assumes "retire_task E t s = Some s'"
  shows "sched_core s' = sched_core (retire_abs t s)"
proof -
  let ?u = "upd_task t (\<lambda>k. k\<lparr>tk_state := ATMI_EXECUTED\<rparr>) s"
  obtain m where m: "set_state t ATMI_EXECUTED s = ?u\<lparr>user_tasks := m\<rparr>"
    using set_state_exact by blast
  obtain s5 s6 where 5: "free_segment t (?u\<lparr>user_tasks := m\<rparr>) = Some s5"
    and 6: "updateMetrics E t (free_signal t s5) = Some s6" and s': "s' = set_state t ATMI_COMPLETED s6"
    using assms by (auto simp: retire_task_def Let_def m bind_eq_Some_conv split: if_splits)
  have "sched_core s' = sched_core (upd_task t (\<lambda>k. k\<lparr>tk_state := ATMI_COMPLETED\<rparr>) (free_signal t s5))"
    using updateMetrics_core [OF 6] s' by (simp add: sched_core_set_state_eq sched_core_task_state)
  moreover have "upd_task t (\<lambda>k. k\<lparr>tk_state := ATMI_COMPLETED\<rparr>) (free_signal t s5) =
      (retire_abs t s)\<lparr>user_tasks := m\<rparr>"
  proof (cases "tk_type (tasks s t)")
    case ATL_KERNEL_EXECUTION
    then obtain p where "task_impl (?u\<lparr>user_tasks := m\<rparr>) t = Some p"
        "impl_of (kernels s) (tasks s t) = Some p"
      using 5 by (auto simp: free_segment_def bind_eq_Some_conv task_impl_def impl_of_def)
    then show ?thesis
      using 5 ATL_KERNEL_EXECUTION
      by (auto simp: free_segment_def free_signal_def retire_abs_def upd_task_def upd_impl_def Let_def)
  next
    case ATL_DATA_MOVEMENT
    then have "s5 = ?u\<lparr>user_tasks := m\<rparr>" using 5 by (auto simp: free_segment_def)
    then show ?thesis
      using ATL_DATA_MOVEMENT
      by (auto simp: free_signal_def retire_abs_def impl_of_def upd_task_def Let_def)
  qed
  ultimately show ?thesis by (metis sched_core_mem(3))
qed


lemma retire_resources:
  assumes "signal_inv A s" "segment_inv B s" and t: "t < n_tasks s" "live (tasks s t)"
    "\<not> groupable (tasks s t)"
  shows "signal_inv A (retire_abs t s)" "segment_inv B (retire_abs t s)"
proof -
  have k: "tasks (complete_abs t s) x = (tasks (retire_abs t s) x)
      \<lparr>num_predecessors := num_predecessors (tasks (complete_abs t s) x)\<rparr>" for x
    by (simp add: complete_abs_fields retire_abs_fields)
  have h: "sig_of (tasks (retire_abs t s) x) = sig_of (tasks (complete_abs t s) x)"
    "seg_of ks p (tasks (retire_abs t s) x) = seg_of ks p (tasks (complete_abs t s) x)" for x ks p
    by (subst k, simp)+
  have "signal_inv A (retire_abs t s) = signal_inv A (complete_abs t s)"
    by (rule signal_inv_cong [OF _ _ h(1)]) (simp_all add: retire_abs_fields complete_abs_fields(5))
  then show "signal_inv A (retire_abs t s)" using complete_signal_inv [OF assms(1) t] by simp
  have "segment_inv B (retire_abs t s) = segment_inv B (complete_abs t s)"
    by (rule segment_inv_cong [OF _ _ _ _ h(2)])
       (simp_all add: retire_abs_fields complete_abs_fields(5, 7, 8))
  then show "segment_inv B (retire_abs t s)" using complete_segment_inv [OF assms(2) t(1, 2)] by simp
qed

lemma bar_inv_retired:
  assumes inv: "bar_inv A B (t # X) s" and c: "t \<notin> set (copy_threads s)"
  shows "bar_inv A B X (retire_abs t s)"
proof -
  let ?s = "retire_abs t s"
  note I = bar_invD [OF inv]
  note L = lists_invD [OF I(6)] and T = tasks_invD [OF I(7)]
  have own: "owned (t # X) s = t # owned X s" "owned X ?s = owned X s"
    by (simp_all add: owned_def retire_abs_fields)
  have t: "t < n_tasks s" "live (tasks s t)" "t \<notin> set (owned X s)"
    using L(2) L(3) [of t] by (simp_all add: own)
  have ng: "\<not> groupable (tasks s t)" by (rule T(1) [OF t(1)])
  have r: "ATMI_READY \<le> state_of s t" using t(2) by (auto simp: live_def state_order)
  have f: "state_of ?s x = (if x = t then ATMI_COMPLETED else state_of s x)"
    "live (tasks ?s x) = (x \<noteq> t \<and> live (tasks s x))" "groupable (tasks ?s x) = groupable (tasks s x)"
    "tk_group (tasks ?s x) = tk_group (tasks s x)"
    "and_predecessors (tasks ?s x) = and_predecessors (tasks s x)" for x
    by (auto simp: retire_abs_fields live_def)
  have cov: "covered ?s S ts = covered s S ts" for S ts
    by (rule covered_cong) (simp add: comes_after_def retire_abs_fields)
  have "copy_inv ?s"
    by (rule copy_inv_same [OF I(4)]) (use c in \<open>auto simp: f retire_abs_fields(4, 9)\<close>)
  moreover have "table_inv ?s"
    using I(5) by (auto simp: table_inv_def f retire_abs_fields(4, 11))
  moreover have "lists_inv X ?s"
    unfolding lists_inv_def own cov retire_abs_fields(4, 5, 8) f
  proof (intro conjI allI ballI)
    show "\<exists>sg ts. h = HandleBatch sg ts \<and> ts \<noteq> []" if "h \<in> set (handlers s)" for h
      using L(1) that by blast
    show "distinct (owned X s)" using L(2) by (simp add: own)
    fix x assume "x \<in> set (owned X s)"
    then show "x < n_tasks s" "x \<noteq> t" "live (tasks s x)" using L(3) [of x] t(3) by (auto simp: own)
  next
    fix g x assume "x \<in> set (dispatched_tasks (groups s g))"
    then show "x < n_tasks s" "x \<noteq> t" "live (tasks s x)" "tk_group (tasks s x) = Some g"
      "x \<notin> set (owned X s)" using L(5) [of x g] by (auto simp: own)
  next
    fix g x assume x: "x \<in> set (created_tasks (groups s g))"
    then have "x \<noteq> t" using L(8) [of t g] r by auto
    then show "x < n_tasks s" "tk_group (tasks s x) = Some g"
      "(if x = t then ATMI_COMPLETED else state_of s x) < ATMI_READY" using L(8) [OF x] by simp_all
  qed (use L(4, 6, 7, 9) in simp_all)
  moreover have "tasks_inv X ?s"
    unfolding tasks_inv_def own retire_abs_fields(4, 5) f
  proof (intro allI impI conjI)
    fix x assume x: "x < n_tasks s"
    note T = T [OF x]
    show "\<not> groupable (tasks s x)" by (rule T(1))
    show "and_predecessors (tasks s x) = []"
      if "(if x = t then ATMI_COMPLETED else state_of s x) < ATMI_READY"
      using that T(2) by (auto simp: state_order split: if_splits)
    show "x \<in> set (owned X s) \<or> (\<exists>g. x \<in> set (dispatched_tasks (groups s g)))"
      if "x \<noteq> t \<and> live (tasks s x)" using that T(3) by (auto simp: own)
    show "x \<in> set (created_tasks (groups s g))" if "tk_group (tasks s x) = Some g"
      "(if x = t then ATMI_COMPLETED else state_of s x) < ATMI_READY" for g
      using that T(4) by (auto simp: state_order split: if_splits)
    show "(if x = t then ATMI_COMPLETED else state_of s x) = ATMI_UNINITIALIZED"
      if "tk_group (tasks s x) = None" using that T(5) t(2) by (auto simp: live_def)
    show "(if x = t then ATMI_COMPLETED else state_of s x) \<noteq> ATMI_EXECUTED" using T(6) by simp
  qed
  ultimately show ?thesis
    using retire_resources [OF I(2, 3) t(1, 2) ng] I(1) by (simp add: bar_inv_def retire_abs_fields(10))
qed

lemma retire_tasks_bar:
  assumes "bar_inv A B (ts @ X) s" and "\<forall>t \<in> set ts. t \<notin> set (copy_threads s)"
    and "retire_tasks E ts s = Some s'"
  shows "bar_inv A B X s' \<and> same_tasks s s' \<and> copy_threads s' = copy_threads s \<and>
    (\<forall>t. state_of s' t = (if t \<in> set ts then ATMI_COMPLETED else state_of s t))"
  using assms
proof (induction ts arbitrary: s)
  case (Cons t ts)
  obtain s1 where 1: "retire_task E t s = Some s1" and 2: "retire_tasks E ts s1 = Some s'"
    using Cons.prems(3) by (auto simp: bind_eq_Some_conv)
  note e = retire_task_core [OF 1]
  have b: "bar_inv A B (ts @ X) s1"
    using bar_inv_core [OF e] bar_inv_retired [of A B t "ts @ X" s] Cons.prems(1, 2) by simp
  have c: "copy_threads s1 = copy_threads s" using core_eq_fields(11) [OF e] by (simp add: retire_abs_fields)
  have "state_of s t = ATMI_READY \<or> state_of s t = ATMI_DISPATCHED"
    using lists_invD(3) [OF bar_invD(6) [OF Cons.prems(1)], of t] by (simp add: owned_def live_def)
  then have "same_tasks s (retire_abs t s)"
    by (intro same_tasks_quiet) (auto simp: retire_abs_fields state_order split: if_splits)
  then have st: "same_tasks s s1" using same_tasks_core [OF e] same_tasks_trans by blast
  have "state_of s1 x = (if x = t then ATMI_COMPLETED else state_of s x)" for x
    using core_eq_task_fields(3) [OF e, of x] by (simp add: retire_abs_fields)
  then show ?case using Cons.IH [OF b _ 2] Cons.prems(2) c same_tasks_trans [OF st] by auto
qed (simp add: same_tasks_refl)

lemma bar_inv_handler_fires:
  assumes inv: "bar_inv A B [] s" and h: "handlers s = hs1 @ HandleBatch sg ts # hs2"
  shows "bar_inv A B ts (s\<lparr>handlers := hs1 @ hs2\<rparr>)"
proof -
  let ?s = "s\<lparr>handlers := hs1 @ hs2\<rparr>"
  note I = bar_invD [OF inv]
  note L = lists_invD [OF I(6)] and T = tasks_invD [OF I(7)]
  have own: "set (owned ts ?s) = set (owned [] s)" "distinct (owned ts ?s)"
    using L(2) by (auto simp: owned_def h)
  have "signal_inv A ?s = signal_inv A s" "segment_inv B ?s = segment_inv B s"
    by (intro signal_inv_cong segment_inv_cong; simp)+
  moreover have cov: "covered ?s S xs = covered s S xs" for S xs
    by (rule covered_cong) (simp add: comes_after_def)
  moreover have "lists_inv ts ?s"
    unfolding lists_inv_def cov own(1) using own(2) L by (simp add: h)
  moreover have "tasks_inv ts ?s" using I(7) unfolding tasks_inv_def own(1) by simp
  ultimately show ?thesis using I by (simp add: bar_inv_def copy_inv_def table_inv_def)
qed

lemma handle_batch_bar:
  assumes inv: "bar_inv A B [] s" and h: "handlers s = hs1 @ HandleBatch sg ts # hs2"
    and c: "\<forall>t \<in> set ts. t \<notin> set (copy_threads s)"
    and d: "handle_signal_barrier_pkt E ts (s\<lparr>handlers := hs1 @ hs2\<rparr>) = Some (w, s')"
  shows "bar_inv A B [] s' \<and> same_tasks s s'"
proof -
  let ?s = "s\<lparr>handlers := hs1 @ hs2\<rparr>"
  obtain t s1 where 1: "retire_tasks E ts ?s = Some s1" and 2: "doProgress E t s1 = Some (w, s')"
    using d by (auto simp: handle_signal_barrier_pkt_def bind_eq_Some_conv split: list.splits)
  have "bar_inv A B [] s1 \<and> same_tasks ?s s1"
    using retire_tasks_bar [of A B ts "[]" ?s] bar_inv_handler_fires [OF inv h] c 1 by simp
  moreover have "same_tasks s ?s" by (rule same_tasks_quiet) simp_all
  ultimately show ?thesis using doProgress_bar [OF _ 2] same_tasks_trans by metis
qed

end
