(* ===== verification/Barrier_Calls.thy ===== *)
theory Barrier_Calls
  imports Barrier_Progress
begin

text \<open>
  The calls of the application keep the invariant of the barrier mode: launching, creating and
  activating tasks, copies, task groups, and the barrier that a waiting thread enqueues.
\<close>

section \<open>A task joins the created tasks of its group\<close>

definition push_created :: "gid option \<Rightarrow> tid \<Rightarrow> rt_state \<Rightarrow> rt_state" where
  "push_created go t s =
     (case go of
        None \<Rightarrow> s
      | Some g \<Rightarrow> upd_group g (\<lambda>k. k\<lparr>created_tasks := created_tasks k @ [t]\<rparr>) s)"

lemma push_created_fields:
  "tasks (push_created go t s) = tasks s" "n_tasks (push_created go t s) = n_tasks s"
  "created_tasks (groups (push_created go t s) h) =
     (if go = Some h then created_tasks (groups s h) @ [t] else created_tasks (groups s h))"
  "dispatched_tasks (groups (push_created go t s) h) = dispatched_tasks (groups s h)"
  "dispatched_sink (groups (push_created go t s) h) = dispatched_sink (groups s h)"
  "dep_sync (push_created go t s) = dep_sync s" "kernels (push_created go t s) = kernels s"
  "n_impls (push_created go t s) = n_impls s" "impls (push_created go t s) = impls s"
  "FreeSignalPool (push_created go t s) = FreeSignalPool s"
  "handlers (push_created go t s) = handlers s" "copy_threads (push_created go t s) = copy_threads s"
  "AllTaskgroups (push_created go t s) = AllTaskgroups s"
  "first_dispatched (groups (push_created go t s) h) = first_dispatched (groups s h)"
  by (auto simp: push_created_def split: option.split)

text \<open>A task object set up for the barrier mode: it has no links and is not groupable;
  a template has no group and is not among the created tasks.\<close>

definition enters :: "tid \<Rightarrow> gid option \<Rightarrow> rt_state \<Rightarrow> rt_state \<Rightarrow> bool" where
  "enters t go s s1 \<longleftrightarrow> joins t s s1 \<and> tk_group (tasks s1 t) = go \<and>
     \<not> groupable (tasks s1 t) \<and> and_predecessors (tasks s1 t) = []"

lemma enters_fields:
  assumes "enters t go s s1"
  shows "n_tasks s \<le> n_tasks s1" "t < n_tasks s1" "x \<noteq> t \<Longrightarrow> tasks s1 x = tasks s x"
    "x < n_tasks s1 \<Longrightarrow> x \<noteq> t \<Longrightarrow> x < n_tasks s" "state_of s1 t = ATMI_UNINITIALIZED"
    "t < n_tasks s \<Longrightarrow> tk_group (tasks s t) = None \<and> state_of s t = ATMI_UNINITIALIZED"
    "dep_sync s1 = dep_sync s" "kernels s1 = kernels s" "n_impls s1 = n_impls s"
    "impls s1 = impls s" "FreeSignalPool s1 = FreeSignalPool s" "handlers s1 = handlers s"
    "copy_threads s1 = copy_threads s" "AllTaskgroups s1 = AllTaskgroups s"
    "created_tasks (groups s1 h) = created_tasks (groups s h)"
    "dispatched_tasks (groups s1 h) = dispatched_tasks (groups s h)"
    "dispatched_sink (groups s1 h) = dispatched_sink (groups s h)"
    "first_dispatched (groups s1 h) = first_dispatched (groups s h)"
  using assms by (auto simp: enters_def joins_def)

lemma enters_resources:
  assumes e: "enters t go s s1" and "signal_inv A s" "segment_inv B s"
  shows "signal_inv A s1" "segment_inv B s1"
proof -
  have j: "joins t s s1" using e by (simp add: enters_def)
  have "task_sum sig_of s1 = task_sum sig_of s"
    by (rule joins_task_sum [OF j]) (simp_all add: sig_of_def active_iff)
  then show "signal_inv A s1" using assms(2) by (simp add: signal_inv_def enters_fields(11) [OF e])
  have "task_sum (seg_of ks p) s1 = task_sum (seg_of ks p) s" for ks p
    by (rule joins_task_sum [OF j]) (simp_all add: seg_of_def active_iff)
  then show "segment_inv B s1"
    using assms(3) by (simp add: segment_inv_def enters_fields(8-10) [OF e])
qed

lemma bar_inv_enters:
  assumes inv: "bar_inv A B [] s" and e: "enters t go s s1"
  shows "bar_inv A B [] (push_created go t s1)"
proof -
  let ?s = "push_created go t s1"
  note I = bar_invD [OF inv]
  note L = lists_invD [OF I(6)] and T = tasks_invD [OF I(7)]
  note F = enters_fields [OF e]
  have g: "tk_group (tasks s1 t) = go" "\<not> groupable (tasks s1 t)"
    "and_predecessors (tasks s1 t) = []" "joins t s s1" using e by (simp_all add: enters_def)
  have dead: "\<not> live (tasks s t)" if "t < n_tasks s" using F(6) [OF that] by (simp add: live_def)
  have out: "t \<notin> set (owned [] s)" "t \<notin> set (dispatched_tasks (groups s h))"
    "t \<notin> set (created_tasks (groups s h))" "t \<notin> set (copy_threads s)" for h
    using L(3) [of t] L(5) [of t h] L(8) [of t h] I(4) F(6) dead by (auto simp: copy_inv_def)
  have p: "tasks ?s = tasks s1" "n_tasks ?s = n_tasks s1" "handlers ?s = handlers s"
    "copy_threads ?s = copy_threads s" "owned [] ?s = owned [] s"
    by (simp_all add: push_created_fields owned_def F)
  have cov: "covered ?s (dispatched_sink (groups s h)) (dispatched_tasks (groups s h))" for h
  proof -
    have "comes_after ?s u x = comes_after s u x" if "u \<in> set (dispatched_tasks (groups s h))" for u x
      using F(3) [of u] that out(2) by (metis p(1) comes_after_def)
    then show ?thesis using covered_cong [of "dispatched_tasks (groups s h)" ?s s] L(6) by blast
  qed
  have "signal_inv A ?s = signal_inv A s1" "segment_inv B ?s = segment_inv B s1"
    by (intro signal_inv_cong segment_inv_cong; simp add: push_created_fields)+
  then have "signal_inv A ?s" "segment_inv B ?s" using enters_resources [OF e I(2, 3)] by simp_all
  moreover have "copy_inv ?s"
    unfolding copy_inv_def p using I(4) F(1) F(3) out(4) unfolding copy_inv_def by (metis less_le_trans)
  moreover have "table_inv ?s"
    using joins_table [OF g(4) I(5)] by (simp add: table_inv_def push_created_fields)
  moreover have "lists_inv [] ?s"
    unfolding lists_inv_def p push_created_fields(3-5) F(15-17)
  proof (intro conjI allI ballI)
    fix x assume x: "x \<in> set (owned [] s)"
    then have "x \<noteq> t" using out(1) by blast
    then show "x < n_tasks s1" "live (tasks s1 x)" using L(3) [OF x] F(1) F(3) [of x] by simp_all
  next
    fix h x assume x: "x \<in> set (dispatched_tasks (groups s h))"
    then have "x \<noteq> t" using out(2) by blast
    then show "x < n_tasks s1" "live (tasks s1 x)" "tk_group (tasks s1 x) = Some h" "x \<notin> set (owned [] s)"
      using L(5) [OF x] F(1) F(3) [of x] by simp_all
  next
    fix h
    show "distinct (if go = Some h then created_tasks (groups s h) @ [t] else created_tasks (groups s h))"
      using L(7) out(3) by simp
    fix x assume "x \<in> set (if go = Some h then created_tasks (groups s h) @ [t] else created_tasks (groups s h))"
    then have x: "x = t \<and> go = Some h \<or> x \<noteq> t \<and> x \<in> set (created_tasks (groups s h))"
      using out(3) by (auto split: if_splits)
    show "x < n_tasks s1" "tk_group (tasks s1 x) = Some h" "state_of s1 x < ATMI_READY"
      using x L(8) [of x h] F(3) [of x] F(1, 2, 5) g(1) by (auto simp: state_order)
  qed (use L(1, 2, 4, 9) cov in blast)+
  moreover have "tasks_inv [] ?s"
    unfolding tasks_inv_def p push_created_fields(3-5) F(15-17)
  proof (intro allI impI)
    fix x assume x: "x < n_tasks s1"
    show "\<not> groupable (tasks s1 x) \<and> (state_of s1 x < ATMI_READY \<longrightarrow> and_predecessors (tasks s1 x) = []) \<and>
       (live (tasks s1 x) \<longrightarrow> x \<in> set (owned [] s) \<or> (\<exists>g. x \<in> set (dispatched_tasks (groups s g)))) \<and>
       (\<forall>h. tk_group (tasks s1 x) = Some h \<longrightarrow> state_of s1 x < ATMI_READY \<longrightarrow>
          x \<in> set (if go = Some h then created_tasks (groups s h) @ [t] else created_tasks (groups s h))) \<and>
       (tk_group (tasks s1 x) = None \<longrightarrow> state_of s1 x = ATMI_UNINITIALIZED) \<and>
       state_of s1 x \<noteq> ATMI_EXECUTED"
    proof (cases "x = t")
      case True
      then show ?thesis using g F(5) by (simp add: live_def)
    next
      case False
      then show ?thesis using T [OF F(4) [OF x False]] F(3) [OF False] by auto
    qed
  qed
  ultimately show ?thesis using I(1) by (simp add: bar_inv_def push_created_fields F)
qed

section \<open>Task objects\<close>

lemma join_group_same:
  assumes "join_group t s = Some s'"
  shows "and_predecessors (tasks s' t) = and_predecessors (tasks s t)"
    "groupable (tasks s' t) = groupable (tasks s t)" "tk_group (tasks s' t) = tk_group (tasks s t)"
    "tk_group (tasks s t) \<noteq> None"
  using assms by (auto simp: join_group_def Let_def bind_eq_Some_conv split: if_splits)

lemma setParams_enters:
  assumes "joins t s s'" and "setParams t lparm s1 = Some s'"
    and "and_predecessors (tasks s1 t) = []" and "\<not> lp_groupable lparm"
  shows "\<exists>g. enters t (Some g) s s'"
  using assms(1, 3, 4) join_group_same [of t _ s'] assms(2)
  by (fastforce simp: setParams_def enters_def bind_eq_Some_conv set_launch_params_def)

lemma new_ComputeTaskImpl_enters:
  assumes "table_inv s" and n: "new_ComputeTaskImpl lparm k_id kernel_id s = Some (t, s')"
    and "\<not> lp_groupable lparm"
  shows "\<exists>g. enters t (Some g) s s'"
proof -
  obtain s1 where 1: "new_task ((new_TaskImpl ATL_KERNEL_EXECUTION)
             \<lparr>tk_kernel := k_id, tk_kernel_id := word_of_int kernel_id\<rparr>) s = (t, s1)"
    and p: "setParams t lparm s1 = Some s'"
    using n by (auto simp: new_ComputeTaskImpl_def bind_eq_Some_conv split: prod.splits)
  have "and_predecessors (tasks s1 t) = []" using 1 by (auto simp: new_task_def Let_def new_TaskImpl_def)
  then show ?thesis using setParams_enters [OF new_ComputeTaskImpl_joins(1) [OF assms(1) n] p] assms(3) by blast
qed

lemma createComputeTaskImpl_enters:
  assumes "table_inv s" and "createComputeTaskImpl lparm k_id s = Some (r, s')"
    and "\<not> lp_groupable lparm"
  shows "r = None \<and> s' = s \<or> (\<exists>t g. r = Some t \<and> enters t (Some g) s s')"
  using assms(2) new_ComputeTaskImpl_enters [OF assms(1) _ assms(3)]
  by (auto simp: createComputeTaskImpl_def bind_eq_Some_conv split: option.splits if_splits)

lemma new_DataTaskImpl_enters:
  assumes "table_inv s" and n: "new_DataTaskImpl lparm dest src sz s = Some (t, s')"
    and "\<not> cp_groupable lparm"
  shows "\<exists>g. enters t (Some g) s s'"
proof -
  obtain s1 preds where 1: "new_task ((new_TaskImpl ATL_DATA_MOVEMENT)
             \<lparr>data_dest_ptr := dest, data_src_ptr := src, data_size := sz\<rparr>) s = (t, s1)"
    and p: "join_group t (upd_task t (set_copy_params s1 lparm preds) s1) = Some s'"
    using n by (auto simp: new_DataTaskImpl_def bind_eq_Some_conv split: prod.splits)
  have "and_predecessors (tasks s1 t) = []" using 1 by (auto simp: new_task_def Let_def new_TaskImpl_def)
  then show ?thesis
    using new_DataTaskImpl_joins(1) [OF assms(1) n] join_group_same [OF p] assms(3)
    by (auto simp: enters_def set_copy_params_def)
qed


section \<open>No task goes back\<close>

text \<open>
  A task that has its resources has every required task dispatched, and a link to each that is
  not executed; no call takes a task back.
\<close>

definition order_inv :: "rt_state \<Rightarrow> bool" where
  "order_inv s \<longleftrightarrow> (\<forall>x < n_tasks s. (\<forall>p \<in> set (predecessors (tasks s x)). p < n_tasks s) \<and>
     (ATMI_READY \<le> state_of s x \<longrightarrow> ready_ok s x))"

definition keeps :: "rt_state \<Rightarrow> rt_state \<Rightarrow> bool" where
  "keeps s s' \<longleftrightarrow> n_tasks s \<le> n_tasks s' \<and> (\<forall>x < n_tasks s. state_of s x \<le> state_of s' x)"

lemma keeps_refl: "keeps s s"
  by (simp add: keeps_def)

lemma keeps_trans: "keeps s s1 \<Longrightarrow> keeps s1 s2 \<Longrightarrow> keeps s s2"
  unfolding keeps_def by (meson less_le_trans order_trans)

definition bar_ok :: "signal multiset \<Rightarrow> (impl_ptr \<Rightarrow> nat multiset) \<Rightarrow> rt_state \<Rightarrow> bool" where
  "bar_ok A B s \<longleftrightarrow> bar_inv A B [] s \<and> order_inv s"

lemma same_tasks_order:
  assumes st: "same_tasks s s'" and o: "order_inv s"
  shows "order_inv s' \<and> keeps s s'"
proof -
  have "ready_ok s' x" if "x < n_tasks s" "ATMI_READY \<le> state_of s' x" for x
    using same_tasksD(6) [OF st that(2)] same_tasks_ready_ok [OF st] o that(1)
    by (auto simp: order_inv_def)
  then show ?thesis
    using o same_tasksD(1, 3, 4) [OF st] by (simp add: order_inv_def keeps_def)
qed

lemma bar_ok_same:
  "bar_ok A B s \<Longrightarrow> bar_inv A B [] s' \<Longrightarrow> same_tasks s s' \<Longrightarrow> bar_ok A B s' \<and> keeps s s'"
  using same_tasks_order by (simp add: bar_ok_def)

lemma enters_order:
  assumes e: "enters t go s s1" and o: "order_inv s"
  shows "order_inv s1 \<and> keeps s s1"
proof -
  note F = enters_fields [OF e]
  have new: "p < n_tasks s1" if "p \<in> set (predecessors (tasks s1 t))" for p
    using e that by (auto simp: enters_def joins_def)
  have st: "state_of s1 x = state_of s x" if "x < n_tasks s" for x
    using F(3) [of x] F(5, 6) that by (cases "x = t") auto
  have "(\<forall>p \<in> set (predecessors (tasks s1 x)). p < n_tasks s1) \<and>
      (ATMI_READY \<le> state_of s1 x \<longrightarrow> ready_ok s1 x)" if x: "x < n_tasks s1" for x
  proof (cases "x = t")
    case True
    then show ?thesis using new F(5) by (simp add: state_order)
  next
    case False
    then have "x < n_tasks s" "tasks s1 x = tasks s x" using F(4) [OF x] F(3) by simp_all
    then show ?thesis using o st F(1) unfolding order_inv_def ready_ok_def
      by (metis (no_types, lifting) less_le_trans)
  qed
  then show ?thesis using st F(1) by (simp add: order_inv_def keeps_def)
qed

lemma bar_ok_enters:
  assumes ok: "bar_ok A B s" and e: "enters t go s s1"
  shows "bar_ok A B (push_created go t s1) \<and> keeps s (push_created go t s1)"
proof -
  have "same_tasks s1 (push_created go t s1)"
    by (rule same_tasks_quiet) (simp_all add: push_created_fields)
  then show ?thesis
    using ok bar_inv_enters [OF _ e] enters_order [OF e] same_tasks_order keeps_trans
    unfolding bar_ok_def by blast
qed

section \<open>Launching\<close>

text \<open>What every call that launches a task does in this mode.\<close>

definition bar_launches :: "hsa_env \<Rightarrow> rt_state \<Rightarrow> wait_for \<Rightarrow> rt_state \<Rightarrow> bool" where
  "bar_launches E s w s' \<longleftrightarrow>
     (\<exists>t g s1 s2 args d. enters t (Some g) s s1 \<and> sched_core s2 = sched_core (push_created (Some g) t s1) \<and>
        tryDispatch E t args False s2 = Some (d, w, s'))"

lemma bar_launches_ok:
  assumes ok: "bar_ok A B s" and "bar_launches E s w s'"
  shows "bar_ok A B s' \<and> keeps s s'"
proof -
  obtain t g s1 s2 args d where e: "enters t (Some g) s s1" and c: "sched_core s2 = sched_core (push_created (Some g) t s1)"
    and td: "tryDispatch E t args False s2 = Some (d, w, s')"
    using assms(2) unfolding bar_launches_def by blast
  note 1 = bar_ok_enters [OF ok e]
  have 2: "bar_ok A B s2 \<and> keeps (push_created (Some g) t s1) s2"
    using bar_ok_same [OF conjunct1 [OF 1] _ same_tasks_core [OF c]] 1 bar_inv_core [OF c]
    by (simp add: bar_ok_def)
  then have "bar_inv A B [] s' \<and> same_tasks s2 s'"
    using tryDispatch_bar [OF _ td] by (auto simp: bar_ok_def)
  then have "bar_ok A B s' \<and> keeps s2 s'" using bar_ok_same 2 by blast
  then show ?thesis using 1 2 keeps_trans by blast
qed

lemma sched_core_push: "sched_core (push_created go t s) = push_created go t (sched_core s)"
proof (cases go)
  case (Some g)
  have "sched_core (upd_group g (\<lambda>k. k\<lparr>created_tasks := created_tasks k @ [t]\<rparr>) s) =
      upd_group g (\<lambda>k. k\<lparr>created_tasks := created_tasks k @ [t]\<rparr>) (sched_core s)"
    by (rule sched_core_upd_group_comm) (simp add: group_core_def)
  then show ?thesis using Some by (simp add: push_created_def)
qed (simp add: push_created_def)

lemma tryLaunchKernel_bar:
  assumes e: "enters t (Some g) s s1" and sync: "dep_sync s = ATL_SYNC_BARRIER_PKT"
    and c: "sched_core s2 = sched_core s1"
    and l: "tryLaunchKernel E t args s2 = Some (h, w, s')"
  shows "bar_launches E s w s'"
proof -
  have "dep_sync s2 = ATL_SYNC_BARRIER_PKT" "tk_group (tasks s2 t) = Some g"
    using e sync core_eq_fields(1) [OF c] core_eq_task_fields(4) [OF c]
    by (simp_all add: enters_fields(7) [OF e] enters_def)
  then obtain s3 d where 3: "save_kernargs t args s2 = Some s3"
    and td: "tryDispatch E t args False (push_created (Some g) t s3) = Some (d, w, s')"
    using l by (auto simp: tryLaunchKernel_def push_created_def bind_eq_Some_conv)
  have "sched_core (push_created (Some g) t s3) = sched_core (push_created (Some g) t s1)"
    by (simp add: sched_core_push save_kernargs_core [OF 3] c)
  then show ?thesis using e td unfolding bar_launches_def by blast
qed

lemma LaunchTask_bar:
  assumes inv: "bar_inv A B [] s" and l: "LaunchTask E lparm k_id args s = Some (h, w, s')"
    and ng: "\<not> lp_groupable lparm"
  shows "s' = s \<and> w = NoWait \<or> bar_launches E s w s'"
proof -
  have tab: "table_inv s" and sync: "dep_sync s = ATL_SYNC_BARRIER_PKT"
    using bar_invD(1, 5) [OF inv] by simp_all
  consider "s' = s" "w = NoWait" | t s1 s2 where "createComputeTaskImpl lparm k_id s = Some (Some t, s1)"
      "save_kernargs t args s1 = Some s2" "tryLaunchKernel E t args s2 = Some (h, w, s')"
    | "createComputeTaskImpl lparm k_id s = Some (None, s')" "w = NoWait"
    using l by (fastforce simp: LaunchTask_def bind_eq_Some_conv split: if_splits option.splits)
  then show ?thesis
  proof cases
    case (2 t s1 s2)
    then obtain g where "enters t (Some g) s s1" using createComputeTaskImpl_enters [OF tab 2(1) ng] by blast
    then show ?thesis using tryLaunchKernel_bar [OF _ sync save_kernargs_core [OF 2(2)] 2(3)] by blast
  next
    case 3
    then show ?thesis using createComputeTaskImpl_enters [OF tab 3(1) ng] by simp
  qed simp
qed

lemma MemcpyAsync_bar:
  assumes inv: "bar_inv A B [] s" and l: "MemcpyAsync E cparm dest src sz s = Some (h, w, s')"
    and ng: "\<not> cp_groupable cparm"
  shows "bar_launches E s w s'"
proof -
  obtain t s1 where n: "new_DataTaskImpl cparm dest src sz s = Some (t, s1)"
    using l by (auto simp: MemcpyAsync_def bind_eq_Some_conv)
  obtain g where e: "enters t (Some g) s s1" using new_DataTaskImpl_enters [OF bar_invD(5) [OF inv] n ng] by blast
  have "dep_sync s1 = ATL_SYNC_BARRIER_PKT" "tk_group (tasks s1 t) = Some g"
    using e bar_invD(1) [OF inv] by (simp_all add: enters_fields(7) [OF e] enters_def)
  then obtain d where "tryDispatch E t None False (push_created (Some g) t s1) = Some (d, w, s')"
    using l n by (auto simp: MemcpyAsync_def bind_eq_Some_conv Let_def push_created_def)
  then show ?thesis using e unfolding bar_launches_def by blast
qed

text \<open>
  A template may be activated once: only then the task object has no group yet. A second
  activation pushes the object again, which may be running.
\<close>

lemma ActivateTaskTemplate_bar:
  assumes inv: "bar_inv A B [] s" and l: "ActivateTaskTemplate E h lparm args s = Some (h', w, s')"
    and ng: "\<not> lp_groupable lparm"
    and fresh: "\<forall>t. getTaskImpl s h = Some (Some t) \<longrightarrow> tk_group (tasks s t) = None"
  shows "s' = s \<and> w = NoWait \<or> bar_launches E s w s'"
proof -
  have tab: "table_inv s" and sync: "dep_sync s = ATL_SYNC_BARRIER_PKT"
    using bar_invD(1, 5) [OF inv] by simp_all
  consider "s' = s" "w = NoWait" | t i s1 where "getTaskImpl s h = Some (Some t)"
      "setParams t lparm (upd_task t (\<lambda>k. k\<lparr>tk_kernel_id := i\<rparr>) s) = Some s1"
      "tryLaunchKernel E t args s1 = Some (h', w, s')"
    using l by (fastforce simp: ActivateTaskTemplate_def bind_eq_Some_conv Let_def
        split: if_splits option.splits)
  then show ?thesis
  proof cases
    case (2 t i s1)
    have t: "t < n_tasks s" "tk_group (tasks s t) = None"
      using getTaskImpl_bound [OF 2(1)] fresh 2(1) by simp_all
    note T = tasks_invD [OF bar_invD(7) [OF inv] t(1)]
    have st: "state_of s t = ATMI_UNINITIALIZED" by (rule T(5) [OF t(2)])
    then have ap: "and_predecessors (tasks s t) = []" using T(2) by (simp add: state_order)
    note pre = template_joins [OF t(1) st t(2), of i]
    let ?s1 = "upd_task t (\<lambda>k. k\<lparr>tk_kernel_id := i\<rparr>) s"
    have "upd_task t (\<lambda>k. k\<lparr>num_predecessors := 0, predecessors := []\<rparr>) ?s1 =
        upd_task t (\<lambda>k. k\<lparr>tk_kernel_id := i, num_predecessors := 0, predecessors := []\<rparr>) s"
      by (simp add: upd_task_def)
    then have "joins t s (upd_task t (\<lambda>k. k\<lparr>num_predecessors := 0, predecessors := []\<rparr>) ?s1)"
      using pre by metis
    from setParams_joins [OF tab _ _ this 2(2)] have "joins t s s1" by simp
    from setParams_enters [OF this 2(2)] ap ng obtain g where "enters t (Some g) s s1" by auto
    then show ?thesis using tryLaunchKernel_bar [OF _ sync refl 2(3)] by blast
  qed simp
qed

lemma CreateTaskTemplate_enters:
  assumes inv: "bar_inv A B [] s"
  shows "snd (CreateTaskTemplate k_id s) = s \<or> (\<exists>t. enters t None s (snd (CreateTaskTemplate k_id s)))"
proof (cases "get_kernel_obj s k_id")
  case None
  then show ?thesis by (simp add: CreateTaskTemplate_def)
next
  case (Some krn)
  obtain t s1 where n: "new_task ((new_TaskImpl ATL_KERNEL_EXECUTION)\<lparr>tk_kernel := k_id\<rparr>) s = (t, s1)"
    by fastforce
  have "snd (CreateTaskTemplate k_id s) = s1" using Some n by (simp add: CreateTaskTemplate_def)
  moreover have "enters t None s s1"
    using new_task_joins [OF n, simplified] n
    by (auto simp: enters_def new_task_def Let_def new_TaskImpl_def)
  ultimately show ?thesis by blast
qed

lemma CreateTaskTemplate_ok:
  assumes ok: "bar_ok A B s"
  shows "bar_ok A B (snd (CreateTaskTemplate k_id s)) \<and> keeps s (snd (CreateTaskTemplate k_id s))"
proof -
  have "bar_inv A B [] s" using ok by (simp add: bar_ok_def)
  from CreateTaskTemplate_enters [OF this, of k_id] show ?thesis
    using bar_ok_enters [OF ok, of _ None] ok keeps_refl by (auto simp: push_created_def)
qed

section \<open>Creating and activating\<close>

text \<open>Linking a task to its predecessors changes nothing that this mode depends on.\<close>

lemma bar_inv_links:
  assumes "bar_inv A B X s"
  shows "bar_inv A B X (link_task t p s)" "bar_inv A B X (link_group t g s)"
  using tasks_invD(6) [OF bar_invD(7) [OF assms]]
  by (intro bar_inv_quiet [OF assms]; auto simp: link_task_def link_group_def sig_of_def seg_of_def
      live_def active_iff impl_of_def)+

lemma same_tasks_links: "same_tasks s (link_task t p s)" "same_tasks s (link_group t g s)"
  by (rule same_tasks_quiet; auto simp: link_task_def link_group_def split: if_splits)+

lemma bar_ok_links: "bar_ok A B s \<Longrightarrow> bar_ok A B (link_task t p s)"
  "bar_ok A B s \<Longrightarrow> bar_ok A B (link_group t g s)"
  using bar_inv_links same_tasks_links same_tasks_order unfolding bar_ok_def by blast+

lemma bar_ok_link_all:
  "bar_ok A B s \<Longrightarrow> bar_ok A B (snd (link_preds t ps s))"
  "bar_ok A B s \<Longrightarrow> bar_ok A B (snd (link_groups t gs s))"
proof -
  show "bar_ok A B s \<Longrightarrow> bar_ok A B (snd (link_preds t ps s))"
    by (induction ps arbitrary: s) (simp_all add: bar_ok_links)
  show "bar_ok A B s \<Longrightarrow> bar_ok A B (snd (link_groups t gs s))"
  proof (induction gs arbitrary: s)
    case (Cons a gs)
    then show ?case by (cases a) (simp_all add: bar_ok_links)
  qed simp
qed

lemma links_push:
  "snd (link_preds t ps (push_created go x s)) = push_created go x (snd (link_preds t ps s))"
  "snd (link_groups t gs (push_created go x s)) = push_created go x (snd (link_groups t gs s))"
proof -
  have 1: "link_task t p (push_created go x s) = push_created go x (link_task t p s)" for p s
    by (simp add: link_task_def push_created_def upd_task_def upd_group_def split: option.split)
  show "snd (link_preds t ps (push_created go x s)) = push_created go x (snd (link_preds t ps s))"
    by (induction ps arbitrary: s) (simp_all add: 1 push_created_fields)
  have 2: "link_group t g (push_created go x s) = push_created go x (link_group t g s)" for g s
    by (rule rt_state.equality)
       (auto simp: link_group_def push_created_def fun_eq_iff split: option.split)
  have 3: "task_count (groups (push_created go x s) g) = task_count (groups s g)" for g s
    by (simp add: push_created_def split: option.split)
  show "snd (link_groups t gs (push_created go x s)) = push_created go x (snd (link_groups t gs s))"
  proof (induction gs arbitrary: s)
    case (Cons a gs)
    then show ?case by (cases a) (simp_all add: 2 3)
  qed simp
qed

lemma links_state:
  "state_of (snd (link_preds t ps s)) x = state_of s x"
  "state_of (snd (link_groups t gs s)) x = state_of s x"
  "tk_group (tasks (snd (link_preds t ps s)) x) = tk_group (tasks s x)"
  "tk_group (tasks (snd (link_groups t gs s)) x) = tk_group (tasks s x)"
  "n_tasks (snd (link_preds t ps s)) = n_tasks s"
  "n_tasks (snd (link_groups t gs s)) = n_tasks s"
proof -
  show "state_of (snd (link_preds t ps s)) x = state_of s x"
    "tk_group (tasks (snd (link_preds t ps s)) x) = tk_group (tasks s x)"
    "n_tasks (snd (link_preds t ps s)) = n_tasks s"
    by (induction ps arbitrary: s) (simp_all add: link_task_def)
  have "state_of (snd (link_groups t gs s)) x = state_of s x \<and>
      tk_group (tasks (snd (link_groups t gs s)) x) = tk_group (tasks s x) \<and>
      n_tasks (snd (link_groups t gs s)) = n_tasks s"
  proof (induction gs arbitrary: s)
    case (Cons a gs)
    then show ?case by (cases a) (simp_all add: link_group_def)
  qed simp
  then show "state_of (snd (link_groups t gs s)) x = state_of s x"
    "tk_group (tasks (snd (link_groups t gs s)) x) = tk_group (tasks s x)"
    "n_tasks (snd (link_groups t gs s)) = n_tasks s" by simp_all
qed

text \<open>A created task enters its group, is linked to what it requires and is initialized.\<close>

definition link_all :: "tid \<Rightarrow> tid list \<Rightarrow> gid option list \<Rightarrow> rt_state \<Rightarrow> rt_state" where
  "link_all t ps gs s = snd (link_groups t gs (snd (link_preds t ps s)))"

lemma CreateTask_bar:
  assumes inv: "bar_inv A B [] s" and l: "CreateTask lparm k_id args s = Some (h, s')"
    and ng: "\<not> lp_groupable lparm"
  obtains "s' = s" | t g s0 ps gs where "enters t (Some g) s s0"
    and "sched_core s' = sched_core (upd_task t (\<lambda>k. k\<lparr>tk_state := ATMI_INITIALIZED\<rparr>)
      (link_all t ps gs (push_created (Some g) t s0)))"
proof (cases "place_uninitialized s lparm")
  case True
  then show ?thesis using l that(1) by (simp add: CreateTask_def)
next
  case False
  obtain r s0 where c: "createComputeTaskImpl lparm k_id s = Some (r, s0)"
    using l False by (auto simp: CreateTask_def bind_eq_Some_conv)
  note e = createComputeTaskImpl_enters [OF bar_invD(5) [OF inv] c ng]
  show ?thesis
  proof (cases r)
    case None
    then show ?thesis using l False c e that(1) by (simp add: CreateTask_def)
  next
    case (Some t)
    then obtain g where en: "enters t (Some g) s s0" using e by auto
    define s1 where "s1 = snd (link_preds t (predecessors (tasks s0 t)) s0)"
    define s2 where "s2 = snd (link_groups t (pred_groups (tasks s1 t)) s1)"
    obtain s3 where 3: "save_kernargs t args s2 = Some s3"
      using l False c Some by (auto simp: CreateTask_def s1_def s2_def split_def bind_eq_Some_conv Let_def)
    note e3 = save_kernargs_core [OF 3]
    have "tk_group (tasks s2 t) = Some g" "dep_sync s2 = ATL_SYNC_BARRIER_PKT"
      using en bar_invD(1) [OF inv] enters_fields(7) [OF en]
      by (simp_all add: s1_def s2_def links_state link_preds_sync link_groups_sync enters_def)
    then have "tk_group (tasks s3 t) = Some g" "dep_sync s3 = ATL_SYNC_BARRIER_PKT"
      using core_eq_task_fields(4) [OF e3] core_eq_fields(1) [OF e3] by simp_all
    then have s': "s' = set_state t ATMI_INITIALIZED (push_created (Some g) t s3)"
      using l False c Some 3
      by (simp add: CreateTask_def s1_def s2_def split_def Let_def push_created_def)
    have "link_all t (predecessors (tasks s0 t)) (pred_groups (tasks s1 t))
        (push_created (Some g) t s0) = push_created (Some g) t s2"
      by (simp add: link_all_def s1_def s2_def links_push)
    then have "sched_core s' = sched_core (upd_task t (\<lambda>k. k\<lparr>tk_state := ATMI_INITIALIZED\<rparr>)
        (link_all t (predecessors (tasks s0 t)) (pred_groups (tasks s1 t)) (push_created (Some g) t s0)))"
      by (simp add: s' sched_core_set_state_eq sched_core_task_state sched_core_push e3)
    then show ?thesis using that(2) en by blast
  qed
qed

lemma CreateTask_ok:
  assumes ok: "bar_ok A B s" and l: "CreateTask lparm k_id args s = Some (h, s')"
    and ng: "\<not> lp_groupable lparm"
  shows "bar_ok A B s' \<and> keeps s s'"
  using conjunct1 [OF ok [unfolded bar_ok_def]] l ng
proof (cases rule: CreateTask_bar)
  case 1
  then show ?thesis using ok keeps_refl by simp
next
  case (2 t g s0 ps gs)
  let ?s2 = "link_all t ps gs (push_created (Some g) t s0)"
  let ?p = "upd_task t (\<lambda>k. k\<lparr>tk_state := ATMI_INITIALIZED\<rparr>) ?s2"
  note p = bar_ok_enters [OF ok 2(1)] and core = 2(2)
  have b: "bar_ok A B ?s2" using bar_ok_link_all p by (simp add: link_all_def)
  then have bi: "bar_inv A B [] ?s2" by (simp add: bar_ok_def)
  have k: "keeps s ?s2" using p by (simp add: keeps_def link_all_def links_state push_created_fields)
  have t: "t < n_tasks ?s2" "state_of ?s2 t = ATMI_UNINITIALIZED" "tk_group (tasks ?s2 t) = Some g"
    using 2(1) enters_fields(2, 5) [OF 2(1)]
    by (simp_all add: link_all_def links_state enters_def push_created_fields)
  have "bar_inv A B [] ?p" by (rule bar_inv_postponed [OF bi]) (use t in \<open>simp_all add: state_order\<close>)
  then have "bar_inv A B [] s'" using bar_inv_core [OF core] by simp
  moreover have "same_tasks ?s2 ?p"
    using t(2) by (intro same_tasks_quiet) (auto simp: state_order split: if_splits)
  then have "same_tasks ?s2 s'" using same_tasks_core [OF core] same_tasks_trans by blast
  ultimately have "bar_ok A B s' \<and> keeps ?s2 s'" by (rule bar_ok_same [OF b])
  then show ?thesis using keeps_trans k by blast
qed

lemma ActivateTask_bar:
  assumes inv: "bar_inv A B [] s" and l: "ActivateTask E h s = Some (h', w, s')"
  shows "bar_inv A B [] s' \<and> same_tasks s s'"
proof -
  have sync: "dep_sync s = ATL_SYNC_BARRIER_PKT" by (rule bar_invD(1) [OF inv])
  obtain r where r: "getTaskImpl s h = Some r" using l by (auto simp: ActivateTask_def bind_eq_Some_conv)
  show ?thesis
  proof (cases r)
    case None
    then show ?thesis using l r inv same_tasks_refl by (simp add: ActivateTask_def)
  next
    case (Some t)
    then obtain n where "created_loop n E t False s = Some (w, s')"
      using l r sync by (auto simp del: created_loop.simps simp: ActivateTask_def bind_eq_Some_conv Let_def)
    then show ?thesis using created_loop_bar [OF inv] by blast
  qed
qed

section \<open>Copies and waits\<close>

lemma copy_thread_core:
  assumes "copy_thread E temp t s = Some s'"
  shows "sched_core s' = sched_core ((upd_task t (\<lambda>k. k\<lparr>tk_state := ATMI_DISPATCHED\<rparr>) s)
    \<lparr>copy_threads := remove1 t (copy_threads s)\<rparr>)"
proof -
  have "copy_threads (log_call k s) = copy_threads s" "copy_threads (set_state t st s) = copy_threads s"
    for k st s by (simp_all add: log_call_def set_state_def Let_def split: option.split)
  then show ?thesis
    using assms by (auto simp: copy_thread_def Let_def bind_eq_Some_conv sched_core_upds
        sched_core_set_state_eq sched_core_task_state)
qed

lemma copy_thread_bar:
  assumes inv: "bar_inv A B [] s" and t: "t \<in> set (copy_threads s)"
    and c: "copy_thread E temp t s = Some s'"
  shows "bar_inv A B [] s' \<and> same_tasks s s'"
proof -
  have i: "distinct (copy_threads s)" "t < n_tasks s" "state_of s t = ATMI_READY"
    using t bar_invD(4) [OF inv] by (simp_all add: copy_inv_def)
  let ?r = "s\<lparr>copy_threads := remove1 t (copy_threads s)\<rparr>"
  let ?x = "upd_task t (\<lambda>k. k\<lparr>tk_state := ATMI_DISPATCHED\<rparr>) ?r"
  have "(upd_task t (\<lambda>k. k\<lparr>tk_state := ATMI_DISPATCHED\<rparr>) s)
      \<lparr>copy_threads := remove1 t (copy_threads s)\<rparr> = ?x"
    by (rule rt_state.equality) simp_all
  then have e: "sched_core s' = sched_core ?x" using copy_thread_core [OF c] by (simp only:)
  have "copy_inv ?r" using bar_invD(4) [OF inv] notin_set_remove1 by (auto simp: copy_inv_def)
  then have "bar_inv A B [] ?r" by (rule bar_inv_copy_threads [OF inv])
  from bar_inv_live_state [OF this] have "bar_inv A B [] ?x" using i by simp
  then have "bar_inv A B [] s'" using bar_inv_core [OF e] by simp
  moreover have "same_tasks s ?x"
    using i(3) by (intro same_tasks_quiet) (auto simp: state_order split: if_splits)
  ultimately show ?thesis using same_tasks_core [OF e] same_tasks_trans by blast
qed

text \<open>The barrier that a waiting thread enqueues is that of a failed attempt.\<close>

lemma wait_flush_dispatched:
  assumes inv: "bar_inv A B X s" and f: "wait_flush E t s = Some s'"
  shows "s' = s \<or> (\<exists>g. flush_dispatched E g s = Some s')"
proof -
  consider "s' = s" | g where "\<not> first_dispatched (groups s g)" "tk_group (tasks s t) = Some g"
      "state_of s t < ATMI_EXECUTED"
    using f by (auto simp: wait_flush_def bind_eq_Some_conv split: if_splits)
  then show ?thesis
  proof cases
    case (2 g)
    have sync: "dep_sync s = ATL_SYNC_BARRIER_PKT" by (rule bar_invD(1) [OF inv])
    show ?thesis
    proof (cases "dispatched_sink (groups s g) = []")
      case True
      then have "dispatched_tasks (groups s g) = []"
        using covered_sinks lists_invD(6) [OF bar_invD(6) [OF inv], of g] by simp
      then have "upd_group g (\<lambda>k. k\<lparr>dispatched_sink := [], dispatched_tasks := []\<rparr>) s = s"
        using True by (cases "groups s g") (simp add: upd_group_def fun_upd_idem_iff)
      then have "s' = s"
        using f 2 sync True by (simp add: wait_flush_def Let_def enqueue_barrier_tasks_def)
      then show ?thesis by simp
    next
      case False
      then have "flush_dispatched E g s = Some s'"
        using f 2 sync by (simp add: wait_flush_def flush_dispatched_def Let_def)
      then show ?thesis by blast
    qed
  qed simp
qed

lemma wait_flush_bar:
  assumes "bar_inv A B X s" and "wait_flush E t s = Some s'"
  shows "bar_inv A B X s' \<and> same_tasks s s'"
  using wait_flush_dispatched [OF assms] flush_dispatched_bar [OF assms(1)] assms(1) same_tasks_refl
  by blast

lemma finish_wait_bar:
  assumes "bar_inv A B X s" and "state_of s t = ATMI_COMPLETED" "finish_wait E t s = Some s'"
  shows "bar_inv A B X s' \<and> same_tasks s s'"
  using bar_inv_core [OF finish_wait_core [OF assms(2, 3)]] assms(1)
    same_tasks_core [OF finish_wait_core [OF assms(2, 3)]] by simp

lemma sync_finish_bar:
  assumes inv: "bar_inv A B X s" and fin: "sync_done g s" and f: "sync_finish g s = Some s'"
  shows "bar_inv A B X s' \<and> same_tasks s s'"
proof -
  obtain ts where ts: "sync_tasks g s = Some ts"
    and s': "s' = (let s = fold (\<lambda>t. set_state t ATMI_COMPLETED) ts s;
       s = (if tg_ordered (groups s g) then upd_group g (\<lambda>k. k\<lparr>last_task := None\<rparr>) s else s)
       in clearSavedTasks g s)"
    using f by (auto simp: sync_finish_def bind_eq_Some_conv Let_def)
  let ?s1 = "fold (\<lambda>t. set_state t ATMI_COMPLETED) ts s"
  have c: "sched_core ?s1 = sched_core s"
    using fin ts by (intro fold_completed_core) (auto simp: sync_done_def wait_done_def)
  have 1: "bar_inv A B X ?s1" using bar_inv_core [OF c] inv by simp
  have "bar_inv A B X s'"
    using tasks_invD(6) [OF bar_invD(7) [OF 1]]
    by (intro bar_inv_quiet [OF 1]) (auto simp: s' Let_def clearSavedTasks_def)
  moreover have "same_tasks ?s1 s'"
    by (rule same_tasks_quiet) (auto simp: s' Let_def clearSavedTasks_def split: if_splits)
  ultimately show ?thesis using same_tasks_core [OF c] same_tasks_trans by blast
qed

section \<open>Groups\<close>

lemma TaskGroupCreate_bar:
  assumes inv: "bar_inv A B [] s" and c: "TaskGroupCreate E ordered place s = Some (h, s')"
  shows "bar_inv A B [] s' \<and> same_tasks s s'"
proof -
  let ?g = "length (AllTaskgroups s)"
  note I = bar_invD [OF inv]
  note L = lists_invD [OF I(6)] and T = tasks_invD [OF I(7)]
  obtain obj where f: "tasks s' = tasks s" "n_tasks s' = n_tasks s" "groups s' = (groups s)(?g := obj)"
    "AllTaskgroups s' = AllTaskgroups s @ [Some ?g]" "dep_sync s' = dep_sync s"
    "kernels s' = kernels s" "n_impls s' = n_impls s" "impls s' = impls s"
    "FreeSignalPool s' = FreeSignalPool s" "handlers s' = handlers s" "copy_threads s' = copy_threads s"
    and o: "created_tasks obj = []" "dispatched_tasks obj = []" "dispatched_sink obj = []"
    using c by (auto simp: TaskGroupCreate_def Let_def log_call_def new_TaskgroupImpl_def split: if_splits)
  have ne: "tk_group (tasks s t) \<noteq> Some ?g" if "t < n_tasks s" for t
    using I(5) that by (auto simp: table_inv_def)
  have empty: "dispatched_tasks (groups s ?g) = []" "created_tasks (groups s ?g) = []"
    using L(5) [of _ ?g] L(8) [of _ ?g] ne by (metis list.set_intros(1) neq_Nil_conv)+
  then have "dispatched_sink (groups s ?g) = []" using L(9) [of ?g] by simp
  with empty have g: "created_tasks (groups s' h) = created_tasks (groups s h)"
    "dispatched_tasks (groups s' h) = dispatched_tasks (groups s h)"
    "dispatched_sink (groups s' h) = dispatched_sink (groups s h)" for h
    by (simp_all add: f o)
  have "signal_inv A s' = signal_inv A s" by (intro signal_inv_cong) (simp_all add: f)
  moreover have "segment_inv B s' = segment_inv B s" by (intro segment_inv_cong) (simp_all add: f)
  moreover have "copy_inv s' = copy_inv s" by (simp add: copy_inv_def f)
  moreover have "table_inv s'" using I(5) by (auto simp: table_inv_def f nth_append less_Suc_eq)
  moreover have cov: "covered s' S ts = covered s S ts" for S ts
    by (rule covered_cong) (simp add: comes_after_def f)
  moreover have ow: "owned [] s' = owned [] s" by (simp add: owned_def f)
  moreover have "lists_inv [] s' = lists_inv [] s" unfolding lists_inv_def ow cov g by (simp add: f)
  moreover have "tasks_inv [] s' = tasks_inv [] s" unfolding tasks_inv_def ow g by (simp add: f)
  moreover have "same_tasks s s'" by (rule same_tasks_quiet) (simp_all add: f)
  ultimately show ?thesis using I by (simp add: bar_inv_def f)
qed

lemma TaskGroupRelease_bar:
  assumes inv: "bar_inv A B [] s" and c: "TaskGroupRelease h s = (r, s')"
  shows "bar_inv A B [] s' \<and> same_tasks s s'"
proof (cases "getTaskgroupImpl s h")
  case None
  then show ?thesis using c inv same_tasks_refl by (simp add: TaskGroupRelease_def)
next
  case (Some g)
  let ?x = "upd_group g (\<lambda>k. k\<lparr>running_groupable := [], running_ordered := [],
                    running_default := [], tg_and_successors := []\<rparr>)
              (log_call (SignalDestroy (group_signal (groups s g))) s)"
  have s': "s' = ?x\<lparr>AllTaskgroups := (AllTaskgroups s)[unat h := None]\<rparr>"
    using c Some by (simp add: TaskGroupRelease_def Let_def log_call_def)
  have x: "bar_inv A B [] ?x"
    using tasks_invD(6) [OF bar_invD(7) [OF inv]]
    by (intro bar_inv_quiet [OF inv]) (auto simp: log_call_def)
  have "table_inv s'"
    using bar_invD(5) [OF x] unfolding table_inv_def s'
    by (simp add: log_call_def) (metis nth_list_update_eq nth_list_update_neq)
  moreover have "signal_inv A s' = signal_inv A ?x" by (intro signal_inv_cong) (simp_all add: s')
  moreover have "segment_inv B s' = segment_inv B ?x" by (intro segment_inv_cong) (simp_all add: s')
  moreover have "copy_inv s' = copy_inv ?x" by (simp add: copy_inv_def s')
  moreover have cov: "covered s' S ts = covered ?x S ts" for S ts
    by (rule covered_cong) (simp add: comes_after_def s')
  moreover have ow: "owned [] s' = owned [] ?x" by (simp add: owned_def s')
  moreover have "lists_inv [] s' = lists_inv [] ?x" unfolding lists_inv_def ow cov by (simp add: s')
  moreover have "tasks_inv [] s' = tasks_inv [] ?x" unfolding tasks_inv_def ow by (simp add: s')
  ultimately have "bar_inv A B [] s'" using bar_invD [OF x] by (simp add: bar_inv_def) (simp add: s')
  moreover have "same_tasks s s'" by (rule same_tasks_quiet) (simp_all add: s' log_call_def)
  ultimately show ?thesis by blast
qed

end
