(* ===== verification/Barrier_System.thy ===== *)
theory Barrier_System
  imports Barrier_Calls Sched_Exec
begin

text \<open>
  The runtime at work in the barrier mode: the application's threads call the API in any order,
  HSA fires the handlers of the flushed batches in any order, detached threads issue their copies.
  Tasks are not groupable, which the completion handler of the mode asserts.
\<close>

section \<open>Steps\<close>

text \<open>
  A thread that waits for a task, in \<open>TaskWait\<close>, in \<open>sync\<close> or in a synchronous launch, enqueues a
  barrier once the task is dispatched. A handler fires when its barrier is passed; that the tasks
  it is for have then been handed to HSA is what the code takes for granted.
\<close>

inductive bstep :: "hsa_env \<Rightarrow> config \<Rightarrow> config \<Rightarrow> bool" for E where
  launch: "LaunchTask E lparm k_id args (rt c) = Some (h, w, s') \<Longrightarrow> \<not> lp_groupable lparm \<Longrightarrow>
    bstep E c (returned c w s')"
| create: "CreateTask lparm k_id args (rt c) = Some (h, s') \<Longrightarrow> \<not> lp_groupable lparm \<Longrightarrow>
    bstep E c (c\<lparr>rt := s'\<rparr>)"
| activate: "ActivateTask E h (rt c) = Some (h', w, s') \<Longrightarrow> bstep E c (returned c w s')"
| template: "CreateTaskTemplate k_id (rt c) = (h, s') \<Longrightarrow> bstep E c (c\<lparr>rt := s'\<rparr>)"
| activate_template: "ActivateTaskTemplate E h lparm args (rt c) = Some (h', w, s') \<Longrightarrow>
    \<not> lp_groupable lparm \<Longrightarrow>
    \<forall>t. getTaskImpl (rt c) h = Some (Some t) \<longrightarrow> tk_group (tasks (rt c) t) = None \<Longrightarrow>
    bstep E c (returned c w s')"
| copy: "MemcpyAsync E cparm dest src sz (rt c) = Some (h, w, s') \<Longrightarrow> \<not> cp_groupable cparm \<Longrightarrow>
    bstep E c (returned c w s')"
| copy_issue: "t \<in> set (copy_threads (rt c)) \<Longrightarrow> copy_thread E temp t (rt c) = Some s' \<Longrightarrow>
    bstep E c (c\<lparr>rt := s'\<rparr>)"
| group_create: "TaskGroupCreate E ordered place (rt c) = Some (h, s') \<Longrightarrow> bstep E c (c\<lparr>rt := s'\<rparr>)"
| group_sync: "TaskGroupSync h (rt c) = (r, Some g) \<Longrightarrow> sync_done g (rt c) \<Longrightarrow>
    sync_finish g (rt c) = Some s' \<Longrightarrow> bstep E c (c\<lparr>rt := s'\<rparr>)"
| group_release: "TaskGroupRelease h (rt c) = (r, s') \<Longrightarrow>
    \<forall>g. getTaskgroupImpl (rt c) h = Some g \<longrightarrow> sync_done g (rt c) \<Longrightarrow> bstep E c (c\<lparr>rt := s'\<rparr>)"
| flush: "t < n_tasks (rt c) \<Longrightarrow> ATMI_DISPATCHED \<le> state_of (rt c) t \<Longrightarrow>
    wait_flush E t (rt c) = Some s' \<Longrightarrow> bstep E c (c\<lparr>rt := s'\<rparr>)"
| task_wait: "AwaitTask t \<in> set (waiting c) \<Longrightarrow> wait_done (rt c) t \<Longrightarrow>
    finish_wait E t (rt c) = Some s' \<Longrightarrow>
    bstep E c (c\<lparr>rt := s', waiting := remove1 (AwaitTask t) (waiting c)\<rparr>)"
| batch_handler: "stuck c = NoWait \<Longrightarrow> handlers (rt c) = hs1 @ HandleBatch sg ts # hs2 \<Longrightarrow>
    \<forall>t \<in> set ts. t \<notin> set (copy_threads (rt c)) \<Longrightarrow>
    handle_signal_barrier_pkt E ts ((rt c)\<lparr>handlers := hs1 @ hs2\<rparr>) = Some (w, s') \<Longrightarrow>
    bstep E c (c\<lparr>rt := s', stuck := w\<rparr>)"
| handler_wait: "stuck c = AwaitTask t \<Longrightarrow> wait_done (rt c) t \<Longrightarrow>
    finish_wait E t (rt c) = Some s' \<Longrightarrow> bstep E c (c\<lparr>rt := s', stuck := NoWait\<rparr>)"

definition bar_started ::
  "signal multiset \<Rightarrow> (impl_ptr \<Rightarrow> nat multiset) \<Rightarrow> rt_state \<Rightarrow> bool" where
  "bar_started A B s \<longleftrightarrow> dep_sync s = ATL_SYNC_BARRIER_PKT \<and> n_tasks s = 0 \<and>
     mset (FreeSignalPool s) = A \<and> (\<forall>p < n_impls s. mset (free_kernarg_segments (impls s p)) = B p) \<and>
     handlers s = [] \<and> copy_threads s = [] \<and>
     (\<forall>i < length (AllTaskgroups s). AllTaskgroups s ! i \<in> {None, Some i}) \<and>
     (\<forall>g. created_tasks (groups s g) = [] \<and> dispatched_tasks (groups s g) = [] \<and>
        dispatched_sink (groups s g) = [])"

inductive breachable ::
  "hsa_env \<Rightarrow> signal multiset \<Rightarrow> (impl_ptr \<Rightarrow> nat multiset) \<Rightarrow> config \<Rightarrow> bool" for E A B where
  start: "bar_started A B s \<Longrightarrow> breachable E A B \<lparr>rt = s, waiting = [], stuck = NoWait\<rparr>"
| run: "breachable E A B c \<Longrightarrow> bstep E c c' \<Longrightarrow> breachable E A B c'"

section \<open>The invariant\<close>

lemma bar_started_ok:
  assumes "bar_started A B s"
  shows "bar_ok A B s"
  using assms by (simp add: bar_started_def bar_ok_def bar_inv_def order_inv_def signal_inv_def
      segment_inv_def rq.conserved_def task_sum_def copy_inv_def table_inv_def lists_inv_def
      tasks_inv_def owned_def)

lemma returned_rt [simp]: "rt (returned c w s) = s"
  by (simp add: returned_def)

lemma bstep_ok:
  assumes "bstep E c c'" and ok: "bar_ok A B (rt c)"
  shows "bar_ok A B (rt c') \<and> keeps (rt c) (rt c')"
proof -
  have inv: "bar_inv A B [] (rt c)" using ok by (simp add: bar_ok_def)
  note same = bar_ok_same [OF ok]
  have idle: "bar_ok A B (rt c) \<and> keeps (rt c) (rt c)" using ok keeps_refl by blast
  show ?thesis
    using assms(1)
  proof cases
    case (launch lparm k_id args h w s')
    then show ?thesis
      using LaunchTask_bar [OF inv launch(2, 3)] bar_launches_ok [OF ok] idle by auto
  next
    case (create lparm k_id args h s')
    then show ?thesis using CreateTask_ok [OF ok create(2, 3)] by simp
  next
    case (activate h h' w s')
    then show ?thesis using ActivateTask_bar [OF inv activate(2)] same by simp
  next
    case (template k_id h s')
    then show ?thesis using CreateTaskTemplate_ok [OF ok, of k_id] by simp
  next
    case (activate_template h lparm args h' w s')
    then show ?thesis
      using ActivateTaskTemplate_bar [OF inv activate_template(2, 3, 4)] bar_launches_ok [OF ok] idle
      by auto
  next
    case (copy cparm dest src sz h w s')
    then show ?thesis using MemcpyAsync_bar [OF inv copy(2, 3)] bar_launches_ok [OF ok] by simp
  next
    case (copy_issue t temp s')
    then show ?thesis using copy_thread_bar [OF inv copy_issue(2, 3)] same by simp
  next
    case (group_create ordered place h s')
    then show ?thesis using TaskGroupCreate_bar [OF inv group_create(2)] same by simp
  next
    case (group_sync h r g s')
    then show ?thesis using sync_finish_bar [OF inv group_sync(3, 4)] same by simp
  next
    case (group_release h r s')
    then show ?thesis using TaskGroupRelease_bar [OF inv group_release(2)] same by simp
  next
    case (flush t s')
    then show ?thesis using wait_flush_bar [OF inv flush(4)] same by simp
  next
    case (task_wait t s')
    then show ?thesis using finish_wait_bar [OF inv _ task_wait(4)] same by (simp add: wait_done_def)
  next
    case (batch_handler hs1 sg ts hs2 w s')
    then show ?thesis using handle_batch_bar [OF inv batch_handler(3, 4, 5)] same by simp
  next
    case (handler_wait t s')
    then show ?thesis using finish_wait_bar [OF inv _ handler_wait(4)] same by (simp add: wait_done_def)
  qed
qed

lemma breachable_ok: "breachable E A B c \<Longrightarrow> bar_ok A B (rt c)"
proof (induction rule: breachable.induct)
  case (start s)
  then show ?case using bar_started_ok by simp
next
  case (run c c')
  then show ?case using bstep_ok by blast
qed

lemma breachable_parts:
  assumes "breachable E A B c"
  shows "bar_inv A B [] (rt c)" "order_inv (rt c)" "signal_inv A (rt c)" "segment_inv B (rt c)"
    "lists_inv [] (rt c)" "tasks_inv [] (rt c)" "copy_inv (rt c)"
  using breachable_ok [OF assms] by (simp_all add: bar_ok_def bar_inv_def)

section \<open>Running the system\<close>

datatype bevent =
    BLaunch atmi_lparm_t u64 "u8 list list option"
  | BCreate atmi_lparm_t u64 "u8 list list option"
  | BActivate atmi_task_handle_t
  | BCopy atmi_cparm_t u64 u64 u64
  | BCopyIssue tid u64
  | BGroupCreate bool atmi_place_t
  | BFlush tid
  | BTaskWait tid
  | BHandler nat
  | BHandlerWait tid

fun bfire :: "hsa_env \<Rightarrow> bevent \<Rightarrow> config \<Rightarrow> config option" where
  "bfire E (BLaunch lparm k_id args) c =
     (if lp_groupable lparm then None
      else map_option (\<lambda>(h, w, s'). returned c w s') (LaunchTask E lparm k_id args (rt c)))"
| "bfire E (BCreate lparm k_id args) c =
     (if lp_groupable lparm then None
      else map_option (\<lambda>(h, s'). c\<lparr>rt := s'\<rparr>) (CreateTask lparm k_id args (rt c)))"
| "bfire E (BActivate h) c =
     map_option (\<lambda>(h', w, s'). returned c w s') (ActivateTask E h (rt c))"
| "bfire E (BCopy cparm dest src sz) c =
     (if cp_groupable cparm then None
      else map_option (\<lambda>(h, w, s'). returned c w s') (MemcpyAsync E cparm dest src sz (rt c)))"
| "bfire E (BCopyIssue t temp) c =
     (if t \<in> set (copy_threads (rt c))
      then map_option (\<lambda>s'. c\<lparr>rt := s'\<rparr>) (copy_thread E temp t (rt c)) else None)"
| "bfire E (BGroupCreate ordered place) c =
     map_option (\<lambda>(h, s'). c\<lparr>rt := s'\<rparr>) (TaskGroupCreate E ordered place (rt c))"
| "bfire E (BFlush t) c =
     (if t < n_tasks (rt c) \<and> ATMI_DISPATCHED \<le> state_of (rt c) t
      then map_option (\<lambda>s'. c\<lparr>rt := s'\<rparr>) (wait_flush E t (rt c)) else None)"
| "bfire E (BTaskWait t) c =
     (if AwaitTask t \<in> set (waiting c) \<and> wait_done (rt c) t
      then map_option (\<lambda>s'. c\<lparr>rt := s', waiting := remove1 (AwaitTask t) (waiting c)\<rparr>)
             (finish_wait E t (rt c)) else None)"
| "bfire E (BHandler i) c =
     (let s = rt c; hs = handlers s in
      if stuck c \<noteq> NoWait \<or> length hs \<le> i then None
      else case hs ! i of
          HandleBatch sg ts \<Rightarrow>
            if \<exists>t \<in> set ts. t \<in> set (copy_threads s) then None
            else map_option (\<lambda>(w, s'). c\<lparr>rt := s', stuck := w\<rparr>)
                   (handle_signal_barrier_pkt E ts (s\<lparr>handlers := take i hs @ drop (Suc i) hs\<rparr>))
        | _ \<Rightarrow> None)"
| "bfire E (BHandlerWait t) c =
     (if stuck c = AwaitTask t \<and> wait_done (rt c) t
      then map_option (\<lambda>s'. c\<lparr>rt := s', stuck := NoWait\<rparr>) (finish_wait E t (rt c)) else None)"

fun bfire_all :: "hsa_env \<Rightarrow> bevent list \<Rightarrow> config \<Rightarrow> config option" where
  "bfire_all E [] c = Some c"
| "bfire_all E (e # es) c = Option.bind (bfire E e c) (bfire_all E es)"

lemma bfire_handler_step:
  assumes "bfire E (BHandler i) c = Some c'"
  shows "bstep E c c'"
proof -
  let ?hs = "handlers (rt c)"
  have i: "stuck c = NoWait" "i < length ?hs"
    using assms by (auto simp: Let_def split: if_splits)
  note hs = id_take_nth_drop [OF i(2)]
  show ?thesis
    using assms i hs bstep.batch_handler [of c "take i ?hs" _ _ "drop (Suc i) ?hs" E]
    by (auto simp: Let_def split: if_splits async_handler.splits)
qed

lemma bfire_step: "bfire E e c = Some c' \<Longrightarrow> bstep E c c'"
  by (cases e) (auto simp del: bfire.simps(9) simp: bfire_handler_step intro: bstep.intros
      split: if_splits)

lemma bfire_all_reachable:
  "breachable E A B c \<Longrightarrow> bfire_all E es c = Some c' \<Longrightarrow> breachable E A B c'"
proof (induction es arbitrary: c)
  case (Cons e es)
  then obtain c1 where "bfire E e c = Some c1" "bfire_all E es c1 = Some c'"
    by (auto simp: bind_eq_Some_conv)
  then show ?case using Cons.IH Cons.prems(1) breachable.run bfire_step by blast
qed simp

end
