(* ===== verification/Barrier_Stranded.thy ===== *)
theory Barrier_Stranded
  imports Barrier_System
begin

text \<open>
  What the barrier mode does not do. A group whose first attempt to dispatch fails hands itself
  over to its completion handler; when it has nothing dispatched, there is no such handler, and no
  other handler looks at its created tasks.
\<close>

section \<open>A stranded task\<close>

definition elsewhere :: "gid \<Rightarrow> rt_state \<Rightarrow> async_handler \<Rightarrow> bool" where
  "elsewhere g s h \<longleftrightarrow>
     (case h of HandleBatch sg ts \<Rightarrow> \<forall>u \<in> set ts. tk_group (tasks s u) \<noteq> Some g | _ \<Rightarrow> True)"

definition stranded :: "gid \<Rightarrow> tid \<Rightarrow> rt_state \<Rightarrow> bool" where
  "stranded g t s \<longleftrightarrow> t < n_tasks s \<and> tk_group (tasks s t) = Some g \<and> state_of s t < ATMI_READY \<and>
     first_dispatched (groups s g) \<and> dispatched_tasks (groups s g) = [] \<and>
     (\<forall>h \<in> set (handlers s). elsewhere g s h)"

lemma elsewhere_cong:
  "(\<And>u. tk_group (tasks s' u) = tk_group (tasks s u)) \<Longrightarrow> elsewhere g s' h = elsewhere g s h"
  by (simp add: elsewhere_def split: async_handler.split)

lemma stranded_core:
  assumes e: "sched_core s' = sched_core s"
  shows "stranded g t s' = stranded g t s"
  unfolding stranded_def elsewhere_cong [of s' s, OF core_eq_task_fields(4) [OF e]]
    core_eq_fields(2, 12) [OF e] core_eq_task_fields(3, 4) [OF e] core_eq_barrier_fields(4, 6) [OF e] ..

lemma stranded_quiet:
  assumes "stranded g t s" and "n_tasks s' = n_tasks s" "handlers s' = handlers s"
    and "\<And>u. tk_group (tasks s' u) = tk_group (tasks s u)"
    and "state_of s t < ATMI_READY \<Longrightarrow> tk_group (tasks s t) = Some g \<Longrightarrow> state_of s' t < ATMI_READY"
    and "first_dispatched (groups s g) \<Longrightarrow> first_dispatched (groups s' g)"
    and "dispatched_tasks (groups s' g) = dispatched_tasks (groups s g)"
  shows "stranded g t s'"
  using assms(1-3, 5-7) elsewhere_cong [of s' s, OF assms(4)] by (simp add: stranded_def assms(4))

section \<open>Attempts to dispatch\<close>

lemma flush_dispatched_stranded:
  assumes inv: "bar_inv A B X s" and st: "stranded g t s" and f: "flush_dispatched E h s = Some s'"
  shows "stranded g t s'"
proof (cases "dispatched_sink (groups s h) = []")
  case True
  then show ?thesis using f st by (simp add: flush_dispatched_def Let_def)
next
  case False
  note L = lists_invD [OF bar_invD(6) [OF inv]]
  have ne: "dispatched_tasks (groups s h) \<noteq> []" using False L(9) [of h] by auto
  then have "h \<noteq> g" using st by (auto simp: stranded_def)
  let ?s1 = "upd_group h (\<lambda>k. k\<lparr>dispatched_sink := [], dispatched_tasks := []\<rparr>) s"
  let ?h = "HandleBatch (IdentityANDSignal E) (dispatched_tasks (groups s h))"
  obtain s2 where 2: "enqueue_barrier_tasks E (dispatched_sink (groups s h)) ?s1 = Some s2"
    and s': "s' = s2\<lparr>handlers := handlers s2 @ [?h]\<rparr>"
    using f False by (auto simp: flush_dispatched_def Let_def bind_eq_Some_conv)
  note c = enqueue_barrier_tasks_core [OF 2]
  have "handlers s2 = handlers s" using core_eq_fields(12) [OF c] by simp
  then have e: "sched_core s' = sched_core (?s1\<lparr>handlers := handlers s @ [?h]\<rparr>)"
    unfolding s' sched_core_upds c by simp
  have "elsewhere g s ?h" using L(5) \<open>h \<noteq> g\<close> by (auto simp: elsewhere_def)
  moreover have "elsewhere g (?s1\<lparr>handlers := x\<rparr>) k = elsewhere g s k" for x k
    by (rule elsewhere_cong) simp
  ultimately have "stranded g t (?s1\<lparr>handlers := handlers s @ [?h]\<rparr>)"
    using st \<open>h \<noteq> g\<close> by (simp add: stranded_def)
  then show ?thesis using stranded_core [OF e] by simp
qed

lemma barrier_no_dispatch_stranded:
  assumes inv: "bar_inv A B X s" and st: "stranded g t s"
    and f: "barrier_no_dispatch E h isC s = Some s'"
  shows "stranded g t s'"
proof -
  let ?s1 = "upd_group h (\<lambda>k. k\<lparr>first_dispatched := True\<rparr>) s"
  have 1: "bar_inv A B X ?s1" by (rule bar_inv_first [OF inv])
  have "stranded g t ?s1" by (rule stranded_quiet [OF st]) simp_all
  moreover have "s' = ?s1 \<or> flush_dispatched E h ?s1 = Some s'"
    using f by (auto simp: barrier_no_dispatch_def Let_def split: if_splits)
  ultimately show ?thesis using flush_dispatched_stranded [OF 1] by blast
qed

lemma tryDispatchBarrierPacket_stranded:
  assumes inv: "bar_inv A B X s" and st: "stranded g t s" and g: "tk_group (tasks s this) = Some h"
    and ne: "h \<noteq> g" and d: "tryDispatchBarrierPacket E this args s = Some (sel, s')"
  shows "stranded g t s' \<and> (\<forall>r. sel = Some r \<longrightarrow> r \<noteq> t)"
proof (cases "created_tasks (groups s h)")
  case Nil
  then show ?thesis using d g st by (simp add: tryDispatchBarrierPacket_def)
next
  case (Cons r rest)
  obtain impl where i: "lenient_kernel_impl s r = Some impl"
    using d g Cons by (auto simp: tryDispatchBarrierPacket_def bind_eq_Some_conv)
  have r: "r < n_tasks s" "tk_group (tasks s r) = Some h" "state_of s r < ATMI_READY"
    using lists_invD(8) [OF bar_invD(6) [OF inv], of r h] Cons by simp_all
  then have nr: "\<not> state_of s r \<ge> ATMI_READY" by simp
  have rt: "r \<noteq> t" using r(2) st ne by (auto simp: stranded_def)
  have "and_predecessors (tasks s r) = []"
    by (rule tasks_invD(2) [OF bar_invD(7) [OF inv] r(1, 3)])
  then have clear: "upd_task r (\<lambda>k. k\<lparr>and_predecessors := []\<rparr>) s = s"
    by (cases "tasks s r") (simp add: upd_task_def fun_upd_idem_iff)
  consider (postponed) "sel = None" "barrier_postpone r args s = Some s'"
    | (granted) "sel = Some r" "barrier_grant E r h args s = Some s'"
    using d by (auto simp: tryDispatchBarrierPacket_def g Cons i nr clear split: if_splits)
  then show ?thesis
  proof cases
    case postponed
    have "stranded g t (upd_task r (\<lambda>k. k\<lparr>tk_state := ATMI_INITIALIZED\<rparr>) s)"
      by (rule stranded_quiet [OF st]) (use rt in simp_all)
    then show ?thesis using stranded_core [OF barrier_postpone_core [OF postponed(2)]] postponed(1) by simp
  next
    case granted
    have ng: "\<not> groupable (tasks s r)" by (rule tasks_invD(1) [OF bar_invD(7) [OF inv] r(1)])
    note F = barrier_grant_fields [OF granted(2) i ng]
    have "stranded g t s'"
    proof (rule stranded_quiet [OF st])
      show "tk_group (tasks s' u) = tk_group (tasks s u)" for u
        using F(1) [of tk_group u, OF task_core_fields(8) holdings_eq(7)]
        by (simp add: grant_abs_fields(1))
      show "state_of s t < ATMI_READY \<Longrightarrow> state_of s' t < ATMI_READY"
        using F(1) [of tk_state t, OF task_core_fields(6) holdings_state] rt
        by (simp add: grant_abs_fields(1))
    qed (use ne in \<open>simp_all add: F(2, 7, 14, 20)\<close>)
    then show ?thesis using granted(1) rt by simp
  qed
qed

lemma dispatch_stranded:
  assumes st: "stranded g t s" and r: "r \<noteq> t" and d: "dispatch E r s = Some s'"
  shows "stranded g t s'"
proof -
  have p: "stranded g t (push_groupable h r s)" for h
    by (rule stranded_quiet [OF st]) (auto simp: push_groupable_def)
  show ?thesis
    using d
  proof (cases rule: dispatch_core)
    case (1 h)
    then show ?thesis using st stranded_core [OF 1(2)] by simp
  next
    case (2 h)
    have e: "sched_core s' = sched_core (upd_task r (\<lambda>k. k\<lparr>tk_state := ATMI_DISPATCHED\<rparr>)
        (push_groupable h r s))"
      using 2(2) sched_core_set_state by simp
    have "stranded g t (upd_task r (\<lambda>k. k\<lparr>tk_state := ATMI_DISPATCHED\<rparr>) (push_groupable h r s))"
      by (rule stranded_quiet [OF p [of h]]) (use r in simp_all)
    then show ?thesis using stranded_core [OF e] by simp
  next
    case (3 h)
    have "stranded g t ((push_groupable h r s)\<lparr>copy_threads := copy_threads s @ [r]\<rparr>)"
      by (rule stranded_quiet [OF p [of h]]) simp_all
    then show ?thesis using stranded_core [OF 3(3)] by simp
  qed
qed

text \<open>An attempt of the application's threads in the group itself does not get past the flag.\<close>

lemma tryDispatch_stranded:
  assumes inv: "bar_inv A B X s" and st: "stranded g t s"
    and u: "tk_group (tasks s u) \<noteq> Some g \<or> \<not> isC"
    and td: "tryDispatch E u args isC s = Some (d, w, s')"
  shows "stranded g t s'"
proof -
  obtain h where h: "tk_group (tasks s u) = Some h" using td by (auto simp: tryDispatch_def bind_eq_Some_conv)
  have sync: "dep_sync s = ATL_SYNC_BARRIER_PKT" by (rule bar_invD(1) [OF inv])
  obtain sel s1 s2 where sel: "select_dispatch E u args isC s = Some (sel, s1)"
    and s2: "(case sel of Some r \<Rightarrow> Option.bind (dispatch E r s1) (register_callback r)
             | None \<Rightarrow> if dep_sync s1 = ATL_SYNC_BARRIER_PKT then barrier_no_dispatch E h isC s1
                 else Some s1) = Some s2" and s': "s' = s2"
    using td h by (auto simp: tryDispatch_def bind_eq_Some_conv split: if_splits)
  have c: "sel = None \<and> s1 = s \<or> tryDispatchBarrierPacket E u args s = Some (sel, s1) \<and> h \<noteq> g"
    using sel sync h u st by (auto simp: select_dispatch_def stranded_def split: if_splits)
  then have 1: "bar_inv A B X s1" using tryDispatchBarrierPacket_bar [OF inv h] inv by blast
  have 2: "stranded g t s1 \<and> (\<forall>r. sel = Some r \<longrightarrow> r \<noteq> t)"
    using c tryDispatchBarrierPacket_stranded [OF inv st h] st by blast
  show ?thesis
  proof (cases sel)
    case None
    have "barrier_no_dispatch E h isC s1 = Some s2" using s2 None bar_invD(1) [OF 1] by simp
    then show ?thesis using barrier_no_dispatch_stranded [OF 1] 2 s' by blast
  next
    case (Some r)
    obtain s0 where s0: "dispatch E r s1 = Some s0" and reg: "register_callback r s0 = Some s2"
      using s2 Some by (auto simp: bind_eq_Some_conv)
    have "tryDispatchBarrierPacket E u args s = Some (Some r, s1)" using c Some by simp
    from tryDispatchBarrierPacket_bar [OF inv h this]
    have r: "r < n_tasks s1" "state_of s1 r = ATMI_READY" "r \<notin> set (copy_threads s1)" by simp_all
    have 0: "bar_inv A B X s0" by (rule bar_inv_dispatch [OF 1 r s0])
    have "r < n_tasks s0" using same_tasksD(1) [OF same_tasks_dispatch [OF r(2) s0]] r(1) by simp
    then have "\<not> groupable (tasks s0 r)" using tasks_invD(1) [OF bar_invD(7) [OF 0]] by blast
    then have "s2 = s0" using reg bar_invD(1) [OF 0] by (simp add: register_callback_def)
    then show ?thesis using dispatch_stranded [OF _ _ s0] 2 Some s' by blast
  qed
qed

lemma created_loop_stranded:
  assumes "bar_inv A B X s" and "stranded g t s" and "tk_group (tasks s u) \<noteq> Some g \<or> \<not> isC"
    and "created_loop n E u isC s = Some (w, s')"
  shows "stranded g t s'"
  using assms
proof (induction n arbitrary: s)
  case (Suc n)
  obtain d w1 s1 where td: "tryDispatch E u None isC s = Some (d, w1, s1)"
    and rest: "if d then created_loop n E u isC s1 = Some (w, s') else s' = s1"
    using Suc.prems(4) by (auto simp: bind_eq_Some_conv split: if_splits)
  have b: "bar_inv A B X s1" "same_tasks s s1" using tryDispatch_bar [OF Suc.prems(1) td] by blast+
  have "stranded g t s1" by (rule tryDispatch_stranded [OF Suc.prems(1-3) td])
  then show ?case
    using rest Suc.IH [OF b(1)] Suc.prems(3) same_tasksD(2) [OF b(2)] by (cases d) simp_all
qed simp

lemma doProgress_stranded:
  assumes inv: "bar_inv A B X s" and st: "stranded g t s" and u: "tk_group (tasks s u) \<noteq> Some g"
    and p: "doProgress E u s = Some (w, s')"
  shows "stranded g t s'"
proof -
  have sync: "dep_sync s = ATL_SYNC_BARRIER_PKT" by (rule bar_invD(1) [OF inv])
  obtain h where h: "tk_group (tasks s u) = Some h"
    using p by (auto simp: doProgress_def bind_eq_Some_conv)
  show ?thesis
  proof (cases "created_tasks (groups s h) = []")
    case True
    then have "s' = upd_group h (\<lambda>k. k\<lparr>first_dispatched := False\<rparr>) s"
      using p by (simp add: doProgress_def sync h)
    then show ?thesis using h u by (simp, intro stranded_quiet [OF st]) auto
  next
    case False
    then have "created_loop (Suc (length (created_tasks (groups s h)))) E u True s = Some (w, s')"
      using p by (simp del: created_loop.simps add: doProgress_def sync h)
    then show ?thesis using created_loop_stranded [OF inv st] u by blast
  qed
qed


section \<open>The calls and handlers\<close>

lemma batch_tasks_iff: "x \<in> set (batch_tasks hs) \<longleftrightarrow> (\<exists>sg ts. HandleBatch sg ts \<in> set hs \<and> x \<in> set ts)"
  by (induction hs rule: batch_tasks.induct) auto

lemma stranded_enters:
  assumes inv: "bar_inv A B [] s" and st: "stranded g t s" and e: "enters u go s s1"
  shows "stranded g t (push_created go u s1)"
proof -
  note F = enters_fields [OF e]
  have t: "t < n_tasks s" "tk_group (tasks s t) = Some g" "\<forall>h \<in> set (handlers s). elsewhere g s h"
    using st by (simp_all add: stranded_def)
  have ut: "u \<noteq> t" using t(2) F(6) t(1) by auto
  have "elsewhere g (push_created go u s1) h" if "h \<in> set (handlers s)" for h
  proof (cases h)
    case (HandleBatch sg ts)
    have "x \<noteq> u" if "x \<in> set ts" for x
    proof -
      have "x \<in> set (batch_tasks (handlers s))"
        using \<open>h \<in> set (handlers s)\<close> HandleBatch that by (auto simp: batch_tasks_iff)
      then have "x < n_tasks s" "live (tasks s x)"
        using lists_invD(3) [OF bar_invD(6) [OF inv], of x] by (auto simp: owned_def)
      then show ?thesis using F(6) by (auto simp: live_def)
    qed
    then show ?thesis using t(3) \<open>h \<in> set (handlers s)\<close> HandleBatch F(3)
      by (auto simp: elsewhere_def push_created_fields)
  qed (simp_all add: elsewhere_def)
  then show ?thesis
    using st F(1) F(3) [of t] ut by (simp add: stranded_def push_created_fields F(12, 16, 18))
qed

lemma bar_launches_stranded:
  assumes ok: "bar_ok A B s" and st: "stranded g t s" and l: "bar_launches E s w s'"
  shows "stranded g t s'"
proof -
  obtain u h s1 s2 args d where e: "enters u (Some h) s s1"
    and c: "sched_core s2 = sched_core (push_created (Some h) u s1)"
    and td: "tryDispatch E u args False s2 = Some (d, w, s')"
    using l unfolding bar_launches_def by blast
  have inv: "bar_inv A B [] s" using ok by (simp add: bar_ok_def)
  have "bar_inv A B [] s2" using bar_inv_core [OF c] bar_inv_enters [OF inv e] by simp
  then show ?thesis
    using tryDispatch_stranded [OF _ _ _ td] stranded_core [OF c] stranded_enters [OF inv st e] by simp
qed


lemma link_all_stranded: "stranded g t s \<Longrightarrow> stranded g t (link_all u ps gs s)"
proof -
  have 1: "stranded g t (link_task u p s)" if "stranded g t s" for p s
    by (rule stranded_quiet [OF that]) (auto simp: link_task_def)
  have 2: "stranded g t (link_group u h s)" if "stranded g t s" for h s
    by (rule stranded_quiet [OF that]) (auto simp: link_group_def)
  have "stranded g t s \<Longrightarrow> stranded g t (snd (link_preds u ps s))" for s
    by (induction ps arbitrary: s) (simp_all add: 1)
  moreover have "stranded g t s \<Longrightarrow> stranded g t (snd (link_groups u gs s))" for s
  proof (induction gs arbitrary: s)
    case (Cons a gs)
    then show ?case by (cases a) (simp_all add: 2)
  qed simp
  ultimately show "stranded g t s \<Longrightarrow> stranded g t (link_all u ps gs s)" by (simp add: link_all_def)
qed

lemma CreateTask_stranded:
  assumes inv: "bar_inv A B [] s" and st: "stranded g t s"
    and l: "CreateTask lparm k_id args s = Some (h, s')" and ng: "\<not> lp_groupable lparm"
  shows "stranded g t s'"
  using inv l ng
proof (cases rule: CreateTask_bar)
  case 1
  then show ?thesis using st by simp
next
  case (2 u a s0 ps gs)
  have "stranded g t (link_all u ps gs (push_created (Some a) u s0))"
    using link_all_stranded stranded_enters [OF inv st 2(1)] by blast
  then have "stranded g t (upd_task u (\<lambda>k. k\<lparr>tk_state := ATMI_INITIALIZED\<rparr>)
      (link_all u ps gs (push_created (Some a) u s0)))"
    by (rule stranded_quiet) (simp_all add: state_order)
  then show ?thesis using stranded_core [OF 2(2)] by simp
qed

lemma CreateTaskTemplate_stranded:
  assumes inv: "bar_inv A B [] s" and st: "stranded g t s"
  shows "stranded g t (snd (CreateTaskTemplate k_id s))"
  using CreateTaskTemplate_enters [OF inv, of k_id] stranded_enters [OF inv st, of _ None] st
  by (auto simp: push_created_def)

lemma copy_thread_stranded:
  assumes inv: "bar_inv A B [] s" and st: "stranded g t s" and u: "u \<in> set (copy_threads s)"
    and c: "copy_thread E temp u s = Some s'"
  shows "stranded g t s'"
proof -
  have "state_of s u = ATMI_READY" using u bar_invD(4) [OF inv] by (simp add: copy_inv_def)
  then have "u \<noteq> t" using st by (auto simp: stranded_def)
  then have "stranded g t ((upd_task u (\<lambda>k. k\<lparr>tk_state := ATMI_DISPATCHED\<rparr>) s)
      \<lparr>copy_threads := remove1 u (copy_threads s)\<rparr>)"
    by (intro stranded_quiet [OF st]) simp_all
  then show ?thesis using stranded_core [OF copy_thread_core [OF c]] by simp
qed

lemma retire_tasks_stranded:
  assumes "stranded g t s" and "\<forall>u \<in> set ts. ATMI_READY \<le> state_of s u"
    and "retire_tasks E ts s = Some s'"
  shows "stranded g t s'"
  using assms
proof (induction ts arbitrary: s)
  case (Cons u ts)
  obtain s1 where 1: "retire_task E u s = Some s1" and 2: "retire_tasks E ts s1 = Some s'"
    using Cons.prems(3) by (auto simp: bind_eq_Some_conv)
  note e = retire_task_core [OF 1]
  have "stranded g t (retire_abs u s)"
    using Cons.prems(1, 2) by (intro stranded_quiet [OF Cons.prems(1)]) (auto simp: retire_abs_fields)
  then have "stranded g t s1" using stranded_core [OF e] by simp
  moreover have "ATMI_READY \<le> state_of s1 x" if "x \<in> set ts" for x
    using core_eq_task_fields(3) [OF e, of x] Cons.prems(2) that
    by (auto simp: retire_abs_fields state_order)
  ultimately show ?case using Cons.IH [OF _ _ 2] by blast
qed simp

lemma handle_batch_stranded:
  assumes inv: "bar_inv A B [] s" and st: "stranded g t s"
    and h: "handlers s = hs1 @ HandleBatch sg ts # hs2" and c: "\<forall>t \<in> set ts. t \<notin> set (copy_threads s)"
    and d: "handle_signal_barrier_pkt E ts (s\<lparr>handlers := hs1 @ hs2\<rparr>) = Some (w, s')"
  shows "stranded g t s'"
proof -
  let ?s = "s\<lparr>handlers := hs1 @ hs2\<rparr>"
  obtain u us s1 where ts: "ts = u # us" and 1: "retire_tasks E ts ?s = Some s1"
    and 2: "doProgress E u s1 = Some (w, s')"
    using d by (auto simp: handle_signal_barrier_pkt_def bind_eq_Some_conv split: list.splits)
  have b: "bar_inv A B [] s1" "same_tasks ?s s1"
    using retire_tasks_bar [of A B ts "[]" ?s] bar_inv_handler_fires [OF inv h] c 1 by simp_all
  have "elsewhere g ?s k = elsewhere g s k" for k by (rule elsewhere_cong) simp
  then have "stranded g t ?s" using st h by (simp add: stranded_def)
  moreover have "ATMI_READY \<le> state_of s x" if "x \<in> set ts" for x
    using lists_invD(3) [OF bar_invD(6) [OF inv], of x] that h
    by (auto simp: owned_def live_def state_order)
  ultimately have "stranded g t s1" using retire_tasks_stranded [OF _ _ 1] by simp
  moreover have "tk_group (tasks s u) \<noteq> Some g" using st h ts by (auto simp: stranded_def elsewhere_def)
  then have "tk_group (tasks s1 u) \<noteq> Some g" using same_tasksD(2) [OF b(2)] by simp
  ultimately show ?thesis using doProgress_stranded [OF b(1) _ _ 2] by blast
qed


lemma sync_finish_stranded:
  assumes st: "stranded g t s" and fin: "sync_done h s" and f: "sync_finish h s = Some s'"
  shows "stranded g t s'"
proof -
  obtain ts where ts: "sync_tasks h s = Some ts"
    and s': "s' = (let s = fold (\<lambda>t. set_state t ATMI_COMPLETED) ts s;
       s = (if tg_ordered (groups s h) then upd_group h (\<lambda>k. k\<lparr>last_task := None\<rparr>) s else s)
       in clearSavedTasks h s)"
    using f by (auto simp: sync_finish_def bind_eq_Some_conv Let_def)
  have c: "sched_core (fold (\<lambda>t. set_state t ATMI_COMPLETED) ts s) = sched_core s"
    using fin ts by (intro fold_completed_core) (auto simp: sync_done_def wait_done_def)
  have "stranded g t (fold (\<lambda>t. set_state t ATMI_COMPLETED) ts s)" using stranded_core [OF c] st by simp
  then show ?thesis
    by (rule stranded_quiet) (auto simp: s' Let_def clearSavedTasks_def)
qed

lemma TaskGroupCreate_stranded:
  assumes inv: "bar_inv A B [] s" and st: "stranded g t s"
    and c: "TaskGroupCreate E ordered place s = Some (h, s')"
  shows "stranded g t s'"
proof -
  have "g < length (AllTaskgroups s)" using bar_invD(5) [OF inv] st by (auto simp: table_inv_def stranded_def)
  then show ?thesis
    using c by (intro stranded_quiet [OF st])
      (auto simp: TaskGroupCreate_def Let_def log_call_def split: if_splits)
qed

lemma TaskGroupRelease_stranded:
  assumes "stranded g t s" and "TaskGroupRelease h s = (r, s')"
  shows "stranded g t s'"
  using assms by (intro stranded_quiet [OF assms(1)])
    (auto simp: TaskGroupRelease_def Let_def log_call_def split: option.splits)

lemma ActivateTask_stranded:
  assumes inv: "bar_inv A B [] s" and st: "stranded g t s" and l: "ActivateTask E h s = Some (h', w, s')"
  shows "stranded g t s'"
proof -
  have sync: "dep_sync s = ATL_SYNC_BARRIER_PKT" by (rule bar_invD(1) [OF inv])
  obtain r where r: "getTaskImpl s h = Some r" using l by (auto simp: ActivateTask_def bind_eq_Some_conv)
  show ?thesis
  proof (cases r)
    case None
    then show ?thesis using l r st by (simp add: ActivateTask_def)
  next
    case (Some u)
    then obtain n where "created_loop n E u False s = Some (w, s')"
      using l r sync by (auto simp del: created_loop.simps simp: ActivateTask_def bind_eq_Some_conv Let_def)
    then show ?thesis using created_loop_stranded [OF inv st] by blast
  qed
qed

lemma finish_wait_stranded:
  "stranded g t s \<Longrightarrow> wait_done s u \<Longrightarrow> finish_wait E u s = Some s' \<Longrightarrow> stranded g t s'"
  using stranded_core [OF finish_wait_core] by (simp add: wait_done_def)

lemma bstep_stranded:
  assumes "bstep E c c'" and ok: "bar_ok A B (rt c)" and st: "stranded g t (rt c)"
  shows "stranded g t (rt c')"
proof -
  have inv: "bar_inv A B [] (rt c)" using ok by (simp add: bar_ok_def)
  show ?thesis
    using assms(1)
  proof cases
    case (launch lparm k_id args h w s')
    then show ?thesis
      using LaunchTask_bar [OF inv launch(2, 3)] bar_launches_stranded [OF ok st] st by auto
  next
    case (create lparm k_id args h s')
    then show ?thesis using CreateTask_stranded [OF inv st create(2, 3)] by simp
  next
    case (activate h h' w s')
    then show ?thesis using ActivateTask_stranded [OF inv st activate(2)] by simp
  next
    case (template k_id h s')
    then show ?thesis using CreateTaskTemplate_stranded [OF inv st, of k_id] by simp
  next
    case (activate_template h lparm args h' w s')
    then show ?thesis
      using ActivateTaskTemplate_bar [OF inv activate_template(2, 3, 4)] bar_launches_stranded [OF ok st]
        st by auto
  next
    case (copy cparm dest src sz h w s')
    then show ?thesis using MemcpyAsync_bar [OF inv copy(2, 3)] bar_launches_stranded [OF ok st] by simp
  next
    case (copy_issue t temp s')
    then show ?thesis using copy_thread_stranded [OF inv st copy_issue(2, 3)] by simp
  next
    case (group_create ordered place h s')
    then show ?thesis using TaskGroupCreate_stranded [OF inv st group_create(2)] by simp
  next
    case (group_sync h r g s')
    then show ?thesis using sync_finish_stranded [OF st group_sync(3, 4)] by simp
  next
    case (group_release h r s')
    then show ?thesis using TaskGroupRelease_stranded [OF st group_release(2)] by simp
  next
    case (flush u s')
    then show ?thesis
      using wait_flush_dispatched [OF inv flush(4)] flush_dispatched_stranded [OF inv st] st by auto
  next
    case (task_wait u s')
    then show ?thesis using finish_wait_stranded [OF st task_wait(3, 4)] by simp
  next
    case (batch_handler hs1 sg ts hs2 w s')
    then show ?thesis using handle_batch_stranded [OF inv st batch_handler(3, 4, 5)] by simp
  next
    case (handler_wait u s')
    then show ?thesis using finish_wait_stranded [OF st handler_wait(3, 4)] by simp
  qed
qed

lemma stranded_forever:
  assumes "(bstep E)\<^sup>*\<^sup>* c c'" and "bar_ok A B (rt c)" "stranded g t (rt c)"
  shows "stranded g t (rt c')"
proof -
  have "bar_ok A B (rt c') \<and> stranded g t (rt c')"
    using assms
  proof (induction rule: rtranclp_induct)
    case (step c1 c2)
    then show ?case using bstep_ok bstep_stranded by blast
  qed simp
  then show ?thesis by simp
qed

end
