(* ===== verification/Barrier_Packets.thy ===== *)
theory Barrier_Packets
  imports Barrier_Progress
begin

text \<open>
  What a grant of the barrier mode writes to the queues: the barrier packets for the unfinished
  predecessors, then the reservation of the task's own packet on the same queue.
\<close>

section \<open>The calls of a barrier\<close>

definition writes_only :: "qid \<Rightarrow> hsa_call list \<Rightarrow> bool" where
  "writes_only q cs \<longleftrightarrow> list_all (\<lambda>c. case c of WritePacket q' i p \<Rightarrow> q' = q | _ \<Rightarrow> True) cs"

lemma writes_only_simps [simp]:
  "writes_only q []" "writes_only q (xs @ ys) \<longleftrightarrow> writes_only q xs \<and> writes_only q ys"
  "writes_only q (c # cs) \<longleftrightarrow> (case c of WritePacket q' i p \<Rightarrow> q' = q | _ \<Rightarrow> True) \<and> writes_only q cs"
  by (simp_all add: writes_only_def)

lemma barrier_packets_writes:
  "\<exists>cs. hsa_log (barrier_packets n E q f nc ts s) = hsa_log s @ cs \<and> writes_only q cs"
proof (induction n arbitrary: ts s)
  case (Suc n)
  let ?idx = "fst (reserve_packet E q s)" and ?s1 = "snd (reserve_packet E q s)"
  let ?b = "barrier_packet_for E f nc (n = 0) (map (\<lambda>t. tk_signal (tasks ?s1 t)) (take 5 ts))"
  let ?s2 = "log_call (WritePacket q (queue_slot E q ?idx) (BarrierPacket ?b)) ?s1"
  let ?s3 = "if n = 0 then log_call (RingDoorbell q ?idx) ?s2 else ?s2"
  have step: "barrier_packets (Suc n) E q f nc ts s = barrier_packets n E q f nc (drop 5 ts) ?s3"
    by (simp add: Let_def HSA_BARRIER_MAX_DEPENDENT_TASKS_def case_prod_beta)
  obtain cs where cs: "hsa_log (barrier_packets n E q f nc (drop 5 ts) ?s3) = hsa_log ?s3 @ cs"
    "writes_only q cs" using Suc.IH [of "drop 5 ts" ?s3] by blast
  have "\<exists>ds. hsa_log ?s3 = hsa_log s @ ds \<and> writes_only q ds"
    by (auto simp: log_call_def reserve_packet_log)
  then obtain ds where "hsa_log ?s3 = hsa_log s @ ds" "writes_only q ds" by blast
  then show ?case unfolding step cs(1) using cs(2) by (intro exI [of _ "ds @ cs"]) simp
qed simp

text \<open>What a barrier logs: it waits for exactly the signals of its tasks, on its queue.\<close>

lemma enqueue_barrier_log:
  assumes "enqueue_barrier E (Some q) ts False f dt nc s = Some s'"
  shows "\<exists>cs. hsa_log s' = hsa_log s @ cs \<and> writes_only q cs \<and> tasks s' = tasks s \<and>
    machine s' = machine s \<and>
    concat (map bp_dep_signal (barriers_of cs)) = map (\<lambda>t. tk_signal (tasks s t)) ts"
proof -
  let ?a = "enqueue_barrier_async E (Some q) ts f nc s"
  have a: "\<exists>cs. hsa_log ?a = hsa_log s @ cs \<and> writes_only q cs \<and> tasks ?a = tasks s \<and>
      concat (map bp_dep_signal (barriers_of cs)) = map (\<lambda>t. tk_signal (tasks s t)) ts"
  proof (cases "ts = []")
    case False
    let ?n = "(length ts + 4) div 5"
    have tk: "take (5 * ?n) ts = ts" using ceil_div_bounds(1) [of 5 "length ts"] by simp
    have e: "?a = barrier_packets ?n E q f nc ts s"
      using False by (simp add: enqueue_barrier_async_def HSA_BARRIER_MAX_DEPENDENT_TASKS_def
          add.commute)
    obtain cs where cs: "hsa_log ?a = hsa_log s @ cs" "tasks ?a = tasks s"
      "concat (map bp_dep_signal (barriers_of cs)) = map (\<lambda>t. tk_signal (tasks s t)) ts"
      using barrier_packets_log [of ?n E q f nc ts s] unfolding e tk by blast
    obtain ds where "hsa_log ?a = hsa_log s @ ds" "writes_only q ds"
      using barrier_packets_writes [of ?n E q f nc ts s] unfolding e by blast
    then show ?thesis using cs by auto
  qed (simp add: enqueue_barrier_async_def)
  have m: "machine ?a = machine s"
  proof -
    have "sched_core ?a = sched_core s"
      by (simp add: enqueue_barrier_async_def barrier_packets_core Let_def)
    then show ?thesis by (metis sched_core_fields(2))
  qed
  obtain cs where cs: "hsa_log ?a = hsa_log s @ cs" "writes_only q cs" "tasks ?a = tasks s"
    "concat (map bp_dep_signal (barriers_of cs)) = map (\<lambda>t. tk_signal (tasks s t)) ts"
    using a by blast
  have "s' = ?a \<or> s' = log_call (SignalWorker q) ?a"
    using assms by (auto simp: enqueue_barrier_def Let_def split: if_splits)
  then show ?thesis
  proof
    assume "s' = log_call (SignalWorker q) ?a"
    then show ?thesis using cs m by (intro exI [of _ "cs @ [SignalWorker q]"]) (simp add: log_call_def)
  qed (use cs m in blast)
qed

section \<open>The task's own packet\<close>

text \<open>A GPU task, or a CPU task of one thread, has one packet.\<close>

definition one_packet :: "TaskImpl \<Rightarrow> bool" where
  "one_packet k \<longleftrightarrow> tk_devtype k = ATMI_DEVTYPE_GPU \<or>
     tk_devtype k = ATMI_DEVTYPE_CPU \<and> cpu_thread_count (gridDim k) = 1"

lemma swap_to_front_hd: "swap_to_front q qs = Some qs' \<Longrightarrow> qs' \<noteq> [] \<and> qs' ! 0 = q"
proof -
  assume s: "swap_to_front q qs = Some qs'"
  let ?i = "length (takeWhile (\<lambda>x. x \<noteq> q) qs)"
  have i: "?i < length qs" and qs': "qs' = qs[0 := qs ! ?i, ?i := qs ! 0]"
    using s by (auto simp: swap_to_front_def Let_def split: if_splits)
  have "qs ! ?i = q" using nth_length_takeWhile [OF i] by simp
  then show ?thesis using i qs' by (cases qs; cases "?i") auto
qed

lemma reserve_own_packet:
  assumes one: "one_packet (tasks s t)"
    and r: "(if tk_devtype (tasks s t) = ATMI_DEVTYPE_GPU then Some (reserve_gpu_packet E q t s)
       else reserve_cpu_packets E q t s) = Some s'"
  shows "\<exists>i. hsa_log s' = hsa_log s @ [SignalAdd (tk_signal (tasks s t)) 1, AddWriteIndex q, WaitSlot q i] \<and>
    tasks s' = (tasks s)(t := (tasks s t)\<lparr>tk_packets := tk_packets (tasks s t) @ [(q, i)]\<rparr>)"
proof (cases "tk_devtype (tasks s t) = ATMI_DEVTYPE_GPU")
  case True
  then have "s' = reserve_gpu_packet E q t s" using r by simp
  then show ?thesis
    by (simp add: reserve_gpu_packet_def Let_def case_prod_beta reserve_packet_log upd_task_def
        log_call_def)
next
  case False
  then have n: "cpu_thread_count (gridDim (tasks s t)) = 1" using one by (simp add: one_packet_def)
  obtain qs where qs: "qs \<noteq> []" "qs ! 0 = q"
    and a: "acquire_cpu_packets E t qs [0] (log_call (SignalAdd (tk_signal (tasks s t)) 1) s) = Some s'"
    using r False n swap_to_front_hd
    by (auto simp: reserve_cpu_packets_def Let_def bind_eq_Some_conv simp del: acquire_cpu_packets.simps)
  then show ?thesis
    by (auto simp: Let_def case_prod_beta reserve_packet_log upd_task_def log_call_def)
qed


section \<open>A grant\<close>

lemma holdings_fields:
  assumes "holdings k = holdings k'"
  shows "tk_type k = tk_type k'" "tk_devtype k = tk_devtype k'" "gridDim k = gridDim k'"
  using assms by (cases k; cases k'; simp add: holdings_def)+

lemma task_queue_frame:
  assumes "task_queue E t s = Some (q, s')"
  shows "hsa_log s' = hsa_log s" "tasks s' = tasks s" "dep_sync s' = dep_sync s"
  using assms by (auto simp: task_queue_def bind_eq_Some_conv Let_def)

lemma acquire_packets_log:
  assumes "compute_acquireAqlPacket E t s = Some s'" and sync: "dep_sync s = ATL_SYNC_BARRIER_PKT"
    and one: "one_packet (tasks s t)"
  shows "\<exists>cs q i. hsa_log s' = hsa_log s @ cs @
      [SignalAdd (tk_signal (tasks s t)) 1, AddWriteIndex q, WaitSlot q i] \<and> writes_only q cs \<and>
    tasks s' = (tasks s)(t := (tasks s t)\<lparr>tk_packets := tk_packets (tasks s t) @ [(q, i)]\<rparr>) \<and>
    concat (map bp_dep_signal (barriers_of cs)) =
      map (\<lambda>p. tk_signal (tasks s p)) (and_predecessors (tasks s t))"
proof -
  obtain q s1 s2 where 1: "task_queue E t s = Some (q, s1)"
    and 2: "enqueue_pred_barrier E q t s1 = Some s2"
    and 3: "(if tk_devtype (tasks s2 t) = ATMI_DEVTYPE_GPU then Some (reserve_gpu_packet E q t s2)
       else reserve_cpu_packets E q t s2) = Some s'"
    using assms(1) by (auto simp: compute_acquireAqlPacket_def bind_eq_Some_conv)
  note f = task_queue_frame [OF 1]
  have "\<exists>cs. hsa_log s2 = hsa_log s1 @ cs \<and> writes_only q cs \<and> tasks s2 = tasks s1 \<and>
      concat (map bp_dep_signal (barriers_of cs)) =
        map (\<lambda>p. tk_signal (tasks s1 p)) (and_predecessors (tasks s1 t))"
  proof (cases "and_predecessors (tasks s1 t) = []")
    case True
    then show ?thesis using 2 by (intro exI [of _ "[]"]) (simp add: enqueue_pred_barrier_def Let_def)
  next
    case False
    then have "enqueue_barrier E (Some q) (and_predecessors (tasks s1 t)) False False
        (tk_devtype (tasks s1 t)) False s1 = Some s2"
      using 2 sync by (simp add: enqueue_pred_barrier_def Let_def f(3))
    then show ?thesis using enqueue_barrier_log by blast
  qed
  then obtain cs where cs: "hsa_log s2 = hsa_log s @ cs" "writes_only q cs" "tasks s2 = tasks s"
    "concat (map bp_dep_signal (barriers_of cs)) =
        map (\<lambda>p. tk_signal (tasks s p)) (and_predecessors (tasks s t))"
    unfolding f by blast
  have "one_packet (tasks s2 t)" using one cs(3) by simp
  from reserve_own_packet [OF this 3] obtain i where
    "hsa_log s' = hsa_log s2 @ [SignalAdd (tk_signal (tasks s2 t)) 1, AddWriteIndex q, WaitSlot q i]"
    "tasks s' = (tasks s2)(t := (tasks s2 t)\<lparr>tk_packets := tk_packets (tasks s2 t) @ [(q, i)]\<rparr>)"
    by blast
  then show ?thesis using cs by auto
qed

lemma copy_args_log:
  assumes "copy_args p os szs as is s = Some s'"
  shows "hsa_log s' = hsa_log s" "dep_sync s' = dep_sync s"
proof -
  have "hsa_log s2 = hsa_log s1" "dep_sync s2 = dep_sync s1"
    if "kmem_write p d bs s1 = Some s2" for d bs s1 s2
    using that by (auto simp: kmem_write_def split: kptr.splits)
  note w = this
  show "hsa_log s' = hsa_log s" by (rule copy_args_preserves [of p hsa_log, OF _ assms]) (rule w(1))
  show "dep_sync s' = dep_sync s" by (rule copy_args_preserves [of p dep_sync, OF _ assms]) (rule w(2))
qed

lemma updateKernargRegion_log:
  assumes "updateKernargRegion t args s = Some s'"
  shows "hsa_log s' = hsa_log s" "dep_sync s' = dep_sync s"
  using assms by (auto simp: updateKernargRegion_def bind_eq_Some_conv copy_args_log split: if_splits)

lemma links_packets:
  "tk_packets (tasks (add_and_predecessors t ps s) x) = tk_packets (tasks s x)"
  "tk_packets (tasks (ordered_and_predecessor t g s) x) = tk_packets (tasks s x)"
proof -
  have 1: "tk_packets (tasks (add_and_predecessor t p s) x) = tk_packets (tasks s x)" for p s
    by (simp add: add_and_predecessor_def)
  show "tk_packets (tasks (add_and_predecessors t ps s) x) = tk_packets (tasks s x)"
    by (induction ps arbitrary: s) (simp_all add: 1)
  show "tk_packets (tasks (ordered_and_predecessor t g s) x) = tk_packets (tasks s x)"
    by (simp add: ordered_and_predecessor_def 1 split: option.split)
qed

text \<open>What taking a segment leaves alone.\<close>

definition bare :: "TaskImpl \<Rightarrow> TaskImpl" where
  "bare k = k\<lparr>tk_kernarg := KNull, tk_kernarg_index := 0\<rparr>"

lemma bare_eq:
  assumes "bare k = bare k'"
  shows "tk_type k = tk_type k'" "tk_devtype k = tk_devtype k'" "gridDim k = gridDim k'"
    "tk_packets k = tk_packets k'" "tk_signal k = tk_signal k'" "tk_state k = tk_state k'"
    "predecessors k = predecessors k'"
  using assms by (cases k; cases k'; simp add: bare_def)+

lemma take_kernarg_frame:
  assumes "take_kernarg t args s = Some s'"
  shows "hsa_log s' = hsa_log s" "dep_sync s' = dep_sync s"
    "bare (tasks s' x) = bare (tasks s x)"
proof -
  have w: "hsa_log s2 = hsa_log s1 \<and> dep_sync s2 = dep_sync s1 \<and> tasks s2 = tasks s1"
    if "kmem_write p d bs s1 = Some s2" for p d bs s1 s2
    using that by (auto simp: kmem_write_def split: kptr.splits)
  have u: "hsa_log s2 = hsa_log s1 \<and> dep_sync s2 = dep_sync s1 \<and> tasks s2 = tasks s1"
    if "updateKernargRegion t args s1 = Some s2" for s1 s2
    using updateKernargRegion_log [OF that] updateKernargRegion_objects [OF that] by simp
  have "hsa_log s' = hsa_log s \<and> dep_sync s' = dep_sync s \<and> bare (tasks s' x) = bare (tasks s x)"
  proof (cases "tk_type (tasks s t) = ATL_KERNEL_EXECUTION")
    case True
    then have k: "acquire_kernarg t args s = Some s'" using assms by (simp add: take_kernarg_def)
    show ?thesis
    proof (cases "tk_kernarg (tasks s t)")
      case KNull
      then show ?thesis
        using k by (auto simp: acquire_kernarg_def bind_eq_Some_conv Let_def bare_def dest!: u)
    next
      case (KStaging u)
      then show ?thesis
        using k by (auto simp: acquire_kernarg_def bind_eq_Some_conv Let_def bare_def
            split: if_splits dest!: w)
    next
      case KSegment
      then show ?thesis using k by (auto simp: acquire_kernarg_def bind_eq_Some_conv Let_def)
    next
      case KTemplate
      then show ?thesis using k by (auto simp: acquire_kernarg_def bind_eq_Some_conv Let_def)
    qed
  qed (use assms in \<open>simp add: take_kernarg_def\<close>)
  then show "hsa_log s' = hsa_log s" "dep_sync s' = dep_sync s" "bare (tasks s' x) = bare (tasks s x)"
    by simp_all
qed

text \<open>
  The packets of a task that is granted its resources: the signals of all its predecessors that
  are not executed are in barrier packets on the task's queue, before the task's own packet.
\<close>

lemma barrier_grant_log:
  assumes gr: "barrier_grant E t g args s = Some s'" and sync: "dep_sync s = ATL_SYNC_BARRIER_PKT"
    and ty: "tk_type (tasks s t) = ATL_KERNEL_EXECUTION" and one: "one_packet (tasks s t)"
    and irr: "t \<notin> set (predecessors (tasks s t))"
  shows "\<exists>cs q i. hsa_log s' = hsa_log s @ cs @
      [SignalAdd (tk_signal (tasks s' t)) 1, AddWriteIndex q, WaitSlot q i] \<and> writes_only q cs \<and>
    tk_packets (tasks s' t) = tk_packets (tasks s t) @ [(q, i)] \<and>
    (\<forall>p \<in> set (predecessors (tasks s t)). state_of s p < ATMI_EXECUTED \<longrightarrow>
       tk_signal (tasks s p) \<in> set (concat (map bp_dep_signal (barriers_of cs))))"
proof -
  obtain s1 s2 s6 where s1: "take_signal t g s = Some s1" and s2: "take_kernarg t args s1 = Some s2"
    and s6: "acquireAqlPacket E t (ordered_and_predecessor t g (move_to_dispatched E t g
           (add_and_predecessors t (predecessors (tasks s2 t)) s2))) = Some s6"
    and s': "s' = set_state t ATMI_READY s6"
    using gr by (auto simp: barrier_grant_def bind_eq_Some_conv barrier_take_signal_eq Let_def)
  let ?s3 = "add_and_predecessors t (predecessors (tasks s2 t)) s2"
  let ?s4 = "move_to_dispatched E t g ?s3"
  let ?s5 = "ordered_and_predecessor t g ?s4"
  note f3 = add_and_predecessors_fields [where t = t and ps = "predecessors (tasks s2 t)" and s = s2]
  note f5 = ordered_and_predecessor_fields [where t = t and g = g and s = ?s4]
  obtain ks where ks: "?s3 = s2\<lparr>tasks := ks\<rparr>" using f3(7) by blast
  obtain gs where gs: "?s4 = ?s3\<lparr>groups := gs\<rparr>" using move_to_dispatched_fields(1) by blast
  obtain ks' where ks': "?s5 = ?s4\<lparr>tasks := ks'\<rparr>" using f5(5) by blast
  have t4: "tasks ?s4 = tasks ?s3" unfolding gs by simp
  have h5: "holdings (tasks ?s5 x) = holdings (tasks s2 x)" for x unfolding f5(1) t4 f3(1) ..
  note e1 = take_signal_exact [OF s1] and e2 = take_kernarg_frame [OF s2]
  have b1: "bare (tasks s2 x) = bare (tasks s1 x)" for x by (rule e2(3))
  have x1: "hsa_log s1 = hsa_log s" "dep_sync s1 = dep_sync s"
    "x \<noteq> t \<Longrightarrow> tasks s1 x = tasks s x" "\<exists>sg. tasks s1 t = (tasks s t)\<lparr>tk_signal := sg\<rparr>" for x
    using e1 by (auto split: if_splits)
  have fr: "hsa_log ?s5 = hsa_log s" "dep_sync ?s5 = ATL_SYNC_BARRIER_PKT"
    unfolding ks' unfolding gs using e2(1, 2) x1(1, 2) sync by (simp_all add: ks)
  have t2: "tk_type (tasks s2 t) = tk_type (tasks s t)" "one_packet (tasks s2 t)"
    "predecessors (tasks s2 t) = predecessors (tasks s t)"
    "tk_packets (tasks s2 t) = tk_packets (tasks s t)"
    using bare_eq [OF b1, of t] x1(4) one by (auto simp: one_packet_def)
  have t5: "tk_type (tasks ?s5 t) = tk_type (tasks s t)" "one_packet (tasks ?s5 t)"
    using holdings_fields [OF h5, of t] t2 by (simp_all add: one_packet_def)
  have a: "compute_acquireAqlPacket E t ?s5 = Some s6"
    using s6 t5(1) ty by (simp add: acquireAqlPacket_def)
  obtain cs q i where L: "hsa_log s6 = hsa_log ?s5 @ cs @
      [SignalAdd (tk_signal (tasks ?s5 t)) 1, AddWriteIndex q, WaitSlot q i]" "writes_only q cs"
    "tasks s6 = (tasks ?s5)(t := (tasks ?s5 t)\<lparr>tk_packets := tk_packets (tasks ?s5 t) @ [(q, i)]\<rparr>)"
    "concat (map bp_dep_signal (barriers_of cs)) =
      map (\<lambda>p. tk_signal (tasks ?s5 p)) (and_predecessors (tasks ?s5 t))"
    using acquire_packets_log [OF a fr(2) t5(2)] by blast
  have pk: "tk_packets (tasks ?s5 t) = tk_packets (tasks s2 t)"
    by (simp only: links_packets t4)
  have s'f: "hsa_log s' = hsa_log s6" "tk_signal (tasks s' t) = tk_signal (tasks s6 t)"
    "tk_packets (tasks s' t) = tk_packets (tasks s6 t)"
    by (simp_all add: s' set_state_def Let_def split: option.split)
  have pred: "tk_signal (tasks s p) \<in> set (concat (map bp_dep_signal (barriers_of cs)))"
    if p: "p \<in> set (predecessors (tasks s t))" "state_of s p < ATMI_EXECUTED" for p
  proof -
    have pt: "p \<noteq> t" using p(1) irr by blast
    have "state_of s2 p < ATMI_EXECUTED" using bare_eq(6) [OF b1, of p] x1(3) [OF pt] p(2) by simp
    then have "p \<in> set (and_predecessors (tasks ?s3 t))" using f3(4) p(1) t2(3) by simp
    then have "p \<in> set (and_predecessors (tasks ?s5 t))" using f5(4) t4 by auto
    moreover have "tk_signal (tasks ?s5 p) = tk_signal (tasks s p)"
      using holdings_eq(6) [OF h5, of p] bare_eq(5) [OF b1, of p] x1(3) [OF pt] by simp
    ultimately show ?thesis unfolding L(4) by (auto intro: rev_image_eqI)
  qed
  show ?thesis
  proof (intro exI conjI)
    show "hsa_log s' = hsa_log s @ cs @
        [SignalAdd (tk_signal (tasks s' t)) 1, AddWriteIndex q, WaitSlot q i]"
      using L(1, 3) fr(1) s'f by simp
    show "tk_packets (tasks s' t) = tk_packets (tasks s t) @ [(q, i)]" using L(3) s'f pk t2(4) by simp
  qed (use L(2) pred in blast)+
qed

end
