(* ===== verification/Barrier_Guarantees.thy ===== *)
theory Barrier_Guarantees
  imports Barrier_Stranded Barrier_Packets
begin

text \<open>
  What the barrier mode guarantees for every configuration that the runtime can reach in it, what
  it leaves behind, and the runs on a small machine that the theorems are applied to.
\<close>

section \<open>Runs\<close>

definition bdemo_config :: "signal list \<Rightarrow> nat list \<Rightarrow> config" where
  "bdemo_config sigs segs =
     \<lparr>rt = (demo_kernel_start sigs segs)\<lparr>dep_sync := ATL_SYNC_BARRIER_PKT\<rparr>, waiting = [], stuck = NoWait\<rparr>"

lemma bdemo_run:
  assumes "map_option f (bfire_all demo_env es (bdemo_config sigs segs)) = Some v"
  shows "\<exists>c. breachable demo_env (mset sigs) (\<lambda>_. mset segs) c \<and> f c = v"
proof -
  obtain c where c: "bfire_all demo_env es (bdemo_config sigs segs) = Some c" "f c = v"
    using assms by auto
  have "breachable demo_env (mset sigs) (\<lambda>_. mset segs) (bdemo_config sigs segs)"
    unfolding bdemo_config_def
    by (rule breachable.start)
       (simp add: bar_started_def demo_kernel_start_def rt_start_def new_TaskgroupImpl_def new_KernelImpl_def)
  from bfire_all_reachable [OF this c(1)] c(2) show ?thesis by blast
qed

definition bdemo_group :: bevent where
  "bdemo_group = BGroupCreate False ATMI_DEFAULT_PLACE"

definition bdemo_launch ::
  "atmi_taskgroup_handle_t \<Rightarrow> bool \<Rightarrow> atmi_task_handle_t list \<Rightarrow> bevent" where
  "bdemo_launch g sync reqs = BLaunch (demo_lparm g False sync reqs []) 1 (Some [[3, 4]])"

text \<open>Two tasks, the second of which requires the first, and a third one; two of them flushed.\<close>

definition bdemo_chain :: "bevent list" where
  "bdemo_chain = [bdemo_group, bdemo_launch 0 False [], bdemo_launch 0 False [0], BFlush 1,
     bdemo_launch 0 False []]"

lemma bdemo_chain_run:
  "map_option (\<lambda>c. (n_tasks (rt c), map (\<lambda>t. state_of (rt c) t) [0, 1, 2],
       map (\<lambda>t. predecessors (tasks (rt c) t)) [0, 1, 2],
       map (\<lambda>t. (tk_signal (tasks (rt c) t), tk_kernarg_index (tasks (rt c) t))) [0, 1, 2],
       map (\<lambda>t. (tk_group (tasks (rt c) t), impl_of (kernels (rt c)) (tasks (rt c) t))) [0, 1, 2],
       n_impls (rt c), (handlers (rt c), dispatched_tasks (groups (rt c) 0),
       dispatched_sink (groups (rt c) 0), created_tasks (groups (rt c) 0))))
     (bfire_all demo_env bdemo_chain (bdemo_config [100, 101, 102] [0, 1, 2])) =
   Some (3, [ATMI_DISPATCHED, ATMI_DISPATCHED, ATMI_DISPATCHED], [[], [0], []],
     [(100, 0), (101, 1), (102, 2)], [(Some 0, Some 0), (Some 0, Some 0), (Some 0, Some 0)], 1,
     ([HandleBatch 2 [0, 1]], [2], [2], []))"
  unfolding bdemo_chain_def bdemo_group_def bdemo_launch_def by code_simp

text \<open>Two groups and one signal: the task of the second group does not get it.\<close>

definition bdemo_stranded :: "bevent list" where
  "bdemo_stranded = [bdemo_group, bdemo_group, bdemo_launch 0 False [], bdemo_launch 1 False [],
     BFlush 0, BHandler 0]"

lemma bdemo_stranded_run:
  "map_option (\<lambda>c. (n_tasks (rt c), map (\<lambda>t. state_of (rt c) t) [0, 1], tk_group (tasks (rt c) 1),
       (first_dispatched (groups (rt c) 1), dispatched_tasks (groups (rt c) 1)), handlers (rt c),
       FreeSignalPool (rt c), free_kernarg_segments (impls (rt c) 0)))
     (bfire_all demo_env bdemo_stranded (bdemo_config [100] [0, 1])) =
   Some (2, [ATMI_COMPLETED, ATMI_INITIALIZED], Some 1, (True, []), [], [100], [1, 0])"
  unfolding bdemo_stranded_def bdemo_group_def bdemo_launch_def by code_simp

section \<open>Guarantees\<close>

text \<open>
  C9. The barrier mode shares neither completion signals nor kernarg segments: when those the
  pools were created with are distinct, two running tasks have different signals, which are not
  free, and two running tasks of an implementation have different segments, which are not free.
\<close>

theorem barrier_resources_exclusive:
  assumes "breachable E A B c" and "\<And>x. Multiset.count A x \<le> 1" "\<And>p x. Multiset.count (B p) x \<le> 1"
    and "t < n_tasks (rt c)" "u < n_tasks (rt c)" "t \<noteq> u"
    and "active (tasks (rt c) t)" "active (tasks (rt c) u)"
  shows "tk_signal (tasks (rt c) t) \<noteq> tk_signal (tasks (rt c) u) \<and>
    tk_signal (tasks (rt c) t) \<notin> set (FreeSignalPool (rt c)) \<and>
    (\<forall>p < n_impls (rt c). impl_of (kernels (rt c)) (tasks (rt c) t) = Some p \<longrightarrow>
       tk_kernarg_index (tasks (rt c) t) \<notin> set (free_kernarg_segments (impls (rt c) p)) \<and>
       (impl_of (kernels (rt c)) (tasks (rt c) u) = Some p \<longrightarrow>
          tk_kernarg_index (tasks (rt c) t) \<noteq> tk_kernarg_index (tasks (rt c) u)))"
proof -
  note T = tasks_invD(1) [OF breachable_parts(6) [OF assms(1)]]
  have sig: "sig_of (tasks (rt c) x) = {#tk_signal (tasks (rt c) x)#}"
    if "x < n_tasks (rt c)" "active (tasks (rt c) x)" for x
    using T [OF that(1)] that(2) by (simp add: sig_of_def)
  have "mset (FreeSignalPool (rt c)) + task_sum sig_of (rt c) = A"
    using breachable_parts(3) [OF assms(1)] by (simp add: signal_inv_def rq.conserved_def)
  note s = distinct_partition [OF this assms(2) assms(4) sig [OF assms(4, 7)]]
  have seg: "tk_kernarg_index (tasks (rt c) t) \<notin> set (free_kernarg_segments (impls (rt c) p)) \<and>
      (impl_of (kernels (rt c)) (tasks (rt c) u) = Some p \<longrightarrow>
          tk_kernarg_index (tasks (rt c) t) \<noteq> tk_kernarg_index (tasks (rt c) u))"
    if p: "p < n_impls (rt c)" "impl_of (kernels (rt c)) (tasks (rt c) t) = Some p" for p
  proof -
    have "mset (free_kernarg_segments (impls (rt c) p)) +
        task_sum (seg_of (kernels (rt c)) p) (rt c) = B p"
      using breachable_parts(4) [OF assms(1)] p(1) by (simp add: segment_inv_def rq.conserved_def)
    moreover have "seg_of (kernels (rt c)) p (tasks (rt c) t) = {#tk_kernarg_index (tasks (rt c) t)#}"
      using assms(7) p(2) by (simp add: seg_of_def)
    ultimately show ?thesis
      using distinct_partition [of _ "seg_of (kernels (rt c)) p" "rt c" "B p" t] assms(3-6, 8)
      by (metis seg_of_def)
  qed
  show ?thesis using s(1) s(2) [OF assms(5) _ sig [OF assms(5, 8)]] assms(6) seg by metis
qed

theorem barrier_resources_exclusive_witness:
  "\<exists>c. breachable demo_env {#100, 101, 102#} (\<lambda>_. {#0, 1, 2#}) c \<and>
     state_of (rt c) 0 = ATMI_DISPATCHED \<and> state_of (rt c) 1 = ATMI_DISPATCHED \<and>
     tk_signal (tasks (rt c) 0) \<noteq> tk_signal (tasks (rt c) 1) \<and>
     tk_kernarg_index (tasks (rt c) 0) \<noteq> tk_kernarg_index (tasks (rt c) 1)"
proof -
  obtain c where c: "breachable demo_env (mset [100, 101, 102]) (\<lambda>_. mset [0, 1, 2]) c"
    "n_tasks (rt c) = 3" "state_of (rt c) 0 = ATMI_DISPATCHED" "state_of (rt c) 1 = ATMI_DISPATCHED"
    "impl_of (kernels (rt c)) (tasks (rt c) 0) = Some 0"
    "impl_of (kernels (rt c)) (tasks (rt c) 1) = Some 0" "n_impls (rt c) = 1"
    using bdemo_run [OF bdemo_chain_run] by auto
  have "tk_signal (tasks (rt c) 0) \<noteq> tk_signal (tasks (rt c) 1) \<and>
      tk_kernarg_index (tasks (rt c) 0) \<noteq> tk_kernarg_index (tasks (rt c) 1)"
    using barrier_resources_exclusive [OF c(1), of 0 1] c by (simp add: active_iff)
  then show ?thesis using c by auto
qed

text \<open>
  C7. No task overtakes what it requires: in every reachable configuration of the barrier mode a
  task that was given its resources has all its required tasks handed to HSA, and each of them
  is executed or among the tasks that the task's barrier packets wait for.
\<close>

theorem barrier_requirements_queued:
  assumes "breachable E A B c" and "t < n_tasks (rt c)" "ATMI_READY \<le> state_of (rt c) t"
    and "p \<in> set (predecessors (tasks (rt c) t))"
  shows "ATMI_DISPATCHED \<le> state_of (rt c) p \<and>
    (ATMI_EXECUTED \<le> state_of (rt c) p \<or> p \<in> set (and_predecessors (tasks (rt c) t)))"
  using breachable_parts(2) [OF assms(1)] assms(2-4) by (auto simp: order_inv_def ready_ok_def)

theorem barrier_requirements_queued_witness:
  "\<exists>c. breachable demo_env {#100, 101, 102#} (\<lambda>_. {#0, 1, 2#}) c \<and>
     state_of (rt c) 0 = ATMI_DISPATCHED \<and> state_of (rt c) 1 = ATMI_DISPATCHED \<and>
     0 \<in> set (and_predecessors (tasks (rt c) 1))"
proof -
  obtain c where c: "breachable demo_env (mset [100, 101, 102]) (\<lambda>_. mset [0, 1, 2]) c"
    "n_tasks (rt c) = 3" "state_of (rt c) 0 = ATMI_DISPATCHED" "state_of (rt c) 1 = ATMI_DISPATCHED"
    "predecessors (tasks (rt c) 1) = [0]"
    using bdemo_run [OF bdemo_chain_run] by auto
  have "ATMI_EXECUTED \<le> state_of (rt c) 0 \<or> 0 \<in> set (and_predecessors (tasks (rt c) 1))"
    using barrier_requirements_queued [OF c(1), of 1 0] c by (simp add: state_order)
  then show ?thesis using c by (auto simp: state_order)
qed


text \<open>
  C8. What a task requires goes to its queue first: when a compute task with one packet gets its
  resources, the calls of the runtime end with the reservation of that packet; on the packet's
  queue, and on no other, barrier packets were written before whose signals include the
  completion signal of every required task that is not executed.
\<close>

theorem granted_task_behind_barriers:
  assumes "barrier_grant E t g args s = Some s'" and "dep_sync s = ATL_SYNC_BARRIER_PKT"
    and "tk_type (tasks s t) = ATL_KERNEL_EXECUTION" and "one_packet (tasks s t)"
    and "t \<notin> set (predecessors (tasks s t))"
  shows "\<exists>cs q i. hsa_log s' = hsa_log s @ cs @
      [SignalAdd (tk_signal (tasks s' t)) 1, AddWriteIndex q, WaitSlot q i] \<and> writes_only q cs \<and>
    tk_packets (tasks s' t) = tk_packets (tasks s t) @ [(q, i)] \<and>
    (\<forall>p \<in> set (predecessors (tasks s t)). state_of s p < ATMI_EXECUTED \<longrightarrow>
       tk_signal (tasks s p) \<in> set (concat (map bp_dep_signal (barriers_of cs))))"
  by (rule barrier_grant_log [OF assms])

text \<open>A task that was created and not activated, and requires a running task.\<close>

lemma bdemo_grant_run:
  "map_option (\<lambda>c. (dep_sync (rt c), tk_type (tasks (rt c) 1), one_packet (tasks (rt c) 1),
       predecessors (tasks (rt c) 1), state_of (rt c) 0, tk_signal (tasks (rt c) 0),
       barrier_grant demo_env 1 0 None (rt c) \<noteq> None))
     (bfire_all demo_env [bdemo_group, bdemo_launch 0 False [],
        BCreate (demo_lparm 0 False False [0] []) 1 (Some [[3, 4]])] (bdemo_config [100, 101] [0, 1])) =
   Some (ATL_SYNC_BARRIER_PKT, ATL_KERNEL_EXECUTION, True, [0], ATMI_DISPATCHED, 100, True)"
  unfolding bdemo_group_def bdemo_launch_def by code_simp

theorem granted_task_behind_barriers_witness:
  "\<exists>c s'. breachable demo_env {#100, 101#} (\<lambda>_. {#0, 1#}) c \<and>
     barrier_grant demo_env 1 0 None (rt c) = Some s' \<and> state_of (rt c) 0 = ATMI_DISPATCHED \<and>
     100 \<in> set (concat (map bp_dep_signal (barriers_of (hsa_log s'))))"
proof -
  obtain c where c: "breachable demo_env (mset [100, 101]) (\<lambda>_. mset [0, 1]) c"
    "dep_sync (rt c) = ATL_SYNC_BARRIER_PKT" "tk_type (tasks (rt c) 1) = ATL_KERNEL_EXECUTION"
    "one_packet (tasks (rt c) 1)" "predecessors (tasks (rt c) 1) = [0]"
    "state_of (rt c) 0 = ATMI_DISPATCHED" "tk_signal (tasks (rt c) 0) = 100"
    "barrier_grant demo_env 1 0 None (rt c) \<noteq> None"
    using bdemo_run [OF bdemo_grant_run] by auto
  then obtain s' where s': "barrier_grant demo_env 1 0 None (rt c) = Some s'" by blast
  obtain cs q i where "hsa_log s' = hsa_log (rt c) @ cs @
      [SignalAdd (tk_signal (tasks s' 1)) 1, AddWriteIndex q, WaitSlot q i]"
    "100 \<in> set (concat (map bp_dep_signal (barriers_of cs)))"
    using granted_task_behind_barriers [OF s' c(2, 3, 4)] c(5-7) by (auto simp: state_order)
  then have "100 \<in> set (concat (map bp_dep_signal (barriers_of (hsa_log s'))))" by simp
  then show ?thesis using s' c(1, 6) by (intro exI [of _ c] exI [of _ s']) simp
qed

text \<open>
  C10. Every running task will be retired once: it is in one batch of one registered handler, or
  it is listed as dispatched in its group and no batch has it. In a group whose dispatched tasks
  follow each other only where the later one depends on the earlier one, a chain of dependencies
  leads from a sink of the group to it, so the barrier over the sinks, which precedes the handler,
  stands for it. (Two copies of an ordered group in a row are outside: the second does not depend
  on the first, and no sink stands for the first.)
\<close>

theorem running_tasks_covered:
  assumes "breachable E A B c" and "t < n_tasks (rt c)"
    and "state_of (rt c) t = ATMI_READY \<or> state_of (rt c) t = ATMI_DISPATCHED"
  shows "distinct (batch_tasks (handlers (rt c))) \<and>
    (t \<in> set (batch_tasks (handlers (rt c))) \<longleftrightarrow> \<not> (\<exists>g. t \<in> set (dispatched_tasks (groups (rt c) g)))) \<and>
    (\<forall>g. t \<in> set (dispatched_tasks (groups (rt c) g)) \<longrightarrow> tk_group (tasks (rt c) t) = Some g \<and>
       ((\<forall>u \<in> set (dispatched_tasks (groups (rt c) g)). \<forall>x \<in> set (dispatched_tasks (groups (rt c) g)).
           prev_ordered (tasks (rt c) u) = Some x \<longrightarrow> depends_on (rt c) u x) \<longrightarrow>
        (\<exists>u \<in> set (dispatched_sink (groups (rt c) g)). (depends_on (rt c))\<^sup>*\<^sup>* u t)))"
proof -
  note L = lists_invD [OF breachable_parts(5) [OF assms(1)]]
  have own: "owned [] (rt c) = batch_tasks (handlers (rt c))" by (simp add: owned_def)
  have "t \<in> set (owned [] (rt c)) \<or> (\<exists>g. t \<in> set (dispatched_tasks (groups (rt c) g)))"
    using tasks_invD(3) [OF breachable_parts(6) [OF assms(1)] assms(2)] assms(3) by (simp add: live_def)
  then show ?thesis using L(2, 5) covered_depends [OF L(6)] unfolding own by blast
qed

text \<open>Two tasks, the second of which requires the first; both wait for a batch.\<close>

lemma bdemo_pair_run:
  "map_option (\<lambda>c. (n_tasks (rt c), map (\<lambda>t. state_of (rt c) t) [0, 1],
       map (\<lambda>t. prev_ordered (tasks (rt c) t)) [0, 1],
       (dispatched_tasks (groups (rt c) 0), dispatched_sink (groups (rt c) 0))))
     (bfire_all demo_env [bdemo_group, bdemo_launch 0 False [], bdemo_launch 0 False [0]]
        (bdemo_config [100, 101, 102] [0, 1, 2])) =
   Some (2, [ATMI_DISPATCHED, ATMI_DISPATCHED], [None, None], ([0, 1], [1]))"
  unfolding bdemo_group_def bdemo_launch_def by code_simp

theorem running_tasks_covered_witness:
  "\<exists>c. breachable demo_env {#100, 101, 102#} (\<lambda>_. {#0, 1, 2#}) c \<and>
     state_of (rt c) 0 = ATMI_DISPATCHED \<and> state_of (rt c) 1 = ATMI_DISPATCHED \<and>
     dispatched_sink (groups (rt c) 0) = [1] \<and> (depends_on (rt c))\<^sup>*\<^sup>* 1 0"
proof -
  obtain c where c: "breachable demo_env (mset [100, 101, 102]) (\<lambda>_. mset [0, 1, 2]) c"
    "n_tasks (rt c) = 2" "state_of (rt c) 0 = ATMI_DISPATCHED" "state_of (rt c) 1 = ATMI_DISPATCHED"
    "prev_ordered (tasks (rt c) 0) = None" "prev_ordered (tasks (rt c) 1) = None"
    "dispatched_tasks (groups (rt c) 0) = [0, 1]" "dispatched_sink (groups (rt c) 0) = [1]"
    using bdemo_run [OF bdemo_pair_run] by auto
  have "\<forall>g. 0 \<in> set (dispatched_tasks (groups (rt c) g)) \<longrightarrow> tk_group (tasks (rt c) 0) = Some g \<and>
      ((\<forall>u \<in> set (dispatched_tasks (groups (rt c) g)). \<forall>x \<in> set (dispatched_tasks (groups (rt c) g)).
           prev_ordered (tasks (rt c) u) = Some x \<longrightarrow> depends_on (rt c) u x) \<longrightarrow>
       (\<exists>u \<in> set (dispatched_sink (groups (rt c) g)). (depends_on (rt c))\<^sup>*\<^sup>* u 0))"
    using running_tasks_covered [OF c(1), of 0] c(2, 3) by simp
  then have "\<exists>u \<in> {1}. (depends_on (rt c))\<^sup>*\<^sup>* u 0"
    using c(5-8) by (elim allE [of _ 0]) auto
  then show ?thesis using c by auto
qed

text \<open>
  Draining the created tasks ends: in a reachable configuration one round more than the group
  has created tasks is enough, and any larger bound on the loop gives the same result.
\<close>

lemma created_drain_terminates:
  assumes "breachable E A B c" and "tk_group (tasks (rt c) t) = Some g"
    and "length (created_tasks (groups (rt c) g)) < n"
  shows "created_loop n E t isC (rt c) =
    created_loop (Suc (length (created_tasks (groups (rt c) g)))) E t isC (rt c)"
proof -
  let ?m = "Suc (length (created_tasks (groups (rt c) g)))"
  have "created_loop (?m + (n - ?m)) E t isC (rt c) = created_loop ?m E t isC (rt c)"
    by (rule created_loop_fuel [OF breachable_parts(1) [OF assms(1)] assms(2)]) simp
  then show ?thesis using assms(3) by simp
qed

text \<open>Three tasks were created and not activated; two signals.\<close>

lemma bdemo_created_run:
  "map_option (\<lambda>c. (tk_group (tasks (rt c) 0), length (created_tasks (groups (rt c) 0)),
       map_option (\<lambda>(w, s). (w, map (\<lambda>t. state_of s t) [0, 1, 2], handlers s))
         (created_loop 4 demo_env 0 True (rt c))))
     (bfire_all demo_env (bdemo_group # replicate 3
        (BCreate (demo_lparm 0 False False [] []) 1 (Some [[3, 4]]))) (bdemo_config [100, 101] [0, 1, 2])) =
   Some (Some 0, 3, Some (NoWait, [ATMI_DISPATCHED, ATMI_DISPATCHED, ATMI_INITIALIZED],
     [HandleBatch 2 [0, 1]]))"
  unfolding bdemo_group_def by code_simp

lemma created_drain_terminates_witness:
  "\<exists>c s. breachable demo_env {#100, 101#} (\<lambda>_. {#0, 1, 2#}) c \<and>
     created_loop 9 demo_env 0 True (rt c) = Some (NoWait, s) \<and>
     state_of s 1 = ATMI_DISPATCHED \<and> handlers s = [HandleBatch 2 [0, 1]]"
proof -
  obtain c s where c: "breachable demo_env (mset [100, 101]) (\<lambda>_. mset [0, 1, 2]) c"
    "tk_group (tasks (rt c) 0) = Some 0" "length (created_tasks (groups (rt c) 0)) = 3"
    "created_loop 4 demo_env 0 True (rt c) = Some (NoWait, s)"
    "state_of s 1 = ATMI_DISPATCHED" "handlers s = [HandleBatch 2 [0, 1]]"
    using bdemo_run [OF bdemo_created_run] by (auto simp del: created_loop.simps)
  have "created_loop 9 demo_env 0 True (rt c) = created_loop (Suc 3) demo_env 0 True (rt c)"
    using created_drain_terminates [OF c(1, 2), of 9] c(3) by (simp del: created_loop.simps)
  then show ?thesis using c by (auto simp del: created_loop.simps)
qed

section \<open>What is left behind\<close>

text \<open>
  C11. A group that could not dispatch its first task is stuck for good: once a group has nothing
  dispatched, no batch of a registered handler has a task of it, and its flag says that a handler
  will take over, no sequence of calls and handlers dispatches any of the tasks that the group has
  created, however many signals and segments become free.
\<close>

theorem stranded_tasks_never_run:
  assumes "breachable E A B c" and "t < n_tasks (rt c)" "tk_group (tasks (rt c) t) = Some g"
    and "state_of (rt c) t < ATMI_READY" and "first_dispatched (groups (rt c) g)"
    and "dispatched_tasks (groups (rt c) g) = []"
    and "\<forall>u \<in> set (batch_tasks (handlers (rt c))). tk_group (tasks (rt c) u) \<noteq> Some g"
    and "(bstep E)\<^sup>*\<^sup>* c c'"
  shows "state_of (rt c') t < ATMI_READY"
proof -
  have "elsewhere g (rt c) h" if "h \<in> set (handlers (rt c))" for h
    using assms(7) that by (fastforce simp: elsewhere_def batch_tasks_iff split: async_handler.split)
  then have "stranded g t (rt c)" using assms(2-6) by (simp add: stranded_def)
  from stranded_forever [OF assms(8) breachable_ok [OF assms(1)] this] show ?thesis
    by (simp add: stranded_def)
qed

text \<open>
  Two groups and one signal: the task of the second group comes when the signal is taken, and is
  not looked at when it is free again.
\<close>

theorem stranded_tasks_never_run_witness:
  "\<exists>c. breachable demo_env {#100#} (\<lambda>_. {#0, 1#}) c \<and> FreeSignalPool (rt c) = [100] \<and>
     free_kernarg_segments (impls (rt c) 0) = [1, 0] \<and> handlers (rt c) = [] \<and>
     state_of (rt c) 0 = ATMI_COMPLETED \<and> state_of (rt c) 1 = ATMI_INITIALIZED \<and>
     {c'. (bstep demo_env)\<^sup>*\<^sup>* c c'} \<subseteq> {c'. state_of (rt c') 1 < ATMI_READY}"
proof -
  obtain c where c: "breachable demo_env (mset [100]) (\<lambda>_. mset [0, 1]) c"
    "n_tasks (rt c) = 2" "state_of (rt c) 0 = ATMI_COMPLETED" "state_of (rt c) 1 = ATMI_INITIALIZED"
    "tk_group (tasks (rt c) 1) = Some 1" "first_dispatched (groups (rt c) 1)"
    "dispatched_tasks (groups (rt c) 1) = []" "handlers (rt c) = []"
    "FreeSignalPool (rt c) = [100]" "free_kernarg_segments (impls (rt c) 0) = [1, 0]"
    using bdemo_run [OF bdemo_stranded_run] by auto
  have "state_of (rt c') 1 < ATMI_READY" if "(bstep demo_env)\<^sup>*\<^sup>* c c'" for c'
    by (rule stranded_tasks_never_run [OF c(1) _ c(5) _ c(6, 7) _ that])
       (use c in \<open>simp_all add: state_order\<close>)
  then show ?thesis using c by auto
qed


section \<open>Runs that go wrong\<close>

text \<open>
  A launch dispatches the first of the created tasks, which need not be its own: a synchronous
  launch after a creation waits for a task that nobody dispatches, and no handler is registered.
\<close>

lemma launch_dispatches_other_task:
  "map_option (\<lambda>c. (map (\<lambda>t. state_of (rt c) t) [0, 1], created_tasks (groups (rt c) 0),
       handlers (rt c), waiting c))
     (bfire_all demo_env [bdemo_group, BCreate (demo_lparm 0 False False [] []) 1 (Some [[3, 4]]),
        bdemo_launch 0 True []] (bdemo_config [100, 101] [0, 1])) =
   Some ([ATMI_DISPATCHED, ATMI_UNINITIALIZED], [1], [], [AwaitTask 1])"
  unfolding bdemo_group_def bdemo_launch_def by code_simp

text \<open>
  A handler that retires a synchronous task stops after one dispatch, and the tasks created
  behind it wait although no handler is registered and the group says that one is.
\<close>

lemma drain_stops_at_synchronous:
  "map_option (\<lambda>c. (map (\<lambda>t. state_of (rt c) t) [0, 1, 2], first_dispatched (groups (rt c) 0),
       dispatched_tasks (groups (rt c) 0), created_tasks (groups (rt c) 0), handlers (rt c), stuck c))
     (bfire_all demo_env [bdemo_group, bdemo_launch 0 True [], BFlush 0, bdemo_launch 0 False [],
        bdemo_launch 0 False [], BHandler 0, BHandlerWait 0] (bdemo_config [100] [0, 1])) =
   Some ([ATMI_COMPLETED, ATMI_DISPATCHED, ATMI_UNINITIALIZED], True, [1], [2], [], NoWait)"
  unfolding bdemo_group_def bdemo_launch_def by code_simp

text \<open>All batches wait for the same signal, here two batches with number 2.\<close>

lemma batches_share_signal:
  "map_option (\<lambda>c. (map (\<lambda>t. state_of (rt c) t) [0, 1], handlers (rt c)))
     (bfire_all demo_env [bdemo_group, bdemo_launch 0 False [], BFlush 0, bdemo_launch 0 False [],
        BFlush 1] (bdemo_config [100, 101] [0, 1])) =
   Some ([ATMI_DISPATCHED, ATMI_DISPATCHED], [HandleBatch 2 [0], HandleBatch 2 [1]])"
  unfolding bdemo_group_def bdemo_launch_def by code_simp

text \<open>
  The packets of a CPU task with several threads go to several queues and the barrier packet to
  one of them: here thread packets on the queues 40 and 41 and the barrier on 41 only.
\<close>

fun written :: "hsa_call \<Rightarrow> (qid \<times> signal list) option" where
  "written (WritePacket q i (BarrierPacket b)) = Some (q, bp_dep_signal b)"
| "written (WritePacket q i p) = Some (q, [])"
| "written c = None"

lemma barrier_on_one_cpu_queue:
  "map_option (\<lambda>c. (map fst (tk_packets (tasks (rt c) 1)), predecessors (tasks (rt c) 1),
       filter (\<lambda>(q, d). d \<noteq> []) (List.map_filter written (hsa_log (rt c)))))
     (bfire_all demo_env [bdemo_group, bdemo_launch 0 False [],
        BLaunch ((demo_lparm 0 False False [0] [])\<lparr>lp_gridDim := (2, 1, 1)\<rparr>) 1 (Some [[3, 4]])]
        (bdemo_config [100, 101] [0, 1])) =
   Some ([40, 41], [0], [(41, [100])])"
  unfolding bdemo_group_def bdemo_launch_def by code_simp

text \<open>
  Two copies of an ordered group: the second one does not wait for the first, which is no sink any
  more, so neither the copy engine nor the handler's barrier stands for it.
\<close>

definition bdemo_copy :: bevent where
  "bdemo_copy = BCopy \<lparr>cp_group = 0, cp_groupable = False, cp_profilable = False,
     cp_synchronous = False, cp_requires = [], cp_required_groups = [], cp_task_info = None\<rparr>
     0x2000 0x1000 64"

lemma ordered_copies_unordered:
  "map_option (\<lambda>c. (map (\<lambda>t. state_of (rt c) t) [0, 1], prev_ordered (tasks (rt c) 1),
       and_predecessors (tasks (rt c) 1), dispatched_sink (groups (rt c) 0)))
     (bfire_all demo_env [BGroupCreate True ATMI_DEFAULT_PLACE, bdemo_copy, bdemo_copy]
        (bdemo_config [100, 101] [])) =
   Some ([ATMI_DISPATCHED, ATMI_DISPATCHED], Some 0, [], [1])"
  unfolding bdemo_copy_def by code_simp

end
