(* ===== verification/Memory_API.thy ===== *)
theory Memory_API
  imports Data_Map "HOL-Library.Monad_Syntax"
begin

text \<open>
  The memory calls of the API (\<open>Malloc\<close>, \<open>Memfree\<close> and \<open>Memcpy\<close> of \<open>core/data.cpp\<close>) and the
  copying that an asynchronous copy task does, staging thread included. All memory is one array
  of bytes; the parts of it that are in use are a list of blocks. The allocator of the HSA memory
  pools and its asynchronous copy are parameters, and \<open>None\<close> is an exit of the program.
\<close>

section \<open>Memory\<close>

text \<open>Address, size and whether the block was allocated from a pool.\<close>

type_synonym block = "u64 \<times> u64 \<times> bool"

text \<open>Which agent can access which address.\<close>

type_synonym access_rel = "u64 \<Rightarrow> u64 \<Rightarrow> bool"

text \<open>
  The blocks in use, the pool and the size give the address of a new block and the agents that
  can access it before HSA is asked to let others do so.
\<close>

type_synonym allocator = "block list \<Rightarrow> u64 \<Rightarrow> u64 \<Rightarrow> (u64 \<times> (u64 \<Rightarrow> bool)) option"

text \<open>
  \<open>hsa_amd_memory_async_copy\<close> together with the wait for its signal: destination and its agent,
  source and its agent, the number of bytes, who can access what, and the bytes of memory before
  and after.
\<close>

type_synonym copier =
  "u64 \<Rightarrow> u64 \<Rightarrow> u64 \<Rightarrow> u64 \<Rightarrow> u64 \<Rightarrow> access_rel \<Rightarrow> (u64 \<Rightarrow> u8) \<Rightarrow> (u64 \<Rightarrow> u8) option"

record mem_state =
  heap :: "u64 \<Rightarrow> u8"
  blocks :: "block list"
  access :: access_rel
  alloc_map :: tracker

definition copy_bytes :: "u64 \<Rightarrow> u64 \<Rightarrow> u64 \<Rightarrow> (u64 \<Rightarrow> u8) \<Rightarrow> u64 \<Rightarrow> u8" where
  "copy_bytes dst src n h = (\<lambda>a. if a - dst < n then h (src + (a - dst)) else h a)"

definition mem_copy :: "u64 \<Rightarrow> u64 \<Rightarrow> u64 \<Rightarrow> mem_state \<Rightarrow> mem_state" where
  "mem_copy dst src n st = st\<lparr>heap := copy_bytes dst src n (heap st)\<rparr>"

definition async_copy ::
  "copier \<Rightarrow> u64 \<Rightarrow> u64 \<Rightarrow> u64 \<Rightarrow> u64 \<Rightarrow> u64 \<Rightarrow> mem_state \<Rightarrow> mem_state option" where
  "async_copy sdma dest dest_agent src src_agent n st =
     map_option (\<lambda>h. st\<lparr>heap := h\<rparr>) (sdma dest dest_agent src src_agent n (access st) (heap st))"

section \<open>The calls\<close>

definition cpu_agents :: "ATLMachine \<Rightarrow> u64 list" where
  "cpu_agents mc = map p_agent (cpu_processors mc)"

definition gpu_agents :: "ATLMachine \<Rightarrow> u64 list" where
  "gpu_agents mc = map p_agent (gpu_processors mc)"

text \<open>HSA lets all GPUs access the block of \<open>n\<close> bytes that starts at the pointer.\<close>

definition allow_access_to_all_gpu_agents :: "ATLMachine \<Rightarrow> u64 \<Rightarrow> u64 \<Rightarrow> mem_state \<Rightarrow> mem_state" where
  "allow_access_to_all_gpu_agents mc ptr n st =
     st\<lparr>access := (\<lambda>a q. access st a q \<or> q - ptr < n \<and> a \<in> set (gpu_agents mc))\<rparr>"

text \<open>The last line is the end of \<open>register_allocation\<close>.\<close>

definition Malloc ::
  "ATLMachine \<Rightarrow> allocator \<Rightarrow> u64 \<Rightarrow> atmi_mem_place_t \<Rightarrow> mem_state \<Rightarrow> (u64 \<times> mem_state) option" where
  "Malloc mc alloc size_bytes place st =
     do {
       pool \<leftarrow> get_memory_pool_by_mem_place mc place;
       (ptr, dflt) \<leftarrow> alloc (blocks st) pool size_bytes;
       let st = st\<lparr>blocks := blocks st @ [(ptr, size_bytes, True)],
         access := (\<lambda>a q. if q - ptr < size_bytes then dflt a else access st a q),
         alloc_map := register_allocation ptr size_bytes place (alloc_map st)\<rparr>;
       Some (ptr, if dev_type place = ATMI_DEVTYPE_CPU
                  then allow_access_to_all_gpu_agents mc ptr size_bytes st else st)
     }"

text \<open>
  HSA refuses to free what is not the start of a block that it allocated; nobody can access the
  addresses of a freed block.
\<close>

fun in_block :: "block \<Rightarrow> u64 \<Rightarrow> bool" where
  "in_block (p, n, _) a \<longleftrightarrow> unat p \<le> unat a \<and> unat a < unat p + unat n"

definition Memfree :: "u64 \<Rightarrow> mem_state \<Rightarrow> (atmi_status_t \<times> mem_state) option" where
  "Memfree ptr st =
     (case tracker_find ptr (alloc_map st) of
        None \<Rightarrow> None
      | Some data \<Rightarrow>
          let st = st\<lparr>alloc_map := tracker_remove ptr (alloc_map st)\<rparr> in
          map_option (\<lambda>b. (ATMI_STATUS_SUCCESS, st\<lparr>blocks := remove1 b (blocks st),
              access := (\<lambda>a q. access st a q \<and> \<not> in_block b q)\<rparr>))
            (find (\<lambda>(p, n, pooled). p = ptr \<and> pooled) (blocks st)))"

abbreviation cpu_place :: atmi_mem_place_t where
  "cpu_place \<equiv> ATMI_MEM_PLACE_CPU_MEM 0 0 0"

definition Memcpy ::
  "ATLMachine \<Rightarrow> allocator \<Rightarrow> copier \<Rightarrow> u64 \<Rightarrow> u64 \<Rightarrow> u64 \<Rightarrow> mem_state \<Rightarrow>
   (atmi_status_t \<times> mem_state) option" where
  "Memcpy mc alloc sdma dest src size_bytes st =
     do {
       cpu_agent \<leftarrow> get_mem_agent mc cpu_place;
       case (tracker_find src (alloc_map st), tracker_find dest (alloc_map st)) of
         (Some src_data, None) \<Rightarrow>
           do {
             src_agent \<leftarrow> get_mem_agent mc (data_place src_data);
             (temp, st) \<leftarrow> Malloc mc alloc size_bytes cpu_place st;
             st \<leftarrow> async_copy sdma temp cpu_agent src src_agent size_bytes st;
             Memfree temp (mem_copy dest temp size_bytes st)
           }
       | (None, Some dest_data) \<Rightarrow>
           do {
             dest_agent \<leftarrow> get_mem_agent mc (data_place dest_data);
             (temp, st) \<leftarrow> Malloc mc alloc size_bytes cpu_place st;
             st \<leftarrow> async_copy sdma dest dest_agent temp cpu_agent size_bytes
                     (mem_copy temp src size_bytes st);
             Memfree temp st
           }
       | (None, None) \<Rightarrow>
           do {
             st \<leftarrow> async_copy sdma dest cpu_agent src cpu_agent size_bytes st;
             Some (ATMI_STATUS_SUCCESS, st)
           }
       | (Some src_data, Some dest_data) \<Rightarrow>
           do {
             src_agent \<leftarrow> get_mem_agent mc (data_place src_data);
             dest_agent \<leftarrow> get_mem_agent mc (data_place dest_data);
             st \<leftarrow> async_copy sdma dest dest_agent src src_agent size_bytes st;
             Some (ATMI_STATUS_SUCCESS, st)
           }
     }"

text \<open>The thread that \<open>DataTaskImpl::dispatch\<close> starts for a copy between host and device.\<close>

definition staging_thread ::
  "ATLMachine \<Rightarrow> allocator \<Rightarrow> copier \<Rightarrow> Direction \<Rightarrow> u64 \<Rightarrow> u64 \<Rightarrow> u64 \<Rightarrow> u64 \<Rightarrow> u64 \<Rightarrow> mem_state \<Rightarrow>
   (atmi_status_t \<times> mem_state) option" where
  "staging_thread mc alloc sdma dir dst src size_bytes src_agent dest_agent st =
     do {
       (temp, st) \<leftarrow> Malloc mc alloc size_bytes cpu_place st;
       let st = (if dir = ATMI_H2D then mem_copy temp src size_bytes st else st);
       let (src_ptr, dest_ptr) = (if dir = ATMI_H2D then (temp, dst) else (src, temp));
       st \<leftarrow> async_copy sdma dest_ptr dest_agent src_ptr src_agent size_bytes st;
       let st = (if dir = ATMI_D2H then mem_copy dst temp size_bytes st else st);
       Memfree temp st
     }"

definition task_copy ::
  "ATLMachine \<Rightarrow> allocator \<Rightarrow> copier \<Rightarrow> u64 \<Rightarrow> u64 \<Rightarrow> u64 \<Rightarrow> mem_state \<Rightarrow>
   (atmi_status_t \<times> mem_state) option" where
  "task_copy mc alloc sdma dest src size_bytes st =
     do {
       let src_data = tracker_find src (alloc_map st);
       let dest_data = tracker_find dest (alloc_map st);
       let dir = copy_direction src_data dest_data;
       (src_agent, dest_agent) \<leftarrow> copy_agents mc src_data dest_data;
       if dir = ATMI_H2D \<or> dir = ATMI_D2H
       then staging_thread mc alloc sdma dir dest src size_bytes src_agent dest_agent st
       else do {
         st \<leftarrow> async_copy sdma dest dest_agent src src_agent size_bytes st;
         Some (ATMI_STATUS_SUCCESS, st)
       }
     }"

section \<open>Blocks\<close>

fun apart :: "block \<Rightarrow> block \<Rightarrow> bool" where
  "apart (p, n, _) (q, m, _) \<longleftrightarrow> unat p + unat n \<le> unat q \<or> unat q + unat m \<le> unat p"

fun block_ok :: "block \<Rightarrow> bool" where
  "block_ok (p, n, _) \<longleftrightarrow> n \<noteq> 0 \<and> unat p + unat n \<le> 2 ^ 64"

text \<open>
  What HSA documents: a block from a pool is not empty, lies in the address space and does not
  overlap a block in use.
\<close>

definition allocator_ok :: "allocator \<Rightarrow> bool" where
  "allocator_ok alloc \<longleftrightarrow> (\<forall>used pool n p dflt. alloc used pool n = Some (p, dflt) \<longrightarrow>
     block_ok (p, n, True) \<and> (\<forall>b \<in> set used. apart b (p, n, True)))"

fun block_range :: "block \<Rightarrow> ATLMemoryRange" where
  "block_range (p, n, _) = memory_range p n"

text \<open>
  And of who can access a block: the processor whose pool it is from, and, for a pool of a CPU,
  all CPUs.
\<close>

definition pools_ok :: "ATLMachine \<Rightarrow> allocator \<Rightarrow> bool" where
  "pools_ok mc alloc \<longleftrightarrow> (\<forall>place pool used n p dflt a.
     get_memory_pool_by_mem_place mc place = Some pool \<and> alloc used pool n = Some (p, dflt) \<and>
     (get_mem_agent mc place = Some a \<or>
      dev_type place = ATMI_DEVTYPE_CPU \<and> a \<in> set (cpu_agents mc)) \<longrightarrow> dflt a)"

text \<open>
  What HSA documents of a copy: for two ranges that do not overlap it copies the bytes when the
  destination's agent can access the destination and the source's agent the source, and one of
  the two, which does the copying, can access both.
\<close>

definition reaches :: "access_rel \<Rightarrow> u64 \<Rightarrow> u64 \<Rightarrow> u64 \<Rightarrow> bool" where
  "reaches acc a p n \<longleftrightarrow> (\<forall>q. in_block (p, n, False) q \<longrightarrow> acc a q)"

definition copier_ok :: "copier \<Rightarrow> bool" where
  "copier_ok sdma \<longleftrightarrow> (\<forall>dst da src sa n acc h.
     block_ok (dst, n, False) \<and> block_ok (src, n, False) \<and> apart (dst, n, False) (src, n, False) \<and>
     reaches acc da dst n \<and> reaches acc sa src n \<and> (reaches acc da src n \<or> reaches acc sa dst n) \<longrightarrow>
     sdma dst da src sa n acc h = Some (copy_bytes dst src n h))"

text \<open>
  The blocks do not overlap, every tracked range is a block in use and belongs to a processor of
  the machine, every block from a pool is tracked, and only blocks in use can be accessed.
\<close>

definition mem_inv :: "ATLMachine \<Rightarrow> mem_state \<Rightarrow> bool" where
  "mem_inv mc st \<longleftrightarrow> (\<forall>b \<in> set (blocks st). block_ok b) \<and> sorted_wrt apart (blocks st) \<and>
     tracker_wf (alloc_map st) \<and>
     (\<forall>e \<in> set (alloc_map st). fst e \<in> block_range ` set (blocks st) \<and>
        get_mem_agent mc (data_place (snd e)) \<noteq> None) \<and>
     (\<forall>b \<in> set (blocks st). snd (snd b) \<longrightarrow> block_range b \<in> fst ` set (alloc_map st)) \<and>
     (\<forall>a q. access st a q \<longrightarrow> (\<exists>b \<in> set (blocks st). in_block b q))"

text \<open>
  Who can access the blocks in use: the CPUs the memory that is not tracked, the processor of its
  place a tracked block, and all CPUs and GPUs a tracked block of a CPU.
\<close>

definition entry_access :: "ATLMachine \<Rightarrow> ATLData option \<Rightarrow> (u64 \<Rightarrow> bool) \<Rightarrow> bool" where
  "entry_access mc e can \<longleftrightarrow>
     (case e of
        None \<Rightarrow> \<forall>a \<in> set (cpu_agents mc). can a
      | Some d \<Rightarrow> (\<forall>a. get_mem_agent mc (data_place d) = Some a \<longrightarrow> can a) \<and>
          (dev_type (data_place d) = ATMI_DEVTYPE_CPU \<longrightarrow>
             (\<forall>a \<in> set (cpu_agents mc) \<union> set (gpu_agents mc). can a)))"

definition access_inv :: "ATLMachine \<Rightarrow> mem_state \<Rightarrow> bool" where
  "access_inv mc st \<longleftrightarrow> (\<forall>b \<in> set (blocks st). \<forall>q. in_block b q \<longrightarrow>
     entry_access mc (tracker_find q (alloc_map st)) (\<lambda>a. access st a q))"

lemma mem_inv_heap [simp]: "mem_inv mc (st\<lparr>heap := h\<rparr>) = mem_inv mc st"
  by (simp add: mem_inv_def)

lemma tracked_block:
  assumes "mem_inv mc st" and "e \<in> set (alloc_map st)"
  obtains b where "b \<in> set (blocks st)" and "fst e = block_range b"
  using assms unfolding mem_inv_def by blast

lemma apart_sym: "apart x y \<longleftrightarrow> apart y x"
  by (cases x; cases y) auto

lemma range_iff:
  fixes a p :: u64
  assumes "unat p + n \<le> 2 ^ 64"
  shows "unat (a - p) < n \<longleftrightarrow> unat p \<le> unat a \<and> unat a < unat p + n"
proof (cases "p \<le> a")
  case True
  then show ?thesis by (auto simp: unat_sub word_le_nat_alt)
next
  case False
  have "unat (a - p) = 2 ^ 64 + unat a - unat p"
    using False by (simp add: unat_sub_if' word_le_nat_alt)
  then show ?thesis using False assms by (simp add: word_le_nat_alt)
qed

lemma contains_block:
  assumes "block_ok b"
  shows "contains (block_range b) a \<longleftrightarrow> in_block b a"
proof -
  obtain p n k where b: "b = (p, n, k)" by (cases b)
  have pos: "0 < unat n" and fits: "unat p + unat n \<le> 2 ^ 64"
    using assms by (simp_all add: b unat_gt_0)
  then have "unat (n - 1) = unat n - 1" by (simp add: unat_sub word_le_nat_alt Suc_le_eq)
  moreover from this pos fits have "unat p + unat (n - 1) < 2 ^ 64" by linarith
  then have "unat (p + (n - 1)) = unat p + unat (n - 1)"
    using unat_add_lem [of p "n - 1"] by simp
  ultimately have "unat (p + n - 1) = unat p + (unat n - 1)" by (simp add: algebra_simps)
  then have "contains (block_range b) a \<longleftrightarrow> unat p \<le> unat a \<and> unat a \<le> unat p + (unat n - 1)"
    by (simp add: b contains_memory_range word_le_nat_alt)
  also have "\<dots> \<longleftrightarrow> unat p \<le> unat a \<and> unat a < unat p + unat n" using pos by linarith
  finally show ?thesis by (simp add: b)
qed

lemma in_block_iff:
  "block_ok (p, n, k) \<Longrightarrow> in_block (p, n, k) q \<longleftrightarrow> p \<le> q \<and> q \<le> p + n - 1"
  using contains_block [of "(p, n, k)" q] by (simp add: contains_memory_range)

lemma in_block_apart: "apart x y \<Longrightarrow> in_block x a \<Longrightarrow> \<not> in_block y a"
  by (cases x; cases y) auto

lemma in_block_start: "block_ok (p, n, k) \<Longrightarrow> in_block (p, n, k) p"
  by (simp add: unat_gt_0)

lemma blocks_apart:
  assumes "mem_inv mc st" and "x \<in> set (blocks st)" and "y \<in> set (blocks st)" and "x \<noteq> y"
  shows "apart x y"
proof -
  obtain i j where "i < length (blocks st)" "j < length (blocks st)" "blocks st ! i = x" "blocks st ! j = y"
    using assms(2, 3) by (metis in_set_conv_nth)
  moreover have "sorted_wrt apart (blocks st)" using assms(1) by (simp add: mem_inv_def)
  ultimately show ?thesis
    using assms(4) apart_sym sorted_wrt_nth_less [of apart "blocks st"]
    by (metis linorder_neqE_nat)
qed

lemma block_at:
  assumes "mem_inv mc st" and "x \<in> set (blocks st)" and "y \<in> set (blocks st)"
    and "in_block x a" and "in_block y a"
  shows "x = y"
  using blocks_apart [OF assms(1-3)] in_block_apart assms(4, 5) by blast

text \<open>Addresses of a block that does not overlap any other are not tracked.\<close>

lemma untracked:
  assumes "mem_inv mc st" and "\<forall>b \<in> set (blocks st). apart b x" and "in_block x q"
  shows "tracker_find q (alloc_map st) = None"
proof -
  have "\<not> contains (fst e) q" if e: "e \<in> set (alloc_map st)" for e
  proof -
    obtain b where b: "b \<in> set (blocks st)" "fst e = block_range b"
      by (rule tracked_block [OF assms(1) e])
    have "block_ok b" using assms(1) b(1) by (simp add: mem_inv_def)
    moreover have "\<not> in_block b q" using assms(2, 3) b(1) in_block_apart by blast
    ultimately show ?thesis using b(2) contains_block by simp
  qed
  then show ?thesis using assms(1) by (simp add: mem_inv_def tracker_find_none)
qed

section \<open>Allocating and freeing\<close>

lemma copied_range:
  "block_ok (p, n, k) \<Longrightarrow> a - p < n \<longleftrightarrow> in_block (p, n, k) a"
  using range_iff [of p "unat n" a] by (simp add: word_less_nat_alt)

lemma tracker_remove_fresh:
  assumes "\<forall>x \<in> set m. \<not> contains (fst x) p" and "contains r p"
  shows "filter (\<lambda>x. \<not> contains (fst x) p) (map_insert r d m) = m"
  using assms by (induction m) (auto simp: filter_id_conv)

lemma remove1_last: "x \<notin> set xs \<Longrightarrow> remove1 x (xs @ [x]) = xs"
  by (induction xs) auto

lemma find_append_none: "find P xs = None \<Longrightarrow> find P (xs @ [x]) = (if P x then Some x else None)"
  by (induction xs) (auto split: if_splits)

text \<open>Properties of a block that was just allocated.\<close>

lemma fresh_block:
  assumes "mem_inv mc st" and "allocator_ok alloc" and "alloc (blocks st) pool n = Some (p, dflt)"
  shows "block_ok (p, n, k)" and "\<forall>b \<in> set (blocks st). apart b (p, n, k)"
    and "in_block (p, n, k) q \<Longrightarrow> tracker_find q (alloc_map st) = None"
proof -
  show b: "block_ok (p, n, k)" and a: "\<forall>b \<in> set (blocks st). apart b (p, n, k)"
    using assms(2, 3) unfolding allocator_ok_def by force+
  show "in_block (p, n, k) q \<Longrightarrow> tracker_find q (alloc_map st) = None"
    by (rule untracked [OF assms(1) a])
qed

lemma not_below_block: "block_ok (p, n, k) \<Longrightarrow> p \<le> p + n - 1"
  using contains_block [of "(p, n, k)" p] in_block_start [of p n k]
  by (simp add: contains_memory_range)

text \<open>Who can access a new block.\<close>

lemma new_access:
  "(if dev_type place = ATMI_DEVTYPE_CPU
    then allow_access_to_all_gpu_agents mc p n
      (st\<lparr>blocks := B, access := (\<lambda>a q. if q - p < n then dflt a else access st a q), alloc_map := M\<rparr>)
    else st\<lparr>blocks := B, access := (\<lambda>a q. if q - p < n then dflt a else access st a q), alloc_map := M\<rparr>) =
   st\<lparr>blocks := B, access := (\<lambda>a q. if q - p < n
        then dflt a \<or> dev_type place = ATMI_DEVTYPE_CPU \<and> a \<in> set (gpu_agents mc) else access st a q),
      alloc_map := M\<rparr>"
proof (cases "dev_type place = ATMI_DEVTYPE_CPU")
  case True
  have "(\<lambda>a q. (if q - p < n then dflt a else access st a q) \<or> q - p < n \<and> a \<in> set (gpu_agents mc)) =
      (\<lambda>a q. if q - p < n then dflt a \<or> a \<in> set (gpu_agents mc) else access st a q)"
    by (auto simp: fun_eq_iff)
  then show ?thesis using True by (simp only: allow_access_to_all_gpu_agents_def) simp
qed simp

lemma Malloc_eq:
  "Malloc mc alloc n place st = Some (p, st') \<longleftrightarrow>
   (\<exists>pool dflt. get_memory_pool_by_mem_place mc place = Some pool \<and>
     alloc (blocks st) pool n = Some (p, dflt) \<and>
     st' = st\<lparr>blocks := blocks st @ [(p, n, True)],
       access := (\<lambda>a q. if q - p < n
         then dflt a \<or> dev_type place = ATMI_DEVTYPE_CPU \<and> a \<in> set (gpu_agents mc) else access st a q),
       alloc_map := register_allocation p n place (alloc_map st)\<rparr>)"
  unfolding Malloc_def Let_def new_access by (auto simp: bind_eq_Some_conv)

lemma Malloc_inv:
  assumes "mem_inv mc st" and "allocator_ok alloc" and "Malloc mc alloc n place st = Some (p, st')"
  shows "mem_inv mc st'"
    and "in_block (p, n, True) q \<Longrightarrow>
      tracker_find q (alloc_map st') = Some \<lparr>data_ptr = p, data_host_aliasptr = 0,
        data_bytes = n, data_place = place, data_arg_type = ATMI_IN_OUT\<rparr>"
    and "\<not> in_block (p, n, True) q \<Longrightarrow>
      tracker_find q (alloc_map st') = tracker_find q (alloc_map st)"
proof -
  let ?d = "\<lparr>data_ptr = p, data_host_aliasptr = 0, data_bytes = n, data_place = place,
    data_arg_type = ATMI_IN_OUT\<rparr>"
  obtain pool dflt where pool: "get_memory_pool_by_mem_place mc place = Some pool"
    "alloc (blocks st) pool n = Some (p, dflt)" and st': "st' = st\<lparr>blocks := blocks st @ [(p, n, True)],
       access := (\<lambda>a q. if q - p < n
         then dflt a \<or> dev_type place = ATMI_DEVTYPE_CPU \<and> a \<in> set (gpu_agents mc) else access st a q),
       alloc_map := tracker_insert p ?d (alloc_map st)\<rparr>"
    using assms(3) by (auto simp: Malloc_eq register_allocation_def)
  note fresh = fresh_block [OF assms(1, 2) pool(2)]
  have b: "block_ok (p, n, True)" by (rule fresh(1))
  have wf: "tracker_wf (alloc_map st)" using assms(1) by (simp add: mem_inv_def)
  have le: "p \<le> p + data_bytes ?d - 1" using not_below_block [OF b] by simp
  have free: "tracker_find q (alloc_map st) = None" if "p \<le> q" "q \<le> p + data_bytes ?d - 1" for q
    using that by (intro fresh(3) [of True]) (simp add: in_block_iff [OF b] del: in_block.simps)
  have ins: "set (alloc_map st') = insert (memory_range p n, ?d) (set (alloc_map st))"
    using tracker_insert_set [OF wf le free] by (simp add: st')
  have agent: "get_mem_agent mc place \<noteq> None"
    using pool(1) by (auto simp: get_memory_pool_by_mem_place_def get_mem_agent_def bind_eq_Some_conv)
  have wf': "tracker_wf (alloc_map st')" using tracker_insert_wf [OF wf le] by (simp add: st')
  have bl: "blocks st' = blocks st @ [(p, n, True)]" by (simp add: st')
  have app: "sorted_wrt apart (blocks st @ [(p, n, True)])"
    using assms(1) fresh(2) by (simp add: mem_inv_def sorted_wrt_append)
  have "\<exists>b \<in> set (blocks st'). in_block b q" if "access st' a q" for a q
    using that assms(1) copied_range [OF b, of q] unfolding mem_inv_def bl
    by (auto simp: st' simp del: in_block.simps split: if_splits)
  then show "mem_inv mc st'"
    using assms(1) b agent wf' app unfolding mem_inv_def ins bl by auto
  have "tracker_find q (alloc_map st') =
      (if in_block (p, n, True) q then Some ?d else tracker_find q (alloc_map st))" for q
    using tracker_lookup_insert [OF wf le free, of q]
    by (simp add: st' in_block_iff [OF b] del: in_block.simps)
  then show "in_block (p, n, True) q \<Longrightarrow> tracker_find q (alloc_map st') = Some ?d"
    and "\<not> in_block (p, n, True) q \<Longrightarrow> tracker_find q (alloc_map st') = tracker_find q (alloc_map st)"
    by (simp_all del: in_block.simps)
qed

lemma Memfree_fresh:
  assumes "mem_inv mc st" and "allocator_ok alloc" and "Malloc mc alloc n place st = Some (p, st')"
  shows "Memfree p (st'\<lparr>heap := h\<rparr>) = Some (ATMI_STATUS_SUCCESS, st\<lparr>heap := h\<rparr>)"
proof -
  obtain pool dflt where pool: "alloc (blocks st) pool n = Some (p, dflt)"
    and st': "st' = st\<lparr>blocks := blocks st @ [(p, n, True)],
       access := (\<lambda>a q. if q - p < n
         then dflt a \<or> dev_type place = ATMI_DEVTYPE_CPU \<and> a \<in> set (gpu_agents mc) else access st a q),
       alloc_map := register_allocation p n place (alloc_map st)\<rparr>"
    using assms(3) by (auto simp: Malloc_eq)
  note fresh = fresh_block [OF assms(1, 2) pool]
  have b: "block_ok (p, n, True)" by (rule fresh(1))
  have start: "in_block (p, n, True) p" using b by (rule in_block_start)
  have new: "(q, m, k) \<in> set (blocks st) \<Longrightarrow> q \<noteq> p" for q m k
    using fresh(2) [of True] in_block_start [of q m k] in_block_apart [of "(q, m, k)" "(p, n, True)" q]
      assms(1) start unfolding mem_inv_def by blast
  have "find (\<lambda>(q, m, pooled). q = p \<and> pooled) (blocks st) = None"
    using new by (auto simp: find_None_iff)
  then have "find (\<lambda>(q, m, pooled). q = p \<and> pooled) (blocks st') = Some (p, n, True)"
    by (simp add: st' find_append_none)
  moreover have "remove1 (p, n, True) (blocks st') = blocks st"
    using new by (auto simp: st' intro!: remove1_last)
  moreover have "tracker_remove p (alloc_map st') = alloc_map st"
  proof -
    have "tracker_find p (alloc_map st) = None" using fresh(3) start by blast
    then have "\<forall>x \<in> set (alloc_map st). \<not> contains (fst x) p"
      using assms(1) by (simp add: mem_inv_def tracker_find_none)
    moreover have "contains (memory_range p n) p" using contains_block [OF b] start by simp
    ultimately show ?thesis
      using tracker_remove_fresh
      by (simp add: st' register_allocation_def tracker_insert_def tracker_remove_eq)
  qed
  moreover have "tracker_find p (alloc_map st') \<noteq> None"
    using Malloc_inv(2) [OF assms start] by simp
  moreover have "(\<lambda>a q. access st' a q \<and> \<not> in_block (p, n, True) q) = access st"
  proof (intro ext)
    fix a q
    have "\<not> access st a q" if "in_block (p, n, True) q"
      using assms(1) fresh(2) [of True] that in_block_apart unfolding mem_inv_def by blast
    then show "(access st' a q \<and> \<not> in_block (p, n, True) q) = access st a q"
      by (auto simp: st' copied_range [OF b] simp del: in_block.simps)
  qed
  ultimately have "Memfree p (st'\<lparr>heap := h\<rparr>) = Some (ATMI_STATUS_SUCCESS,
      st'\<lparr>heap := h, alloc_map := alloc_map st, blocks := blocks st, access := access st\<rparr>)"
    by (auto simp: Memfree_def Let_def simp del: in_block.simps)
  then show ?thesis by (simp add: st')
qed

lemma sorted_wrt_remove1: "sorted_wrt P xs \<Longrightarrow> sorted_wrt P (remove1 x xs)"
  using set_remove1_subset by (induction xs) fastforce+

lemma distinct_blocks: "sorted_wrt apart bs \<Longrightarrow> \<forall>b \<in> set bs. block_ok b \<Longrightarrow> distinct bs"
proof (induction bs)
  case (Cons b bs)
  have "\<not> apart b b" using Cons.prems(2) by (cases b) (auto simp: unat_gt_0)
  then show ?case using Cons by auto
qed simp

lemma find_in_list: "find P xs = Some x \<Longrightarrow> x \<in> set xs \<and> P x"
  by (auto simp: find_Some_iff)

lemma Memfree_inv:
  assumes "mem_inv mc st" and "Memfree p st = Some (r, st')"
  shows "mem_inv mc st'"
    and "\<exists>n. (p, n, True) \<in> set (blocks st) \<and>
      (\<forall>q. tracker_find q (alloc_map st') =
        (if in_block (p, n, True) q then None else tracker_find q (alloc_map st)))"
proof -
  obtain b where f: "find (\<lambda>(q, m, pooled). q = p \<and> pooled) (blocks st) = Some b"
    and st': "st' = st\<lparr>alloc_map := tracker_remove p (alloc_map st), blocks := remove1 b (blocks st),
      access := (\<lambda>a q. access st a q \<and> \<not> in_block b q)\<rparr>"
    using assms(2) by (auto simp: Memfree_def Let_def split: option.splits)
  obtain n where b: "b = (p, n, True)" and m: "(p, n, True) \<in> set (blocks st)"
    using find_in_list [OF f] by (cases b) auto
  have ok: "\<forall>b \<in> set (blocks st). block_ok b" and so: "sorted_wrt apart (blocks st)"
    and wf: "tracker_wf (alloc_map st)"
    using assms(1) by (simp_all add: mem_inv_def)
  have start: "in_block (p, n, True) p" using ok m in_block_start by blast
  have d: "distinct (blocks st)"
    using so ok by (rule distinct_blocks)
  have only: "contains (block_range c) p \<longleftrightarrow> c = (p, n, True)" if "c \<in> set (blocks st)" for c
    using contains_block [of c p] ok that block_at [OF assms(1) that m _ start] start by blast
  have bl: "set (blocks st') = set (blocks st) - {b}" and so': "sorted_wrt apart (blocks st')"
    using d so by (simp_all add: st' sorted_wrt_remove1)
  have am: "set (alloc_map st') = {e \<in> set (alloc_map st). fst e \<noteq> block_range b}"
  proof -
    have "contains (fst e) p \<longleftrightarrow> fst e = block_range b" if e: "e \<in> set (alloc_map st)" for e
    proof -
      obtain c where "c \<in> set (blocks st)" "fst e = block_range c"
        by (rule tracked_block [OF assms(1) e])
      then show ?thesis using only [of c] only [OF m] b by auto
    qed
    then show ?thesis by (auto simp: st' tracker_remove_eq)
  qed
  have wf': "tracker_wf (alloc_map st')" using wf by (simp add: st' tracker_remove_wf)
  have inj: "c = b" if "c \<in> set (blocks st)" "block_range c = block_range b" for c
    using only [OF that(1)] only [OF m] that(2) b by simp
  have "fst e \<in> block_range ` set (blocks st') \<and> get_mem_agent mc (data_place (snd e)) \<noteq> None"
    if e: "e \<in> set (alloc_map st')" for e
    using assms(1) e unfolding mem_inv_def am bl by blast
  moreover have "block_range c \<in> fst ` set (alloc_map st')"
    if "c \<in> set (blocks st')" "snd (snd c)" for c
  proof -
    have "block_range c \<in> fst ` set (alloc_map st)" "c \<noteq> b" "c \<in> set (blocks st)"
      using assms(1) that unfolding mem_inv_def bl by blast+
    then show ?thesis using inj unfolding am by fastforce
  qed
  moreover have "\<exists>c \<in> set (blocks st'). in_block c q" if "access st' a q" for a q
    using that assms(1) unfolding mem_inv_def bl by (force simp: st' simp del: in_block.simps)
  ultimately show "mem_inv mc st'" using ok so' wf' by (simp add: mem_inv_def bl)
  have "tracker_find q (alloc_map st') = Some e \<longleftrightarrow>
      \<not> in_block b q \<and> tracker_find q (alloc_map st) = Some e" for q e
  proof -
    have "fst x = block_range b \<longleftrightarrow> in_block b q"
      if x: "x \<in> set (alloc_map st)" "contains (fst x) q" for x
    proof -
      obtain c where c: "c \<in> set (blocks st)" "fst x = block_range c"
        by (rule tracked_block [OF assms(1) x(1)])
      then have "in_block c q" using contains_block ok x(2) by simp
      then have "c = b \<longleftrightarrow> in_block b q" using block_at [OF assms(1) c(1) m] b by blast
      moreover have "fst x = block_range b \<longleftrightarrow> c = b" unfolding c(2) using inj [OF c(1)] by blast
      ultimately show ?thesis by blast
    qed
    then show ?thesis
      unfolding tracker_find_some [OF wf] tracker_find_some [OF wf'] am by fastforce
  qed
  then have "tracker_find q (alloc_map st') =
      (if in_block b q then None else tracker_find q (alloc_map st))" for q
    by (metis not_Some_eq)
  then show "\<exists>n. (p, n, True) \<in> set (blocks st) \<and>
      (\<forall>q. tracker_find q (alloc_map st') =
        (if in_block (p, n, True) q then None else tracker_find q (alloc_map st)))"
    using m b by blast
qed

lemma Memfree_starts:
  assumes "mem_inv mc st"
  shows "(\<exists>st'. Memfree p st = Some (ATMI_STATUS_SUCCESS, st')) \<longleftrightarrow>
    (\<exists>n. (p, n, True) \<in> set (blocks st))" (is "?l \<longleftrightarrow> ?r")
proof
  show "?l \<Longrightarrow> ?r" using Memfree_inv(2) [OF assms] by blast
next
  assume ?r
  then obtain n where m: "(p, n, True) \<in> set (blocks st)" by blast
  then have "block_range (p, n, True) \<in> fst ` set (alloc_map st)" "block_ok (p, n, True)"
    using assms by (auto simp: mem_inv_def simp del: block_range.simps block_ok.simps)
  then obtain d where "(block_range (p, n, True), d) \<in> set (alloc_map st)"
    "contains (block_range (p, n, True)) p"
    using contains_block in_block_start by fastforce
  then have "tracker_find p (alloc_map st) = Some d"
    using tracker_find_some assms unfolding mem_inv_def by blast
  moreover have "find (\<lambda>(q, m, pooled). q = p \<and> pooled) (blocks st) \<noteq> None"
    using m by (auto simp: find_None_iff)
  ultimately show ?l by (auto simp: Memfree_def Let_def)
qed

text \<open>
  C25. What the pointer tracker says of memory is true: after an allocation the new block overlaps
  no other and is found from each of its bytes, with its place, and freeing it restores the state;
  exactly the starts of blocks from a pool can be freed, and then no byte of the block is found
  and every other address is found as before.
\<close>

theorem allocations_tracked:
  assumes "mem_inv mc st" and "allocator_ok alloc"
  shows "(\<forall>n place p st'. Malloc mc alloc n place st = Some (p, st') \<longrightarrow>
      mem_inv mc st' \<and> Memfree p st' = Some (ATMI_STATUS_SUCCESS, st) \<and>
      (\<forall>q. map_option data_place (tracker_find q (alloc_map st')) =
        (if in_block (p, n, True) q then Some place
         else map_option data_place (tracker_find q (alloc_map st)))))
    \<and> (\<forall>p. (\<exists>st'. Memfree p st = Some (ATMI_STATUS_SUCCESS, st')) \<longleftrightarrow>
        (\<exists>n. (p, n, True) \<in> set (blocks st)))
    \<and> (\<forall>p r st'. Memfree p st = Some (r, st') \<longrightarrow> mem_inv mc st' \<and>
        (\<exists>n. (p, n, True) \<in> set (blocks st) \<and> (\<forall>q. tracker_find q (alloc_map st') =
          (if in_block (p, n, True) q then None else tracker_find q (alloc_map st)))))"
proof (intro conjI allI impI)
  fix n place p st' q
  assume m: "Malloc mc alloc n place st = Some (p, st')"
  show "mem_inv mc st'" by (rule Malloc_inv(1) [OF assms m])
  show "Memfree p st' = Some (ATMI_STATUS_SUCCESS, st)"
    using Memfree_fresh [OF assms m, of "heap st'"] m by (auto simp: Malloc_eq)
  show "map_option data_place (tracker_find q (alloc_map st')) =
      (if in_block (p, n, True) q then Some place
       else map_option data_place (tracker_find q (alloc_map st)))"
    using Malloc_inv(2, 3) [OF assms m, of q] by (simp del: in_block.simps)
qed (use Memfree_starts [OF assms(1)] Memfree_inv [OF assms(1)] in blast)+

section \<open>Copies\<close>

definition inside :: "block list \<Rightarrow> u64 \<Rightarrow> u64 \<Rightarrow> bool" where
  "inside bs p n \<longleftrightarrow> (\<exists>(q, m, k) \<in> set bs. unat q \<le> unat p \<and> unat p + unat n \<le> unat q + unat m)"

text \<open>
  A copy that succeeded: only memory changed, and in every block in use the destination holds the
  bytes of the source and the rest what it held.
\<close>

definition copied ::
  "u64 \<Rightarrow> u64 \<Rightarrow> u64 \<Rightarrow> mem_state \<Rightarrow> (atmi_status_t \<times> mem_state) option \<Rightarrow> bool" where
  "copied dest src n st r \<longleftrightarrow> (\<exists>h. r = Some (ATMI_STATUS_SUCCESS, st\<lparr>heap := h\<rparr>) \<and>
     (\<forall>b \<in> set (blocks st). \<forall>a. in_block b a \<longrightarrow> h a = copy_bytes dest src n (heap st) a))"

lemma copied_direct: "copied dest src n st (Some (ATMI_STATUS_SUCCESS, mem_copy dest src n st))"
  unfolding copied_def mem_copy_def by blast

lemma through_temp:
  "\<not> a - temp < n \<Longrightarrow>
   copy_bytes dest temp n (copy_bytes temp src n h) a = copy_bytes dest src n h a"
  by (simp add: copy_bytes_def)

lemma inside_block:
  assumes "mem_inv mc st" and "inside (blocks st) p n" and "n \<noteq> 0"
  shows "block_ok (p, n, k)"
proof -
  obtain q m j where "(q, m, j) \<in> set (blocks st)" "unat p + unat n \<le> unat q + unat m"
    using assms(2) by (auto simp: inside_def)
  moreover from this have "block_ok (q, m, j)" using assms(1) unfolding mem_inv_def by blast
  ultimately show ?thesis using assms(3) by simp
qed

lemma inside_apart:
  assumes "\<forall>b \<in> set bs. apart b x" and "inside bs p n"
  shows "apart (p, n, k) x"
  using assms by (cases x) (fastforce simp: inside_def)

text \<open>Who can access the blocks stays in step with the tracker through allocation and release.\<close>

lemma Malloc_access:
  assumes "mem_inv mc st" and "allocator_ok alloc" and "pools_ok mc alloc" and "access_inv mc st"
    and "Malloc mc alloc n place st = Some (p, st')"
  shows "access_inv mc st'"
    and "get_mem_agent mc place = Some a \<Longrightarrow> reaches (access st') a p n"
    and "dev_type place = ATMI_DEVTYPE_CPU \<Longrightarrow> a \<in> set (cpu_agents mc) \<union> set (gpu_agents mc) \<Longrightarrow>
      reaches (access st') a p n"
    and "reaches (access st) a q m \<Longrightarrow> inside (blocks st) q m \<Longrightarrow> reaches (access st') a q m"
proof -
  obtain pool dflt where pool: "get_memory_pool_by_mem_place mc place = Some pool"
    "alloc (blocks st) pool n = Some (p, dflt)" and acc: "access st' = (\<lambda>a q. if q - p < n
       then dflt a \<or> dev_type place = ATMI_DEVTYPE_CPU \<and> a \<in> set (gpu_agents mc) else access st a q)"
    and bl: "blocks st' = blocks st @ [(p, n, True)]"
    using assms(5) by (auto simp: Malloc_eq)
  note fresh = fresh_block [OF assms(1, 2) pool(2)]
  have new: "access st' a q \<longleftrightarrow> dflt a \<or> dev_type place = ATMI_DEVTYPE_CPU \<and> a \<in> set (gpu_agents mc)"
    if "in_block (p, n, k) q" for a q k
    using that by (simp add: acc copied_range [OF fresh(1) [of k]] del: in_block.simps)
  have old: "access st' a q = access st a q" if "\<not> in_block (p, n, True) q" for a q
    using that by (simp add: acc copied_range [OF fresh(1) [of True]] del: in_block.simps)
  have own: "dflt a" if "get_mem_agent mc place = Some a" for a
    using assms(3) pool that unfolding pools_ok_def by blast
  have cpu: "dflt a" if "dev_type place = ATMI_DEVTYPE_CPU" "a \<in> set (cpu_agents mc)" for a
    using assms(3) pool that unfolding pools_ok_def by blast
  show "get_mem_agent mc place = Some a \<Longrightarrow> reaches (access st') a p n"
    using new own unfolding reaches_def by blast
  show "dev_type place = ATMI_DEVTYPE_CPU \<Longrightarrow> a \<in> set (cpu_agents mc) \<union> set (gpu_agents mc) \<Longrightarrow>
      reaches (access st') a p n"
    using new cpu unfolding reaches_def by blast
  show "reaches (access st') a q m" if r: "reaches (access st) a q m" "inside (blocks st) q m"
  proof -
    have "apart (q, m, False) (p, n, True)" by (rule inside_apart [OF fresh(2) r(2)])
    then show ?thesis using r(1) old in_block_apart unfolding reaches_def by blast
  qed
  have "entry_access mc (tracker_find q (alloc_map st')) (\<lambda>a. access st' a q)"
    if b: "b \<in> set (blocks st')" "in_block b q" for b q
  proof (cases "in_block (p, n, True) q")
    case True
    then show ?thesis
      using Malloc_inv(2) [OF assms(1, 2, 5) True] new own cpu by (auto simp: entry_access_def)
  next
    case False
    then have "b \<in> set (blocks st)" using b unfolding bl by auto
    then show ?thesis
      using assms(4) b(2) unfolding access_inv_def Malloc_inv(3) [OF assms(1, 2, 5) False] old [OF False]
      by blast
  qed
  then show "access_inv mc st'" unfolding access_inv_def by blast
qed

lemma Memfree_access:
  assumes "mem_inv mc st" and "access_inv mc st" and "Memfree p st = Some (r, st')"
  shows "access_inv mc st'"
proof -
  obtain b where f: "find (\<lambda>(q, m, pooled). q = p \<and> pooled) (blocks st) = Some b"
    and st': "blocks st' = remove1 b (blocks st)" "access st' = (\<lambda>a q. access st a q \<and> \<not> in_block b q)"
    using assms(3) by (auto simp: Memfree_def Let_def split: option.splits)
  obtain n where m: "(p, n, True) \<in> set (blocks st)"
    and t: "tracker_find q (alloc_map st') =
        (if in_block (p, n, True) q then None else tracker_find q (alloc_map st))" for q
    using Memfree_inv(2) [OF assms(1, 3)] by blast
  have d: "distinct (blocks st)" using assms(1) distinct_blocks by (auto simp: mem_inv_def)
  have bb: "block_ok b" "b \<in> set (blocks st)" "block_ok (p, n, True)"
    using find_in_list [OF f] m assms(1) unfolding mem_inv_def by blast+
  then have "in_block b p" "in_block (p, n, True) p"
    using find_in_list [OF f] in_block_start by (cases b; fastforce)+
  then have b: "b = (p, n, True)" using block_at [OF assms(1) bb(2) m] by blast
  have "\<not> in_block b q" if "c \<in> set (blocks st')" "in_block c q" for c q
    using block_at [OF assms(1) _ bb(2) that(2)] that(1) d unfolding st'(1) by auto
  moreover have "c \<in> set (blocks st)" if "c \<in> set (blocks st')" for c
    using that d by (simp add: st'(1))
  ultimately show ?thesis
    using assms(2) unfolding access_inv_def t st'(2) b [symmetric]
    by (simp del: in_block.simps cong: conj_cong) blast
qed

text \<open>All bytes of a block have the same entry.\<close>

lemma tracked_as_whole:
  assumes "mem_inv mc st" and "b \<in> set (blocks st)" and "in_block b x" and "in_block b y"
  shows "tracker_find x (alloc_map st) = tracker_find y (alloc_map st)"
proof -
  have "contains (fst e) x \<longleftrightarrow> contains (fst e) y" if e: "e \<in> set (alloc_map st)" for e
  proof -
    obtain c where c: "c \<in> set (blocks st)" "fst e = block_range c" by (rule tracked_block [OF assms(1) e])
    have "block_ok c" using assms(1) c(1) by (simp add: mem_inv_def)
    then show ?thesis
      using block_at [OF assms(1, 2) c(1)] assms(3, 4) contains_block [of c] c(2) by metis
  qed
  then have "find (\<lambda>e. contains (fst e) x) (alloc_map st) = find (\<lambda>e. contains (fst e) y) (alloc_map st)"
    by (intro find_cong) simp_all
  then show ?thesis by (simp add: tracker_find_eq)
qed

text \<open>So a range inside a block can be accessed as its first byte says.\<close>

lemma range_access:
  assumes "mem_inv mc st" and "access_inv mc st" and "inside (blocks st) p n" and "n \<noteq> 0"
  shows "tracker_find p (alloc_map st) = None \<Longrightarrow> a \<in> set (cpu_agents mc) \<Longrightarrow> reaches (access st) a p n"
    and "tracker_find p (alloc_map st) = Some d \<Longrightarrow> get_mem_agent mc (data_place d) = Some a \<Longrightarrow>
      reaches (access st) a p n"
    and "tracker_find p (alloc_map st) = Some d \<Longrightarrow> dev_type (data_place d) = ATMI_DEVTYPE_CPU \<Longrightarrow>
      a \<in> set (cpu_agents mc) \<union> set (gpu_agents mc) \<Longrightarrow> reaches (access st) a p n"
proof -
  obtain b where b: "b \<in> set (blocks st)" "\<And>q. in_block (p, n, False) q \<Longrightarrow> in_block b q"
    using assms(3) by (fastforce simp: inside_def)
  have "in_block b p" using b(2) inside_block [OF assms(1, 3, 4)] in_block_start by blast
  then have t: "in_block b q \<and> tracker_find q (alloc_map st) = tracker_find p (alloc_map st)"
    if "in_block (p, n, False) q" for q
    using tracked_as_whole [OF assms(1) b(1)] b(2) [OF that] by blast
  note acc = assms(2) [unfolded access_inv_def entry_access_def, rule_format, OF b(1)]
  show "tracker_find p (alloc_map st) = None \<Longrightarrow> a \<in> set (cpu_agents mc) \<Longrightarrow> reaches (access st) a p n"
    "tracker_find p (alloc_map st) = Some d \<Longrightarrow> get_mem_agent mc (data_place d) = Some a \<Longrightarrow>
      reaches (access st) a p n"
    "tracker_find p (alloc_map st) = Some d \<Longrightarrow> dev_type (data_place d) = ATMI_DEVTYPE_CPU \<Longrightarrow>
      a \<in> set (cpu_agents mc) \<union> set (gpu_agents mc) \<Longrightarrow> reaches (access st) a p n"
    unfolding reaches_def using t acc by fastforce+
qed

lemma async_copy_ok:
  assumes "copier_ok sdma"
    and "block_ok (dst, n, False)" and "block_ok (src, n, False)"
    and "apart (dst, n, False) (src, n, False)"
    and "reaches (access st) da dst n" and "reaches (access st) sa src n"
    and "reaches (access st) da src n \<or> reaches (access st) sa dst n"
  shows "async_copy sdma dst da src sa n st = Some (mem_copy dst src n st)"
proof -
  have "sdma dst da src sa n (access st) (heap st) = Some (copy_bytes dst src n (heap st))"
    using assms unfolding copier_ok_def by blast
  then show ?thesis by (simp add: async_copy_def mem_copy_def)
qed

text \<open>Copying through a block of the first CPU's pool that is freed again.\<close>

lemma copied_staged:
  assumes "mem_inv mc st" and "allocator_ok alloc"
    and "Malloc mc alloc n cpu_place st = Some (temp, st')"
  shows "copied dest src n st (Memfree temp (mem_copy dest temp n (mem_copy temp src n st')))"
proof -
  let ?h = "copy_bytes dest temp n (copy_bytes temp src n (heap st))"
  obtain pool dflt where pool: "alloc (blocks st) pool n = Some (temp, dflt)" and heap: "heap st' = heap st"
    using assms(3) by (auto simp: Malloc_eq)
  note fresh = fresh_block [OF assms(1, 2) pool]
  have "mem_copy dest temp n (mem_copy temp src n st') = st'\<lparr>heap := ?h\<rparr>"
    by (simp add: mem_copy_def heap)
  moreover have "?h a = copy_bytes dest src n (heap st) a"
    if "b \<in> set (blocks st)" "in_block b a" for a b
    using fresh(1, 2) [of True] that in_block_apart [of b "(temp, n, True)" a]
      copied_range [of temp n True a] by (intro through_temp) blast
  ultimately show ?thesis
    using Memfree_fresh [OF assms, of ?h] unfolding copied_def by auto
qed

lemma tracked_agent:
  assumes "mem_inv mc st" and "tracker_find p (alloc_map st) = Some d"
  shows "get_mem_agent mc (data_place d) \<noteq> None"
proof -
  have "tracker_wf (alloc_map st)" using assms(1) by (simp add: mem_inv_def)
  then obtain r where "(r, d) \<in> set (alloc_map st)" using assms(2) tracker_find_some by blast
  then show ?thesis using assms(1) unfolding mem_inv_def by fastforce
qed

lemma Malloc_agent: "Malloc mc alloc n place st \<noteq> None \<Longrightarrow> get_mem_agent mc place \<noteq> None"
  by (auto simp: Malloc_def get_memory_pool_by_mem_place_def get_mem_agent_def bind_eq_Some_conv)

lemma mem_copy_access [simp]: "access (mem_copy d s n st) = access st"
  by (simp add: mem_copy_def)

lemma mem_agent_kind:
  assumes "dsp_processors mc = []" and "get_mem_agent mc place = Some a"
  shows "dev_type place = ATMI_DEVTYPE_CPU \<and> a \<in> set (cpu_agents mc) \<or>
    dev_type place = ATMI_DEVTYPE_GPU \<and> a \<in> set (gpu_agents mc)"
proof -
  have "x \<in> set xs" if "vector_at xs i = Some x" for xs :: "ATLProcessor list" and i x
    using that by (auto simp: vector_at_def split: if_splits)
  then show ?thesis
    using assms by (auto simp: get_mem_agent_def get_processor_by_mem_place_def cpu_agents_def
        gpu_agents_def vector_at_def split: if_splits)
qed

text \<open>Copies that need no staging.\<close>

lemma direct_copy:
  assumes "mem_inv mc st" "access_inv mc st" "copier_ok sdma" "dsp_processors mc = []"
    and "inside (blocks st) dest n" "inside (blocks st) src n" "n \<noteq> 0"
    and "apart (dest, n, False) (src, n, False)"
  shows "get_mem_agent mc cpu_place = Some ca \<Longrightarrow> is_host (tracker_find src (alloc_map st)) \<Longrightarrow>
      is_host (tracker_find dest (alloc_map st)) \<Longrightarrow>
      async_copy sdma dest ca src ca n st = Some (mem_copy dest src n st)"
    and "tracker_find src (alloc_map st) = Some d \<Longrightarrow> tracker_find dest (alloc_map st) = Some e \<Longrightarrow>
      get_mem_agent mc (data_place d) = Some sa \<Longrightarrow> get_mem_agent mc (data_place e) = Some da \<Longrightarrow>
      (dev_type (data_place d) = ATMI_DEVTYPE_GPU \<Longrightarrow> dev_type (data_place e) = ATMI_DEVTYPE_GPU \<Longrightarrow>
        dev_id (data_place d) \<noteq> dev_id (data_place e) \<Longrightarrow> reaches (access st) da src n) \<Longrightarrow>
      async_copy sdma dest da src sa n st = Some (mem_copy dest src n st)"
proof -
  note ok = inside_block [OF assms(1) assms(5, 7), of False] inside_block [OF assms(1) assms(6, 7), of False]
  note D = range_access [OF assms(1, 2, 5, 7)] and S = range_access [OF assms(1, 2, 6, 7)]
  note copy = async_copy_ok [OF assms(3) ok assms(8)]
  show "async_copy sdma dest ca src ca n st = Some (mem_copy dest src n st)"
    if c: "get_mem_agent mc cpu_place = Some ca" "is_host (tracker_find src (alloc_map st))"
      "is_host (tracker_find dest (alloc_map st))"
  proof -
    have "ca \<in> set (cpu_agents mc)"
      using mem_agent_kind [OF assms(4) c(1)] by (simp add: ATMI_MEM_PLACE_CPU_MEM_def)
    then have "reaches (access st) ca dest n" "reaches (access st) ca src n"
      using c(2, 3) D(1, 3) S(1, 3) by (auto simp: is_host_def split: option.splits)
    then show ?thesis using copy by blast
  qed
  show "async_copy sdma dest da src sa n st = Some (mem_copy dest src n st)"
    if t: "tracker_find src (alloc_map st) = Some d" "tracker_find dest (alloc_map st) = Some e"
      "get_mem_agent mc (data_place d) = Some sa" "get_mem_agent mc (data_place e) = Some da"
      and peer: "dev_type (data_place d) = ATMI_DEVTYPE_GPU \<Longrightarrow> dev_type (data_place e) = ATMI_DEVTYPE_GPU \<Longrightarrow>
        dev_id (data_place d) \<noteq> dev_id (data_place e) \<Longrightarrow> reaches (access st) da src n"
  proof (rule copy)
    show "reaches (access st) da dest n" by (rule D(2) [OF t(2, 4)])
    show s: "reaches (access st) sa src n" by (rule S(2) [OF t(1, 3)])
    note k = mem_agent_kind [OF assms(4) t(3)] mem_agent_kind [OF assms(4) t(4)]
    consider "dev_type (data_place d) = ATMI_DEVTYPE_CPU" | "dev_type (data_place e) = ATMI_DEVTYPE_CPU"
      | "dev_type (data_place d) = ATMI_DEVTYPE_GPU" "dev_type (data_place e) = ATMI_DEVTYPE_GPU"
      using k by blast
    then show "reaches (access st) da src n \<or> reaches (access st) sa dest n"
    proof cases
      case 1
      then show ?thesis using S(3) [OF t(1)] k by blast
    next
      case 2
      then show ?thesis using D(3) [OF t(2)] k by blast
    next
      case 3
      then have "sa = da" if "dev_id (data_place d) = dev_id (data_place e)"
        using that t(3, 4) by (auto simp: get_mem_agent_def get_processor_by_mem_place_def)
      then show ?thesis using s peer [OF 3] by blast
    qed
  qed
qed

text \<open>
  Copies through a block of the first CPU's pool, which the agent of the other range can access
  because HSA was asked to let it.
\<close>

lemma staged_copy:
  assumes "mem_inv mc st" "access_inv mc st" "copier_ok sdma" "dsp_processors mc = []"
    and "allocator_ok alloc" "pools_ok mc alloc" "Malloc mc alloc n cpu_place st = Some (temp, st1)"
    and "inside (blocks st) p n" "n \<noteq> 0"
    and "tracker_find p (alloc_map st) = Some d" "get_mem_agent mc (data_place d) = Some a"
    and "get_mem_agent mc cpu_place = Some ca"
  shows "async_copy sdma temp ca p a n st1 = Some (mem_copy temp p n st1)"
    and "async_copy sdma p a temp ca n (mem_copy temp src n st1) =
      Some (mem_copy p temp n (mem_copy temp src n st1))"
proof -
  obtain pool dflt where pool: "alloc (blocks st) pool n = Some (temp, dflt)"
    using assms(7) by (auto simp: Malloc_eq)
  note fresh = fresh_block [OF assms(1, 5) pool, of False]
  note ok = inside_block [OF assms(1) assms(8, 9), of False]
  note sep = inside_apart [OF fresh(2) assms(8), of False]
  note acc = Malloc_access [OF assms(1, 5, 6, 2, 7)]
  have cpu: "dev_type cpu_place = ATMI_DEVTYPE_CPU" by (simp add: ATMI_MEM_PLACE_CPU_MEM_def)
  have r: "reaches (access st1) ca temp n" by (rule acc(2) [OF assms(12)])
  have ra: "reaches (access st1) a temp n"
    using acc(3) [OF cpu] mem_agent_kind [OF assms(4, 11)] by blast
  have rp: "reaches (access st1) a p n"
    by (rule acc(4) [OF range_access(2) [OF assms(1, 2, 8, 9, 10, 11)] assms(8)])
  show "async_copy sdma temp ca p a n st1 = Some (mem_copy temp p n st1)"
    using async_copy_ok [OF assms(3) fresh(1) ok sep [THEN apart_sym [THEN iffD1]]] r ra rp by blast
  show "async_copy sdma p a temp ca n (mem_copy temp src n st1) =
      Some (mem_copy p temp n (mem_copy temp src n st1))"
    using async_copy_ok [OF assms(3) ok fresh(1) sep] r ra rp by simp
qed

text \<open>
  C24. \<open>Memcpy\<close> and an asynchronous copy task do the same copy, whatever memory the two ranges lie
  in and whether or not the bytes go through a temporary host block: for ranges of blocks in use
  that do not overlap, both succeed, the destination then holds the bytes of the source, all
  other bytes in use are untouched, and no block is leaked and no entry of the tracker is left.
  HSA is only relied on for copies between agents that can access their ranges and of which one
  can access both; so the agents, the direction and the temporary block are those that the access
  rights of the ranges ask for. Between two GPUs the code asks for no rights: the destination's
  GPU is assumed to access the source. The machine has no DSP, to whose agents it gives no rights.
\<close>

theorem copies_agree:
  assumes "mem_inv mc st" and "access_inv mc st" and "copier_ok sdma" and "dsp_processors mc = []"
    and "allocator_ok alloc" and "pools_ok mc alloc"
    and "inside (blocks st) dest n" and "inside (blocks st) src n"
    and "n \<noteq> 0" and "apart (dest, n, False) (src, n, False)"
    and "Malloc mc alloc n cpu_place st \<noteq> None"
    and "\<And>d e a. tracker_find src (alloc_map st) = Some d \<Longrightarrow> tracker_find dest (alloc_map st) = Some e \<Longrightarrow>
      dev_type (data_place d) = ATMI_DEVTYPE_GPU \<Longrightarrow> dev_type (data_place e) = ATMI_DEVTYPE_GPU \<Longrightarrow>
      dev_id (data_place d) \<noteq> dev_id (data_place e) \<Longrightarrow> get_mem_agent mc (data_place e) = Some a \<Longrightarrow>
      reaches (access st) a src n"
  shows "copied dest src n st (Memcpy mc alloc sdma dest src n st)
    \<and> copied dest src n st (task_copy mc alloc sdma dest src n st)"
proof -
  obtain ca where ca: "get_mem_agent mc cpu_place = Some ca" using Malloc_agent [OF assms(11)] by blast
  obtain temp st1 where M: "Malloc mc alloc n cpu_place st = Some (temp, st1)"
    using assms(11) by fastforce
  note direct = direct_copy [OF assms(1-4, 7-10)]
  note staged = staged_copy [OF assms(1-6) M _ assms(9) _ _ ca]
  note through = copied_staged [OF assms(1, 5) M, of dest src]
  have agent: "\<exists>a. get_mem_agent mc (data_place d) = Some a"
    if "tracker_find p (alloc_map st) = Some d" for p d
    using tracked_agent [OF assms(1) that] by blast
  consider (host) "tracker_find src (alloc_map st) = None" "tracker_find dest (alloc_map st) = None"
    | (src) d a where "tracker_find src (alloc_map st) = Some d" "tracker_find dest (alloc_map st) = None"
        "get_mem_agent mc (data_place d) = Some a"
    | (dest) e b where "tracker_find src (alloc_map st) = None" "tracker_find dest (alloc_map st) = Some e"
        "get_mem_agent mc (data_place e) = Some b"
    | (both) d e a b where "tracker_find src (alloc_map st) = Some d" "tracker_find dest (alloc_map st) = Some e"
        "get_mem_agent mc (data_place d) = Some a" "get_mem_agent mc (data_place e) = Some b"
    using agent [of src] agent [of dest]
    by (cases "tracker_find src (alloc_map st)"; cases "tracker_find dest (alloc_map st)") blast+
  then show ?thesis
  proof cases
    case host
    then show ?thesis
      using direct(1) [OF ca] by (simp add: Memcpy_def task_copy_def copy_direction_def
          copy_agents_def is_host_def Let_def ca copied_direct)
  next
    case src
    note c = staged(1) [OF assms(8) src(1, 3)]
    show ?thesis
      using src c through direct(1) [OF ca]
      by (auto simp: Memcpy_def task_copy_def staging_thread_def copy_direction_def
          copy_agents_def is_host_def Let_def ca M copied_direct)
  next
    case dest
    note c = staged(2) [OF assms(7) dest(2, 3), of src]
    show ?thesis
      using dest c through direct(1) [OF ca]
      by (auto simp: Memcpy_def task_copy_def staging_thread_def copy_direction_def
          copy_agents_def is_host_def Let_def ca M copied_direct)
  next
    case both
    note c = direct(2) [OF both assms(12) [OF both(1, 2) _ _ _ both(4)]]
    show ?thesis
      using both c direct(1) [OF ca]
      by (auto simp: Memcpy_def task_copy_def copy_direction_def copy_agents_def is_host_def
          Let_def ca copied_direct)
  qed
qed

section \<open>An instance\<close>

text \<open>
  An allocator that puts every block after the ones in use, and a copy engine that refuses what it
  cannot access. The agents and pools are those of \<open>demo_mc\<close>: the CPU is 1 with pool 10, the GPU
  2 with pool 20.
\<close>

primrec top :: "block list \<Rightarrow> nat" where
  "top [] = 0x1000"
| "top (b # bs) = max (unat (fst b) + unat (fst (snd b))) (top bs)"

definition bump :: allocator where
  "bump used pool n =
     (if n \<noteq> 0 \<and> top used + unat n \<le> 2 ^ 64
      then Some (of_nat (top used), \<lambda>a. pool = 10 \<and> a = 1 \<or> pool = 20 \<and> a = 2) else None)"

definition engine :: copier where
  "engine dst da src sa n acc h =
     (if \<forall>i \<in> set [0..<unat n]. acc da (dst + of_nat i) \<and> acc sa (src + of_nat i)
      then Some (copy_bytes dst src n h) else None)"

lemma top_above: "b \<in> set bs \<Longrightarrow> unat (fst b) + unat (fst (snd b)) \<le> top bs"
  by (induction bs) (auto simp: le_max_iff_disj)

lemma bump_ok: "allocator_ok bump"
proof -
  have "block_ok (p, n, True) \<and> (\<forall>b \<in> set used. apart b (p, n, True))"
    if a: "bump used pool n = Some (p, dflt)" for used pool n p dflt
  proof -
    have n: "n \<noteq> 0" and fits: "top used + unat n \<le> 2 ^ 64" and p: "p = of_nat (top used)"
      using a by (auto simp: bump_def split: if_splits)
    have "0 < unat n" using n by (simp add: unat_gt_0)
    then have "top used < 2 ^ 64" using fits by linarith
    then have "unat p = top used" by (simp add: p unat_of_nat take_bit_nat_eq_self)
    then show ?thesis using n fits top_above [of _ used] by fastforce
  qed
  then show ?thesis unfolding allocator_ok_def by blast
qed

lemma engine_ok: "copier_ok engine"
proof -
  have "acc a (p + of_nat i)" if "reaches acc a p n" "block_ok (p, n, False)" "i < unat n" for acc a p n i
  proof -
    have "unat (of_nat i :: u64) = i" 
      using that(3) order_less_trans [OF that(3) unsigned_less [of n]]
      by (simp add: unat_of_nat take_bit_nat_eq_self)
    then have "in_block (p, n, False) (p + of_nat i)"
      using copied_range [OF that(2), of "p + of_nat i"] that(3) by (simp add: word_less_nat_alt)
    then show ?thesis using that(1) by (simp add: reaches_def)
  qed
  then show ?thesis
    unfolding copier_ok_def engine_def by (auto simp del: apart.simps block_ok.simps)
qed

definition demo_mc :: ATLMachine where
  "demo_mc = \<lparr>cpu_processors = [(new_processor 1 ATMI_DEVTYPE_CPU)\<lparr>
       p_memories := [\<lparr>mem_pool = 10, mem_type = ATMI_MEMTYPE_FINE_GRAINED\<rparr>]\<rparr>],
     gpu_processors = [(new_processor 2 ATMI_DEVTYPE_GPU)\<lparr>
       p_memories := [\<lparr>mem_pool = 20, mem_type = ATMI_MEMTYPE_COARSE_GRAINED\<rparr>]\<rparr>],
     dsp_processors = []\<rparr>"

text \<open>A host block, and a device block allocated after it.\<close>

definition host_only :: mem_state where
  "host_only = \<lparr>heap = (\<lambda>a. ucast a), blocks = [(0x1000, 16, False)],
     access = (\<lambda>a q. a = 1 \<and> q - 0x1000 < 16), alloc_map = []\<rparr>"

abbreviation gpu_mem :: atmi_mem_place_t where
  "gpu_mem \<equiv> \<lparr>mem_node_id = 0, dev_type = ATMI_DEVTYPE_GPU, dev_id = 0, mem_id = 0\<rparr>"

definition demo_mem :: mem_state where
  "demo_mem = host_only\<lparr>blocks := [(0x1000, 16, False), (0x1010, 16, True)],
     access := (\<lambda>a q. if q - 0x1010 < 16 then a = 2 else access host_only a q),
     alloc_map := register_allocation 0x1010 16 gpu_mem []\<rparr>"

lemmas demo_simps = demo_mc_def new_processor_def ATMI_MEM_PLACE_CPU_MEM_def bump_def
  get_memory_pool_by_mem_place_def get_processor_by_mem_place_def vector_at_def get_memory_pool_def

lemma host_only_inv: "mem_inv demo_mc host_only"
proof -
  have b: "block_ok (0x1000, 16, False)" by simp
  show ?thesis
    using b copied_range [OF b]
    by (simp add: mem_inv_def host_only_def tracker_wf_def del: in_block.simps)
qed

lemma demo_alloc: "Malloc demo_mc bump 16 gpu_mem host_only = Some (0x1010, demo_mem)"
  by (simp add: Malloc_eq demo_mem_def host_only_def demo_simps)

lemma demo_inv: "mem_inv demo_mc demo_mem"
  by (rule Malloc_inv(1) [OF host_only_inv bump_ok demo_alloc])

theorem allocations_tracked_witness:
  "map_option data_place (tracker_find 0x101f (alloc_map demo_mem)) = Some gpu_mem
   \<and> Memfree 0x1010 demo_mem = Some (ATMI_STATUS_SUCCESS, host_only)"
  using allocations_tracked [OF host_only_inv bump_ok, THEN conjunct1, rule_format, OF demo_alloc]
  by simp

lemma demo_agents: "cpu_agents demo_mc = [1]" "gpu_agents demo_mc = [2]"
  by (simp_all add: cpu_agents_def gpu_agents_def demo_mc_def new_processor_def)

lemma bump_pools: "pools_ok demo_mc bump"
  unfolding pools_ok_def
  by (auto simp: get_memory_pool_by_mem_place_def get_mem_agent_def get_processor_by_mem_place_def
      vector_at_def get_memory_pool_def demo_agents bump_def bind_eq_Some_conv split: if_splits)
     (auto simp: demo_mc_def new_processor_def split: if_splits)

lemma host_only_access: "access_inv demo_mc host_only"
proof -
  have "block_ok (0x1000, 16, False)" by simp
  from copied_range [OF this] show ?thesis
    by (simp add: access_inv_def host_only_def entry_access_def tracker_find_def demo_agents
        del: in_block.simps)
qed

lemma demo_access: "access_inv demo_mc demo_mem"
  by (rule Malloc_access(1) [OF host_only_inv bump_ok bump_pools host_only_access demo_alloc])

theorem copies_agree_witness:
  "copied 0x1010 0x1000 8 demo_mem (Memcpy demo_mc bump engine 0x1010 0x1000 8 demo_mem)
   \<and> copied 0x1010 0x1000 8 demo_mem (task_copy demo_mc bump engine 0x1010 0x1000 8 demo_mem)"
proof -
  have bl: "blocks demo_mem = [(0x1000, 16, False), (0x1010, 16, True)]"
    by (simp add: demo_mem_def)
  have "Malloc demo_mc bump 8 cpu_place demo_mem \<noteq> None"
    by (simp add: Malloc_def bl demo_simps)
  moreover have "dsp_processors demo_mc = []" by (simp add: demo_mc_def)
  moreover have "tracker_find 0x1000 (alloc_map demo_mem) = None" by code_simp
  ultimately show ?thesis
    by (intro copies_agree [OF demo_inv demo_access engine_ok _ bump_ok bump_pools])
       (simp_all add: bl inside_def)
qed

end
