(* ===== verification/Discovery.thy ===== *)
theory Discovery
  imports Machine
begin

text \<open>
  How the runtime finds the machine (\<open>init_comute_and_memory\<close> and its call-backs in
  \<open>core/system.cpp\<close>): a processor for every agent with the memory pools that can be allocated
  from, then the pools of other processors that it can access, and the description that
  \<open>atmi_machine_get_info\<close> hands out. What HSA reports of agents, pools and regions is the record
  \<open>agent_info\<close> and the predicate \<open>access\<close>.
\<close>

section \<open>What HSA reports\<close>

datatype hsa_device_type_t = HSA_DEVICE_TYPE_CPU | HSA_DEVICE_TYPE_GPU | HSA_DEVICE_TYPE_DSP

record pool_info =
  po_handle :: u64
  po_alloc_allowed :: bool
  po_fine_grained :: bool
  po_kernarg_init :: bool

record region_info =
  rg_handle :: u64
  rg_global :: bool
  rg_fine_grained :: bool
  rg_kernarg :: bool

record agent_info =
  ag_agent :: u64
  ag_device :: hsa_device_type_t
  ag_full_profile :: bool
  ag_pools :: "pool_info list"
  ag_regions :: "region_info list"

section \<open>Processors and their own memories\<close>

text \<open>The second component is \<open>atl_gpu_kernarg_pools\<close>.\<close>

definition get_memory_pool_info ::
  "pool_info \<Rightarrow> ATLProcessor \<times> u64 list \<Rightarrow> ATLProcessor \<times> u64 list" where
  "get_memory_pool_info pool st =
     (case st of (proc, kernarg_pools) \<Rightarrow>
        if po_alloc_allowed pool then
          if po_fine_grained pool then
            (addMemory proc \<lparr>mem_pool = po_handle pool, mem_type = ATMI_MEMTYPE_FINE_GRAINED\<rparr>,
             if po_kernarg_init pool then kernarg_pools @ [po_handle pool] else kernarg_pools)
          else
            (addMemory proc \<lparr>mem_pool = po_handle pool, mem_type = ATMI_MEMTYPE_COARSE_GRAINED\<rparr>,
             kernarg_pools)
        else (proc, kernarg_pools))"

definition get_agent_info ::
  "agent_info \<Rightarrow> ATLMachine \<times> u64 list \<Rightarrow> ATLMachine \<times> u64 list" where
  "get_agent_info a st =
     (case st of (mc, kernarg_pools) \<Rightarrow>
        case ag_device a of
          HSA_DEVICE_TYPE_CPU \<Rightarrow>
            (case fold get_memory_pool_info (ag_pools a)
                    (new_processor (ag_agent a) ATMI_DEVTYPE_CPU, kernarg_pools) of
               (new_proc, kps) \<Rightarrow> (mc\<lparr>cpu_processors := cpu_processors mc @ [new_proc]\<rparr>, kps))
        | HSA_DEVICE_TYPE_GPU \<Rightarrow>
            (let gpu_type = (if ag_full_profile a then ATMI_DEVTYPE_iGPU else ATMI_DEVTYPE_dGPU) in
             case fold get_memory_pool_info (ag_pools a)
                    (new_processor (ag_agent a) gpu_type, kernarg_pools) of
               (new_proc, kps) \<Rightarrow> (mc\<lparr>gpu_processors := gpu_processors mc @ [new_proc]\<rparr>, kps))
        | HSA_DEVICE_TYPE_DSP \<Rightarrow>
            (case fold get_memory_pool_info (ag_pools a)
                    (new_processor (ag_agent a) ATMI_DEVTYPE_DSP, kernarg_pools) of
               (new_proc, kps) \<Rightarrow> (mc\<lparr>dsp_processors := dsp_processors mc @ [new_proc]\<rparr>, kps)))"

definition discover :: "agent_info list \<Rightarrow> ATLMachine \<times> u64 list \<Rightarrow> ATLMachine \<times> u64 list" where
  "discover agents st = fold get_agent_info agents st"

section \<open>Memories of other processors\<close>

definition add_accessible ::
  "(u64 \<Rightarrow> u64 \<Rightarrow> bool) \<Rightarrow> ATLMemory \<Rightarrow> ATLProcessor list \<Rightarrow> ATLProcessor list" where
  "add_accessible access mem procs =
     map (\<lambda>proc. if access (p_agent proc) (mem_pool mem) then addMemory proc mem else proc) procs"

text \<open>The loop over the memories of one kind of processor, for the two other kinds.\<close>

definition share_memories ::
  "(u64 \<Rightarrow> u64 \<Rightarrow> bool) \<Rightarrow> ATLMemory list \<Rightarrow> ATLProcessor list \<times> ATLProcessor list \<Rightarrow>
   ATLProcessor list \<times> ATLProcessor list" where
  "share_memories access mems ab =
     foldl (\<lambda>(a, b) mem. (add_accessible access mem a, add_accessible access mem b)) ab mems"

definition all_memories :: "ATLProcessor list \<Rightarrow> ATLMemory list" where
  "all_memories procs = concat (map p_memories procs)"

definition share_all :: "(u64 \<Rightarrow> u64 \<Rightarrow> bool) \<Rightarrow> ATLMachine \<Rightarrow> ATLMachine" where
  "share_all access mc =
     (let cpus = cpu_processors mc;
          (gpus, dsps) =
            share_memories access (all_memories cpus) (gpu_processors mc, dsp_processors mc);
          (dsps, cpus) = share_memories access (all_memories gpus) (dsps, cpus);
          (gpus, cpus) = share_memories access (all_memories dsps) (gpus, cpus)
      in mc\<lparr>cpu_processors := cpus, gpu_processors := gpus, dsp_processors := dsps\<rparr>)"

section \<open>The description of the machine\<close>

record atmi_device_t =
  dv_type :: atmi_devtype_t
  dv_core_count :: u32
  dv_memory_count :: u32

text \<open>
  \<open>all_devices\<close> has room for every processor, but the entries of the DSPs are never written
  (\<open>None\<close>). The pointers in \<open>devices_by_type\<close> are positions in it.
\<close>

record atmi_machine_t =
  device_count_by_type :: "atmi_devtype_t \<Rightarrow> nat"
  devices_by_type :: "atmi_devtype_t \<Rightarrow> nat option"
  all_devices :: "atmi_device_t option list"

definition describe_device :: "(u64 \<Rightarrow> int) \<Rightarrow> ATLProcessor \<Rightarrow> atmi_device_t" where
  "describe_device num_cus p =
     \<lparr>dv_type = p_type p, dv_core_count = word_of_int (num_cus (p_agent p)),
      dv_memory_count = of_nat (length (p_memories p))\<rparr>"

definition describe_machine :: "(u64 \<Rightarrow> int) \<Rightarrow> ATLMachine \<Rightarrow> atmi_machine_t" where
  "describe_machine num_cus mc =
     (let cpus = cpu_processors mc; gpus = gpu_processors mc; dsps = dsp_processors mc;
          num_iGPUs = length (filter (\<lambda>p. p_type p = ATMI_DEVTYPE_iGPU) gpus);
          gpus_begin = length cpus
      in \<lparr>device_count_by_type = (\<lambda>_. 0)
            (ATMI_DEVTYPE_CPU := length cpus, ATMI_DEVTYPE_GPU := length gpus,
             ATMI_DEVTYPE_DSP := length dsps, ATMI_DEVTYPE_iGPU := num_iGPUs,
             ATMI_DEVTYPE_dGPU := length gpus - num_iGPUs),
          devices_by_type = Map.empty
            (ATMI_DEVTYPE_CPU \<mapsto> 0, ATMI_DEVTYPE_GPU \<mapsto> gpus_begin,
             ATMI_DEVTYPE_iGPU \<mapsto> gpus_begin, ATMI_DEVTYPE_dGPU \<mapsto> gpus_begin),
          all_devices = map (Some \<circ> describe_device num_cus) cpus
            @ map (Some \<circ> describe_device num_cus) gpus @ replicate (length dsps) None\<rparr>)"

text \<open>The first region that the call-back accepts ends the iteration.\<close>

definition get_fine_grained_region :: "region_info list \<Rightarrow> u64 option" where
  "get_fine_grained_region regions =
     map_option rg_handle (find (\<lambda>r. rg_global r \<and> rg_fine_grained r) regions)"

definition get_kernarg_memory_region :: "region_info list \<Rightarrow> u64 option" where
  "get_kernarg_memory_region regions =
     map_option rg_handle (find (\<lambda>r. rg_global r \<and> rg_kernarg r) regions)"

section \<open>What a processor receives\<close>

definition receive :: "(u64 \<Rightarrow> u64 \<Rightarrow> bool) \<Rightarrow> ATLMemory list \<Rightarrow> ATLProcessor \<Rightarrow> ATLProcessor" where
  "receive access mems p = foldl addMemory p (filter (\<lambda>m. access (p_agent p) (mem_pool m)) mems)"

lemma addMemory_keeps [simp]:
  "p_agent (addMemory p m) = p_agent p" "p_type (addMemory p m) = p_type p"
  "p_queues (addMemory p m) = p_queues p"
  "p_thread_agents (addMemory p m) = p_thread_agents p"
  by (simp_all add: addMemory_def)

lemma addMemories_keep [simp]:
  "p_agent (foldl addMemory p ms) = p_agent p" "p_type (foldl addMemory p ms) = p_type p"
  "p_queues (foldl addMemory p ms) = p_queues p"
  "p_thread_agents (foldl addMemory p ms) = p_thread_agents p"
  by (induction ms arbitrary: p) simp_all

lemma receive_keeps [simp]:
  "p_agent (receive access mems p) = p_agent p" "p_type (receive access mems p) = p_type p"
  "p_queues (receive access mems p) = p_queues p"
  "p_thread_agents (receive access mems p) = p_thread_agents p"
  by (simp_all add: receive_def)

lemma share_memories_receive:
  "share_memories access mems (a, b) = (map (receive access mems) a, map (receive access mems) b)"
proof (induction mems arbitrary: a b)
  case Nil
  show ?case by (simp add: share_memories_def receive_def map_idI)
next
  case (Cons m ms)
  have "receive access (m # ms) p =
      receive access ms (if access (p_agent p) (mem_pool m) then addMemory p m else p)" for p
    by (simp add: receive_def)
  then have "map (receive access ms) (add_accessible access m ps) = map (receive access (m # ms)) ps"
    for ps
    by (simp add: add_accessible_def)
  then show ?case
    using Cons.IH by (simp add: share_memories_def)
qed

text \<open>The pools of a processor, and what it means that others were added behind its own.\<close>

abbreviation pools :: "ATLProcessor \<Rightarrow> u64 list" where
  "pools p \<equiv> map mem_pool (p_memories p)"

definition extends :: "(u64 \<Rightarrow> u64 \<Rightarrow> bool) \<Rightarrow> ATLProcessor \<Rightarrow> ATLProcessor \<Rightarrow> bool" where
  "extends access p q \<longleftrightarrow> p_agent q = p_agent p \<and> p_type q = p_type p \<and> p_queues q = p_queues p \<and>
     p_thread_agents q = p_thread_agents p \<and>
     (\<exists>extra. p_memories q = p_memories p @ extra \<and>
        (\<forall>m \<in> set extra. access (p_agent p) (mem_pool m))) \<and>
     (distinct (pools p) \<longrightarrow> distinct (pools q))"

lemma extends_refl: "extends access p p"
  by (simp add: extends_def)

lemma extends_trans: "extends access p q \<Longrightarrow> extends access q r \<Longrightarrow> extends access p r"
  by (fastforce simp: extends_def)

lemma addMemories_extends:
  "\<forall>m \<in> set ms. access (p_agent p) (mem_pool m) \<Longrightarrow> extends access p (foldl addMemory p ms)"
proof (induction ms arbitrary: p)
  case (Cons m ms)
  have "extends access p (addMemory p m)"
    using Cons.prems addMemory_distinct [of p m] by (auto simp: extends_def addMemory_def)
  moreover have "extends access (addMemory p m) (foldl addMemory (addMemory p m) ms)"
    using Cons by simp
  ultimately show ?case by (simp add: extends_trans)
qed (simp add: extends_refl)

lemma receive_extends: "extends access p (receive access mems p)"
  unfolding receive_def by (rule addMemories_extends) simp

lemma receive_pools:
  "set (pools (receive access mems p)) =
     set (pools p) \<union> {mem_pool m | m. m \<in> set mems \<and> access (p_agent p) (mem_pool m)}"
  unfolding receive_def addMemories_pools by auto

text \<open>The three rounds, as what every processor receives.\<close>

lemma share_all_eq:
  "\<exists>to_dsps from_dsps.
     gpu_processors (share_all access mc) = map (receive access from_dsps \<circ>
       receive access (all_memories (cpu_processors mc))) (gpu_processors mc)
   \<and> cpu_processors (share_all access mc) = map (receive access from_dsps \<circ>
       receive access (all_memories (map (receive access (all_memories (cpu_processors mc)))
         (gpu_processors mc)))) (cpu_processors mc)
   \<and> dsp_processors (share_all access mc) = map (receive access to_dsps \<circ>
       receive access (all_memories (cpu_processors mc))) (dsp_processors mc)"
  unfolding share_all_def Let_def share_memories_receive
  by (simp add: share_memories_receive) blast

lemma extends_list: "(\<And>p. extends access p (f p)) \<Longrightarrow> list_all2 (extends access) ps (map f ps)"
  by (simp add: list_all2_map2 list.rel_refl)

lemma receive_twice: "extends access p ((receive access a \<circ> receive access b) p)"
  by (simp add: extends_trans [OF receive_extends receive_extends])

lemma share_all_extends:
  "list_all2 (extends access) (cpu_processors mc) (cpu_processors (share_all access mc))"
  "list_all2 (extends access) (gpu_processors mc) (gpu_processors (share_all access mc))"
  "list_all2 (extends access) (dsp_processors mc) (dsp_processors (share_all access mc))"
  using share_all_eq [of access mc] by (auto intro!: extends_list receive_twice)

lemma in_all_memories: "p \<in> set ps \<Longrightarrow> m \<in> set (p_memories p) \<Longrightarrow> m \<in> set (all_memories ps)"
  by (auto simp: all_memories_def)

lemma receive_has:
  "m \<in> set mems \<Longrightarrow> access (p_agent p) (mem_pool m) \<Longrightarrow>
   mem_pool m \<in> set (pools (receive access extra (receive access mems p)))"
  "m \<in> set mems \<Longrightarrow> access (p_agent p) (mem_pool m) \<Longrightarrow> mem_pool m \<in> set (pools (receive access mems p))"
  unfolding receive_pools by auto

lemma memory_kept: "m \<in> set (p_memories p) \<Longrightarrow> m \<in> set (p_memories (receive access mems p))"
  using receive_extends [of access p mems] by (auto simp: extends_def)

lemma gpu_gets_cpu_memories:
  assumes "g \<in> set (gpu_processors (share_all access mc))" and "c \<in> set (cpu_processors mc)"
    and "m \<in> set (p_memories c)" and "access (p_agent g) (mem_pool m)"
  shows "mem_pool m \<in> set (pools g)"
  using assms share_all_eq [of access mc] receive_has(1) [OF in_all_memories [OF assms(2, 3)]]
  by auto

lemma cpu_gets_gpu_memories:
  assumes "c \<in> set (cpu_processors (share_all access mc))" and "g \<in> set (gpu_processors mc)"
    and "m \<in> set (p_memories g)" and "access (p_agent c) (mem_pool m)"
  shows "mem_pool m \<in> set (pools c)"
proof -
  let ?gs = "map (receive access (all_memories (cpu_processors mc))) (gpu_processors mc)"
  have "m \<in> set (all_memories ?gs)"
    using assms(2, 3) by (auto intro!: in_all_memories memory_kept)
  then show ?thesis
    using assms(1, 4) share_all_eq [of access mc] receive_has(1) by fastforce
qed

text \<open>The pools that discovery enters for a processor are its own and different.\<close>

lemma get_memory_pool_info_distinct:
  "distinct (pools (fst st)) \<Longrightarrow> distinct (pools (fst (get_memory_pool_info pool st)))"
  by (cases st) (auto simp: get_memory_pool_info_def intro: addMemory_distinct)

lemma pool_infos_distinct:
  "distinct (pools (fst st)) \<Longrightarrow> distinct (pools (fst (fold get_memory_pool_info ps st)))"
  by (induction ps arbitrary: st) (simp_all add: get_memory_pool_info_distinct)

lemma get_memory_pool_info_queues:
  "p_queues (fst (get_memory_pool_info pool st)) = p_queues (fst st)"
  by (cases st) (auto simp: get_memory_pool_info_def)

lemma pool_infos_queues: "p_queues (fst (fold get_memory_pool_info ps st)) = p_queues (fst st)"
  by (induction ps arbitrary: st) (simp_all add: get_memory_pool_info_queues)

definition all_processors :: "ATLMachine \<Rightarrow> ATLProcessor list" where
  "all_processors mc = cpu_processors mc @ gpu_processors mc @ dsp_processors mc"

definition fresh_processor :: "ATLProcessor \<Rightarrow> bool" where
  "fresh_processor p \<longleftrightarrow> distinct (pools p) \<and> p_queues p = []"

lemma new_fresh:
  "fold get_memory_pool_info ps (new_processor x ty, ks) = (np, ks') \<Longrightarrow> fresh_processor np"
  using pool_infos_distinct [of "(new_processor x ty, ks)" ps]
    pool_infos_queues [of ps "(new_processor x ty, ks)"]
  by (simp add: fresh_processor_def new_processor_def)

lemma get_agent_info_fresh:
  assumes "\<forall>p \<in> set (all_processors (fst st)). fresh_processor p"
  shows "\<forall>p \<in> set (all_processors (fst (get_agent_info a st))). fresh_processor p"
proof -
  obtain mc ks where st: "st = (mc, ks)" by (cases st)
  define ty where "ty = (case ag_device a of HSA_DEVICE_TYPE_CPU \<Rightarrow> ATMI_DEVTYPE_CPU
    | HSA_DEVICE_TYPE_GPU \<Rightarrow> (if ag_full_profile a then ATMI_DEVTYPE_iGPU else ATMI_DEVTYPE_dGPU)
    | HSA_DEVICE_TYPE_DSP \<Rightarrow> ATMI_DEVTYPE_DSP)"
  obtain np ks' where np: "fold get_memory_pool_info (ag_pools a) (new_processor (ag_agent a) ty, ks)
    = (np, ks')" by fastforce
  have "set (all_processors (fst (get_agent_info a st))) = insert np (set (all_processors mc))"
    using np by (cases "ag_device a")
      (simp_all add: st get_agent_info_def all_processors_def ty_def Let_def)
  then show ?thesis using assms new_fresh [OF np] by (simp add: st)
qed

lemma discover_fresh:
  "\<forall>p \<in> set (all_processors (fst st)). fresh_processor p \<Longrightarrow>
   \<forall>p \<in> set (all_processors (fst (discover agents st))). fresh_processor p"
proof (induction agents arbitrary: st)
  case (Cons a agents)
  show ?case
    using Cons.IH [OF get_agent_info_fresh [OF Cons.prems, of a]] by (simp add: discover_def)
qed (simp add: discover_def)

definition no_machine :: ATLMachine where
  "no_machine = \<lparr>cpu_processors = [], gpu_processors = [], dsp_processors = []\<rparr>"

section \<open>Places keep their meaning\<close>

lemma get_memory_pool_prefix:
  "extends access p q \<Longrightarrow> get_memory_pool p k = Some pool \<Longrightarrow> get_memory_pool q k = Some pool"
  by (auto simp: extends_def get_memory_pool_def Let_def nth_append split: if_splits)

lemma vector_at_extends:
  assumes "vector_at ps i = Some p" and "list_all2 (extends access) ps qs"
  shows "\<exists>q. vector_at qs i = Some q \<and> extends access p q"
  using assms by (auto simp: vector_at_def list_all2_conv_all_nth split: if_splits)

lemma share_all_place:
  assumes "get_memory_pool_by_mem_place mc place = Some pool"
  shows "get_memory_pool_by_mem_place (share_all access mc) place = Some pool"
proof -
  obtain p where p: "get_processor_by_mem_place mc place = Some p"
    and pool: "get_memory_pool p (mem_id place) = Some pool"
    using assms by (auto simp: get_memory_pool_by_mem_place_def bind_eq_Some_conv)
  have "\<exists>q. get_processor_by_mem_place (share_all access mc) place = Some q \<and> extends access p q"
    using p vector_at_extends [OF _ share_all_extends(1)] vector_at_extends [OF _ share_all_extends(2)]
      vector_at_extends [OF _ share_all_extends(3)]
    unfolding get_processor_by_mem_place_def
    by (simp add: devtype_distinct devtype_distinct [symmetric] split: if_splits)
  then show ?thesis
    using get_memory_pool_prefix [OF _ pool] by (auto simp: get_memory_pool_by_mem_place_def)
qed

text \<open>
  C40. Sharing memories keeps what memory places mean: for the machine as discovered, after the
  pools of other processors were added every processor still has its own pools at their numbers,
  has no pool twice and only pools that it may access, and a GPU has every CPU pool that it may
  access, as a CPU has every GPU pool.
\<close>

theorem memories_shared:
  assumes "mc = fst (discover agents (no_machine, ks))" and "mc' = share_all access mc"
  shows "(\<forall>place pool. get_memory_pool_by_mem_place mc place = Some pool \<longrightarrow>
      get_memory_pool_by_mem_place mc' place = Some pool)
    \<and> list_all2 (extends access) (all_processors mc) (all_processors mc')
    \<and> (\<forall>p \<in> set (all_processors mc'). distinct (map mem_pool (p_memories p)))
    \<and> (\<forall>g \<in> set (gpu_processors mc'). \<forall>c \<in> set (cpu_processors mc). \<forall>m \<in> set (p_memories c).
      access (p_agent g) (mem_pool m) \<longrightarrow> mem_pool m \<in> set (map mem_pool (p_memories g)))
    \<and> (\<forall>c \<in> set (cpu_processors mc'). \<forall>g \<in> set (gpu_processors mc). \<forall>m \<in> set (p_memories g).
      access (p_agent c) (mem_pool m) \<longrightarrow> mem_pool m \<in> set (map mem_pool (p_memories c)))"
proof (intro conjI)
  show e: "list_all2 (extends access) (all_processors mc) (all_processors mc')"
    unfolding assms(2) all_processors_def by (intro list_all2_appendI share_all_extends)
  have "\<forall>p \<in> set (all_processors mc). fresh_processor p"
    using discover_fresh [of "(no_machine, ks)"] by (simp add: assms(1) all_processors_def no_machine_def)
  with e show "\<forall>p \<in> set (all_processors mc'). distinct (map mem_pool (p_memories p))"
    by (induction rule: list_all2_induct) (auto simp: fresh_processor_def extends_def)
  show "\<forall>place pool. get_memory_pool_by_mem_place mc place = Some pool \<longrightarrow>
      get_memory_pool_by_mem_place mc' place = Some pool"
    using share_all_place [of mc] by (simp add: assms(2))
qed (use gpu_gets_cpu_memories cpu_gets_gpu_memories in \<open>auto simp: assms(2)\<close>)

definition demo_agents :: "agent_info list" where
  "demo_agents =
     [\<lparr>ag_agent = 1, ag_device = HSA_DEVICE_TYPE_CPU, ag_full_profile = True,
       ag_pools = [\<lparr>po_handle = 10, po_alloc_allowed = True, po_fine_grained = True, po_kernarg_init = True\<rparr>],
       ag_regions = [\<lparr>rg_handle = 5, rg_global = True, rg_fine_grained = True, rg_kernarg = False\<rparr>]\<rparr>,
      \<lparr>ag_agent = 2, ag_device = HSA_DEVICE_TYPE_GPU, ag_full_profile = False,
       ag_pools = [\<lparr>po_handle = 20, po_alloc_allowed = True, po_fine_grained = False, po_kernarg_init = False\<rparr>,
         \<lparr>po_handle = 21, po_alloc_allowed = False, po_fine_grained = False, po_kernarg_init = False\<rparr>],
       ag_regions = [\<lparr>rg_handle = 6, rg_global = True, rg_fine_grained = False, rg_kernarg = True\<rparr>]\<rparr>]"

text \<open>The GPU may access the memory of the CPU, not the other way round.\<close>

theorem memories_shared_witness:
  "\<exists>mc mc'. mc = fst (discover demo_agents (no_machine, [])) \<and>
     mc' = share_all (\<lambda>a p. a = 2) mc \<and>
     map (map mem_pool \<circ> p_memories) (gpu_processors mc') = [[20, 10]] \<and>
     map (map mem_pool \<circ> p_memories) (cpu_processors mc') = [[10]] \<and>
     get_memory_pool_by_mem_place mc' \<lparr>mem_node_id = 0, dev_type = ATMI_DEVTYPE_GPU, dev_id = 0, mem_id = 0\<rparr>
       = Some 20"
proof -
  let ?mc = "fst (discover demo_agents (no_machine, []))"
  let ?mc' = "share_all (\<lambda>a p. a = 2) ?mc"
  have c: "map (map mem_pool \<circ> p_memories) (gpu_processors ?mc') = [[20, 10]]"
    "map (map mem_pool \<circ> p_memories) (cpu_processors ?mc') = [[10]]"
    and p: "get_memory_pool_by_mem_place ?mc
       \<lparr>mem_node_id = 0, dev_type = ATMI_DEVTYPE_GPU, dev_id = 0, mem_id = 0\<rparr> = Some 20"
    by code_simp+
  note r = memories_shared [OF refl refl, of demo_agents "[]" "\<lambda>a p. a = 2",
    THEN conjunct1, rule_format, OF p]
  show ?thesis by (intro exI conjI) (rule refl c r)+
qed

end
