(* ===== verification/Metadata.thy ===== *)
theory Metadata
  imports Kernel Machine Packets
begin

text \<open>
  The metadata of GPU code objects (\<open>core/system.cpp\<close>): the fields of kernel arguments and of
  code properties, and the argument layout that the runtime derives from them for code objects of
  version 2 (alignments) and version 3 (offsets). The metadata itself is read with COMGR, which is
  not part of the sources; an argument or property map is the list of its keys and values, both
  strings.
\<close>

section \<open>Fields\<close>

datatype ArgField =
    AF_Name | AF_TypeName | AF_Size | AF_Align | AF_ValueKind | AF_ValueType | AF_PointeeAlign
  | AF_AddrSpaceQual | AF_AccQual | AF_ActualAccQual | AF_IsConst | AF_IsRestrict | AF_IsVolatile
  | AF_IsPipe | AF_Offset

definition ArgFieldMap :: "string \<rightharpoonup> ArgField" where
  "ArgFieldMap = map_of
     [(''Name'', AF_Name), (''TypeName'', AF_TypeName), (''Size'', AF_Size), (''Align'', AF_Align),
      (''ValueKind'', AF_ValueKind), (''ValueType'', AF_ValueType),
      (''PointeeAlign'', AF_PointeeAlign), (''AddrSpaceQual'', AF_AddrSpaceQual),
      (''AccQual'', AF_AccQual), (''ActualAccQual'', AF_ActualAccQual), (''IsConst'', AF_IsConst),
      (''IsRestrict'', AF_IsRestrict), (''IsVolatile'', AF_IsVolatile), (''IsPipe'', AF_IsPipe),
      (''.type_name'', AF_TypeName), (''.value_kind'', AF_ValueKind),
      (''.address_space'', AF_AddrSpaceQual), (''.is_const'', AF_IsConst),
      (''.offset'', AF_Offset), (''.size'', AF_Size), (''.value_type'', AF_ValueType),
      (''.name'', AF_Name)]"

datatype ValueKind =
    HiddenGlobalOffsetX | HiddenGlobalOffsetY | HiddenGlobalOffsetZ | HiddenNone
  | HiddenPrintfBuffer | HiddenDefaultQueue | HiddenCompletionAction | HiddenMultiGridSyncArg
  | HiddenHostcallBuffer | UnknownKind

definition ArgValueKind :: "string \<rightharpoonup> ValueKind" where
  "ArgValueKind = map_of
     [(''HiddenGlobalOffsetX'', HiddenGlobalOffsetX), (''HiddenGlobalOffsetY'', HiddenGlobalOffsetY),
      (''HiddenGlobalOffsetZ'', HiddenGlobalOffsetZ), (''HiddenNone'', HiddenNone),
      (''HiddenPrintfBuffer'', HiddenPrintfBuffer), (''HiddenDefaultQueue'', HiddenDefaultQueue),
      (''HiddenCompletionAction'', HiddenCompletionAction),
      (''HiddenMultiGridSyncArg'', HiddenMultiGridSyncArg),
      (''HiddenHostcallBuffer'', HiddenHostcallBuffer),
      (''hidden_global_offset_x'', HiddenGlobalOffsetX),
      (''hidden_global_offset_y'', HiddenGlobalOffsetY),
      (''hidden_global_offset_z'', HiddenGlobalOffsetZ), (''hidden_none'', HiddenNone),
      (''hidden_printf_buffer'', HiddenPrintfBuffer),
      (''hidden_default_queue'', HiddenDefaultQueue),
      (''hidden_completion_action'', HiddenCompletionAction),
      (''hidden_multigrid_sync_arg'', HiddenMultiGridSyncArg),
      (''hidden_hostcall_buffer'', HiddenHostcallBuffer)]"

definition isImplicit :: "ValueKind \<Rightarrow> bool" where
  "isImplicit value_kind = (case value_kind of UnknownKind \<Rightarrow> False | _ \<Rightarrow> True)"

datatype CodePropField =
    CP_KernargSegmentSize | CP_GroupSegmentFixedSize | CP_PrivateSegmentFixedSize
  | CP_KernargSegmentAlign | CP_WavefrontSize | CP_NumSGPRs | CP_NumVGPRs
  | CP_MaxFlatWorkGroupSize | CP_IsDynamicCallStack | CP_IsXNACKEnabled | CP_NumSpilledSGPRs
  | CP_NumSpilledVGPRs

definition CodePropFieldMap :: "string \<rightharpoonup> CodePropField" where
  "CodePropFieldMap = map_of
     [(''KernargSegmentSize'', CP_KernargSegmentSize),
      (''GroupSegmentFixedSize'', CP_GroupSegmentFixedSize),
      (''PrivateSegmentFixedSize'', CP_PrivateSegmentFixedSize),
      (''KernargSegmentAlign'', CP_KernargSegmentAlign), (''WavefrontSize'', CP_WavefrontSize),
      (''NumSGPRs'', CP_NumSGPRs), (''NumVGPRs'', CP_NumVGPRs),
      (''MaxFlatWorkGroupSize'', CP_MaxFlatWorkGroupSize),
      (''IsDynamicCallStack'', CP_IsDynamicCallStack), (''IsXNACKEnabled'', CP_IsXNACKEnabled),
      (''NumSpilledSGPRs'', CP_NumSpilledSGPRs), (''NumSpilledVGPRs'', CP_NumSpilledVGPRs)]"

section \<open>The call-backs of the iteration over a map\<close>

record KernelArgMD =
  am_name :: string
  am_typeName :: string
  am_size :: u32
  am_offset :: u32
  am_align :: u32
  am_valueKind :: ValueKind

definition new_KernelArgMD :: KernelArgMD where
  "new_KernelArgMD =
     \<lparr>am_name = [], am_typeName = [], am_size = 0, am_offset = 0, am_align = 0,
      am_valueKind = UnknownKind\<rparr>"

text \<open>The status that a call-back returns is \<open>True\<close> for success.\<close>

definition populateArgs :: "string \<Rightarrow> string \<Rightarrow> KernelArgMD \<Rightarrow> bool \<times> KernelArgMD" where
  "populateArgs key buf lcArg =
     (case ArgFieldMap key of
        None \<Rightarrow> (False, lcArg)
      | Some AF_Name \<Rightarrow> (True, lcArg\<lparr>am_name := buf\<rparr>)
      | Some AF_TypeName \<Rightarrow> (True, lcArg\<lparr>am_typeName := buf\<rparr>)
      | Some AF_Size \<Rightarrow> (True, lcArg\<lparr>am_size := word_of_int (atoi buf)\<rparr>)
      | Some AF_Align \<Rightarrow> (True, lcArg\<lparr>am_align := word_of_int (atoi buf)\<rparr>)
      | Some AF_Offset \<Rightarrow> (True, lcArg\<lparr>am_offset := word_of_int (atoi buf)\<rparr>)
      | Some AF_ValueKind \<Rightarrow>
          (case ArgValueKind buf of
             None \<Rightarrow> (False, lcArg)
           | Some vk \<Rightarrow> (True, lcArg\<lparr>am_valueKind := vk\<rparr>))
      | Some _ \<Rightarrow> (True, lcArg))"

text \<open>The property \<open>kernargSegmentSize_\<close> is 64 bits wide and is assigned an \<open>int\<close>.\<close>

definition populateCodeProps :: "string \<Rightarrow> string \<Rightarrow> u64 \<Rightarrow> bool \<times> u64" where
  "populateCodeProps key buf kernargSegmentSize =
     (case CodePropFieldMap key of
        None \<Rightarrow> (False, kernargSegmentSize)
      | Some CP_KernargSegmentSize \<Rightarrow> (True, word_of_int (atoi buf))
      | Some _ \<Rightarrow> (True, kernargSegmentSize))"

text \<open>
  \<open>amd_comgr_iterate_map_metadata\<close> calls the call-back for each entry of the map. Whether it stops
  and fails when the call-back fails is the parameter \<open>strict\<close>.
\<close>

fun iterate_map ::
  "bool \<Rightarrow> (string \<Rightarrow> string \<Rightarrow> 'a \<Rightarrow> bool \<times> 'a) \<Rightarrow> (string \<times> string) list \<Rightarrow> 'a \<Rightarrow> bool \<times> 'a" where
  "iterate_map strict f [] d = (True, d)"
| "iterate_map strict f ((key, val) # kvs) d =
     (case f key val d of (ok, d) \<Rightarrow>
        if strict \<and> \<not> ok then (False, d) else iterate_map strict f kvs d)"

text \<open>All the arguments of a kernel; \<open>None\<close> when an iteration fails.\<close>

fun read_args :: "bool \<Rightarrow> (string \<times> string) list list \<Rightarrow> KernelArgMD list option" where
  "read_args strict [] = Some []"
| "read_args strict (m # ms) =
     (case iterate_map strict populateArgs m new_KernelArgMD of (ok, a) \<Rightarrow>
        if ok then map_option ((#) a) (read_args strict ms) else None)"

section \<open>The layout of the arguments\<close>

text \<open>The variables of the loop over the arguments.\<close>

record arg_layout =
  la_sizes :: "u64 list"
  la_alignments :: "u64 list"
  la_offsets :: "u64 list"
  la_offset :: u64
  la_explicit :: u64
  la_hidden :: bool

definition new_layout :: arg_layout where
  "new_layout = \<lparr>la_sizes = [], la_alignments = [], la_offsets = [], la_offset = 0,
     la_explicit = 0, la_hidden = False\<rparr>"

text \<open>The part of the loop body that both versions share: an argument at a new offset.\<close>

definition place_arg :: "KernelArgMD \<Rightarrow> u64 \<Rightarrow> arg_layout \<Rightarrow> arg_layout" where
  "place_arg a new_offset l =
     (let padding = new_offset - la_offset l;
          explicit = (if \<not> isImplicit (am_valueKind a) then la_explicit l + ucast (am_size a)
                      else la_explicit l)
      in l\<lparr>la_sizes := la_sizes l @ [ucast (am_size a)], la_offsets := la_offsets l @ [new_offset],
           la_offset := new_offset + ucast (am_size a), la_explicit := explicit + padding,
           la_hidden := la_hidden l \<or> isImplicit (am_valueKind a)\<rparr>)"

definition add_arg_v2 :: "KernelArgMD \<Rightarrow> arg_layout \<Rightarrow> arg_layout" where
  "add_arg_v2 a l =
     (let l = l\<lparr>la_alignments := la_alignments l @ [ucast (am_align a)]\<rparr>
      in place_arg a (alignUp (la_offset l) (ucast (am_align a))) l)"

definition add_arg_v3 :: "KernelArgMD \<Rightarrow> arg_layout \<Rightarrow> arg_layout" where
  "add_arg_v3 a l = place_arg a (ucast (am_offset a)) l"

lemma add_arg_v2_fields [simp]:
  "la_offsets (add_arg_v2 a l) = la_offsets l @ [alignUp (la_offset l) (ucast (am_align a))]"
  "la_offset (add_arg_v2 a l) = alignUp (la_offset l) (ucast (am_align a)) + ucast (am_size a)"
  "la_sizes (add_arg_v2 a l) = la_sizes l @ [ucast (am_size a)]"
  "la_hidden (add_arg_v2 a l) \<longleftrightarrow> la_hidden l \<or> isImplicit (am_valueKind a)"
  by (simp_all add: add_arg_v2_def place_arg_def Let_def)

text \<open>
  The entry of the kernel table; \<open>kernel_object\<close> and the two segment sizes are filled in when the
  symbols of the executable are read. The sum is a \<open>size_t\<close> that a \<open>uint32_t\<close> is assigned.
  \<open>num_args\<close> of a kernel without a segment is not assigned: \<open>None\<close>.
\<close>

definition kernel_info :: "arg_layout \<Rightarrow> u64 \<Rightarrow> nat option \<Rightarrow> atl_kernel_info_t" where
  "kernel_info l kernargSegmentSize num_args =
     \<lparr>kernel_object = 0, group_segment_size = 0, private_segment_size = 0,
      kernel_segment_size =
        ucast ((if la_hidden l then la_explicit l else kernargSegmentSize) + sizeof_atmi_implicit_args),
      ki_num_args = map_option of_nat num_args, ki_arg_alignments = la_alignments l,
      ki_arg_offsets = la_offsets l, ki_arg_sizes = la_sizes l\<rparr>"

definition kernel_info_of ::
  "(KernelArgMD \<Rightarrow> arg_layout \<Rightarrow> arg_layout) \<Rightarrow> u64 \<Rightarrow> KernelArgMD list \<Rightarrow> atl_kernel_info_t" where
  "kernel_info_of add seg args =
     (if 0 < seg then kernel_info (fold add args new_layout) seg (Some (length args))
      else kernel_info new_layout seg None)"

definition kernel_info_v2 :: "u64 \<Rightarrow> KernelArgMD list \<Rightarrow> atl_kernel_info_t" where
  "kernel_info_v2 = kernel_info_of add_arg_v2"

definition kernel_info_v3 :: "u64 \<Rightarrow> KernelArgMD list \<Rightarrow> atl_kernel_info_t" where
  "kernel_info_v3 = kernel_info_of add_arg_v3"

section \<open>The layout of version 2\<close>

definition pow2_align :: "KernelArgMD \<Rightarrow> bool" where
  "pow2_align a \<longleftrightarrow> (\<exists>k < 32. am_align a = 2 ^ k)"

definition layout_bound :: "KernelArgMD list \<Rightarrow> nat" where
  "layout_bound args = (\<Sum>a\<leftarrow>args. unat (am_size a) + unat (am_align a))"

lemma unat_ucast_up [simp]: "unat (ucast (w :: u32) :: u64) = unat w"
  by (simp add: unsigned_ucast_eq take_bit_nat_eq_self order.strict_trans [OF unsigned_less])

lemma unat_exp32: "k < 32 \<Longrightarrow> unat (2 ^ k :: u32) = 2 ^ k"
  using unsigned_push_bit_eq [of k "1 :: u32", where ?'a = nat]
    power_strict_increasing [of k 32 "2 :: nat"]
  by (simp add: push_bit_eq_mult take_bit_nat_eq_self)

lemma alignUp_arg:
  assumes "pow2_align a" and "unat off + unat (am_align a) < 2 ^ 64"
  defines "n \<equiv> alignUp (off :: u64) (ucast (am_align a))"
  shows "unat off \<le> unat n" and "unat n < unat off + unat (am_align a)"
    and "unat (am_align a) dvd unat n"
    and "unat (am_align a) dvd unat off \<Longrightarrow> n = off"
proof -
  obtain k where k: "k < 32" "am_align a = 2 ^ k" using assms(1) by (auto simp: pow2_align_def)
  have u: "unat (am_align a) = 2 ^ k" using k by (simp add: unat_exp32)
  have c: "(ucast (am_align a) :: u64) = 2 ^ k"
    unfolding k(2) using k(1) by (intro bit_word_eqI) (auto simp: bit_simps)
  have e: "unat n = (unat off + 2 ^ k - 1) div 2 ^ k * 2 ^ k"
    unfolding n_def c using k assms(2) u by (intro alignUp_pow2) auto
  show "unat off \<le> unat n" "unat n < unat off + unat (am_align a)"
    unfolding e u by (rule ceil_div_bounds, simp)+
  show "unat (am_align a) dvd unat n" by (simp add: e u)
  show "n = off" if d: "unat (am_align a) dvd unat off"
  proof -
    obtain q where q: "unat off = 2 ^ k * q" using d unfolding u by (rule dvdE)
    have "((2 ^ k - 1) + 2 ^ k * q) div 2 ^ k = q + (2 ^ k - 1) div (2 ^ k :: nat)"
      by (rule div_mult_self2) simp
    moreover have "2 ^ k * q + 2 ^ k - 1 = (2 ^ k - 1) + 2 ^ k * q" by simp
    ultimately have "(2 ^ k * q + 2 ^ k - 1) div 2 ^ k = q" by (simp only:) simp
    then have "unat n = unat off" unfolding e q by simp
    then show ?thesis by (rule unsigned_word_eqI)
  qed
qed

definition offs_ok :: "KernelArgMD list \<Rightarrow> arg_layout \<Rightarrow> bool" where
  "offs_ok args l \<longleftrightarrow>
     length (la_offsets l) = length args \<and> la_sizes l = map (\<lambda>a. ucast (am_size a)) args \<and>
     unat (la_offset l) \<le> layout_bound args \<and>
     (\<forall>i < length args. unat (am_align (args ! i)) dvd unat (la_offsets l ! i) \<and>
        unat (la_offsets l ! i) + unat (am_size (args ! i)) \<le> unat (la_offset l)) \<and>
     (\<forall>j < length args. \<forall>i < j.
        unat (la_offsets l ! i) + unat (am_size (args ! i)) \<le> unat (la_offsets l ! j))"

lemma layout_bound_snoc:
  "layout_bound (args @ [a]) = layout_bound args + unat (am_size a) + unat (am_align a)"
  by (simp add: layout_bound_def)

lemma offs_ok_snoc:
  assumes ok: "offs_ok args l" and a: "pow2_align a" and b: "layout_bound (args @ [a]) < 2 ^ 64"
  shows "offs_ok (args @ [a]) (add_arg_v2 a l)"
proof -
  let ?n = "alignUp (la_offset l) (ucast (am_align a) :: u64)"
  have bd: "unat (la_offset l) + unat (am_size a) + unat (am_align a) < 2 ^ 64"
    using ok b by (simp add: offs_ok_def layout_bound_snoc)
  then have "unat (la_offset l) + unat (am_align a) < 2 ^ 64" by linarith
  note n = alignUp_arg [OF a this]
  have u: "unat (?n + ucast (am_size a)) = unat ?n + unat (am_size a)"
    using bd n(2) by (subst unat_add_lem [THEN iffD1]) auto
  have f: "la_offsets (add_arg_v2 a l) = la_offsets l @ [?n]"
    "la_offset (add_arg_v2 a l) = ?n + ucast (am_size a)"
    "la_sizes (add_arg_v2 a l) = la_sizes l @ [ucast (am_size a)]"
    by simp_all
  have len: "length (la_offsets l) = length args" using ok by (simp add: offs_ok_def)
  have old: "unat (la_offsets l ! i) + unat (am_size (args ! i)) \<le> unat ?n" if "i < length args" for i
    using ok that n(1) by (auto simp: offs_ok_def dest!: spec [of _ i])
  show ?thesis
    unfolding offs_ok_def f u
  proof (intro conjI allI impI)
    show "unat ?n + unat (am_size a) \<le> layout_bound (args @ [a])"
      using ok n(2) by (simp add: offs_ok_def layout_bound_snoc)
    fix i assume i: "i < length (args @ [a])"
    show "unat (am_align ((args @ [a]) ! i)) dvd unat ((la_offsets l @ [?n]) ! i)"
      using ok i n(3) len by (auto simp: offs_ok_def nth_append less_Suc_eq)
    show "unat ((la_offsets l @ [?n]) ! i) + unat (am_size ((args @ [a]) ! i))
        \<le> unat ?n + unat (am_size a)"
      using old [of i] i len by (auto simp: nth_append less_Suc_eq)
  next
    fix j i assume "j < length (args @ [a])" "i < j"
    then show "unat ((la_offsets l @ [?n]) ! i) + unat (am_size ((args @ [a]) ! i))
        \<le> unat ((la_offsets l @ [?n]) ! j)"
      using ok old [of i] len by (auto simp: offs_ok_def nth_append less_Suc_eq)
  qed (use ok len in \<open>simp_all add: offs_ok_def\<close>)
qed

lemma offs_ok_v2:
  assumes "\<forall>a \<in> set args. pow2_align a" and "layout_bound args < 2 ^ 64"
  shows "offs_ok args (fold add_arg_v2 args new_layout)"
  using assms
proof (induction args rule: rev_induct)
  case (snoc a args)
  then show ?case by (auto simp: layout_bound_snoc intro!: offs_ok_snoc)
qed (simp add: offs_ok_def new_layout_def layout_bound_def)

text \<open>The explicit part is what the hidden arguments leave of the whole, paddings included.\<close>

definition hidden_bytes :: "KernelArgMD list \<Rightarrow> u64" where
  "hidden_bytes args =
     (\<Sum>a\<leftarrow>args. if isImplicit (am_valueKind a) then ucast (am_size a) else 0)"

lemma explicit_place:
  "la_explicit (place_arg a n l) - la_offset (place_arg a n l)
     + (if isImplicit (am_valueKind a) then ucast (am_size a) else 0)
   = la_explicit l - la_offset l"
  by (simp add: place_arg_def Let_def)

lemma explicit_fold:
  assumes "\<And>a l. la_explicit (add a l) - la_offset (add a l)
      + (if isImplicit (am_valueKind a) then ucast (am_size a) else 0) = la_explicit l - la_offset l"
  shows "la_explicit (fold add args l) = la_offset (fold add args l) - hidden_bytes args
     + (la_explicit l - la_offset l)"
proof (induction args arbitrary: l)
  case (Cons a args)
  define h where "h = (if isImplicit (am_valueKind a) then ucast (am_size a) else (0 :: u64))"
  have hb: "hidden_bytes (a # args) = h + hidden_bytes args" by (simp add: hidden_bytes_def h_def)
  have st: "la_explicit l - la_offset l = la_explicit (add a l) - la_offset (add a l) + h"
    using assms [of a l] by (simp only: h_def)
  show ?case using Cons.IH [of "add a l"] by (simp only: fold.simps comp_apply hb st) simp
qed (simp add: hidden_bytes_def)

lemma explicit_v2: "la_explicit (fold add_arg_v2 args new_layout) =
    la_offset (fold add_arg_v2 args new_layout) - hidden_bytes args"
  using explicit_fold [of add_arg_v2 args new_layout] explicit_place
  by (simp add: add_arg_v2_def new_layout_def)

lemma explicit_v3: "la_explicit (fold add_arg_v3 args new_layout) =
    la_offset (fold add_arg_v3 args new_layout) - hidden_bytes args"
  using explicit_fold [of add_arg_v3 args new_layout] explicit_place
  by (simp add: add_arg_v3_def new_layout_def)

text \<open>
  C31. The layout of a version 2 kernel is sound: when the alignments are powers of two and the
  sizes and alignments add up to less than \<open>2 ^ 64\<close>, every argument is at a multiple of its
  alignment, behind the arguments before it, and there is one offset and one size per argument.
\<close>

theorem v2_layout_sound:
  assumes "\<forall>a \<in> set args. pow2_align a" and "layout_bound args < 2 ^ 64" and "0 < seg"
  defines "info \<equiv> kernel_info_v2 seg args"
  shows "length (ki_arg_offsets info) = length args
    \<and> ki_arg_sizes info = map (\<lambda>a. ucast (am_size a)) args
    \<and> (\<forall>i < length args. unat (am_align (args ! i)) dvd unat (ki_arg_offsets info ! i))
    \<and> (\<forall>j < length args. \<forall>i < j.
         unat (ki_arg_offsets info ! i) + unat (am_size (args ! i)) \<le> unat (ki_arg_offsets info ! j))"
  using offs_ok_v2 [OF assms(1, 2)] assms(3)
  by (simp add: info_def kernel_info_v2_def kernel_info_of_def kernel_info_def offs_ok_def)

definition demo_args_v2 :: "KernelArgMD list" where
  "demo_args_v2 =
     [new_KernelArgMD\<lparr>am_size := 4, am_align := 4\<rparr>, new_KernelArgMD\<lparr>am_size := 8, am_align := 8\<rparr>,
      new_KernelArgMD\<lparr>am_size := 1, am_align := 1\<rparr>,
      new_KernelArgMD\<lparr>am_size := 8, am_align := 8, am_valueKind := HiddenGlobalOffsetX\<rparr>,
      new_KernelArgMD\<lparr>am_size := 8, am_align := 8, am_valueKind := HiddenNone\<rparr>]"

lemma demo_args_v2_pow2: "\<forall>a \<in> set demo_args_v2. pow2_align a"
proof -
  have "pow2_align a" if "am_align a = 2 ^ k" "k < 32" for a k
    using that by (auto simp: pow2_align_def)
  from this [of _ 0] this [of _ 2] this [of _ 3] show ?thesis
    by (simp add: demo_args_v2_def)
qed

theorem v2_layout_sound_witness:
  "ki_arg_offsets (kernel_info_v2 40 demo_args_v2) = [0, 8, 16, 24, 32] \<and>
   unat (ki_arg_offsets (kernel_info_v2 40 demo_args_v2) ! 1)
     + unat (am_size (demo_args_v2 ! 1)) \<le> unat (ki_arg_offsets (kernel_info_v2 40 demo_args_v2) ! 2)"
proof -
  have b: "layout_bound demo_args_v2 < 2 ^ 64" "length demo_args_v2 = 5"
    by (simp_all add: layout_bound_def demo_args_v2_def)
  have r: "\<forall>j < 5. \<forall>i < j. unat (ki_arg_offsets (kernel_info_v2 40 demo_args_v2) ! i)
      + unat (am_size (demo_args_v2 ! i)) \<le> unat (ki_arg_offsets (kernel_info_v2 40 demo_args_v2) ! j)"
    using v2_layout_sound [OF demo_args_v2_pow2 b(1), of 40] by (simp only: b(2)) simp
  have "ki_arg_offsets (kernel_info_v2 40 demo_args_v2) = [0, 8, 16, 24, 32]" by code_simp
  then show ?thesis using r [rule_format, of 2 1] by simp
qed

section \<open>Where the implicit arguments go\<close>

definition hidden8 :: "KernelArgMD \<Rightarrow> bool" where
  "hidden8 a \<longleftrightarrow> isImplicit (am_valueKind a) \<and> am_size a = 8 \<and> am_align a = 8"

lemma hidden8_pow2: "hidden8 a \<Longrightarrow> pow2_align a"
  by (auto simp: hidden8_def pow2_align_def intro: exI [of _ 3])

lemma offsets_prefix: "\<exists>os. la_offsets (fold add_arg_v2 args l) = la_offsets l @ os"
proof (induction args arbitrary: l)
  case (Cons a args)
  then show ?case using Cons.IH [of "add_arg_v2 a l"] by auto
qed simp

lemma fold_hidden8:
  assumes "\<forall>a \<in> set hs. hidden8 a" and "8 dvd unat (la_offset l)"
    and "unat (la_offset l) + 8 * length hs + 8 < 2 ^ 64"
  shows "la_offset (fold add_arg_v2 hs l) = la_offset l + 8 * of_nat (length hs)"
  using assms
proof (induction hs arbitrary: l)
  case (Cons a hs)
  have a: "am_align a = 8" "am_size a = 8" "pow2_align a"
    using Cons.prems(1) hidden8_pow2 by (auto simp: hidden8_def)
  have ao: "alignUp (la_offset l) (ucast (am_align a)) = la_offset l"
    using Cons.prems(2, 3) a by (intro alignUp_arg(4)) simp_all
  then have o: "la_offset (add_arg_v2 a l) = la_offset l + 8"
    using a ao by simp
  have u: "unat (la_offset l + 8) = unat (la_offset l) + 8"
    using Cons.prems(3) by (subst unat_add_lem [THEN iffD1]) auto
  have "la_offset (fold add_arg_v2 hs (add_arg_v2 a l)) = la_offset l + 8 + 8 * of_nat (length hs)"
    using Cons.IH [of "add_arg_v2 a l"] Cons.prems by (simp only: o u) simp
  then show ?case by (simp add: algebra_simps)
qed simp

lemma hidden_bytes_append: "hidden_bytes (xs @ ys) = hidden_bytes xs + hidden_bytes ys"
  by (simp add: hidden_bytes_def)

lemma hidden_bytes_none: "\<forall>a \<in> set es. \<not> isImplicit (am_valueKind a) \<Longrightarrow> hidden_bytes es = 0"
  by (induction es) (auto simp: hidden_bytes_def)

lemma hidden_bytes_8: "\<forall>a \<in> set hs. hidden8 a \<Longrightarrow> hidden_bytes hs = 8 * of_nat (length hs)"
  by (induction hs) (simp_all add: hidden_bytes_def hidden8_def distrib_left)

lemma la_hidden_fold:
  "la_hidden (fold add_arg_v2 args l) \<longleftrightarrow> la_hidden l \<or> (\<exists>a \<in> set args. isImplicit (am_valueKind a))"
  by (induction args arbitrary: l) auto

text \<open>
  C32. The runtime's implicit arguments go where the compiler put its hidden ones: for a version 2
  kernel whose hidden arguments are last and eight bytes each, the segment that the runtime
  computes ends exactly \<open>sizeof (atmi_implicit_args_t)\<close> bytes behind the offset of the first
  hidden argument, and all explicit arguments lie before it.
\<close>

theorem implicit_args_replace_hidden:
  assumes es: "\<forall>a \<in> set es. pow2_align a \<and> \<not> isImplicit (am_valueKind a)"
    and hs: "\<forall>a \<in> set hs. hidden8 a" "hs \<noteq> []"
    and small: "layout_bound (es @ hs) + 80 < 2 ^ 32" and seg: "0 < seg"
  defines "info \<equiv> kernel_info_v2 seg (es @ hs)"
  shows "unat (kernel_segment_size info) =
      unat (ki_arg_offsets info ! length es) + unat sizeof_atmi_implicit_args
    \<and> (\<forall>i < length es. unat (ki_arg_offsets info ! i) + unat (am_size (es ! i))
         \<le> unat (kernel_segment_size info) - unat sizeof_atmi_implicit_args)"
proof -
  obtain a hs' where hs': "hs = a # hs'" using hs(2) by (cases hs) auto
  let ?l = "fold add_arg_v2 es new_layout"
  let ?l1 = "add_arg_v2 a ?l" and ?L = "fold add_arg_v2 (es @ hs) new_layout"
  let ?h = "alignUp (la_offset ?l) (ucast (am_align a) :: u64)"
  have a: "am_align a = 8" "am_size a = 8" "pow2_align a" "isImplicit (am_valueKind a)"
    using hs(1) hidden8_pow2 by (auto simp: hidden8_def hs')
  have p2: "\<forall>a \<in> set (es @ hs). pow2_align a" using es hs(1) hidden8_pow2 by auto
  have bd: "layout_bound (es @ hs) = layout_bound es + 16 * length hs"
    using hs(1) by (induction hs) (auto simp: layout_bound_def hidden8_def)
  have oe: "offs_ok es ?l" using es small bd by (intro offs_ok_v2) auto
  have oL: "offs_ok (es @ hs) ?L" using small by (intro offs_ok_v2 [OF p2]) simp
  have lo: "unat (la_offset ?l) \<le> layout_bound es" using oe by (simp add: offs_ok_def)
  have n: "unat ?h < unat (la_offset ?l) + 8" "8 dvd unat ?h"
    using alignUp_arg(2, 3) [OF a(3), of "la_offset ?l"] lo small bd a(1) by auto
  have hb: "unat ?h + 8 * length hs + 80 < 2 ^ 32"
    using n(1) lo small bd hs' by simp
  have o1: "la_offset ?l1 = ?h + 8" and f1: "la_offsets ?l1 = la_offsets ?l @ [?h]"
    using a by simp_all
  have u1: "unat (?h + 8) = unat ?h + 8" using hb by (subst unat_add_lem [THEN iffD1]) auto
  have d1: "8 dvd unat (la_offset ?l1)" unfolding o1 u1 using n(2) by simp
  have d2: "unat (la_offset ?l1) + 8 * length hs' + 8 < 2 ^ 64" unfolding o1 u1 using hb hs' by simp
  have "la_offset (fold add_arg_v2 hs' ?l1) = la_offset ?l1 + 8 * of_nat (length hs')"
    by (rule fold_hidden8 [OF _ d1 d2]) (use hs(1) hs' in auto)
  then have "la_offset ?L = ?h + 8 + 8 * of_nat (length hs')"
    unfolding o1 by (simp add: hs' del: add_arg_v2_fields)
  then have oL': "la_offset ?L = ?h + 8 * of_nat (length hs)" by (simp add: hs' distrib_left)
  have "hidden_bytes (es @ hs) = 8 * of_nat (length hs)"
    using es hs(1) by (simp add: hidden_bytes_append hidden_bytes_none hidden_bytes_8)
  then have ex: "la_explicit ?L = ?h" by (simp only: explicit_v2 oL') simp
  have at: "la_offsets ?L ! length es = ?h"
  proof -
    obtain os where "la_offsets (fold add_arg_v2 hs' ?l1) = la_offsets ?l1 @ os"
      using offsets_prefix by blast
    moreover have "length (la_offsets ?l) = length es" using oe by (simp add: offs_ok_def)
    ultimately show ?thesis by (simp add: hs' f1 nth_append)
  qed
  have hid: "la_hidden ?L" using a(4) by (auto simp: la_hidden_fold hs')
  have info: "ki_arg_offsets info = la_offsets ?L"
    "kernel_segment_size info = ucast (?h + sizeof_atmi_implicit_args)"
    using seg hid ex by (simp_all add: info_def kernel_info_v2_def kernel_info_of_def kernel_info_def)
  have "unat (?h + sizeof_atmi_implicit_args) = unat ?h + 80"
    using hb by (subst unat_add_lem [THEN iffD1]) (auto simp: sizeof_atmi_implicit_args_def)
  then have sz: "unat (kernel_segment_size info) = unat ?h + 80"
    using hb by (simp add: info unsigned_ucast_eq take_bit_nat_eq_self)
  have "unat (la_offsets ?L ! i) + unat (am_size (es ! i)) \<le> unat ?h" if i: "i < length es" for i
  proof -
    have "length es < length (es @ hs)" using hs(2) by simp
    then have "unat (la_offsets ?L ! i) + unat (am_size ((es @ hs) ! i)) \<le> unat (la_offsets ?L ! length es)"
      using oL i unfolding offs_ok_def by blast
    then show ?thesis using i by (simp only: at nth_append if_True)
  qed
  then show ?thesis using sz at by (simp add: info sizeof_atmi_implicit_args_def)
qed

theorem implicit_args_replace_hidden_witness:
  "unat (kernel_segment_size (kernel_info_v2 40 demo_args_v2)) =
     unat (ki_arg_offsets (kernel_info_v2 40 demo_args_v2) ! 3) + 80
   \<and> unat (ki_arg_offsets (kernel_info_v2 40 demo_args_v2) ! 2) + 1
     \<le> unat (kernel_segment_size (kernel_info_v2 40 demo_args_v2)) - 80"
proof -
  let ?es = "take 3 demo_args_v2" and ?hs = "drop 3 demo_args_v2"
  have c: "\<forall>a \<in> set ?es. pow2_align a \<and> \<not> isImplicit (am_valueKind a)"
    using demo_args_v2_pow2 by (auto simp: demo_args_v2_def new_KernelArgMD_def isImplicit_def)
  have d: "\<forall>a \<in> set ?hs. hidden8 a" "?hs \<noteq> []" "layout_bound (?es @ ?hs) + 80 < 2 ^ 32"
    by (simp_all add: demo_args_v2_def hidden8_def isImplicit_def layout_bound_def)
  note t = implicit_args_replace_hidden [OF c d, of 40]
  have l: "length ?es = 3" "am_size (?es ! 2) = 1" by (simp_all add: demo_args_v2_def)
  show ?thesis
    using t [THEN conjunct1] t [THEN conjunct2, rule_format, of 2]
    unfolding append_take_drop_id l by (simp add: sizeof_atmi_implicit_args_def)
qed

end
