(* ===== verification/Elf_Notes.thy ===== *)
theory Elf_Notes
  imports Packets
begin

text \<open>
  How the runtime finds the version of a code object (\<open>get_code_object_version\<close> of
  \<open>core/system.cpp\<close>): it walks over the notes in the note segments of the ELF image. The image is
  the list of its bytes; what \<open>libelf\<close> reads from it, the program headers, is a parameter. \<open>None\<close>
  is a read behind the end of the image.
\<close>

section \<open>Little-endian words\<close>

definition le32 :: "u32 \<Rightarrow> u8 list" where
  "le32 w = [ucast w, ucast (drop_bit 8 w), ucast (drop_bit 16 w), ucast (drop_bit 24 w)]"

definition word32_at :: "u8 list \<Rightarrow> nat \<Rightarrow> u32" where
  "word32_at bs p =
     ucast (bs ! p) OR push_bit 8 (ucast (bs ! (p + 1))) OR push_bit 16 (ucast (bs ! (p + 2)))
       OR push_bit 24 (ucast (bs ! (p + 3)))"

lemma le32_join:
  "(ucast (ucast w :: u8) :: u32) OR push_bit 8 (ucast (ucast (drop_bit 8 w) :: u8))
     OR push_bit 16 (ucast (ucast (drop_bit 16 w) :: u8))
     OR push_bit 24 (ucast (ucast (drop_bit 24 w) :: u8)) = w"
proof (rule bit_word_eqI)
  fix n assume n: "n < LENGTH(32)"
  consider "n < 8" | "8 \<le> n" "n < 16" | "16 \<le> n" "n < 24" | "24 \<le> n" "n < 32"
    using n by fastforce
  then show "bit ((ucast (ucast w :: u8) :: u32) OR push_bit 8 (ucast (ucast (drop_bit 8 w) :: u8))
     OR push_bit 16 (ucast (ucast (drop_bit 16 w) :: u8))
     OR push_bit 24 (ucast (ucast (drop_bit 24 w) :: u8))) n = bit w n"
    by cases (auto simp: bit_simps dest: bit_imp_le_length)
qed

lemma word32_at_le32:
  "length pre = p \<Longrightarrow> word32_at (pre @ le32 w @ post) p = w"
  using le32_join [of w] by (auto simp: word32_at_def le32_def nth_append)

section \<open>The scan\<close>

record GElf_Phdr =
  p_type :: u32
  p_offset :: u64
  p_filesz :: u64
  p_align :: u64

definition PT_NOTE :: u32 where "PT_NOTE = 4"

definition AMD_NAME :: "u8 list" where "AMD_NAME = [65, 77, 68, 0]"
definition AMDGPU_NAME :: "u8 list" where "AMDGPU_NAME = [65, 77, 68, 71, 80, 85, 0]"

text \<open>\<open>memcmp\<close> of the bytes at \<open>p\<close> with a constant; it may look at all of them.\<close>

definition bytes_at :: "u8 list \<Rightarrow> nat \<Rightarrow> u8 list \<Rightarrow> bool option" where
  "bytes_at bs p name =
     (if length bs < p + length name then None else Some (take (length name) (drop p bs) = name))"

definition next_note :: "u8 list \<Rightarrow> nat \<Rightarrow> nat" where
  "next_note bs p =
     p + 12 + unat (alignUp (word32_at bs p) 4) + unat (alignUp (word32_at bs (p + 4)) 4)"

text \<open>
  The loop over the notes of one segment. The inner \<open>None\<close> says that the segment has no note that
  decides. Every round advances by at least the size of a note header.
\<close>

function scan_notes :: "u8 list \<Rightarrow> nat \<Rightarrow> nat \<Rightarrow> int option option" where
  "scan_notes bs p segment_end =
     (if \<not> p < segment_end then Some None
      else if length bs < p + 12 then None
      else
        let n_namesz = word32_at bs p; n_type = word32_at bs (p + 8); name = p + 12 in
        if n_type = 7 \<or> n_type = 8 then Some (Some (-1))
        else
          (case (if n_type = 10 \<and> n_namesz = 4 then bytes_at bs name AMD_NAME else Some False) of
             None \<Rightarrow> None
           | Some True \<Rightarrow> Some (Some 2)
           | Some False \<Rightarrow>
               (case (if n_type = 32 \<and> n_namesz = 7 then bytes_at bs name AMDGPU_NAME
                      else Some False) of
                  None \<Rightarrow> None
                | Some True \<Rightarrow> Some (Some 3)
                | Some False \<Rightarrow> scan_notes bs (next_note bs p) segment_end)))"
  by pat_completeness auto
termination
  by (relation "measure (\<lambda>(bs, p, e). e - p)") (auto simp: next_note_def)

declare scan_notes.simps [simp del]

fun scan_segments :: "u8 list \<Rightarrow> GElf_Phdr option list \<Rightarrow> int option" where
  "scan_segments bs [] = Some (-1)"
| "scan_segments bs (None # hs) = scan_segments bs hs"
| "scan_segments bs (Some h # hs) =
     (if p_type h = PT_NOTE \<and> p_align h \<ge> 4 then
        (case scan_notes bs (unat (p_offset h)) (unat (p_offset h) + unat (p_filesz h)) of
           None \<Rightarrow> None
         | Some (Some v) \<Rightarrow> Some v
         | Some None \<Rightarrow> scan_segments bs hs)
      else scan_segments bs hs)"

text \<open>
  The parameter gives, for an ELF image, the program headers that can be read, and \<open>None\<close> when the
  image is not an ELF file or has no readable header table.
\<close>

definition get_code_object_version ::
  "(u8 list \<Rightarrow> GElf_Phdr option list option) \<Rightarrow> u8 list \<Rightarrow> int option" where
  "get_code_object_version elf_phdrs bs =
     (case elf_phdrs bs of None \<Rightarrow> Some (-1) | Some hs \<Rightarrow> scan_segments bs hs)"

section \<open>Notes as a compiler writes them\<close>

definition pad4 :: "u8 list \<Rightarrow> u8 list" where
  "pad4 bs = bs @ replicate ((length bs + 3) div 4 * 4 - length bs) 0"

type_synonym elf_note = "u32 \<times> u8 list \<times> u8 list"

fun encode_note :: "elf_note \<Rightarrow> u8 list" where
  "encode_note (ty, name, desc) =
     le32 (of_nat (length name)) @ le32 (of_nat (length desc)) @ le32 ty @ pad4 name @ pad4 desc"

fun note_verdict :: "elf_note \<Rightarrow> int option" where
  "note_verdict (ty, name, desc) =
     (if ty = 7 \<or> ty = 8 then Some (-1)
      else if ty = 10 \<and> name = AMD_NAME then Some 2
      else if ty = 32 \<and> name = AMDGPU_NAME then Some 3
      else None)"

fun first_verdict :: "elf_note list \<Rightarrow> int option" where
  "first_verdict [] = None"
| "first_verdict (n # ns) = (case note_verdict n of None \<Rightarrow> first_verdict ns | Some v \<Rightarrow> Some v)"

fun note_fits :: "elf_note \<Rightarrow> bool" where
  "note_fits (ty, name, desc) \<longleftrightarrow> length name + 4 < 2 ^ 32 \<and> length desc + 4 < 2 ^ 32"

lemma length_le32 [simp]: "length (le32 w) = 4"
  by (simp add: le32_def)

lemma length_pad4 [simp]: "length (pad4 bs) = (length bs + 3) div 4 * 4"
proof -
  have "length bs \<le> (length bs + 3) div 4 * 4" using ceil_div_bounds(1) [of 4 "length bs"] by simp
  then show ?thesis by (simp add: pad4_def)
qed

lemma unat_ucast_down:
  "unat (x :: u64) < 2 ^ 32 \<Longrightarrow> unat (ucast x :: u32) = unat x"
  by (simp add: unsigned_ucast_eq take_bit_nat_eq_self)

lemma unat_ucast_64: "unat (ucast (x :: u32) :: u64) = unat x"
  by (simp add: unsigned_ucast_eq take_bit_nat_eq_self order.strict_trans [OF unsigned_less])

lemma alignUp4:
  assumes n: "n + 4 < 2 ^ 32"
  shows "unat (alignUp (of_nat n :: u32) 4) = (n + 3) div 4 * 4"
proof -
  let ?s = "(ucast (of_nat n :: u32) :: u64) + 4 - 1"
  have u: "unat (of_nat n :: u32) = n" using n by (simp add: unat_of_nat)
  have s3: "?s = ucast (of_nat n :: u32) + 3" by simp
  have us: "unat ?s = n + 3"
    unfolding s3 using n u by (subst unat_add_lem [THEN iffD1]) (auto simp: unat_ucast_64)
  then have ud: "unat (ucast ?s :: u32) = n + 3" using n by (simp add: unat_ucast_down)
  have m: "(4 - 1 :: u64) = mask 2" by (simp add: mask_eq_exp_minus_1)
  have ua: "unat ((ucast (ucast ?s :: u32) :: u64) AND NOT (mask 2)) = (n + 3) div 4 * 4"
    by (simp only: unat_and_not_mask unat_ucast_64 ud) simp
  have "(n + 3) div 4 * 4 < 2 ^ 32"
    using n div_times_less_eq_dividend [of "n + 3" 4] by linarith
  then show ?thesis
    unfolding alignUp_def alignDown_def m using ua by (simp only: unat_ucast_down)
qed

section \<open>The scan reads what was written\<close>

lemma bytes_at_append:
  "length pre = p \<Longrightarrow> length xs = length name \<Longrightarrow> bytes_at (pre @ xs @ post) p name = Some (xs = name)"
  by (simp add: bytes_at_def)

lemma scan_one_note:
  fixes pre post :: "u8 list"
  assumes fits: "note_fits (ty, name, desc)" and p: "length pre = p"
    and e: "p + length (encode_note (ty, name, desc)) \<le> e"
  defines "bs \<equiv> pre @ encode_note (ty, name, desc) @ post"
  shows "scan_notes bs p e =
     (case note_verdict (ty, name, desc) of
        Some v \<Rightarrow> Some (Some v)
      | None \<Rightarrow> scan_notes bs (p + length (encode_note (ty, name, desc))) e)"
proof -
  let ?n = "of_nat (length name) :: u32" and ?d = "of_nat (length desc) :: u32"
  have b0: "bs = pre @ le32 ?n @ (le32 ?d @ le32 ty @ pad4 name @ pad4 desc @ post)"
    and b1: "bs = (pre @ le32 ?n) @ le32 ?d @ (le32 ty @ pad4 name @ pad4 desc @ post)"
    and b2: "bs = (pre @ le32 ?n @ le32 ?d) @ le32 ty @ (pad4 name @ pad4 desc @ post)"
    and b3: "bs = (pre @ le32 ?n @ le32 ?d @ le32 ty) @ name @
      (replicate ((length name + 3) div 4 * 4 - length name) 0 @ pad4 desc @ post)"
    by (simp_all add: bs_def pad4_def)
  have w0: "word32_at bs p = ?n" unfolding b0 using p by (rule word32_at_le32)
  have w1: "word32_at bs (p + 4) = ?d" unfolding b1 by (rule word32_at_le32) (simp add: p)
  have w2: "word32_at bs (p + 8) = ty" unfolding b2 by (rule word32_at_le32) (simp add: p)
  have cmp: "bytes_at bs (p + 12) nm = Some (name = nm)" if "length name = length nm" for nm
    unfolding b3 using that by (intro bytes_at_append) (simp_all add: p)
  have fit: "length name + 4 < 2 ^ 32" "length desc + 4 < 2 ^ 32" using fits by simp_all
  have len: "length (encode_note (ty, name, desc)) =
      12 + (length name + 3) div 4 * 4 + (length desc + 3) div 4 * 4" by simp
  have nx: "next_note bs p = p + length (encode_note (ty, name, desc))"
    unfolding next_note_def w0 w1 len using fit by (simp only: alignUp4)
  have inside: "\<not> length bs < p + 12" "p < e"
    using e p by (simp_all add: bs_def)
  have nn: "?n = of_nat m \<longleftrightarrow> length name = m" if "m < 2 ^ 32" for m
  proof -
    have "unat ?n = length name" "unat (of_nat m :: u32) = m"
      using fit that by (simp_all add: unat_of_nat)
    then show ?thesis by metis
  qed
  have n4: "?n = 4 \<longleftrightarrow> length name = 4" and n7: "?n = 7 \<longleftrightarrow> length name = 7"
    using nn [of 4] nn [of 7] by simp_all
  have l: "length AMD_NAME = 4" "length AMDGPU_NAME = 7" by (simp_all add: AMD_NAME_def AMDGPU_NAME_def)
  show ?thesis
    using inside cmp [of AMD_NAME] cmp [of AMDGPU_NAME] l
    by (subst scan_notes.simps) (auto simp: Let_def w0 w2 n4 n7 nx split: option.splits bool.splits)
qed

lemma scan_notes_encoded:
  assumes "\<forall>n \<in> set ns. note_fits n"
  shows "scan_notes (pre @ concat (map encode_note ns) @ post) (length pre)
    (length pre + length (concat (map encode_note ns))) = Some (first_verdict ns)"
  using assms
proof (induction ns arbitrary: pre)
  case Nil
  show ?case by (subst scan_notes.simps) simp
next
  case (Cons n ns)
  obtain ty name desc where n: "n = (ty, name, desc)" by (cases n) auto
  let ?en = "encode_note n" and ?rest = "concat (map encode_note ns)"
  have "scan_notes (pre @ ?en @ (?rest @ post)) (length pre) (length pre + length (?en @ ?rest)) =
    (case note_verdict n of Some v \<Rightarrow> Some (Some v)
     | None \<Rightarrow> scan_notes (pre @ ?en @ (?rest @ post)) (length pre + length ?en)
         (length pre + length (?en @ ?rest)))"
    unfolding n using Cons.prems n by (intro scan_one_note) auto
  moreover have "scan_notes ((pre @ ?en) @ ?rest @ post) (length (pre @ ?en))
      (length (pre @ ?en) + length ?rest) = Some (first_verdict ns)"
    using Cons.prems by (intro Cons.IH) simp
  ultimately show ?case by (simp add: add.assoc split: option.splits)
qed

text \<open>
  C33. The version of a code object is that of its first metadata note: for an image with one note
  segment that holds a sequence of notes as a compiler writes them (type, name and description,
  each padded to four bytes), the walk over the bytes ends, stays inside the image and returns
  what the first note that has a verdict says, or failure.
\<close>

theorem code_object_version_of_notes:
  assumes fits: "\<forall>n \<in> set ns. note_fits n"
    and image: "bs = pre @ concat (map encode_note ns) @ post" and small: "length bs < 2 ^ 64"
    and hdr: "elf_phdrs bs = Some (hs @ [Some h])" "\<forall>x \<in> set hs. \<forall>g. x = Some g \<longrightarrow> p_type g \<noteq> PT_NOTE"
    and note_hdr: "p_type h = PT_NOTE" "p_align h = 4" "p_offset h = of_nat (length pre)"
      "p_filesz h = of_nat (length (concat (map encode_note ns)))"
  shows "get_code_object_version elf_phdrs bs = Some (case first_verdict ns of None \<Rightarrow> -1 | Some v \<Rightarrow> v)"
proof -
  have "length pre < 2 ^ 64" "length (concat (map encode_note ns)) < 2 ^ 64"
    using small image by simp_all
  then have u: "unat (p_offset h) = length pre"
    "unat (p_filesz h) = length (concat (map encode_note ns))"
    using note_hdr by (simp_all add: unat_of_nat)
  have "scan_segments bs [Some h] = Some (case first_verdict ns of None \<Rightarrow> -1 | Some v \<Rightarrow> v)"
    using scan_notes_encoded [OF fits, of pre post] note_hdr(1, 2)
    by (simp add: u image split: option.splits)
  moreover have "scan_segments bs (hs @ [Some h]) = scan_segments bs [Some h]"
    using hdr(2) by (induction bs hs rule: scan_segments.induct) auto
  ultimately show ?thesis using hdr(1) by (simp add: get_code_object_version_def)
qed

definition demo_notes :: "elf_note list" where
  "demo_notes = [(1, [71, 78, 85, 0], [1, 2, 3]), (32, AMDGPU_NAME, [130, 1])]"

theorem code_object_version_of_notes_witness:
  "get_code_object_version
     (\<lambda>_. Some [Some \<lparr>p_type = PT_NOTE, p_offset = 2, p_filesz = 44, p_align = 4\<rparr>])
     ([127, 69] @ concat (map encode_note demo_notes)) = Some 3"
proof -
  have v: "first_verdict demo_notes = Some 3" by (simp add: demo_notes_def AMDGPU_NAME_def AMD_NAME_def)
  have l: "length (concat (map encode_note demo_notes)) = 44"
    by (simp add: demo_notes_def AMDGPU_NAME_def)
  show ?thesis
    using code_object_version_of_notes [of demo_notes "[127, 69] @ concat (map encode_note demo_notes)"
        "[127, 69]" "[]" "\<lambda>_. Some [Some \<lparr>p_type = PT_NOTE, p_offset = 2, p_filesz = 44, p_align = 4\<rparr>]"
        "[]" "\<lparr>p_type = PT_NOTE, p_offset = 2, p_filesz = 44, p_align = 4\<rparr>"] v l
    by (simp add: demo_notes_def AMDGPU_NAME_def)
qed

end
