(* ===== verification/Module_Load.thy ===== *)
theory Module_Load
  imports Metadata Elf_Notes Kernel_API
begin

text \<open>
  Loading code objects (\<open>core/system.cpp\<close>): reading the kernel metadata into \<open>KernelInfoTable\<close>,
  reading the symbols of the finished executable, and the registration of modules on one or all
  GPUs. COMGR, \<open>libelf\<close>, the HSA loader and the file system are the parameters in \<open>loader_env\<close>.
  \<open>None\<close> is an exit of the program or an access out of range.
\<close>

section \<open>What is read from outside\<close>

text \<open>
  The metadata of one kernel as COMGR presents it. A missing argument list is \<open>None\<close>; so is a
  lookup or an argument node that fails.
\<close>

record kernel_node =
  kn_node_name :: string
  kn_node_symbol :: string
  kn_node_props :: "(string \<times> string) list"
  kn_node_segsize :: string
  kn_node_args :: "(string \<times> string) list list option"

datatype hsa_symbol =
    KernelSymbol string u64 u32 u32
  | VariableSymbol string u64 u32
  | IndirectSymbol string

record loader_env =
  comgr_strict :: bool
  comgr_kernels :: "int \<Rightarrow> u8 list \<Rightarrow> kernel_node list option"
  elf_phdrs :: "u8 list \<Rightarrow> GElf_Phdr option list option"
  loads_on :: "nat \<Rightarrow> u8 list \<Rightarrow> bool"
  symbols_of :: "nat \<Rightarrow> u8 list list \<Rightarrow> hsa_symbol list"
  file_bytes :: "string \<Rightarrow> u8 list option"

record module_state =
  ms_rt :: rt_state
  KernelNameMap :: "string \<rightharpoonup> string"
  SymbolInfoTable :: "(string \<rightharpoonup> u64 \<times> u32) list"
  g_executables :: nat

section \<open>Kernel metadata\<close>

text \<open>\<open>std::stoi\<close> throws when there is no number or it is not an \<open>int\<close>.\<close>

definition stoi :: "string \<Rightarrow> int option" where
  "stoi s =
     (let t = dropWhile (\<lambda>c. c \<in> set '' '' \<or> of_char c \<in> {9 .. 13 :: nat}) s;
          digits = (case t of c # cs \<Rightarrow> if c = CHR ''-'' \<or> c = CHR ''+'' then cs else t | [] \<Rightarrow> [])
      in case digits of
           [] \<Rightarrow> None
         | d # _ \<Rightarrow> if is_digit d \<and> -2147483648 \<le> atoi s \<and> atoi s \<le> 2147483647
                    then Some (atoi s) else None)"

definition set_info :: "nat \<Rightarrow> string \<Rightarrow> atl_kernel_info_t \<Rightarrow> module_state \<Rightarrow> module_state option" where
  "set_info gpu name info m =
     (let tbl = KernelInfoTable (ms_rt m) in
      if gpu < length tbl
      then Some (m\<lparr>ms_rt := (ms_rt m)\<lparr>KernelInfoTable := tbl[gpu := (tbl ! gpu)(name \<mapsto> info)]\<rparr>\<rparr>)
      else None)"

text \<open>A kernel without a segment has no arguments; else its argument list must be readable.\<close>

definition kernel_args :: "loader_env \<Rightarrow> u64 \<Rightarrow> kernel_node \<Rightarrow> KernelArgMD list option" where
  "kernel_args L seg k =
     (if 0 < seg then Option.bind (kn_node_args k) (read_args (comgr_strict L)) else Some [])"

text \<open>
  One round of the loop over the kernels of version 2. The first component says whether the
  loop goes on; an error that COMGR reports leaves the function with what was entered so far.
\<close>

definition kernel_v2 ::
  "loader_env \<Rightarrow> nat \<Rightarrow> kernel_node \<Rightarrow> module_state \<Rightarrow> (bool \<times> module_state) option" where
  "kernel_v2 L gpu k m =
     (let m = m\<lparr>KernelNameMap := (KernelNameMap m)(kn_node_name k \<mapsto> kn_node_name k)\<rparr> in
      case iterate_map (comgr_strict L) populateCodeProps (kn_node_props k) 0 of
        (False, _) \<Rightarrow> Some (False, m)
      | (True, seg) \<Rightarrow>
          (case kernel_args L seg k of
             None \<Rightarrow> Some (False, m)
           | Some args \<Rightarrow>
               map_option (Pair True) (set_info gpu (kn_node_name k) (kernel_info_v2 seg args) m)))"

definition kernel_v3 ::
  "loader_env \<Rightarrow> nat \<Rightarrow> kernel_node \<Rightarrow> module_state \<Rightarrow> (bool \<times> module_state) option" where
  "kernel_v3 L gpu k m =
     (let m = m\<lparr>KernelNameMap := (KernelNameMap m)(kn_node_symbol k \<mapsto> kn_node_name k)\<rparr> in
      case stoi (kn_node_segsize k) of
        None \<Rightarrow> None
      | Some n \<Rightarrow>
          let seg = word_of_int n :: u64 in
          (case kernel_args L seg k of
             None \<Rightarrow> Some (False, m)
           | Some args \<Rightarrow>
               map_option (Pair True) (set_info gpu (kn_node_name k) (kernel_info_v3 seg args) m)))"

fun kernels_loop ::
  "(kernel_node \<Rightarrow> module_state \<Rightarrow> (bool \<times> module_state) option) \<Rightarrow> kernel_node list \<Rightarrow>
   module_state \<Rightarrow> (bool \<times> module_state) option" where
  "kernels_loop f [] m = Some (True, m)"
| "kernels_loop f (k # ks) m =
     (case f k m of
        None \<Rightarrow> None
      | Some (False, m) \<Rightarrow> Some (False, m)
      | Some (True, m) \<Rightarrow> kernels_loop f ks m)"

definition get_code_object_custom_metadata_v2 ::
  "loader_env \<Rightarrow> u8 list \<Rightarrow> nat \<Rightarrow> module_state \<Rightarrow> (bool \<times> module_state) option" where
  "get_code_object_custom_metadata_v2 L binary gpu m =
     (case comgr_kernels L 2 binary of
        None \<Rightarrow> Some (False, m)
      | Some ks \<Rightarrow> kernels_loop (kernel_v2 L gpu) ks m)"

definition get_code_object_custom_metadata_v3 ::
  "loader_env \<Rightarrow> u8 list \<Rightarrow> nat \<Rightarrow> module_state \<Rightarrow> (bool \<times> module_state) option" where
  "get_code_object_custom_metadata_v3 L binary gpu m =
     (case comgr_kernels L 3 binary of
        None \<Rightarrow> Some (False, m)
      | Some ks \<Rightarrow> kernels_loop (kernel_v3 L gpu) ks m)"

definition get_code_object_custom_metadata ::
  "loader_env \<Rightarrow> u8 list \<Rightarrow> nat \<Rightarrow> module_state \<Rightarrow> (bool \<times> module_state) option" where
  "get_code_object_custom_metadata L binary gpu m =
     (case get_code_object_version (elf_phdrs L) binary of
        None \<Rightarrow> None
      | Some v \<Rightarrow>
          if v = 2 then get_code_object_custom_metadata_v2 L binary gpu m
          else if v = 3 then get_code_object_custom_metadata_v3 L binary gpu m
          else Some (False, m))"

section \<open>Symbols of the executable\<close>

definition gpu_mem_place :: "nat \<Rightarrow> atmi_mem_place_t" where
  "gpu_mem_place gpu =
     \<lparr>mem_node_id = 0, dev_type = ATMI_DEVTYPE_GPU, dev_id = int gpu, mem_id = 0\<rparr>"

fun populate_InfoTables :: "nat \<Rightarrow> hsa_symbol \<Rightarrow> module_state \<Rightarrow> module_state option" where
  "populate_InfoTables gpu (KernelSymbol name obj grp priv) m =
     do {
       kernelName \<leftarrow> KernelNameMap m name;
       info \<leftarrow> (if gpu < length (KernelInfoTable (ms_rt m))
               then (KernelInfoTable (ms_rt m) ! gpu) kernelName else None);
       set_info gpu kernelName
         (info\<lparr>kernel_object := obj, group_segment_size := grp, private_segment_size := priv\<rparr>) m
     }"
| "populate_InfoTables gpu (VariableSymbol name addr sz) m =
     (if \<not> gpu < length (SymbolInfoTable m) then None
      else if (SymbolInfoTable m ! gpu) name \<noteq> None then None
      else Some (m\<lparr>ms_rt := (ms_rt m)\<lparr>g_data_map :=
              register_allocation addr (ucast sz) (gpu_mem_place gpu) (g_data_map (ms_rt m)),
              hostcall_required := hostcall_required (ms_rt m) \<or> name = ''needs_hostcall_buffer''\<rparr>,
            SymbolInfoTable := (SymbolInfoTable m)
              [gpu := (SymbolInfoTable m ! gpu)(name \<mapsto> (addr, sz))]\<rparr>))"
| "populate_InfoTables gpu (IndirectSymbol name) m = Some m"

fun iterate_symbols :: "nat \<Rightarrow> hsa_symbol list \<Rightarrow> module_state \<Rightarrow> module_state option" where
  "iterate_symbols gpu [] m = Some m"
| "iterate_symbols gpu (sy # syms) m =
     Option.bind (populate_InfoTables gpu sy m) (iterate_symbols gpu syms)"

section \<open>Registration\<close>

text \<open>
  The loop over the modules: the modules that were loaded into the executable are collected.
  Modules of another platform, without metadata or refused by the loader are passed over.
\<close>

fun load_modules ::
  "loader_env \<Rightarrow> nat \<Rightarrow> (u8 list \<times> atmi_platform_type_t) list \<Rightarrow> u8 list list \<Rightarrow> module_state \<Rightarrow>
   (u8 list list \<times> module_state) option" where
  "load_modules L gpu [] loaded m = Some (loaded, m)"
| "load_modules L gpu ((bytes, ty) # ms) loaded m =
     (if ty = AMDGCN then
        (case get_code_object_custom_metadata L bytes gpu m of
           None \<Rightarrow> None
         | Some (False, m) \<Rightarrow> load_modules L gpu ms loaded m
         | Some (True, m) \<Rightarrow>
             if loads_on L gpu bytes then load_modules L gpu ms (loaded @ [bytes]) m
             else load_modules L gpu ms loaded m)
      else load_modules L gpu ms loaded m)"

definition RegisterModuleFromMemory_on ::
  "loader_env \<Rightarrow> (u8 list \<times> atmi_platform_type_t) list \<Rightarrow> atmi_place_t \<Rightarrow> module_state \<Rightarrow>
   (atmi_status_t \<times> module_state) option" where
  "RegisterModuleFromMemory_on L modules place m =
     do {
       let gpu = (if device_id place = -1 then 0 else nat (device_id place));
       _ \<leftarrow> get_processor (gpu_processors (machine (ms_rt m))) place;
       (loaded, m) \<leftarrow> load_modules L gpu modules [] m;
       if loaded \<noteq> [] then do {
         m \<leftarrow> iterate_symbols gpu (symbols_of L gpu loaded) m;
         Some (ATMI_STATUS_SUCCESS, m\<lparr>g_executables := g_executables m + 1\<rparr>)
       }
       else Some (ATMI_STATUS_ERROR, m)
     }"

fun register_on_gpus ::
  "loader_env \<Rightarrow> (u8 list \<times> atmi_platform_type_t) list \<Rightarrow> nat list \<Rightarrow> bool \<Rightarrow> module_state \<Rightarrow>
   (atmi_status_t \<times> module_state) option" where
  "register_on_gpus L modules [] some_success m =
     Some (if some_success then ATMI_STATUS_SUCCESS else ATMI_STATUS_ERROR, m)"
| "register_on_gpus L modules (gpu # gpus) some_success m =
     do {
       (status, m) \<leftarrow> RegisterModuleFromMemory_on L modules (ATMI_PLACE_GPU 0 (int gpu)) m;
       register_on_gpus L modules gpus (some_success \<or> status = ATMI_STATUS_SUCCESS) m
     }"

definition RegisterModuleFromMemory ::
  "loader_env \<Rightarrow> (u8 list \<times> atmi_platform_type_t) list \<Rightarrow> module_state \<Rightarrow>
   (atmi_status_t \<times> module_state) option" where
  "RegisterModuleFromMemory L modules m =
     register_on_gpus L modules [0..<length (gpu_processors (machine (ms_rt m)))] False m"

fun read_files :: "loader_env \<Rightarrow> (string \<times> atmi_platform_type_t) list \<Rightarrow>
    (u8 list \<times> atmi_platform_type_t) list option" where
  "read_files L [] = Some []"
| "read_files L ((f, ty) # fs) =
     (case file_bytes L f of
        None \<Rightarrow> None
      | Some bytes \<Rightarrow> map_option ((#) (bytes, ty)) (read_files L fs))"

definition RegisterModule ::
  "loader_env \<Rightarrow> (string \<times> atmi_platform_type_t) list \<Rightarrow> module_state \<Rightarrow>
   (atmi_status_t \<times> module_state) option" where
  "RegisterModule L files m =
     (case read_files L files of
        None \<Rightarrow> Some (ATMI_STATUS_ERROR, m)
      | Some modules \<Rightarrow> RegisterModuleFromMemory L modules m)"

definition RegisterModule_on ::
  "loader_env \<Rightarrow> (string \<times> atmi_platform_type_t) list \<Rightarrow> atmi_place_t \<Rightarrow> module_state \<Rightarrow>
   (atmi_status_t \<times> module_state) option" where
  "RegisterModule_on L files place m =
     (case read_files L files of
        None \<Rightarrow> Some (ATMI_STATUS_ERROR, m)
      | Some modules \<Rightarrow> RegisterModuleFromMemory_on L modules place m)"

section \<open>What a loaded module leaves in the kernel table\<close>

text \<open>The entry that the metadata of a kernel gives, and the name of its symbol.\<close>

definition node_symbol :: "int \<Rightarrow> kernel_node \<Rightarrow> string" where
  "node_symbol v k = (if v = 2 then kn_node_name k else kn_node_symbol k)"

definition node_info :: "loader_env \<Rightarrow> int \<Rightarrow> kernel_node \<Rightarrow> atl_kernel_info_t option" where
  "node_info L v k =
     do {
       seg \<leftarrow> (if v = 2 then
                (case iterate_map (comgr_strict L) populateCodeProps (kn_node_props k) 0 of
                   (ok, seg) \<Rightarrow> if ok then Some seg else None)
              else map_option word_of_int (stoi (kn_node_segsize k)));
       args \<leftarrow> kernel_args L seg k;
       Some (if v = 2 then kernel_info_v2 seg args else kernel_info_v3 seg args)
     }"

definition kernel_step :: "loader_env \<Rightarrow> int \<Rightarrow> nat \<Rightarrow> kernel_node \<Rightarrow> module_state \<Rightarrow>
    (bool \<times> module_state) option" where
  "kernel_step L v = (if v = 2 then kernel_v2 L else kernel_v3 L)"

lemma kernel_step_entry:
  assumes "kernel_step L v gpu k m = Some (True, m')"
  shows "\<exists>info. node_info L v k = Some info \<and>
    set_info gpu (kn_node_name k) info
      (m\<lparr>KernelNameMap := (KernelNameMap m)(node_symbol v k \<mapsto> kn_node_name k)\<rparr>) = Some m'"
  using assms
  by (auto simp: kernel_step_def kernel_v2_def kernel_v3_def node_info_def node_symbol_def Let_def
      split: if_splits prod.splits bool.splits option.splits)

lemma set_info_fields:
  assumes "set_info gpu name info m = Some m'"
  shows "gpu < length (KernelInfoTable (ms_rt m))"
    and "length (KernelInfoTable (ms_rt m')) = length (KernelInfoTable (ms_rt m))"
    and "KernelInfoTable (ms_rt m') ! gpu = (KernelInfoTable (ms_rt m) ! gpu)(name \<mapsto> info)"
    and "KernelNameMap m' = KernelNameMap m"
  using assms by (auto simp: set_info_def Let_def split: if_splits)

lemma kernels_loop_entries:
  assumes "kernels_loop (kernel_step L v gpu) ks m = Some (True, m')"
    and "distinct (map kn_node_name ks)" and "distinct (map (node_symbol v) ks)"
  shows "(\<forall>k \<in> set ks. KernelNameMap m' (node_symbol v k) = Some (kn_node_name k) \<and>
      node_info L v k \<noteq> None \<and> (KernelInfoTable (ms_rt m') ! gpu) (kn_node_name k) = node_info L v k) \<and>
    (\<forall>n. n \<notin> kn_node_name ` set ks \<longrightarrow>
      (KernelInfoTable (ms_rt m') ! gpu) n = (KernelInfoTable (ms_rt m) ! gpu) n) \<and>
    (\<forall>n. n \<notin> node_symbol v ` set ks \<longrightarrow> KernelNameMap m' n = KernelNameMap m n)"
  using assms
proof (induction ks arbitrary: m)
  case (Cons k ks)
  obtain m1 where m1: "kernel_step L v gpu k m = Some (True, m1)"
    "kernels_loop (kernel_step L v gpu) ks m1 = Some (True, m')"
    using Cons.prems(1) by (auto split: option.splits prod.splits bool.splits)
  obtain info where i: "node_info L v k = Some info"
    "set_info gpu (kn_node_name k) info
      (m\<lparr>KernelNameMap := (KernelNameMap m)(node_symbol v k \<mapsto> kn_node_name k)\<rparr>) = Some m1"
    using kernel_step_entry [OF m1(1)] by auto
  note f = set_info_fields [OF i(2)]
  have IH: "\<forall>k \<in> set ks. KernelNameMap m' (node_symbol v k) = Some (kn_node_name k) \<and>
      node_info L v k \<noteq> None \<and> (KernelInfoTable (ms_rt m') ! gpu) (kn_node_name k) = node_info L v k"
    "\<forall>n. n \<notin> kn_node_name ` set ks \<longrightarrow>
      (KernelInfoTable (ms_rt m') ! gpu) n = (KernelInfoTable (ms_rt m1) ! gpu) n"
    "\<forall>n. n \<notin> node_symbol v ` set ks \<longrightarrow> KernelNameMap m' n = KernelNameMap m1 n"
    using Cons.IH [OF m1(2)] Cons.prems(2, 3) by simp_all
  have "kn_node_name k \<notin> kn_node_name ` set ks" "node_symbol v k \<notin> node_symbol v ` set ks"
    using Cons.prems(2, 3) by simp_all
  then show ?case using IH i(1) f(3, 4) by simp
qed simp

text \<open>The names that the kernel symbols of an executable have in the kernel table.\<close>

fun kernel_symbol :: "hsa_symbol \<Rightarrow> string option" where
  "kernel_symbol (KernelSymbol n obj grp priv) = Some n"
| "kernel_symbol _ = None"

definition symbol_names :: "(string \<rightharpoonup> string) \<Rightarrow> hsa_symbol list \<Rightarrow> string option list" where
  "symbol_names nm syms = map nm (List.map_filter kernel_symbol syms)"

lemma populate_kernel_symbol:
  assumes "populate_InfoTables gpu (KernelSymbol n obj grp priv) m = Some m'"
  obtains kn info where "KernelNameMap m n = Some kn"
    and "(KernelInfoTable (ms_rt m) ! gpu) kn = Some info" and "KernelNameMap m' = KernelNameMap m"
    and "KernelInfoTable (ms_rt m') ! gpu = (KernelInfoTable (ms_rt m) ! gpu)(kn \<mapsto>
      info\<lparr>kernel_object := obj, group_segment_size := grp, private_segment_size := priv\<rparr>)"
proof -
  obtain kn info where k: "KernelNameMap m n = Some kn"
    "(KernelInfoTable (ms_rt m) ! gpu) kn = Some info"
    and s: "set_info gpu kn (info\<lparr>kernel_object := obj, group_segment_size := grp,
      private_segment_size := priv\<rparr>) m = Some m'"
    using assms by (auto simp: bind_eq_Some_conv split: if_splits)
  show ?thesis by (rule that [OF k set_info_fields(4, 3) [OF s]])
qed

lemma populate_keeps:
  assumes p: "populate_InfoTables gpu sy m = Some m'"
  shows "KernelNameMap m' = KernelNameMap m"
    and "\<forall>n. kernel_symbol sy = Some n \<longrightarrow> KernelNameMap m n \<noteq> Some kn \<Longrightarrow>
      (KernelInfoTable (ms_rt m') ! gpu) kn = (KernelInfoTable (ms_rt m) ! gpu) kn"
proof -
  have "KernelNameMap m' = KernelNameMap m \<and>
    ((\<forall>n. kernel_symbol sy = Some n \<longrightarrow> KernelNameMap m n \<noteq> Some kn) \<longrightarrow>
      (KernelInfoTable (ms_rt m') ! gpu) kn = (KernelInfoTable (ms_rt m) ! gpu) kn)"
  proof (cases sy)
    case (KernelSymbol n obj grp priv)
    show ?thesis
      using p unfolding KernelSymbol by (rule populate_kernel_symbol) auto
  qed (use p in \<open>auto split: if_splits\<close>)
  then show "KernelNameMap m' = KernelNameMap m"
    and "\<forall>n. kernel_symbol sy = Some n \<longrightarrow> KernelNameMap m n \<noteq> Some kn \<Longrightarrow>
      (KernelInfoTable (ms_rt m') ! gpu) kn = (KernelInfoTable (ms_rt m) ! gpu) kn"
    by blast+
qed

lemma iterate_symbols_keeps:
  assumes "iterate_symbols gpu syms m = Some m'" and "Some kn \<notin> set (symbol_names (KernelNameMap m) syms)"
  shows "(KernelInfoTable (ms_rt m') ! gpu) kn = (KernelInfoTable (ms_rt m) ! gpu) kn"
  using assms
proof (induction syms arbitrary: m)
  case (Cons sy syms)
  then obtain m1 where m1: "populate_InfoTables gpu sy m = Some m1" "iterate_symbols gpu syms m1 = Some m'"
    by (auto simp: bind_eq_Some_conv)
  note p = populate_keeps [OF m1(1)]
  have "Some kn \<notin> set (symbol_names (KernelNameMap m1) syms)"
    and "\<forall>n. kernel_symbol sy = Some n \<longrightarrow> KernelNameMap m n \<noteq> Some kn"
    using Cons.prems(2) p(1) by (auto simp: symbol_names_def map_filter_simps split: option.splits)
  then show ?case using Cons.IH [OF m1(2)] p(2) by simp
qed simp

lemma iterate_symbols_entry:
  assumes "iterate_symbols gpu syms m = Some m'" and "distinct (symbol_names (KernelNameMap m) syms)"
    and "KernelSymbol n obj grp priv \<in> set syms" and "KernelNameMap m n = Some kn"
  shows "(KernelInfoTable (ms_rt m') ! gpu) kn = map_option (\<lambda>info. info\<lparr>kernel_object := obj,
    group_segment_size := grp, private_segment_size := priv\<rparr>) ((KernelInfoTable (ms_rt m) ! gpu) kn)"
  using assms
proof (induction syms arbitrary: m)
  case (Cons sy syms)
  then obtain m1 where m1: "populate_InfoTables gpu sy m = Some m1" "iterate_symbols gpu syms m1 = Some m'"
    by (auto simp: bind_eq_Some_conv)
  note p = populate_keeps [OF m1(1)]
  have d: "distinct (symbol_names (KernelNameMap m1) syms)"
    using Cons.prems(2) p(1) by (auto simp: symbol_names_def map_filter_simps split: option.splits)
  show ?case
  proof (cases "sy = KernelSymbol n obj grp priv")
    case True
    have "Some kn \<notin> set (symbol_names (KernelNameMap m1) syms)"
      using Cons.prems(2, 4) p(1) True by (auto simp: symbol_names_def map_filter_simps)
    moreover have "(KernelInfoTable (ms_rt m1) ! gpu) kn = map_option (\<lambda>info. info\<lparr>kernel_object := obj,
        group_segment_size := grp, private_segment_size := priv\<rparr>) ((KernelInfoTable (ms_rt m) ! gpu) kn)"
      using m1(1) Cons.prems(4) unfolding True by (elim populate_kernel_symbol) simp
    ultimately show ?thesis using iterate_symbols_keeps [OF m1(2)] by simp
  next
    case False
    then have i: "KernelSymbol n obj grp priv \<in> set syms" using Cons.prems(3) by simp
    have "n \<in> set (List.map_filter kernel_symbol syms)"
      using i by (auto simp: List.map_filter_def intro!: image_eqI [where x = "KernelSymbol n obj grp priv"])
    then have "\<forall>n'. kernel_symbol sy = Some n' \<longrightarrow> KernelNameMap m n' \<noteq> Some kn"
      using Cons.prems(2, 4)
      by (force simp: symbol_names_def map_filter_simps split: option.splits)
    then show ?thesis using Cons.IH [OF m1(2) d i] Cons.prems(4) p by simp
  qed
qed simp

lemma register_one_module:
  assumes reg: "RegisterModuleFromMemory_on L [(bytes, AMDGCN)] place m = Some (ATMI_STATUS_SUCCESS, m')"
    and v: "get_code_object_version (elf_phdrs L) bytes = Some v"
    and ks: "comgr_kernels L v bytes = Some ks"
    and gpu: "gpu = (if device_id place = -1 then 0 else nat (device_id place))"
  obtains m1 m2 where "kernels_loop (kernel_step L v gpu) ks m = Some (True, m1)"
    and "iterate_symbols gpu (symbols_of L gpu [bytes]) m1 = Some m2"
    and "KernelInfoTable (ms_rt m') = KernelInfoTable (ms_rt m2)"
proof -
  obtain loaded m1 m2 where l: "load_modules L gpu [(bytes, AMDGCN)] [] m = Some (loaded, m1)" "loaded \<noteq> []"
    and m2: "iterate_symbols gpu (symbols_of L gpu loaded) m1 = Some m2"
      "m' = m2\<lparr>g_executables := g_executables m2 + 1\<rparr>"
    using reg unfolding gpu by (auto simp: RegisterModuleFromMemory_on_def Let_def bind_eq_Some_conv
        split: if_splits prod.splits)
  have c: "get_code_object_custom_metadata L bytes gpu m = Some (True, m1)" "loaded = [bytes]"
    using l by (auto split: option.splits prod.splits bool.splits if_splits)
  have "kernels_loop (kernel_step L v gpu) ks m = Some (True, m1)"
    using c(1) v ks by (auto simp: get_code_object_custom_metadata_def kernel_step_def
        get_code_object_custom_metadata_v2_def get_code_object_custom_metadata_v3_def split: if_splits)
  then show ?thesis using that m2 c(2) by simp
qed

text \<open>
  C34. After a code object has been registered, a kernel of it is ready to be used: the table entry
  of the GPU under the kernel's name has the argument layout that its metadata gives and the kernel
  object and segment sizes that the loader reports for its symbol.
\<close>

theorem module_fills_kernel_table:
  assumes reg: "RegisterModuleFromMemory_on L [(bytes, AMDGCN)] place m = Some (ATMI_STATUS_SUCCESS, m')"
    and v: "get_code_object_version (elf_phdrs L) bytes = Some v"
    and ks: "comgr_kernels L v bytes = Some ks"
    and gpu: "gpu = (if device_id place = -1 then 0 else nat (device_id place))"
    and names: "distinct (map kn_node_name ks)" "distinct (map (node_symbol v) ks)"
    and syms: "distinct (List.map_filter kernel_symbol (symbols_of L gpu [bytes]))"
      "set (List.map_filter kernel_symbol (symbols_of L gpu [bytes])) \<subseteq> node_symbol v ` set ks"
    and k: "k \<in> set ks" and sy: "KernelSymbol (node_symbol v k) obj grp priv \<in> set (symbols_of L gpu [bytes])"
  shows "\<exists>info. node_info L v k = Some info \<and>
    (KernelInfoTable (ms_rt m') ! gpu) (kn_node_name k) = Some (info\<lparr>kernel_object := obj,
      group_segment_size := grp, private_segment_size := priv\<rparr>)"
proof -
  obtain m1 m2 where m1: "kernels_loop (kernel_step L v gpu) ks m = Some (True, m1)"
    and m2: "iterate_symbols gpu (symbols_of L gpu [bytes]) m1 = Some m2"
    and t: "KernelInfoTable (ms_rt m') = KernelInfoTable (ms_rt m2)"
    using register_one_module [OF reg v ks gpu] by blast
  have e: "\<forall>k \<in> set ks. KernelNameMap m1 (node_symbol v k) = Some (kn_node_name k) \<and>
      node_info L v k \<noteq> None \<and> (KernelInfoTable (ms_rt m1) ! gpu) (kn_node_name k) = node_info L v k"
    using kernels_loop_entries [OF m1 names] by blast
  have "inj_on (KernelNameMap m1) (node_symbol v ` set ks)"
    using e names(1) by (auto intro!: inj_onI simp: distinct_map dest: inj_onD)
  then have "distinct (symbol_names (KernelNameMap m1) (symbols_of L gpu [bytes]))"
    using syms by (auto simp: symbol_names_def distinct_map intro: inj_on_subset)
  from iterate_symbols_entry [OF m2 this sy] show ?thesis using e k t by auto
qed

definition demo_node :: kernel_node where
  "demo_node = \<lparr>kn_node_name = ''add'', kn_node_symbol = ''add.kd'', kn_node_props = [],
     kn_node_segsize = ''16'',
     kn_node_args = Some [[(''.name'', ''x''), (''.size'', ''8''), (''.offset'', ''0'')],
       [(''.size'', ''4''), (''.offset'', ''8''), (''.value_kind'', ''by_value'')]]\<rparr>"

definition demo_loader :: loader_env where
  "demo_loader = \<lparr>comgr_strict = False, comgr_kernels = (\<lambda>_ _. Some [demo_node]),
     elf_phdrs = (\<lambda>_. Some [Some \<lparr>p_type = PT_NOTE, p_offset = 0, p_filesz = 44, p_align = 4\<rparr>]),
     loads_on = (\<lambda>_ _. True), symbols_of = (\<lambda>_ _. [KernelSymbol ''add.kd'' 4096 16 32]),
     file_bytes = (\<lambda>_. None)\<rparr>"

definition demo_image :: "u8 list" where
  "demo_image = concat (map encode_note demo_notes)"

definition demo_module_state :: module_state where
  "demo_module_state = \<lparr>ms_rt = rt_start ATL_SYNC_CALLBACK
       \<lparr>cpu_processors = [], gpu_processors = [new_processor 5 ATMI_DEVTYPE_GPU], dsp_processors = []\<rparr>
       [Map.empty],
     KernelNameMap = Map.empty, SymbolInfoTable = [Map.empty], g_executables = 0\<rparr>"

lemma demo_module_runs:
  "map_option (\<lambda>(st, m). (st, map_option ki_arg_offsets ((KernelInfoTable (ms_rt m) ! 0) ''add'')))
     (RegisterModuleFromMemory_on demo_loader [(demo_image, AMDGCN)] (ATMI_PLACE_GPU 0 0)
       demo_module_state) = Some (ATMI_STATUS_SUCCESS, Some [0, 8])"
  "get_code_object_version (elf_phdrs demo_loader) demo_image = Some 3"
  by code_simp+

theorem module_fills_kernel_table_witness:
  "\<exists>m'. RegisterModuleFromMemory_on demo_loader [(demo_image, AMDGCN)] (ATMI_PLACE_GPU 0 0)
       demo_module_state = Some (ATMI_STATUS_SUCCESS, m') \<and>
     (\<exists>info. (KernelInfoTable (ms_rt m') ! 0) ''add'' = Some info \<and> kernel_object info = 4096 \<and>
        ki_arg_offsets info = [0, 8])"
proof -
  obtain m' where m': "RegisterModuleFromMemory_on demo_loader [(demo_image, AMDGCN)] (ATMI_PLACE_GPU 0 0)
      demo_module_state = Some (ATMI_STATUS_SUCCESS, m')"
    "map_option ki_arg_offsets ((KernelInfoTable (ms_rt m') ! 0) ''add'') = Some [0, 8]"
    using demo_module_runs(1) by auto
  have "\<exists>info. node_info demo_loader 3 demo_node = Some info \<and>
      (KernelInfoTable (ms_rt m') ! 0) (kn_node_name demo_node) = Some (info\<lparr>kernel_object := 4096,
        group_segment_size := 16, private_segment_size := 32\<rparr>)"
    by (rule module_fills_kernel_table [OF m'(1) demo_module_runs(2), where ks = "[demo_node]"])
      (simp_all add: demo_loader_def ATMI_PLACE_GPU_def node_symbol_def demo_node_def map_filter_simps)
  then show ?thesis using m' by (auto simp: demo_node_def)
qed

text \<open>
  Loading depends on COMGR passing over errors of the call-back: were the iteration over an
  argument stopped by a failing call-back, no kernel with a by-value argument could be read, because
  \<open>populateArgs\<close> rejects every value kind that it does not need.
\<close>

lemma by_value_needs_lenient_iteration:
  "populateArgs ''.value_kind'' ''by_value'' a = (False, a) \<and>
   populateArgs ''.value_kind'' ''global_buffer'' a = (False, a) \<and>
   read_args True [[(''.value_kind'', ''by_value'')]] = None \<and>
   read_args False [[(''.value_kind'', ''by_value'')]] = Some [new_KernelArgMD]"
  by (simp add: populateArgs_def ArgFieldMap_def ArgValueKind_def)

end
