(* ===== verification/Startup.thy ===== *)
theory Startup
  imports Discovery Module_Load Barrier_System
begin

text \<open>
  The start and the end of the runtime: the environment variables (\<open>include/rt.h\<close>,
  \<open>core/utils.cpp\<close>), the initialisation of HSA, processors, queues and signals, \<open>Initialize\<close> and
  \<open>Finalize\<close> (\<open>core/system.cpp\<close>). \<open>None\<close> is an exit of the program. HSA calls succeed while HSA
  is up and fail before \<open>hsa_init\<close> and after \<open>hsa_shut_down\<close>, and \<open>ErrorCheck\<close> exits then.
\<close>

section \<open>Environment variables\<close>

record Environment =
  dep_sync_type :: atl_dep_sync_t
  max_signals :: int
  max_queue_size :: int
  max_kernel_types :: int
  num_gpu_queues :: int
  num_cpu_queues :: int
  debug_mode :: int
  profile_mode :: int

text \<open>
  The constructor does not set \<open>dep_sync_type_\<close>; the only instance is static, so it starts as 0,
  the number of \<open>ATL_SYNC_BARRIER_PKT\<close>.
\<close>

definition new_Environment :: Environment where
  "new_Environment =
     \<lparr>dep_sync_type = ATL_SYNC_BARRIER_PKT, max_signals = 1024, max_queue_size = 4096,
      max_kernel_types = 32, num_gpu_queues = -1, num_cpu_queues = -1, debug_mode = 0,
      profile_mode = 0\<rparr>"

definition GetEnv :: "(string \<rightharpoonup> string) \<Rightarrow> string \<Rightarrow> string" where
  "GetEnv getenv name = (case getenv name of None \<Rightarrow> [] | Some env \<Rightarrow> env)"

definition env_int :: "(string \<rightharpoonup> string) \<Rightarrow> string \<Rightarrow> int \<Rightarrow> int option" where
  "env_int getenv name old =
     (let var = GetEnv getenv name in if var \<noteq> [] then stoi var else Some old)"

definition GetEnvAll :: "(string \<rightharpoonup> string) \<Rightarrow> Environment \<Rightarrow> Environment option" where
  "GetEnvAll getenv e =
     (if GetEnv getenv ''ATMI_HELP'' \<noteq> [] then None
      else
        let var = GetEnv getenv ''ATMI_DEPENDENCY_SYNC_TYPE'';
            dep = (if var = [] \<or> var = ''ATMI_SYNC_CALLBACK'' then ATL_SYNC_CALLBACK
                   else if var = ''ATMI_SYNC_BARRIER_PKT'' then ATL_SYNC_BARRIER_PKT
                   else dep_sync_type e)
        in do {
          a \<leftarrow> env_int getenv ''ATMI_MAX_HSA_SIGNALS'' (max_signals e);
          b \<leftarrow> env_int getenv ''ATMI_MAX_HSA_QUEUE_SIZE'' (max_queue_size e);
          c \<leftarrow> env_int getenv ''ATMI_MAX_KERNEL_TYPES'' (max_kernel_types e);
          d \<leftarrow> env_int getenv ''ATMI_DEVICE_GPU_WORKERS'' (num_gpu_queues e);
          f \<leftarrow> env_int getenv ''ATMI_DEVICE_CPU_WORKERS'' (num_cpu_queues e);
          g \<leftarrow> env_int getenv ''ATMI_DEBUG'' (debug_mode e);
          h \<leftarrow> env_int getenv ''ATMI_PROFILE'' (profile_mode e);
          Some \<lparr>dep_sync_type = dep, max_signals = a, max_queue_size = b, max_kernel_types = c,
            num_gpu_queues = d, num_cpu_queues = f, debug_mode = g, profile_mode = h\<rparr>
        })"

section \<open>The state around the runtime\<close>

text \<open>What the start asks HSA for; queues and signals are named by what they are created for.\<close>

record boot_env =
  hsa_agents :: "agent_info list"
  pool_access :: "u64 \<Rightarrow> u64 \<Rightarrow> bool"
  num_cus :: "u64 \<Rightarrow> int"
  new_queue :: "u64 \<Rightarrow> nat \<Rightarrow> qid"
  new_worker_sig :: "u64 \<Rightarrow> nat \<Rightarrow> signal"
  new_task_signal :: "nat \<Rightarrow> signal"
  boot_hsa :: hsa_env

record boot =
  bt_mod :: module_state
  bt_env :: Environment
  gpu_workers :: "string option"
  struct_initialized :: bool
  g_hsa_initialized :: bool
  g_mutex_dag_initialized :: bool
  context_init_time_init :: bool
  hsa_refs :: nat
  atl_gpu_kernarg_pools :: "u64 list"
  atl_cpu_kernarg_region :: u64
  atl_gpu_kernarg_region :: u64
  g_atmi_machine :: atmi_machine_t
  worker_threads :: "qid list"

abbreviation bt_rt :: "boot \<Rightarrow> rt_state" where
  "bt_rt b \<equiv> ms_rt (bt_mod b)"

text \<open>
  The reference count of HSA in this process: \<open>hsa_init\<close> takes a reference, \<open>hsa_shut_down\<close> gives
  one back. Any other call of HSA with a count below one is undefined behaviour; its result in the
  model is \<open>None\<close>, like that of an exit.
\<close>

abbreviation hsa_up :: "boot \<Rightarrow> bool" where
  "hsa_up b \<equiv> 0 < hsa_refs b"

definition upd_rt :: "(rt_state \<Rightarrow> rt_state) \<Rightarrow> boot \<Rightarrow> boot" where
  "upd_rt f b = b\<lparr>bt_mod := (bt_mod b)\<lparr>ms_rt := f (bt_rt b)\<rparr>\<rparr>"

text \<open>The static initialisation of the program, with the buffer of \<open>getenv\<close> that
  \<open>createQueues_gpu\<close> writes into.\<close>

definition static_start :: "Environment \<Rightarrow> string option \<Rightarrow> boot" where
  "static_start e w =
     \<lparr>bt_mod = \<lparr>ms_rt = rt_start (dep_sync_type e) no_machine [], KernelNameMap = Map.empty,
        SymbolInfoTable = [], g_executables = 0\<rparr>,
      bt_env = e, gpu_workers = w, struct_initialized = False, g_hsa_initialized = False,
      g_mutex_dag_initialized = False, context_init_time_init = False, hsa_refs = 0,
      atl_gpu_kernarg_pools = [], atl_cpu_kernarg_region = 0, atl_gpu_kernarg_region = 0,
      g_atmi_machine = \<lparr>device_count_by_type = (\<lambda>_. 0), devices_by_type = Map.empty,
        all_devices = []\<rparr>,
      worker_threads = []\<rparr>"

definition program_start :: "(string \<rightharpoonup> string) \<Rightarrow> boot option" where
  "program_start getenv =
     map_option (\<lambda>e. static_start e (getenv ''ATMI_DEVICE_GPU_WORKERS''))
       (GetEnvAll getenv new_Environment)"

definition GetMachineInfo :: "boot \<Rightarrow> atmi_machine_t option" where
  "GetMachineInfo b = (if \<not> g_hsa_initialized b then None else Some (g_atmi_machine b))"

section \<open>Initialisation\<close>

definition atmi_init_context_structs :: "boot \<Rightarrow> boot" where
  "atmi_init_context_structs b =
     upd_rt (\<lambda>s. s\<lparr>g_cpu_initialized := False, g_gpu_initialized := False,
                   g_tasks_initialized := False\<rparr>)
       (b\<lparr>struct_initialized := True, g_hsa_initialized := False\<rparr>)"

definition agent_regions :: "boot_env \<Rightarrow> u64 \<Rightarrow> region_info list" where
  "agent_regions B agent =
     (case find (\<lambda>a. ag_agent a = agent) (hsa_agents B) of None \<Rightarrow> [] | Some a \<Rightarrow> ag_regions a)"

text \<open>The region for the first processor, if there is one; a handle of \<open>-1\<close> means none was found.\<close>

definition region_of_first ::
  "boot_env \<Rightarrow> (region_info list \<Rightarrow> u64 option) \<Rightarrow> ATLProcessor list \<Rightarrow> u64 option" where
  "region_of_first B get procs =
     (case procs of
        [] \<Rightarrow> Some (-1)
      | proc # _ \<Rightarrow>
          let region = (case get (agent_regions B (p_agent proc)) of None \<Rightarrow> -1 | Some h \<Rightarrow> h)
          in if region = -1 then None else Some region)"

definition init_comute_and_memory :: "boot_env \<Rightarrow> boot \<Rightarrow> (bool \<times> boot) option" where
  "init_comute_and_memory B b =
     do {
       let (mc, kernarg_pools) =
         discover (hsa_agents B) (machine (bt_rt b), atl_gpu_kernarg_pools b);
       let mc = share_all (pool_access B) mc;
       cpu_region \<leftarrow> region_of_first B get_fine_grained_region (cpu_processors mc);
       gpu_region \<leftarrow> region_of_first B get_kernarg_memory_region (gpu_processors mc);
       Some (all_processors mc \<noteq> [],
         upd_rt (\<lambda>s. s\<lparr>machine := mc\<rparr>)
           (b\<lparr>atl_gpu_kernarg_pools := kernarg_pools,
              g_atmi_machine := describe_machine (num_cus B) mc,
              atl_cpu_kernarg_region := cpu_region, atl_gpu_kernarg_region := gpu_region\<rparr>))
     }"

definition init_dag_scheduler :: "boot \<Rightarrow> boot" where
  "init_dag_scheduler b =
     (if \<not> g_mutex_dag_initialized b
      then upd_rt (\<lambda>s. s\<lparr>n_tasks := 0\<rparr>) (b\<lparr>g_mutex_dag_initialized := True\<rparr>) else b)"

definition init_hsa :: "boot_env \<Rightarrow> boot \<Rightarrow> (bool \<times> boot) option" where
  "init_hsa B b =
     (if \<not> g_hsa_initialized b then
        do {
          (ok, b) \<leftarrow> init_comute_and_memory B (b\<lparr>hsa_refs := hsa_refs b + 1\<rparr>);
          if \<not> ok then Some (False, b)
          else
            let b = init_dag_scheduler b;
                gpu_count = length (gpu_processors (machine (bt_rt b)));
                b = upd_rt (\<lambda>s. s\<lparr>KernelInfoTable := replicate gpu_count Map.empty\<rparr>) b
            in Some (True, b\<lparr>bt_mod := (bt_mod b)
                 \<lparr>SymbolInfoTable := replicate gpu_count Map.empty\<rparr>, g_hsa_initialized := True\<rparr>)
        }
      else Some (True, b))"

definition init_tasks :: "boot_env \<Rightarrow> boot \<Rightarrow> boot option" where
  "init_tasks B b =
     (if g_tasks_initialized (bt_rt b) then Some b
      else if \<not> hsa_up b then None
      else Some (upd_rt (\<lambda>s. s\<lparr>FreeSignalPool := FreeSignalPool s @
                     map (new_task_signal B) [0..<nat (max_signals (bt_env b))],
                   g_tasks_initialized := True\<rparr>) b))"

definition queue_count :: "int \<Rightarrow> int \<Rightarrow> int" where
  "queue_count configured cus =
     (if configured = -1 then if cus > 8 then 8 else cus else configured)"

fun create_gpu_queues :: "boot_env \<Rightarrow> nat list \<Rightarrow> boot \<Rightarrow> boot option" where
  "create_gpu_queues B [] b = Some b"
| "create_gpu_queues B (gpu # gpus) b =
     do {
       let procs = gpu_processors (machine (bt_rt b));
       proc \<leftarrow> get_processor procs (ATMI_PLACE_GPU 0 (int gpu));
       let n = queue_count (num_gpu_queues (bt_env b)) (num_cus B (p_agent proc));
       (proc, masks, w) \<leftarrow> (if hsa_up b
         then createQueues_gpu (new_queue B (p_agent proc)) (gpu_workers b) proc (nat n) else None);
       create_gpu_queues B gpus
         (upd_rt (\<lambda>s. s\<lparr>machine := (machine s)\<lparr>gpu_processors := procs[gpu := proc]\<rparr>\<rparr>)
           (b\<lparr>gpu_workers := w\<rparr>))
     }"

definition cpu_agent_init :: "boot_env \<Rightarrow> nat \<Rightarrow> ATLProcessor \<Rightarrow> nat \<Rightarrow> boot \<Rightarrow> boot option" where
  "cpu_agent_init B cpu proc num_queues b =
     (if num_queues > 0 \<and> \<not> hsa_up b then None
      else
        let procs = cpu_processors (machine (bt_rt b));
            new_q = new_queue B (p_agent proc);
            proc = createQueues_cpu new_q (new_worker_sig B (p_agent proc)) proc num_queues
        in Some (upd_rt (\<lambda>s. s\<lparr>machine := (machine s)\<lparr>cpu_processors := procs[cpu := proc]\<rparr>\<rparr>)
             (b\<lparr>worker_threads := worker_threads b @ map new_q [0..<num_queues]\<rparr>)))"

fun create_cpu_queues :: "boot_env \<Rightarrow> nat list \<Rightarrow> boot \<Rightarrow> boot option" where
  "create_cpu_queues B [] b = Some b"
| "create_cpu_queues B (cpu # cpus) b =
     do {
       proc \<leftarrow> get_processor (cpu_processors (machine (bt_rt b))) (ATMI_PLACE_CPU 0 (int cpu));
       let n = queue_count (num_cpu_queues (bt_env b)) (num_cus B (p_agent proc));
       b \<leftarrow> cpu_agent_init B cpu proc (nat n) b;
       create_cpu_queues B cpus b
     }"

definition init_structs :: "boot \<Rightarrow> boot" where
  "init_structs b = (if \<not> struct_initialized b then atmi_init_context_structs b else b)"

definition atl_init_gpu_context :: "boot_env \<Rightarrow> boot \<Rightarrow> (atmi_status_t \<times> boot) option" where
  "atl_init_gpu_context B b =
     (let b = init_structs b in
      if g_gpu_initialized (bt_rt b) then Some (ATMI_STATUS_SUCCESS, b)
      else do {
        (ok, b) \<leftarrow> init_hsa B b;
        if \<not> ok then Some (ATMI_STATUS_ERROR, b)
        else do {
          b \<leftarrow> create_gpu_queues B [0..<length (gpu_processors (machine (bt_rt b)))] b;
          b \<leftarrow> (if hsa_up b then Some (b\<lparr>context_init_time_init := True\<rparr>) else None);
          b \<leftarrow> init_tasks B b;
          Some (ATMI_STATUS_SUCCESS, upd_rt (\<lambda>s. s\<lparr>g_gpu_initialized := True\<rparr>) b)
        }
      })"

definition atl_init_cpu_context :: "boot_env \<Rightarrow> boot \<Rightarrow> (atmi_status_t \<times> boot) option" where
  "atl_init_cpu_context B b =
     (let b = init_structs b in
      if g_cpu_initialized (bt_rt b) then Some (ATMI_STATUS_SUCCESS, b)
      else do {
        (ok, b) \<leftarrow> init_hsa B b;
        if \<not> ok then Some (ATMI_STATUS_ERROR, b)
        else do {
          b \<leftarrow> create_cpu_queues B [0..<length (cpu_processors (machine (bt_rt b)))] b;
          b \<leftarrow> init_tasks B b;
          Some (ATMI_STATUS_SUCCESS, upd_rt (\<lambda>s. s\<lparr>g_cpu_initialized := True\<rparr>) b)
        }
      })"

text \<open>\<open>ATMIErrorCheck\<close> exits unless the status is success.\<close>

definition ATMIErrorCheck :: "(atmi_status_t \<times> boot) option \<Rightarrow> boot option" where
  "ATMIErrorCheck r =
     (case r of Some (status, b) \<Rightarrow> if status = ATMI_STATUS_SUCCESS then Some b else None
      | None \<Rightarrow> None)"

definition Initialize :: "boot_env \<Rightarrow> atmi_devtype_t \<Rightarrow> boot \<Rightarrow> (atmi_status_t \<times> boot) option" where
  "Initialize B devtype b =
     (if atmi_initialized (bt_rt b) then Some (ATMI_STATUS_SUCCESS, b)
      else do {
        b \<leftarrow> (if devtype = ATMI_DEVTYPE_ALL \<or> devtype AND ATMI_DEVTYPE_GPU \<noteq> 0
             then ATMIErrorCheck (atl_init_gpu_context B b) else Some b);
        b \<leftarrow> (if devtype = ATMI_DEVTYPE_ALL \<or> devtype AND ATMI_DEVTYPE_CPU \<noteq> 0
             then ATMIErrorCheck (atl_init_cpu_context B b) else Some b);
        (tghandle, s) \<leftarrow> (if hsa_up b
           then TaskGroupCreate (boot_hsa B) False ATMI_DEFAULT_PLACE (bt_rt b) else None);
        Some (ATMI_STATUS_SUCCESS, upd_rt (\<lambda>_. s\<lparr>atmi_initialized := True\<rparr>) b)
      })"

text \<open>
  \<open>Finalize\<close>: \<open>agent_fini\<close> joins the worker threads; executables and queues are destroyed, but
  stay in their tables. Only \<open>g_cpu_initialized\<close> and \<open>g_atmi_initialized\<close> are reset. With no
  reference left \<open>hsa_shut_down\<close> reports \<open>HSA_STATUS_ERROR_NOT_INITIALIZED\<close> and the program exits.
\<close>

definition Finalize :: "boot \<Rightarrow> (atmi_status_t \<times> boot) option" where
  "Finalize b =
     (if \<not> hsa_up b \<and> (g_executables (bt_mod b) > 0 \<or>
          (\<exists>p \<in> set (all_processors (machine (bt_rt b))). p_queues p \<noteq> [])) then None
      else
        let b = (if g_cpu_initialized (bt_rt b)
                 then upd_rt (\<lambda>s. s\<lparr>g_cpu_initialized := False\<rparr>) (b\<lparr>worker_threads := []\<rparr>) else b);
            b = upd_rt (\<lambda>s. s\<lparr>KernelInfoTable := [], atmi_initialized := False\<rparr>) b;
            b = b\<lparr>bt_mod := (bt_mod b)\<lparr>SymbolInfoTable := []\<rparr>\<rparr>
        in if hsa_up b then Some (ATMI_STATUS_SUCCESS, b\<lparr>hsa_refs := hsa_refs b - 1\<rparr>) else None)"

section \<open>What the start leaves behind\<close>

lemma upd_rt_mod [simp]: "bt_mod (upd_rt f b) = (bt_mod b)\<lparr>ms_rt := f (bt_rt b)\<rparr>"
  by (simp add: upd_rt_def)

lemma upd_rt_fields [simp]:
  "bt_env (upd_rt f b) = bt_env b" "gpu_workers (upd_rt f b) = gpu_workers b"
  "struct_initialized (upd_rt f b) = struct_initialized b"
  "g_hsa_initialized (upd_rt f b) = g_hsa_initialized b" "hsa_refs (upd_rt f b) = hsa_refs b"
  "worker_threads (upd_rt f b) = worker_threads b"
  "atl_gpu_kernarg_pools (upd_rt f b) = atl_gpu_kernarg_pools b"
  "g_mutex_dag_initialized (upd_rt f b) = g_mutex_dag_initialized b"
  by (simp_all add: upd_rt_def)

text \<open>The part of the runtime state that the initialisation of contexts does not touch.\<close>

definition boot_core :: "rt_state \<Rightarrow> rt_state" where
  "boot_core s = s\<lparr>machine := no_machine, n_tasks := 0, KernelInfoTable := [], FreeSignalPool := [],
     g_gpu_initialized := False, g_cpu_initialized := False, g_tasks_initialized := False\<rparr>"

definition booted :: "boot_env \<Rightarrow> Environment \<Rightarrow> boot \<Rightarrow> bool" where
  "booted B e b \<longleftrightarrow> bt_env b = e \<and> n_tasks (bt_rt b) = 0 \<and>
     boot_core (bt_rt b) = rt_start (dep_sync_type e) no_machine [] \<and>
     FreeSignalPool (bt_rt b) = (if g_tasks_initialized (bt_rt b)
       then map (new_task_signal B) [0..<nat (max_signals e)] else []) \<and>
     (\<not> struct_initialized b \<longrightarrow> \<not> g_tasks_initialized (bt_rt b))"

lemmas boot_ops = init_hsa_def init_comute_and_memory_def init_dag_scheduler_def init_tasks_def
  atl_init_gpu_context_def atl_init_cpu_context_def init_structs_def atmi_init_context_structs_def
  cpu_agent_init_def

text \<open>Where the processors stand before a context is initialised.\<close>

definition no_queues :: "ATLProcessor list \<Rightarrow> bool" where
  "no_queues procs \<longleftrightarrow> (\<forall>p \<in> set procs. p_queues p = [])"

definition queues_made :: "boot_env \<Rightarrow> int \<Rightarrow> ATLProcessor list \<Rightarrow> bool" where
  "queues_made B configured procs \<longleftrightarrow>
     (\<forall>p \<in> set procs. p_queues p = map (new_queue B (p_agent p))
        [0..<nat (queue_count configured (num_cus B (p_agent p)))])"

abbreviation cpus :: "boot \<Rightarrow> ATLProcessor list" where
  "cpus b \<equiv> cpu_processors (machine (bt_rt b))"

abbreviation gpus :: "boot \<Rightarrow> ATLProcessor list" where
  "gpus b \<equiv> gpu_processors (machine (bt_rt b))"

lemma no_queues_extends:
  "list_all2 (extends access) ps qs \<Longrightarrow> no_queues ps \<Longrightarrow> no_queues qs"
  by (induction rule: list_all2_induct) (auto simp: no_queues_def extends_def)

lemma discovered_no_queues:
  assumes "discover agents (no_machine, ks) = (mc, ks')"
  shows "no_queues (cpu_processors (share_all access mc))"
    "no_queues (gpu_processors (share_all access mc))"
proof -
  have "\<forall>p \<in> set (all_processors mc). fresh_processor p"
    using discover_fresh [of "(no_machine, ks)" agents] assms
    by (simp add: all_processors_def no_machine_def)
  then have "no_queues (cpu_processors mc)" "no_queues (gpu_processors mc)"
    by (auto simp: no_queues_def all_processors_def fresh_processor_def)
  then show "no_queues (cpu_processors (share_all access mc))"
    "no_queues (gpu_processors (share_all access mc))"
    using no_queues_extends [OF share_all_extends(1)] no_queues_extends [OF share_all_extends(2)]
    by blast+
qed

lemma init_hsa_booted: "init_hsa B b = Some (ok, b') \<Longrightarrow> booted B e b \<Longrightarrow> booted B e b'"
  by (auto simp: init_hsa_def init_comute_and_memory_def init_dag_scheduler_def booted_def
      boot_core_def bind_eq_Some_conv Let_def split: if_splits prod.splits)

lemma init_hsa_first:
  assumes "init_hsa B b = Some (True, b')" and "\<not> g_hsa_initialized b"
    and "machine (bt_rt b) = no_machine"
  shows "g_hsa_initialized b'" "hsa_up b'" "no_queues (cpus b')" "no_queues (gpus b')"
    "worker_threads b' = worker_threads b" "struct_initialized b' = struct_initialized b"
    "g_cpu_initialized (bt_rt b') = g_cpu_initialized (bt_rt b)"
proof -
  obtain mc ks where mc: "discover (hsa_agents B) (no_machine, atl_gpu_kernarg_pools b) = (mc, ks)"
    by fastforce
  have "machine (bt_rt b') = share_all (pool_access B) mc"
    using assms(1, 2) mc
    by (auto simp: assms(3) init_hsa_def init_comute_and_memory_def init_dag_scheduler_def bind_eq_Some_conv
        Let_def split: if_splits)
  then show "no_queues (cpus b')" "no_queues (gpus b')" using discovered_no_queues [OF mc] by simp_all
  show "g_hsa_initialized b'" "hsa_up b'" "worker_threads b' = worker_threads b"
    "struct_initialized b' = struct_initialized b"
    "g_cpu_initialized (bt_rt b') = g_cpu_initialized (bt_rt b)"
    using assms(1, 2) mc
    by (auto simp: assms(3) init_hsa_def init_comute_and_memory_def init_dag_scheduler_def bind_eq_Some_conv
        Let_def split: if_splits)
qed

lemma init_hsa_again: "g_hsa_initialized b \<Longrightarrow> init_hsa B b = Some (True, b)"
  by (simp add: init_hsa_def)

lemma init_tasks_booted:
  assumes "init_tasks B b = Some b'" and "booted B e b" and "struct_initialized b"
  shows "booted B e b'" "g_tasks_initialized (bt_rt b')" "machine (bt_rt b') = machine (bt_rt b)"
    "hsa_refs b' = hsa_refs b" "g_hsa_initialized b' = g_hsa_initialized b"
    "worker_threads b' = worker_threads b" "struct_initialized b'"
    "g_cpu_initialized (bt_rt b') = g_cpu_initialized (bt_rt b)"
  using assms by (auto simp: init_tasks_def booted_def boot_core_def split: if_splits)

lemma place_processor:
  "get_processor procs (ATMI_PLACE_GPU 0 (int k)) = (if k < length procs then Some (procs ! k) else None)"
  "get_processor procs (ATMI_PLACE_CPU 0 (int k)) = (if k < length procs then Some (procs ! k) else None)"
  by (simp_all add: get_processor_def vector_at_def ATMI_PLACE_GPU_def ATMI_PLACE_CPU_def)

lemma createQueues_gpu_processor:
  "createQueues_gpu nq w p n = Some (p', masks, w') \<Longrightarrow>
   p_queues p' = p_queues p @ map nq [0..<n] \<and> p_agent p' = p_agent p"
  by (auto simp: createQueues_gpu_def Let_def split: option.splits)

lemma createQueues_cpu_agent [simp]: "p_agent (createQueues_cpu nq ns p n) = p_agent p"
  by (induction n) (simp_all add: createQueues_cpu_def)

text \<open>One round of the loops over the processors.\<close>

lemma create_gpu_queues_frame:
  "create_gpu_queues B gs b = Some b' \<Longrightarrow>
   (booted B e b \<longrightarrow> booted B e b') \<and> cpus b' = cpus b \<and> hsa_refs b' = hsa_refs b \<and> worker_threads b' = worker_threads b \<and>
   g_hsa_initialized b' = g_hsa_initialized b \<and> struct_initialized b' = struct_initialized b \<and>
   g_tasks_initialized (bt_rt b') = g_tasks_initialized (bt_rt b) \<and>
   g_cpu_initialized (bt_rt b') = g_cpu_initialized (bt_rt b)"
proof (induction gs arbitrary: b)
  case (Cons g gs)
  obtain w mc where r: "create_gpu_queues B gs (upd_rt (\<lambda>s. s\<lparr>machine := mc\<rparr>) (b\<lparr>gpu_workers := w\<rparr>)) = Some b'"
    and mc: "cpu_processors mc = cpus b"
    using Cons.prems
    by (fastforce simp: Let_def bind_eq_Some_conv upd_rt_def split: if_splits)
  moreover have "booted B e b \<Longrightarrow> booted B e (upd_rt (\<lambda>s. s\<lparr>machine := mc\<rparr>) (b\<lparr>gpu_workers := w\<rparr>))"
    by (simp add: booted_def boot_core_def)
  ultimately show ?case using Cons.IH [OF r] by simp
qed simp

lemma create_cpu_queues_frame:
  "create_cpu_queues B gs b = Some b' \<Longrightarrow>
   (booted B e b \<longrightarrow> booted B e b') \<and> gpus b' = gpus b \<and> hsa_refs b' = hsa_refs b \<and>
   g_hsa_initialized b' = g_hsa_initialized b \<and> struct_initialized b' = struct_initialized b \<and>
   g_tasks_initialized (bt_rt b') = g_tasks_initialized (bt_rt b) \<and>
   g_cpu_initialized (bt_rt b') = g_cpu_initialized (bt_rt b)"
proof (induction gs arbitrary: b)
  case (Cons g gs)
  obtain w mc where r: "create_cpu_queues B gs (upd_rt (\<lambda>s. s\<lparr>machine := mc\<rparr>) (b\<lparr>worker_threads := w\<rparr>)) = Some b'"
    and mc: "gpu_processors mc = gpus b"
    using Cons.prems
    by (fastforce simp: Let_def bind_eq_Some_conv cpu_agent_init_def upd_rt_def split: if_splits)
  moreover have "booted B e b \<Longrightarrow> booted B e (upd_rt (\<lambda>s. s\<lparr>machine := mc\<rparr>) (b\<lparr>worker_threads := w\<rparr>))"
    by (simp add: booted_def boot_core_def)
  ultimately show ?case using Cons.IH [OF r] by simp
qed simp

lemma queues_made_update:
  assumes "k < length procs" and "queues_made B n (take k procs)"
    and "p_queues p' = map (new_queue B (p_agent p')) [0..<nat (queue_count n (num_cus B (p_agent p')))]"
  shows "queues_made B n (take (Suc k) (procs[k := p']))"
  using assms by (simp add: take_Suc_conv_app_nth queues_made_def)

lemma create_gpu_queues_made:
  "create_gpu_queues B [k..<length (gpus b)] b = Some b' \<Longrightarrow> k \<le> length (gpus b) \<Longrightarrow>
   queues_made B (num_gpu_queues (bt_env b)) (take k (gpus b)) \<Longrightarrow> no_queues (drop k (gpus b)) \<Longrightarrow>
   queues_made B (num_gpu_queues (bt_env b)) (gpus b')"
proof (induction "length (gpus b) - k" arbitrary: k b)
  case (Suc d)
  let ?p = "gpus b ! k"
  let ?n = "nat (queue_count (num_gpu_queues (bt_env b)) (num_cus B (p_agent ?p)))"
  have k: "k < length (gpus b)" using Suc.hyps(2) by simp
  obtain p' masks w where q: "createQueues_gpu (new_queue B (p_agent ?p)) (gpu_workers b) ?p ?n = Some (p', masks, w)"
    and r: "create_gpu_queues B [Suc k..<length (gpus b)]
      (upd_rt (\<lambda>s. s\<lparr>machine := (machine s)\<lparr>gpu_processors := (gpus b)[k := p']\<rparr>\<rparr>)
        (b\<lparr>gpu_workers := w\<rparr>)) = Some b'"
    using Suc.prems(1) k
    by (auto simp: upt_conv_Cons place_processor Let_def bind_eq_Some_conv split: if_splits)
  let ?b = "upd_rt (\<lambda>s. s\<lparr>machine := (machine s)\<lparr>gpu_processors := (gpus b)[k := p']\<rparr>\<rparr>) (b\<lparr>gpu_workers := w\<rparr>)"
  have "p_queues ?p = []"
    using Suc.prems(4) k by (auto simp: no_queues_def Cons_nth_drop_Suc [symmetric])
  then have "queues_made B (num_gpu_queues (bt_env b)) (take (Suc k) ((gpus b)[k := p']))"
    using queues_made_update [OF k Suc.prems(3), of p'] createQueues_gpu_processor [OF q] by simp
  moreover have "no_queues (drop (Suc k) ((gpus b)[k := p']))"
    using Suc.prems(4) k by (simp add: no_queues_def Cons_nth_drop_Suc [symmetric])
  ultimately show ?case
    using Suc.hyps(1) [of ?b "Suc k"] Suc.hyps(2) r k by simp
qed simp

lemma create_cpu_queues_made:
  "create_cpu_queues B [k..<length (cpus b)] b = Some b' \<Longrightarrow> k \<le> length (cpus b) \<Longrightarrow>
   queues_made B (num_cpu_queues (bt_env b)) (take k (cpus b)) \<Longrightarrow> no_queues (drop k (cpus b)) \<Longrightarrow>
   queues_made B (num_cpu_queues (bt_env b)) (cpus b')"
proof (induction "length (cpus b) - k" arbitrary: k b)
  case (Suc d)
  let ?p = "cpus b ! k"
  let ?n = "nat (queue_count (num_cpu_queues (bt_env b)) (num_cus B (p_agent ?p)))"
  let ?p' = "createQueues_cpu (new_queue B (p_agent ?p)) (new_worker_sig B (p_agent ?p)) ?p ?n"
  let ?b = "upd_rt (\<lambda>s. s\<lparr>machine := (machine s)\<lparr>cpu_processors := (cpus b)[k := ?p']\<rparr>\<rparr>)
    (b\<lparr>worker_threads := worker_threads b @ map (new_queue B (p_agent ?p)) [0..<?n]\<rparr>)"
  have k: "k < length (cpus b)" using Suc.hyps(2) by simp
  have r: "create_cpu_queues B [Suc k..<length (cpus b)] ?b = Some b'"
    using Suc.prems(1) k
    by (auto simp: upt_conv_Cons place_processor cpu_agent_init_def Let_def bind_eq_Some_conv
        split: if_splits)
  have "p_queues ?p = []"
    using Suc.prems(4) k by (auto simp: no_queues_def Cons_nth_drop_Suc [symmetric])
  then have "queues_made B (num_cpu_queues (bt_env b)) (take (Suc k) ((cpus b)[k := ?p']))"
    using queues_made_update [OF k Suc.prems(3), of ?p'] createQueues_cpu_fields by simp
  moreover have "no_queues (drop (Suc k) ((cpus b)[k := ?p']))"
    using Suc.prems(4) k by (simp add: no_queues_def Cons_nth_drop_Suc [symmetric])
  ultimately show ?case
    using Suc.hyps(1) [of ?b "Suc k"] Suc.hyps(2) r k by simp
qed simp

text \<open>
  A context that may be initialised next: either nothing is known of HSA yet, or it is up and the
  CPU processors have no queues.
\<close>

definition fresh_boot :: "boot_env \<Rightarrow> Environment \<Rightarrow> boot \<Rightarrow> bool" where
  "fresh_boot B e b \<longleftrightarrow> booted B e b \<and> \<not> g_cpu_initialized (bt_rt b) \<and>
     (if g_hsa_initialized b then struct_initialized b \<and> hsa_up b \<and> no_queues (cpus b)
      else machine (bt_rt b) = no_machine)"

lemma init_structs_fresh:
  assumes "fresh_boot B e b"
  shows "fresh_boot B e (init_structs b)" "struct_initialized (init_structs b)"
    "worker_threads (init_structs b) = worker_threads b"
    "g_hsa_initialized b \<Longrightarrow> init_structs b = b"
  using assms
  by (auto simp: init_structs_def atmi_init_context_structs_def fresh_boot_def booted_def boot_core_def
      split: if_splits)

lemma gpu_context_fresh:
  assumes "atl_init_gpu_context B b = Some (ATMI_STATUS_SUCCESS, b')" and "fresh_boot B e b"
    and "\<not> g_hsa_initialized b" and "\<not> struct_initialized b"
  shows "fresh_boot B e b' \<and> g_hsa_initialized b' \<and> g_tasks_initialized (bt_rt b') \<and>
    worker_threads b' = worker_threads b \<and> queues_made B (num_gpu_queues e) (gpus b')"
proof -
  let ?b = "init_structs b"
  have i: "fresh_boot B e ?b" "struct_initialized ?b" "worker_threads ?b = worker_threads b"
    using init_structs_fresh [OF assms(2)] by auto
  have g: "\<not> g_gpu_initialized (bt_rt ?b)" "\<not> g_hsa_initialized ?b"
    using assms(3, 4) by (auto simp: init_structs_def atmi_init_context_structs_def)
  obtain b1 b2 b3 where 1: "init_hsa B ?b = Some (True, b1)"
    and 2: "create_gpu_queues B [0..<length (gpus b1)] b1 = Some b2"
    and 3: "init_tasks B (b2\<lparr>context_init_time_init := True\<rparr>) = Some b3" "hsa_up b2"
    and b': "b' = upd_rt (\<lambda>s. s\<lparr>g_gpu_initialized := True\<rparr>) b3"
    using assms(1) g
    by (auto simp: atl_init_gpu_context_def Let_def bind_eq_Some_conv split: if_splits)
  have m: "machine (bt_rt ?b) = no_machine" and "booted B e ?b"
    using i(1) g(2) by (auto simp: fresh_boot_def)
  note h = init_hsa_first [OF 1 g(2) m] and b1 = init_hsa_booted [OF 1 \<open>booted B e ?b\<close>]
  note q = create_gpu_queues_frame [OF 2, of e]
  have "queues_made B (num_gpu_queues (bt_env b1)) (gpus b2)"
    by (rule create_gpu_queues_made [OF 2]) (use h(4) in \<open>simp_all add: queues_made_def\<close>)
  moreover have "bt_env b1 = e" using b1 by (simp add: booted_def)
  moreover have "booted B e (b2\<lparr>context_init_time_init := True\<rparr>)" using q b1 by (simp add: booted_def)
  note t = init_tasks_booted [OF 3(1) this]
  ultimately show ?thesis
    using h q t i 3(2) unfolding b' fresh_boot_def booted_def boot_core_def by simp
qed

lemma cpu_context_fresh:
  assumes "atl_init_cpu_context B b = Some (ATMI_STATUS_SUCCESS, b')" and "fresh_boot B e b"
  shows "booted B e b' \<and> hsa_up b' \<and> g_hsa_initialized b' \<and> g_tasks_initialized (bt_rt b') \<and>
    queues_made B (num_cpu_queues e) (cpus b') \<and>
    (g_hsa_initialized b \<longrightarrow> gpus b' = gpus b)"
proof -
  let ?b = "init_structs b"
  have i: "fresh_boot B e ?b" "struct_initialized ?b" "g_hsa_initialized b \<Longrightarrow> ?b = b"
    using init_structs_fresh [OF assms(2)] by auto
  have g: "\<not> g_cpu_initialized (bt_rt ?b)" using i(1) by (simp add: fresh_boot_def)
  obtain b1 b2 b3 where 1: "init_hsa B ?b = Some (True, b1)"
    and 2: "create_cpu_queues B [0..<length (cpus b1)] b1 = Some b2"
    and 3: "init_tasks B b2 = Some b3"
    and b': "b' = upd_rt (\<lambda>s. s\<lparr>g_cpu_initialized := True\<rparr>) b3"
    using assms(1) g
    by (auto simp: atl_init_cpu_context_def Let_def bind_eq_Some_conv split: if_splits)
  have "booted B e ?b" using i(1) by (simp add: fresh_boot_def)
  note b1 = init_hsa_booted [OF 1 this]
  have h: "g_hsa_initialized b1" "hsa_up b1" "no_queues (cpus b1)" "struct_initialized b1"
    "g_hsa_initialized b \<Longrightarrow> b1 = b"
    using i 1 init_hsa_first [OF 1] init_hsa_again [of ?b B]
    by (cases "g_hsa_initialized ?b"; auto simp: fresh_boot_def)+
  note q = create_cpu_queues_frame [OF 2, of e]
  have "queues_made B (num_cpu_queues (bt_env b1)) (cpus b2)"
    by (rule create_cpu_queues_made [OF 2]) (use h(3) in \<open>simp_all add: queues_made_def\<close>)
  moreover have "bt_env b1 = e" using b1 by (simp add: booted_def)
  moreover have "booted B e b2" "struct_initialized b2" using q h b1 by simp_all
  note t = init_tasks_booted [OF 3 this]
  ultimately show ?thesis
    using h q t unfolding b' booted_def boot_core_def by auto
qed

text \<open>The start of the scheduler model in the mode that the environment chooses.\<close>

definition sync_started ::
  "atl_dep_sync_t \<Rightarrow> signal multiset \<Rightarrow> (impl_ptr \<Rightarrow> nat multiset) \<Rightarrow> rt_state \<Rightarrow> bool" where
  "sync_started mode A B s =
     (case mode of ATL_SYNC_CALLBACK \<Rightarrow> started A B s | ATL_SYNC_BARRIER_PKT \<Rightarrow> bar_started A B s)"

lemma booted_started:
  assumes "booted B e b" and "g_tasks_initialized (bt_rt b)"
    and "TaskGroupCreate E ordered place (bt_rt b) = Some (h, s)"
  shows "sync_started (dep_sync_type e) (mset (map (new_task_signal B) [0..<nat (max_signals e)]))
      (\<lambda>_. {#}) (s\<lparr>atmi_initialized := True\<rparr>) \<and> getTaskgroupImpl s 0 = Some 0 \<and> h = 0 \<and>
    machine s = machine (bt_rt b)"
proof -
  have c: "boot_core (bt_rt b) = rt_start (dep_sync_type e) no_machine []"
    using assms(1) by (simp add: booted_def)
  have "dep_sync (bt_rt b) = dep_sync_type e" "ReadyTaskQueue (bt_rt b) = []"
    "handlers (bt_rt b) = []" "copy_threads (bt_rt b) = []" "AllTaskgroups (bt_rt b) = []"
    "next_group_id (bt_rt b) = 0" "n_impls (bt_rt b) = 0"
    "groups (bt_rt b) = (\<lambda>_. new_TaskgroupImpl 0 False ATMI_DEFAULT_PLACE 0)"
    using arg_cong [OF c, of dep_sync] arg_cong [OF c, of ReadyTaskQueue]
      arg_cong [OF c, of handlers] arg_cong [OF c, of copy_threads]
      arg_cong [OF c, of AllTaskgroups] arg_cong [OF c, of next_group_id]
      arg_cong [OF c, of n_impls] arg_cong [OF c, of groups]
    by (simp_all add: boot_core_def rt_start_def)
  then show ?thesis
    using assms
    by (cases "dep_sync_type e")
       (auto simp: sync_started_def started_def bar_started_def booted_def TaskGroupCreate_def
          Let_def log_call_def new_TaskgroupImpl_def getTaskgroupImpl_def)
qed

lemma static_fresh: "fresh_boot B e (static_start e w)"
  by (simp add: fresh_boot_def booted_def boot_core_def static_start_def rt_start_def)


lemma devtype_all_bits:
  "ATMI_DEVTYPE_ALL AND ATMI_DEVTYPE_GPU \<noteq> 0" "ATMI_DEVTYPE_ALL AND ATMI_DEVTYPE_CPU \<noteq> 0"
  "ATMI_DEVTYPE_GPU \<noteq> 0" "ATMI_DEVTYPE_GPU AND ATMI_DEVTYPE_CPU = 0"
  "ATMI_DEVTYPE_GPU \<noteq> ATMI_DEVTYPE_ALL"
  by (simp_all add: ATMI_DEVTYPE_ALL_def ATMI_DEVTYPE_GPU_def ATMI_DEVTYPE_iGPU_def
      ATMI_DEVTYPE_dGPU_def ATMI_DEVTYPE_CPU_def)

lemma ATMIErrorCheck_some: "ATMIErrorCheck r = Some b \<longleftrightarrow> r = Some (ATMI_STATUS_SUCCESS, b)"
  by (auto simp: ATMIErrorCheck_def split: option.splits)

lemma static_start_flags [simp]:
  "\<not> struct_initialized (static_start e w)" "\<not> g_hsa_initialized (static_start e w)"
  "hsa_refs (static_start e w) = 0" "\<not> atmi_initialized (bt_rt (static_start e w))"
  "bt_env (static_start e w) = e" "worker_threads (static_start e w) = []"
  by (simp_all add: static_start_def rt_start_def)

text \<open>The two contexts from the start of the program.\<close>

lemma Initialize_contexts:
  assumes "Initialize B devtype (static_start e w) = Some (st, b)"
  obtains b1 b2 h s where
    "if devtype AND ATMI_DEVTYPE_GPU \<noteq> 0
     then g_hsa_initialized b1 \<and> g_tasks_initialized (bt_rt b1) \<and> worker_threads b1 = [] \<and>
       queues_made B (num_gpu_queues e) (gpus b1)
     else b1 = static_start e w"
    "fresh_boot B e b1"
    "if devtype AND ATMI_DEVTYPE_CPU \<noteq> 0
     then queues_made B (num_cpu_queues e) (cpus b2) \<and> (g_hsa_initialized b1 \<longrightarrow> gpus b2 = gpus b1)
     else b2 = b1"
    "booted B e b2" "g_tasks_initialized (bt_rt b2)" "hsa_up b2"
    "TaskGroupCreate (boot_hsa B) False ATMI_DEFAULT_PLACE (bt_rt b2) = Some (h, s)"
    "st = ATMI_STATUS_SUCCESS" "b = upd_rt (\<lambda>_. s\<lparr>atmi_initialized := True\<rparr>) b2"
proof -
  have gpu: "devtype = ATMI_DEVTYPE_ALL \<or> devtype AND ATMI_DEVTYPE_GPU \<noteq> 0
      \<longleftrightarrow> devtype AND ATMI_DEVTYPE_GPU \<noteq> 0"
    and cpu: "devtype = ATMI_DEVTYPE_ALL \<or> devtype AND ATMI_DEVTYPE_CPU \<noteq> 0
      \<longleftrightarrow> devtype AND ATMI_DEVTYPE_CPU \<noteq> 0"
    using devtype_all_bits by auto
  obtain b1 b2 h s where
    r: "(if devtype AND ATMI_DEVTYPE_GPU \<noteq> 0
         then ATMIErrorCheck (atl_init_gpu_context B (static_start e w))
         else Some (static_start e w)) = Some b1"
       "(if devtype AND ATMI_DEVTYPE_CPU \<noteq> 0
         then ATMIErrorCheck (atl_init_cpu_context B b1) else Some b1) = Some b2"
       "(if hsa_up b2 then TaskGroupCreate (boot_hsa B) False ATMI_DEFAULT_PLACE (bt_rt b2)
         else None) = Some (h, s)"
       "ATMI_STATUS_SUCCESS = st" "upd_rt (\<lambda>_. s\<lparr>atmi_initialized := True\<rparr>) b2 = b"
    using assms unfolding Initialize_def gpu cpu
    by (simp add: bind_eq_Some_conv split_beta) (elim exE conjE, blast)
  have 1: "if devtype AND ATMI_DEVTYPE_GPU \<noteq> 0
        then atl_init_gpu_context B (static_start e w) = Some (ATMI_STATUS_SUCCESS, b1)
        else b1 = static_start e w"
    and 2: "if devtype AND ATMI_DEVTYPE_CPU \<noteq> 0
        then atl_init_cpu_context B b1 = Some (ATMI_STATUS_SUCCESS, b2) else b2 = b1"
    using r(1, 2) by (simp_all add: ATMIErrorCheck_some split: if_splits)
  have 3: "hsa_up b2" "TaskGroupCreate (boot_hsa B) False ATMI_DEFAULT_PLACE (bt_rt b2) = Some (h, s)"
      "st = ATMI_STATUS_SUCCESS" "b = upd_rt (\<lambda>_. s\<lparr>atmi_initialized := True\<rparr>) b2"
    using r(3-5) by (simp_all split: if_splits)
  have b1: "if devtype AND ATMI_DEVTYPE_GPU \<noteq> 0
     then g_hsa_initialized b1 \<and> g_tasks_initialized (bt_rt b1) \<and> worker_threads b1 = [] \<and>
       queues_made B (num_gpu_queues e) (gpus b1)
     else b1 = static_start e w" "fresh_boot B e b1"
    using 1 gpu_context_fresh [OF _ static_fresh] static_fresh by (auto split: if_splits)
  have b2: "if devtype AND ATMI_DEVTYPE_CPU \<noteq> 0
     then queues_made B (num_cpu_queues e) (cpus b2) \<and> (g_hsa_initialized b1 \<longrightarrow> gpus b2 = gpus b1)
     else b2 = b1" "booted B e b2" "g_tasks_initialized (bt_rt b2)"
    using 2 3(1) b1 cpu_context_fresh [OF _ b1(2)] by (auto simp: fresh_boot_def split: if_splits)
  show ?thesis by (rule that [OF b1 b2(1-3) 3])
qed

text \<open>A machine with one CPU and one GPU, and an environment that asks for three signals.\<close>

definition demo_boot :: boot_env where
  "demo_boot =
     \<lparr>hsa_agents = demo_agents, pool_access = (\<lambda>a p. a = 2), num_cus = (\<lambda>_. 2),
      new_queue = (\<lambda>a i. 10 * unat a + i), new_worker_sig = (\<lambda>a i. 10 * a + of_nat i),
      new_task_signal = (\<lambda>i. 100 + of_nat i), boot_hsa = demo_env\<rparr>"

definition demo_getenv :: "string \<rightharpoonup> string" where
  "demo_getenv = [''ATMI_MAX_HSA_SIGNALS'' \<mapsto> ''3'']"

lemma demo_boot_runs:
  "map_option (\<lambda>b. (dep_sync_type (bt_env b), max_signals (bt_env b))) (program_start demo_getenv)
    = Some (ATL_SYNC_CALLBACK, 3)"
  "Option.bind (program_start demo_getenv) (\<lambda>b. map_option (\<lambda>(st, b). (st, map p_queues (gpus b)))
     (Initialize demo_boot ATMI_DEVTYPE_ALL b)) = Some (ATMI_STATUS_SUCCESS, [[20, 21]])"
  "Option.bind (program_start demo_getenv) (\<lambda>b. map_option (\<lambda>(st, b). (st, struct_initialized b,
     g_hsa_initialized b, hsa_refs b, map_option fst (Finalize b))) (Initialize demo_boot ATMI_DEVTYPE_GPU b))
     = Some (ATMI_STATUS_SUCCESS, True, True, 1, Some ATMI_STATUS_SUCCESS)"
  by code_simp+

text \<open>
  C38. The start of the runtime leads into the start of the scheduler model: when \<open>Initialize\<close>
  returns, the runtime is in a configuration from which the reachable configurations of the
  scheduler in the mode of \<open>ATMI_DEPENDENCY_SYNC_TYPE\<close> are counted, with the number of completion signals that the
  environment asks for in the pool and the default group in place; and every processor of the
  device types that were asked for has its configured number of queues.
\<close>

theorem initialize_starts:
  assumes "program_start getenv = Some b0" and "Initialize B devtype b0 = Some (st, b)"
  shows "st = ATMI_STATUS_SUCCESS
    \<and> sync_started (dep_sync_type (bt_env b0))
         (mset (map (new_task_signal B) [0..<nat (max_signals (bt_env b0))])) (\<lambda>_. {#}) (bt_rt b)
    \<and> getTaskgroupImpl (bt_rt b) 0 = Some 0
    \<and> (devtype AND ATMI_DEVTYPE_GPU \<noteq> 0 \<longrightarrow>
         queues_made B (num_gpu_queues (bt_env b0)) (gpu_processors (machine (bt_rt b))))
    \<and> (devtype AND ATMI_DEVTYPE_CPU \<noteq> 0 \<longrightarrow>
         queues_made B (num_cpu_queues (bt_env b0)) (cpu_processors (machine (bt_rt b))))"
proof -
  obtain e w where b0: "b0 = static_start e w" using assms(1) by (auto simp: program_start_def)
  obtain b1 b2 h s where r: "if devtype AND ATMI_DEVTYPE_GPU \<noteq> 0
     then g_hsa_initialized b1 \<and> g_tasks_initialized (bt_rt b1) \<and> worker_threads b1 = [] \<and>
       queues_made B (num_gpu_queues e) (gpus b1)
     else b1 = static_start e w" "fresh_boot B e b1"
    "if devtype AND ATMI_DEVTYPE_CPU \<noteq> 0
     then queues_made B (num_cpu_queues e) (cpus b2) \<and> (g_hsa_initialized b1 \<longrightarrow> gpus b2 = gpus b1)
     else b2 = b1" "booted B e b2" "g_tasks_initialized (bt_rt b2)"
    "TaskGroupCreate (boot_hsa B) False ATMI_DEFAULT_PLACE (bt_rt b2) = Some (h, s)"
    "st = ATMI_STATUS_SUCCESS" "b = upd_rt (\<lambda>_. s\<lparr>atmi_initialized := True\<rparr>) b2"
    by (rule Initialize_contexts [OF assms(2) [unfolded b0]])
  show ?thesis
    using r(1-3, 7) booted_started [OF r(4, 5) r(6)]
    by (auto simp: r(8) b0 getTaskgroupImpl_def split: if_splits)
qed

theorem initialize_starts_witness:
  "\<exists>b0 b. program_start demo_getenv = Some b0 \<and>
     Initialize demo_boot ATMI_DEVTYPE_ALL b0 = Some (ATMI_STATUS_SUCCESS, b) \<and>
     started {#100, 101, 102#} (\<lambda>_. {#}) (bt_rt b) \<and> getTaskgroupImpl (bt_rt b) 0 = Some 0"
proof -
  obtain b0 where b0: "program_start demo_getenv = Some b0" "dep_sync_type (bt_env b0) = ATL_SYNC_CALLBACK"
    "max_signals (bt_env b0) = 3"
    using demo_boot_runs(1) by auto
  obtain b where b: "Initialize demo_boot ATMI_DEVTYPE_ALL b0 = Some (ATMI_STATUS_SUCCESS, b)"
    using demo_boot_runs(2) b0(1) by auto
  have "mset (map (new_task_signal demo_boot) [0..<nat 3]) = {#100, 101, 102#}"
    by (simp add: demo_boot_def upt_rec)
  then show ?thesis
    using initialize_starts [OF b0(1) b] b0 b by (simp add: sync_started_def)
qed

text \<open>
  The second call of \<open>Initialize\<close> does nothing, although \<open>atmi_runtime.h\<close> lets the user
  \<open>initialize difference device types at different regions in the program\<close>: after a start for
  GPUs a call for CPUs reports success, but no CPU processor has a queue and no worker thread runs,
  and the choice of a queue for a CPU task of an unordered group fails.
\<close>

lemma second_initialize_ignored:
  assumes "program_start getenv = Some b0" and "Initialize B ATMI_DEVTYPE_GPU b0 = Some (st, b)"
  shows "Initialize B ATMI_DEVTYPE_CPU b = Some (ATMI_STATUS_SUCCESS, b)
    \<and> worker_threads b = []
    \<and> (\<forall>place g. \<not> tg_ordered g \<longrightarrow>
         chooseQueueFromPlace (cpu_processors (machine (bt_rt b))) place g = None)"
proof -
  obtain e w where b0: "b0 = static_start e w" using assms(1) by (auto simp: program_start_def)
  obtain b1 h s where r: "fresh_boot B e b1" "g_hsa_initialized b1" "worker_threads b1 = []"
    "TaskGroupCreate (boot_hsa B) False ATMI_DEFAULT_PLACE (bt_rt b1) = Some (h, s)"
    "b = upd_rt (\<lambda>_. s\<lparr>atmi_initialized := True\<rparr>) b1"
    by (rule Initialize_contexts [OF assms(2) [unfolded b0]]) (auto simp: devtype_all_bits)
  have "no_queues (cpus b)"
    using r by (auto simp: fresh_boot_def TaskGroupCreate_def Let_def log_call_def split: if_splits)
  then have "getQueueAt p n = None" if "p \<in> set (cpus b)" for p n
    using that by (simp add: no_queues_def getQueueAt_def)
  then have "chooseQueueFromPlace (cpus b) place g = None" if "\<not> tg_ordered g" for place g
    using that
    by (auto simp: chooseQueueFromPlace_def get_processor_def vector_at_def bind_eq_None_conv Let_def
        getBestQueueID_def split: if_splits)
  then show ?thesis using r by (simp add: Initialize_def)
qed

lemma second_initialize_ignored_witness:
  "\<exists>b0 b. program_start demo_getenv = Some b0 \<and>
     Initialize demo_boot ATMI_DEVTYPE_GPU b0 = Some (ATMI_STATUS_SUCCESS, b) \<and>
     Initialize demo_boot ATMI_DEVTYPE_CPU b = Some (ATMI_STATUS_SUCCESS, b) \<and>
     chooseQueueFromPlace (cpu_processors (machine (bt_rt b))) (ATMI_PLACE_CPU 0 0)
       (new_TaskgroupImpl 0 False ATMI_DEFAULT_PLACE 0) = None"
proof -
  obtain b0 b where b: "program_start demo_getenv = Some b0"
    "Initialize demo_boot ATMI_DEVTYPE_GPU b0 = Some (ATMI_STATUS_SUCCESS, b)"
    using demo_boot_runs(3) by (auto simp: bind_eq_Some_conv)
  show ?thesis
    using second_initialize_ignored [OF b] b by (auto simp: new_TaskgroupImpl_def)
qed

text \<open>A context that knows HSA to be initialised takes no reference.\<close>

lemma init_tasks_refs:
  "init_tasks B b = Some b' \<Longrightarrow> hsa_refs b' = hsa_refs b \<and>
   struct_initialized b' = struct_initialized b \<and> g_hsa_initialized b' = g_hsa_initialized b"
  by (auto simp: init_tasks_def split: if_splits)

lemma gpu_context_refs:
  assumes "atl_init_gpu_context B b = Some (ATMI_STATUS_SUCCESS, b')"
    and "struct_initialized b" and "g_hsa_initialized b"
  shows "hsa_refs b' = hsa_refs b \<and> struct_initialized b' \<and> g_hsa_initialized b'"
proof (cases "g_gpu_initialized (bt_rt b)")
  case False
  obtain b1 b2 where r: "create_gpu_queues B [0..<length (gpus b)] b = Some b1"
    "init_tasks B (b1\<lparr>context_init_time_init := True\<rparr>) = Some b2"
    "b' = upd_rt (\<lambda>s. s\<lparr>g_gpu_initialized := True\<rparr>) b2"
    using assms False
    by (auto simp: atl_init_gpu_context_def init_structs_def init_hsa_again bind_eq_Some_conv split: if_splits)
  show ?thesis using create_gpu_queues_frame [OF r(1)] init_tasks_refs [OF r(2)] assms(2, 3) r(3) by simp
qed (use assms in \<open>simp add: atl_init_gpu_context_def init_structs_def\<close>)

lemma cpu_context_refs:
  assumes "atl_init_cpu_context B b = Some (ATMI_STATUS_SUCCESS, b')"
    and "struct_initialized b" and "g_hsa_initialized b"
  shows "hsa_refs b' = hsa_refs b"
proof (cases "g_cpu_initialized (bt_rt b)")
  case False
  obtain b1 b2 where r: "create_cpu_queues B [0..<length (cpus b)] b = Some b1"
    "init_tasks B b1 = Some b2" "b' = upd_rt (\<lambda>s. s\<lparr>g_cpu_initialized := True\<rparr>) b2"
    using assms False
    by (auto simp: atl_init_cpu_context_def init_structs_def init_hsa_again bind_eq_Some_conv split: if_splits)
  show ?thesis using create_cpu_queues_frame [OF r(1)] init_tasks_refs [OF r(2)] assms(2, 3) r(3) by simp
qed (use assms in \<open>simp add: atl_init_cpu_context_def init_structs_def\<close>)

text \<open>
  C39. There is no restart: \<open>Finalize\<close> gives back one reference to HSA but leaves
  \<open>g_hsa_initialized\<close> set, so no later \<open>Initialize\<close>, for whatever device type, takes a reference
  again. If it was the last reference of the process, a further \<open>Initialize\<close> or \<open>Finalize\<close> has no
  defined result: it calls HSA with a reference count below one, which is undefined behaviour, or
  gets an error and exits.
\<close>

theorem no_restart:
  assumes "struct_initialized b" and "g_hsa_initialized b" and "Finalize b = Some (st, b')"
  shows "st = ATMI_STATUS_SUCCESS \<and> worker_threads b' = (if g_cpu_initialized (bt_rt b) then [] else worker_threads b)
    \<and> hsa_refs b = hsa_refs b' + 1
    \<and> (\<forall>st' b''. Initialize B devtype b' = Some (st', b'') \<longrightarrow> hsa_refs b'' = hsa_refs b')
    \<and> (hsa_refs b = 1 \<longrightarrow> Initialize B devtype b' = None \<and> Finalize b' = None)"
proof -
  have f: "st = ATMI_STATUS_SUCCESS" "struct_initialized b'" "g_hsa_initialized b'"
    "hsa_refs b = hsa_refs b' + 1" "\<not> atmi_initialized (bt_rt b')"
    "worker_threads b' = (if g_cpu_initialized (bt_rt b) then [] else worker_threads b)"
    using assms by (auto simp: Finalize_def Let_def split: if_splits)
  note g = gpu_context_refs [OF _ f(2, 3)] and c = cpu_context_refs
  have i: "hsa_refs b'' = hsa_refs b' \<and> hsa_up b'" if I: "Initialize B devtype b' = Some (st', b'')" for st' b''
  proof -
    obtain b1 b2 h s where 1: "(if devtype = ATMI_DEVTYPE_ALL \<or> devtype AND ATMI_DEVTYPE_GPU \<noteq> 0
        then ATMIErrorCheck (atl_init_gpu_context B b') else Some b') = Some b1"
      and 2: "(if devtype = ATMI_DEVTYPE_ALL \<or> devtype AND ATMI_DEVTYPE_CPU \<noteq> 0
        then ATMIErrorCheck (atl_init_cpu_context B b1) else Some b1) = Some b2"
      and t: "(if hsa_up b2 then TaskGroupCreate (boot_hsa B) False ATMI_DEFAULT_PLACE (bt_rt b2)
         else None) = Some (h, s)" "upd_rt (\<lambda>_. s\<lparr>atmi_initialized := True\<rparr>) b2 = b''"
      using I f(5) unfolding Initialize_def
      by (simp add: bind_eq_Some_conv split_beta) (elim exE conjE, blast)
    then have r: "hsa_up b2" "hsa_refs b'' = hsa_refs b2" by (auto split: if_splits)
    have b1: "hsa_refs b1 = hsa_refs b' \<and> struct_initialized b1 \<and> g_hsa_initialized b1"
      using 1 f(2, 3) g by (auto simp: ATMIErrorCheck_some split: if_splits)
    then have "hsa_refs b2 = hsa_refs b1" using 2 c by (auto simp: ATMIErrorCheck_some split: if_splits)
    then show ?thesis using r b1 by simp
  qed
  have "Initialize B devtype b' = None \<and> Finalize b' = None" if "hsa_refs b = 1"
  proof
    have z: "hsa_refs b' = 0" using f(4) that by simp
    show "Initialize B devtype b' = None"
    proof (rule ccontr)
      assume "Initialize B devtype b' \<noteq> None"
      then obtain st' b'' where "Initialize B devtype b' = Some (st', b'')" by auto
      from i [OF this] show False using z by simp
    qed
    show "Finalize b' = None" using z by (simp add: Finalize_def Let_def)
  qed
  then show ?thesis using f i by blast
qed

theorem no_restart_witness:
  "\<exists>b0 b b'. program_start demo_getenv = Some b0 \<and>
     Initialize demo_boot ATMI_DEVTYPE_GPU b0 = Some (ATMI_STATUS_SUCCESS, b) \<and> hsa_refs b = 1 \<and>
     Finalize b = Some (ATMI_STATUS_SUCCESS, b') \<and>
     Initialize demo_boot ATMI_DEVTYPE_GPU b' = None \<and> Finalize b' = None"
proof -
  obtain b0 b where b: "program_start demo_getenv = Some b0"
    "Initialize demo_boot ATMI_DEVTYPE_GPU b0 = Some (ATMI_STATUS_SUCCESS, b)"
    "struct_initialized b" "g_hsa_initialized b" "hsa_refs b = 1"
    "map_option fst (Finalize b) = Some ATMI_STATUS_SUCCESS"
    using demo_boot_runs(3) by (auto simp: bind_eq_Some_conv)
  obtain b' where b': "Finalize b = Some (ATMI_STATUS_SUCCESS, b')" using b(6) by auto
  show ?thesis using no_restart [OF b(3, 4) b'] b b' by blast
qed

end
