(* ===== verification/Device_Enqueue.thy ===== *)
theory Device_Enqueue
  imports Startup
begin

text \<open>
  The runtime with device enqueueing: \<open>device_runtime/device_rt.cpp\<close> and the structures of
  \<open>include/device_rt_internal.h\<close>. A kernel that runs on a GPU finds, in the implicit arguments at
  the end of its segment, the queues of the machine and a table of templates; a template has what
  is needed to launch a kernel and a region for the arguments. The blocks that are allocated for
  this are named, and their addresses are a parameter.
\<close>

section \<open>Data\<close>

datatype dev_block = GpuQueuePtr | CpuQueuePtr | WorkerSignals | Templates | KernargRegions nat

record atmi_kernel_enqueue_template_t =
  kt_kernel_handle :: u64
  kt_kernel_object :: u64
  kt_private_segment_size :: u32
  kt_group_segment_size :: u32
  kt_type :: u16
  kt_kernel :: u64
  kt_arg3 :: u64
  kt_segment_size :: u64
  kt_next :: nat
  kt_capacity :: nat

text \<open>
  The arrays behind the pointers of \<open>atl_kernel_enqueue_args_t\<close> are fields, too. The bytes of a
  region are \<open>template_mem\<close> of the global state; \<open>kt_next\<close> is the \<open>int\<close> in front of them and
  \<open>kt_capacity\<close> the number of bytes behind it. The index is a number that does not wrap here: what
  is proved of launches bounds it below \<open>2\<^sup>3\<^sup>1\<close>.
\<close>

record atl_kernel_enqueue_args_t =
  ke_num_gpu_queues :: u8
  ke_gpu_queues :: "qid list"
  gpu_queue_ptr :: u64
  ke_num_cpu_queues :: u8
  ke_cpu_queues :: "qid list"
  cpu_queue_ptr :: u64
  ke_worker_signals :: "signal list"
  cpu_worker_signals :: u64
  ke_kernel_counter :: nat
  ke_templates :: "atmi_kernel_enqueue_template_t list"
  kernarg_template_ptr :: u64

record dev_env =
  block_addr :: "dev_block \<Rightarrow> u64"
  stale_template :: "nat \<Rightarrow> atmi_kernel_enqueue_template_t"
  stale_bytes :: "nat \<Rightarrow> nat \<Rightarrow> u8"
  name_addr :: "string \<Rightarrow> u64"
  pool_free_ok :: "u64 \<Rightarrow> bool"

record dev_state =
  dv_boot :: boot
  g_ke_args :: atl_kernel_enqueue_args_t
  g_atmi_devrt_initialized :: bool
  dv_freed :: "u64 list"

abbreviation dv_rt :: "dev_state \<Rightarrow> rt_state" where
  "dv_rt d \<equiv> bt_rt (dv_boot d)"

section \<open>Initialisation\<close>

definition get_worker_sig :: "boot \<Rightarrow> qid \<Rightarrow> signal option" where
  "get_worker_sig b q =
     do {
       procs \<leftarrow> those (map (\<lambda>cpu. get_processor (cpu_processors (machine (bt_rt b)))
           (ATMI_PLACE_CPU 0 (int cpu)))
         [0..<device_count_by_type (g_atmi_machine b) ATMI_DEVTYPE_CPU]);
       case filter (\<lambda>r. r \<noteq> None) (map (\<lambda>p. get_worker_sig_proc p q) procs) of
         [] \<Rightarrow> None
       | r # _ \<Rightarrow> r
     }"

text \<open>
  An array of queues or signals for the device. Its length is a \<open>char\<close>; the loop that fills the
  array runs over all elements, so more than 127 of them either leave the pointer null or write
  past the end.
\<close>

definition device_array :: "u64 list \<Rightarrow> u64 \<Rightarrow> 'a list \<Rightarrow> (u8 \<times> 'a list \<times> u64) option" where
  "device_array gpu_pools addr xs =
     (let n = (of_nat (length xs) :: u8) in
      if sint n > 0
      then (if gpu_pools = [] \<or> sint n < int (length xs) then None else Some (n, xs, addr))
      else Some (n, [], 0))"

definition atmi_ke_init :: "dev_env \<Rightarrow> boot \<Rightarrow> atl_kernel_enqueue_args_t option" where
  "atmi_ke_init V b =
     do {
       let gpu_pools = atl_gpu_kernarg_pools b;
       let gpu_queues = concat (map p_queues (gpu_processors (machine (bt_rt b))));
       (ng, gq, gp) \<leftarrow> device_array gpu_pools (block_addr V GpuQueuePtr) gpu_queues;
       let cpu_queues = concat (map p_queues (cpu_processors (machine (bt_rt b))));
       (nc, cq, cp) \<leftarrow> device_array gpu_pools (block_addr V CpuQueuePtr) cpu_queues;
       sigs \<leftarrow> those (map (get_worker_sig b) cq);
       let max_kernel_types = max_kernel_types (bt_env b);
       if max_kernel_types > 0 \<and> gpu_pools = [] then None
       else Some
         \<lparr>ke_num_gpu_queues = ng, ke_gpu_queues = gq, gpu_queue_ptr = gp,
          ke_num_cpu_queues = nc, ke_cpu_queues = cq, cpu_queue_ptr = cp,
          ke_worker_signals = sigs,
          cpu_worker_signals = (if sint nc > 0 then block_addr V WorkerSignals else 0),
          ke_kernel_counter = 0,
          ke_templates = map (stale_template V) [0..<nat max_kernel_types],
          kernarg_template_ptr = (if max_kernel_types > 0 then block_addr V Templates else 0)\<rparr>
     }"

definition DeviceRuntime_Initialize ::
  "dev_env \<Rightarrow> boot_env \<Rightarrow> atmi_devtype_t \<Rightarrow> dev_state \<Rightarrow> (atmi_status_t \<times> dev_state) option" where
  "DeviceRuntime_Initialize V B devtype d =
     do {
       (_, b) \<leftarrow> Initialize B devtype (dv_boot d);
       let d = d\<lparr>dv_boot := b\<rparr>;
       if g_atmi_devrt_initialized d then Some (ATMI_STATUS_SUCCESS, d)
       else do {
         ke \<leftarrow> atmi_ke_init V b;
         Some (ATMI_STATUS_SUCCESS, d\<lparr>g_ke_args := ke, g_atmi_devrt_initialized := True\<rparr>)
       }
     }"

text \<open>A block that HSA does not free exits the program.\<close>

definition DeviceRuntime_Finalize :: "dev_env \<Rightarrow> dev_state \<Rightarrow> (atmi_status_t \<times> dev_state) option" where
  "DeviceRuntime_Finalize V d =
     do {
       let ke = g_ke_args d;
       let blocks = map (\<lambda>i. block_addr V (KernargRegions i)) [0..<ke_kernel_counter ke] @
         [kernarg_template_ptr ke, cpu_queue_ptr ke, cpu_worker_signals ke, gpu_queue_ptr ke];
       if \<forall>a \<in> set blocks. pool_free_ok V a
       then map_option (\<lambda>(_, b). (ATMI_STATUS_SUCCESS, d\<lparr>dv_boot := b, dv_freed := dv_freed d @ blocks\<rparr>))
              (Finalize (dv_boot d))
       else None
     }"

section \<open>Templates for kernels\<close>

text \<open>
  The variable arguments a second time: each is 8 bytes, and the loop reads one \<open>int\<close> for each
  implementation where there are two arguments for it.
\<close>

definition va_slots :: "dev_env \<Rightarrow> impl_arg list \<Rightarrow> u64 list" where
  "va_slots V args = concat (map (\<lambda>a. case a of
       GPUImpl name \<Rightarrow> [ucast ATMI_DEVTYPE_GPU, name_addr V name]
     | CPUImpl fp \<Rightarrow> [ucast ATMI_DEVTYPE_CPU, fp]
     | UnknownImpl ty \<Rightarrow> [ucast ty]) args)"

definition has_gpu_impl :: "dev_env \<Rightarrow> impl_arg list \<Rightarrow> bool" where
  "has_gpu_impl V args \<longleftrightarrow>
     (\<exists>slot \<in> set (take (length args) (va_slots V args)). ucast slot = ATMI_DEVTYPE_GPU)"

definition max_kernarg_segment_size :: "rt_state \<Rightarrow> impl_ptr list \<Rightarrow> u64" where
  "max_kernarg_segment_size s ps =
     fold (\<lambda>p m. if ucast (kernarg_segment_size (impls s p)) > m
                 then ucast (kernarg_segment_size (impls s p)) else m) ps 0"

text \<open>The fields of \<open>atmi_implicit_args_t\<close> that are set here, by their offsets.\<close>

definition implicit_fields :: "atl_kernel_enqueue_args_t \<Rightarrow> (nat \<times> u8 list) list" where
  "implicit_fields ke =
     [(32, [ke_num_gpu_queues ke]), (40, le_bytes 8 (gpu_queue_ptr ke)),
      (48, [ke_num_cpu_queues ke]), (64, le_bytes 8 (cpu_queue_ptr ke)),
      (56, le_bytes 8 (cpu_worker_signals ke)), (72, le_bytes 8 (kernarg_template_ptr ke))]"

definition write_fields :: "nat \<Rightarrow> (nat \<times> u8 list) list \<Rightarrow> (nat \<Rightarrow> u8) \<Rightarrow> nat \<Rightarrow> u8" where
  "write_fields base fs m = fold (\<lambda>(off, bs) m. write_bytes m (base + off) bs) fs m"

text \<open>
  The address of the implicit arguments of segment \<open>k\<close>: the product is 32 bits wide. \<open>None\<close> is an
  address in front of the region.
\<close>

definition implicit_offset :: "nat \<Rightarrow> u32 \<Rightarrow> nat option" where
  "implicit_offset k sz =
     (let after = (ucast (of_nat (k + 1) * sz :: u32) :: u64) in
      if after < sizeof_atmi_implicit_args then None
      else Some (unat (after - sizeof_atmi_implicit_args)))"

text \<open>
  The loop over the segments of a GPU implementation writes the fields in the implementation's own
  region and copies them, with the rest of the implicit arguments, to the region of the template,
  at an offset that is computed with the segment size of the implementation.
\<close>

fun fill_implicit_args ::
  "atl_kernel_enqueue_args_t \<Rightarrow> impl_ptr \<Rightarrow> nat \<Rightarrow> nat \<Rightarrow> nat list \<Rightarrow> rt_state \<Rightarrow> rt_state option"
where
  "fill_implicit_args ke p n cap [] s = Some s"
| "fill_implicit_args ke p n cap (k # ks) s =
     do {
       off \<leftarrow> implicit_offset k (kernarg_segment_size (impls s p));
       if \<not> has_kernarg_region (impls s p) \<or>
          region_bytes (kernarg_segment_size (impls s p)) < off + unat sizeof_atmi_implicit_args \<or>
          cap < off + unat sizeof_atmi_implicit_args then None
       else
         let m = write_fields off (implicit_fields ke) (region_mem s p);
             ia = read_bytes m off (unat sizeof_atmi_implicit_args);
             s = s\<lparr>region_mem := (region_mem s)(p := m)\<rparr>;
             s = s\<lparr>template_mem := (template_mem s)(n := write_bytes (template_mem s n) off ia)\<rparr>
         in fill_implicit_args ke p n cap ks s
     }"

fun fill_template ::
  "atl_kernel_enqueue_args_t \<Rightarrow> u64 \<Rightarrow> nat \<Rightarrow> nat \<Rightarrow> impl_ptr list \<Rightarrow>
   atmi_kernel_enqueue_template_t \<Rightarrow> rt_state \<Rightarrow> (atmi_kernel_enqueue_template_t \<times> rt_state) option"
where
  "fill_template ke k_id n kernel_impl_id [] tpl s = Some (tpl, s)"
| "fill_template ke k_id n kernel_impl_id (p # ps) tpl s =
     (let impl = impls s p in
      if ki_devtype impl = ATMI_DEVTYPE_GPU then
        do {
          let tpl = tpl\<lparr>kt_kernel_object := kernel_objects impl 0,
                kt_private_segment_size := private_segment_sizes impl 0,
                kt_group_segment_size := group_segment_sizes impl 0\<rparr>;
          s \<leftarrow> fill_implicit_args ke p n (kt_capacity tpl) [0..<MAX_NUM_KERNELS] s;
          fill_template ke k_id n (kernel_impl_id + 1) ps tpl s
        }
      else if ki_devtype impl = ATMI_DEVTYPE_CPU then
        fill_template ke k_id n (kernel_impl_id + 1) ps
          (tpl\<lparr>kt_type := of_nat kernel_impl_id, kt_kernel := k_id, kt_arg3 := 0\<rparr>) s
      else fill_template ke k_id n (kernel_impl_id + 1) ps tpl s)"

definition new_template ::
  "dev_env \<Rightarrow> u64 \<Rightarrow> u64 \<Rightarrow> atmi_kernel_enqueue_template_t \<Rightarrow> atmi_kernel_enqueue_template_t" where
  "new_template V k_id seg_size tpl =
     tpl\<lparr>kt_kernel_handle := k_id, kt_segment_size := seg_size, kt_next := 0,
         kt_capacity := unat seg_size * MAX_NUM_KERNELS\<rparr>"

definition upd_dv_rt :: "(rt_state \<Rightarrow> rt_state) \<Rightarrow> dev_state \<Rightarrow> dev_state" where
  "upd_dv_rt f d = d\<lparr>dv_boot := upd_rt f (dv_boot d)\<rparr>"

definition DeviceRuntime_CreateKernel ::
  "dev_env \<Rightarrow> u64 list \<Rightarrow> impl_arg list \<Rightarrow> dev_state \<Rightarrow> (atmi_status_t \<times> u64 \<times> dev_state) option" where
  "DeviceRuntime_CreateKernel V sizes args d =
     do {
       (status, k, s) \<leftarrow> CreateKernel sizes args (dv_rt d);
       k_id \<leftarrow> (if status = ATMI_STATUS_SUCCESS then k else None);
       krn \<leftarrow> kernels s k_id;
       let d = upd_dv_rt (\<lambda>_. s) d;
       let ke = g_ke_args d;
       if \<not> has_gpu_impl V args then Some (ATMI_STATUS_SUCCESS, k_id, d)
       else if int (ke_kernel_counter ke) + 1 \<ge> max_kernel_types (bt_env (dv_boot d))
       then Some (ATMI_STATUS_KERNELCOUNT_OVERFLOW, k_id, d)
       else do {
         let cur_kernel = ke_kernel_counter ke;
         let seg_size = max_kernarg_segment_size s (kn_impls krn);
         if atl_gpu_kernarg_pools (dv_boot d) = [] \<or> length (ke_templates ke) \<le> cur_kernel then None
         else do {
           let s = s\<lparr>template_mem := (template_mem s)(cur_kernel := stale_bytes V cur_kernel)\<rparr>;
           (tpl, s) \<leftarrow> fill_template ke k_id cur_kernel 0 (kn_impls krn)
             (new_template V k_id seg_size (ke_templates ke ! cur_kernel)) s;
           Some (ATMI_STATUS_SUCCESS, k_id,
             upd_dv_rt (\<lambda>_. s) (d\<lparr>g_ke_args := ke\<lparr>ke_kernel_counter := cur_kernel + 1,
               ke_templates := (ke_templates ke)[cur_kernel := tpl]\<rparr>\<rparr>))
         }
       }
     }"

text \<open>The template of a released kernel stays in the table.\<close>

definition DeviceRuntime_ReleaseKernel :: "u64 \<Rightarrow> dev_state \<Rightarrow> tid list \<times> dev_state" where
  "DeviceRuntime_ReleaseKernel k_id d =
     (let (waits, s) = ReleaseKernel k_id (dv_rt d) in (waits, upd_dv_rt (\<lambda>_. s) d))"

end
