(* ===== verification/Work_Items.thy ===== *)
theory Work_Items
  imports Dispatch
begin

text \<open>
  What a CPU kernel can ask about itself while it runs (\<open>core/cputask.cpp\<close>): the packet of the
  current thread in \<open>TaskPacketMap\<close>, its task and the coordinates of its work item. A thread is
  a number. \<open>None\<close> is a null dereference or a division by zero.
\<close>

type_synonym packet_map = "nat \<rightharpoonup> agent_dispatch_packet"

section \<open>The packet and the task of the current thread\<close>

definition get_task_packet :: "packet_map \<Rightarrow> nat \<Rightarrow> agent_dispatch_packet option" where
  "get_task_packet m self = m self"

definition set_task_packet ::
  "nat \<Rightarrow> agent_dispatch_packet option \<Rightarrow> packet_map \<Rightarrow> packet_map" where
  "set_task_packet self packet m = m(self := packet)"

definition get_cur_thread_task_impl :: "rt_state \<Rightarrow> packet_map \<Rightarrow> nat \<Rightarrow> tid option option" where
  "get_cur_thread_task_impl s m self =
     (case get_task_packet m self of
        None \<Rightarrow> Some None
      | Some packet \<Rightarrow> getTaskImpl s (ad_task packet))"

definition get_atmi_task_handle ::
  "rt_state \<Rightarrow> packet_map \<Rightarrow> nat \<Rightarrow> atmi_task_handle_t option" where
  "get_atmi_task_handle s m self =
     map_option (case_option ATMI_NULL_TASK_HANDLE (\<lambda>t. tk_id (tasks s t)))
       (get_cur_thread_task_impl s m self)"

text \<open>Outside a task \<open>get_atmi_taskgroup\<close> returns an uninitialised value, the inner \<open>None\<close>.\<close>

definition get_atmi_taskgroup ::
  "rt_state \<Rightarrow> packet_map \<Rightarrow> nat \<Rightarrow> atmi_taskgroup_handle_t option option" where
  "get_atmi_taskgroup s m self =
     map_option (map_option (\<lambda>t. tk_taskgroup (tasks s t))) (get_cur_thread_task_impl s m self)"

section \<open>Sizes and coordinates\<close>

definition dim_at :: "u64 \<times> u64 \<times> u64 \<Rightarrow> nat \<Rightarrow> u64" where
  "dim_at g dim = (case g of (x, y, z) \<Rightarrow> if dim = 0 then x else if dim = 1 then y else z)"

definition get_global_size :: "rt_state \<Rightarrow> packet_map \<Rightarrow> nat \<Rightarrow> nat \<Rightarrow> u64 option" where
  "get_global_size s m self dim =
     do {
       task \<leftarrow> get_cur_thread_task_impl s m self;
       case task of
         None \<Rightarrow> Some 0
       | Some t \<Rightarrow>
           if dim < 3 then
             (if tk_type (tasks s t) = ATL_KERNEL_EXECUTION
              then Some (dim_at (gridDim (tasks s t)) dim) else None)
           else Some 1
     }"

definition get_local_size :: "nat \<Rightarrow> u64" where "get_local_size dim = 1"

definition get_num_groups :: "rt_state \<Rightarrow> packet_map \<Rightarrow> nat \<Rightarrow> nat \<Rightarrow> u64 option" where
  "get_num_groups s m self dim = get_global_size s m self dim"

definition get_local_id :: "nat \<Rightarrow> u64" where "get_local_id dim = 0"

definition get_global_id :: "rt_state \<Rightarrow> packet_map \<Rightarrow> nat \<Rightarrow> nat \<Rightarrow> u64 option" where
  "get_global_id s m self dim =
     (case get_task_packet m self of
        Some packet \<Rightarrow>
          if dim < 3 then
            do {
              let flat_id = ad_tid packet;
              x_dim \<leftarrow> get_global_size s m self 0;
              y_dim \<leftarrow> get_global_size s m self 1;
              if dim = 0 then
                (if y_dim = 0 \<or> x_dim = 0 then None else Some (flat_id div y_dim mod x_dim))
              else if dim = 1 then (if y_dim = 0 then None else Some (flat_id mod y_dim))
              else if x_dim * y_dim = 0 then None
              else Some (flat_id div (x_dim * y_dim))
            }
          else Some 0
      | None \<Rightarrow> Some 0)"

definition get_group_id :: "rt_state \<Rightarrow> packet_map \<Rightarrow> nat \<Rightarrow> nat \<Rightarrow> u64 option" where
  "get_group_id s m self dim = get_global_id s m self dim"

section \<open>Flat identifiers and coordinates\<close>

definition coords :: "nat \<Rightarrow> nat \<Rightarrow> nat \<Rightarrow> nat \<times> nat \<times> nat" where
  "coords x y i = (i div y mod x, i mod y, i div (x * y))"

lemma coords_flat: "i div (x * y) * (x * y) + i div y mod x * y + i mod y = (i :: nat)"
proof -
  have "i mod (y * x) = y * (i div y mod x) + i mod y" by (rule mod_mult2_eq)
  then have "i div (x * y) * (x * y) + (i div y mod x * y + i mod y)
      = i div (x * y) * (x * y) + i mod (x * y)"
    by (simp add: mult.commute [of x y] mult.commute [of y "i div y mod x"])
  also have "\<dots> = i" by (rule div_mult_mod_eq)
  finally show ?thesis by (simp only: add.assoc)
qed

lemma coords_inj:
  assumes "coords x y i = coords x y j"
  shows "i = j"
proof -
  have "i div (x * y) = j div (x * y)" "i div y mod x = j div y mod x" "i mod y = j mod y"
    using assms by (simp_all add: coords_def)
  then show ?thesis using coords_flat [of i x y] coords_flat [of j x y] by metis
qed

lemma coords_bij:
  assumes "0 < x" and "0 < y"
  shows "bij_betw (coords x y) {..<x * y * z} ({..<x} \<times> {..<y} \<times> {..<z})"
proof -
  have "coords x y ` {..<x * y * z} \<subseteq> {..<x} \<times> {..<y} \<times> {..<z}"
    using assms by (auto simp: coords_def less_mult_imp_div_less mult.commute mult.left_commute)
  moreover have "inj_on (coords x y) {..<x * y * z}" by (auto intro: inj_onI coords_inj)
  moreover have "card ({..<x} \<times> {..<y} \<times> {..<z}) = card (coords x y ` {..<x * y * z})"
    using calculation(2) by (simp add: card_image card_cartesian_product)
  ultimately show ?thesis
    by (simp add: bij_betw_def card_subset_eq)
qed

text \<open>What the kernel reads, for the packet that the runtime wrote for thread \<open>i\<close> of a task.\<close>

definition work_item :: "rt_state \<Rightarrow> nat \<Rightarrow> agent_dispatch_packet \<Rightarrow> (nat \<times> nat \<times> nat) option" where
  "work_item s self p =
     (let m = set_task_packet self (Some p) Map.empty in
      do {
        a \<leftarrow> get_global_id s m self 0;
        b \<leftarrow> get_global_id s m self 1;
        c \<leftarrow> get_global_id s m self 2;
        Some (unat a, unat b, unat c)
      })"

lemma work_item_coords:
  assumes t: "getTaskImpl s (tk_id k) = Some (Some t)" and k: "k = tasks s t"
    and ty: "tk_type k = ATL_KERNEL_EXECUTION" and g: "gridDim k = (x, y, z)"
    and nz: "x \<noteq> 0" "y \<noteq> 0" and small: "unat x * unat y < 2 ^ 64" and i: "i < 2 ^ 64"
  shows "work_item s self (cpu_packet k ordered ix i) = Some (coords (unat x) (unat y) i)"
proof -
  have xy: "unat (x * y) = unat x * unat y"
    using small by (simp add: unat_word_ariths)
  then have "x * y \<noteq> 0" using nz by (metis mult_eq_0_iff unat_0 unat_0_iff)
  then show ?thesis
    using t k ty g nz i xy
    by (simp add: work_item_def get_global_id_def set_task_packet_def get_task_packet_def
        get_global_size_def get_cur_thread_task_impl_def cpu_packet_def dim_at_def coords_def
        unat_div unat_mod unat_of_nat)
qed

text \<open>
  C30. Every point of the grid of a CPU task is one work item: for a grid whose size fits the
  \<open>int\<close> that counts the threads, the coordinates that the threads of the task read with
  \<open>get_global_id\<close> are pairwise different, lie in the grid and together are the whole grid.
\<close>

theorem work_items_cover_grid:
  assumes t: "getTaskImpl s (tk_id (tasks s t)) = Some (Some t)"
    and ty: "tk_type (tasks s t) = ATL_KERNEL_EXECUTION"
    and g: "gridDim (tasks s t) = (x, y, z)"
    and pos: "0 < unat x * unat y * unat z" and small: "unat x * unat y * unat z < 2 ^ 31"
  shows "cpu_thread_count (x, y, z) = int (unat x * unat y * unat z)
    \<and> bij_betw (\<lambda>i. the (work_item s self (cpu_packet (tasks s t) ordered ix i)))
        {..<nat (cpu_thread_count (x, y, z))} ({..<unat x} \<times> {..<unat y} \<times> {..<unat z})"
proof -
  let ?n = "unat x * unat y * unat z"
  have nz: "x \<noteq> 0" "y \<noteq> 0" "1 \<le> unat z" using pos by auto
  have xyn: "unat x * unat y \<le> ?n" using nz(3) by simp
  have big: "?n < 2 ^ 64" using small by (rule less_trans) simp
  then have xs: "unat x * unat y < 2 ^ 64" using xyn by (rule le_less_trans [rotated])
  then have xy: "unat (x * y) = unat x * unat y" by (simp add: unat_word_ariths)
  have xyz: "unat (x * y * z) = ?n"
    using big xy unat_mult_lem [of "x * y" z] by simp
  have u32: "unat (ucast (x * y * z) :: u32) = ?n"
    using small by (simp add: unsigned_ucast_eq xyz take_bit_nat_eq_self)
  have "sint (ucast (x * y * z) :: u32) = int ?n"
  proof -
    have "uint (ucast (x * y * z) :: u32) = int ?n" using u32 by (metis uint_nat)
    then show ?thesis
      using small by (simp add: sint_uint signed_take_bit_int_eq_self_iff
          signed_take_bit_int_eq_self del: of_nat_mult)
  qed
  then have cnt: "cpu_thread_count (x, y, z) = int ?n"
    using pos by (simp add: cpu_thread_count_def Let_def del: of_nat_mult)
  have "bij_betw (\<lambda>i. the (work_item s self (cpu_packet (tasks s t) ordered ix i))) {..<?n}
      ({..<unat x} \<times> {..<unat y} \<times> {..<unat z})
    \<longleftrightarrow> bij_betw (coords (unat x) (unat y)) {..<?n} ({..<unat x} \<times> {..<unat y} \<times> {..<unat z})"
    using work_item_coords [OF t refl ty g nz(1, 2) xs less_trans [OF _ big]]
    by (intro bij_betw_cong) simp
  moreover have "nat (cpu_thread_count (x, y, z)) = ?n" unfolding cnt by (rule nat_int)
  ultimately show ?thesis
    using coords_bij [of "unat x" "unat y" "unat z"] nz cnt by (simp only: unat_gt_0 simp_thms)
qed

definition demo_grid_state :: rt_state where
  "demo_grid_state =
     (rt_start ATL_SYNC_CALLBACK \<lparr>cpu_processors = [], gpu_processors = [], dsp_processors = []\<rparr> [])
       \<lparr>n_tasks := 1, tasks := (\<lambda>_. (new_TaskImpl ATL_KERNEL_EXECUTION)\<lparr>tk_id := 0,
          gridDim := (2, 3, 2)\<rparr>)\<rparr>"

lemma demo_grid_task:
  "getTaskImpl demo_grid_state (tk_id (tasks demo_grid_state 0)) = Some (Some 0)"
  "tk_type (tasks demo_grid_state 0) = ATL_KERNEL_EXECUTION"
  "gridDim (tasks demo_grid_state 0) = (2, 3, 2)"
  by (simp_all add: demo_grid_state_def getTaskImpl_def get_task_handle_ID_def new_TaskImpl_def
      ATMI_NULL_TASK_HANDLE_def)

theorem work_items_cover_grid_witness:
  "bij_betw (\<lambda>i. the (work_item demo_grid_state 0 (cpu_packet (tasks demo_grid_state 0) False 0 i)))
     {..<12} ({..<2} \<times> {..<3} \<times> {..<2})"
proof -
  note r = work_items_cover_grid [OF demo_grid_task, where ordered = False and ix = 0 and self = 0]
  have c: "cpu_thread_count (2, 3, 2) = 12" using r by simp
  show ?thesis using r unfolding c by simp
qed

text \<open>
  A grid with an empty dimension is run with one thread (a warning says so), but that thread
  cannot ask for its coordinates: \<open>get_global_id\<close> divides by the size of the dimension.
\<close>

lemma empty_dimension_divides_by_zero:
  assumes t: "getTaskImpl s (tk_id (tasks s t)) = Some (Some t)"
    and ty: "tk_type (tasks s t) = ATL_KERNEL_EXECUTION"
    and g: "gridDim (tasks s t) = (x, 0, z)"
  shows "cpu_thread_count (gridDim (tasks s t)) = 1
    \<and> get_global_id s (set_task_packet self (Some (cpu_packet (tasks s t) ordered ix 0)) m) self 0
      = None"
  using assms
  by (simp add: cpu_thread_count_def get_global_id_def set_task_packet_def get_task_packet_def
      get_global_size_def get_cur_thread_task_impl_def cpu_packet_def dim_at_def)

lemma empty_dimension_divides_by_zero_witness:
  "\<exists>s. gridDim (tasks s 0) = (8, 0, 0) \<and> cpu_thread_count (gridDim (tasks s 0)) = 1 \<and>
     get_global_id s (set_task_packet 0 (Some (cpu_packet (tasks s 0) False 0 0)) Map.empty) 0 0
     = None"
proof -
  let ?s = "upd_task 0 (\<lambda>k. k\<lparr>gridDim := (8, 0, 0)\<rparr>) demo_grid_state"
  show ?thesis
    by (rule exI [of _ ?s])
      (use empty_dimension_divides_by_zero [of ?s 0 8 0 0 False 0 Map.empty] in
        \<open>simp add: demo_grid_state_def getTaskImpl_def get_task_handle_ID_def new_TaskImpl_def
          ATMI_NULL_TASK_HANDLE_def\<close>)
qed

end
