(* ===== verification/Cpu_Worker.thy ===== *)
theory Cpu_Worker
  imports Work_Items Barrier
begin

text \<open>
  The worker threads of CPU processors: \<open>agent_worker\<close> and \<open>process_packet\<close> of
  \<open>core/cputask.cpp\<close> as a state machine. Worker \<open>w\<close> runs on thread \<open>w\<close>; its transitions are one
  function \<open>worker_step\<close>, cut at every wait and around the call of the kernel function, so that
  the rest of the program (the relation \<open>cpu_step\<close>) can act in between. \<open>None\<close> means that the
  thread waits. A crash (a null dereference, a failed assertion, \<open>exit\<close>) is the location
  \<open>Crashed\<close>.
\<close>

section \<open>The packets in a ring\<close>

text \<open>A slot that no packet was written to has the header that the ring was created with.\<close>

datatype slot = Unwritten u16 | Packet aql_packet

fun packet_header :: "aql_packet \<Rightarrow> u16" where
  "packet_header (KernelPacket p) = kd_header p"
| "packet_header (AgentPacket p) = ad_header p"
| "packet_header (BarrierPacket p) = bp_header p"

fun slot_header :: "slot \<Rightarrow> u16" where
  "slot_header (Unwritten h) = h"
| "slot_header (Packet p) = packet_header p"

fun packet_completion :: "aql_packet \<Rightarrow> signal" where
  "packet_completion (KernelPacket p) = kd_completion_signal p"
| "packet_completion (AgentPacket p) = ad_completion_signal p"
| "packet_completion (BarrierPacket p) = (case bp_completion_signal p of None \<Rightarrow> 0 | Some sg \<Rightarrow> sg)"

fun slot_completion :: "slot \<Rightarrow> signal" where
  "slot_completion (Unwritten h) = 0"
| "slot_completion (Packet p) = packet_completion p"

definition INVALID_HEADER :: u16 where
  "INVALID_HEADER = create_header HSA_PACKET_TYPE_INVALID False ATMI_FENCE_SCOPE_SYSTEM
     ATMI_FENCE_SCOPE_SYSTEM"

fun invalidate_packet :: "aql_packet \<Rightarrow> aql_packet" where
  "invalidate_packet (KernelPacket p) = KernelPacket (p\<lparr>kd_header := INVALID_HEADER\<rparr>)"
| "invalidate_packet (AgentPacket p) = AgentPacket (p\<lparr>ad_header := INVALID_HEADER\<rparr>)"
| "invalidate_packet (BarrierPacket p) = BarrierPacket (p\<lparr>bp_header := INVALID_HEADER\<rparr>)"

fun invalidate :: "slot \<Rightarrow> slot" where
  "invalidate (Unwritten h) = Unwritten INVALID_HEADER"
| "invalidate (Packet p) = Packet (invalidate_packet p)"

fun slot_deps :: "slot \<Rightarrow> signal list" where
  "slot_deps (Packet (BarrierPacket p)) = take 5 (bp_dep_signal p)"
| "slot_deps _ = []"

fun slot_agent :: "slot \<Rightarrow> agent_dispatch_packet option" where
  "slot_agent (Packet (AgentPacket p)) = Some p"
| "slot_agent _ = None"

definition has_type :: "u16 \<Rightarrow> hsa_packet_type_t \<Rightarrow> bool" where
  "has_type h ty \<longleftrightarrow> get_packet_type h = ucast (packet_type_num ty)"

lemma has_type_unique: "has_type h a \<Longrightarrow> has_type h b \<longleftrightarrow> a = b"
  by (auto simp: has_type_def dest: packet_type_num_u8_inj)

text \<open>What the runtime writes to the queue of a worker has a header that fits its contents.\<close>

fun packet_ok :: "aql_packet \<Rightarrow> bool" where
  "packet_ok (KernelPacket p) = has_type (kd_header p) HSA_PACKET_TYPE_KERNEL_DISPATCH"
| "packet_ok (AgentPacket p) = has_type (ad_header p) HSA_PACKET_TYPE_AGENT_DISPATCH"
| "packet_ok (BarrierPacket p) =
     (has_type (bp_header p) HSA_PACKET_TYPE_BARRIER_AND \<or>
      has_type (bp_header p) HSA_PACKET_TYPE_BARRIER_OR)"

lemma written_packets_ok:
  "packet_ok (AgentPacket (cpu_packet k ordered ix i))"
  "packet_ok (BarrierPacket (barrier_packet_for E or_flag need lst deps))"
  by (simp_all add: cpu_packet_def barrier_packet_for_def has_type_def create_header_type)

section \<open>The call of the kernel function\<close>

definition PROCESS_PKT :: int where "PROCESS_PKT = 0"
definition FINISH :: int where "FINISH = 1"
definition IDLE :: int where "IDLE = 2"
definition INT_MAX :: int where "INT_MAX = 2147483647"

text \<open>The numbers of arguments that the \<open>switch\<close> has a call for.\<close>

definition supported_arity :: "nat \<Rightarrow> bool" where
  "supported_arity num_params \<longleftrightarrow> num_params \<le> 20 \<or> num_params = 37"

text \<open>The running address \<open>thisKernargAddress\<close>, relative to the kernarg region of the packet.\<close>

fun arg_pointers :: "u64 \<Rightarrow> u64 list \<Rightarrow> u64 list" where
  "arg_pointers thisKernargAddress [] = []"
| "arg_pointers thisKernargAddress (sz # sizes) =
     thisKernargAddress # arg_pointers (thisKernargAddress + sz) sizes"

text \<open>
  The function that an agent packet asks for and the argument pointers that it gets. \<open>type\<close> is
  the index of the implementation.
\<close>

definition agent_call ::
  "rt_state \<Rightarrow> agent_dispatch_packet \<Rightarrow> (u64 \<times> (kptr \<times> nat) list) option" where
  "agent_call s packet =
     do {
       task \<leftarrow> getTaskImpl s (ad_task packet);
       _ \<leftarrow> task;
       krn \<leftarrow> kernels s (ad_kernel packet);
       impl \<leftarrow> vector_at (kn_impls krn) (uint (ad_type packet));
       if ki_devtype (impls s impl) = ATMI_DEVTYPE_CPU \<and> kn_num_args krn \<le> length (kn_arg_sizes krn)
          \<and> supported_arity (kn_num_args krn)
       then Some (ki_function (impls s impl),
         map (\<lambda>a. (ad_kernarg packet, unat a))
           (arg_pointers 0 (take (kn_num_args krn) (kn_arg_sizes krn))))
       else None
     }"

section \<open>The state of the workers\<close>

datatype worker_pc =
    Sleeping
  | Woken
  | LoopHead
  | AtPacket
  | AtOr
  | AtAnd nat
  | InFunction "timespec option" u64 "(kptr \<times> nat) list"
  | PacketEnd
  | Exited
  | Crashed

text \<open>What a worker does that others see, in the order in which it does it.\<close>

datatype worker_event =
    Invoke agent_dispatch_packet
  | SawZero signal
  | Subtract signal

text \<open>
  The fields of \<open>thread_agent_t\<close> and of its queue, the location in the code and two histories:
  the packets by their index in the queue and what the worker did.
\<close>

record worker =
  wk_size :: nat
  wk_ring :: "slot list"
  wk_read :: nat
  wk_doorbell :: int
  wk_sig :: int
  wk_pc :: worker_pc
  wk_sent :: "nat \<rightharpoonup> aql_packet"
  wk_trace :: "worker_event list"

record cpu_state =
  workers :: "nat \<Rightarrow> worker"
  TaskPacketMap :: packet_map
  sig_val :: "signal \<Rightarrow> int"
  cpu_rt :: rt_state

text \<open>
  A worker as \<open>ATLCPUProcessor::createQueues\<close> makes it: the worker signal is \<open>IDLE\<close> and the
  doorbell is created with the value 1.
\<close>

definition new_worker :: "nat \<Rightarrow> u16 \<Rightarrow> worker" where
  "new_worker capacity h =
     \<lparr>wk_size = capacity, wk_ring = replicate capacity (Unwritten h), wk_read = 0, wk_doorbell = 1,
      wk_sig = IDLE, wk_pc = Sleeping, wk_sent = Map.empty, wk_trace = []\<rparr>"

definition upd_worker :: "nat \<Rightarrow> (worker \<Rightarrow> worker) \<Rightarrow> cpu_state \<Rightarrow> cpu_state" where
  "upd_worker w f c = c\<lparr>workers := (workers c)(w := f (workers c w))\<rparr>"

abbreviation goto :: "nat \<Rightarrow> worker_pc \<Rightarrow> cpu_state \<Rightarrow> cpu_state" where
  "goto w l \<equiv> upd_worker w (\<lambda>k. k\<lparr>wk_pc := l\<rparr>)"

definition did :: "nat \<Rightarrow> worker_event \<Rightarrow> cpu_state \<Rightarrow> cpu_state" where
  "did w e = upd_worker w (\<lambda>k. k\<lparr>wk_trace := wk_trace k @ [e]\<rparr>)"

section \<open>The steps of a worker\<close>

text \<open>The packet at the read index.\<close>

definition cur_slot :: "worker \<Rightarrow> slot" where
  "cur_slot k = wk_ring k ! (wk_read k mod wk_size k)"

definition release_packet :: "nat \<Rightarrow> cpu_state \<Rightarrow> cpu_state" where
  "release_packet w =
     upd_worker w (\<lambda>k. k\<lparr>wk_ring := (wk_ring k)[wk_read k mod wk_size k := invalidate (cur_slot k)],
       wk_pc := PacketEnd\<rparr>)"

definition sleep_step :: "nat \<Rightarrow> cpu_state \<Rightarrow> cpu_state option" where
  "sleep_step w c =
     (let sig_value = wk_sig (workers c w) in
      if \<not> sig_value < IDLE then None
      else if sig_value = FINISH then Some (goto w Exited c)
      else Some (goto w Woken c))"

text \<open>
  The compare-and-swap, and the assertion that \<open>process_packet\<close> starts with. After
  \<open>process_packet\<close> has returned, the \<open>continue\<close> of \<open>agent_worker\<close> tests \<open>sig_value == IDLE\<close>
  with the value \<open>PROCESS_PKT\<close> and leaves the loop, so returning is leaving.
\<close>

definition woken_step :: "nat \<Rightarrow> cpu_state \<Rightarrow> cpu_state option" where
  "woken_step w c =
     (let k = workers c w in
      if wk_sig k = PROCESS_PKT then
        Some (upd_worker w (\<lambda>k. k\<lparr>wk_sig := IDLE,
          wk_pc := (if wk_read k = 0 then LoopHead else Crashed)\<rparr>) c)
      else Some (goto w Sleeping c))"

definition loop_head_step :: "nat \<Rightarrow> cpu_state \<Rightarrow> cpu_state option" where
  "loop_head_step w c =
     (let k = workers c w in
      if \<not> wk_read k < wk_size k then Some (goto w Exited c)
      else if wk_doorbell k < int (wk_read k) then None
      else if wk_doorbell k = INT_MAX then Some (goto w Exited c)
      else Some (goto w AtPacket c))"

definition start_call :: "hsa_env \<Rightarrow> nat \<Rightarrow> cpu_state \<Rightarrow> cpu_state option" where
  "start_call E w c =
     (case slot_agent (cur_slot (workers c w)) of
        None \<Rightarrow> Some (goto w Crashed c)
      | Some packet \<Rightarrow>
          case agent_call (cpu_rt c) packet of
            None \<Rightarrow> Some (goto w Crashed c)
          | Some (f, args) \<Rightarrow>
              let profiled = (case getTaskImpl (cpu_rt c) (ad_task packet) of
                    Some (Some t) \<Rightarrow> profilable (tasks (cpu_rt c) t) | _ \<Rightarrow> False);
                  began = (if profiled then Some (clock_now E (hsa_log (cpu_rt c))) else None)
              in Some (goto w (InFunction began f args) (did w (Invoke packet)
                   (c\<lparr>TaskPacketMap := set_task_packet w (Some packet) (TaskPacketMap c)\<rparr>))))"

definition packet_step :: "hsa_env \<Rightarrow> nat \<Rightarrow> cpu_state \<Rightarrow> cpu_state option" where
  "packet_step E w c =
     (let h = slot_header (cur_slot (workers c w)) in
      if has_type h HSA_PACKET_TYPE_VENDOR_SPECIFIC then None
      else if has_type h HSA_PACKET_TYPE_BARRIER_OR then Some (goto w AtOr c)
      else if has_type h HSA_PACKET_TYPE_BARRIER_AND then Some (goto w (AtAnd 0) c)
      else if has_type h HSA_PACKET_TYPE_AGENT_DISPATCH then start_call E w c
      else Some (goto w PacketEnd c))"

text \<open>The loop over the signals of an OR barrier ends after the first signal that is set.\<close>

definition or_step :: "nat \<Rightarrow> cpu_state \<Rightarrow> cpu_state option" where
  "or_step w c =
     (case filter (\<lambda>d. d \<noteq> 0) (slot_deps (cur_slot (workers c w))) of
        [] \<Rightarrow> Some (release_packet w c)
      | d # _ \<Rightarrow> if sig_val c d = 0 then Some (release_packet w (did w (SawZero d) c)) else None)"

definition and_step :: "nat \<Rightarrow> nat \<Rightarrow> cpu_state \<Rightarrow> cpu_state option" where
  "and_step w i c =
     (let deps = slot_deps (cur_slot (workers c w)) in
      if \<not> i < 5 then Some (release_packet w c)
      else if i < length deps \<and> deps ! i \<noteq> 0 then
        (if sig_val c (deps ! i) = 0
         then Some (goto w (AtAnd (i + 1)) (did w (SawZero (deps ! i)) c)) else None)
      else Some (goto w (AtAnd (i + 1)) c))"

definition record_run_time ::
  "hsa_env \<Rightarrow> timespec option \<Rightarrow> agent_dispatch_packet \<Rightarrow> rt_state \<Rightarrow> rt_state" where
  "record_run_time E began packet s =
     (case (began, getTaskImpl s (ad_task packet)) of
        (Some st, Some (Some t)) \<Rightarrow>
          (case tk_task_info (tasks s t) of
             None \<Rightarrow> s
           | Some u \<Rightarrow>
               let start_ns = word_of_int (get_nanosecs (context_init_time E) st);
                   end_ns = word_of_int
                     (get_nanosecs (context_init_time E) (clock_now E (hsa_log s)))
               in s\<lparr>user_tasks := (user_tasks s)(u := (user_tasks s u)\<lparr>at_profile :=
                    \<lparr>dispatch_time = start_ns, ready_time = start_ns, start_time = start_ns,
                     end_time = end_ns\<rparr>\<rparr>)\<rparr>)
      | _ \<Rightarrow> s)"

text \<open>The function has returned.\<close>

definition return_step :: "hsa_env \<Rightarrow> timespec option \<Rightarrow> nat \<Rightarrow> cpu_state \<Rightarrow> cpu_state option" where
  "return_step E began w c =
     (case slot_agent (cur_slot (workers c w)) of
        None \<Rightarrow> Some (goto w Crashed c)
      | Some packet \<Rightarrow>
          Some (release_packet w
            (c\<lparr>TaskPacketMap := set_task_packet w None (TaskPacketMap c),
               cpu_rt := record_run_time E began packet (cpu_rt c)\<rparr>)))"

definition end_step :: "nat \<Rightarrow> cpu_state \<Rightarrow> cpu_state option" where
  "end_step w c =
     (let sg = slot_completion (cur_slot (workers c w));
          c = (if sg \<noteq> 0
               then did w (Subtract sg) (c\<lparr>sig_val := (sig_val c)(sg := sig_val c sg - 1)\<rparr>)
               else c)
      in Some (upd_worker w (\<lambda>k. k\<lparr>wk_read := wk_read k + 1, wk_pc := LoopHead\<rparr>) c))"

definition worker_step :: "hsa_env \<Rightarrow> nat \<Rightarrow> cpu_state \<Rightarrow> cpu_state option" where
  "worker_step E w c =
     (case wk_pc (workers c w) of
        Sleeping \<Rightarrow> sleep_step w c
      | Woken \<Rightarrow> woken_step w c
      | LoopHead \<Rightarrow> loop_head_step w c
      | AtPacket \<Rightarrow> packet_step E w c
      | AtOr \<Rightarrow> or_step w c
      | AtAnd i \<Rightarrow> and_step w i c
      | InFunction st f args \<Rightarrow> return_step E st w c
      | PacketEnd \<Rightarrow> end_step w c
      | Exited \<Rightarrow> None
      | Crashed \<Rightarrow> None)"

section \<open>The rest of the program\<close>

text \<open>
  A doorbell is rung for a packet that was written, as were the packets before it; the worker
  signal is set behind the doorbell.
\<close>

definition announced :: "worker \<Rightarrow> int \<Rightarrow> bool" where
  "announced k v \<longleftrightarrow> v = INT_MAX \<or> (\<forall>i < wk_size k. int i \<le> v \<longrightarrow> wk_sent k i \<noteq> None)"

text \<open>Writing the packet of a reserved index; the reservation waited for room in the ring.\<close>

definition write_packet :: "nat \<Rightarrow> nat \<Rightarrow> aql_packet \<Rightarrow> cpu_state \<Rightarrow> cpu_state" where
  "write_packet w i p =
     upd_worker w (\<lambda>k. k\<lparr>wk_ring := (wk_ring k)[i mod wk_size k := Packet p],
       wk_sent := (wk_sent k)(i \<mapsto> p)\<rparr>)"

definition can_write :: "worker \<Rightarrow> nat \<Rightarrow> bool" where
  "can_write k i \<longleftrightarrow> wk_read k \<le> i \<and> i - wk_read k < wk_size k \<and> wk_sent k i = None"

definition signal_worker_to :: "nat \<Rightarrow> int \<Rightarrow> cpu_state \<Rightarrow> cpu_state" where
  "signal_worker_to w v = upd_worker w (\<lambda>k. k\<lparr>wk_sig := v\<rparr>)"

definition ring_doorbell :: "nat \<Rightarrow> int \<Rightarrow> cpu_state \<Rightarrow> cpu_state" where
  "ring_doorbell w v = upd_worker w (\<lambda>k. k\<lparr>wk_doorbell := v\<rparr>)"

text \<open>The part of \<open>agent_fini\<close> for one agent, up to the join.\<close>

definition agent_fini_one :: "nat \<Rightarrow> cpu_state \<Rightarrow> cpu_state" where
  "agent_fini_one w c = signal_worker_to w FINISH (ring_doorbell w INT_MAX c)"

inductive cpu_step :: "hsa_env \<Rightarrow> cpu_state \<Rightarrow> cpu_state \<Rightarrow> bool" for E where
  Work: "worker_step E w c = Some c' \<Longrightarrow> cpu_step E c c'"
| Write: "can_write (workers c w) i \<Longrightarrow> packet_ok p \<Longrightarrow> cpu_step E c (write_packet w i p c)"
| Ring: "announced (workers c w) v \<Longrightarrow> cpu_step E c (ring_doorbell w v c)"
| Wake: "announced (workers c w) (wk_doorbell (workers c w)) \<Longrightarrow>
    cpu_step E c (signal_worker_to w PROCESS_PKT c)"
| Fini: "cpu_step E c (agent_fini_one w c)"
| Signals: "cpu_step E c (c\<lparr>sig_val := v\<rparr>)"
| Runtime: "cpu_step E c (c\<lparr>cpu_rt := s\<rparr>)"

definition cpu_start :: "(nat \<Rightarrow> nat) \<Rightarrow> u16 \<Rightarrow> rt_state \<Rightarrow> cpu_state" where
  "cpu_start capacity h s =
     \<lparr>workers = (\<lambda>w. new_worker (capacity w) h), TaskPacketMap = Map.empty, sig_val = (\<lambda>_. 0),
      cpu_rt = s\<rparr>"

definition cpu_reachable ::
  "hsa_env \<Rightarrow> (nat \<Rightarrow> nat) \<Rightarrow> u16 \<Rightarrow> rt_state \<Rightarrow> cpu_state \<Rightarrow> bool" where
  "cpu_reachable E capacity h s c \<longleftrightarrow> (cpu_step E)\<^sup>*\<^sup>* (cpu_start capacity h s) c"

end
