(* ===== verification/Cpu_Trace.thy ===== *)
theory Cpu_Trace
  imports Cpu_Worker
begin

text \<open>
  What the worker threads guarantee: the specification \<open>packet_events\<close> of one packet, the
  invariant that a worker has done exactly what the packets behind its read index ask for, in
  order, and what follows for the functions that run, for the end of a worker and for waiting.
\<close>

section \<open>The specification of a packet\<close>

fun body_events :: "aql_packet \<Rightarrow> worker_event list" where
  "body_events (KernelPacket p) = []"
| "body_events (AgentPacket p) = [Invoke p]"
| "body_events (BarrierPacket p) =
     (let deps = filter (\<lambda>d. d \<noteq> 0) (take 5 (bp_dep_signal p))
      in map SawZero (if has_type (bp_header p) HSA_PACKET_TYPE_BARRIER_OR then take 1 deps
                      else deps))"

definition packet_events :: "aql_packet \<Rightarrow> worker_event list" where
  "packet_events p =
     body_events p @ (if packet_completion p \<noteq> 0 then [Subtract (packet_completion p)] else [])"

section \<open>The invariant\<close>

definition cur :: "worker \<Rightarrow> aql_packet" where
  "cur k = the (wk_sent k (wk_read k))"

definition finished_events :: "worker \<Rightarrow> worker_event list" where
  "finished_events k = concat (map (\<lambda>i. packet_events (the (wk_sent k i))) [0..<wk_read k])"

definition deps_of :: "aql_packet \<Rightarrow> signal list" where
  "deps_of p = slot_deps (Packet p)"

text \<open>What the current packet has caused so far.\<close>

definition pending_events :: "worker \<Rightarrow> worker_event list" where
  "pending_events k =
     (case wk_pc k of
        AtAnd i \<Rightarrow> map SawZero (filter (\<lambda>d. d \<noteq> 0) (take i (deps_of (cur k))))
      | InFunction st f args \<Rightarrow> body_events (cur k)
      | PacketEnd \<Rightarrow> body_events (cur k)
      | _ \<Rightarrow> [])"

text \<open>The locations at which a packet has been taken up, and what is known of it there.\<close>

definition at_packet_ok :: "worker \<Rightarrow> bool" where
  "at_packet_ok k =
     (case wk_pc k of
        AtPacket \<Rightarrow> True
      | AtOr \<Rightarrow> has_type (packet_header (cur k)) HSA_PACKET_TYPE_BARRIER_OR
      | AtAnd i \<Rightarrow> has_type (packet_header (cur k)) HSA_PACKET_TYPE_BARRIER_AND \<and> i \<le> 5
      | InFunction st f args \<Rightarrow> (\<exists>p. cur k = AgentPacket p)
      | _ \<Rightarrow> True)"

definition busy :: "worker_pc \<Rightarrow> bool" where
  "busy l = (case l of AtPacket \<Rightarrow> True | AtOr \<Rightarrow> True | AtAnd i \<Rightarrow> True
     | InFunction st f args \<Rightarrow> True | PacketEnd \<Rightarrow> True | _ \<Rightarrow> False)"

definition asleep :: "worker_pc \<Rightarrow> bool" where
  "asleep l \<longleftrightarrow> l = Sleeping \<or> l = Woken"

definition worker_inv :: "worker \<Rightarrow> bool" where
  "worker_inv k \<longleftrightarrow>
     length (wk_ring k) = wk_size k \<and> wk_read k \<le> wk_size k \<and>
     (\<forall>i p. wk_sent k i = Some p \<longrightarrow> packet_ok p) \<and>
     (\<forall>i < wk_read k. wk_sent k i \<noteq> None) \<and>
     (\<forall>i p. wk_read k \<le> i \<and> i < wk_size k \<and> wk_sent k i = Some p \<and>
        (i = wk_read k \<longrightarrow> wk_pc k \<noteq> PacketEnd) \<longrightarrow> wk_ring k ! i = Packet p) \<and>
     (busy (wk_pc k) \<longrightarrow> wk_read k < wk_size k \<and> wk_sent k (wk_read k) \<noteq> None) \<and>
     (wk_pc k = PacketEnd \<longrightarrow> slot_completion (wk_ring k ! wk_read k) = packet_completion (cur k)) \<and>
     at_packet_ok k \<and>
     (asleep (wk_pc k) \<longrightarrow> wk_read k = 0) \<and>
     (\<not> asleep (wk_pc k) \<or> wk_sig k \<noteq> IDLE \<longrightarrow> announced k (wk_doorbell k)) \<and>
     wk_trace k = finished_events k @ pending_events k"

lemmas inv_defs = worker_inv_def at_packet_ok_def pending_events_def busy_def asleep_def

text \<open>The packet whose function is running.\<close>

definition running_packet :: "worker \<Rightarrow> agent_dispatch_packet option" where
  "running_packet k =
     (case wk_pc k of
        InFunction st f args \<Rightarrow> slot_agent (Packet (cur k))
      | _ \<Rightarrow> None)"

definition map_inv :: "nat \<Rightarrow> cpu_state \<Rightarrow> bool" where
  "map_inv w c \<longleftrightarrow> get_task_packet (TaskPacketMap c) w = running_packet (workers c w)"

definition cpu_inv :: "cpu_state \<Rightarrow> bool" where
  "cpu_inv c \<longleftrightarrow> (\<forall>w. worker_inv (workers c w) \<and> map_inv w c)"

lemma cpu_start_inv: "cpu_inv (cpu_start capacity h s)"
  by (simp add: cpu_inv_def map_inv_def running_packet_def cpu_start_def new_worker_def inv_defs finished_events_def
      get_task_packet_def IDLE_def PROCESS_PKT_def)

section \<open>Steps of a worker\<close>

lemma cur_slot_sent:
  assumes "worker_inv k" and "busy (wk_pc k)" and "wk_pc k \<noteq> PacketEnd"
  shows "cur_slot k = Packet (cur k)" and "packet_ok (cur k)" and "wk_read k mod wk_size k = wk_read k"
    and "wk_read k < length (wk_ring k)" and "wk_sent k (wk_read k) = Some (cur k)"
proof -
  have r: "wk_read k < wk_size k" "wk_sent k (wk_read k) = Some (cur k)"
    using assms by (auto simp: worker_inv_def cur_def)
  then show "wk_read k mod wk_size k = wk_read k" "wk_sent k (wk_read k) = Some (cur k)" by auto
  show "cur_slot k = Packet (cur k)" "packet_ok (cur k)" "wk_read k < length (wk_ring k)"
    using r assms by (auto simp: cur_slot_def worker_inv_def)
qed

lemma invalidate_completion: "slot_completion (invalidate sl) = slot_completion sl"
proof (cases sl)
  case (Packet p)
  then show ?thesis by (cases p) auto
qed auto

lemma finished_events_fields [simp]:
  "finished_events (k\<lparr>wk_pc := l\<rparr>) = finished_events k"
  "finished_events (k\<lparr>wk_trace := tr\<rparr>) = finished_events k"
  "finished_events (k\<lparr>wk_ring := r\<rparr>) = finished_events k"
  "finished_events (k\<lparr>wk_sig := v\<rparr>) = finished_events k"
  "finished_events (k\<lparr>wk_doorbell := v\<rparr>) = finished_events k"
  by (simp_all add: finished_events_def)

lemma cur_fields [simp]:
  "cur (k\<lparr>wk_pc := l\<rparr>) = cur k" "cur (k\<lparr>wk_trace := tr\<rparr>) = cur k"
  "cur (k\<lparr>wk_ring := r\<rparr>) = cur k" "cur (k\<lparr>wk_sig := v\<rparr>) = cur k"
  "cur (k\<lparr>wk_doorbell := v\<rparr>) = cur k"
  by (simp_all add: cur_def)

lemma announced_fields [simp]:
  "announced (k\<lparr>wk_pc := l\<rparr>) v = announced k v" "announced (k\<lparr>wk_trace := tr\<rparr>) v = announced k v"
  "announced (k\<lparr>wk_ring := r\<rparr>) v = announced k v" "announced (k\<lparr>wk_sig := x\<rparr>) v = announced k v"
  "announced (k\<lparr>wk_doorbell := x\<rparr>) v = announced k v" "announced (k\<lparr>wk_read := x2\<rparr>) v = announced k v"
  by (simp_all add: announced_def)

lemma finished_events_next:
  "wk_sent k (wk_read k) \<noteq> None \<Longrightarrow>
   finished_events (k\<lparr>wk_read := Suc (wk_read k)\<rparr>) = finished_events k @ packet_events (cur k)"
  by (simp add: finished_events_def cur_def)

lemma worker_invI:
  assumes "length (wk_ring k) = wk_size k" and "wk_read k \<le> wk_size k"
    and "\<And>i p. wk_sent k i = Some p \<Longrightarrow> packet_ok p"
    and "\<And>i. i < wk_read k \<Longrightarrow> wk_sent k i \<noteq> None"
    and "\<And>i p. wk_read k \<le> i \<Longrightarrow> i < wk_size k \<Longrightarrow> wk_sent k i = Some p \<Longrightarrow>
      (i = wk_read k \<Longrightarrow> wk_pc k \<noteq> PacketEnd) \<Longrightarrow> wk_ring k ! i = Packet p"
    and "busy (wk_pc k) \<Longrightarrow> wk_read k < wk_size k \<and> wk_sent k (wk_read k) \<noteq> None"
    and "wk_pc k = PacketEnd \<Longrightarrow> slot_completion (wk_ring k ! wk_read k) = packet_completion (cur k)"
    and "at_packet_ok k" and "asleep (wk_pc k) \<Longrightarrow> wk_read k = 0"
    and "\<not> asleep (wk_pc k) \<or> wk_sig k \<noteq> IDLE \<Longrightarrow> announced k (wk_doorbell k)"
    and "wk_trace k = finished_events k @ pending_events k"
  shows "worker_inv k"
  using assms unfolding worker_inv_def by blast

lemma worker_invD:
  assumes "worker_inv k"
  shows "length (wk_ring k) = wk_size k" and "wk_read k \<le> wk_size k"
    and "wk_sent k i = Some p \<Longrightarrow> packet_ok p"
    and "i < wk_read k \<Longrightarrow> wk_sent k i \<noteq> None"
    and "wk_read k \<le> i \<Longrightarrow> i < wk_size k \<Longrightarrow> wk_sent k i = Some p \<Longrightarrow>
      (i = wk_read k \<Longrightarrow> wk_pc k \<noteq> PacketEnd) \<Longrightarrow> wk_ring k ! i = Packet p"
    and "busy (wk_pc k) \<Longrightarrow> wk_read k < wk_size k \<and> wk_sent k (wk_read k) \<noteq> None"
    and "wk_pc k = PacketEnd \<Longrightarrow> slot_completion (wk_ring k ! wk_read k) = packet_completion (cur k)"
    and "at_packet_ok k" and "asleep (wk_pc k) \<Longrightarrow> wk_read k = 0"
    and "\<not> asleep (wk_pc k) \<or> wk_sig k \<noteq> IDLE \<Longrightarrow> announced k (wk_doorbell k)"
    and "wk_trace k = finished_events k @ pending_events k"
  using assms unfolding worker_inv_def by blast+

text \<open>Moving on with the events \<open>es\<close>, and finishing the body of a packet.\<close>

lemma inv_goto:
  assumes inv: "worker_inv k"
    and b: "busy l \<Longrightarrow> wk_read k < wk_size k \<and> wk_sent k (wk_read k) \<noteq> None"
    and pe: "l \<noteq> PacketEnd" "wk_pc k \<noteq> PacketEnd" and ok: "at_packet_ok (k\<lparr>wk_pc := l\<rparr>)"
    and sl: "asleep l \<Longrightarrow> asleep (wk_pc k)"
    and an: "asleep (wk_pc k) \<Longrightarrow> \<not> asleep l \<Longrightarrow> announced k (wk_doorbell k)"
    and ev: "pending_events (k\<lparr>wk_pc := l\<rparr>) = pending_events k @ es"
  shows "worker_inv (k\<lparr>wk_trace := wk_trace k @ es, wk_pc := l\<rparr>)"
proof (rule worker_invI)
  note d = worker_invD [OF inv]
  show "wk_ring (k\<lparr>wk_trace := wk_trace k @ es, wk_pc := l\<rparr>) ! i = Packet p"
    if "wk_read (k\<lparr>wk_trace := wk_trace k @ es, wk_pc := l\<rparr>) \<le> i"
      "i < wk_size (k\<lparr>wk_trace := wk_trace k @ es, wk_pc := l\<rparr>)"
      "wk_sent (k\<lparr>wk_trace := wk_trace k @ es, wk_pc := l\<rparr>) i = Some p" for i p
    using d(5) [of i p] that pe by simp
  show "at_packet_ok (k\<lparr>wk_trace := wk_trace k @ es, wk_pc := l\<rparr>)"
    using ok by (simp add: at_packet_ok_def cong: worker_pc.case_cong)
  show "wk_trace (k\<lparr>wk_trace := wk_trace k @ es, wk_pc := l\<rparr>) =
      finished_events (k\<lparr>wk_trace := wk_trace k @ es, wk_pc := l\<rparr>) @
      pending_events (k\<lparr>wk_trace := wk_trace k @ es, wk_pc := l\<rparr>)"
    using d(11) ev by (simp add: pending_events_def cong: worker_pc.case_cong)
qed (use worker_invD [OF inv] b pe sl an in auto)

lemma inv_release:
  assumes inv: "worker_inv k" and b: "busy (wk_pc k)" "wk_pc k \<noteq> PacketEnd"
    and ev: "pending_events k @ es = body_events (cur k)"
  shows "worker_inv (k\<lparr>wk_trace := wk_trace k @ es,
      wk_ring := (wk_ring k)[wk_read k mod wk_size k := invalidate (cur_slot k)],
      wk_pc := PacketEnd\<rparr>)" (is "worker_inv ?k")
proof (rule worker_invI)
  note d = worker_invD [OF inv] and c = cur_slot_sent [OF inv b]
  have na: "\<not> asleep (wk_pc k)" using b by (auto simp: busy_def asleep_def)
  then show "announced ?k (wk_doorbell ?k)" using d(10) by simp
  show "wk_ring ?k ! i = Packet p" if "wk_read ?k \<le> i" "i < wk_size ?k" "wk_sent ?k i = Some p"
    "i = wk_read ?k \<Longrightarrow> wk_pc ?k \<noteq> PacketEnd" for i p
  proof -
    have "wk_ring k ! i = Packet p" using that b by (intro d(5)) auto
    then show ?thesis using that c(3) by (cases "i = wk_read k") auto
  qed
  show "slot_completion (wk_ring ?k ! wk_read ?k) = packet_completion (cur ?k)"
    using c by (simp add: invalidate_completion del: invalidate.simps)
  show "wk_trace ?k = finished_events ?k @ pending_events ?k"
    using d(11) ev by (simp add: pending_events_def)
  show "at_packet_ok ?k" by (simp add: at_packet_ok_def)
  show "asleep (wk_pc ?k) \<Longrightarrow> wk_read ?k = 0" by (simp add: asleep_def)
  show "wk_read ?k < wk_size ?k \<and> wk_sent ?k (wk_read ?k) \<noteq> None" using d(6) [OF b(1)] by simp
qed (use worker_invD [OF inv] in auto)

lemma upd_worker_same [simp]: "workers (upd_worker w f c) w = f (workers c w)"
  and upd_worker_other [simp]: "v \<noteq> w \<Longrightarrow> workers (upd_worker w f c) v = workers c v"
  and upd_worker_fields [simp]: "TaskPacketMap (upd_worker w f c) = TaskPacketMap c"
    "sig_val (upd_worker w f c) = sig_val c" "cpu_rt (upd_worker w f c) = cpu_rt c"
  by (simp_all add: upd_worker_def)

lemma did_fields [simp]:
  "workers (did w e c) w = (workers c w)\<lparr>wk_trace := wk_trace (workers c w) @ [e]\<rparr>"
  "v \<noteq> w \<Longrightarrow> workers (did w e c) v = workers c v" "TaskPacketMap (did w e c) = TaskPacketMap c"
  "sig_val (did w e c) = sig_val c" "cpu_rt (did w e c) = cpu_rt c"
  by (simp_all add: did_def)

lemma release_packet_fields [simp]:
  "workers (release_packet w c) w =
     (workers c w)\<lparr>wk_ring := (wk_ring (workers c w))
        [wk_read (workers c w) mod wk_size (workers c w) := invalidate (cur_slot (workers c w))],
       wk_pc := PacketEnd\<rparr>"
  "v \<noteq> w \<Longrightarrow> workers (release_packet w c) v = workers c v"
  "TaskPacketMap (release_packet w c) = TaskPacketMap c"
  "sig_val (release_packet w c) = sig_val c" "cpu_rt (release_packet w c) = cpu_rt c"
  by (simp_all add: release_packet_def)

lemma cur_slot_trace [simp]: "cur_slot (k\<lparr>wk_trace := tr\<rparr>) = cur_slot k"
  by (simp add: cur_slot_def)

text \<open>The part of the state that a step of another worker leaves alone.\<close>

definition others_kept :: "nat \<Rightarrow> cpu_state \<Rightarrow> cpu_state \<Rightarrow> bool" where
  "others_kept w c c' \<longleftrightarrow> (\<forall>v. v \<noteq> w \<longrightarrow> workers c' v = workers c v \<and>
     get_task_packet (TaskPacketMap c') v = get_task_packet (TaskPacketMap c) v)"

definition step_keeps :: "nat \<Rightarrow> cpu_state \<Rightarrow> cpu_state \<Rightarrow> bool" where
  "step_keeps w c c' \<longleftrightarrow> worker_inv (workers c' w) \<and> map_inv w c' \<and> others_kept w c c'"

lemma keeps_goto:
  assumes "worker_inv (workers c w)" and "map_inv w c"
    and "busy l \<Longrightarrow> wk_read (workers c w) < wk_size (workers c w) \<and>
      wk_sent (workers c w) (wk_read (workers c w)) \<noteq> None"
    and "l \<noteq> PacketEnd" "wk_pc (workers c w) \<noteq> PacketEnd"
    and "at_packet_ok ((workers c w)\<lparr>wk_pc := l\<rparr>)"
    and "asleep l \<Longrightarrow> asleep (wk_pc (workers c w))"
    and "asleep (wk_pc (workers c w)) \<Longrightarrow> \<not> asleep l \<Longrightarrow>
      announced (workers c w) (wk_doorbell (workers c w))"
    and "pending_events ((workers c w)\<lparr>wk_pc := l\<rparr>) = pending_events (workers c w)"
    and "\<And>st f args. l \<noteq> InFunction st f args"
    and "\<And>st f args. wk_pc (workers c w) \<noteq> InFunction st f args"
  shows "step_keeps w c (goto w l c)"
  using inv_goto [OF assms(1, 3-8), of "[]"] assms(2, 9-11)
  by (simp add: step_keeps_def map_inv_def running_packet_def others_kept_def split: worker_pc.splits)

lemma sleep_step_keeps:
  assumes inv: "worker_inv (workers c w)" "map_inv w c" and pc: "wk_pc (workers c w) = Sleeping"
    and st: "sleep_step w c = Some c'"
  shows "step_keeps w c c'"
proof -
  have "announced (workers c w) (wk_doorbell (workers c w))"
    using worker_invD(10) [OF inv(1)] st by (auto simp: sleep_step_def Let_def split: if_splits)
  then have "step_keeps w c (goto w l c)" if "l = Exited \<or> l = Woken" for l
    using that pc
    by (intro keeps_goto [OF inv])
      (auto simp: busy_def asleep_def at_packet_ok_def pending_events_def)
  then show ?thesis using st by (auto simp: sleep_step_def Let_def split: if_splits)
qed

lemma woken_step_keeps:
  assumes inv: "worker_inv (workers c w)" "map_inv w c" and pc: "wk_pc (workers c w) = Woken"
    and st: "woken_step w c = Some c'"
  shows "step_keeps w c c'"
proof (cases "wk_sig (workers c w) = PROCESS_PKT")
  case False
  have "step_keeps w c (goto w Sleeping c)"
    using pc by (intro keeps_goto [OF inv])
      (auto simp: busy_def asleep_def at_packet_ok_def pending_events_def)
  then show ?thesis using st False by (auto simp: woken_step_def Let_def)
next
  case True
  let ?k = "workers c w"
  note d = worker_invD [OF inv(1)]
  have a: "announced ?k (wk_doorbell ?k)" "wk_read ?k = 0"
    using d(9, 10) True pc by (auto simp: PROCESS_PKT_def IDLE_def asleep_def)
  have c': "c' = upd_worker w (\<lambda>k. k\<lparr>wk_sig := IDLE, wk_pc := LoopHead\<rparr>) c"
    using st True a by (simp add: woken_step_def Let_def upd_worker_def)
  have "worker_inv (?k\<lparr>wk_sig := IDLE, wk_pc := LoopHead\<rparr>)"
  proof (rule worker_invI)
    show "wk_ring (?k\<lparr>wk_sig := IDLE, wk_pc := LoopHead\<rparr>) ! i = Packet p"
      if "wk_read (?k\<lparr>wk_sig := IDLE, wk_pc := LoopHead\<rparr>) \<le> i"
        "i < wk_size (?k\<lparr>wk_sig := IDLE, wk_pc := LoopHead\<rparr>)"
        "wk_sent (?k\<lparr>wk_sig := IDLE, wk_pc := LoopHead\<rparr>) i = Some p" for i p
      using d(5) [of i p] that pc by simp
    show "wk_trace (?k\<lparr>wk_sig := IDLE, wk_pc := LoopHead\<rparr>) =
        finished_events (?k\<lparr>wk_sig := IDLE, wk_pc := LoopHead\<rparr>) @
        pending_events (?k\<lparr>wk_sig := IDLE, wk_pc := LoopHead\<rparr>)"
      using d(11) pc by (simp add: pending_events_def)
  qed (use d a in \<open>auto simp: busy_def asleep_def at_packet_ok_def\<close>)
  then show ?thesis
    using inv(2) pc by (simp add: c' step_keeps_def map_inv_def running_packet_def others_kept_def)
qed

lemma loop_head_step_keeps:
  assumes inv: "worker_inv (workers c w)" "map_inv w c" and pc: "wk_pc (workers c w) = LoopHead"
    and st: "loop_head_step w c = Some c'"
  shows "step_keeps w c c'"
proof -
  let ?k = "workers c w"
  have a: "announced ?k (wk_doorbell ?k)" using worker_invD(10) [OF inv(1)] pc by (simp add: asleep_def)
  have ex: "step_keeps w c (goto w Exited c)"
    using pc by (intro keeps_goto [OF inv])
      (auto simp: busy_def asleep_def at_packet_ok_def pending_events_def)
  have "step_keeps w c (goto w AtPacket c)"
    if "wk_read ?k < wk_size ?k" "int (wk_read ?k) \<le> wk_doorbell ?k" "wk_doorbell ?k \<noteq> INT_MAX"
    using pc that a by (intro keeps_goto [OF inv])
      (auto simp: busy_def asleep_def at_packet_ok_def pending_events_def announced_def)
  then show ?thesis using st ex by (auto simp: loop_head_step_def Let_def not_less split: if_splits)
qed

lemma packet_step_keeps:
  assumes inv: "worker_inv (workers c w)" "map_inv w c" and pc: "wk_pc (workers c w) = AtPacket"
    and st: "packet_step E w c = Some c'"
  shows "step_keeps w c c'"
proof -
  let ?k = "workers c w"
  have b: "busy (wk_pc ?k)" "wk_pc ?k \<noteq> PacketEnd" using pc by (simp_all add: busy_def)
  note d = worker_invD [OF inv(1)] and s = cur_slot_sent [OF inv(1) b]
  let ?h = "packet_header (cur ?k)"
  have go: "step_keeps w c (goto w l c)"
    if "l = Crashed \<or> l = AtOr \<and> has_type ?h HSA_PACKET_TYPE_BARRIER_OR \<or>
        l = AtAnd 0 \<and> has_type ?h HSA_PACKET_TYPE_BARRIER_AND" for l
    using pc that d(6) [OF b(1)] by (intro keeps_goto [OF inv])
      (auto simp: busy_def asleep_def at_packet_ok_def pending_events_def)
  consider (agent) "has_type ?h HSA_PACKET_TYPE_AGENT_DISPATCH"
    | (kern) p where "cur ?k = KernelPacket p" | (bar) p where "cur ?k = BarrierPacket p"
    using s(2) by (cases "cur ?k") auto
  then show ?thesis
  proof cases
    case agent
    then have ns: "\<not> has_type ?h HSA_PACKET_TYPE_VENDOR_SPECIFIC"
      "\<not> has_type ?h HSA_PACKET_TYPE_BARRIER_OR" "\<not> has_type ?h HSA_PACKET_TYPE_BARRIER_AND"
      by (simp_all add: has_type_unique)
    have st': "start_call E w c = Some c'"
      using st ns agent s(1) by (simp add: packet_step_def Let_def)
    show ?thesis
    proof (cases "cur ?k")
      case (AgentPacket p)
      show ?thesis
      proof (cases "agent_call (cpu_rt c) p")
        case None
        then show ?thesis using st' s(1) AgentPacket go [of Crashed] by (simp add: start_call_def)
      next
        case (Some fa)
        obtain st0 f args where c': "c' = goto w (InFunction st0 f args) (did w (Invoke p)
            (c\<lparr>TaskPacketMap := set_task_packet w (Some p) (TaskPacketMap c)\<rparr>))"
          using st' s(1) AgentPacket Some by (auto simp: start_call_def Let_def split: prod.splits)
        have "worker_inv (?k\<lparr>wk_trace := wk_trace ?k @ [Invoke p], wk_pc := InFunction st0 f args\<rparr>)"
          using pc AgentPacket d(6) [OF b(1)]
          by (intro inv_goto [OF inv(1)])
            (auto simp: busy_def asleep_def at_packet_ok_def pending_events_def)
        then show ?thesis
          using AgentPacket by (simp add: c' step_keeps_def map_inv_def running_packet_def others_kept_def
              set_task_packet_def get_task_packet_def)
      qed
    qed (use st' s(1) go [of Crashed] in \<open>auto simp: start_call_def\<close>)
  next
    case (kern p)
    have ty: "has_type ?h HSA_PACKET_TYPE_KERNEL_DISPATCH" using s(2) kern by simp
    have c': "c' = goto w PacketEnd c"
      using st s(1) has_type_unique [OF ty] kern by (simp add: packet_step_def Let_def)
    have "worker_inv (?k\<lparr>wk_pc := PacketEnd\<rparr>)"
    proof (rule worker_invI)
      show "slot_completion (wk_ring (?k\<lparr>wk_pc := PacketEnd\<rparr>) ! wk_read (?k\<lparr>wk_pc := PacketEnd\<rparr>)) =
          packet_completion (cur (?k\<lparr>wk_pc := PacketEnd\<rparr>))"
        using s(1, 3) by (simp add: cur_slot_def)
      show "wk_trace (?k\<lparr>wk_pc := PacketEnd\<rparr>) = finished_events (?k\<lparr>wk_pc := PacketEnd\<rparr>) @
          pending_events (?k\<lparr>wk_pc := PacketEnd\<rparr>)"
        using d(11) pc kern by (simp add: pending_events_def)
      show "announced (?k\<lparr>wk_pc := PacketEnd\<rparr>) (wk_doorbell (?k\<lparr>wk_pc := PacketEnd\<rparr>))"
        using d(10) pc by (simp add: asleep_def)
      show "wk_ring (?k\<lparr>wk_pc := PacketEnd\<rparr>) ! i = Packet p'"
        if "wk_read (?k\<lparr>wk_pc := PacketEnd\<rparr>) \<le> i" "i < wk_size (?k\<lparr>wk_pc := PacketEnd\<rparr>)"
          "wk_sent (?k\<lparr>wk_pc := PacketEnd\<rparr>) i = Some p'" for i p'
        using d(5) [of i p'] that pc by simp
    qed (use d d(6) [OF b(1)] in \<open>auto simp: asleep_def at_packet_ok_def\<close>)
    then show ?thesis
      using inv(2) pc by (simp add: c' step_keeps_def map_inv_def running_packet_def others_kept_def)
  next
    case (bar p)
    then have ty: "has_type ?h HSA_PACKET_TYPE_BARRIER_AND \<or> has_type ?h HSA_PACKET_TYPE_BARRIER_OR"
      using s(2) by simp
    show ?thesis
      using st s(1) ty go [of AtOr] go [of "AtAnd 0"]
      by (auto simp: packet_step_def Let_def has_type_unique)
  qed
qed

text \<open>The barriers, the return of the function and the end of a packet.\<close>

lemma keeps_release:
  assumes inv: "worker_inv (workers c w)" and b: "busy (wk_pc (workers c w))"
      "wk_pc (workers c w) \<noteq> PacketEnd"
    and ev: "pending_events (workers c w) @ es = body_events (cur (workers c w))"
    and c0: "workers c0 w = (workers c w)\<lparr>wk_trace := wk_trace (workers c w) @ es\<rparr>"
    and o: "others_kept w c c0" and m: "get_task_packet (TaskPacketMap c0) w = None"
  shows "step_keeps w c (release_packet w c0)"
  using inv_release [OF inv b ev] c0 o m
  by (simp add: step_keeps_def map_inv_def running_packet_def others_kept_def)

lemma or_step_keeps:
  assumes inv: "worker_inv (workers c w)" "map_inv w c" and pc: "wk_pc (workers c w) = AtOr"
    and st: "or_step w c = Some c'"
  shows "step_keeps w c c'"
proof -
  let ?k = "workers c w"
  have b: "busy (wk_pc ?k)" "wk_pc ?k \<noteq> PacketEnd" using pc by (simp_all add: busy_def)
  note d = worker_invD [OF inv(1)] and s = cur_slot_sent [OF inv(1) b]
  have ty: "has_type (packet_header (cur ?k)) HSA_PACKET_TYPE_BARRIER_OR"
    using d(8) pc by (simp add: at_packet_ok_def)
  then obtain p where p: "cur ?k = BarrierPacket p"
    using s(2) by (cases "cur ?k") (auto simp: has_type_unique)
  have m: "get_task_packet (TaskPacketMap c) w = None" using inv(2) pc by (simp add: map_inv_def running_packet_def)
  have pe: "pending_events ?k = []" using pc by (simp add: pending_events_def)
  show ?thesis
  proof (cases "filter (\<lambda>d. d \<noteq> 0) (slot_deps (cur_slot ?k))")
    case Nil
    then have "c' = release_packet w c" using st by (simp add: or_step_def)
    then show ?thesis
      using Nil ty p s(1) m pe
      by (auto intro!: keeps_release [OF inv(1) b, of "[]"] simp: others_kept_def)
  next
    case (Cons dep rest)
    then have "c' = release_packet w (did w (SawZero dep) c)"
      using st by (auto simp: or_step_def split: if_splits)
    then show ?thesis
      using Cons ty p s(1) m pe
      by (auto intro!: keeps_release [OF inv(1) b, of "[SawZero dep]"] simp: others_kept_def)
  qed
qed

lemma take_Suc_events:
  "map SawZero (filter P (take (Suc i) xs)) =
   map SawZero (filter P (take i xs)) @ (if i < length xs \<and> P (xs ! i) then [SawZero (xs ! i)] else [])"
  by (cases "i < length xs") (simp_all add: take_Suc_conv_app_nth)

lemma and_step_keeps:
  assumes inv: "worker_inv (workers c w)" "map_inv w c" and pc: "wk_pc (workers c w) = AtAnd i"
    and st: "and_step w i c = Some c'"
  shows "step_keeps w c c'"
proof -
  let ?k = "workers c w"
  have b: "busy (wk_pc ?k)" "wk_pc ?k \<noteq> PacketEnd" using pc by (simp_all add: busy_def)
  note d = worker_invD [OF inv(1)] and s = cur_slot_sent [OF inv(1) b]
  have ty: "has_type (packet_header (cur ?k)) HSA_PACKET_TYPE_BARRIER_AND" and i5: "i \<le> 5"
    using d(8) pc by (simp_all add: at_packet_ok_def)
  then obtain p where p: "cur ?k = BarrierPacket p"
    using s(2) by (cases "cur ?k") (auto simp: has_type_unique)
  have m: "get_task_packet (TaskPacketMap c) w = None" using inv(2) pc by (simp add: map_inv_def running_packet_def)
  have ds: "slot_deps (cur_slot ?k) = deps_of (cur ?k)" by (simp add: s(1) deps_of_def)
  let ?ds = "deps_of (cur ?k)"
  have go: "worker_inv (?k\<lparr>wk_trace := wk_trace ?k @ es, wk_pc := AtAnd (Suc i)\<rparr>)"
    if "i < 5" "es = (if i < length ?ds \<and> ?ds ! i \<noteq> 0 then [SawZero (?ds ! i)] else [])" for es
    using that pc ty d(6) [OF b(1)]
    by (intro inv_goto [OF inv(1)])
      (simp_all add: busy_def asleep_def at_packet_ok_def pending_events_def take_Suc_events)
  show ?thesis
  proof (cases "i < 5")
    case False
    then have c': "c' = release_packet w c" using st by (simp add: and_step_def)
    have "pending_events ?k @ [] = body_events (cur ?k)"
      using False i5 pc p ty by (simp add: pending_events_def deps_of_def has_type_unique)
    then show ?thesis
      using m unfolding c' by (intro keeps_release [OF inv(1) b]) (auto simp: others_kept_def)
  next
    case True
    show ?thesis
    proof (cases "i < length ?ds \<and> ?ds ! i \<noteq> 0")
      case act: True
      then have "c' = goto w (AtAnd (Suc i)) (did w (SawZero (?ds ! i)) c)"
        using st True by (auto simp: and_step_def ds Let_def split: if_splits)
      then show ?thesis
        using go [OF True refl] act m by (simp add: step_keeps_def map_inv_def running_packet_def others_kept_def)
    next
      case skip: False
      then have "c' = goto w (AtAnd (Suc i)) c"
        using st True by (auto simp: and_step_def ds Let_def split: if_splits)
      then show ?thesis
        using go [OF True refl] skip m by (simp add: step_keeps_def map_inv_def running_packet_def others_kept_def)
    qed
  qed
qed

lemma return_step_keeps:
  assumes inv: "worker_inv (workers c w)" "map_inv w c"
    and pc: "wk_pc (workers c w) = InFunction began f args"
    and st: "return_step E began w c = Some c'"
  shows "step_keeps w c c'"
proof -
  let ?k = "workers c w"
  have b: "busy (wk_pc ?k)" "wk_pc ?k \<noteq> PacketEnd" using pc by (simp_all add: busy_def)
  note d = worker_invD [OF inv(1)] and s = cur_slot_sent [OF inv(1) b]
  obtain p where p: "cur ?k = AgentPacket p" using d(8) pc by (auto simp: at_packet_ok_def)
  have c': "c' = release_packet w (c\<lparr>TaskPacketMap := set_task_packet w None (TaskPacketMap c),
      cpu_rt := record_run_time E began p (cpu_rt c)\<rparr>)"
    using st s(1) p by (simp add: return_step_def)
  show ?thesis
    unfolding c' using pc
    by (intro keeps_release [OF inv(1) b, of "[]"])
      (auto simp: pending_events_def others_kept_def set_task_packet_def get_task_packet_def)
qed

lemma end_step_keeps:
  assumes inv: "worker_inv (workers c w)" "map_inv w c" and pc: "wk_pc (workers c w) = PacketEnd"
    and st: "end_step w c = Some c'"
  shows "step_keeps w c c'"
proof -
  let ?k = "workers c w"
  note d = worker_invD [OF inv(1)]
  have b: "busy (wk_pc ?k)" using pc by (simp add: busy_def)
  have r: "wk_read ?k < wk_size ?k" "wk_sent ?k (wk_read ?k) \<noteq> None" using d(6) [OF b] by auto
  let ?es = "if packet_completion (cur ?k) \<noteq> 0 then [Subtract (packet_completion (cur ?k))] else []"
  let ?k' = "?k\<lparr>wk_trace := wk_trace ?k @ ?es, wk_read := Suc (wk_read ?k), wk_pc := LoopHead\<rparr>"
  have sg: "slot_completion (cur_slot ?k) = packet_completion (cur ?k)"
    using d(7) [OF pc] r by (simp add: cur_slot_def)
  have w: "workers c' w = ?k'" and o: "others_kept w c c'"
    and m: "get_task_packet (TaskPacketMap c') w = get_task_packet (TaskPacketMap c) w"
    using st by (auto simp: end_step_def Let_def sg others_kept_def)
  have "finished_events ?k' = finished_events ?k @ packet_events (cur ?k)"
    using finished_events_next [OF r(2)] by (simp add: finished_events_def)
  then have "wk_trace ?k' = finished_events ?k' @ pending_events ?k'"
    using d(11) pc by (simp add: pending_events_def packet_events_def)
  moreover have "wk_ring ?k' ! i = Packet p"
    if "wk_read ?k' \<le> i" "i < wk_size ?k'" "wk_sent ?k' i = Some p" for i p
    using d(5) [of i p] that by simp
  moreover have "announced ?k' (wk_doorbell ?k')" using d(10) pc by (simp add: asleep_def)
  moreover have "wk_sent ?k' i \<noteq> None" if "i < wk_read ?k'" for i
    using d(4) [of i] r that by (cases "i = wk_read ?k") auto
  ultimately have "worker_inv ?k'"
    using d r by (intro worker_invI) (auto simp: busy_def asleep_def at_packet_ok_def)
  then show ?thesis
    using w o m inv(2) pc by (simp add: step_keeps_def map_inv_def running_packet_def)
qed

lemma worker_step_keeps:
  assumes "worker_inv (workers c w)" "map_inv w c" and "worker_step E w c = Some c'"
  shows "step_keeps w c c'"
  using assms sleep_step_keeps woken_step_keeps loop_head_step_keeps packet_step_keeps or_step_keeps
    and_step_keeps return_step_keeps end_step_keeps
  by (auto simp: worker_step_def split: worker_pc.splits)

section \<open>Steps of the rest of the program\<close>

lemma write_inv:
  assumes inv: "worker_inv k" and cw: "can_write k i" and ok: "packet_ok p"
  shows "worker_inv (k\<lparr>wk_ring := (wk_ring k)[i mod wk_size k := Packet p],
      wk_sent := (wk_sent k)(i \<mapsto> p)\<rparr>)" (is "worker_inv ?k")
proof (rule worker_invI)
  note d = worker_invD [OF inv]
  have i: "wk_read k \<le> i" "i < wk_read k + wk_size k" "wk_sent k i = None"
    using cw by (auto simp: can_write_def)
  have other: "i mod wk_size k \<noteq> j" if "wk_read k \<le> j" "j < wk_size k" "i \<noteq> j" for j
  proof (cases "i < wk_size k")
    case False
    then have "i mod wk_size k = i - wk_size k"
      using i d(2) by (simp add: mod_if)
    then show ?thesis using i that False by linarith
  qed (use that in auto)
  have cur: "cur ?k = cur k" if "busy (wk_pc k)"
    using d(6) [OF that] i by (auto simp: cur_def)
  have fin: "finished_events ?k = finished_events k"
    using i by (auto simp: finished_events_def intro!: arg_cong [where f = concat])
  have pend: "pending_events ?k = pending_events k"
    using cur by (auto simp: pending_events_def busy_def split: worker_pc.splits)
  show "wk_trace ?k = finished_events ?k @ pending_events ?k" using d(11) fin pend by simp
  show "at_packet_ok ?k"
    using d(8) cur by (auto simp: at_packet_ok_def busy_def split: worker_pc.splits)
  show "wk_ring ?k ! j = Packet q" if "wk_read ?k \<le> j" "j < wk_size ?k" "wk_sent ?k j = Some q"
    "j = wk_read ?k \<Longrightarrow> wk_pc ?k \<noteq> PacketEnd" for j q
    using that d(1) d(5) [of j q] other [of j] by (cases "i = j") auto
  show "slot_completion (wk_ring ?k ! wk_read ?k) = packet_completion (cur ?k)"
    if "wk_pc ?k = PacketEnd"
  proof -
    have b: "busy (wk_pc k)" using that by (simp add: busy_def)
    have "i \<noteq> wk_read k" using d(6) [OF b] i by auto
    then show ?thesis
      using that d(6) [OF b] d(7) i other [of "wk_read k"] cur [OF b] by auto
  qed
  show "announced ?k (wk_doorbell ?k)" if "\<not> asleep (wk_pc ?k) \<or> wk_sig ?k \<noteq> IDLE"
    using d(10) that by (auto simp: announced_def)
qed (use worker_invD [OF inv] ok in \<open>auto split: if_splits\<close>)

lemma ring_inv:
  assumes inv: "worker_inv k" and a: "announced k v"
  shows "worker_inv (k\<lparr>wk_doorbell := v\<rparr>)"
proof (rule worker_invI)
  note d = worker_invD [OF inv]
  show "wk_trace (k\<lparr>wk_doorbell := v\<rparr>) =
      finished_events (k\<lparr>wk_doorbell := v\<rparr>) @ pending_events (k\<lparr>wk_doorbell := v\<rparr>)"
    using d(11) by (simp add: pending_events_def cong: worker_pc.case_cong)
  show "at_packet_ok (k\<lparr>wk_doorbell := v\<rparr>)"
    using d(8) by (simp add: at_packet_ok_def cong: worker_pc.case_cong)
qed (use worker_invD [OF inv] a in auto)

lemma signal_inv:
  assumes inv: "worker_inv k" and a: "announced k (wk_doorbell k)"
  shows "worker_inv (k\<lparr>wk_sig := v\<rparr>)"
proof (rule worker_invI)
  note d = worker_invD [OF inv]
  show "wk_trace (k\<lparr>wk_sig := v\<rparr>) =
      finished_events (k\<lparr>wk_sig := v\<rparr>) @ pending_events (k\<lparr>wk_sig := v\<rparr>)"
    using d(11) by (simp add: pending_events_def cong: worker_pc.case_cong)
  show "at_packet_ok (k\<lparr>wk_sig := v\<rparr>)"
    using d(8) by (simp add: at_packet_ok_def cong: worker_pc.case_cong)
qed (use worker_invD [OF inv] a in auto)

lemma map_inv_same:
  assumes "map_inv w c" and "TaskPacketMap c' = TaskPacketMap c"
    and "wk_pc (workers c' w) = wk_pc (workers c w)"
    and "busy (wk_pc (workers c w)) \<Longrightarrow> cur (workers c' w) = cur (workers c w)"
  shows "map_inv w c'"
  using assms by (auto simp: map_inv_def running_packet_def busy_def split: worker_pc.splits)

lemma cpu_inv_local:
  assumes inv: "cpu_inv c" and "worker_inv (workers c' w)" and "map_inv w c'" and "others_kept w c c'"
  shows "cpu_inv c'"
proof -
  have "worker_inv (workers c' v) \<and> map_inv v c'" for v
  proof (cases "v = w")
    case False
    then have "workers c' v = workers c v"
      "get_task_packet (TaskPacketMap c') v = get_task_packet (TaskPacketMap c) v"
      using assms(4) by (simp_all add: others_kept_def)
    moreover have "worker_inv (workers c v)" "map_inv v c" using inv by (simp_all add: cpu_inv_def)
    ultimately show ?thesis by (simp add: map_inv_def)
  qed (use assms in simp)
  then show ?thesis by (simp add: cpu_inv_def)
qed

lemma cpu_step_inv: "cpu_step E c c' \<Longrightarrow> cpu_inv c \<Longrightarrow> cpu_inv c'"
proof (induction rule: cpu_step.induct)
  case (Work w c c')
  then have "step_keeps w c c'" using worker_step_keeps by (auto simp: cpu_inv_def)
  then show ?case using cpu_inv_local Work.prems by (auto simp: step_keeps_def)
next
  case (Write c w i p)
  then have inv: "worker_inv (workers c w)" "map_inv w c" by (auto simp: cpu_inv_def)
  have "cur (workers (write_packet w i p c) w) = cur (workers c w)" if "busy (wk_pc (workers c w))"
    using worker_invD(6) [OF inv(1) that] Write.hyps
    by (auto simp: cur_def write_packet_def can_write_def)
  then have "map_inv w (write_packet w i p c)"
    by (intro map_inv_same [OF inv(2)]) (auto simp: write_packet_def)
  then show ?case
    using write_inv [OF inv(1) Write.hyps]
    by (intro cpu_inv_local [OF Write.prems, where w = w]) (simp_all add: write_packet_def others_kept_def)
next
  case (Ring c w v)
  then have inv: "worker_inv (workers c w)" "map_inv w c" by (auto simp: cpu_inv_def)
  have "map_inv w (ring_doorbell w v c)"
    by (rule map_inv_same [OF inv(2)]) (simp_all add: ring_doorbell_def)
  then show ?case
    using ring_inv [OF inv(1) Ring.hyps]
    by (intro cpu_inv_local [OF Ring.prems, where w = w]) (simp_all add: ring_doorbell_def others_kept_def)
next
  case (Wake c w)
  then have inv: "worker_inv (workers c w)" "map_inv w c" by (auto simp: cpu_inv_def)
  have "map_inv w (signal_worker_to w PROCESS_PKT c)"
    by (rule map_inv_same [OF inv(2)]) (simp_all add: signal_worker_to_def)
  then show ?case
    using signal_inv [OF inv(1) Wake.hyps]
    by (intro cpu_inv_local [OF Wake.prems, where w = w])
      (simp_all add: signal_worker_to_def others_kept_def)
next
  case (Fini c w)
  then have inv: "worker_inv (workers c w)" "map_inv w c" by (auto simp: cpu_inv_def)
  have a: "announced (workers c w) INT_MAX" by (simp add: announced_def)
  have "worker_inv ((workers c w)\<lparr>wk_doorbell := INT_MAX, wk_sig := FINISH\<rparr>)"
    using signal_inv [OF ring_inv [OF inv(1) a], of FINISH] a by simp
  moreover have "map_inv w (agent_fini_one w c)"
    by (rule map_inv_same [OF inv(2)])
      (simp_all add: agent_fini_one_def signal_worker_to_def ring_doorbell_def)
  ultimately show ?case
    by (intro cpu_inv_local [OF Fini.prems, where w = w])
      (simp_all add: agent_fini_one_def signal_worker_to_def ring_doorbell_def others_kept_def)
next
  case (Signals c v)
  then show ?case by (simp add: cpu_inv_def map_inv_def)
next
  case (Runtime c s)
  then show ?case by (simp add: cpu_inv_def map_inv_def)
qed

lemma cpu_reachable_inv: "cpu_reachable E capacity h s c \<Longrightarrow> cpu_inv c"
  unfolding cpu_reachable_def by (induction rule: rtranclp_induct) (auto simp: cpu_start_inv cpu_step_inv)

section \<open>What never changes\<close>

lemmas worker_step_defs = worker_step_def sleep_step_def woken_step_def loop_head_step_def
  packet_step_def start_call_def or_step_def and_step_def return_step_def end_step_def Let_def

lemma worker_step_size:
  "worker_step E v c = Some c' \<Longrightarrow> wk_size (workers c' w) = wk_size (workers c w)"
  by (cases "v = w") (auto simp: worker_step_defs
      split: worker_pc.splits if_splits option.splits list.splits prod.splits)

lemma worker_step_exited:
  "worker_step E v c = Some c' \<Longrightarrow> wk_pc (workers c w) = Exited \<Longrightarrow>
   wk_pc (workers c' w) = Exited \<and> wk_trace (workers c' w) = wk_trace (workers c w)"
  by (cases "v = w") (auto simp: worker_step_defs
      split: worker_pc.splits if_splits option.splits list.splits prod.splits)

lemma cpu_step_size: "cpu_step E c c' \<Longrightarrow> wk_size (workers c' w) = wk_size (workers c w)"
proof (induction rule: cpu_step.induct)
  case (Work v c c')
  then show ?case by (rule worker_step_size)
qed (auto simp: write_packet_def ring_doorbell_def signal_worker_to_def agent_fini_one_def upd_worker_def)

lemma cpu_step_exited:
  "cpu_step E c c' \<Longrightarrow> wk_pc (workers c w) = Exited \<Longrightarrow>
   wk_pc (workers c' w) = Exited \<and> wk_trace (workers c' w) = wk_trace (workers c w)"
proof (induction rule: cpu_step.induct)
  case (Work v c c')
  then show ?case by (rule worker_step_exited)
qed (auto simp: write_packet_def ring_doorbell_def signal_worker_to_def agent_fini_one_def upd_worker_def)

lemma cpu_steps_exited:
  "(cpu_step E)\<^sup>*\<^sup>* c c' \<Longrightarrow> wk_pc (workers c w) = Exited \<Longrightarrow>
   wk_pc (workers c' w) = Exited \<and> wk_trace (workers c' w) = wk_trace (workers c w)"
  by (induction rule: rtranclp_induct) (auto dest: cpu_step_exited)

lemma cpu_reachable_size: "cpu_reachable E capacity h s c \<Longrightarrow> wk_size (workers c w) = capacity w"
  unfolding cpu_reachable_def
  by (induction rule: rtranclp_induct) (auto simp: cpu_start_def new_worker_def cpu_step_size)

end
