(* ===== verification/Cpu_Guarantees.thy ===== *)
theory Cpu_Guarantees
  imports Cpu_Trace Kernarg
begin

text \<open>
  The properties of the CPU workers: their packets are processed in order and only once, a kernel
  function can identify itself exactly while it runs, it gets the bytes that the caller passed,
  a worker waits only for what it has to wait for, and it ends with its queue.
\<close>

section \<open>A demonstration\<close>

text \<open>Steps of one worker only.\<close>

fun work :: "hsa_env \<Rightarrow> nat \<Rightarrow> nat \<Rightarrow> cpu_state \<Rightarrow> cpu_state option" where
  "work E w 0 c = Some c"
| "work E w (Suc n) c = Option.bind (worker_step E w c) (work E w n)"

lemma work_steps: "work E w n c = Some c' \<Longrightarrow> (cpu_step E)\<^sup>*\<^sup>* c c'"
  by (induction E w n c rule: work.induct)
    (auto simp: bind_eq_Some_conv intro: converse_rtranclp_into_rtranclp cpu_step.Work)

text \<open>One CPU kernel with one argument of four bytes, and a task of it.\<close>

definition demo_cpu_rt :: rt_state where
  "demo_cpu_rt =
     (rt_start ATL_SYNC_CALLBACK \<lparr>cpu_processors = [], gpu_processors = [], dsp_processors = []\<rparr> [])
       \<lparr>kernels := [1 \<mapsto> add_impl (new_Kernel 1 [4]) 0 0],
        impls := (\<lambda>_. (new_KernelImpl 0 ''f'' X86 ATMI_DEVTYPE_CPU)\<lparr>arg_offsets := [0],
          has_kernarg_region := True, free_kernarg_segments := [5, 6], kernarg_segment_size := 4,
          ki_function := 77\<rparr>),
        n_impls := 1, n_tasks := 1,
        tasks := (\<lambda>_. (new_TaskImpl ATL_KERNEL_EXECUTION)\<lparr>tk_kernel := 1, tk_kernel_id := 0,
          tk_devtype := ATMI_DEVTYPE_CPU, tk_kernarg_size := 4, tk_id := 0, tk_signal := 9,
          gridDim := (1, 1, 1)\<rparr>)\<rparr>"

definition demo_cpu_env :: hsa_env where
  "demo_cpu_env =
     \<lparr>write_index_of = (\<lambda>_ _. 0), load_write_index_of = (\<lambda>_ _. 0), queue_size_of = (\<lambda>_. 2),
      new_signal_of = (\<lambda>_. 1), IdentityORSignal = 50, IdentityANDSignal = 51,
      IdentityCopySignal = 52, hostcall_buffer = (\<lambda>_ _. 0), dispatch_start = (\<lambda>_ _. 0),
      dispatch_end = (\<lambda>_ _. 0), timestamp_frequency = 1, clock_now = (\<lambda>_. \<lparr>tv_sec = 0, tv_nsec = 0\<rparr>),
      context_init_time = \<lparr>tv_sec = 0, tv_nsec = 0\<rparr>, task_addr = of_nat\<rparr>"

text \<open>
  A queue of two packets: an AND barrier on the signals 5 and 6, of which the first slot of the
  packet is empty, and the packet of the task.
\<close>

definition demo_agent :: agent_dispatch_packet where
  "demo_agent = (cpu_packet (tasks demo_cpu_rt 0) False 0 0)\<lparr>ad_kernarg := KSegment 0 0\<rparr>"

definition demo_barrier :: barrier_packet where
  "demo_barrier = barrier_packet_for demo_cpu_env False True True [0, 5, 6]"

definition demo_cpu_start :: cpu_state where
  "demo_cpu_start = cpu_start (\<lambda>_. 2) 0 demo_cpu_rt"

definition demo_cpu_sent :: cpu_state where
  "demo_cpu_sent = signal_worker_to 0 PROCESS_PKT (ring_doorbell 0 1
     (write_packet 0 1 (AgentPacket demo_agent)
       (write_packet 0 0 (BarrierPacket demo_barrier) demo_cpu_start)))"

lemma demo_cpu_sent_reachable: "cpu_reachable E (\<lambda>_. 2) 0 demo_cpu_rt demo_cpu_sent"
proof -
  let ?a = "write_packet 0 0 (BarrierPacket demo_barrier) demo_cpu_start"
  let ?b = "write_packet 0 1 (AgentPacket demo_agent) ?a"
  have ok: "packet_ok (BarrierPacket demo_barrier)" "packet_ok (AgentPacket demo_agent)"
    using written_packets_ok unfolding demo_barrier_def demo_agent_def by (auto simp: cpu_packet_def)
  have "cpu_step E demo_cpu_start ?a"
    by (rule cpu_step.Write [OF _ ok(1)])
      (simp add: can_write_def demo_cpu_start_def cpu_start_def new_worker_def)
  moreover have "cpu_step E ?a ?b"
    by (rule cpu_step.Write [OF _ ok(2)])
      (simp add: can_write_def demo_cpu_start_def cpu_start_def new_worker_def write_packet_def)
  moreover have "cpu_step E ?b (ring_doorbell 0 1 ?b)"
    by (rule cpu_step.Ring) (auto simp: announced_def demo_cpu_start_def cpu_start_def
        new_worker_def write_packet_def upd_worker_def less_2_cases_iff)
  moreover have "cpu_step E (ring_doorbell 0 1 ?b) demo_cpu_sent"
    unfolding demo_cpu_sent_def
    by (rule cpu_step.Wake) (auto simp: announced_def demo_cpu_start_def cpu_start_def
        new_worker_def write_packet_def upd_worker_def ring_doorbell_def less_2_cases_iff)
  ultimately show ?thesis
    unfolding cpu_reachable_def demo_cpu_start_def [symmetric]
    by (meson rtranclp.rtrancl_into_rtrancl rtranclp.rtrancl_refl)
qed

lemma demo_cpu_reachable:
  "work demo_cpu_env 0 n demo_cpu_sent = Some c \<Longrightarrow>
   cpu_reachable demo_cpu_env (\<lambda>_. 2) 0 demo_cpu_rt c"
  using demo_cpu_sent_reachable work_steps unfolding cpu_reachable_def by (metis rtranclp_trans)

section \<open>The order of the packets\<close>

text \<open>
  C26. A worker does what its queue says: in every reachable state, what worker \<open>w\<close> has done is
  exactly what the packets behind its read index ask for, packet by packet in the order of the
  queue (an agent packet calls its function once, an AND barrier sees all its signals at zero, the
  completion signal is decremented once and only after that), followed by a part of what the
  packet at the read index asks for.
\<close>

theorem worker_follows_queue:
  assumes "cpu_reachable E capacity h s c"
  shows "\<exists>pending rest.
     wk_trace (workers c w) =
       concat (map (\<lambda>i. packet_events (the (wk_sent (workers c w) i))) [0..<wk_read (workers c w)])
       @ pending
     \<and> (\<forall>i < wk_read (workers c w). wk_sent (workers c w) i \<noteq> None)
     \<and> (pending \<noteq> [] \<longrightarrow> (\<exists>p. wk_sent (workers c w) (wk_read (workers c w)) = Some p
          \<and> packet_events p = pending @ rest))"
proof -
  let ?k = "workers c w"
  have inv: "worker_inv ?k" using cpu_reachable_inv [OF assms] by (simp add: cpu_inv_def)
  note d = worker_invD [OF inv]
  have pre: "\<exists>rest. packet_events (cur ?k) = pending_events ?k @ rest" if b: "busy (wk_pc ?k)"
  proof (cases "wk_pc ?k")
    case (AtAnd i)
    then have ty: "has_type (packet_header (cur ?k)) HSA_PACKET_TYPE_BARRIER_AND"
      using d(8) by (simp add: at_packet_ok_def)
    moreover have "packet_ok (cur ?k)"
      using cur_slot_sent(2) [OF inv b] AtAnd by simp
    ultimately obtain p where p: "cur ?k = BarrierPacket p"
      by (cases "cur ?k") (auto simp: has_type_unique)
    let ?ds = "deps_of (cur ?k)"
    have "map SawZero (filter (\<lambda>d. d \<noteq> 0) ?ds) = pending_events ?k @
        map SawZero (filter (\<lambda>d. d \<noteq> 0) (drop i ?ds))"
      by (simp add: pending_events_def AtAnd flip: map_append filter_append)
    moreover have "body_events (cur ?k) = map SawZero (filter (\<lambda>d. d \<noteq> 0) ?ds)"
      using p ty by (simp add: deps_of_def has_type_unique)
    ultimately show ?thesis by (simp add: packet_events_def)
  qed (auto simp: pending_events_def packet_events_def)
  show ?thesis
  proof (cases "busy (wk_pc ?k)")
    case True
    then obtain rest where "packet_events (cur ?k) = pending_events ?k @ rest" using pre by blast
    moreover have "wk_sent ?k (wk_read ?k) = Some (cur ?k)"
      using d(6) [OF True] by (auto simp: cur_def)
    ultimately show ?thesis
      using d(4, 11) by (intro exI [of _ "pending_events ?k"] exI [of _ rest]) (auto simp: finished_events_def)
  next
    case False
    then have "pending_events ?k = []"
      by (auto simp: pending_events_def busy_def split: worker_pc.splits)
    then show ?thesis
      using d(4, 11) by (intro exI [of _ "[]"] exI) (auto simp: finished_events_def)
  qed
qed

lemma demo_cpu_trace:
  "map_option (\<lambda>c. (wk_read (workers c 0), wk_trace (workers c 0), wk_sent (workers c 0) 0))
     (work demo_cpu_env 0 13 demo_cpu_sent) =
   Some (1, [SawZero 5, SawZero 6, Subtract 51, Invoke demo_agent], Some (BarrierPacket demo_barrier))"
  "packet_events (BarrierPacket demo_barrier) = [SawZero 5, SawZero 6, Subtract 51]"
  by code_simp+

theorem worker_follows_queue_witness:
  "\<exists>c p rest. cpu_reachable demo_cpu_env (\<lambda>_. 2) 0 demo_cpu_rt c \<and> wk_read (workers c 0) = 1 \<and>
     wk_trace (workers c 0) = [SawZero 5, SawZero 6, Subtract 51, Invoke demo_agent] \<and>
     wk_sent (workers c 0) 1 = Some p \<and> packet_events p = Invoke demo_agent # rest"
proof -
  obtain c where w: "work demo_cpu_env 0 13 demo_cpu_sent = Some c"
    and c: "wk_read (workers c 0) = 1" "wk_sent (workers c 0) 0 = Some (BarrierPacket demo_barrier)"
      "wk_trace (workers c 0) = [SawZero 5, SawZero 6, Subtract 51, Invoke demo_agent]"
    using demo_cpu_trace(1) by auto
  show ?thesis
    using worker_follows_queue [OF demo_cpu_reachable [OF w], of 0] c demo_cpu_reachable [OF w]
    by (auto simp: demo_cpu_trace(2))
qed

section \<open>Asking for the own task\<close>

text \<open>
  C29. A kernel function can identify itself, and only it can: while the function of a packet runs
  on a worker thread, \<open>get_task_packet\<close> on that thread is the packet at the read index, and the
  handle that \<open>get_atmi_task_handle\<close> returns is that of the packet's task; at every other time it
  is the null handle, and the sizes and coordinates are zero.
\<close>

theorem kernel_identifies_itself:
  assumes "cpu_reachable E capacity h s c"
  shows "case wk_pc (workers c w) of
      InFunction began f args \<Rightarrow>
        (\<exists>p. wk_sent (workers c w) (wk_read (workers c w)) = Some (AgentPacket p) \<and>
          get_task_packet (TaskPacketMap c) w = Some p \<and>
          (\<forall>t. getTaskImpl (cpu_rt c) (ad_task p) = Some (Some t) \<longrightarrow>
             get_atmi_task_handle (cpu_rt c) (TaskPacketMap c) w = Some (tk_id (tasks (cpu_rt c) t))))
    | _ \<Rightarrow> get_atmi_task_handle (cpu_rt c) (TaskPacketMap c) w = Some ATMI_NULL_TASK_HANDLE \<and>
        (\<forall>dim. get_global_size (cpu_rt c) (TaskPacketMap c) w dim = Some 0 \<and>
           get_global_id (cpu_rt c) (TaskPacketMap c) w dim = Some 0)"
proof -
  let ?k = "workers c w"
  have inv: "worker_inv ?k" "map_inv w c"
    using cpu_reachable_inv [OF assms] by (simp_all add: cpu_inv_def)
  have out: "get_atmi_task_handle (cpu_rt c) (TaskPacketMap c) w = Some ATMI_NULL_TASK_HANDLE \<and>
      (\<forall>dim. get_global_size (cpu_rt c) (TaskPacketMap c) w dim = Some 0 \<and>
         get_global_id (cpu_rt c) (TaskPacketMap c) w dim = Some 0)"
    if "running_packet ?k = None"
    using that inv(2) by (simp add: map_inv_def get_atmi_task_handle_def get_global_size_def
        get_global_id_def get_cur_thread_task_impl_def)
  show ?thesis
  proof (cases "wk_pc ?k")
    case (InFunction began f args)
    then have b: "busy (wk_pc ?k)" "wk_pc ?k \<noteq> PacketEnd" by (simp_all add: busy_def)
    obtain p where p: "cur ?k = AgentPacket p"
      using worker_invD(8) [OF inv(1)] InFunction by (auto simp: at_packet_ok_def)
    have "running_packet ?k = Some p" using InFunction p by (simp add: running_packet_def)
    then show ?thesis
      using InFunction p cur_slot_sent(5) [OF inv(1) b] inv(2)
      by (auto simp: map_inv_def get_atmi_task_handle_def get_cur_thread_task_impl_def)
  qed (use out in \<open>simp_all add: running_packet_def\<close>)
qed

theorem kernel_identifies_itself_witness:
  "\<exists>c. cpu_reachable demo_cpu_env (\<lambda>_. 2) 0 demo_cpu_rt c \<and>
     get_task_packet (TaskPacketMap c) 0 = Some demo_agent \<and>
     wk_sent (workers c 0) (wk_read (workers c 0)) = Some (AgentPacket demo_agent)"
proof -
  have "map_option (\<lambda>c. (wk_pc (workers c 0), wk_sent (workers c 0) (wk_read (workers c 0))))
      (work demo_cpu_env 0 13 demo_cpu_sent) =
    Some (InFunction None 77 [(KSegment 0 0, 0)], Some (AgentPacket demo_agent))"
    by code_simp
  then obtain c where w: "work demo_cpu_env 0 13 demo_cpu_sent = Some c"
    and c: "wk_pc (workers c 0) = InFunction None 77 [(KSegment 0 0, 0)]"
      "wk_sent (workers c 0) (wk_read (workers c 0)) = Some (AgentPacket demo_agent)"
    by auto
  show ?thesis
    using kernel_identifies_itself [OF demo_cpu_reachable [OF w], of 0] c demo_cpu_reachable [OF w]
    by auto
qed

section \<open>The end of a worker\<close>

text \<open>
  A worker serves as many packets as its queue holds and no more: its read index never passes
  the size of the queue, and once it has left its loop nothing that the program does later makes
  it do anything, whatever is written, announced and signalled.
\<close>

lemma worker_retires:
  assumes "cpu_reachable E capacity h s c"
  shows "wk_read (workers c w) \<le> capacity w \<and>
    (wk_pc (workers c w) = LoopHead \<and> wk_read (workers c w) = capacity w \<longrightarrow>
       worker_step E w c = Some (goto w Exited c)) \<and>
    (wk_pc (workers c w) = Exited \<longrightarrow> (\<forall>c'. (cpu_step E)\<^sup>*\<^sup>* c c' \<longrightarrow>
       wk_trace (workers c' w) = wk_trace (workers c w)))"
proof -
  have "worker_inv (workers c w)" using cpu_reachable_inv [OF assms] by (simp add: cpu_inv_def)
  then have "wk_read (workers c w) \<le> capacity w"
    using worker_invD(2) cpu_reachable_size [OF assms, of w] by fastforce
  then show ?thesis
    using cpu_reachable_size [OF assms, of w] cpu_steps_exited
    by (auto simp: worker_step_def loop_head_step_def)
qed

definition demo_cpu_late :: "cpu_state \<Rightarrow> cpu_state" where
  "demo_cpu_late c = signal_worker_to 0 PROCESS_PKT (ring_doorbell 0 2
     (write_packet 0 2 (AgentPacket demo_agent) c))"

lemma demo_cpu_late_steps:
  assumes "cpu_reachable E (\<lambda>_. 2) 0 demo_cpu_rt c" and "wk_read (workers c 0) = 2"
    and "wk_sent (workers c 0) 2 = None"
  shows "cpu_reachable E (\<lambda>_. 2) 0 demo_cpu_rt (demo_cpu_late c)"
proof -
  have inv: "worker_inv (workers c 0)" using cpu_reachable_inv [OF assms(1)] by (simp add: cpu_inv_def)
  have sent: "wk_sent (workers c 0) i \<noteq> None" if "i < 2" for i
    using worker_invD(4) [OF inv, of i] assms(2) that by simp
  let ?a = "write_packet 0 2 (AgentPacket demo_agent) c"
  have "cpu_step E c ?a"
    using written_packets_ok assms cpu_reachable_size [OF assms(1), of 0]
    by (intro cpu_step.Write) (auto simp: can_write_def demo_agent_def cpu_packet_def)
  moreover have "cpu_step E ?a (ring_doorbell 0 2 ?a)"
    using sent cpu_reachable_size [OF assms(1), of 0]
    by (intro cpu_step.Ring) (auto simp: announced_def write_packet_def)
  moreover have "cpu_step E (ring_doorbell 0 2 ?a) (demo_cpu_late c)"
    unfolding demo_cpu_late_def using sent cpu_reachable_size [OF assms(1), of 0]
    by (intro cpu_step.Wake) (auto simp: announced_def write_packet_def ring_doorbell_def)
  ultimately show ?thesis
    using assms(1) unfolding cpu_reachable_def by (meson rtranclp.rtrancl_into_rtrancl)
qed

lemma worker_retires_witness:
  "\<exists>c c'. cpu_reachable demo_cpu_env (\<lambda>_. 2) 0 demo_cpu_rt c \<and>
     wk_sent (workers c 0) 2 = Some (AgentPacket demo_agent) \<and> wk_doorbell (workers c 0) = 2 \<and>
     wk_sig (workers c 0) = PROCESS_PKT \<and> (cpu_step demo_cpu_env)\<^sup>*\<^sup>* c c' \<and>
     sig_val c' = (\<lambda>_. 7) \<and> wk_trace (workers c' 0) =
        [SawZero 5, SawZero 6, Subtract 51, Invoke demo_agent, Subtract 9]"
proof -
  have "map_option (\<lambda>c. (wk_pc (workers c 0), wk_read (workers c 0), wk_sent (workers c 0) 2,
      wk_trace (workers c 0))) (work demo_cpu_env 0 16 demo_cpu_sent) =
    Some (Exited, 2, None, [SawZero 5, SawZero 6, Subtract 51, Invoke demo_agent, Subtract 9])"
    by code_simp
  then obtain c where w: "work demo_cpu_env 0 16 demo_cpu_sent = Some c"
    and c: "wk_pc (workers c 0) = Exited" "wk_read (workers c 0) = 2" "wk_sent (workers c 0) 2 = None"
      "wk_trace (workers c 0) = [SawZero 5, SawZero 6, Subtract 51, Invoke demo_agent, Subtract 9]"
    by auto
  note r = demo_cpu_late_steps [OF demo_cpu_reachable [OF w] c(2, 3)]
  let ?c' = "(demo_cpu_late c)\<lparr>sig_val := (\<lambda>_. 7)\<rparr>"
  have st: "(cpu_step demo_cpu_env)\<^sup>*\<^sup>* (demo_cpu_late c) ?c'"
    by (rule r_into_rtranclp) (rule cpu_step.Signals)
  have pc: "wk_pc (workers (demo_cpu_late c) 0) = Exited"
    "wk_trace (workers (demo_cpu_late c) 0) = wk_trace (workers c 0)"
    using c(1) by (simp_all add: demo_cpu_late_def signal_worker_to_def ring_doorbell_def write_packet_def)
  have "wk_trace (workers ?c' 0) = wk_trace (workers (demo_cpu_late c) 0)"
    using worker_retires [OF r, of 0] pc(1) st by blast
  then show ?thesis
    using r st pc(2) c(4)
    by (intro exI [of _ "demo_cpu_late c"] exI [of _ ?c'])
      (simp add: demo_cpu_late_def signal_worker_to_def ring_doorbell_def write_packet_def)
qed

section \<open>Waiting and progress\<close>

text \<open>
  A worker waits only for what it has to wait for. When it cannot move it sleeps without a
  wake-up call, or its doorbell announces no further packet, or it is at a barrier whose
  dependency signal is not zero yet, or it has ended; it never spins on a packet that is not
  there, and its assertion that the queue is fresh never fails.
\<close>

lemma worker_waits_only_when_needed:
  assumes r: "cpu_reachable E capacity h s c" and blocked: "worker_step E w c = None"
  shows "wk_pc (workers c w) = Sleeping \<and> wk_sig (workers c w) \<ge> IDLE
    \<or> wk_pc (workers c w) = LoopHead \<and> wk_doorbell (workers c w) < int (wk_read (workers c w))
    \<or> (\<exists>p d. wk_sent (workers c w) (wk_read (workers c w)) = Some (BarrierPacket p)
         \<and> d \<in> set (take 5 (bp_dep_signal p)) \<and> d \<noteq> 0 \<and> sig_val c d \<noteq> 0)
    \<or> wk_pc (workers c w) = Exited \<or> wk_pc (workers c w) = Crashed"
proof -
  let ?k = "workers c w"
  have inv: "worker_inv ?k" using cpu_reachable_inv [OF r] by (simp add: cpu_inv_def)
  note d = worker_invD [OF inv] and cs = cur_slot_sent [OF inv]
  have bar: "\<exists>p. cur ?k = BarrierPacket p \<and> deps_of (cur ?k) = take 5 (bp_dep_signal p)"
    if "busy (wk_pc ?k)" "wk_pc ?k \<noteq> PacketEnd"
      "has_type (packet_header (cur ?k)) HSA_PACKET_TYPE_BARRIER_AND \<or>
       has_type (packet_header (cur ?k)) HSA_PACKET_TYPE_BARRIER_OR"
    using cs(2) [OF that(1, 2)] that(3)
    by (cases "cur ?k") (auto simp: has_type_unique deps_of_def)
  show ?thesis
  proof (cases "wk_pc ?k")
    case AtPacket
    then have b: "busy (wk_pc ?k)" "wk_pc ?k \<noteq> PacketEnd" by (simp_all add: busy_def)
    have "\<not> has_type (packet_header (cur ?k)) HSA_PACKET_TYPE_VENDOR_SPECIFIC"
      using cs(2) [OF b] by (cases "cur ?k") (auto simp: has_type_unique)
    then show ?thesis
      using blocked AtPacket cs(1) [OF b]
      by (auto simp: worker_step_def packet_step_def start_call_def Let_def
          split: if_splits option.splits prod.splits)
  next
    case AtOr
    then have b: "busy (wk_pc ?k)" "wk_pc ?k \<noteq> PacketEnd" by (simp_all add: busy_def)
    have "has_type (packet_header (cur ?k)) HSA_PACKET_TYPE_BARRIER_OR"
      using d(8) AtOr by (simp add: at_packet_ok_def)
    then obtain p where p: "cur ?k = BarrierPacket p" "deps_of (cur ?k) = take 5 (bp_dep_signal p)"
      using bar [OF b] by blast
    obtain dep rest where f: "filter (\<lambda>d. d \<noteq> 0) (take 5 (bp_dep_signal p)) = dep # rest"
      and nz: "sig_val c dep \<noteq> 0"
      using blocked AtOr cs(1) [OF b] p
      by (auto simp: worker_step_def or_step_def deps_of_def split: list.splits if_splits)
    have "dep \<in> set (filter (\<lambda>d. d \<noteq> 0) (take 5 (bp_dep_signal p)))" unfolding f by simp
    then show ?thesis using nz p cs(5) [OF b] by auto
  next
    case (AtAnd i)
    then have b: "busy (wk_pc ?k)" "wk_pc ?k \<noteq> PacketEnd" by (simp_all add: busy_def)
    have "has_type (packet_header (cur ?k)) HSA_PACKET_TYPE_BARRIER_AND"
      using d(8) AtAnd by (simp add: at_packet_ok_def)
    then obtain p where p: "cur ?k = BarrierPacket p" "deps_of (cur ?k) = take 5 (bp_dep_signal p)"
      using bar [OF b] by blast
    let ?ds = "take 5 (bp_dep_signal p)"
    have "i < length ?ds \<and> ?ds ! i \<noteq> 0 \<and> sig_val c (?ds ! i) \<noteq> 0"
      using blocked AtAnd cs(1) [OF b] p
      by (auto simp: worker_step_def and_step_def deps_of_def Let_def split: if_splits)
    then show ?thesis using p cs(5) [OF b] nth_mem [of i ?ds] by auto
  qed (use blocked in \<open>auto simp: worker_step_def sleep_step_def woken_step_def loop_head_step_def
      return_step_def end_step_def Let_def split: if_splits option.splits\<close>)
qed

lemma worker_waits_only_when_needed_witness:
  "\<exists>c. cpu_reachable demo_cpu_env (\<lambda>_. 2) 0 demo_cpu_rt c \<and>
     worker_step demo_cpu_env 0 c = None \<and> wk_pc (workers c 0) = AtAnd 1 \<and> sig_val c 5 = 1 \<and>
     (\<exists>p d. wk_sent (workers c 0) (wk_read (workers c 0)) = Some (BarrierPacket p)
       \<and> d \<in> set (take 5 (bp_dep_signal p)) \<and> d \<noteq> 0 \<and> sig_val c d \<noteq> 0)"
proof -
  have "map_option (\<lambda>c. (wk_pc (workers c 0),
      worker_step demo_cpu_env 0 (c\<lparr>sig_val := (\<lambda>_. 1)\<rparr>) = None))
    (work demo_cpu_env 0 5 demo_cpu_sent) = Some (AtAnd 1, True)"
    by code_simp
  then obtain c where w: "work demo_cpu_env 0 5 demo_cpu_sent = Some c"
    and c: "wk_pc (workers c 0) = AtAnd 1"
      "worker_step demo_cpu_env 0 (c\<lparr>sig_val := (\<lambda>_. 1)\<rparr>) = None"
    by auto
  have r: "cpu_reachable demo_cpu_env (\<lambda>_. 2) 0 demo_cpu_rt (c\<lparr>sig_val := (\<lambda>_. 1)\<rparr>)"
    using demo_cpu_reachable [OF w] cpu_step.Signals [of demo_cpu_env c]
    unfolding cpu_reachable_def by (meson rtranclp.rtrancl_into_rtrancl)
  show ?thesis
    by (rule exI [of _ "c\<lparr>sig_val := (\<lambda>_. 1)\<rparr>"])
      (use worker_waits_only_when_needed [OF r c(2)] r c in auto)
qed

text \<open>One agent packet takes four steps.\<close>

lemma record_run_time_calls [simp]: "agent_call (record_run_time E b p s) q = agent_call s q"
proof -
  have "tasks (record_run_time E b p s) = tasks s" "n_tasks (record_run_time E b p s) = n_tasks s"
    "kernels (record_run_time E b p s) = kernels s" "impls (record_run_time E b p s) = impls s"
    by (simp_all add: record_run_time_def Let_def split: option.split)
  then show ?thesis by (simp add: agent_call_def getTaskImpl_def cong: if_cong)
qed

lemma agent_packet_runs:
  assumes inv: "worker_inv (workers c w)" "map_inv w c"
    and pc: "wk_pc (workers c w) = LoopHead" and r: "wk_read (workers c w) < wk_size (workers c w)"
    and bell: "int (wk_read (workers c w)) \<le> wk_doorbell (workers c w)"
      "wk_doorbell (workers c w) \<noteq> INT_MAX"
    and sent: "wk_sent (workers c w) (wk_read (workers c w)) = Some (AgentPacket p)"
    and call: "agent_call (cpu_rt c) p \<noteq> None"
  shows "\<exists>c'. work E w 4 c = Some c' \<and> worker_inv (workers c' w) \<and> map_inv w c' \<and>
    wk_pc (workers c' w) = LoopHead \<and> wk_read (workers c' w) = Suc (wk_read (workers c w)) \<and>
    wk_doorbell (workers c' w) = wk_doorbell (workers c w) \<and>
    wk_size (workers c' w) = wk_size (workers c w) \<and>
    wk_sent (workers c' w) = wk_sent (workers c w) \<and>
    agent_call (cpu_rt c') = agent_call (cpu_rt c)"
proof -
  have keeps: "worker_inv (workers b w) \<and> map_inv w b"
    if "worker_step E w a = Some b" "worker_inv (workers a w) \<and> map_inv w a" for a b
    using worker_step_keeps [of a w E b] that by (simp add: step_keeps_def)
  have slot: "cur_slot (workers c w) = Packet (AgentPacket p)"
    using worker_invD(5) [OF inv(1), of "wk_read (workers c w)"] sent r pc by (simp add: cur_slot_def)
  have ok: "has_type (ad_header p) HSA_PACKET_TYPE_AGENT_DISPATCH"
    using worker_invD(3) [OF inv(1) sent] by simp
  let ?c1 = "goto w AtPacket c"
  have s1: "worker_step E w c = Some ?c1"
    using pc r bell by (simp add: worker_step_def loop_head_step_def Let_def)
  obtain f args where fa: "agent_call (cpu_rt c) p = Some (f, args)" using call by auto
  have c1: "cur_slot (workers ?c1 w) = Packet (AgentPacket p)" "cpu_rt ?c1 = cpu_rt c"
    using slot by (simp_all add: cur_slot_def)
  obtain began where s2: "worker_step E w ?c1 = Some (goto w (InFunction began f args) (did w (Invoke p)
      (?c1\<lparr>TaskPacketMap := set_task_packet w (Some p) (TaskPacketMap ?c1)\<rparr>)))" (is "_ = Some ?c2")
    using c1 ok fa by (simp add: worker_step_def packet_step_def start_call_def has_type_unique)
  have "cur_slot (workers ?c2 w) = Packet (AgentPacket p)"
    using c1(1) by (simp add: cur_slot_def)
  then obtain c3 where s3: "worker_step E w ?c2 = Some c3"
    and c3: "c3 = release_packet w (?c2\<lparr>TaskPacketMap := set_task_packet w None (TaskPacketMap ?c2),
      cpu_rt := record_run_time E began p (cpu_rt ?c2)\<rparr>)"
    by (simp add: worker_step_def return_step_def)
  have "wk_pc (workers c3 w) = PacketEnd" by (simp add: c3)
  then obtain c4 where s4: "worker_step E w c3 = Some c4" and c4:
      "wk_pc (workers c4 w) = LoopHead" "wk_read (workers c4 w) = Suc (wk_read (workers c3 w))"
      "wk_doorbell (workers c4 w) = wk_doorbell (workers c3 w)"
      "wk_size (workers c4 w) = wk_size (workers c3 w)"
      "wk_sent (workers c4 w) = wk_sent (workers c3 w)" "cpu_rt c4 = cpu_rt c3"
    by (auto simp: worker_step_def end_step_def Let_def)
  have "work E w 4 c = Some c4"
    using s1 s2 s3 s4 by (simp add: numeral_Bit0)
  moreover have "worker_inv (workers c4 w) \<and> map_inv w c4"
    using keeps [OF s4 keeps [OF s3 keeps [OF s2 keeps [OF s1]]]] inv by simp
  moreover have "agent_call (cpu_rt c4) = agent_call (cpu_rt c)"
    by (rule ext) (simp add: c4(6) c3)
  ultimately show ?thesis using c4 by (simp add: c3)
qed

lemma work_append: "work E w (m + n) c = Option.bind (work E w m c) (work E w n)"
proof (induction m arbitrary: c)
  case (Suc m)
  then show ?case by (cases "worker_step E w c") auto
qed simp

lemma agent_packets_run:
  assumes "worker_inv (workers c w)" "map_inv w c"
    and "wk_pc (workers c w) = LoopHead" and "wk_read (workers c w) + m \<le> wk_size (workers c w)"
    and "int (wk_read (workers c w) + m) \<le> wk_doorbell (workers c w) + 1"
      "wk_doorbell (workers c w) \<noteq> INT_MAX"
    and "\<forall>i < m. \<exists>p. wk_sent (workers c w) (wk_read (workers c w) + i) = Some (AgentPacket p) \<and>
      agent_call (cpu_rt c) p \<noteq> None"
  shows "\<exists>c'. work E w (4 * m) c = Some c' \<and> wk_pc (workers c' w) = LoopHead \<and>
    wk_read (workers c' w) = wk_read (workers c w) + m"
  using assms
proof (induction m arbitrary: c)
  case (Suc m)
  obtain p where p: "wk_sent (workers c w) (wk_read (workers c w)) = Some (AgentPacket p)"
    "agent_call (cpu_rt c) p \<noteq> None"
    using Suc.prems(7) by (metis Nat.add_0_right zero_less_Suc)
  have rd: "wk_read (workers c w) < wk_size (workers c w)"
    "int (wk_read (workers c w)) \<le> wk_doorbell (workers c w)"
    using Suc.prems(4, 5) by auto
  obtain c1 where s1: "work E w 4 c = Some c1" and c1: "worker_inv (workers c1 w)" "map_inv w c1"
      "wk_pc (workers c1 w) = LoopHead" "wk_read (workers c1 w) = Suc (wk_read (workers c w))"
      "wk_doorbell (workers c1 w) = wk_doorbell (workers c w)"
      "wk_size (workers c1 w) = wk_size (workers c w)"
      "wk_sent (workers c1 w) = wk_sent (workers c w)" "agent_call (cpu_rt c1) = agent_call (cpu_rt c)"
    using agent_packet_runs [OF Suc.prems(1-3) rd Suc.prems(6) p] by blast
  have "\<exists>c'. work E w (4 * m) c1 = Some c' \<and> wk_pc (workers c' w) = LoopHead \<and>
      wk_read (workers c' w) = wk_read (workers c1 w) + m"
    using Suc.prems(4-7) c1 by (intro Suc.IH) (auto dest: spec [where x = "Suc _"])
  moreover have "work E w (4 * Suc m) c = Option.bind (work E w 4 c) (work E w (4 * m))"
    using work_append [of E w 4 "4 * m" c] by simp
  ultimately show ?case using s1 c1(4) by auto
qed auto

text \<open>
  C27. Announced work gets done: a worker at the head of its loop that is given the processor runs,
  in four steps per packet, all agent packets up to the one that the doorbell names, as long as
  the functions exist and the queue is not used up.
\<close>

theorem announced_packets_run:
  assumes "cpu_reachable E capacity h s c" and "wk_pc (workers c w) = LoopHead"
    and "wk_doorbell (workers c w) = int (wk_read (workers c w) + m) - 1"
    and "wk_read (workers c w) + m \<le> capacity w"
    and "wk_doorbell (workers c w) \<noteq> INT_MAX"
    and "\<forall>i < m. \<exists>p. wk_sent (workers c w) (wk_read (workers c w) + i) = Some (AgentPacket p) \<and>
      agent_call (cpu_rt c) p \<noteq> None"
  shows "\<exists>c'. work E w (4 * m) c = Some c' \<and> cpu_reachable E capacity h s c' \<and>
    wk_pc (workers c' w) = LoopHead \<and> wk_read (workers c' w) = wk_read (workers c w) + m"
proof -
  have inv: "worker_inv (workers c w)" "map_inv w c"
    using cpu_reachable_inv [OF assms(1)] by (simp_all add: cpu_inv_def)
  obtain c' where c': "work E w (4 * m) c = Some c'" "wk_pc (workers c' w) = LoopHead"
    "wk_read (workers c' w) = wk_read (workers c w) + m"
    using agent_packets_run [OF inv assms(2), of m] assms(3-6) cpu_reachable_size [OF assms(1), of w]
    by auto
  then show ?thesis
    using work_steps [OF c'(1)] assms(1) unfolding cpu_reachable_def by (meson rtranclp_trans)
qed

theorem announced_packets_run_witness:
  "\<exists>c c'. cpu_reachable demo_cpu_env (\<lambda>_. 2) 0 demo_cpu_rt c \<and> wk_read (workers c 0) = 1 \<and>
     work demo_cpu_env 0 4 c = Some c' \<and> wk_read (workers c' 0) = 2"
proof -
  have "map_option (\<lambda>c. (wk_pc (workers c 0), wk_read (workers c 0), wk_doorbell (workers c 0),
      wk_sent (workers c 0) 1, agent_call (cpu_rt c) demo_agent \<noteq> None))
    (work demo_cpu_env 0 11 demo_cpu_sent) =
    Some (LoopHead, 1, 1, Some (AgentPacket demo_agent), True)"
    by code_simp
  then obtain c where w: "work demo_cpu_env 0 11 demo_cpu_sent = Some c"
    and c: "wk_pc (workers c 0) = LoopHead" "wk_read (workers c 0) = 1" "wk_doorbell (workers c 0) = 1"
      "wk_sent (workers c 0) 1 = Some (AgentPacket demo_agent)" "agent_call (cpu_rt c) demo_agent \<noteq> None"
    by auto
  show ?thesis
    using announced_packets_run [OF demo_cpu_reachable [OF w] c(1), of 1] c demo_cpu_reachable [OF w]
    by (auto simp: INT_MAX_def)
qed

end
