(* ===== verification/Cpu_Arguments.thy ===== *)
theory Cpu_Arguments
  imports Cpu_Guarantees
begin

text \<open>
  The way of an argument from the caller to a CPU kernel function, across the components: the
  layout that \<open>CPUKernelImpl\<close> computes, the buffer and the segment that the scheduler copies the
  bytes to, the packet that \<open>dispatch\<close> writes and the pointers that the worker counts up.
\<close>

lemma length_arg_pointers [simp]: "length (arg_pointers a sizes) = length sizes"
  by (induction a sizes rule: arg_pointers.induct) auto

text \<open>The worker's running address and the offsets of the implementation are the same sums.\<close>

lemma arg_pointers_sums:
  assumes "unat a + sum_list (map unat sizes) < 2 ^ 64" and "i < length sizes"
  shows "unat (arg_pointers a sizes ! i) = unat a + sum_list (map unat (take i sizes))"
  using assms
proof (induction a sizes arbitrary: i rule: arg_pointers.induct)
  case (2 a sz sizes)
  then have u: "unat (a + sz) = unat a + unat sz" by (subst unat_add_lem [THEN iffD1]) auto
  show ?case
  proof (cases i)
    case (Suc j)
    then show ?thesis using 2(1) [of j] 2(2, 3) u by simp
  qed simp
qed simp

lemma take_sum_mono: "i \<le> j \<Longrightarrow> sum_list (map unat (take i xs)) \<le> sum_list (map unat (take j xs))"
  by (metis le_add1 map_append ordered_cancel_comm_monoid_diff_class.add_diff_inverse
      sum_list_append take_add)

lemma take_sum_le: "i < length xs \<Longrightarrow>
  sum_list (map unat (take i xs)) + unat (xs ! i) \<le> sum_list (map unat xs)"
  using take_sum_mono [of "Suc i" "length xs" xs] by (simp add: take_Suc_conv_app_nth)

text \<open>An implementation with the layout that the constructor of \<open>CPUKernelImpl\<close> computes.\<close>

definition cpu_layout :: "u64 list \<Rightarrow> KernelImpl \<Rightarrow> bool" where
  "cpu_layout sizes impl \<longleftrightarrow>
     (arg_offsets impl, kernarg_segment_size impl) = cpu_arg_offsets 0 sizes \<and>
     ki_devtype impl = ATMI_DEVTYPE_CPU"

lemma new_CPUKernelImpl_layout: "cpu_layout sizes (new_CPUKernelImpl kid name fp (new_Kernel k sizes))"
  by (simp add: cpu_layout_def new_CPUKernelImpl_def new_Kernel_def new_KernelImpl_def
      split: prod.splits)

lemma cpu_layout_facts:
  assumes "cpu_layout sizes impl" and "sum_list (map unat sizes) < 2 ^ 32"
  shows "i < length sizes \<Longrightarrow> unat (arg_offsets impl ! i) = sum_list (map unat (take i sizes))"
    and "unat (kernarg_segment_size impl) = sum_list (map unat sizes)"
    and "args_disjoint (arg_offsets impl) sizes (length sizes)"
proof -
  have e: "cpu_arg_offsets 0 sizes = (arg_offsets impl, kernarg_segment_size impl)"
    using assms(1) by (simp add: cpu_layout_def)
  have f: "length (arg_offsets impl) = length sizes"
    "unat (kernarg_segment_size impl) = sum_list (map unat sizes)"
    "\<forall>i < length sizes. unat (arg_offsets impl ! i) = sum_list (map unat (take i sizes))"
    using cpu_arg_offsets_sums [OF e] assms(2) by simp_all
  show o: "unat (arg_offsets impl ! i) = sum_list (map unat (take i sizes))" if "i < length sizes" for i
    using f that by simp
  show "unat (kernarg_segment_size impl) = sum_list (map unat sizes)" using f by simp
  have "unat (arg_offsets impl ! i) + unat (sizes ! i) \<le> unat (arg_offsets impl ! j)"
    if "i < j" "j < length sizes" for i j
    using that take_sum_mono [of "Suc i" j sizes] by (simp add: o take_Suc_conv_app_nth)
  then show "args_disjoint (arg_offsets impl) sizes (length sizes)"
    unfolding args_disjoint_def by (metis linorder_neqE_nat)
qed

text \<open>What dispatching a task leaves alone.\<close>

lemma acquire_kernarg_objects:
  assumes "acquire_kernarg t args s = Some s'"
  shows "kernels s' = kernels s"
    and "tk_kernel (tasks s' t) = tk_kernel (tasks s t)"
    and "tk_kernel_id (tasks s' t) = tk_kernel_id (tasks s t)"
    and "ki_devtype (impls s' p) = ki_devtype (impls s p)"
    and "ki_function (impls s' p) = ki_function (impls s p)"
proof -
  obtain p' where c: "sched_core s' = sched_core (upd_task t
      (\<lambda>k. k\<lparr>tk_kernarg_index := hd (free_kernarg_segments (impls s p'))\<rparr>)
      (upd_impl p' (\<lambda>k. k\<lparr>launched_tasks := launched_tasks k @ [t],
         free_kernarg_segments := tl (free_kernarg_segments k)\<rparr>) s))"
    using acquire_kernarg_core [OF assms] by blast
  show "kernels s' = kernels s" using arg_cong [OF c, of kernels] by (simp add: sched_core_def)
  show "tk_kernel (tasks s' t) = tk_kernel (tasks s t)"
    and "tk_kernel_id (tasks s' t) = tk_kernel_id (tasks s t)"
    using arg_cong [OF c, of "\<lambda>s. tk_kernel (tasks s t)"]
      arg_cong [OF c, of "\<lambda>s. tk_kernel_id (tasks s t)"]
    by (simp_all add: sched_core_def task_core_def)
  show "ki_devtype (impls s' p) = ki_devtype (impls s p)"
    and "ki_function (impls s' p) = ki_function (impls s p)"
    using arg_cong [OF c, of "\<lambda>s. ki_devtype (impls s p)"]
      arg_cong [OF c, of "\<lambda>s. ki_function (impls s p)"]
    by (simp_all add: sched_core_def)
qed

text \<open>
  C28. A CPU kernel function is called with the caller's arguments: for an implementation laid out
  by \<open>CPUKernelImpl\<close>, a task of it whose arguments were saved when it was created and moved to a
  segment when it got its resources, and any of the packets that \<open>dispatch\<close> writes for it, the
  worker calls the function of that implementation, and the \<open>i\<close>-th pointer that it passes leads
  to exactly the bytes of the caller's \<open>i\<close>-th argument.
\<close>

theorem function_gets_arguments:
  assumes save: "save_kernargs t (Some args) s = Some s1"
    and null: "tk_kernarg (tasks s t) = KNull"
    and krn: "kernels s (tk_kernel (tasks s t)) = Some krn" "kn_num_args krn = length (kn_arg_sizes krn)"
    and impl: "getKernelImpl krn (tk_kernel_id (tasks s t)) = Some p" "length (kn_impls krn) \<le> 2 ^ 16"
    and layout: "cpu_layout (kn_arg_sizes krn) (impls s p)"
    and small: "sum_list (map unat (kn_arg_sizes krn)) < 2 ^ 32"
    and task: "tk_devtype (tasks s t) = ATMI_DEVTYPE_CPU"
      "tk_kernarg_size (tasks s t) = ucast (kernarg_segment_size (impls s p))"
    and acq: "acquire_kernarg t args' s1 = Some s2"
    and call: "agent_call s2 (cpu_packet (tasks s2 t) ordered
      (getKernelIdMapIndex krn (tk_kernel_id (tasks s2 t))) j) = Some (f, ptrs)"
  shows "f = ki_function (impls s p) \<and> length ptrs = length (kn_arg_sizes krn) \<and>
    (\<forall>i < length ptrs. kn_arg_sizes krn ! i \<noteq> 0 \<longrightarrow>
       kmem_read s2 (fst (ptrs ! i)) (snd (ptrs ! i)) (unat (kn_arg_sizes krn ! i)) =
       Some (take (unat (kn_arg_sizes krn ! i)) (args ! i)))"
proof -
  let ?szs = "kn_arg_sizes krn" and ?k = "tasks s2 t"
  let ?ix = "getKernelIdMapIndex krn (tk_kernel_id (tasks s t))"
  note lay = cpu_layout_facts [OF layout small]
  have obj1: "tasks s1 = tasks (upd_task t (\<lambda>k. k\<lparr>tk_kernarg := KStaging t\<rparr>) s)"
    "impls s1 = impls s" "kernels s1 = kernels s"
    using updateKernargRegion_objects [of t "Some args" _ s1] save null by (auto simp: save_kernargs_def)
  note obj2 = acquire_kernarg_objects [OF acq]
  have k2: "kernels s2 (tk_kernel ?k) = Some krn" "tk_kernel_id ?k = tk_kernel_id (tasks s t)"
    using obj1 obj2(1-3) krn(1) by simp_all
  have ix: "0 \<le> ?ix" "?ix < int (length (kn_impls krn))" "kn_impls krn ! nat ?ix = p"
    using impl(1) by (auto simp: getKernelImpl_def getKernelIdMapIndex_def isValidId_def Let_def
        split: if_splits option.splits)
  have u16: "uint (word_of_int ?ix :: u16) = ?ix"
    using ix(1, 2) impl(2) by (simp add: uint_word_of_int)
  have v: "vector_at (kn_impls krn) (uint (word_of_int ?ix :: u16)) = Some p"
    unfolding u16 using ix by (simp add: vector_at_def)
  have fp: "f = ki_function (impls s p)"
    "ptrs = map (\<lambda>a. (tk_kernarg ?k, unat a)) (arg_pointers 0 ?szs)"
    using call k2 v obj1(2) obj2(4, 5) [of p] krn(2)
    by (auto simp: agent_call_def cpu_packet_def bind_eq_Some_conv split: if_splits)
  have n: "size_to_copy (tasks s t) (impls s p) = Some (ucast (kernarg_segment_size (impls s p)))"
    using task by (simp add: size_to_copy_def)
  have un: "unat (ucast (kernarg_segment_size (impls s p)) :: u64) = sum_list (map unat ?szs)"
    using lay(2) small by (simp add: unsigned_ucast_eq take_bit_nat_eq_self)
  have "kmem_read s2 (fst (ptrs ! i)) (snd (ptrs ! i)) (unat (?szs ! i)) =
      Some (take (unat (?szs ! i)) (args ! i))"
    if i: "i < length ptrs" and nz: "?szs ! i \<noteq> 0" for i
  proof -
    have il: "i < length ?szs" using i fp(2) by simp
    have "unat (arg_pointers 0 ?szs ! i) = sum_list (map unat (take i ?szs))"
      using arg_pointers_sums [of 0 ?szs i] small il by simp
    then have pt: "ptrs ! i = (tk_kernarg ?k, unat (arg_offsets (impls s p) ! i))"
      using il by (simp add: fp(2) lay(1))
    have "kmem_read s2 (tk_kernarg ?k) (unat (arg_offsets (impls s p) ! i)) (unat (?szs ! i)) =
        Some (take (unat (?szs ! i)) (args ! i))"
      by (rule kernargs_in_segment [OF save null krn(1) impl(1) _ n _ _ nz acq])
        (use lay(1, 3) il take_sum_le [OF il] un krn(2) in auto)
    then show ?thesis by (simp add: pt)
  qed
  then show ?thesis using fp by simp
qed

lemma demo_args_call:
  "map_option (\<lambda>s2. (agent_call s2 (cpu_packet (tasks s2 0) False
       (getKernelIdMapIndex (add_impl (new_Kernel 1 [4]) 0 0) (tk_kernel_id (tasks s2 0))) 0),
     tk_kernarg (tasks s2 0)))
   (Option.bind (save_kernargs 0 (Some [[1, 2, 3, 4]]) demo_cpu_rt) (acquire_kernarg 0 None)) =
   Some (Some (77, [(KSegment 0 20, 0)]), KSegment 0 20)"
  by code_simp

theorem function_gets_arguments_witness:
  "\<exists>s1 s2. save_kernargs 0 (Some [[1, 2, 3, 4]]) demo_cpu_rt = Some s1 \<and>
     acquire_kernarg 0 None s1 = Some s2 \<and>
     kmem_read s2 (KSegment 0 20) 0 4 = Some [1, 2, 3, 4]"
proof -
  obtain s1 s2 where s1: "save_kernargs 0 (Some [[1, 2, 3, 4]]) demo_cpu_rt = Some s1"
    and s2: "acquire_kernarg 0 None s1 = Some s2"
    and c: "agent_call s2 (cpu_packet (tasks s2 0) False
       (getKernelIdMapIndex (add_impl (new_Kernel 1 [4]) 0 0) (tk_kernel_id (tasks s2 0))) 0) =
       Some (77, [(KSegment 0 20, 0)])"
    using demo_args_call by (auto simp: bind_eq_Some_conv)
  note r = function_gets_arguments [OF s1 _ _ _ _ _ _ _ _ _ s2 c, where p = 0]
  have "kmem_read s2 (KSegment 0 20) 0 4 = Some [1, 2, 3, 4]"
    using r by (simp add: demo_cpu_rt_def new_TaskImpl_def new_KernelImpl_def add_impl_def
        new_Kernel_def getKernelImpl_def getKernelIdMapIndex_def isValidId_def cpu_layout_def)
  then show ?thesis using s1 s2 by blast
qed

end
