(* ===== verification/Device_Launch.thy ===== *)
theory Device_Launch
  imports Device_Enqueue Cpu_Arguments
begin

text \<open>
  What a running kernel does to launch a task: \<open>device_runtime/device_rt.cl\<close>. A launch runs in a
  work item of a kernel whose packet is \<open>p\<close> and whose implicit arguments are \<open>ia\<close> bytes into its
  segment. It works on the same queues and the same memory as the host.
\<close>

section \<open>Dispatch from the device\<close>

definition device_header :: "hsa_packet_type_t \<Rightarrow> u16" where
  "device_header ty = create_header ty False ATMI_FENCE_SCOPE_SYSTEM ATMI_FENCE_SCOPE_SYSTEM"

text \<open>The queue is not asked whether it is full, and the setup word of the slot is kept.\<close>

definition kernel_dispatch ::
  "hsa_env \<Rightarrow> kernel_dispatch_packet \<Rightarrow> atmi_lparm_t \<Rightarrow> qid \<Rightarrow> kptr \<Rightarrow>
   atmi_kernel_enqueue_template_t \<Rightarrow> rt_state \<Rightarrow> rt_state" where
  "kernel_dispatch E p lparm this_Q kernarg_region kernel_packet s =
     (let index = write_index_of E (hsa_log s) this_Q;
          s = log_call (AddWriteIndex this_Q) s;
          slot = queue_slot E this_Q index;
          ndim = grid_ndim (lp_gridDim lparm);
          this_aql =
            \<lparr>kd_header = device_header HSA_PACKET_TYPE_KERNEL_DISPATCH,
             kd_setup = slot_setup (hsa_log s) this_Q slot OR of_nat ndim,
             kd_workgroup_size = clip_dims ndim (lp_groupDim lparm),
             kd_grid_size = clip_dims ndim (lp_gridDim lparm),
             kd_private_segment_size = kt_private_segment_size kernel_packet,
             kd_group_segment_size = kt_group_segment_size kernel_packet,
             kd_kernel_object = kt_kernel_object kernel_packet,
             kd_kernarg_address = kernarg_region,
             kd_reserved2 = kd_reserved2 p,
             kd_completion_signal = kd_completion_signal p\<rparr>;
          s = log_call (SignalAdd (kd_completion_signal p) 1) s;
          s = log_call (WritePacket this_Q slot (KernelPacket this_aql)) s
      in log_call (RingDoorbell this_Q index) s)"

definition agent_dispatch ::
  "hsa_env \<Rightarrow> kernel_dispatch_packet \<Rightarrow> qid \<Rightarrow> kptr \<Rightarrow> atmi_kernel_enqueue_template_t \<Rightarrow> signal \<Rightarrow>
   rt_state \<Rightarrow> rt_state" where
  "agent_dispatch E p this_Q kernarg_region kernel_packet worker s =
     (let index = write_index_of E (hsa_log s) this_Q;
          s = log_call (AddWriteIndex this_Q) s;
          this_aql =
            \<lparr>ad_header = device_header HSA_PACKET_TYPE_AGENT_DISPATCH,
             ad_type = kt_type kernel_packet, ad_task = kd_reserved2 p,
             ad_kernarg = kernarg_region, ad_kernel = kt_kernel kernel_packet,
             ad_tid = kt_arg3 kernel_packet,
             ad_completion_signal = kd_completion_signal p\<rparr>;
          s = log_call (SignalAdd (kd_completion_signal p) 1) s;
          s = log_call (WritePacket this_Q (queue_slot E this_Q index) (AgentPacket this_aql)) s;
          s = log_call (RingDoorbell this_Q index) s
      in log_call (SignalStore worker 0) s)"

text \<open>
  A field of the implicit arguments of the running kernel. A pointer that is not the one to the
  array it is used for leads nowhere.
\<close>

definition implicit_ptr :: "rt_state \<Rightarrow> kernel_dispatch_packet \<Rightarrow> nat \<Rightarrow> nat \<Rightarrow> u64 option" where
  "implicit_ptr s p ia off = map_option from_le (kmem_read s (kd_kernarg_address p) (ia + off) 8)"

definition deref :: "u64 option \<Rightarrow> u64 \<Rightarrow> 'a list \<Rightarrow> nat \<Rightarrow> 'a option" where
  "deref ptr addr xs i = (if ptr = Some addr \<and> i < length xs then Some (xs ! i) else None)"

text \<open>
  Taking a segment of the template and copying the arguments to it. Nothing compares the index of
  the segment with the number of segments; bytes past the end of the region are \<open>None\<close>.
\<close>

definition take_segment ::
  "nat \<Rightarrow> u8 list \<Rightarrow> atl_kernel_enqueue_args_t \<Rightarrow> rt_state \<Rightarrow>
   (kptr \<times> atl_kernel_enqueue_args_t \<times> rt_state) option" where
  "take_segment kernel_id args ke s =
     (let tpl = ke_templates ke ! kernel_id;
          off = unat (of_nat (kt_next tpl) * kt_segment_size tpl);
          ke = ke\<lparr>ke_templates := (ke_templates ke)[kernel_id := tpl\<lparr>kt_next := kt_next tpl + 1\<rparr>]\<rparr>
      in if args = [] then Some (KTemplate kernel_id off, ke, s)
         else if kt_capacity tpl < off + length args then None
         else map_option (\<lambda>s. (KTemplate kernel_id off, ke, s)) (kmem_write (KTemplate kernel_id off) 0 args s))"

definition atmid_task_launch ::
  "hsa_env \<Rightarrow> kernel_dispatch_packet \<Rightarrow> nat \<Rightarrow> nat \<Rightarrow> atmi_lparm_t \<Rightarrow> nat \<Rightarrow> u8 list \<Rightarrow>
   atl_kernel_enqueue_args_t \<times> rt_state \<Rightarrow> (atl_kernel_enqueue_args_t \<times> rt_state) option" where
  "atmid_task_launch E p ia global_id lp kernel_id args = (\<lambda>(ke, s).
     do {
       tpl \<leftarrow> deref (implicit_ptr s p ia 72) (kernarg_template_ptr ke)
                (take (ke_kernel_counter ke) (ke_templates ke)) kernel_id;
       (region, ke', s') \<leftarrow> take_segment kernel_id args ke s;
       if pl_type (lp_place lp) = ATMI_DEVTYPE_CPU then do {
         let qid = global_id mod 2;
         queue \<leftarrow> deref (implicit_ptr s' p ia 64) (cpu_queue_ptr ke) (ke_cpu_queues ke) qid;
         worker \<leftarrow> deref (implicit_ptr s' p ia 56) (cpu_worker_signals ke) (ke_worker_signals ke) qid;
         Some (ke', agent_dispatch E p queue region tpl worker s')
       }
       else if pl_type (lp_place lp) = ATMI_DEVTYPE_GPU then do {
         queue \<leftarrow> deref (implicit_ptr s' p ia 40) (gpu_queue_ptr ke) (ke_gpu_queues ke) 0;
         Some (ke', kernel_dispatch E p lp queue region tpl s')
       }
       else Some (ke', s')
     })"

text \<open>Several launches of one kernel.\<close>

type_synonym launch = "nat \<times> atmi_lparm_t \<times> nat \<times> u8 list"

fun launch_all ::
  "hsa_env \<Rightarrow> kernel_dispatch_packet \<Rightarrow> nat \<Rightarrow> launch list \<Rightarrow>
   atl_kernel_enqueue_args_t \<times> rt_state \<Rightarrow> (atl_kernel_enqueue_args_t \<times> rt_state) option" where
  "launch_all E p ia [] d = Some d"
| "launch_all E p ia ((g, lp, n, args) # ls) d =
     Option.bind (atmid_task_launch E p ia g lp n args d) (launch_all E p ia ls)"


section \<open>One launch\<close>

text \<open>A packet with given arguments that counts down a given signal.\<close>

fun carries :: "kptr \<Rightarrow> signal \<Rightarrow> hsa_call \<Rightarrow> bool" where
  "carries a sg (WritePacket q i (KernelPacket k)) \<longleftrightarrow>
     kd_kernarg_address k = a \<and> kd_completion_signal k = sg"
| "carries a sg (WritePacket q i (AgentPacket k)) \<longleftrightarrow>
     ad_kernarg k = a \<and> ad_completion_signal k = sg"
| "carries a sg c \<longleftrightarrow> False"

definition finishes :: "signal \<Rightarrow> hsa_call \<Rightarrow> bool" where
  "finishes sg c \<longleftrightarrow> (\<exists>a. carries a sg c)"

definition on_device :: "atmi_lparm_t \<Rightarrow> bool" where
  "on_device lp \<longleftrightarrow> pl_type (lp_place lp) = ATMI_DEVTYPE_CPU \<or> pl_type (lp_place lp) = ATMI_DEVTYPE_GPU"

definition segment_of :: "atl_kernel_enqueue_args_t \<Rightarrow> nat \<Rightarrow> nat" where
  "segment_of ke n = unat (kt_segment_size (ke_templates ke ! n))"

text \<open>The templates in use: a region has \<open>MAX_NUM_KERNELS\<close> segments of less than 4 GiB.\<close>

definition ke_wf :: "atl_kernel_enqueue_args_t \<Rightarrow> bool" where
  "ke_wf ke \<longleftrightarrow> ke_kernel_counter ke \<le> length (ke_templates ke) \<and>
     (\<forall>n < ke_kernel_counter ke. segment_of ke n < 2 ^ 32 \<and>
        kt_capacity (ke_templates ke ! n) = segment_of ke n * MAX_NUM_KERNELS)"

definition counted :: "nat \<Rightarrow> atl_kernel_enqueue_args_t \<Rightarrow> atl_kernel_enqueue_args_t" where
  "counted n ke = ke\<lparr>ke_templates := (ke_templates ke)
     [n := (ke_templates ke ! n)\<lparr>kt_next := kt_next (ke_templates ke ! n) + 1\<rparr>]\<rparr>"

lemma counted_simps [simp]:
  "ke_kernel_counter (counted n ke) = ke_kernel_counter ke"
  "length (ke_templates (counted n ke)) = length (ke_templates ke)"
  "segment_of (counted n ke) m = segment_of ke m"
  "kt_capacity (ke_templates (counted n ke) ! m) = kt_capacity (ke_templates ke ! m)"
proof -
  have e: "f (ke_templates (counted n ke) ! m) = f (ke_templates ke ! m)"
    if "\<And>k x. f (k\<lparr>kt_next := x\<rparr>) = f k" for f :: "atmi_kernel_enqueue_template_t \<Rightarrow> 'b"
    using that by (cases "m = n \<and> n < length (ke_templates ke)") (auto simp: counted_def not_less list_update_beyond)
  show "segment_of (counted n ke) m = segment_of ke m"
    "kt_capacity (ke_templates (counted n ke) ! m) = kt_capacity (ke_templates ke ! m)"
    by (simp_all add: segment_of_def e)
qed (simp_all add: counted_def)

lemma counted_wf [simp]: "ke_wf (counted n ke) = ke_wf ke"
  by (simp add: ke_wf_def)

lemma counted_next:
  "n < length (ke_templates ke) \<Longrightarrow> kt_next (ke_templates (counted n ke) ! m) =
     kt_next (ke_templates ke ! m) + of_bool (m = n)"
  by (auto simp: counted_def nth_list_update)

lemma write_bytes_nil [simp]: "write_bytes m off [] = m"
  by (auto simp: write_bytes_def fun_eq_iff)

text \<open>The offset of the segment that is next.\<close>

definition next_offset :: "atl_kernel_enqueue_args_t \<Rightarrow> nat \<Rightarrow> nat" where
  "next_offset ke n = kt_next (ke_templates ke ! n) * segment_of ke n"

lemma next_offset_nowrap:
  assumes "ke_wf ke" "n < ke_kernel_counter ke" "kt_next (ke_templates ke ! n) < 2 ^ 31"
  shows "unat (of_nat (kt_next (ke_templates ke ! n)) * kt_segment_size (ke_templates ke ! n)) =
    next_offset ke n"
proof -
  let ?k = "kt_next (ke_templates ke ! n)" and ?w = "kt_segment_size (ke_templates ke ! n)"
  have w: "unat ?w < 2 ^ 32" using assms(1, 2) by (simp add: ke_wf_def segment_of_def)
  have "?k * unat ?w \<le> 2 ^ 31 * 2 ^ 32"
    by (rule mult_le_mono) (use assms(3) w in auto)
  then have "?k * unat ?w < 2 ^ LENGTH(64)" by simp
  moreover have "unat (of_nat ?k :: u64) = ?k" using assms(3) by (simp add: unat_of_nat)
  ultimately show ?thesis
    by (simp add: next_offset_def segment_of_def unat_mult_lem [THEN iffD1])
qed

lemma take_segment_some:
  assumes "take_segment n args ke s = Some (region, ke', s')"
    and "ke_wf ke" "n < ke_kernel_counter ke" "kt_next (ke_templates ke ! n) < 2 ^ 31"
  shows "region = KTemplate n (next_offset ke n)" "ke' = counted n ke"
    "s' = s\<lparr>template_mem := (template_mem s)
       (n := write_bytes (template_mem s n) (next_offset ke n) args)\<rparr>"
    "args = [] \<or> next_offset ke n + length args \<le> segment_of ke n * MAX_NUM_KERNELS"
  using assms(1) next_offset_nowrap [OF assms(2-4)] assms(2, 3)
  by (auto simp: take_segment_def Let_def counted_def kmem_write_def ke_wf_def split: if_splits)

lemma kernel_dispatch_calls:
  "\<exists>q slot index k. hsa_log (kernel_dispatch E p lp q' a tpl s) = hsa_log s @
     [AddWriteIndex q, SignalAdd (kd_completion_signal p) 1, WritePacket q slot (KernelPacket k),
      RingDoorbell q index] \<and> kd_kernarg_address k = a \<and>
     kd_completion_signal k = kd_completion_signal p"
  "template_mem (kernel_dispatch E p lp q' a tpl s) = template_mem s"
  by (simp_all add: kernel_dispatch_def Let_def log_call_def)

lemma agent_dispatch_calls:
  "\<exists>q slot index k w'. hsa_log (agent_dispatch E p q' a tpl w s) = hsa_log s @
     [AddWriteIndex q, SignalAdd (kd_completion_signal p) 1, WritePacket q slot (AgentPacket k),
      RingDoorbell q index, SignalStore w' 0] \<and> ad_kernarg k = a \<and>
     ad_completion_signal k = kd_completion_signal p"
  "template_mem (agent_dispatch E p q' a tpl w s) = template_mem s"
  by (simp_all add: agent_dispatch_def Let_def log_call_def)

text \<open>The calls of a launch: the signal is raised before the packet that will count it down.\<close>

definition launch_calls :: "kptr \<Rightarrow> signal \<Rightarrow> hsa_call list \<Rightarrow> bool" where
  "launch_calls a sg cs \<longleftrightarrow>
     (\<exists>q c rest. cs = [AddWriteIndex q, SignalAdd sg 1, c] @ rest \<and> carries a sg c \<and>
        (\<forall>x \<in> set rest. \<not> finishes sg x \<and> x \<noteq> SignalAdd sg 1))"

lemma finishes_simps [simp]:
  "\<not> finishes sg (AddWriteIndex q)" "\<not> finishes sg (SignalAdd x v)" "\<not> finishes sg (RingDoorbell q i)"
  "\<not> finishes sg (SignalStore x v)"
  by (simp_all add: finishes_def)

lemma launch_some:
  assumes "atmid_task_launch E p ia g lp n args (ke, s) = Some (ke', s')"
    and wf: "ke_wf ke" and lt: "kt_next (ke_templates ke ! n) < 2 ^ 31"
  shows "n < ke_kernel_counter ke" "ke' = counted n ke"
    "template_mem s' = (template_mem s)(n := write_bytes (template_mem s n) (next_offset ke n) args)"
    "on_device lp \<Longrightarrow> \<exists>cs. hsa_log s' = hsa_log s @ cs \<and>
       launch_calls (KTemplate n (next_offset ke n)) (kd_completion_signal p) cs"
proof -
  obtain tpl region ke1 s1 where
    d: "deref (implicit_ptr s p ia 72) (kernarg_template_ptr ke)
      (take (ke_kernel_counter ke) (ke_templates ke)) n = Some tpl"
    and t: "take_segment n args ke s = Some (region, ke1, s1)"
    and r: "(if pl_type (lp_place lp) = ATMI_DEVTYPE_CPU then do {
         let qid = g mod 2;
         queue \<leftarrow> deref (implicit_ptr s1 p ia 64) (cpu_queue_ptr ke) (ke_cpu_queues ke) qid;
         worker \<leftarrow> deref (implicit_ptr s1 p ia 56) (cpu_worker_signals ke) (ke_worker_signals ke) qid;
         Some (ke1, agent_dispatch E p queue region tpl worker s1)
       }
       else if pl_type (lp_place lp) = ATMI_DEVTYPE_GPU then do {
         queue \<leftarrow> deref (implicit_ptr s1 p ia 40) (gpu_queue_ptr ke) (ke_gpu_queues ke) 0;
         Some (ke1, kernel_dispatch E p lp queue region tpl s1)
       }
       else Some (ke1, s1)) = Some (ke', s')"
    using assms(1) by (auto simp: atmid_task_launch_def bind_eq_Some_conv)
  show n: "n < ke_kernel_counter ke" using d by (simp add: deref_def split: if_splits)
  note t = take_segment_some [OF t wf n lt]
  have cases: "ke' = ke1 \<and> ((\<exists>q w. s' = agent_dispatch E p q region tpl w s1) \<or>
      (\<exists>q. s' = kernel_dispatch E p lp q region tpl s1) \<or> \<not> on_device lp \<and> s' = s1)"
    using r by (auto simp: Let_def bind_eq_Some_conv on_device_def split: if_splits)
  then show "ke' = counted n ke" using t(2) by simp
  show "template_mem s' = (template_mem s)(n := write_bytes (template_mem s n) (next_offset ke n) args)"
    using cases t(3) kernel_dispatch_calls(2) agent_dispatch_calls(2) by auto
  assume "on_device lp"
  then consider q w where "s' = agent_dispatch E p q region tpl w s1"
    | q where "s' = kernel_dispatch E p lp q region tpl s1" using cases by blast
  then show "\<exists>cs. hsa_log s' = hsa_log s @ cs \<and>
       launch_calls (KTemplate n (next_offset ke n)) (kd_completion_signal p) cs"
  proof cases
    case (1 q w)
    then show ?thesis
      using agent_dispatch_calls(1) [of E p q region tpl w s1] t(1, 3)
      by (fastforce simp: launch_calls_def)
  next
    case (2 q)
    then show ?thesis
      using kernel_dispatch_calls(1) [of E p lp q region tpl s1] t(1, 3)
      by (fastforce simp: launch_calls_def)
  qed
qed

end
