(* ===== verification/Device_Guarantees.thy ===== *)
theory Device_Guarantees
  imports Device_Launch
begin

text \<open>
  What device enqueueing guarantees: for sequences of launches by a running kernel, and for the
  templates that the host prepares.
\<close>

section \<open>Sequences of launches\<close>

abbreviation launch_template :: "launch \<Rightarrow> nat" where
  "launch_template l \<equiv> fst (snd (snd l))"

abbreviation launch_args :: "launch \<Rightarrow> u8 list" where
  "launch_args l \<equiv> snd (snd (snd l))"

abbreviation launch_parm :: "launch \<Rightarrow> atmi_lparm_t" where
  "launch_parm l \<equiv> fst (snd l)"

text \<open>
  The indexes of segments are \<open>int\<close>s that do not overflow, every launch is for a device, and its
  arguments fit a segment without its last \<open>r\<close> bytes.
\<close>

definition launches_fit :: "nat \<Rightarrow> atl_kernel_enqueue_args_t \<Rightarrow> launch list \<Rightarrow> bool" where
  "launches_fit r ke ls \<longleftrightarrow> ke_wf ke \<and>
     (\<forall>n < ke_kernel_counter ke. kt_next (ke_templates ke ! n) + length ls \<le> 2 ^ 31) \<and>
     (\<forall>l \<in> set ls. on_device (launch_parm l) \<and>
        length (launch_args l) + r \<le> segment_of ke (launch_template l))"

lemma launches_fit_Cons:
  assumes "launches_fit r ke (l # ls)" and "launch_template l < ke_kernel_counter ke"
  shows "launches_fit r (counted (launch_template l) ke) ls"
    and "ke_wf ke" "kt_next (ke_templates ke ! launch_template l) < 2 ^ 31"
    and "on_device (launch_parm l)" "length (launch_args l) + r \<le> segment_of ke (launch_template l)"
proof -
  have "kt_next (ke_templates (counted (launch_template l) ke) ! n) + length ls \<le> 2 ^ 31"
    if "n < ke_kernel_counter ke" for n
  proof -
    have "launch_template l < length (ke_templates ke)"
      using assms by (simp add: launches_fit_def ke_wf_def)
    moreover have "kt_next (ke_templates ke ! n) + length (l # ls) \<le> 2 ^ 31"
      using assms(1) that by (simp add: launches_fit_def)
    ultimately show ?thesis by (auto simp: counted_next)
  qed
  then show "launches_fit r (counted (launch_template l) ke) ls"
    using assms(1) by (simp add: launches_fit_def)
  show "kt_next (ke_templates ke ! launch_template l) < 2 ^ 31"
    using assms by (fastforce simp: launches_fit_def)
qed (use assms in \<open>simp_all add: launches_fit_def\<close>)

lemma launch_all_Cons:
  assumes "launch_all E p ia (l # ls) (ke, s) = Some d" and "launches_fit r ke (l # ls)"
  obtains s1 cs where "launch_template l < ke_kernel_counter ke"
    "launch_all E p ia ls (counted (launch_template l) ke, s1) = Some d"
    "launches_fit r (counted (launch_template l) ke) ls"
    "template_mem s1 = (template_mem s)(launch_template l :=
       write_bytes (template_mem s (launch_template l)) (next_offset ke (launch_template l)) (launch_args l))"
    "hsa_log s1 = hsa_log s @ cs"
    "launch_calls (KTemplate (launch_template l) (next_offset ke (launch_template l)))
       (kd_completion_signal p) cs"
    "length (launch_args l) + r \<le> segment_of ke (launch_template l)"
proof -
  obtain g lp n args where l: "l = (g, lp, n, args)" by (cases l) auto
  obtain ke1 s1 where 1: "atmid_task_launch E p ia g lp n args (ke, s) = Some (ke1, s1)"
    and r: "launch_all E p ia ls (ke1, s1) = Some d"
    using assms(1) by (auto simp: l bind_eq_Some_conv)
  have n: "n < ke_kernel_counter ke"
    using 1 by (auto simp: atmid_task_launch_def bind_eq_Some_conv deref_def split: if_splits)
  note f = launches_fit_Cons [OF assms(2)]
  have lt: "launch_template l < ke_kernel_counter ke" using n by (simp add: l)
  have x: "ke_wf ke" "kt_next (ke_templates ke ! n) < 2 ^ 31" "on_device lp"
    using f(2-4) [OF lt] by (simp_all add: l)
  note s = launch_some [OF 1 x(1, 2)]
  obtain cs where "hsa_log s1 = hsa_log s @ cs"
    "launch_calls (KTemplate n (next_offset ke n)) (kd_completion_signal p) cs"
    using s(4) x(3) by blast
  then show ?thesis
    using that [of s1 cs] r s(2, 3) n f(1, 5) [OF lt] by (simp add: l)
qed

text \<open>Launches leave the segments alone that were given out, and append to the log.\<close>

lemma launch_all_keeps:
  assumes "launch_all E p ia ls (ke, s) = Some (ke', s')" and "launches_fit r ke ls"
  shows "(\<exists>cs. hsa_log s' = hsa_log s @ cs) \<and>
    (\<forall>n off x. off + x \<le> kt_next (ke_templates ke ! n) * segment_of ke n \<longrightarrow>
       read_bytes (template_mem s' n) off x = read_bytes (template_mem s n) off x)"
  using assms
proof (induction ls arbitrary: ke s)
  case (Cons l ls)
  let ?n = "launch_template l"
  from Cons.prems obtain s1 cs where 1: "?n < ke_kernel_counter ke"
    "launch_all E p ia ls (counted ?n ke, s1) = Some (ke', s')" "launches_fit r (counted ?n ke) ls"
    "template_mem s1 = (template_mem s)(?n :=
       write_bytes (template_mem s ?n) (next_offset ke ?n) (launch_args l))"
    "hsa_log s1 = hsa_log s @ cs"
    by (rule launch_all_Cons)
  note IH = Cons.IH [OF 1(2, 3)]
  have len: "?n < length (ke_templates ke)"
    using 1(1) Cons.prems(2) by (simp add: launches_fit_def ke_wf_def)
  have "read_bytes (template_mem s' n) off x = read_bytes (template_mem s n) off x"
    if "off + x \<le> kt_next (ke_templates ke ! n) * segment_of ke n" for n off x
  proof -
    have "off + x \<le> kt_next (ke_templates (counted ?n ke) ! n) * segment_of (counted ?n ke) n"
      using that by (cases "n = ?n") (auto simp: counted_next [OF len])
    then have "read_bytes (template_mem s' n) off x = read_bytes (template_mem s1 n) off x"
      using IH by blast
    also have "\<dots> = read_bytes (template_mem s n) off x"
      using that by (auto simp: 1(4) next_offset_def intro!: read_write_other)
    finally show ?thesis .
  qed
  then show ?case using IH 1(5) by auto
qed simp

text \<open>The segment that a launch of the sequence gets.\<close>

definition segment_index :: "atl_kernel_enqueue_args_t \<Rightarrow> launch list \<Rightarrow> nat \<Rightarrow> nat" where
  "segment_index ke ls i = kt_next (ke_templates ke ! launch_template (ls ! i)) +
     length (filter (\<lambda>l. launch_template l = launch_template (ls ! i)) (take i ls))"

lemma launch_all_packet:
  assumes "launch_all E p ia ls (ke, s) = Some (ke', s')" and "launches_fit r ke ls"
    and "i < length ls"
  shows "(\<exists>c \<in> set (drop (length (hsa_log s)) (hsa_log s')).
       carries (KTemplate (launch_template (ls ! i))
         (segment_index ke ls i * segment_of ke (launch_template (ls ! i)))) (kd_completion_signal p) c) \<and>
    read_bytes (template_mem s' (launch_template (ls ! i)))
       (segment_index ke ls i * segment_of ke (launch_template (ls ! i)))
       (length (launch_args (ls ! i))) = launch_args (ls ! i)"
  using assms
proof (induction ls arbitrary: ke s i)
  case (Cons l ls)
  let ?n = "launch_template l"
  from Cons.prems(1, 2) obtain s1 cs where 1: "?n < ke_kernel_counter ke"
    "launch_all E p ia ls (counted ?n ke, s1) = Some (ke', s')" "launches_fit r (counted ?n ke) ls"
    "template_mem s1 = (template_mem s)(?n :=
       write_bytes (template_mem s ?n) (next_offset ke ?n) (launch_args l))"
    "hsa_log s1 = hsa_log s @ cs"
    "launch_calls (KTemplate ?n (next_offset ke ?n)) (kd_completion_signal p) cs"
    "length (launch_args l) + r \<le> segment_of ke ?n"
    by (rule launch_all_Cons)
  have len: "?n < length (ke_templates ke)"
    using 1(1) Cons.prems(2) by (simp add: launches_fit_def ke_wf_def)
  note k = launch_all_keeps [OF 1(2, 3)]
  obtain cs' where cs': "hsa_log s' = hsa_log s @ cs @ cs'" using k 1(5) by auto
  show ?case
  proof (cases i)
    case 0
    have "next_offset ke ?n + length (launch_args l) \<le>
        kt_next (ke_templates (counted ?n ke) ! ?n) * segment_of (counted ?n ke) ?n"
      using 1(7) by (simp add: next_offset_def counted_next [OF len] add.commute)
    then have "read_bytes (template_mem s' ?n) (next_offset ke ?n) (length (launch_args l)) =
        read_bytes (template_mem s1 ?n) (next_offset ke ?n) (length (launch_args l))"
      using k by blast
    also have "\<dots> = launch_args l" by (simp add: 1(4) read_write_same)
    finally show ?thesis
      using 0 1(6) cs' by (auto simp: segment_index_def next_offset_def launch_calls_def)
  next
    case (Suc j)
    have j: "j < length ls" using Cons.prems(3) Suc by simp
    have "segment_index ke (l # ls) i = segment_index (counted ?n ke) ls j"
      by (simp add: segment_index_def Suc counted_next [OF len])
    then show ?thesis
      using Cons.IH [OF 1(2, 3) j] Suc 1(5) by (auto simp: cs')
  qed
qed simp

section \<open>The signal of the launching kernel\<close>

definition adds :: "signal \<Rightarrow> hsa_call list \<Rightarrow> nat" where
  "adds sg cs = length (filter (\<lambda>c. c = SignalAdd sg 1) cs)"

definition packets_for :: "signal \<Rightarrow> hsa_call list \<Rightarrow> nat" where
  "packets_for sg cs = length (filter (finishes sg) cs)"

lemma adds_simps [simp]:
  "adds sg [] = 0" "adds sg (c # cs) = of_bool (c = SignalAdd sg 1) + adds sg cs"
  "adds sg (cs @ ds) = adds sg cs + adds sg ds"
  by (simp_all add: adds_def)

lemma packets_for_simps [simp]:
  "packets_for sg [] = 0" "packets_for sg (c # cs) = of_bool (finishes sg c) + packets_for sg cs"
  "packets_for sg (cs @ ds) = packets_for sg cs + packets_for sg ds"
  by (simp_all add: packets_for_def)

lemma launch_calls_balance:
  assumes "launch_calls a sg cs"
  shows "adds sg cs = 1" "packets_for sg cs = 1"
    "packets_for sg (take k cs) \<le> adds sg (take k cs)"
proof -
  obtain q c rest where cs: "cs = [AddWriteIndex q, SignalAdd sg 1, c] @ rest"
    and c: "carries a sg c" and rest: "\<forall>x \<in> set rest. \<not> finishes sg x \<and> x \<noteq> SignalAdd sg 1"
    using assms by (auto simp: launch_calls_def)
  have fc: "finishes sg c" "c \<noteq> SignalAdd sg 1" using c by (auto simp: finishes_def)
  have r0: "adds sg (take j rest) = 0" "packets_for sg (take j rest) = 0" for j
    using rest by (auto simp: adds_def packets_for_def filter_empty_conv dest: in_set_takeD)
  show "adds sg cs = 1" "packets_for sg cs = 1"
    using fc r0 [of "length rest"] by (simp_all add: cs)
  show "packets_for sg (take k cs) \<le> adds sg (take k cs)"
    using fc r0 [of "k - 3"] by (cases k rule: nat.exhaust; cases "k - 1"; cases "k - 2")
      (auto simp: cs)
qed

lemma launch_all_balance:
  assumes "launch_all E p ia ls (ke, s) = Some (ke', s')" and "launches_fit r ke ls"
  shows "\<exists>cs. hsa_log s' = hsa_log s @ cs \<and> adds (kd_completion_signal p) cs = length ls \<and>
    packets_for (kd_completion_signal p) cs = length ls \<and>
    (\<forall>k. packets_for (kd_completion_signal p) (take k cs) \<le> adds (kd_completion_signal p) (take k cs))"
  using assms
proof (induction ls arbitrary: ke s)
  case (Cons l ls)
  let ?n = "launch_template l" and ?sg = "kd_completion_signal p"
  from Cons.prems obtain s1 cs where 1:
    "launch_all E p ia ls (counted ?n ke, s1) = Some (ke', s')" "launches_fit r (counted ?n ke) ls"
    "hsa_log s1 = hsa_log s @ cs" "launch_calls (KTemplate ?n (next_offset ke ?n)) ?sg cs"
    by (rule launch_all_Cons)
  obtain ds where ds: "hsa_log s' = hsa_log s1 @ ds" "adds ?sg ds = length ls"
    "packets_for ?sg ds = length ls" "\<forall>k. packets_for ?sg (take k ds) \<le> adds ?sg (take k ds)"
    using Cons.IH [OF 1(1, 2)] by blast
  have "packets_for ?sg (take k (cs @ ds)) \<le> adds ?sg (take k (cs @ ds))" for k
    using launch_calls_balance(3) [OF 1(4), of k] ds(4) by (simp add: add_mono)
  then show ?case
    using ds 1(3) launch_calls_balance(1, 2) [OF 1(4)] by (intro exI [of _ "cs @ ds"]) simp
qed simp


section \<open>The templates that the host prepares\<close>

definition implicit_at :: "atl_kernel_enqueue_args_t \<Rightarrow> (nat \<Rightarrow> u8) \<Rightarrow> nat \<Rightarrow> bool" where
  "implicit_at ke m base \<longleftrightarrow>
     (\<forall>(off, bs) \<in> set (implicit_fields ke). read_bytes m (base + off) (length bs) = bs)"

lemma implicit_field_in: "(off, bs) \<in> set (implicit_fields ke) \<Longrightarrow> off + length bs \<le> 80"
  by (auto simp: implicit_fields_def)

lemma implicit_at_cong:
  assumes "implicit_at ke m base" and "read_bytes m' base 80 = read_bytes m base 80"
  shows "implicit_at ke m' base"
proof -
  have "read_bytes m' (base + off) (length bs) = read_bytes m (base + off) (length bs)"
    if "(off, bs) \<in> set (implicit_fields ke)" for off bs
    using implicit_field_in [OF that] assms(2) take_drop_read_bytes [of off "length bs" 80]
    by (metis (no_types))
  then show ?thesis using assms(1) by (fastforce simp: implicit_at_def)
qed

lemma write_fields_other:
  "\<forall>(b, bs) \<in> set fs. b + length bs \<le> off \<or> off + x \<le> b \<Longrightarrow>
   read_bytes (write_fields base fs m) (base + off) x = read_bytes m (base + off) x"
  by (induction fs arbitrary: m) (auto simp: write_fields_def read_write_other)

lemma write_fields_read:
  assumes "sorted_wrt (\<lambda>(a, as) (b, bs). b + length bs \<le> a \<or> a + length as \<le> b) fs"
    and "(off, bs) \<in> set fs"
  shows "read_bytes (write_fields base fs m) (base + off) (length bs) = bs"
  using assms
proof (induction fs arbitrary: m)
  case (Cons f fs)
  have w: "write_fields base (f # fs) m = write_fields base fs (write_bytes m (base + fst f) (snd f))"
    by (simp add: write_fields_def case_prod_beta)
  show ?case
  proof (cases "f = (off, bs)")
    case True
    then have "\<forall>(b, cs) \<in> set fs. b + length cs \<le> off \<or> off + length bs \<le> b"
      using Cons.prems(1) by auto
    then show ?thesis unfolding w using True by (simp add: write_fields_other read_write_same)
  next
    case False
    then show ?thesis using Cons.IH Cons.prems by (auto simp: w)
  qed
qed simp

lemma write_fields_at: "implicit_at ke (write_fields base (implicit_fields ke) m) base"
proof -
  have "sorted_wrt (\<lambda>(a, as) (b, bs). b + length bs \<le> a \<or> a + length as \<le> b) (implicit_fields ke)"
    by (simp add: implicit_fields_def del: le_bytes.simps)
  then show ?thesis using write_fields_read by (auto simp: implicit_at_def)
qed

lemma implicit_offset_some:
  assumes "80 \<le> unat sz" "unat sz * MAX_NUM_KERNELS < 2 ^ 32" "k < MAX_NUM_KERNELS"
  shows "implicit_offset k sz = Some (k * unat sz + (unat sz - 80))"
proof -
  have "(k + 1) * unat sz \<le> MAX_NUM_KERNELS * unat sz" by (rule mult_le_mono1) (use assms(3) in simp)
  then have lt: "(k + 1) * unat sz < 2 ^ LENGTH(32)" using assms(2) by (simp add: mult.commute)
  moreover have "unat (of_nat (k + 1) :: u32) = k + 1"
    unfolding unat_of_nat using assms(3) by (simp add: MAX_NUM_KERNELS_def)
  ultimately have w: "unat (of_nat (k + 1) * sz :: u32) = (k + 1) * unat sz"
    by (metis unat_mult_lem)
  then have u: "unat (ucast (of_nat (k + 1) * sz :: u32) :: u64) = (k + 1) * unat sz"
    using lt by (simp add: unsigned_ucast_eq take_bit_nat_eq_self)
  have "80 \<le> (k + 1) * unat sz" using assms(1) by simp
  then have ge: "\<not> (ucast (of_nat (k + 1) * sz :: u32) :: u64) < 80"
    using u by (simp add: word_less_nat_alt)
  then have "unat ((ucast (of_nat (k + 1) * sz :: u32) :: u64) - 80) = (k + 1) * unat sz - 80"
    using u by (simp add: unat_sub not_less)
  then show ?thesis
    using ge assms(1) by (simp add: implicit_offset_def Let_def sizeof_atmi_implicit_args_def)
qed

text \<open>A segment size for which the address arithmetic does not wrap.\<close>

definition segment_ok :: "u32 \<Rightarrow> bool" where
  "segment_ok sz \<longleftrightarrow> 80 \<le> unat sz \<and> unat sz * MAX_NUM_KERNELS < 2 ^ 32"

lemma region_bytes_ok: "segment_ok sz \<Longrightarrow> region_bytes sz = unat sz * MAX_NUM_KERNELS"
  by (simp add: segment_ok_def region_bytes_def unat_word_ariths unat_of_nat MAX_NUM_KERNELS_def)

lemma segments_apart:
  fixes j k sz :: nat
  assumes "j \<noteq> k" "80 \<le> sz"
  shows "j * sz + (sz - 80) + 80 \<le> k * sz + (sz - 80) \<or> k * sz + (sz - 80) + 80 \<le> j * sz + (sz - 80)"
proof -
  have "a * sz + (sz - 80) + 80 \<le> b * sz + (sz - 80)" if "a < b" for a b
    using mult_le_mono1 [of "Suc a" b sz] that assms(2) by simp
  then show ?thesis using assms(1) by (meson linorder_neqE_nat)
qed

lemma fill_implicit_args_result:
  assumes "segment_ok sz" "kernarg_segment_size (impls s p) = sz" "has_kernarg_region (impls s p)"
    and "cap = unat sz * MAX_NUM_KERNELS" "set ks \<subseteq> {..<MAX_NUM_KERNELS}"
  shows "\<exists>r m. fill_implicit_args ke p n cap ks s =
       Some (s\<lparr>region_mem := r, template_mem := (template_mem s)(n := m)\<rparr>) \<and>
     (\<forall>k. if k \<in> set ks then implicit_at ke m (k * unat sz + (unat sz - 80))
          else read_bytes m (k * unat sz + (unat sz - 80)) 80 =
            read_bytes (template_mem s n) (k * unat sz + (unat sz - 80)) 80)"
  using assms(2, 3, 5)
proof (induction ks arbitrary: s)
  case (Cons k ks)
  have k: "k < MAX_NUM_KERNELS" using Cons.prems(3) by simp
  let ?off = "k * unat sz + (unat sz - 80)"
  have "(k + 1) * unat sz \<le> MAX_NUM_KERNELS * unat sz" by (rule mult_le_mono1) (use k in simp)
  then have le: "?off + 80 \<le> unat sz * MAX_NUM_KERNELS"
    using assms(1) by (simp add: segment_ok_def mult.commute)
  define m where "m = write_fields ?off (implicit_fields ke) (region_mem s p)"
  define t where "t = write_bytes (template_mem s n) ?off (read_bytes m ?off 80)"
  define s1 where "s1 = s\<lparr>region_mem := (region_mem s)(p := m),
    template_mem := (template_mem s)(n := t)\<rparr>"
  have step: "fill_implicit_args ke p n cap (k # ks) s = fill_implicit_args ke p n cap ks s1"
    using assms(1, 4) Cons.prems(1, 2) le region_bytes_ok [OF assms(1)]
    by (simp add: implicit_offset_some [OF _ _ k] segment_ok_def Let_def s1_def t_def m_def
        sizeof_atmi_implicit_args_def)
  have "read_bytes t ?off 80 = read_bytes m ?off 80"
    using read_write_same [of "template_mem s n" ?off "read_bytes m ?off 80"] by (simp add: t_def)
  then have tk: "implicit_at ke t ?off"
    using implicit_at_cong write_fields_at by (metis m_def)
  have other: "read_bytes t (j * unat sz + (unat sz - 80)) 80 =
      read_bytes (template_mem s n) (j * unat sz + (unat sz - 80)) 80" if "j \<noteq> k" for j
    unfolding t_def
    by (rule read_write_other) (use segments_apart [OF that] assms(1) in \<open>auto simp: segment_ok_def\<close>)
  have p1: "kernarg_segment_size (impls s1 p) = sz" "has_kernarg_region (impls s1 p)"
    "set ks \<subseteq> {..<MAX_NUM_KERNELS}" "template_mem s1 n = t"
    using Cons.prems by (simp_all add: s1_def)
  obtain r m' where r: "fill_implicit_args ke p n cap ks s1 =
       Some (s1\<lparr>region_mem := r, template_mem := (template_mem s1)(n := m')\<rparr>)"
    and m': "\<forall>k. if k \<in> set ks then implicit_at ke m' (k * unat sz + (unat sz - 80))
          else read_bytes m' (k * unat sz + (unat sz - 80)) 80 =
            read_bytes t (k * unat sz + (unat sz - 80)) 80"
    using Cons.IH [OF p1(1-3)] unfolding p1(4) by blast
  have "if j \<in> set (k # ks) then implicit_at ke m' (j * unat sz + (unat sz - 80))
      else read_bytes m' (j * unat sz + (unat sz - 80)) 80 =
        read_bytes (template_mem s n) (j * unat sz + (unat sz - 80)) 80" for j
    using m' [rule_format, of j] other [of j] tk implicit_at_cong by (auto split: if_splits)
  moreover have "s1\<lparr>region_mem := r, template_mem := (template_mem s1)(n := m')\<rparr> =
      s\<lparr>region_mem := r, template_mem := (template_mem s)(n := m')\<rparr>"
    by (simp add: s1_def)
  ultimately show ?case unfolding step r by blast
next
  case Nil
  have "s\<lparr>region_mem := region_mem s, template_mem := (template_mem s)(n := template_mem s n)\<rparr> = s"
    by simp
  then show ?case by (metis empty_iff fill_implicit_args.simps(1) list.set(1))
qed


definition template_ok :: "atl_kernel_enqueue_args_t \<Rightarrow> nat \<Rightarrow> nat \<Rightarrow> rt_state \<Rightarrow> bool" where
  "template_ok ke n sz s \<longleftrightarrow>
     (\<forall>k < MAX_NUM_KERNELS. implicit_at ke (template_mem s n) (k * sz + (sz - 80)))"

text \<open>The GPU implementations among some have regions with segments of a given size.\<close>

definition gpu_segments :: "u32 \<Rightarrow> rt_state \<Rightarrow> impl_ptr list \<Rightarrow> bool" where
  "gpu_segments sz s ps \<longleftrightarrow> segment_ok sz \<and> (\<forall>p \<in> set ps. ki_devtype (impls s p) = ATMI_DEVTYPE_GPU \<longrightarrow>
     kernarg_segment_size (impls s p) = sz \<and> has_kernarg_region (impls s p))"

lemma fill_template_result:
  assumes "gpu_segments sz s ps" "kt_capacity tpl = unat sz * MAX_NUM_KERNELS"
    and "template_ok ke n (unat sz) s \<or> (\<exists>p \<in> set ps. ki_devtype (impls s p) = ATMI_DEVTYPE_GPU)"
  shows "\<exists>tpl' s'. fill_template ke k_id n i ps tpl s = Some (tpl', s') \<and>
    kt_capacity tpl' = kt_capacity tpl \<and> kt_segment_size tpl' = kt_segment_size tpl \<and>
    kt_next tpl' = kt_next tpl \<and> template_ok ke n (unat sz) s'"
  using assms
proof (induction ps arbitrary: i tpl s)
  case (Cons p ps)
  show ?case
  proof (cases "ki_devtype (impls s p) = ATMI_DEVTYPE_GPU")
    case True
    then have p: "segment_ok sz" "kernarg_segment_size (impls s p) = sz" "has_kernarg_region (impls s p)"
      using Cons.prems(1) by (simp_all add: gpu_segments_def)
    have "set [0..<MAX_NUM_KERNELS] \<subseteq> {..<MAX_NUM_KERNELS}" by auto
    from fill_implicit_args_result [OF p Cons.prems(2) this, of ke n]
    obtain r m where f: "fill_implicit_args ke p n (kt_capacity tpl) [0..<MAX_NUM_KERNELS] s =
        Some (s\<lparr>region_mem := r, template_mem := (template_mem s)(n := m)\<rparr>)"
      and m: "\<forall>k. if k \<in> set [0..<MAX_NUM_KERNELS] then implicit_at ke m (k * unat sz + (unat sz - 80))
          else read_bytes m (k * unat sz + (unat sz - 80)) 80 =
            read_bytes (template_mem s n) (k * unat sz + (unat sz - 80)) 80" by blast
    have "implicit_at ke m (k * unat sz + (unat sz - 80))" if "k < MAX_NUM_KERNELS" for k
      using m [rule_format, of k] that by simp
    note f = f this
    let ?s = "s\<lparr>region_mem := r, template_mem := (template_mem s)(n := m)\<rparr>"
    have "gpu_segments sz ?s ps" "template_ok ke n (unat sz) ?s"
      using Cons.prems(1) f(2) by (simp_all add: gpu_segments_def template_ok_def)
    then show ?thesis
      using Cons.IH [of ?s "tpl\<lparr>kt_kernel_object := kernel_objects (impls s p) 0,
          kt_private_segment_size := private_segment_sizes (impls s p) 0,
          kt_group_segment_size := group_segment_sizes (impls s p) 0\<rparr>" "i + 1"]
        True f(1) Cons.prems(2) by (simp add: Let_def)
  next
    case False
    have g: "gpu_segments sz s ps"
      "template_ok ke n (unat sz) s \<or> (\<exists>p \<in> set ps. ki_devtype (impls s p) = ATMI_DEVTYPE_GPU)"
      using Cons.prems(1, 3) False by (auto simp: gpu_segments_def)
    show ?thesis
      using Cons.IH [OF g(1) _ g(2), of tpl "i + 1"]
        Cons.IH [OF g(1) _ g(2), of "tpl\<lparr>kt_type := of_nat i, kt_kernel := k_id, kt_arg3 := 0\<rparr>" "i + 1"]
        False Cons.prems(2) by (simp add: Let_def)
  qed
qed simp

lemma implicit_at_same:
  "implicit_fields ke = implicit_fields ke' \<Longrightarrow> implicit_at ke m b = implicit_at ke' m b"
  by (simp add: implicit_at_def)

lemma create_template:
  assumes "CreateKernel sizes args (dv_rt d) = Some (ATMI_STATUS_SUCCESS, Some k, s)"
    and "kernels s k = Some krn" "has_gpu_impl V args"
    and "int (ke_kernel_counter (g_ke_args d)) + 1 < max_kernel_types (bt_env (dv_boot d))"
    and "atl_gpu_kernarg_pools (dv_boot d) \<noteq> []"
    and "ke_kernel_counter (g_ke_args d) < length (ke_templates (g_ke_args d))"
    and "gpu_segments sz s (kn_impls krn)" "max_kernarg_segment_size s (kn_impls krn) = ucast sz"
    and "\<exists>p \<in> set (kn_impls krn). ki_devtype (impls s p) = ATMI_DEVTYPE_GPU"
  shows "\<exists>d' tpl. DeviceRuntime_CreateKernel V sizes args d = Some (ATMI_STATUS_SUCCESS, k, d') \<and>
    g_ke_args d' = (g_ke_args d)\<lparr>ke_kernel_counter := ke_kernel_counter (g_ke_args d) + 1,
      ke_templates := (ke_templates (g_ke_args d))[ke_kernel_counter (g_ke_args d) := tpl]\<rparr> \<and>
    kt_segment_size tpl = ucast sz \<and> kt_next tpl = 0 \<and> kt_capacity tpl = unat sz * MAX_NUM_KERNELS \<and>
    template_ok (g_ke_args d') (ke_kernel_counter (g_ke_args d)) (unat sz) (dv_rt d')"
proof -
  let ?ke = "g_ke_args d" let ?n = "ke_kernel_counter ?ke"
  let ?s = "s\<lparr>template_mem := (template_mem s)(?n := stale_bytes V ?n)\<rparr>"
  let ?tpl = "new_template V k (ucast sz) (ke_templates ?ke ! ?n)"
  have cap: "kt_capacity ?tpl = unat sz * MAX_NUM_KERNELS" "kt_segment_size ?tpl = ucast sz"
    "kt_next ?tpl = 0"
    by (simp_all add: new_template_def)
  have "gpu_segments sz ?s (kn_impls krn)"
    "\<exists>p \<in> set (kn_impls krn). ki_devtype (impls ?s p) = ATMI_DEVTYPE_GPU"
    using assms(7, 9) by (simp_all add: gpu_segments_def)
  then obtain tpl s' where f: "fill_template ?ke k ?n 0 (kn_impls krn) ?tpl ?s = Some (tpl, s')"
    "kt_capacity tpl = unat sz * MAX_NUM_KERNELS" "kt_segment_size tpl = ucast sz" "kt_next tpl = 0"
    "template_ok ?ke ?n (unat sz) s'"
    using fill_template_result [of sz ?s "kn_impls krn" ?tpl ?ke ?n k 0] cap by auto
  define ke' where "ke' = ?ke\<lparr>ke_kernel_counter := ?n + 1, ke_templates := (ke_templates ?ke)[?n := tpl]\<rparr>"
  define d' where "d' = upd_dv_rt (\<lambda>_. s') ((upd_dv_rt (\<lambda>_. s) d)\<lparr>g_ke_args := ke'\<rparr>)"
  have "g_ke_args (upd_dv_rt (\<lambda>_. s) d) = ?ke"
    "bt_env (dv_boot (upd_dv_rt (\<lambda>_. s) d)) = bt_env (dv_boot d)"
    "atl_gpu_kernarg_pools (dv_boot (upd_dv_rt (\<lambda>_. s) d)) = atl_gpu_kernarg_pools (dv_boot d)"
    by (simp_all add: upd_dv_rt_def)
  then have "DeviceRuntime_CreateKernel V sizes args d = Some (ATMI_STATUS_SUCCESS, k, d')"
    using assms(1-6, 8) f(1) by (simp add: DeviceRuntime_CreateKernel_def Let_def d'_def ke'_def)
  moreover have "g_ke_args d' = ke'" "dv_rt d' = s'" by (simp_all add: d'_def upd_dv_rt_def)
  moreover have "template_ok ke' ?n (unat sz) s'"
    using f(5) implicit_at_same [of ke' ?ke] by (simp add: template_ok_def implicit_fields_def ke'_def)
  ultimately show ?thesis
    using f(2-4) by (intro exI [of _ d'] exI [of _ tpl]) (simp add: ke'_def)
qed

section \<open>Launches and implicit arguments\<close>

lemma launch_all_implicit:
  assumes "launch_all E p ia ls (ke, s) = Some (ke', s')" and "launches_fit 80 ke ls"
    and "80 \<le> segment_of ke n"
  shows "read_bytes (template_mem s' n) (j * segment_of ke n + (segment_of ke n - 80)) 80 =
    read_bytes (template_mem s n) (j * segment_of ke n + (segment_of ke n - 80)) 80"
  using assms
proof (induction ls arbitrary: ke s)
  case (Cons l ls)
  let ?n = "launch_template l" and ?at = "j * segment_of ke n + (segment_of ke n - 80)"
  from Cons.prems(1, 2) obtain s1 cs where 1: "?n < ke_kernel_counter ke"
    "launch_all E p ia ls (counted ?n ke, s1) = Some (ke', s')" "launches_fit 80 (counted ?n ke) ls"
    "template_mem s1 = (template_mem s)(?n :=
       write_bytes (template_mem s ?n) (next_offset ke ?n) (launch_args l))"
    "hsa_log s1 = hsa_log s @ cs"
    "launch_calls (KTemplate ?n (next_offset ke ?n)) (kd_completion_signal p) cs"
    "length (launch_args l) + 80 \<le> segment_of ke ?n"
    by (rule launch_all_Cons)
  have "read_bytes (template_mem s' n) ?at 80 = read_bytes (template_mem s1 n) ?at 80"
    using Cons.IH [OF 1(2, 3)] Cons.prems(3) by simp
  also have "\<dots> = read_bytes (template_mem s n) ?at 80"
  proof (cases "n = ?n")
    case True
    note nn = True
    let ?i = "kt_next (ke_templates ke ! n)"
    have "next_offset ke n + length (launch_args l) \<le> ?at \<or> ?at + 80 \<le> next_offset ke n"
    proof (cases "j < ?i")
      case True
      then have "Suc j * segment_of ke n \<le> ?i * segment_of ke n" by (intro mult_le_mono1) simp
      moreover have "?at + 80 = Suc j * segment_of ke n" using Cons.prems(3) by simp
      ultimately show ?thesis by (intro disjI2) (simp only: next_offset_def)
    next
      case False
      then have "?i * segment_of ke n \<le> j * segment_of ke n" by (intro mult_le_mono1) simp
      moreover have "length (launch_args l) \<le> segment_of ke n - 80" using 1(7) nn by simp
      ultimately have "next_offset ke n + length (launch_args l) \<le> ?at"
        unfolding next_offset_def by (rule add_mono)
      then show ?thesis ..
    qed
    then show ?thesis using True by (auto simp: 1(4) intro!: read_write_other)
  qed (simp add: 1(4))
  finally show ?case .
qed simp


section \<open>Runs\<close>

text \<open>
  One template with segments of 96 bytes, one GPU queue and two CPU queues; the kernel that
  launches was itself started by the host, with its implicit arguments behind 16 bytes.
\<close>

definition demo_ke :: atl_kernel_enqueue_args_t where
  "demo_ke =
     \<lparr>ke_num_gpu_queues = 1, ke_gpu_queues = [20], gpu_queue_ptr = 0x1000,
      ke_num_cpu_queues = 2, ke_cpu_queues = [40, 41], cpu_queue_ptr = 0x2000,
      ke_worker_signals = [7, 8], cpu_worker_signals = 0x3000, ke_kernel_counter = 1,
      ke_templates = [\<lparr>kt_kernel_handle = 1, kt_kernel_object = 0x77, kt_private_segment_size = 0,
        kt_group_segment_size = 0, kt_type = 0, kt_kernel = 1, kt_arg3 = 0, kt_segment_size = 96, kt_next = 0,
        kt_capacity = 96 * MAX_NUM_KERNELS\<rparr>],
      kernarg_template_ptr = 0x4000\<rparr>"

definition demo_parent :: kernel_dispatch_packet where
  "demo_parent =
     \<lparr>kd_header = 0, kd_setup = 1, kd_workgroup_size = (1, 1, 1), kd_grid_size = (1, 1, 1),
      kd_private_segment_size = 0, kd_group_segment_size = 0, kd_kernel_object = 0x66,
      kd_kernarg_address = KSegment 0 0, kd_reserved2 = 5, kd_completion_signal = 100\<rparr>"

definition demo_dev_rt :: rt_state where
  "demo_dev_rt = (rt_start ATL_SYNC_CALLBACK no_machine [])
     \<lparr>region_mem := (\<lambda>_. write_fields 16 (implicit_fields demo_ke) (\<lambda>_. 0))\<rparr>"

definition demo_device_lparm :: "atmi_devtype_t \<Rightarrow> atmi_lparm_t" where
  "demo_device_lparm ty = (demo_lparm 0 False False [] [])\<lparr>lp_place := ATMI_DEFAULT_PLACE\<lparr>pl_type := ty\<rparr>\<rparr>"

definition demo_launches :: "launch list" where
  "demo_launches = [(0, demo_device_lparm ATMI_DEVTYPE_GPU, 0, [1, 2, 3]),
     (1, demo_device_lparm ATMI_DEVTYPE_CPU, 0, [4, 5])]"

lemma implicit_ptrs:
  assumes "implicit_at ke m base"
  shows "from_le (read_bytes m (base + 72) 8) = kernarg_template_ptr ke"
    "from_le (read_bytes m (base + 64) 8) = cpu_queue_ptr ke"
    "from_le (read_bytes m (base + 56) 8) = cpu_worker_signals ke"
    "from_le (read_bytes m (base + 40) 8) = gpu_queue_ptr ke"
  using assms by (simp_all add: implicit_at_def implicit_fields_def del: le_bytes.simps)

lemma demo_implicit:
  assumes "region_mem s = region_mem demo_dev_rt"
  shows "implicit_ptr s demo_parent 16 72 = Some 0x4000" "implicit_ptr s demo_parent 16 64 = Some 0x2000"
    "implicit_ptr s demo_parent 16 56 = Some 0x3000" "implicit_ptr s demo_parent 16 40 = Some 0x1000"
proof -
  have "implicit_at demo_ke (region_mem s 0) 16" using assms by (simp add: demo_dev_rt_def write_fields_at)
  note i = implicit_ptrs [OF this]
  show "implicit_ptr s demo_parent 16 72 = Some 0x4000" "implicit_ptr s demo_parent 16 64 = Some 0x2000"
    "implicit_ptr s demo_parent 16 56 = Some 0x3000" "implicit_ptr s demo_parent 16 40 = Some 0x1000"
    using i by (simp_all add: implicit_ptr_def kmem_read_def demo_parent_def demo_ke_def)
qed

lemma dispatch_region [simp]:
  "region_mem (kernel_dispatch E p lp q a tpl s) = region_mem s"
  "region_mem (agent_dispatch E p q a tpl w s) = region_mem s"
  by (simp_all add: kernel_dispatch_def agent_dispatch_def Let_def log_call_def)

lemma demo_launches_run:
  "launch_all demo_env demo_parent 16 demo_launches (demo_ke, demo_dev_rt) \<noteq> None"
  by (simp add: demo_launches_def atmid_task_launch_def demo_implicit deref_def take_segment_def
      Let_def kmem_write_def demo_ke_def demo_device_lparm_def ATMI_DEVTYPE_GPU_def
      ATMI_DEVTYPE_iGPU_def ATMI_DEVTYPE_dGPU_def ATMI_DEVTYPE_CPU_def MAX_NUM_KERNELS_def)

lemma demo_ke_wf: "ke_wf demo_ke"
  by (simp add: ke_wf_def demo_ke_def segment_of_def)

lemma demo_launches_fit: "launches_fit r demo_ke demo_launches \<longleftrightarrow> r \<le> 93"
  by (auto simp: launches_fit_def demo_ke_wf)
     (auto simp: demo_ke_def demo_launches_def on_device_def demo_device_lparm_def segment_of_def)

section \<open>Guarantees\<close>

text \<open>
  C12. A task that a device launches gets its own arguments: after any sequence of launches by a
  running kernel whose arguments fit their segments, the queue of each launch holds a packet for
  it that points to the segment it was given, and that segment still holds the bytes that were
  passed to the launch, whatever was launched after it.
\<close>

theorem launched_tasks_get_arguments:
  assumes "launch_all E p ia ls (ke, s) = Some (ke', s')" and "launches_fit 0 ke ls"
    and "i < length ls" and "ls ! i = (g, lp, n, args)"
  shows "\<exists>c \<in> set (drop (length (hsa_log s)) (hsa_log s')).
    carries (KTemplate n (segment_index ke ls i * segment_of ke n)) (kd_completion_signal p) c \<and>
    kmem_read s' (KTemplate n (segment_index ke ls i * segment_of ke n)) 0 (length args) = Some args"
  using launch_all_packet [OF assms(1-3)] assms(4) by (auto simp: kmem_read_def)

theorem launched_tasks_get_arguments_witness:
  "\<exists>ke' s'. launch_all demo_env demo_parent 16 demo_launches (demo_ke, demo_dev_rt) = Some (ke', s') \<and>
     kmem_read s' (KTemplate 0 0) 0 3 = Some [1, 2, 3] \<and>
     kmem_read s' (KTemplate 0 96) 0 2 = Some [4, 5]"
proof -
  obtain ke' s' where r: "launch_all demo_env demo_parent 16 demo_launches (demo_ke, demo_dev_rt) = Some (ke', s')"
    using demo_launches_run by auto
  have f: "launches_fit 0 demo_ke demo_launches" by (simp add: demo_launches_fit)
  have k: "segment_of demo_ke 0 = 96" "segment_index demo_ke demo_launches 0 = 0"
    "segment_index demo_ke demo_launches 1 = 1" "length demo_launches = 2"
    by (simp_all add: segment_of_def segment_index_def demo_ke_def demo_launches_def)
  have "kmem_read s' (KTemplate 0 0) 0 (length [1 :: u8, 2, 3]) = Some [1, 2, 3]"
    using launched_tasks_get_arguments [OF r f, of 0 0 "demo_device_lparm ATMI_DEVTYPE_GPU" 0 "[1, 2, 3]"] k
    by (auto simp: demo_launches_def)
  moreover have "kmem_read s' (KTemplate 0 96) 0 (length [4 :: u8, 5]) = Some [4, 5]"
    using launched_tasks_get_arguments [OF r f, of 1 1 "demo_device_lparm ATMI_DEVTYPE_CPU" 0 "[4, 5]"] k
    by (auto simp: demo_launches_def)
  moreover have "length [1 :: u8, 2, 3] = 3" "length [4 :: u8, 5] = 2" by simp_all
  ultimately show ?thesis using r by metis
qed

text \<open>
  C13. A kernel is not complete before what it launched: each launch raises the completion signal of
  the running kernel by one before it writes the packet that will count it down, so at every
  moment at most as many counts are announced as were added, and at the end exactly as many.
\<close>

theorem launches_counted_by_parent:
  assumes "launch_all E p ia ls (ke, s) = Some (ke', s')" and "launches_fit 0 ke ls"
  shows "\<exists>cs. hsa_log s' = hsa_log s @ cs \<and> adds (kd_completion_signal p) cs = length ls \<and>
    packets_for (kd_completion_signal p) cs = length ls \<and>
    (\<forall>k. packets_for (kd_completion_signal p) (take k cs) \<le> adds (kd_completion_signal p) (take k cs))"
  by (rule launch_all_balance [OF assms])

theorem launches_counted_by_parent_witness:
  "\<exists>ke' s'. launch_all demo_env demo_parent 16 demo_launches (demo_ke, demo_dev_rt) = Some (ke', s') \<and>
     adds 100 (hsa_log s') = 2 \<and> packets_for 100 (hsa_log s') = 2"
proof -
  obtain ke' s' where r: "launch_all demo_env demo_parent 16 demo_launches (demo_ke, demo_dev_rt) = Some (ke', s')"
    using demo_launches_run by auto
  have f: "launches_fit 0 demo_ke demo_launches" by (simp add: demo_launches_fit)
  have "hsa_log demo_dev_rt = []" by (simp add: demo_dev_rt_def rt_start_def)
  then have "adds 100 (hsa_log s') = 2 \<and> packets_for 100 (hsa_log s') = 2"
    using launches_counted_by_parent [OF r f] by (auto simp: demo_parent_def demo_launches_def)
  then show ?thesis using r by blast
qed

text \<open>
  C15. The region of a template serves exactly \<open>MAX_NUM_KERNELS\<close> launches: for a kernel that the host
  started, a launch on the GPU with arguments that fit a segment goes wrong, by writing behind the
  region, if and only if the segments are used up; nothing gives one back.
\<close>

theorem device_region_room:
  assumes "ke_wf ke" "n < ke_kernel_counter ke" "kt_next (ke_templates ke ! n) < 2 ^ 31"
    and "kd_kernarg_address p = KSegment r off"
    and "implicit_ptr s p ia 72 = Some (kernarg_template_ptr ke)"
    and "implicit_ptr s p ia 40 = Some (gpu_queue_ptr ke)" "ke_gpu_queues ke \<noteq> []"
    and "pl_type (lp_place lp) = ATMI_DEVTYPE_GPU"
    and "args \<noteq> []" "length args \<le> segment_of ke n"
  shows "(atmid_task_launch E p ia g lp n args (ke, s) = None) =
    (MAX_NUM_KERNELS \<le> kt_next (ke_templates ke ! n))"
proof -
  let ?k = "kt_next (ke_templates ke ! n)" and ?z = "segment_of ke n"
  have room: "?z * MAX_NUM_KERNELS < next_offset ke n + length args \<longleftrightarrow> MAX_NUM_KERNELS \<le> ?k"
  proof (cases "MAX_NUM_KERNELS \<le> ?k")
    case True
    then have "MAX_NUM_KERNELS * ?z \<le> ?k * ?z" by (rule mult_le_mono1)
    moreover have "0 < length args" using assms(9) by simp
    ultimately have "?z * MAX_NUM_KERNELS < next_offset ke n + length args"
      unfolding next_offset_def mult.commute [of ?z] by linarith
    then show ?thesis using True by simp
  next
    case False
    then have "Suc ?k * ?z \<le> MAX_NUM_KERNELS * ?z" by (intro mult_le_mono1) simp
    then have "next_offset ke n + length args \<le> ?z * MAX_NUM_KERNELS"
      using assms(10) unfolding next_offset_def mult.commute [of ?z] by simp
    then show ?thesis using False by simp
  qed
  have "ATMI_DEVTYPE_GPU \<noteq> ATMI_DEVTYPE_CPU"
    by (simp add: ATMI_DEVTYPE_GPU_def ATMI_DEVTYPE_iGPU_def ATMI_DEVTYPE_dGPU_def ATMI_DEVTYPE_CPU_def)
  moreover have "kt_capacity (ke_templates ke ! n) = ?z * MAX_NUM_KERNELS" "n < length (ke_templates ke)"
    using assms(1, 2) by (simp_all add: ke_wf_def)
  moreover have "implicit_ptr (s\<lparr>template_mem := m\<rparr>) p ia o' = implicit_ptr s p ia o'" for m o'
    using assms(4) by (simp add: implicit_ptr_def kmem_read_def)
  ultimately show ?thesis
    using assms(2, 4-9) room
    by (auto simp: atmid_task_launch_def deref_def take_segment_def Let_def kmem_write_def
        next_offset_nowrap [OF assms(1-3)] split: if_splits)
qed

theorem device_region_room_witness:
  "atmid_task_launch demo_env demo_parent 16 0 (demo_device_lparm ATMI_DEVTYPE_GPU) 0 [1, 2]
     (demo_ke, demo_dev_rt) \<noteq> None"
proof -
  have i: "implicit_ptr demo_dev_rt demo_parent 16 72 = Some (kernarg_template_ptr demo_ke)"
    "implicit_ptr demo_dev_rt demo_parent 16 40 = Some (gpu_queue_ptr demo_ke)"
    by (simp_all add: demo_implicit) (simp_all add: demo_ke_def)
  have "kt_next (ke_templates demo_ke ! 0) = 0" "0 < ke_kernel_counter demo_ke" "segment_of demo_ke 0 = 96"
    "ke_gpu_queues demo_ke \<noteq> []" "kd_kernarg_address demo_parent = KSegment 0 0"
    by (simp_all add: demo_ke_def segment_of_def demo_parent_def)
  then show ?thesis
    using device_region_room [OF demo_ke_wf _ _ _ i, of 0 0 0 "demo_device_lparm ATMI_DEVTYPE_GPU" "[1, 2]"]
    by (simp add: demo_device_lparm_def MAX_NUM_KERNELS_def)
qed


text \<open>
  C14. What the device finds is what the host prepared: when creating a kernel makes a template for
  it, and its GPU implementations have the largest segments, then after any launches that leave
  the last 80 bytes of their segments alone, a kernel that runs with any segment of the template
  reads the addresses of the template table, of the queues and of the worker signals from its
  implicit arguments, so it can launch in turn.
\<close>

theorem device_kernels_find_runtime:
  assumes "CreateKernel sizes args (dv_rt d) = Some (ATMI_STATUS_SUCCESS, Some k, s)"
    and "kernels s k = Some krn" "has_gpu_impl V args"
    and "int (ke_kernel_counter (g_ke_args d)) + 1 < max_kernel_types (bt_env (dv_boot d))"
    and "atl_gpu_kernarg_pools (dv_boot d) \<noteq> []"
    and "ke_kernel_counter (g_ke_args d) < length (ke_templates (g_ke_args d))"
    and "gpu_segments sz s (kn_impls krn)" "max_kernarg_segment_size s (kn_impls krn) = ucast sz"
    and "\<exists>p \<in> set (kn_impls krn). ki_devtype (impls s p) = ATMI_DEVTYPE_GPU"
    and "DeviceRuntime_CreateKernel V sizes args d = Some (ATMI_STATUS_SUCCESS, k', d')"
    and "launch_all E p ia ls (g_ke_args d', dv_rt d') = Some (ke', s')" "launches_fit 80 (g_ke_args d') ls"
    and "kd_kernarg_address q = KTemplate (ke_kernel_counter (g_ke_args d)) (j * unat sz)"
    and "j < MAX_NUM_KERNELS"
  shows "implicit_ptr s' q (unat sz - 80) 72 = Some (kernarg_template_ptr (g_ke_args d)) \<and>
    implicit_ptr s' q (unat sz - 80) 64 = Some (cpu_queue_ptr (g_ke_args d)) \<and>
    implicit_ptr s' q (unat sz - 80) 56 = Some (cpu_worker_signals (g_ke_args d)) \<and>
    implicit_ptr s' q (unat sz - 80) 40 = Some (gpu_queue_ptr (g_ke_args d))"
proof -
  let ?ke = "g_ke_args d" let ?n = "ke_kernel_counter ?ke" let ?at = "j * unat sz + (unat sz - 80)"
  obtain tpl where d': "g_ke_args d' = ?ke\<lparr>ke_kernel_counter := ?n + 1,
      ke_templates := (ke_templates ?ke)[?n := tpl]\<rparr>" "kt_segment_size tpl = ucast sz"
    "template_ok (g_ke_args d') ?n (unat sz) (dv_rt d')"
    using create_template [OF assms(1-9)] assms(10) by auto
  have sz: "80 \<le> unat sz" using assms(7) by (simp add: gpu_segments_def segment_ok_def)
  have "unat (ucast sz :: u64) = unat sz"
    by (simp add: unsigned_ucast_eq take_bit_nat_eq_self less_trans [OF unsigned_less [of sz]])
  then have seg: "segment_of (g_ke_args d') ?n = unat sz"
    using assms(6) by (simp add: segment_of_def d'(1, 2))
  have "read_bytes (template_mem s' ?n) ?at 80 = read_bytes (template_mem (dv_rt d') ?n) ?at 80"
    using launch_all_implicit [OF assms(11, 12), of ?n j] sz by (simp add: seg)
  then have "implicit_at (g_ke_args d') (template_mem s' ?n) ?at"
    using d'(3) assms(14) implicit_at_cong by (auto simp: template_ok_def)
  from implicit_ptrs [OF this] show ?thesis
    by (simp add: implicit_ptr_def kmem_read_def assms(13) d'(1) add.assoc)
qed

text \<open>
  A kernel \<open>k\<close> with one GPU implementation and one argument of 16 bytes, created on a machine with
  one GPU, whose first template segment runs it and launches it again.
\<close>

definition demo_dev_machine :: ATLMachine where
  "demo_dev_machine = \<lparr>cpu_processors = [], gpu_processors = [new_processor 2 ATMI_DEVTYPE_GPU],
     dsp_processors = []\<rparr>"

definition demo_dev_info :: atl_kernel_info_t where
  "demo_dev_info = \<lparr>kernel_object = 0x77, group_segment_size = 0, private_segment_size = 0,
     kernel_segment_size = 96, ki_num_args = Some 1, ki_arg_alignments = [8], ki_arg_offsets = [0],
     ki_arg_sizes = [16]\<rparr>"

definition demo_dev :: dev_state where
  "demo_dev =
     \<lparr>dv_boot = upd_rt (\<lambda>_. (rt_start ATL_SYNC_CALLBACK demo_dev_machine [[''k'' \<mapsto> demo_dev_info]])
          \<lparr>atmi_initialized := True\<rparr>)
        ((static_start new_Environment None)\<lparr>atl_gpu_kernarg_pools := [1]\<rparr>),
      g_ke_args = demo_ke\<lparr>ke_kernel_counter := 0\<rparr>, g_atmi_devrt_initialized = True, dv_freed = []\<rparr>"

definition demo_dev_env :: dev_env where
  "demo_dev_env =
     \<lparr>block_addr = (\<lambda>_. 0), stale_template = (\<lambda>_. hd (ke_templates demo_ke)),
      stale_bytes = (\<lambda>_ _. 0), name_addr = (\<lambda>_. 0x9000), pool_free_ok = (\<lambda>_. True)\<rparr>"


definition demo_child :: kernel_dispatch_packet where
  "demo_child = demo_parent\<lparr>kd_kernarg_address := KTemplate 0 0\<rparr>"

lemma demo_dev_created:
  obtains s krn where
    "CreateKernel [16] [GPUImpl ''k''] (dv_rt demo_dev) = Some (ATMI_STATUS_SUCCESS, Some 1, s)"
    "kernels s 1 = Some krn" "kn_impls krn = [0]" "kernarg_segment_size (impls s 0) = 96"
    "has_kernarg_region (impls s 0)" "ki_devtype (impls s 0) = ATMI_DEVTYPE_GPU"
  by (simp add: CreateKernel_def CreateEmptyKernel_def AddGPUKernelImpl_def install_impl_def
      new_GPUKernelImpl_def new_KernelImpl_def new_Kernel_def add_impl_def demo_dev_def rt_start_def
      demo_dev_machine_def demo_dev_info_def static_start_def Let_def)

lemma demo_dev_fields:
  "max_kernel_types (bt_env (dv_boot demo_dev)) = 32" "atl_gpu_kernarg_pools (dv_boot demo_dev) \<noteq> []"
  "ke_kernel_counter (g_ke_args demo_dev) = 0" "length (ke_templates (g_ke_args demo_dev)) = 1"
  "has_gpu_impl demo_dev_env [GPUImpl ''k'']" "ke_gpu_queues (g_ke_args demo_dev) = [20]"
  by (simp_all add: demo_dev_def static_start_def new_Environment_def demo_ke_def has_gpu_impl_def
      va_slots_def ATMI_DEVTYPE_GPU_def ATMI_DEVTYPE_iGPU_def ATMI_DEVTYPE_dGPU_def)

theorem device_kernels_find_runtime_witness:
  "\<exists>d' ke' s'. DeviceRuntime_CreateKernel demo_dev_env [16] [GPUImpl ''k''] demo_dev =
       Some (ATMI_STATUS_SUCCESS, 1, d') \<and>
     launch_all demo_env demo_child 16 [(0, demo_device_lparm ATMI_DEVTYPE_GPU, 0, [])]
       (g_ke_args d', dv_rt d') = Some (ke', s') \<and>
     implicit_ptr s' demo_child 16 72 = Some 0x4000 \<and> implicit_ptr s' demo_child 16 40 = Some 0x1000"
proof -
  obtain s krn where c: "CreateKernel [16] [GPUImpl ''k''] (dv_rt demo_dev) =
      Some (ATMI_STATUS_SUCCESS, Some 1, s)"
    "kernels s 1 = Some krn" "kn_impls krn = [0]" "kernarg_segment_size (impls s 0) = 96"
    "has_kernarg_region (impls s 0)" "ki_devtype (impls s 0) = ATMI_DEVTYPE_GPU"
    by (rule demo_dev_created)
  have sz: "gpu_segments 96 s (kn_impls krn)" "max_kernarg_segment_size s (kn_impls krn) = ucast (96 :: u32)"
    "\<exists>p \<in> set (kn_impls krn). ki_devtype (impls s p) = ATMI_DEVTYPE_GPU"
    using c(3-6) by (simp_all add: gpu_segments_def segment_ok_def MAX_NUM_KERNELS_def
        max_kernarg_segment_size_def)
  have h: "int (ke_kernel_counter (g_ke_args demo_dev)) + 1 < max_kernel_types (bt_env (dv_boot demo_dev))"
    "ke_kernel_counter (g_ke_args demo_dev) < length (ke_templates (g_ke_args demo_dev))"
    by (simp_all add: demo_dev_fields)
  note pre = c(1, 2) demo_dev_fields(5) h(1) demo_dev_fields(2) h(2) sz
  obtain d' tpl where d': "DeviceRuntime_CreateKernel demo_dev_env [16] [GPUImpl ''k''] demo_dev =
      Some (ATMI_STATUS_SUCCESS, 1, d')"
    "g_ke_args d' = (g_ke_args demo_dev)\<lparr>ke_kernel_counter := 1, ke_templates := [tpl]\<rparr>"
    "kt_segment_size tpl = 96" "kt_next tpl = 0" "kt_capacity tpl = 96 * MAX_NUM_KERNELS"
    using create_template [OF pre] demo_dev_fields(3, 4) by (auto simp: length_Suc_conv)
  have wf: "ke_wf (g_ke_args d')"
    using d'(2, 3, 5) by (simp add: ke_wf_def segment_of_def)
  have q: "kd_kernarg_address demo_child = KTemplate (ke_kernel_counter (g_ke_args demo_dev)) (0 * unat (96 :: u32))"
    by (simp add: demo_child_def demo_dev_fields)
  have m: "0 < MAX_NUM_KERNELS" by (simp add: MAX_NUM_KERNELS_def)
  have fit: "launches_fit 80 (g_ke_args d') ls"
    if "ls = [] \<or> ls = [(0, demo_device_lparm ATMI_DEVTYPE_GPU, 0, [])]" for ls
    using that wf d'(2-4) by (auto simp: launches_fit_def segment_of_def on_device_def demo_device_lparm_def)
  have a: "kernarg_template_ptr (g_ke_args demo_dev) = 0x4000" "gpu_queue_ptr (g_ke_args demo_dev) = 0x1000"
    by (simp_all add: demo_dev_def demo_ke_def)
  have "launch_all demo_env demo_child 16 [] (g_ke_args d', dv_rt d') = Some (g_ke_args d', dv_rt d')"
    by simp
  from device_kernels_find_runtime [OF pre d'(1) this fit q m]
  have i: "implicit_ptr (dv_rt d') demo_child 16 72 = Some 0x4000"
    "implicit_ptr (dv_rt d') demo_child 16 40 = Some 0x1000" by (simp_all add: a)
  obtain ke' s' where l: "launch_all demo_env demo_child 16
      [(0, demo_device_lparm ATMI_DEVTYPE_GPU, 0, [])] (g_ke_args d', dv_rt d') = Some (ke', s')"
    using i d'(2) a demo_dev_fields(6)
    by (auto simp: atmid_task_launch_def deref_def take_segment_def Let_def demo_device_lparm_def
        ATMI_DEVTYPE_GPU_def ATMI_DEVTYPE_iGPU_def ATMI_DEVTYPE_dGPU_def ATMI_DEVTYPE_CPU_def)
  from device_kernels_find_runtime [OF pre d'(1) l fit q m]
  have "implicit_ptr s' demo_child 16 72 = Some 0x4000 \<and> implicit_ptr s' demo_child 16 40 = Some 0x1000"
    by (simp add: a)
  then show ?thesis using d'(1) l by blast
qed

section \<open>What goes wrong\<close>

text \<open>
  The second pass over the variable arguments takes the function pointer of the first
  implementation for the device type of the second.
\<close>

lemma second_implementation_not_seen:
  "has_gpu_impl V [CPUImpl fp, GPUImpl name] \<longleftrightarrow> (ucast fp :: u32) = ATMI_DEVTYPE_GPU"
  by (simp add: has_gpu_impl_def va_slots_def ATMI_DEVTYPE_GPU_def ATMI_DEVTYPE_iGPU_def
      ATMI_DEVTYPE_dGPU_def ATMI_DEVTYPE_CPU_def)

text \<open>
  With a larger CPU implementation the segments of the template are larger than the steps in which
  the implicit arguments are written: those of segment 1 are in its segment 0.
\<close>

lemma implicit_args_in_wrong_segment:
  assumes "kernarg_segment_size (impls s p) = 96" "kernarg_segment_size (impls s q) = 200"
  shows "max_kernarg_segment_size s [p, q] = 200 \<and> implicit_offset 1 96 = Some 112 \<and> (112 :: nat) + 80 < 1 * 200"
  using assms by (simp add: max_kernarg_segment_size_def implicit_offset_def Let_def
      sizeof_atmi_implicit_args_def)

text \<open>Every second work item uses the second CPU queue, which need not be there.\<close>

lemma one_cpu_queue_not_enough:
  assumes "length (ke_cpu_queues ke) = 1" "pl_type (lp_place lp) = ATMI_DEVTYPE_CPU" "odd g"
  shows "atmid_task_launch E p ia g lp n args (ke, s) = None"
proof -
  have "deref ptr a (ke_cpu_queues ke) (g mod 2) = None" for ptr a
    using assms(1, 3) by (simp add: deref_def odd_iff_mod_2_eq_one)
  then show ?thesis
    using assms(2) by (auto simp: atmid_task_launch_def Let_def bind_eq_None_conv)
qed

end
