(* ===== verification/Interop.thy ===== *)
theory Interop
  imports Device_Launch
begin

text \<open>
  The outer layer: the C functions of \<open>core/atmi.cpp\<close> that choose between the runtime and the
  device runtime, the queries of \<open>interop/hsa/atmi_interop_hsa.cpp\<close>, and the places of queues in
  \<open>core/queue.cpp\<close>.
\<close>

section \<open>C functions\<close>

text \<open>\<open>devrt\<close> says whether the library was built with the device runtime.\<close>

definition atmi_init ::
  "bool \<Rightarrow> dev_env \<Rightarrow> boot_env \<Rightarrow> atmi_devtype_t \<Rightarrow> dev_state \<Rightarrow> (atmi_status_t \<times> dev_state) option" where
  "atmi_init devrt V B devtype d =
     (if devrt then DeviceRuntime_Initialize V B devtype d
      else map_option (\<lambda>(st, b). (st, d\<lparr>dv_boot := b\<rparr>)) (Initialize B devtype (dv_boot d)))"

definition atmi_finalize :: "bool \<Rightarrow> dev_env \<Rightarrow> dev_state \<Rightarrow> (atmi_status_t \<times> dev_state) option" where
  "atmi_finalize devrt V d =
     (if devrt then DeviceRuntime_Finalize V d
      else map_option (\<lambda>(st, b). (st, d\<lparr>dv_boot := b\<rparr>)) (Finalize (dv_boot d)))"

definition atmi_machine_get_info :: "dev_state \<Rightarrow> atmi_machine_t option" where
  "atmi_machine_get_info d = GetMachineInfo (dv_boot d)"

definition atmi_kernel_create ::
  "bool \<Rightarrow> dev_env \<Rightarrow> u64 list \<Rightarrow> impl_arg list \<Rightarrow> dev_state \<Rightarrow>
   (atmi_status_t \<times> u64 option \<times> dev_state) option" where
  "atmi_kernel_create devrt V sizes args d =
     (if devrt then map_option (\<lambda>(st, k, d). (st, Some k, d)) (DeviceRuntime_CreateKernel V sizes args d)
      else map_option (\<lambda>(st, k, s). (st, k, upd_dv_rt (\<lambda>_. s) d)) (CreateKernel sizes args (dv_rt d)))"

definition atmi_kernel_release :: "bool \<Rightarrow> u64 \<Rightarrow> dev_state \<Rightarrow> tid list \<times> dev_state" where
  "atmi_kernel_release devrt k_id d =
     (if devrt then DeviceRuntime_ReleaseKernel k_id d
      else let (waits, s) = ReleaseKernel k_id (dv_rt d) in (waits, upd_dv_rt (\<lambda>_. s) d))"

section \<open>Queries for users of HSA\<close>

text \<open>
  A pointer argument is null or not; the second component of a result is what is written through
  the pointers.
\<close>

definition atmi_interop_hsa_get_agent ::
  "boot \<Rightarrow> atmi_place_t \<Rightarrow> bool \<Rightarrow> (atmi_status_t \<times> u64 option) option" where
  "atmi_interop_hsa_get_agent b proc agent_ptr =
     (if \<not> atmi_initialized (bt_rt b) then Some (ATMI_STATUS_ERROR, None)
      else if \<not> agent_ptr then Some (ATMI_STATUS_ERROR, None)
      else map_option (\<lambda>a. (ATMI_STATUS_SUCCESS, Some a)) (get_compute_agent (machine (bt_rt b)) proc))"

definition atmi_interop_hsa_get_memory_pool ::
  "boot \<Rightarrow> atmi_mem_place_t \<Rightarrow> bool \<Rightarrow> (atmi_status_t \<times> u64 option) option" where
  "atmi_interop_hsa_get_memory_pool b memory pool_ptr =
     (if \<not> atmi_initialized (bt_rt b) then Some (ATMI_STATUS_ERROR, None)
      else if \<not> pool_ptr then Some (ATMI_STATUS_ERROR, None)
      else map_option (\<lambda>p. (ATMI_STATUS_SUCCESS, Some p))
             (get_memory_pool_by_mem_place (machine (bt_rt b)) memory))"

text \<open>
  The check of a place. \<open>device_count_by_type\<close> has \<open>ATMI_DEVTYPE_ALL\<close> elements; the type of the
  place is its index.
\<close>

definition place_in_range :: "atmi_machine_t \<Rightarrow> atmi_mem_place_t \<Rightarrow> bool option" where
  "place_in_range mc place =
     (if dev_id place < 0 then Some False
      else if ATMI_DEVTYPE_ALL \<le> dev_type place then None
      else Some (dev_id place < int (device_count_by_type mc (dev_type place))))"

definition atmi_interop_hsa_get_symbol_info ::
  "boot \<Rightarrow> atmi_mem_place_t \<Rightarrow> string option \<Rightarrow> bool \<Rightarrow> bool \<Rightarrow>
   (atmi_status_t \<times> (u64 \<times> u32) option) option" where
  "atmi_interop_hsa_get_symbol_info b place symbol var_addr var_size =
     (if \<not> atmi_initialized (bt_rt b) then Some (ATMI_STATUS_ERROR, None)
      else case (symbol, GetMachineInfo b) of
        (Some symbolStr, Some mc) \<Rightarrow>
          (if \<not> var_addr \<or> \<not> var_size then Some (ATMI_STATUS_ERROR, None)
           else do {
             ok \<leftarrow> place_in_range mc place;
             if \<not> ok then Some (ATMI_STATUS_ERROR, None)
             else do {
               tbl \<leftarrow> vector_at (SymbolInfoTable (bt_mod b)) (dev_id place);
               Some (case tbl symbolStr of
                   Some (addr, sz) \<Rightarrow> (ATMI_STATUS_SUCCESS, Some (addr, sz))
                 | None \<Rightarrow> (ATMI_STATUS_ERROR, Some (0, 0)))
             }
           })
      | _ \<Rightarrow> Some (ATMI_STATUS_ERROR, None))"

datatype hsa_executable_symbol_info_t =
    KERNEL_GROUP_SEGMENT_SIZE | KERNEL_PRIVATE_SEGMENT_SIZE | KERNEL_KERNARG_SEGMENT_SIZE
  | OTHER_SYMBOL_INFO nat

definition kernel_info_value ::
  "atl_kernel_info_t \<Rightarrow> hsa_executable_symbol_info_t \<Rightarrow> atmi_status_t \<times> u32" where
  "kernel_info_value info requested =
     (case requested of
        KERNEL_GROUP_SEGMENT_SIZE \<Rightarrow> (ATMI_STATUS_SUCCESS, group_segment_size info)
      | KERNEL_PRIVATE_SEGMENT_SIZE \<Rightarrow> (ATMI_STATUS_SUCCESS, private_segment_size info)
      | KERNEL_KERNARG_SEGMENT_SIZE \<Rightarrow>
          (ATMI_STATUS_SUCCESS, ucast (ucast (kernel_segment_size info) - sizeof_atmi_implicit_args :: u64))
      | OTHER_SYMBOL_INFO _ \<Rightarrow> (ATMI_STATUS_ERROR, 0))"

definition atmi_interop_hsa_get_kernel_info ::
  "boot \<Rightarrow> atmi_mem_place_t \<Rightarrow> string option \<Rightarrow> hsa_executable_symbol_info_t \<Rightarrow> bool \<Rightarrow>
   (atmi_status_t \<times> u32 option) option" where
  "atmi_interop_hsa_get_kernel_info b place kernel_name requested value_ptr =
     (if \<not> atmi_initialized (bt_rt b) then Some (ATMI_STATUS_ERROR, None)
      else case (kernel_name, GetMachineInfo b) of
        (Some kernelStr, Some mc) \<Rightarrow>
          (if \<not> value_ptr then Some (ATMI_STATUS_ERROR, None)
           else do {
             ok \<leftarrow> place_in_range mc place;
             if \<not> ok then Some (ATMI_STATUS_ERROR, None)
             else do {
               tbl \<leftarrow> vector_at (KernelInfoTable (bt_rt b)) (dev_id place);
               Some (case tbl kernelStr of
                   Some info \<Rightarrow> (let (st, v) = kernel_info_value info requested in (st, Some v))
                 | None \<Rightarrow> (ATMI_STATUS_ERROR, Some 0))
             }
           })
      | _ \<Rightarrow> Some (ATMI_STATUS_ERROR, None))"

section \<open>Places of queues\<close>

record ATLQueue =
  queue_handle :: qid
  queue_place :: atmi_place_t

definition equalsPlace :: "atmi_place_t \<Rightarrow> atmi_place_t \<Rightarrow> bool" where
  "equalsPlace l r \<longleftrightarrow> node_id l = node_id r \<and> pl_type l = pl_type r \<and>
     device_id l = device_id r \<and> cu_mask l = cu_mask r"

text \<open>The two words of a mask, as \<open>hsa_amd_queue_cu_set_mask\<close> reads them.\<close>

definition mask_words :: "u64 \<Rightarrow> u32 list" where
  "mask_words m = [ucast m, ucast (drop_bit 32 m)]"

text \<open>The call of HSA that is made, if any; its status is the result.\<close>

definition ATLGPUQueue_set_place ::
  "(qid \<Rightarrow> u32 list \<Rightarrow> 'status) \<Rightarrow> 'status \<Rightarrow> atmi_place_t \<Rightarrow> ATLQueue \<Rightarrow>
   'status \<times> (qid \<times> u32 list) option \<times> ATLQueue" where
  "ATLGPUQueue_set_place set_mask success place q =
     (if \<not> equalsPlace (queue_place q) place then
        let q = q\<lparr>queue_place := place\<rparr>; mask = mask_words (cu_mask (queue_place q))
        in (set_mask (queue_handle q) mask, Some (queue_handle q, mask), q)
      else (success, None, q))"

definition ATLCPUQueue_set_place :: "'status \<Rightarrow> atmi_place_t \<Rightarrow> ATLQueue \<Rightarrow> 'status \<times> ATLQueue" where
  "ATLCPUQueue_set_place success place q =
     (if \<not> equalsPlace (queue_place q) place then (success, q\<lparr>queue_place := place\<rparr>) else (success, q))"

lemma equalsPlace_eq: "equalsPlace l r \<longleftrightarrow> l = r"
  by (auto simp: equalsPlace_def)

lemma set_place_place:
  "queue_place (snd (snd (ATLGPUQueue_set_place f ok place q))) = place"
  "queue_place (snd (ATLCPUQueue_set_place ok' place q)) = place"
  by (auto simp: ATLGPUQueue_set_place_def ATLCPUQueue_set_place_def equalsPlace_eq Let_def)

lemma mask_words_exact: "mask_words m = mask_words m' \<longleftrightarrow> m = m'"
proof
  assume e: "mask_words m = mask_words m'"
  show "m = m'"
  proof (rule bit_word_eqI)
    fix n assume n: "n < LENGTH(64)"
    have "bit (ucast m :: u32) n = bit (ucast m' :: u32) n"
      and "bit (ucast (drop_bit 32 m) :: u32) (n - 32) = bit (ucast (drop_bit 32 m') :: u32) (n - 32)"
      using e by (simp_all add: mask_words_def)
    with n show "bit m n = bit m' n"
      by (cases "n < 32") (auto simp: bit_simps)
  qed
qed simp

section \<open>What the queries return\<close>

lemma symbol_entered:
  assumes "populate_InfoTables gpu sy m = Some m'"
  shows "(\<exists>name addr sz. sy = VariableSymbol name addr sz \<and> gpu < length (SymbolInfoTable m) \<and>
      (SymbolInfoTable m ! gpu) name = None \<and> SymbolInfoTable m' = (SymbolInfoTable m)
        [gpu := (SymbolInfoTable m ! gpu)(name \<mapsto> (addr, sz))]) \<or>
    (\<forall>name addr sz. sy \<noteq> VariableSymbol name addr sz) \<and> SymbolInfoTable m' = SymbolInfoTable m"
proof (cases sy)
  case (KernelSymbol name obj grp priv)
  with assms obtain kn info where "set_info gpu kn info m = Some m'"
    by (auto simp: bind_eq_Some_conv)
  then have "SymbolInfoTable m' = SymbolInfoTable m"
    by (auto simp: set_info_def Let_def split: if_splits)
  with KernelSymbol show ?thesis by simp
next
  case (VariableSymbol name addr sz)
  with assms have "gpu < length (SymbolInfoTable m)" "(SymbolInfoTable m ! gpu) name = None"
    by (cases "(SymbolInfoTable m ! gpu) name"; simp split: if_splits)+
  with assms VariableSymbol show ?thesis by auto
next
  case (IndirectSymbol name)
  with assms show ?thesis by simp
qed

lemma symbols_entered:
  assumes "iterate_symbols gpu syms m = Some m'"
  shows "length (SymbolInfoTable m') = length (SymbolInfoTable m) \<and>
    ((SymbolInfoTable m ! gpu) name = Some e \<longrightarrow> (SymbolInfoTable m' ! gpu) name = Some e) \<and>
    (VariableSymbol name addr sz \<in> set syms \<longrightarrow>
      gpu < length (SymbolInfoTable m) \<and> (SymbolInfoTable m' ! gpu) name = Some (addr, sz))"
  using assms
proof (induction syms arbitrary: m e)
  case (Cons sy syms)
  then obtain m1 where 1: "populate_InfoTables gpu sy m = Some m1"
    and 2: "iterate_symbols gpu syms m1 = Some m'"
    by (auto simp: bind_eq_Some_conv)
  note ih = Cons.IH [OF 2, of e] Cons.IH [OF 2, of "(addr, sz)"]
  from symbol_entered [OF 1] show ?case
  proof (elim disjE exE conjE)
    fix n a z
    assume v: "sy = VariableSymbol n a z" "gpu < length (SymbolInfoTable m)"
      "(SymbolInfoTable m ! gpu) n = None"
      "SymbolInfoTable m1 = (SymbolInfoTable m)[gpu := (SymbolInfoTable m ! gpu)(n \<mapsto> (a, z))]"
    then have "SymbolInfoTable m1 ! gpu = (SymbolInfoTable m ! gpu)(n \<mapsto> (a, z))"
      "length (SymbolInfoTable m1) = length (SymbolInfoTable m)" by simp_all
    with ih v(1-3) show ?thesis by (auto split: if_splits)
  next
    assume "\<forall>name addr sz. sy \<noteq> VariableSymbol name addr sz" "SymbolInfoTable m1 = SymbolInfoTable m"
    with ih show ?thesis by auto
  qed
qed simp

lemma gpu_place_in_range:
  "place_in_range mc (gpu_mem_place n) = Some (n < device_count_by_type mc ATMI_DEVTYPE_GPU)"
proof -
  have "\<not> ATMI_DEVTYPE_ALL \<le> ATMI_DEVTYPE_GPU" by code_simp
  then show ?thesis by (simp add: place_in_range_def gpu_mem_place_def)
qed

lemma cpu_place_in_range:
  assumes "dev_type place = ATMI_DEVTYPE_CPU" "dev_id place = int n"
  shows "place_in_range mc place = Some (n < device_count_by_type mc ATMI_DEVTYPE_CPU)"
proof -
  have "\<not> ATMI_DEVTYPE_ALL \<le> ATMI_DEVTYPE_CPU" by code_simp
  with assms show ?thesis by (simp add: place_in_range_def)
qed

text \<open>
  C37. A global variable of a loaded code object is found: after the symbols of an executable were
  entered for a GPU, the query for a variable of it at that GPU returns the address and the size
  that HSA reported, whatever else the executable and earlier ones hold.
\<close>

theorem variables_found:
  assumes "iterate_symbols gpu syms m = Some m'" and "VariableSymbol name addr sz \<in> set syms"
    and "bt_mod b = m'" "atmi_initialized (ms_rt m')" "GetMachineInfo b = Some mc"
    and "gpu < device_count_by_type mc ATMI_DEVTYPE_GPU"
  shows "atmi_interop_hsa_get_symbol_info b (gpu_mem_place gpu) (Some name) True True =
    Some (ATMI_STATUS_SUCCESS, Some (addr, sz))"
proof -
  have e: "gpu < length (SymbolInfoTable m')" "(SymbolInfoTable m' ! gpu) name = Some (addr, sz)"
    using symbols_entered [OF assms(1), of name "(addr, sz)" addr sz] assms(2) by auto
  then have "vector_at (SymbolInfoTable m') (dev_id (gpu_mem_place gpu)) = Some (SymbolInfoTable m' ! gpu)"
    by (simp add: gpu_mem_place_def vector_at_def)
  with e assms(3-6) show ?thesis
    by (simp add: atmi_interop_hsa_get_symbol_info_def gpu_place_in_range)
qed

definition demo_symbols :: module_state where
  "demo_symbols = demo_module_state\<lparr>ms_rt := (ms_rt demo_module_state)\<lparr>atmi_initialized := True\<rparr>\<rparr>"

definition demo_query :: "module_state \<Rightarrow> boot" where
  "demo_query m = (static_start new_Environment None)\<lparr>bt_mod := m, g_hsa_initialized := True,
     g_atmi_machine := \<lparr>device_count_by_type = (\<lambda>_. 0)(ATMI_DEVTYPE_GPU := 1),
       devices_by_type = Map.empty, all_devices = []\<rparr>\<rparr>"

theorem variables_found_witness:
  "\<exists>m. iterate_symbols 0 [VariableSymbol ''n'' 4096 8, VariableSymbol ''v'' 8192 4] demo_symbols = Some m \<and>
     atmi_interop_hsa_get_symbol_info (demo_query m) (gpu_mem_place 0) (Some ''n'') True True =
       Some (ATMI_STATUS_SUCCESS, Some (4096, 8))"
proof -
  obtain m where m: "iterate_symbols 0 [VariableSymbol ''n'' 4096 8, VariableSymbol ''v'' 8192 4] demo_symbols = Some m"
    "atmi_initialized (ms_rt m)"
    by (simp add: demo_symbols_def demo_module_state_def)
  have "GetMachineInfo (demo_query m) = Some (g_atmi_machine (demo_query m))" "bt_mod (demo_query m) = m"
    "0 < device_count_by_type (g_atmi_machine (demo_query m)) ATMI_DEVTYPE_GPU"
    by (simp_all add: GetMachineInfo_def demo_query_def)
  then show ?thesis
    using variables_found [OF m(1), of "''n''" 4096 8 "demo_query m"] m by simp
qed

text \<open>A query with the place of a CPU answers with what is loaded on the GPU of the same number.\<close>

lemma cpu_place_reads_gpu_table:
  assumes "atmi_initialized (bt_rt b)" "GetMachineInfo b = Some mc"
    and "n < device_count_by_type mc ATMI_DEVTYPE_CPU" "n < device_count_by_type mc ATMI_DEVTYPE_GPU"
    and p: "dev_type place = ATMI_DEVTYPE_CPU" "dev_id place = int n"
  shows "atmi_interop_hsa_get_symbol_info b place (Some name) True True =
    atmi_interop_hsa_get_symbol_info b (gpu_mem_place n) (Some name) True True"
  using assms by (simp add: atmi_interop_hsa_get_symbol_info_def gpu_place_in_range
      cpu_place_in_range [OF p]) (simp add: gpu_mem_place_def)

text \<open>With more CPUs than GPUs, the table is read past its end.\<close>

lemma cpu_place_past_table:
  assumes "atmi_initialized (bt_rt b)" "GetMachineInfo b = Some mc"
    and "n < device_count_by_type mc ATMI_DEVTYPE_CPU" "length (SymbolInfoTable (bt_mod b)) \<le> n"
    and p: "dev_type place = ATMI_DEVTYPE_CPU" "dev_id place = int n"
  shows "atmi_interop_hsa_get_symbol_info b place (Some name) True True = None"
  using assms by (simp add: atmi_interop_hsa_get_symbol_info_def cpu_place_in_range [OF p] vector_at_def)

text \<open>A segment without implicit arguments is reported with almost \<open>2 ^ 32\<close> bytes.\<close>

lemma small_segment_size_wraps:
  "kernel_segment_size info = 16 \<Longrightarrow>
     kernel_info_value info KERNEL_KERNARG_SEGMENT_SIZE = (ATMI_STATUS_SUCCESS, 2 ^ 32 - 64)"
  by (simp add: kernel_info_value_def sizeof_atmi_implicit_args_def)

end
