(* ===== verification/Pif_Text.thy ===== *)
theory Pif_Text
  imports Kernel_API
begin

text \<open>
  The C text that the compiler plugin writes: the string templates of
  \<open>compiler/atl_pifgen_plugin.c\<close>. A template is the list of its lines; the arguments of the format
  are spliced in.
\<close>

definition cat_lines :: "string list \<Rightarrow> string" where
  "cat_lines ls = concat (map (\<lambda>l. l @ [CHR 0x0A]) ls)"

section \<open>The start of the output\<close>

definition write_headers :: "string" where
  \<open>write_headers =
     cat_lines
      [''#include "atmi.h"'',
       ''#include "atmi_runtime.h"'',
       ''#include <stdio.h>'',
       ''#include "atmi_kl.h"'',
       '''']\<close>

definition write_cpp_warning_header :: "string" where
  \<open>write_cpp_warning_header =
     cat_lines
      [''#ifdef __cplusplus '',
       ''#define _CPPSTRING_ "C" '',
       ''#endif '',
       ''#ifndef __cplusplus '',
       ''#define _CPPSTRING_ '',
       ''#endif '',
       '''']\<close>

definition write_globals :: "string \<Rightarrow> string" where
  \<open>write_globals main_name =
     cat_lines
      [''static int g_initialized = 0;'',
       '''',
       ''atmi_klist_t *atmi_klist;'',
       ''#define ErrorCheck(msg, status) '' @ [CHR 0x5C],
       ''if (status != ATMI_STATUS_SUCCESS) { '' @ [CHR 0x5C],
       ''   printf("%s failed.'' @ [CHR 0x5C] @ ''n", #msg); '' @ [CHR 0x5C],
       ''} '',
       '''',
       ''extern _CPPSTRING_ void atl_kl_init(atmi_klist_t *atmi_klist, atmi_kernel_t kernel, const int pif_id); '',
       ''void kl_init(); '',
       ''''] @
      cat_lines
      [''typedef struct '' @ main_name @ ''_kernel_table_s { '',
       ''    atmi_devtype_t devtype; '',
       ''    atmi_generic_fp cpu_kernel; '',
       ''    const char *gpu_kernel; '',
       ''} '' @ main_name @ ''_kernel_table_t; '']\<close>

section \<open>The definition of a PIF\<close>

definition pif_head :: "string \<Rightarrow> string \<Rightarrow> nat \<Rightarrow> string" where
  \<open>pif_head pif_name pif_decl num_params =
     cat_lines
      ['''',
       ''static int '' @ pif_name @ ''_FK = 0;''] @
      cat_lines
      ['''',
       ''static atmi_kernel_t '' @ pif_name @ ''_kernel;''] @
      cat_lines
      [''extern _CPPSTRING_ '' @ pif_decl @ '' { ''] @
      cat_lines
      [''    /* launcher code (PIF definition) */''] @
      cat_lines
      [''    const int num_args = '' @ nat_string num_params @ ''; ''] @
      cat_lines
      [''    int k_id = lparm->kernel_id; '',
       ''    if(k_id < 0 || k_id >= sizeof('' @ pif_name @ ''_fn_table)/sizeof('' @ pif_name @ ''_fn_table[0])) { '',
       ''        fprintf(stderr, "Kernel_id out of bounds for PIF '' @ pif_name @ ''.'' @ [CHR 0x5C] @ ''n"); '',
       ''        atmi_task_handle_t null_task = 0; '',
       ''        return null_task; '',
       ''    } '',
       ''    atmi_devtype_t devtype = '' @ pif_name @ ''_fn_table[k_id].devtype; '',
       ''    if(g_initialized == 0) {'']\<close>

definition module_entry :: "nat \<Rightarrow> string \<Rightarrow> string" where
  \<open>module_entry idx m =
     cat_lines
      [''        modules['' @ nat_string idx @ ''] = "'' @ m @ ''.hof"; '',
       ''        module_types['' @ nat_string idx @ ''] = AMDGCN; '']\<close>

definition pif_init :: "string list \<Rightarrow> bool \<Rightarrow> string" where
  \<open>pif_init g_cl_modules offline =
     (if g_cl_modules = [] then
      cat_lines
      ['''',
       ''        atmi_status_t err = atmi_init(ATMI_DEVTYPE_CPU);'',
       ''        ErrorCheck(ATMI Initializing, err); '']
     else
      cat_lines
      ['''',
       ''        atmi_status_t err = atmi_init(ATMI_DEVTYPE_ALL);'',
       ''        ErrorCheck(ATMI Initializing, err); ''] @
      (if offline then
      cat_lines
      ['''',
       ''        const char *modules['' @ nat_string (length g_cl_modules) @ ''];'',
       ''        atmi_platform_type_t module_types['' @ nat_string (length g_cl_modules) @ '']; ''] @
      concat (map (\<lambda>(idx, m). module_entry idx m) (enumerate 0 g_cl_modules)) @
      cat_lines
      [''        err = atmi_module_register(modules, module_types, '' @ nat_string (length g_cl_modules) @ '');'',
       ''        ErrorCheck(Building Executable, err); '',
       ''        kl_init(); '']
      else ''''))\<close>

definition arg_size_lines :: "string list \<Rightarrow> string" where
  \<open>arg_size_lines arg_list =
     concat (map (\<lambda>(arg_idx, ty). cat_lines
      [''        arg_sizes['' @ nat_string arg_idx @ ''] = sizeof('' @ ty @ '');'']) (enumerate 0 arg_list))\<close>

definition pif_body :: "string \<Rightarrow> string list \<Rightarrow> string" where
  \<open>pif_body pif_name arg_list =
     cat_lines
      [''        g_initialized = 1;'',
       ''    }''] @
      cat_lines
      [''    if ('' @ pif_name @ ''_FK == 0 ) { '',
       ''        size_t arg_sizes[num_args]; ''] @
      arg_size_lines arg_list @
      cat_lines
      [''        atmi_kernel_create_empty(&'' @ pif_name @ ''_kernel, num_args, arg_sizes); '',
       ''        int num_impls = sizeof('' @ pif_name @ ''_fn_table)/sizeof('' @ pif_name @ ''_fn_table[0]);'',
       ''        int idx; '',
       ''        for(idx = 0; idx < num_impls; idx++) { '',
       ''            if('' @ pif_name @ ''_fn_table[idx].devtype == ATMI_DEVTYPE_GPU) { '',
       ''                atmi_kernel_add_gpu_impl('' @ pif_name @ ''_kernel, '' @ pif_name @ ''_fn_table[idx].gpu_kernel, idx); '',
       ''            }'',
       ''            else if('' @ pif_name @ ''_fn_table[idx].devtype == ATMI_DEVTYPE_CPU) {'',
       ''                atmi_kernel_add_cpu_impl('' @ pif_name @ ''_kernel, (atmi_generic_fp)('' @ pif_name @ ''_fn_table[idx].cpu_kernel), idx);'',
       ''            }'',
       ''        } '',
       ''        '' @ pif_name @ ''_FK = 1; '',
       ''    }''] @
      cat_lines
      [''    void *args[num_args]; ''] @
      concat (map (\<lambda>arg_idx. cat_lines
      [''    args['' @ nat_string arg_idx @ ''] = &var'' @ nat_string arg_idx @ ''; '']) [0..<length arg_list]) @
      cat_lines
      ['''',
       ''    return atmi_task_launch(lparm, '' @ pif_name @ ''_kernel, '',
       ''            args);''] @
      cat_lines
      [''}'',
       '''']\<close>

definition fn_table_head :: "string \<Rightarrow> string \<Rightarrow> string" where
  \<open>fn_table_head main_name pif_name =
     cat_lines
      ['''',
       main_name @ ''_kernel_table_t '' @ pif_name @ ''_fn_table[] = {'']\<close>

definition cpu_row :: "string \<Rightarrow> string" where
  \<open>cpu_row fn_name =
     cat_lines
      [''    {.devtype=ATMI_DEVTYPE_CPU,.cpu_kernel=(atmi_generic_fp)'' @ fn_name @ ''_wrapper,.gpu_kernel=NULL},'']\<close>

definition gpu_row :: "string \<Rightarrow> string" where
  \<open>gpu_row fn_name =
     cat_lines
      [''    {.devtype=ATMI_DEVTYPE_GPU,.cpu_kernel=(atmi_generic_fp)NULL,.gpu_kernel="'' @ fn_name @ ''"},'']\<close>

definition cpu_wrapper :: "string \<Rightarrow> string \<Rightarrow> string \<Rightarrow> nat \<Rightarrow> string" where
  \<open>cpu_wrapper fn_name fn_decl fn_cpu_wrapper_decl num_params =
     cat_lines
      [''extern _CPPSTRING_ '' @ fn_decl] @
      cat_lines
      [''extern _CPPSTRING_ '' @ fn_cpu_wrapper_decl @ '' {''] @
      ''    '' @ fn_name @ ''('' @
      concat (map (\<lambda>arg_idx. ''*var'' @ nat_string arg_idx @ (if arg_idx < num_params - 1 then '', '' else '''')) [0..<num_params]) @
      cat_lines
      ['');'',
       ''}'']\<close>

section \<open>Initialisation of a PIF for device enqueueing\<close>

definition arg_fields :: "string \<Rightarrow> nat \<Rightarrow> string list \<Rightarrow> string" where
  \<open>arg_fields indent first arg_list =
     concat (map (\<lambda>(i, ty). indent @ cat_lines [ty @ '' arg'' @ nat_string i @ '';'']) (enumerate first arg_list))\<close>

definition kl_init_function :: "string \<Rightarrow> nat \<Rightarrow> string list \<Rightarrow> string" where
  \<open>kl_init_function pif_name pif_index arg_list =
     cat_lines
      [''static int '' @ pif_name @ ''_kl_FK = 0;''] @
      cat_lines
      [''extern _CPPSTRING_ void '' @ pif_name @ ''_kl_init() {'',
       ''''] @
      cat_lines
      [''    if('' @ pif_name @ ''_kl_FK == 0) { '',
       ''        '' @ pif_name @ ''_kl_FK = 1; '',
       ''    } '',
       ''    else { '',
       ''        return; '',
       ''    }'',
       ''''] @
      cat_lines
      [''    typedef struct cpu_args_struct_s {''] @
      arg_fields ''        '' 0 arg_list @
      cat_lines
      [''    } cpu_args_struct_t; '',
       ''    void *cpuKernargAddress;'',
       ''    atmi_mem_place_t cpu_place = ATMI_MEM_PLACE_CPU_MEM(0, 0, 0); '',
       ''    atmi_malloc(&cpuKernargAddress, sizeof(cpu_args_struct_t) * MAX_NUM_KERNELS, cpu_place); '',
       ''''] @
      cat_lines
      [''    typedef struct gpu_args_struct_s {'',
       ''        uint64_t arg0; '',
       ''        uint64_t arg1; '',
       ''        uint64_t arg2; '',
       ''        uint64_t arg3; '',
       ''        uint64_t arg4; '',
       ''        uint64_t arg5; ''] @
      arg_fields ''        '' 6 arg_list @
      cat_lines
      [''    } gpu_args_struct_t __attribute__ ((aligned (16))) ;'',
       ''    void *gpuKernargAddress; '',
       ''    atmi_mem_place_t gpu_place = ATMI_MEM_PLACE_CPU_MEM(0, 0, 0); '',
       ''    atmi_malloc(&gpuKernargAddress, sizeof(gpu_args_struct_t) * MAX_NUM_KERNELS, gpu_place); '',
       ''''] @
      cat_lines
      [''    const int num_args = '' @ nat_string (length arg_list) @ ''; '',
       ''    if ('' @ pif_name @ ''_FK == 0 ) { '',
       ''        size_t arg_sizes[num_args]; ''] @
      arg_size_lines arg_list @
      cat_lines
      [''        atmi_kernel_create_empty(&'' @ pif_name @ ''_kernel, num_args, arg_sizes); '',
       ''        int num_impls = sizeof('' @ pif_name @ ''_fn_table)/sizeof('' @ pif_name @ ''_fn_table[0]);'',
       ''        int idx; '',
       ''        for(idx = 0; idx < num_impls; idx++) { '',
       ''            if('' @ pif_name @ ''_fn_table[idx].devtype == ATMI_DEVTYPE_GPU) { '',
       ''                atmi_kernel_add_gpu_impl('' @ pif_name @ ''_kernel, '' @ pif_name @ ''_fn_table[idx].gpu_kernel, idx);'',
       ''            }'',
       ''            else if('' @ pif_name @ ''_fn_table[idx].devtype == ATMI_DEVTYPE_CPU) {'',
       ''                atmi_kernel_add_cpu_impl('' @ pif_name @ ''_kernel, (atmi_generic_fp)('' @ pif_name @ ''_fn_table[idx].cpu_kernel), idx);'',
       ''            }'',
       ''        } '',
       ''        '' @ pif_name @ ''_FK = 1;'',
       ''    }'',
       ''''] @
      cat_lines
      [''    int pif_id = '' @ nat_string pif_index @ '';'',
       ''''] @
      cat_lines
      [''    atmi_klist[pif_id].kernel_packets = NULL; '',
       ''    atmi_klist[pif_id].num_kernel_packets = 0; '',
       ''    atmi_klist[pif_id].cpu_kernarg_heap = cpuKernargAddress; '',
       ''    atmi_klist[pif_id].cpu_kernarg_offset = 0;'',
       ''    atmi_klist[pif_id].gpu_kernarg_heap = gpuKernargAddress; '',
       ''    atmi_klist[pif_id].gpu_kernarg_offset = 0;'',
       ''    atmi_klist[pif_id].kernel_packets_heap; '',
       ''    atmi_mem_place_t packets_place = ATMI_MEM_PLACE_CPU_MEM(0, 0, 0); '',
       ''    atmi_malloc((void **)&(atmi_klist[pif_id].kernel_packets_heap), sizeof(atmi_kernel_packet_t) * MAX_NUM_KERNELS, packets_place); '',
       ''    atmi_klist[pif_id].kernel_packets_offset = 0;'',
       ''''] @
      cat_lines
      [''    atl_kl_init(atmi_klist, '' @ pif_name @ ''_kernel, pif_id);'',
       ''''] @
      cat_lines
      [''}'',
       '''']\<close>

definition kl_init_call :: "string \<Rightarrow> string" where
  \<open>kl_init_call pif_name =
     cat_lines
      [''    '' @ pif_name @ ''_kl_init();'']\<close>

section \<open>Dispatch from device code\<close>

definition write_kernel_dispatch_routine :: "string" where
  \<open>write_kernel_dispatch_routine =
     cat_lines
      [''#include "hsa_cl.h" '',
       ''#include "atmi.h" '',
       ''#include "atmi_kl.h" '',
       '''',
       ''enum queue_type{device_queue = 0, soft_queue}; '',
       '''',
       ''uint64_t get_atmi_context();'',
       '''',
       ''uint16_t create_header(hsa_packet_type_t type, int barrier) {'',
       ''   uint16_t header = type << HSA_PACKET_HEADER_TYPE;'',
       ''   header |= barrier << HSA_PACKET_HEADER_BARRIER;'',
       ''   header |= HSA_FENCE_SCOPE_SYSTEM << HSA_PACKET_HEADER_ACQUIRE_FENCE_SCOPE;'',
       ''   header |= HSA_FENCE_SCOPE_SYSTEM << HSA_PACKET_HEADER_RELEASE_FENCE_SCOPE;'',
       ''   return header;'',
       ''}'',
       ''''] @
      cat_lines
      [''void kernel_dispatch(const atmi_klparm_t *lparm, hsa_kernel_dispatch_packet_t *kernel_packet, const int pif_id) { '',
       '' '',
       ''    atmi_klist_t *atmi_klist = (atmi_klist_t *)get_atmi_context();'',
       ''    //hsa_kernel_dispatch_packet_t *kernel_packet = (hsa_kernel_dispatch_packet_t *)(atmi_klist[pif_id].kernel_packets + k_id); '',
       '' '',
       ''    //int q_offset = hsa_atomic_add_system((__global int *)(&(atmi_klist[pif_id].gpu_queue_offset)), 1); '',
       ''    //hsa_queue_t* this_Q = (hsa_queue_t *)atmi_klist[pif_id].gpu_queues[q_offset % atmi_klist[pif_id].num_gpu_queues]; '',
       ''    hsa_queue_t* this_Q = (hsa_queue_t *)atmi_klist[pif_id].queues[device_queue]; '',
       '' '',
       ''    /* Find the queue index address to write the packet info into.  */ '',
       ''    const uint32_t queueMask = this_Q->size - 1; '',
       ''    uint64_t index = hsa_queue_add_write_index_relaxed(this_Q, 1); '',
       ''    hsa_kernel_dispatch_packet_t *this_aql = &(((hsa_kernel_dispatch_packet_t *)(this_Q->base_address))[index&queueMask]); '',
       '' '',
       '''',
       ''    int ndim = -1;'',
       ''    if(lparm->gridDim[2] > 1)'',
       ''        ndim = 3;'',
       ''    else if(lparm->gridDim[1] > 1)'',
       ''        ndim = 2;'',
       ''    else'',
       ''        ndim = 1;'',
       '''',
       ''    /*  Process lparm values */ '',
       ''    this_aql->setup  |= (uint16_t) ndim << HSA_KERNEL_DISPATCH_PACKET_SETUP_DIMENSIONS; '',
       ''    this_aql->grid_size_x=lparm->gridDim[0]; '',
       ''    this_aql->workgroup_size_x=lparm->groupDim[0]; '',
       ''    if (ndim>1) { '',
       ''        this_aql->grid_size_y=lparm->gridDim[1]; '',
       ''        this_aql->workgroup_size_y=lparm->groupDim[1]; '',
       ''    } else { '',
       ''        this_aql->grid_size_y=1; '',
       ''        this_aql->workgroup_size_y=1; '',
       ''    } '',
       '' '',
       ''    if (ndim>2) { '',
       ''        this_aql->grid_size_z=lparm->gridDim[2]; '',
       ''        this_aql->workgroup_size_z=lparm->groupDim[2]; '',
       ''    } '',
       ''    else '',
       ''    { '',
       ''        this_aql->grid_size_z=1; '',
       ''        this_aql->workgroup_size_z=1; '',
       ''    } '',
       '' '',
       ''    /* thisKernargAddress has already been set up in the beginning of this routine */ '',
       ''    /*  Bind kernel argument buffer to the aql packet.  */ '',
       ''    this_aql->kernarg_address = kernel_packet->kernarg_address; '',
       ''    this_aql->kernel_object = kernel_packet->kernel_object; '',
       ''    this_aql->private_segment_size = kernel_packet->private_segment_size; '',
       ''    this_aql->group_segment_size = kernel_packet->group_segment_size; '',
       ''    this_aql->completion_signal = kernel_packet->completion_signal; '',
       '''',
       ''    hsa_signal_add_relaxed(this_aql->completion_signal, 1); '',
       '' '',
       ''    /*  Prepare and set the packet header */  '',
       ''    /* Only set barrier bit if asynchrnous execution */ '',
       ''    this_aql->header = create_header(HSA_PACKET_TYPE_KERNEL_DISPATCH, ATMI_FALSE); '',
       '' '',
       ''    /* Increment write index and ring doorbell to dispatch the kernel.  */ '',
       ''    hsa_signal_store_relaxed(this_Q->doorbell_signal, atmi_klist[pif_id].gpu_kernarg_offset); '',
       ''    //hsa_signal_add_relaxed(this_Q->doorbell_signal, 1); '',
       ''}'',
       '''',
       ''''] @
      cat_lines
      [''void agent_dispatch(const atmi_klparm_t *lparm, hsa_agent_dispatch_packet_t *kernel_packet, const int pif_id) { '',
       '' '',
       ''    atmi_klist_t *atmi_klist = (atmi_klist_t *)get_atmi_context();'',
       ''    //hsa_agent_dispatch_packet_t *kernel_packet = (hsa_agent_dispatch_packet_t *)(atmi_klist[pif_id].kernel_packets + k_id); '',
       ''    //hsa_agent_dispatch_packet_t *kernel_packet = this_packet; '',
       '' '',
       ''    //int q_offset = hsa_atomic_add_system((__global int *)(&(atmi_klist[pif_id].cpu_queue_offset)), 1); '',
       ''    //hsa_queue_t* this_Q = (hsa_queue_t *)atmi_klist[pif_id].cpu_queues[q_offset % atmi_klist[pif_id].num_cpu_queues]; '',
       ''    hsa_queue_t* this_Q = (hsa_queue_t *)atmi_klist[pif_id].queues[soft_queue]; '',
       ''    hsa_signal_t worker_sig = *((hsa_signal_t *)atmi_klist[pif_id].worker_sig); '',
       '' '',
       ''    /* Find the queue index address to write the packet info into.  */ '',
       ''    const uint32_t queueMask = this_Q->size - 1; '',
       ''    uint64_t index = hsa_queue_add_write_index_relaxed(this_Q, 1); '',
       ''    hsa_agent_dispatch_packet_t *this_aql = '',
       ''        &(((hsa_agent_dispatch_packet_t *)(this_Q->base_address))[index&queueMask]); '',
       ''    '',
       ''    this_aql->type   = kernel_packet->type; '',
       ''    this_aql->arg[0] = kernel_packet->arg[0]; '',
       ''    this_aql->arg[1] = kernel_packet->arg[1]; '',
       ''    this_aql->arg[2] = kernel_packet->arg[2]; '',
       ''    this_aql->arg[3] = kernel_packet->arg[3]; '',
       ''    this_aql->completion_signal = kernel_packet->completion_signal; '',
       '''',
       ''    hsa_signal_add_relaxed(this_aql->completion_signal, 1); '',
       '' '',
       ''    /*  Prepare and set the packet header */  '',
       ''    /* Only set barrier bit if asynchrnous execution */ '',
       ''    this_aql->header = create_header(HSA_PACKET_TYPE_AGENT_DISPATCH, ATMI_FALSE); '',
       '' '',
       ''    /* Increment write index and ring doorbell to dispatch the kernel.  */ '',
       ''    //hsa_signal_store_relaxed(this_Q->doorbell_signal, atmi_klist[pif_id].cpu_kernarg_offset); '',
       ''    hsa_signal_add_relaxed(this_Q->doorbell_signal, 1); '',
       '' '',
       ''    hsa_signal_store_relaxed(worker_sig, 0); '',
       ''}'',
       '''',
       '''']\<close>

definition spawn_head :: "string \<Rightarrow> nat \<Rightarrow> string list \<Rightarrow> string" where
  \<open>spawn_head pif_name pif_index arg_list =
     ''atmi_task_handle_t '' @ pif_name @ ''(atmi_klparm_t *lparm '' @
      concat (map (\<lambda>(arg_idx, ty). '', '' @ ty @ '' var'' @ nat_string arg_idx) (enumerate 0 arg_list)) @
      cat_lines
      ['') {'',
       ''''] @
      cat_lines
      [''    int pif_id = '' @ nat_string pif_index @ '';''] @
      cat_lines
      [''    atmi_klist_t *atmi_klist = (atmi_klist_t *)get_atmi_context();'',
       ''    uint16_t *atmi_packet_header = (uint16_t *)(atmi_klist[pif_id].kernel_packets + lparm->kernel_id);'',
       ''    atmi_task_impl_t **task_ptr = (atmi_task_impl_t **)(atmi_klist->tasks); '',
       ''    int id = 0xFFFFFFFF & lparm->prevTask; '',
       ''    atmi_task_impl_t *task = task_ptr[id]; '',
       ''    if(atmi_packet_header[0] == 0){'',
       ''        hsa_kernel_dispatch_packet_t * kernel_packet = (hsa_kernel_dispatch_packet_t *)(atmi_klist[pif_id].kernel_packets + lparm->kernel_id); '',
       '''']\<close>

definition spawn_gpu :: "string list \<Rightarrow> string" where
  \<open>spawn_gpu arg_list =
     cat_lines
      [''        struct gpu_args_struct {'',
       ''            uint64_t arg0; '',
       ''            uint64_t arg1; '',
       ''            uint64_t arg2; '',
       ''            uint64_t arg3; '',
       ''            uint64_t arg4; '',
       ''            uint64_t arg5; ''] @
      arg_fields ''            '' 6 arg_list @
      cat_lines
      [''        } __attribute__ ((aligned (16))) ;'',
       ''''] @
      cat_lines
      [''        hsa_kernel_dispatch_packet_t this_packet; '',
       ''        this_packet.header = 0;'',
       ''        this_packet.kernel_object = kernel_packet->kernel_object;'',
       ''        this_packet.private_segment_size = kernel_packet->private_segment_size;'',
       ''        this_packet.group_segment_size = kernel_packet->group_segment_size;'',
       ''        int kernarg_offset = hsa_atomic_add_system((__global int *)(&(atmi_klist[pif_id].gpu_kernarg_offset)), 1);'',
       ''        this_packet.kernarg_address =  (void *)((struct gpu_args_struct *)atmi_klist[pif_id].gpu_kernarg_heap + kernarg_offset);'',
       ''        struct gpu_args_struct * gpu_args = (struct gpu_args_struct *)this_packet.kernarg_address; '',
       ''        this_packet.completion_signal = task->signal; '',
       ''''] @
      cat_lines
      [''        gpu_args->arg0=0;'',
       ''        gpu_args->arg1=0;'',
       ''        gpu_args->arg2=0;'',
       ''        gpu_args->arg3=(uint64_t)atmi_klist;'',
       ''        gpu_args->arg4=0;'',
       ''        gpu_args->arg5=0;''] @
      concat (map (\<lambda>arg_idx. cat_lines
      [''        gpu_args->arg'' @ nat_string (arg_idx + 6) @ '' = var'' @ nat_string arg_idx @ '';'']) [0..<length arg_list]) @
      cat_lines
      [''        kernel_dispatch(lparm, &this_packet, pif_id);'',
       ''    }'']\<close>

definition is_pointer :: "string \<Rightarrow> bool" where
  \<open>is_pointer ty =
     (ty \<noteq> '''' \<and> last ty = CHR ''*'')\<close>

definition cpu_arg_field :: "nat \<Rightarrow> string \<Rightarrow> string" where
  \<open>cpu_arg_field arg_idx ty =
     (if is_pointer ty then
      cat_lines
      [''            uint64_t arg'' @ nat_string arg_idx @ '';'']
      else
      cat_lines
      [''            '' @ ty @ '' arg'' @ nat_string arg_idx @ '';''])\<close>

definition cpu_arg_copy :: "nat \<Rightarrow> string \<Rightarrow> string" where
  \<open>cpu_arg_copy arg_idx ty =
     (if is_pointer ty then
      cat_lines
      [''        cpu_args->arg'' @ nat_string arg_idx @ '' = (uint64_t)var'' @ nat_string arg_idx @ '';'']
      else
      cat_lines
      [''        cpu_args->arg'' @ nat_string arg_idx @ '' = var'' @ nat_string arg_idx @ '';''])\<close>

definition spawn_cpu :: "string list \<Rightarrow> string" where
  \<open>spawn_cpu arg_list =
     cat_lines
      [''    else{'',
       ''''] @
      cat_lines
      [''        hsa_agent_dispatch_packet_t * kernel_packet = (hsa_agent_dispatch_packet_t *)(atmi_klist[pif_id].kernel_packets + lparm->kernel_id); '',
       ''''] @
      cat_lines
      [''        struct cpu_args_struct {''] @
      ''            '' @
      concat (map (\<lambda>(arg_idx, ty). cpu_arg_field arg_idx ty) (enumerate 0 arg_list)) @
      cat_lines
      [''        }; '',
       ''''] @
      cat_lines
      [''        int kernarg_offset = hsa_atomic_add_system((__global int *)(&(atmi_klist[pif_id].cpu_kernarg_offset)), 1);'',
       ''        hsa_agent_dispatch_packet_t this_packet; '',
       ''        this_packet.header = 1;'',
       ''        this_packet.type   = kernel_packet->type;'',
       ''        this_packet.arg[0] = (uint64_t)task;'',
       ''        this_packet.arg[1] = (uint64_t)((struct cpu_args_struct *)atmi_klist[pif_id].cpu_kernarg_heap + kernarg_offset);'',
       ''        this_packet.arg[2] = kernel_packet->arg[2]; '',
       ''        this_packet.arg[3] = kernel_packet->arg[3];'',
       ''        struct cpu_args_struct *cpu_args = (struct cpu_args_struct *)(this_packet.arg[1]);''] @
      concat (map (\<lambda>(arg_idx, ty). cpu_arg_copy arg_idx ty) (enumerate 1 (tl arg_list))) @
      cat_lines
      [''        this_packet.completion_signal = task->signal;''] @
      cat_lines
      [''        agent_dispatch(lparm, &this_packet, pif_id);'',
       ''    }'']\<close>

text \<open>The copies of the arguments for the CPU start with the second one.\<close>

definition spawn_function :: "string \<Rightarrow> nat \<Rightarrow> string list \<Rightarrow> string" where
  \<open>spawn_function pif_name pif_index arg_list =
     spawn_head pif_name pif_index arg_list @ spawn_gpu arg_list @ spawn_cpu arg_list @
      cat_lines
      [''    return lparm->prevTask; '',
       ''}'',
       '''']\<close>

definition kid_enum :: "string \<Rightarrow> string \<Rightarrow> string" where
  \<open>kid_enum pif_name enum_kid_text =
     cat_lines
      [''enum '' @ pif_name @ ''_kid_klist{'' @ enum_kid_text @ ''};'']\<close>

definition kl_init_all :: "string \<Rightarrow> string" where
  \<open>kl_init_all kl_init_funs_text =
     cat_lines
      [''void kl_init() {''] @
      cat_lines
      [''    atmi_mem_place_t place = ATMI_MEM_PLACE_CPU_MEM(0, 0, 0); '',
       ''    atmi_malloc((void **)&atmi_klist, (sizeof(atmi_klist_t) * 1000), place);''] @
      kl_init_funs_text @
      cat_lines
      [''}'',
       '''']\<close>

definition carried_headers :: "string \<Rightarrow> string \<Rightarrow> string" where
  \<open>carried_headers main_input headers =
     cat_lines
      [''/*Headers carried over from '' @ main_input @ ''*/'',
       headers]\<close>

end
