(* ===== verification/Pifgen.thy ===== *)
theory Pifgen
  imports Pif_Text
begin

text \<open>
  The compiler plugin, \<open>compiler/atl_pifgen_plugin.c\<close>: for every function with the attribute
  \<open>atmi_kernel\<close> it adds an implementation to the PIF (platform-independent function) that the
  attribute names, and at the end of the compilation it writes the definitions of the PIFs, the
  tables of their implementations and the text for device code. GCC is outside: the types arrive
  as the text that it prints, and what is pushed into the compilation unit is recorded.
\<close>

section \<open>Strings\<close>

fun split_from :: "string \<Rightarrow> string \<Rightarrow> char \<Rightarrow> string list" where
  "split_from item [] delim = (if item = '''' then [] else [item])"
| "split_from item (c # s) delim =
     (if c = delim then item # split_from '''' s delim else split_from (item @ [c]) s delim)"

definition split :: "string \<Rightarrow> char \<Rightarrow> string list" where
  "split s delim = split_from '''' s delim"

definition to_lower :: "char \<Rightarrow> char" where
  "to_lower c = (let n = of_char c :: nat in if 65 \<le> n \<and> n \<le> 90 then char_of (n + 32) else c)"

text \<open>A string in an array of \<open>n\<close> characters.\<close>

definition in_buffer :: "nat \<Rightarrow> string \<Rightarrow> string option" where
  "in_buffer n s = (if length s < n then Some s else None)"

text \<open>A token whose absence the code tests for, and the rest of the string.\<close>

definition token :: "char list \<Rightarrow> string \<Rightarrow> string \<times> string" where
  "token delims s = (case strtok delims s of None \<Rightarrow> ('''', '''') | Some r \<Rightarrow> r)"

section \<open>Declarations from printed types\<close>

text \<open>A parameter that is not there is a null pointer that is appended.\<close>

fun param_decls :: "string \<Rightarrow> nat \<Rightarrow> nat list \<Rightarrow> string \<Rightarrow> string option" where
  "param_decls mark n [] s = Some ''''"
| "param_decls mark n (i # is) s =
     do {
       (pch, s) \<leftarrow> strtok '',)'' s;
       ds \<leftarrow> param_decls mark n is s;
       Some (pch @ mark @ nat_string i @ (if i = n - 1 then '')'' else '','') @ ds)
     }"

definition generate_task_wrapper :: "string \<Rightarrow> string \<Rightarrow> nat \<Rightarrow> string option" where
  "generate_task_wrapper text fn_name num_params =
     do {
       (pch, s) \<leftarrow> strtok ''<'' text;
       let (_, s) = token ''>'' s;
       let (pch2, s) = token ''('' s;
       ds \<leftarrow> param_decls ''* var'' num_params [0..<num_params] s;
       Some (pch @ fn_name @ ''_wrapper'' @ pch2 @ (if num_params = 0 then ''()'' else ''('') @ ds)
     }"

definition generate_task :: "string \<Rightarrow> string \<Rightarrow> nat \<Rightarrow> string option" where
  "generate_task text fn_name num_params =
     do {
       (pch, s) \<leftarrow> strtok ''<'' text;
       let (_, s) = token ''>'' s;
       let (pch2, s) = token ''('' s;
       ds \<leftarrow> param_decls '' var'' num_params [0..<num_params] s;
       Some (pch @ fn_name @ pch2 @ (if num_params = 0 then ''()'' else ''('') @ ds @ '';'')
     }"

definition generate_pif :: "string \<Rightarrow> string \<Rightarrow> nat \<Rightarrow> string option" where
  "generate_pif text fn_name num_params =
     do {
       (_, s) \<leftarrow> strtok ''<'' text;
       let (_, s) = token ''>'' s;
       let (pch2, s) = token ''('' s;
       ds \<leftarrow> param_decls '' var'' num_params [0..<num_params] s;
       Some (''atmi_task_handle_t '' @ fn_name @ pch2 @
         (if num_params = 0 then ''(atmi_lparm_t *lparm)'' else ''(atmi_lparm_t *lparm, '') @ ds)
     }"

definition count_params :: "string \<Rightarrow> nat" where
  "count_params text = length (filter (\<lambda>c. c = CHR '','') text) + 1"

section \<open>The state\<close>

record pif_printers_t =
  pifdefs :: string
  fn_table :: string
  kid_table :: string

text \<open>\<open>pif_table\<close> is a \<open>std::map\<close>, here the list of its entries in the order of their keys.\<close>

record plugin_state =
  main_input_filename :: string
  main_name :: string
  pif_table :: "(string \<times> nat \<times> nat) list"
  pif_printers :: "pif_printers_t list"
  pif_spawn :: string
  kl_init_funs :: string
  g_kerneldecls :: string
  g_all_pifdecls :: "string list"
  g_cl_modules :: "string list"
  g_cl_files :: "string list"
  g_hsa_offline_finalize :: bool
  g_output_pifdefs_filename :: string
  global_ints :: "(string \<times> int) list"
  pushed_decls :: "(string \<times> nat) list"

definition get_pif_index :: "string \<Rightarrow> plugin_state \<Rightarrow> int" where
  "get_pif_index pif_name st =
     (case map_of (pif_table st) pif_name of None \<Rightarrow> -1 | Some (i, _) \<Rightarrow> int i)"

definition get_pif_count :: "string \<Rightarrow> plugin_state \<Rightarrow> int" where
  "get_pif_count pif_name st =
     (case map_of (pif_table st) pif_name of None \<Rightarrow> -1 | Some (_, c) \<Rightarrow> int c)"

text \<open>\<open>std::string\<close> compares by the codes of the characters.\<close>

fun string_less :: "string \<Rightarrow> string \<Rightarrow> bool" where
  "string_less _ [] = False"
| "string_less [] (d # ds) = True"
| "string_less (c # cs) (d # ds) =
     ((of_char c :: nat) < of_char d \<or> c = d \<and> string_less cs ds)"

fun insert_pif :: "string \<Rightarrow> 'a \<Rightarrow> (string \<times> 'a) list \<Rightarrow> (string \<times> 'a) list" where
  "insert_pif k v [] = [(k, v)]"
| "insert_pif k v ((k', v') # es) =
     (if string_less k k' then (k, v) # (k', v') # es else (k', v') # insert_pif k v es)"

definition register_pif :: "string \<Rightarrow> plugin_state \<Rightarrow> plugin_state" where
  "register_pif pif_name st =
     (case map_of (pif_table st) pif_name of
        None \<Rightarrow>
          st\<lparr>pif_table := insert_pif pif_name (length (pif_printers st), 1) (pif_table st),
             pif_printers := pif_printers st @ [\<lparr>pifdefs = '''', fn_table = '''', kid_table = ''''\<rparr>]\<rparr>
      | Some _ \<Rightarrow>
          st\<lparr>pif_table := map (\<lambda>(k, i, c). if k = pif_name then (k, i, c + 1) else (k, i, c))
               (pif_table st)\<rparr>)"

definition push_global_int_decl :: "string \<Rightarrow> int \<Rightarrow> plugin_state \<Rightarrow> plugin_state" where
  "push_global_int_decl var_name v st = st\<lparr>global_ints := global_ints st @ [(var_name, v)]\<rparr>"

definition upd_printer ::
  "nat \<Rightarrow> (pif_printers_t \<Rightarrow> pif_printers_t) \<Rightarrow> plugin_state \<Rightarrow> plugin_state" where
  "upd_printer i f st = st\<lparr>pif_printers := (pif_printers st)[i := f (pif_printers st ! i)]\<rparr>"

section \<open>The attribute\<close>

text \<open>
  A declaration with the attribute: the strings of the attribute, the name of the function, the
  printed types of its arguments and of the function itself.
\<close>

record task_impl_decl =
  attr_args :: "string list"
  decl_name :: string
  arg_types :: "string list"
  printed_type :: string

definition write_kl_init :: "string \<Rightarrow> nat \<Rightarrow> string list \<Rightarrow> plugin_state \<Rightarrow> plugin_state" where
  "write_kl_init pif_name pif_index args st =
     (upd_printer pif_index
        (\<lambda>p. p\<lparr>pifdefs := pifdefs p @ kl_init_function pif_name pif_index args\<rparr>) st)
       \<lparr>kl_init_funs := kl_init_funs st @ kl_init_call pif_name\<rparr>"

definition write_spawn_function :: "string \<Rightarrow> nat \<Rightarrow> string list \<Rightarrow> plugin_state \<Rightarrow> plugin_state" where
  "write_spawn_function pif_name pif_index args st =
     st\<lparr>pif_spawn := pif_spawn st @ spawn_function pif_name pif_index args\<rparr>"

text \<open>The first implementation of a PIF defines it.\<close>

definition define_pif ::
  "string \<Rightarrow> nat \<Rightarrow> string \<Rightarrow> string list \<Rightarrow> plugin_state \<Rightarrow> plugin_state" where
  "define_pif pif_name pif_index pif_decl args st =
     (let st = upd_printer pif_index (\<lambda>p. p\<lparr>pifdefs := pifdefs p @
            pif_head pif_name pif_decl (length args) @
            pif_init (g_cl_modules st) (g_hsa_offline_finalize st) @ pif_body pif_name args\<rparr>) st;
          st = write_kl_init pif_name pif_index args st;
          st = write_spawn_function pif_name pif_index args st
      in upd_printer pif_index
           (\<lambda>p. p\<lparr>fn_table := fn_table p @ fn_table_head (main_name st) pif_name\<rparr>) st)"

definition add_kid :: "string \<Rightarrow> bool \<Rightarrow> nat \<Rightarrow> plugin_state \<Rightarrow> plugin_state" where
  "add_kid fn_name is_new_pif pif_index st =
     upd_printer pif_index (\<lambda>p. p\<lparr>kid_table := kid_table p @ ''K_ID_'' @ fn_name @
       (if is_new_pif then '' = 0, '' else '', '')\<rparr>) st"

definition add_row ::
  "atmi_devtype_t \<Rightarrow> string \<Rightarrow> string \<Rightarrow> string \<Rightarrow> nat \<Rightarrow> nat \<Rightarrow> plugin_state \<Rightarrow> plugin_state" where
  "add_row devtype fn_name fn_decl fn_cpu_wrapper_decl num_params pif_index st =
     (if devtype = ATMI_DEVTYPE_CPU then
        upd_printer pif_index (\<lambda>p. p\<lparr>fn_table := fn_table p @ cpu_row fn_name\<rparr>)
          (st\<lparr>g_kerneldecls := g_kerneldecls st @
                cpu_wrapper fn_name fn_decl fn_cpu_wrapper_decl num_params\<rparr>)
      else if devtype = ATMI_DEVTYPE_GPU then
        upd_printer pif_index (\<lambda>p. p\<lparr>fn_table := fn_table p @ gpu_row fn_name\<rparr>) st
      else st)"

definition device_type :: "string \<Rightarrow> atmi_devtype_t option" where
  "device_type s =
     (let devtype_str = map to_lower s in
      if devtype_str = ''cpu'' then Some ATMI_DEVTYPE_CPU
      else if devtype_str = ''gpu'' then Some ATMI_DEVTYPE_GPU else None)"

text \<open>
  \<open>None\<close> is the exit for an unknown device type, an overflow of one of the fixed buffers, a use of
  a buffer that was not written, or a vector that is indexed past its end.
\<close>

definition handle_task_impl_attribute ::
  "task_impl_decl \<Rightarrow> plugin_state \<Rightarrow> plugin_state option" where
  "handle_task_impl_attribute decl st =
     do {
       (pif_name, dev) \<leftarrow> (case attr_args decl of [p, d] \<Rightarrow> Some (p, d) | _ \<Rightarrow> None);
       _ \<leftarrow> in_buffer 1024 pif_name;
       devtype \<leftarrow> device_type dev;
       let is_new_pif = (get_pif_index pif_name st = -1);
       let st = register_pif pif_name st;
       let pif_index = nat (get_pif_index pif_name st);
       let fn_name = decl_name decl;
       text \<leftarrow> in_buffer 2048 (printed_type decl);
       let num_params = count_params text;
       pif_decl \<leftarrow> Option.bind (generate_pif text pif_name num_params) (in_buffer 2048);
       fn_decl \<leftarrow> Option.bind (generate_task text fn_name num_params) (in_buffer 2048);
       fn_cpu_wrapper_decl \<leftarrow>
         Option.bind (generate_task_wrapper text fn_name num_params) (in_buffer 2048);
       args \<leftarrow> (if is_new_pif \<and> length (arg_types decl) < num_params then None
               else Some (take num_params (arg_types decl)));
       let st = (if is_new_pif then define_pif pif_name pif_index pif_decl args st else st);
       let st = add_kid fn_name is_new_pif pif_index st;
       let st = add_row devtype fn_name fn_decl fn_cpu_wrapper_decl num_params pif_index st;
       let st = push_global_int_decl (''K_ID_'' @ fn_name) (get_pif_count pif_name st - 1) st;
       Some (if is_new_pif
         then st\<lparr>pushed_decls := pushed_decls st @ [(pif_name, num_params)],
                 g_all_pifdecls := g_all_pifdecls st @ [pif_decl]\<rparr>
         else st)
     }"

section \<open>The start and the end of a compilation\<close>

definition new_plugin :: "string \<Rightarrow> plugin_state option" where
  "new_plugin main_input =
     (case split main_input CHR ''.'' of
        [] \<Rightarrow> None
      | name # _ \<Rightarrow> Some
          \<lparr>main_input_filename = main_input, main_name = name, pif_table = [], pif_printers = [],
           pif_spawn = '''', kl_init_funs = '''', g_kerneldecls = '''', g_all_pifdecls = [],
           g_cl_modules = [], g_cl_files = [], g_hsa_offline_finalize = False,
           g_output_pifdefs_filename = '''', global_ints = [], pushed_decls = []\<rparr>)"

fun plugin_args :: "(string \<times> string) list \<Rightarrow> plugin_state \<Rightarrow> plugin_state option" where
  "plugin_args [] st = Some st"
| "plugin_args ((key, v) # args) st =
     (if key = ''clfile'' then
        case split v CHR ''.'' of
          [] \<Rightarrow> None
        | name # _ \<Rightarrow> plugin_args args
            (st\<lparr>g_cl_files := g_cl_files st @ [v], g_cl_modules := g_cl_modules st @ [name]\<rparr>)
      else if key = ''pifgenfile'' then plugin_args args (st\<lparr>g_output_pifdefs_filename := v\<rparr>)
      else if key = ''jitcompile'' then plugin_args args st
      else None)"

definition plugin_init :: "string \<Rightarrow> (string \<times> string) list \<Rightarrow> plugin_state option" where
  "plugin_init main_input args =
     do {
       st \<leftarrow> new_plugin main_input;
       plugin_args args
         (st\<lparr>g_hsa_offline_finalize := (\<exists>(key, v) \<in> set args. key = ''jitcompile'' \<and> map to_lower v = ''false'')\<rparr>)
     }"

text \<open>Printing the tables for device code also clears them.\<close>

definition write_pif_kl :: "plugin_state \<Rightarrow> string \<times> plugin_state" where
  "write_pif_kl st =
     (write_kernel_dispatch_routine @
        concat (map (\<lambda>(pif_name, i, _). kid_enum pif_name (kid_table (pif_printers st ! i))) (pif_table st)) @
        pif_spawn st,
      st\<lparr>pif_printers := map (\<lambda>p. p\<lparr>kid_table := ''''\<rparr>) (pif_printers st), pif_spawn := ''''\<rparr>)"

text \<open>
  The command that compiles a device file; \<open>cmd\<close> is what \<open>which cloc_wrapper.sh\<close> prints. \<open>strtok\<close> cuts
  it in place at the end of its line.
\<close>

definition cloc_wrapper :: "string \<Rightarrow> plugin_state \<Rightarrow> string \<Rightarrow> string \<Rightarrow> string option" where
  "cloc_wrapper cmd st clfilename symbolname =
     (if cmd = '''' \<or> cmd = ''ERROR'' then None
      else
        let newlines = takeWhile (\<lambda>c. c = CHR 0x0A) cmd;
            line = takeWhile (\<lambda>c. c \<noteq> CHR 0x0A) (dropWhile (\<lambda>c. c = CHR 0x0A) cmd)
        in if length cmd \<ge> 2048 then None
           else in_buffer 2048 (newlines @ line @ '' -s '' @ symbolname @ '' '' @
             (if g_hsa_offline_finalize st then '' -hof '' else '''') @ clfilename))"

text \<open>For each device file: its name, what is put in front of it, and the command.\<close>

fun write_cl_files ::
  "string \<Rightarrow> string list \<Rightarrow> plugin_state \<Rightarrow> ((string \<times> string \<times> string) list \<times> plugin_state) option"
where
  "write_cl_files cmd [] st = Some ([], st)"
| "write_cl_files cmd (it # its) st =
     do {
       let (text, st) = write_pif_kl st;
       _ \<leftarrow> in_buffer 2048 (''cat '' @ it @ '' >> tmp.cl'');
       name \<leftarrow> (case split it CHR ''.'' of [] \<Rightarrow> None | name # _ \<Rightarrow> Some name);
       c \<leftarrow> cloc_wrapper cmd st ''tmp.cl'' name;
       (fs, st) \<leftarrow> write_cl_files cmd its st;
       Some ((it, write_cpp_warning_header @ text, c) # fs, st)
     }"

definition pifdefs_file :: "string \<Rightarrow> plugin_state \<Rightarrow> string" where
  "pifdefs_file headers st =
     write_headers @ carried_headers (main_input_filename st) headers @ write_cpp_warning_header @
     write_globals (main_name st) @ g_kerneldecls st @
     concat (map (\<lambda>p. fn_table p @ cat_lines [''};''] @ pifdefs p) (pif_printers st)) @
     kl_init_all (kl_init_funs st)"

text \<open>
  \<open>headers\<close> is what the shell prints for the include lines of the input, \<open>cmd\<close> for the place of
  the compiler of device files. The shell commands are taken to succeed.
\<close>

definition register_finish_unit ::
  "string \<Rightarrow> string \<Rightarrow> plugin_state \<Rightarrow>
   (string \<times> string \<times> (string \<times> string \<times> string) list \<times> plugin_state) option" where
  "register_finish_unit headers cmd st =
     do {
       name \<leftarrow> (if g_output_pifdefs_filename st = ''''
                then in_buffer 1024 (main_input_filename st @ ''.pifdefs.c'')
                else Some (g_output_pifdefs_filename st));
       if headers = '''' \<or> headers = ''ERROR'' then None
       else do {
         let text = pifdefs_file headers st;
         let st = st\<lparr>g_kerneldecls := '''', kl_init_funs := '''',
               pif_printers := map (\<lambda>p. p\<lparr>fn_table := '''', pifdefs := ''''\<rparr>) (pif_printers st)\<rparr>;
         (fs, st) \<leftarrow> write_cl_files cmd (g_cl_files st) st;
         Some (name, text, fs, st)
       }
     }"

text \<open>The declarations of a compilation unit, in their order.\<close>

fun handle_all :: "task_impl_decl list \<Rightarrow> plugin_state \<Rightarrow> plugin_state option" where
  "handle_all [] st = Some st"
| "handle_all (d # ds) st = Option.bind (handle_task_impl_attribute d st) (handle_all ds)"

end
