(* ===== verification/Pifgen_Guarantees.thy ===== *)
theory Pifgen_Guarantees
  imports Pifgen
begin

text \<open>
  What the plugin guarantees: the numbers that it gives to the implementations of a PIF select
  their rows of the table it writes, and the declarations it makes from printed types have the
  parameters of the function.
\<close>

section \<open>Registering\<close>

lemma map_of_insert_pif:
  "map_of es k = None \<Longrightarrow> map_of (insert_pif k v es) = (map_of es)(k \<mapsto> v)"
  by (induction k v es rule: insert_pif.induct) (auto split: if_splits)

lemma map_of_count:
  "map_of (map (\<lambda>(k, i, c). if k = p then (k, i, c + 1) else (k, i, c)) es) q =
   (if q = p then map_option (\<lambda>(i, c). (i, c + 1)) (map_of es q) else map_of es q)"
  by (induction es) auto

lemma upd_printer_simps [simp]:
  "main_name (upd_printer i f st) = main_name st" "pif_table (upd_printer i f st) = pif_table st"
  "global_ints (upd_printer i f st) = global_ints st"
  "length (pif_printers (upd_printer i f st)) = length (pif_printers st)"
  by (simp_all add: upd_printer_def)

lemma upd_printer_fn_table:
  assumes "i < length (pif_printers st)"
  shows "fn_table (pif_printers (upd_printer i f st) ! j) =
    (if j = i then fn_table (f (pif_printers st ! i)) else fn_table (pif_printers st ! j))"
  using assms by (simp add: upd_printer_def nth_list_update)

definition pif_of :: "task_impl_decl \<Rightarrow> string" where
  "pif_of d = attr_args d ! 0"

definition row_of :: "task_impl_decl \<Rightarrow> string" where
  "row_of d = (if device_type (attr_args d ! 1) = Some ATMI_DEVTYPE_CPU
     then cpu_row (decl_name d) else gpu_row (decl_name d))"

lemma device_type_cases:
  "device_type s = Some ty \<Longrightarrow> ty = ATMI_DEVTYPE_CPU \<or> ty = ATMI_DEVTYPE_GPU"
  by (auto simp: device_type_def Let_def split: if_splits)

lemma gpu_not_cpu: "ATMI_DEVTYPE_GPU \<noteq> ATMI_DEVTYPE_CPU"
  by (simp add: ATMI_DEVTYPE_GPU_def ATMI_DEVTYPE_iGPU_def ATMI_DEVTYPE_dGPU_def ATMI_DEVTYPE_CPU_def)

text \<open>The part of the state that the numbers are in.\<close>

definition table_view :: "plugin_state \<Rightarrow> string \<times> (string \<times> nat \<times> nat) list \<times> nat \<times> (string \<times> int) list" where
  "table_view st = (main_name st, pif_table st, length (pif_printers st), global_ints st)"

lemma define_pif_effect:
  "table_view (define_pif p i d args st) = table_view st"
  "i < length (pif_printers st) \<Longrightarrow> fn_table (pif_printers (define_pif p i d args st) ! j) =
     fn_table (pif_printers st ! j) @ (if j = i then fn_table_head (main_name st) p else '''')"
  by (simp_all add: define_pif_def Let_def write_kl_init_def write_spawn_function_def table_view_def
      upd_printer_fn_table)

lemma add_kid_effect:
  "table_view (add_kid f new i st) = table_view st"
  "i < length (pif_printers st) \<Longrightarrow>
     fn_table (pif_printers (add_kid f new i st) ! j) = fn_table (pif_printers st ! j)"
  by (simp_all add: add_kid_def table_view_def upd_printer_fn_table)

lemma add_row_effect:
  assumes "device_type (attr_args d ! 1) = Some ty"
  shows "table_view (add_row ty (decl_name d) a b n i st) = table_view st"
    and "i < length (pif_printers st) \<Longrightarrow>
      fn_table (pif_printers (add_row ty (decl_name d) a b n i st) ! j) =
      fn_table (pif_printers st ! j) @ (if j = i then row_of d else '''')"
  using device_type_cases [OF assms] assms gpu_not_cpu
  by (auto simp: add_row_def table_view_def upd_printer_def nth_list_update row_of_def)

lemma register_pif_known:
  obtains i c where "map_of (pif_table (register_pif p st)) p = Some (i, c)"
    "get_pif_index p (register_pif p st) = int i"
proof (cases "map_of (pif_table st) p")
  case None
  then show ?thesis
    by (intro that [of "length (pif_printers st)" 1])
      (simp_all add: register_pif_def get_pif_index_def map_of_insert_pif)
next
  case (Some e)
  then show ?thesis
    by (intro that [of "fst e" "snd e + 1"])
      (simp_all add: register_pif_def get_pif_index_def map_of_count split: prod.splits)
qed

lemma register_pif_names [simp]:
  "main_name (register_pif p st) = main_name st"
  "global_ints (register_pif p st) = global_ints st"
  by (simp_all add: register_pif_def split: option.split)

definition after_register ::
  "task_impl_decl \<Rightarrow> nat \<Rightarrow> plugin_state \<Rightarrow> plugin_state \<Rightarrow> plugin_state \<Rightarrow> bool" where
  "after_register d i st r st' = (\<exists>a b n ty new pif_decl args st0.
     device_type (attr_args d ! 1) = Some ty \<and> new = (map_of (pif_table st) (pif_of d) = None) \<and>
     st0 = add_row ty (decl_name d) a b n i (add_kid (decl_name d) new i
       (if new then define_pif (pif_of d) i pif_decl args r else r)) \<and>
     table_view st' = table_view (push_global_int_decl (''K_ID_'' @ decl_name d)
       (get_pif_count (pif_of d) st0 - 1) st0) \<and>
     pif_printers st' = pif_printers st0)"

lemma new_index: "(get_pif_index p st = -1) = (map_of (pif_table st) p = None)"
  by (simp add: get_pif_index_def split: option.split)

lemma handle_shape:
  assumes "handle_task_impl_attribute d st = Some st'"
  shows "after_register d (nat (get_pif_index (pif_of d) (register_pif (pif_of d) st))) st
    (register_pif (pif_of d) st) st'"
proof -
  let ?r = "register_pif (pif_of d) st"
  let ?i = "nat (get_pif_index (pif_of d) ?r)"
  let ?new = "map_of (pif_table st) (pif_of d) = None"
  let ?n = "count_params (printed_type d)"
  obtain dev where a: "attr_args d = [pif_of d, dev]"
    using assms by (auto simp: handle_task_impl_attribute_def pif_of_def split: list.splits)
  define st0 where "st0 = (\<lambda>f w pd args ty. add_row ty (decl_name d) f w ?n ?i
    (add_kid (decl_name d) ?new ?i (if ?new then define_pif (pif_of d) ?i pd args ?r else ?r)))"
  obtain ty f w pd args where ty: "device_type dev = Some ty"
    and st': "st' = (let s0 = st0 f w pd args ty;
        s1 = push_global_int_decl (''K_ID_'' @ decl_name d) (get_pif_count (pif_of d) s0 - 1) s0
      in if ?new then s1\<lparr>pushed_decls := pushed_decls s1 @ [(pif_of d, ?n)],
           g_all_pifdecls := g_all_pifdecls s1 @ [pd]\<rparr> else s1)"
    using assms a
    by (auto simp: handle_task_impl_attribute_def new_index Let_def st0_def in_buffer_def
        bind_eq_Some_conv split: if_splits)
  show ?thesis
    unfolding after_register_def st'
    by (rule exI [of _ f], rule exI [of _ w], rule exI [of _ ?n], rule exI [of _ ty],
        rule exI [of _ ?new], rule exI [of _ pd], rule exI [of _ args],
        rule exI [of _ "st0 f w pd args ty"])
      (simp add: ty a table_view_def push_global_int_decl_def Let_def st0_def)
qed

lemma handle_effect:
  assumes step: "handle_task_impl_attribute d st = Some st'"
    and "\<And>p i c. map_of (pif_table (register_pif (pif_of d) st)) p = Some (i, c) \<Longrightarrow>
      i < length (pif_printers (register_pif (pif_of d) st))"
  obtains i c where "map_of (pif_table (register_pif (pif_of d) st)) (pif_of d) = Some (i, c)"
    "table_view st' = (main_name st, pif_table (register_pif (pif_of d) st),
       length (pif_printers (register_pif (pif_of d) st)),
       global_ints st @ [(''K_ID_'' @ decl_name d, int c - 1)])"
    "\<forall>j. fn_table (pif_printers st' ! j) =
       fn_table (pif_printers (register_pif (pif_of d) st) ! j) @
       (if j = i then (if map_of (pif_table st) (pif_of d) = None
          then fn_table_head (main_name st) (pif_of d) else '''') @ row_of d else '''')"
proof -
  let ?p = "pif_of d" let ?r = "register_pif ?p st"
  obtain i c where k: "map_of (pif_table ?r) ?p = Some (i, c)" and gi: "get_pif_index ?p ?r = int i"
    by (rule register_pif_known)
  have len: "i < length (pif_printers ?r)" using assms(2) [OF k] .
  obtain a b n ty new pif_decl args st0 where ty: "device_type (attr_args d ! 1) = Some ty"
    and new: "new = (map_of (pif_table st) ?p = None)"
    and st0: "st0 = add_row ty (decl_name d) a b n i (add_kid (decl_name d) new i
       (if new then define_pif ?p i pif_decl args ?r else ?r))"
    and tv: "table_view st' = table_view (push_global_int_decl (''K_ID_'' @ decl_name d)
       (get_pif_count ?p st0 - 1) st0)"
    and pr: "pif_printers st' = pif_printers st0"
    using handle_shape [OF step] unfolding after_register_def gi nat_int by blast
  let ?s1 = "if new then define_pif ?p i pif_decl args ?r else ?r"
  have t1: "table_view ?s1 = table_view ?r" by (simp add: define_pif_effect)
  have t0: "table_view st0 = table_view ?r"
    unfolding st0 add_row_effect(1) [OF ty] add_kid_effect(1) t1 ..
  have l1: "i < length (pif_printers ?s1)" "i < length (pif_printers (add_kid (decl_name d) new i ?s1))"
    using len t1 add_kid_effect(1) [of "decl_name d" new i ?s1] by (simp_all add: table_view_def)
  have f1: "fn_table (pif_printers ?s1 ! j) = fn_table (pif_printers ?r ! j) @
      (if j = i \<and> new then fn_table_head (main_name st) ?p else '''')" for j
    by (simp add: define_pif_effect(2) [OF len])
  show ?thesis
  proof (rule that [OF k])
    show "table_view st' = (main_name st, pif_table ?r, length (pif_printers ?r),
        global_ints st @ [(''K_ID_'' @ decl_name d, int c - 1)])"
      using tv t0 k by (simp add: table_view_def push_global_int_decl_def get_pif_count_def)
    show "\<forall>j. fn_table (pif_printers st' ! j) = fn_table (pif_printers ?r ! j) @
        (if j = i then (if map_of (pif_table st) ?p = None
          then fn_table_head (main_name st) ?p else '''') @ row_of d else '''')"
      unfolding pr st0 add_row_effect(2) [OF ty l1(2)] add_kid_effect(2) [OF l1(1)] f1
      by (simp add: new)
  qed
qed

section \<open>The numbers select the rows\<close>

definition impls_of :: "task_impl_decl list \<Rightarrow> string \<Rightarrow> task_impl_decl list" where
  "impls_of ds p = filter (\<lambda>d. pif_of d = p) ds"

text \<open>The declarations \<open>ds\<close> have been handled.\<close>

definition handled :: "task_impl_decl list \<Rightarrow> plugin_state \<Rightarrow> bool" where
  "handled ds st \<longleftrightarrow>
     (\<forall>p. map_of (pif_table st) p = None \<longleftrightarrow> impls_of ds p = []) \<and>
     (\<forall>p i c. map_of (pif_table st) p = Some (i, c) \<longrightarrow>
        i < length (pif_printers st) \<and> c = length (impls_of ds p) \<and>
        fn_table (pif_printers st ! i) =
          fn_table_head (main_name st) p @ concat (map row_of (impls_of ds p))) \<and>
     (\<forall>p q i c c'. map_of (pif_table st) p = Some (i, c) \<longrightarrow>
        map_of (pif_table st) q = Some (i, c') \<longrightarrow> p = q) \<and>
     global_ints st = map (\<lambda>j. (''K_ID_'' @ decl_name (ds ! j),
        int (length (impls_of (take j ds) (pif_of (ds ! j)))))) [0..<length ds]"

lemma impls_of_simps [simp]:
  "impls_of [] p = []"
  "impls_of (ds @ [d]) p = impls_of ds p @ (if pif_of d = p then [d] else [])"
  by (simp_all add: impls_of_def)

lemma handledD:
  assumes "handled ds st"
  shows handled_known: "map_of (pif_table st) p = None \<longleftrightarrow> impls_of ds p = []"
    and handled_index: "map_of (pif_table st) p = Some (i, c) \<Longrightarrow> i < length (pif_printers st)"
    and handled_count: "map_of (pif_table st) p = Some (i, c) \<Longrightarrow> c = length (impls_of ds p)"
    and handled_rows: "map_of (pif_table st) p = Some (i, c) \<Longrightarrow> fn_table (pif_printers st ! i) =
      fn_table_head (main_name st) p @ concat (map row_of (impls_of ds p))"
    and handled_inj: "map_of (pif_table st) p = Some (i, c) \<Longrightarrow>
      map_of (pif_table st) q = Some (i, c') \<Longrightarrow> p = q"
    and handled_ints: "global_ints st = map (\<lambda>j. (''K_ID_'' @ decl_name (ds ! j),
      int (length (impls_of (take j ds) (pif_of (ds ! j)))))) [0..<length ds]"
  using assms unfolding handled_def by blast+

text \<open>An entry after registering is the new one, or it was there.\<close>

lemma register_entry:
  assumes "map_of (pif_table (register_pif n st)) p = Some (i, c)"
  obtains (new) "p = n" "map_of (pif_table st) p = None" "i = length (pif_printers st)" "c = 1"
  | (old) c0 where "map_of (pif_table st) p = Some (i, c0)" "c = (if p = n then c0 + 1 else c0)"
  using assms
  by (auto simp: register_pif_def map_of_insert_pif map_of_count split: option.splits if_splits)

lemma register_printers:
  "length (pif_printers st) \<le> length (pif_printers (register_pif n st))"
  "map_of (pif_table st) n = None \<Longrightarrow> length (pif_printers (register_pif n st)) = length (pif_printers st) + 1"
  "i < length (pif_printers st) \<Longrightarrow> pif_printers (register_pif n st) ! i = pif_printers st ! i"
  "map_of (pif_table st) n = None \<Longrightarrow>
     fn_table (pif_printers (register_pif n st) ! length (pif_printers st)) = ''''"
  by (auto simp: register_pif_def nth_append split: option.split)

lemma register_unknown:
  "map_of (pif_table (register_pif n st)) p = None \<longleftrightarrow> map_of (pif_table st) p = None \<and> p \<noteq> n"
  by (auto simp: register_pif_def map_of_insert_pif map_of_count split: option.split)

text \<open>What registering the name of the next declaration leaves.\<close>

lemma register_handled:
  assumes h: "handled ds st" and e: "map_of (pif_table (register_pif (pif_of d) st)) p = Some (i, c)"
  shows "i < length (pif_printers (register_pif (pif_of d) st))"
    and "c = length (impls_of (ds @ [d]) p)"
    and "fn_table (pif_printers (register_pif (pif_of d) st) ! i) @
        (if p = pif_of d then (if map_of (pif_table st) p = None
          then fn_table_head (main_name st) p else '''') @ row_of d else '''') =
      fn_table_head (main_name st) p @ concat (map row_of (impls_of (ds @ [d]) p))"
proof -
  note k = handledD [OF h]
  have "i < length (pif_printers (register_pif (pif_of d) st)) \<and> c = length (impls_of (ds @ [d]) p) \<and>
      fn_table (pif_printers (register_pif (pif_of d) st) ! i) @
        (if p = pif_of d then (if map_of (pif_table st) p = None
          then fn_table_head (main_name st) p else '''') @ row_of d else '''') =
      fn_table_head (main_name st) p @ concat (map row_of (impls_of (ds @ [d]) p))"
    using e
  proof (cases rule: register_entry)
    case new
    then show ?thesis using k(1) [of p] register_printers(2,4) [of st p] by auto
  next
    case (old c0)
    then show ?thesis
      using k(2-4) [OF old(1)] register_printers(1) [of st "pif_of d"] register_printers(3) [of i st "pif_of d"]
      by auto
  qed
  then show "i < length (pif_printers (register_pif (pif_of d) st))"
    and "c = length (impls_of (ds @ [d]) p)"
    and "fn_table (pif_printers (register_pif (pif_of d) st) ! i) @
        (if p = pif_of d then (if map_of (pif_table st) p = None
          then fn_table_head (main_name st) p else '''') @ row_of d else '''') =
      fn_table_head (main_name st) p @ concat (map row_of (impls_of (ds @ [d]) p))"
    by blast+
qed

lemma register_inj:
  assumes h: "handled ds st" and p: "map_of (pif_table (register_pif n st)) p = Some (i, c)"
    and q: "map_of (pif_table (register_pif n st)) q = Some (i, c')"
  shows "p = q"
  using p
proof (cases rule: register_entry)
  case new
  note p = new
  from q show ?thesis
  proof (cases rule: register_entry)
    case new
    with p show ?thesis by simp
  next
    case (old c0)
    with p handled_index [OF h old(1)] show ?thesis by simp
  qed
next
  case (old c0)
  note p = old
  from q show ?thesis
  proof (cases rule: register_entry)
    case new
    with p handled_index [OF h p(1)] show ?thesis by simp
  next
    case (old c1)
    with p handled_inj [OF h p(1) old(1)] show ?thesis by simp
  qed
qed

lemma handle_keeps_handled:
  assumes h: "handled ds st" and step: "handle_task_impl_attribute d st = Some st'"
  shows "handled (ds @ [d]) st' \<and> main_name st' = main_name st"
proof -
  let ?r = "register_pif (pif_of d) st"
  note r = register_handled [OF h]
  obtain i c where k: "map_of (pif_table ?r) (pif_of d) = Some (i, c)"
    and tv: "table_view st' = (main_name st, pif_table ?r, length (pif_printers ?r),
      global_ints st @ [(''K_ID_'' @ decl_name d, int c - 1)])"
    and f: "\<forall>j. fn_table (pif_printers st' ! j) = fn_table (pif_printers ?r ! j) @
      (if j = i then (if map_of (pif_table st) (pif_of d) = None
         then fn_table_head (main_name st) (pif_of d) else '''') @ row_of d else '''')"
    by (rule handle_effect [OF step r(1)]) iprover
  have eq: "main_name st' = main_name st" "pif_table st' = pif_table ?r"
    "length (pif_printers st') = length (pif_printers ?r)"
    "global_ints st' = global_ints st @ [(''K_ID_'' @ decl_name d, int c - 1)]"
    using tv by (simp_all add: table_view_def)
  have c: "int c - 1 = int (length (impls_of ds (pif_of d)))" using r(2) [OF k] by simp
  have rows: "fn_table (pif_printers st' ! i') =
      fn_table_head (main_name st) p @ concat (map row_of (impls_of (ds @ [d]) p))"
    if e: "map_of (pif_table ?r) p = Some (i', c')" for p i' c'
  proof (cases "p = pif_of d")
    case True
    with e k have "i' = i" by simp
    with r(3) [OF e] True show ?thesis by (auto simp: f)
  next
    case False
    with register_inj [OF h e] k have "i' \<noteq> i" by auto
    with r(3) [OF e] False show ?thesis by (simp add: f)
  qed
  have known: "map_of (pif_table ?r) p = None \<longleftrightarrow> impls_of (ds @ [d]) p = []" for p
    by (simp add: register_unknown handled_known [OF h])
  have ints: "global_ints st' = map (\<lambda>j. (''K_ID_'' @ decl_name ((ds @ [d]) ! j),
      int (length (impls_of (take j (ds @ [d])) (pif_of ((ds @ [d]) ! j)))))) [0..<length (ds @ [d])]"
    unfolding eq(4) c handled_ints [OF h] by (simp add: nth_append)
  have "handled (ds @ [d]) st'"
    unfolding handled_def
  proof (intro conjI allI impI)
    show "(map_of (pif_table st') p = None) = (impls_of (ds @ [d]) p = [])" for p
      by (simp only: eq(2) known)
    fix p q i c c'
    assume e: "map_of (pif_table st') p = Some (i, c)"
    then have e': "map_of (pif_table ?r) p = Some (i, c)" by (simp only: eq(2))
    show "i < length (pif_printers st')" using r(1) [OF e'] by (simp only: eq(3))
    show "c = length (impls_of (ds @ [d]) p)" by (rule r(2) [OF e'])
    show "fn_table (pif_printers st' ! i) =
        fn_table_head (main_name st') p @ concat (map row_of (impls_of (ds @ [d]) p))"
      unfolding eq(1) by (rule rows [OF e'])
    assume "map_of (pif_table st') q = Some (i, c')"
    then have e'': "map_of (pif_table ?r) q = Some (i, c')" by (simp only: eq(2))
    show "p = q" by (rule register_inj [OF h e' e''])
  qed (rule ints)
  with eq(1) show ?thesis by blast
qed

lemma handle_all_handled:
  "handle_all ds' st = Some st' \<Longrightarrow> handled ds st \<Longrightarrow>
     handled (ds @ ds') st' \<and> main_name st' = main_name st"
proof (induction ds' arbitrary: ds st)
  case (Cons d ds')
  then obtain st1 where s: "handle_task_impl_attribute d st = Some st1" "handle_all ds' st1 = Some st'"
    by (auto simp: bind_eq_Some_conv)
  from handle_keeps_handled [OF Cons.prems(2) s(1)] Cons.IH [OF s(2), of "ds @ [d]"]
  show ?case by simp
qed simp

lemma plugin_args_keep:
  "plugin_args as st = Some st' \<Longrightarrow> table_view st' = table_view st \<and> pif_printers st' = pif_printers st"
  by (induction as st rule: plugin_args.induct)
    (auto simp: table_view_def split: if_splits list.splits)

lemma plugin_init_handled:
  assumes "plugin_init main_input args = Some st"
  shows "handled [] st"
proof -
  have "table_view st = (main_name st, [], 0, [])"
    using assms by (auto simp: plugin_init_def new_plugin_def bind_eq_Some_conv table_view_def
        dest!: plugin_args_keep split: list.splits)
  then show ?thesis by (simp add: handled_def table_view_def)
qed

lemma nth_impls_of:
  assumes "j < length ds"
  shows "length (impls_of (take j ds) (pif_of (ds ! j))) < length (impls_of ds (pif_of (ds ! j)))"
    and "impls_of ds (pif_of (ds ! j)) ! length (impls_of (take j ds) (pif_of (ds ! j))) = ds ! j"
proof -
  have "impls_of ds p = impls_of (take j ds) p @ impls_of (drop j ds) p" for p
    unfolding impls_of_def by (metis append_take_drop_id filter_append)
  moreover have "impls_of (drop j ds) (pif_of (ds ! j)) = ds ! j # impls_of (drop (Suc j) ds) (pif_of (ds ! j))"
    using assms by (simp add: impls_of_def flip: Cons_nth_drop_Suc)
  ultimately show "length (impls_of (take j ds) (pif_of (ds ! j))) < length (impls_of ds (pif_of (ds ! j)))"
    and "impls_of ds (pif_of (ds ! j)) ! length (impls_of (take j ds) (pif_of (ds ! j))) = ds ! j"
    by (simp_all add: nth_append)
qed

text \<open>
  C35. The constants that the plugin declares select the right rows: after the attributes
  \<open>ds\<close> of a compilation unit, the constant of the \<open>j\<close>-th function is below the number of the
  implementations of its PIF, and the table of the PIF is its head followed by one row for each of
  these implementations, where the row at the constant is the row of this function.
\<close>

theorem kernel_ids_select_rows:
  assumes "plugin_init main_input args = Some st0" and "handle_all ds st0 = Some st" and "j < length ds"
  shows "\<exists>i k. global_ints st ! j = (''K_ID_'' @ decl_name (ds ! j), int k) \<and>
    map_of (pif_table st) (pif_of (ds ! j)) = Some (i, length (impls_of ds (pif_of (ds ! j)))) \<and>
    fn_table (pif_printers st ! i) = fn_table_head (main_name st) (pif_of (ds ! j)) @
      concat (map row_of (impls_of ds (pif_of (ds ! j)))) \<and>
    k < length (impls_of ds (pif_of (ds ! j))) \<and> impls_of ds (pif_of (ds ! j)) ! k = ds ! j"
proof -
  let ?p = "pif_of (ds ! j)"
  have h: "handled ds st"
    using handle_all_handled [OF assms(2) plugin_init_handled [OF assms(1)]] by simp
  from nth_impls_of(1) [OF assms(3)] have "impls_of ds ?p \<noteq> []" by auto
  then obtain i c where k: "map_of (pif_table st) ?p = Some (i, c)"
    using handled_known [OF h, of ?p] by (cases "map_of (pif_table st) ?p") auto
  show ?thesis
    using k handled_count [OF h k] handled_rows [OF h k] handled_ints [OF h] nth_impls_of [OF assms(3)]
      assms(3)
    by (intro exI [of _ i] exI [of _ "length (impls_of (take j ds) ?p)"]) simp
qed

definition demo_decls :: "task_impl_decl list" where
  "demo_decls =
     [\<lparr>attr_args = [''add'', ''CPU''], decl_name = ''f'', arg_types = [''int'', ''float *''],
       printed_type = ''void <T1> (int, float *)''\<rparr>,
      \<lparr>attr_args = [''sub'', ''gpu''], decl_name = ''g'', arg_types = [''int''],
       printed_type = ''void <T2> (int)''\<rparr>,
      \<lparr>attr_args = [''add'', ''GPU''], decl_name = ''h'', arg_types = [''int'', ''float *''],
       printed_type = ''void <T3> (int, float *)''\<rparr>]"

text \<open>Whether a declaration is accepted depends on its texts, and on the state not at all.\<close>

definition accepted :: "task_impl_decl \<Rightarrow> bool" where
  "accepted d = (let n = count_params (printed_type d);
       fits = (\<lambda>r. Option.bind r (in_buffer 2048) \<noteq> None)
     in length (attr_args d) = 2 \<and> in_buffer 1024 (pif_of d) \<noteq> None \<and>
       device_type (attr_args d ! 1) \<noteq> None \<and> in_buffer 2048 (printed_type d) \<noteq> None \<and>
       fits (generate_pif (printed_type d) (pif_of d) n) \<and>
       fits (generate_task (printed_type d) (decl_name d) n) \<and>
       fits (generate_task_wrapper (printed_type d) (decl_name d) n) \<and> n \<le> length (arg_types d))"

lemma fits_Some: "Option.bind r (in_buffer n) \<noteq> None \<longleftrightarrow> (\<exists>s. r = Some s \<and> in_buffer n s = Some s)"
  by (cases r) (auto simp: in_buffer_def)

lemma accepted_handled:
  assumes "accepted d"
  shows "handle_task_impl_attribute d st \<noteq> None"
proof -
  let ?n = "count_params (printed_type d)"
  from assms have "length (attr_args d) = 2" by (simp add: accepted_def Let_def)
  then obtain p dev where a: "attr_args d = [p, dev]"
    by (cases "attr_args d"; cases "tl (attr_args d)") auto
  obtain s1 s2 s3 ty where "generate_pif (printed_type d) p ?n = Some s1" "in_buffer 2048 s1 = Some s1"
    "generate_task (printed_type d) (decl_name d) ?n = Some s2" "in_buffer 2048 s2 = Some s2"
    "generate_task_wrapper (printed_type d) (decl_name d) ?n = Some s3" "in_buffer 2048 s3 = Some s3"
    "device_type dev = Some ty"
    using assms unfolding accepted_def Let_def fits_Some by (auto simp: a pif_of_def)
  moreover have "in_buffer 1024 p = Some p" "in_buffer 2048 (printed_type d) = Some (printed_type d)"
    "\<not> length (arg_types d) < ?n"
    using assms by (auto simp: accepted_def Let_def a pif_of_def in_buffer_def split: if_splits)
  ultimately show ?thesis by (simp add: handle_task_impl_attribute_def a Let_def)
qed

lemma all_accepted_handled: "list_all accepted ds \<Longrightarrow> handle_all ds st \<noteq> None"
  by (induction ds arbitrary: st) (use accepted_handled in \<open>auto simp: bind_eq_None_conv\<close>)

lemma demo_decls_accepted: "list_all accepted demo_decls"
  by code_simp

lemma kernel_ids_select_rows_witness:
  "\<exists>st i. Option.bind (plugin_init ''a.c'' []) (handle_all demo_decls) = Some st \<and>
     global_ints st ! 2 = (''K_ID_h'', 1) \<and> map_of (pif_table st) ''add'' = Some (i, 2) \<and>
     fn_table (pif_printers st ! i) =
       fn_table_head (main_name st) ''add'' @ cpu_row ''f'' @ gpu_row ''h''"
proof -
  obtain st0 st where s: "plugin_init ''a.c'' [] = Some st0" "handle_all demo_decls st0 = Some st"
  proof -
    obtain st0 where "plugin_init ''a.c'' [] = Some st0"
      by (simp add: plugin_init_def new_plugin_def split_def)
    moreover obtain st where "handle_all demo_decls st0 = Some st"
      using all_accepted_handled [OF demo_decls_accepted, of st0] by auto
    ultimately show thesis by (rule that)
  qed
  have d: "pif_of (demo_decls ! 2) = ''add''" "length demo_decls = 3" "decl_name (demo_decls ! 2) = ''h''"
    by (simp_all add: demo_decls_def pif_of_def)
  have d2: "impls_of demo_decls ''add'' = [demo_decls ! 0, demo_decls ! 2]"
    by (simp add: demo_decls_def impls_of_def pif_of_def)
  have "device_type ''CPU'' = Some ATMI_DEVTYPE_CPU" "device_type ''GPU'' = Some ATMI_DEVTYPE_GPU"
    by code_simp+
  then have d3: "row_of (demo_decls ! 0) = cpu_row ''f''" "row_of (demo_decls ! 2) = gpu_row ''h''"
    using gpu_not_cpu by (simp_all add: demo_decls_def row_of_def)
  note d = d d2 d3
  have ne: "demo_decls ! 0 \<noteq> demo_decls ! 2" by (simp add: demo_decls_def)
  obtain i k where "global_ints st ! 2 = (''K_ID_'' @ ''h'', int k)"
    "map_of (pif_table st) ''add'' = Some (i, 2)"
    "fn_table (pif_printers st ! i) = fn_table_head (main_name st) ''add'' @ cpu_row ''f'' @ gpu_row ''h''"
    "k < 2" "[demo_decls ! 0, demo_decls ! 2] ! k = demo_decls ! 2"
    using kernel_ids_select_rows [OF s, of 2] by (auto simp: d)
  moreover from this(4,5) ne have "k = 1" by (cases k) auto
  ultimately show ?thesis using s by auto
qed

section \<open>Declarations from printed types\<close>

lemma strtok_next:
  assumes "t \<noteq> ''''" and "set t \<inter> set ds = {}" and "c \<in> set ds"
  shows "strtok ds (t @ c # s) = Some (t, s)"
proof -
  have t: "\<forall>x \<in> set t. x \<notin> set ds" using assms(2) by blast
  have "dropWhile (\<lambda>x. x \<in> set ds) (t @ c # s) = t @ c # s"
    using assms(1) t by (cases t) auto
  moreover have "takeWhile (\<lambda>x. x \<notin> set ds) (t @ c # s) = t"
    using t assms(3) by (subst takeWhile_append2) auto
  moreover have "dropWhile (\<lambda>x. x \<notin> set ds) (t @ c # s) = c # s"
    using t assms(3) by (subst dropWhile_append2) auto
  ultimately show ?thesis by (simp add: strtok_def)
qed

fun join_params :: "string list \<Rightarrow> string" where
  "join_params [] = '')''"
| "join_params [p] = p @ '')''"
| "join_params (p # ps) = p @ '','' @ join_params ps"

text \<open>How GCC prints the type of a function.\<close>

definition printed_fn :: "string \<Rightarrow> string \<Rightarrow> string \<Rightarrow> string list \<Rightarrow> string" where
  "printed_fn ret T mid ps = ret @ ''<'' @ T @ ''>'' @ mid @ ''('' @ join_params ps"

definition named_params :: "string \<Rightarrow> nat \<Rightarrow> string list \<Rightarrow> string" where
  "named_params mark i ps =
     join_params (map (\<lambda>(k, p). p @ mark @ nat_string k) (enumerate i ps))"

definition plain :: "string list \<Rightarrow> bool" where
  "plain ps = list_all (\<lambda>p. p \<noteq> '''' \<and> CHR '','' \<notin> set p \<and> CHR '')'' \<notin> set p) ps"

lemma param_decls_join:
  assumes "plain ps" and "ps \<noteq> []" and "n = i + length ps"
  shows "param_decls mark n [i..<n] (join_params ps) = Some (named_params mark i ps)"
  using assms
proof (induction ps arbitrary: i)
  case (Cons p ps)
  then have p: "p \<noteq> ''''" "set p \<inter> set '',)'' = {}" by (auto simp: plain_def)
  show ?case
  proof (cases ps)
    case Nil
    then show ?thesis
      using Cons.prems strtok_next [OF p, of "CHR '')''" "[]"] by (simp add: named_params_def)
  next
    case (Cons q qs)
    have "param_decls mark n [Suc i..<n] (join_params ps) = Some (named_params mark (Suc i) ps)"
      using Cons.IH [of "Suc i"] Cons.prems Cons by (simp add: plain_def)
    moreover have "[i..<n] = i # [Suc i..<n]" using Cons.prems by (intro upt_conv_Cons) simp
    ultimately show ?thesis
      using Cons Cons.prems strtok_next [OF p, of "CHR '',''" "join_params ps"]
      by (simp add: named_params_def)
  qed
qed simp

lemma count_join_params:
  "plain ps \<Longrightarrow> ps \<noteq> [] \<Longrightarrow> length (filter (\<lambda>c. c = CHR '','') (join_params ps)) + 1 = length ps"
  by (induction ps rule: join_params.induct) (auto simp: plain_def filter_empty_conv)

text \<open>
  C36. For the type of a function with parameters as GCC prints it, each parameter without commas
  and parentheses, the plugin counts the parameters, and the three declarations that it makes have
  the types of the function, each followed by the name of its variable: the function itself, the
  wrapper, which takes pointers, and the PIF, which also takes the launch parameters. (GCC prints
  the type of a function without parameters with the list \<open>void\<close>, which is not a list of
  parameters; what the plugin makes of it is in \<open>void_is_a_parameter\<close>.)
\<close>

theorem declarations_have_parameters:
  assumes "ret \<noteq> ''''" "CHR ''<'' \<notin> set ret" "T \<noteq> ''''" "CHR ''>'' \<notin> set T"
    "mid \<noteq> ''''" "CHR ''('' \<notin> set mid" "CHR '','' \<notin> set (ret @ T @ mid)"
    and "plain ps" "ps \<noteq> []" "ps \<noteq> [''void'']"
  defines "text \<equiv> printed_fn ret T mid ps"
  shows "count_params text = length ps \<and>
    generate_task text f (count_params text) =
      Some (ret @ f @ mid @ ''('' @ named_params '' var'' 0 ps @ '';'') \<and>
    generate_task_wrapper text f (count_params text) =
      Some (ret @ f @ ''_wrapper'' @ mid @ ''('' @ named_params ''* var'' 0 ps) \<and>
    generate_pif text f (count_params text) =
      Some (''atmi_task_handle_t '' @ f @ mid @ ''(atmi_lparm_t *lparm, '' @ named_params '' var'' 0 ps)"
proof -
  have no_commas: "filter (\<lambda>c. c = CHR '','') s = []" if "s \<in> {ret, T, mid}" for s
    using assms(7) that by (auto simp: filter_empty_conv)
  have n: "count_params text = length ps"
    using count_join_params [OF assms(8,9)] no_commas
    by (simp add: count_params_def text_def printed_fn_def)
  have t: "strtok ''<'' text = Some (ret, T @ ''>'' @ mid @ ''('' @ join_params ps)"
    "token ''>'' (T @ ''>'' @ mid @ ''('' @ join_params ps) = (T, mid @ ''('' @ join_params ps)"
    "token ''('' (mid @ ''('' @ join_params ps) = (mid, join_params ps)"
    using strtok_next [of ret "''<''" "CHR ''<''"] strtok_next [of T "''>''" "CHR ''>''"]
      strtok_next [of mid "''(''" "CHR ''(''"] assms(1-6)
    by (simp_all add: text_def printed_fn_def token_def)
  have d: "param_decls m (length ps) [0..<length ps] (join_params ps) = Some (named_params m 0 ps)" for m
    using param_decls_join [OF assms(8,9), of "length ps" 0] by simp
  show ?thesis
    using assms(9) unfolding n generate_task_def generate_task_wrapper_def generate_pif_def t(1)
    by (simp add: t(2,3) d del: append_Cons append.simps)
qed

lemma declarations_have_parameters_witness:
  "generate_task ''void <T5> (int, float *)'' ''f'' 2 = Some ''void f (int var0, float * var1);'' \<and>
   generate_pif ''void <T5> (int, float *)'' ''add'' 2 =
     Some ''atmi_task_handle_t add (atmi_lparm_t *lparm, int var0, float * var1)''"
proof -
  have p: "printed_fn ''void '' ''T5'' '' '' [''int'', '' float *''] = ''void <T5> (int, float *)''"
    by (simp add: printed_fn_def)
  have n: "named_params '' var'' 0 [''int'', '' float *''] = ''int var0, float * var1)''"
    by code_simp
  have c: "count_params ''void <T5> (int, float *)'' = 2" by code_simp
  have g: "generate_task ''void <T5> (int, float *)'' f 2 =
        Some (''void '' @ f @ '' '' @ ''('' @ named_params '' var'' 0 [''int'', '' float *''] @ '';'') \<and>
      generate_pif ''void <T5> (int, float *)'' f 2 =
        Some (''atmi_task_handle_t '' @ f @ '' '' @ ''(atmi_lparm_t *lparm, '' @
          named_params '' var'' 0 [''int'', '' float *''])" for f
    using declarations_have_parameters [of "''void ''" "''T5''" "'' ''" "[''int'', '' float *'']" f]
    by (simp add: plain_def p c)
  show ?thesis using g [of "''f''"] g [of "''add''"] by (simp add: n)
qed

text \<open>A function without parameters, printed with \<open>void\<close>, is declared with a parameter.\<close>

lemma void_is_a_parameter:
  "count_params ''void <T5> (void)'' = 1"
  "generate_task ''void <T5> (void)'' ''f'' 1 = Some ''void f (void var0);''"
  by code_simp+

text \<open>A parameter that is a pointer to a function is not declared with its type.\<close>

lemma function_pointer_parameter:
  "count_params ''void <T5> (void (*<T6>) (int, int))'' = 2"
  "generate_task ''void <T5> (void (*<T6>) (int, int))'' ''f'' 2 =
     Some ''void f (void (*<T6> var0, (int var1);''"
  by code_simp+

text \<open>Only the first device file gets the numbers of the kernels and the functions that launch them.\<close>

lemma second_device_file_has_no_kernels:
  "write_pif_kl (snd (write_pif_kl st)) =
   (write_kernel_dispatch_routine @ concat (map (\<lambda>(p, i, _). kid_enum p
       (kid_table (map (\<lambda>p. p\<lparr>kid_table := ''''\<rparr>) (pif_printers st) ! i))) (pif_table st)),
    snd (write_pif_kl st))"
  by (simp add: write_pif_kl_def)

end
