(* ===== verification/Spec2Isabelle.thy ===== *)
theory Spec2Isabelle
  imports Sched_Exec Barrier_Guarantees Memory_API Device_Guarantees Interop Pifgen_Guarantees
begin

text \<open>
  A verification development for ATMI, the Asynchronous Task and Memory Interface: a C++ runtime
  that starts tasks (compute kernels on GPUs and CPUs, and copies) through HSA, resolves the
  dependencies among them and hands out completion signals and kernarg memory. All paths below
  are relative to \<open>src/src/runtime\<close>, or to \<open>src/src\<close> for \<open>device_runtime/\<close> and \<open>compiler/\<close>; the
  public header is \<open>src/include/atmi.h\<close>.

  \<^bold>\<open>The program and its model.\<close> The application creates kernels and task groups and launches
  tasks. \<open>tryDispatch\<close> either starts a task (it takes a completion signal and a kernarg segment,
  reserves packets and writes them to a queue) or leaves it waiting; completion handlers that HSA
  calls, and the threads of the application in their waits, give resources back and call
  \<open>doProgress\<close>, which tries the waiting tasks again. GPU queues are served by the hardware, CPU
  queues by the worker threads of the runtime. The global variables of the program are one record
  \<open>rt_state\<close>, objects are numbers (\<open>tid\<close>, \<open>gid\<close>, implementation numbers) that the tables of the
  state map to records, and each method is a function of the state. \<open>None\<close> is a crash: a null
  dereference, a failed assertion, an access out of range, a division by zero, \<open>exit\<close>, or a call
  that HSA leaves undefined.

  \<^item> Foundations. \<open>Prelude\<close>: machine words, lists as queues. \<open>Atmi_Types\<close>: \<open>atmi.h\<close>.
    \<open>Packets\<close>: packet headers, handles, \<open>alignUp\<close>. \<open>Resource_Pool\<close>: the locale of a pool of
    reusable resources, interpreted on the signal pool and the segment lists.
  \<^item> Devices and memory. \<open>Machine\<close>: \<open>core/machine.cpp\<close>. \<open>Discovery\<close> and \<open>Startup\<close>: agents, pools,
    environment variables, \<open>Initialize\<close> and \<open>Finalize\<close> in \<open>core/system.cpp\<close> and
    \<open>core/utils.cpp\<close>. \<open>Data_Map\<close>: the pointer tracker and the choice of agents for copies.
    \<open>Memory_API\<close>: allocation, release and synchronous copies in \<open>core/data.cpp\<close>.
  \<^item> Kernels. \<open>Kernel\<close> and \<open>Kernel_API\<close>: \<open>core/kernel.cpp\<close>. \<open>Metadata\<close>, \<open>Elf_Notes\<close> and
    \<open>Module_Load\<close>: code objects and their registration in \<open>core/system.cpp\<close>.
  \<^item> Tasks. \<open>Runtime_State\<close>: \<open>include/task.h\<close>, \<open>include/taskgroup.h\<close> and the global state.
    \<open>Taskgroup\<close>: \<open>core/taskgroup.cpp\<close>. \<open>Kernarg\<close>, \<open>Barrier\<close>, \<open>Dispatch\<close>: arguments, barrier
    packets and the dispatch of tasks in \<open>core/task.cpp\<close> and \<open>core/data.cpp\<close>. \<open>Host_Callback\<close>
    and \<open>Barrier_Dispatch\<close>: the two ways of resolving dependencies. \<open>Scheduler\<close>: \<open>tryDispatch\<close>,
    \<open>doProgress\<close> and the completion handlers. \<open>Task_API\<close>: the calls of the application.
  \<^item> CPU tasks. \<open>Work_Items\<close>: what a kernel function can ask about itself. \<open>Cpu_Worker\<close>:
    \<open>agent_worker\<close> and \<open>process_packet\<close> of \<open>core/cputask.cpp\<close> as a state machine beside the rest
    of the program.
  \<^item> Launching from a device. \<open>Device_Enqueue\<close>: \<open>device_runtime/device_rt.cpp\<close>, which extends
    \<open>Initialize\<close>, \<open>CreateKernel\<close> and \<open>Finalize\<close> by templates for kernels that launch tasks.
    \<open>Device_Launch\<close>: \<open>device_runtime/device_rt.cl\<close>, the code that runs in such kernels.
  \<^item> The outer layer. \<open>Interop\<close>: the functions of \<open>core/atmi.cpp\<close> that choose between the two
    runtimes, the queries of \<open>interop/hsa\<close>, and \<open>core/queue.cpp\<close>. \<open>Pif_Text\<close> and \<open>Pifgen\<close>:
    the compiler plugin \<open>compiler/atl_pifgen_plugin.c\<close>, which turns functions with an attribute
    into kernels with several implementations by writing C text.

  \<^bold>\<open>What is proved.\<close> For the scheduler in the callback mode, \<open>Sched_Core\<close> is an abstract
  scheduler on the part of the state that matters, and granting resources and completing a task
  refine it (\<open>freed\<close> says which tasks a completion makes ready); \<open>Sched_Invariants\<close>, \<open>Sched_Depend\<close> and \<open>Sched_Sync\<close> hold the invariants
  (exclusive resources, links and counters, groups), \<open>Sched_Steps\<close>, \<open>Sched_Groups\<close>,
  \<open>Sched_Progress\<close> and \<open>Sched_Calls\<close> prove that every operation keeps them, and \<open>Sched_System\<close>
  composes the operations into a step relation over calls of the application, handlers and copy
  threads in any order. \<open>Sched_Exec\<close> executes runs for the examples. This root theory states the
  consequences for every reachable configuration, some of which are defects of the code.
  The barrier mode has a step relation of its own, over the same calls, in \<open>Barrier_System\<close>:
  \<open>Barrier_Invariants\<close>, \<open>Barrier_Progress\<close> and \<open>Barrier_Calls\<close> prove that its operations keep
  the invariants (exclusive resources; every dispatched task in one batch of a handler or, through
  links of dependency or of the order of its group, before a sink of its group; required tasks
  dispatched and behind a barrier), \<open>Barrier_Packets\<close> follows
  the packets of one task through the log of HSA calls, \<open>Barrier_Stranded\<close> shows that a group can
  be stuck for good, and \<open>Barrier_Guarantees\<close> states the consequences and runs that go wrong.
  \<open>Cpu_Trace\<close> and \<open>Cpu_Guarantees\<close> do the same for the workers: the specification of a packet
  is a list of events and a worker produces, in every interleaving, those of its queue.
  \<open>Cpu_Arguments\<close> follows the arguments of a task from the caller to the kernel function.
  \<open>Device_Guarantees\<close> does it for tasks that a kernel launches, and shows that a kernel is not
  complete before what it launched and how many launches its memory serves.
  \<open>Pifgen_Guarantees\<close> shows that the constants the plugin declares select the rows of the tables it
  writes, and that its declarations have the parameters of the function. The other theories state the properties of their component at their end.

  \<^bold>\<open>Bounds.\<close> The loop over an ordered group has fuel, one more than the number of waiting tasks.
  It is proved below, of the rounds of the loop without fuel (\<open>ordered_round\<close>), that there are no
  more of them than waiting tasks, and that the loop with that fuel gives the result of the last
  one; for the loop over created tasks, that more fuel changes nothing. A configuration has room for fewer
  than \<open>2 ^ 31\<close> tasks (\<open>room\<close>), because the counters are 32 bits wide. \<open>work\<close> runs a worker for a
  number of steps; four are enough for an agent packet.

  The copies of \<open>Memory_API\<close> rely on HSA only between agents that can access their ranges; who can
  access a block is part of the state, and a GPU is assumed to access what another GPU copies to it.
  HSA counts references (\<open>hsa_refs\<close> in \<open>Startup\<close>); its overflow at \<open>2 ^ 31\<close> is left out.

  \<^bold>\<open>Not modelled.\<close> Mutexes: one call of the API, one handler and one step of a worker are atomic.
  The step relation of the barrier mode leaves groupable tasks out, because its handler aborts on
  one. In that mode a handler can be called for a batch at any time once its copies are issued:
  the one barrier signal of all batches (\<open>batches_share_signal\<close>) does not say more.
  In the callback mode a handler thread that waits for a synchronous task is not resumed.
  HSA, COMGR, \<open>libelf\<close>, the loader and the file system are the parameters \<open>hsa_env\<close>,
  \<open>loader_env\<close> and the records in \<open>Discovery\<close> and \<open>Device_Enqueue\<close> (\<open>dev_env\<close>). A launch on a
  device is atomic, too. GCC is outside the plugin: types arrive as the text it prints, declarations
  that are pushed into the compilation unit are recorded, and the shell commands succeed. Timers
  and debug output, thread affinity and the examples are left out.
\<close>

section \<open>The system\<close>

text \<open>
  C1. Requirements are respected. In every configuration the runtime can reach in the callback
  mode, a task of an unordered group that was given its resources, and so every task that was put
  on a device queue, has all its required tasks executed.
\<close>

theorem requirements_respected:
  assumes "reachable E A B c" and "t < n_tasks (rt c)" and "ATMI_READY \<le> state_of (rt c) t"
    and "in_unordered (rt c) t" and "p \<in> set (predecessors (tasks (rt c) t))"
  shows "ATMI_EXECUTED \<le> state_of (rt c) p"
  using dep_invD(6) [OF reachable_parts(3) [OF assms(1)] assms(2-4)] assms(5)
  by (simp add: preds_done_def)

theorem requirements_respected_witness:
  "\<exists>c. reachable demo_env {#100, 101#} (\<lambda>_. {#}) c \<and> state_of (rt c) 1 = ATMI_DISPATCHED \<and>
     predecessors (tasks (rt c) 1) = [0] \<and> ATMI_EXECUTED \<le> state_of (rt c) 0"
proof -
  obtain c where c: "reachable demo_env (mset [100, 101]) (\<lambda>_. {#}) c" "n_tasks (rt c) = 2"
    "state_of (rt c) 1 = ATMI_DISPATCHED" "predecessors (tasks (rt c) 1) = [0]" "in_unordered (rt c) 1"
    using demo_run [OF demo_chain_run] by auto
  have "ATMI_EXECUTED \<le> state_of (rt c) 0"
    by (rule requirements_respected [OF c(1), of 1 0]) (use c in \<open>simp_all add: state_order\<close>)
  then show ?thesis using c by auto
qed

text \<open>The signals and the segments of an implementation that tasks hold, in the order of the tasks.\<close>

definition held_signals :: "rt_state \<Rightarrow> signal list" where
  "held_signals s =
     map (\<lambda>t. tk_signal (tasks s t))
       (filter (\<lambda>t. active (tasks s t) \<and> \<not> groupable (tasks s t)) [0..<n_tasks s])"

definition held_segments :: "rt_state \<Rightarrow> impl_ptr \<Rightarrow> nat list" where
  "held_segments s p =
     map (\<lambda>t. tk_kernarg_index (tasks s t))
       (filter (\<lambda>t. active (tasks s t) \<and> impl_of (kernels s) (tasks s t) = Some p) [0..<n_tasks s])"

lemma task_sum_held:
  assumes "\<And>k. f k = (if P k then {#g k#} else {#})"
  shows "task_sum f s = mset (map (\<lambda>t. g (tasks s t)) (filter (\<lambda>t. P (tasks s t)) [0..<n_tasks s]))"
proof -
  have "(\<Sum>t<n. f (tasks s t)) = mset (map (\<lambda>t. g (tasks s t)) (filter (\<lambda>t. P (tasks s t)) [0..<n]))" for n
    by (induction n) (simp_all add: assms)
  then show ?thesis by (simp add: task_sum_def)
qed

lemma distinct_by_count: "mset xs = A \<Longrightarrow> (\<And>x. Multiset.count A x \<le> 1) \<Longrightarrow> distinct xs"
  by (metis distinct_count_atmost_1 count_mset le_less_Suc_eq less_one not_gr0
      One_nat_def Suc_leI count_eq_zero_iff in_multiset_in_set le_antisym set_mset_mset zero_less_Suc)

text \<open>
  C2. Completion signals are never shared and never lost: in every reachable configuration the
  free pool and the signals of the granted, not yet completed tasks (but those that use their
  group's signal) are together exactly the signals the pool was created with, each of them once
  when those are distinct. So every signal is free or held by exactly one task, and with no task
  running all of them are free.
\<close>

theorem signals_exclusive:
  assumes "reachable E A B c" and "\<And>x. Multiset.count A x \<le> 1"
  shows "mset (FreeSignalPool (rt c) @ held_signals (rt c)) = A \<and>
    distinct (FreeSignalPool (rt c) @ held_signals (rt c))"
proof -
  have "task_sum sig_of (rt c) = mset (held_signals (rt c))"
    unfolding held_signals_def by (rule task_sum_held) (rule sig_of_def)
  then have m: "mset (FreeSignalPool (rt c) @ held_signals (rt c)) = A"
    using reachable_parts(4) [OF assms(1)] by (simp add: signal_inv_def rq.conserved_def)
  show ?thesis using m distinct_by_count [OF m assms(2)] by blast
qed

theorem signals_exclusive_witness:
  "\<exists>c. reachable demo_env {#100, 101#} (\<lambda>_. {#}) c \<and> FreeSignalPool (rt c) = [100] \<and>
     held_signals (rt c) = [101]"
proof -
  obtain c where c: "reachable demo_env (mset [100, 101]) (\<lambda>_. {#}) c" "FreeSignalPool (rt c) = [100]"
    using demo_run [OF demo_chain_run] by auto
  have "mset (FreeSignalPool (rt c) @ held_signals (rt c)) = mset [100, 101] \<and>
      distinct (FreeSignalPool (rt c) @ held_signals (rt c))"
    by (rule signals_exclusive [OF c(1)]) simp
  then have "mset (held_signals (rt c)) = {#101#}" using c(2) by (simp add: add_mset_commute)
  then show ?thesis using c by auto
qed

text \<open>
  C3. Kernarg segments are never shared and never lost: for every kernel implementation, the free
  list and the segments of its granted, not yet completed tasks are together exactly the segments
  it was created with, each of them once when those are distinct.
\<close>

theorem segments_exclusive:
  assumes "reachable E A B c" and "p < n_impls (rt c)" and "\<And>x. Multiset.count (B p) x \<le> 1"
  shows "mset (free_kernarg_segments (impls (rt c) p) @ held_segments (rt c) p) = B p \<and>
    distinct (free_kernarg_segments (impls (rt c) p) @ held_segments (rt c) p)"
proof -
  have "task_sum (seg_of (kernels (rt c)) p) (rt c) = mset (held_segments (rt c) p)"
    unfolding held_segments_def by (rule task_sum_held) (rule seg_of_def)
  then have m: "mset (free_kernarg_segments (impls (rt c) p) @ held_segments (rt c) p) = B p"
    using reachable_parts(5) [OF assms(1)] assms(2) by (auto simp: segment_inv_def rq.conserved_def)
  show ?thesis using m distinct_by_count [OF m assms(3)] by blast
qed

theorem segments_exclusive_witness:
  "\<exists>c. reachable demo_env {#100, 101, 102#} (\<lambda>_. {#0, 1#}) c \<and>
     state_of (rt c) 0 = ATMI_DISPATCHED \<and> state_of (rt c) 1 = ATMI_DISPATCHED \<and>
     mset (free_kernarg_segments (impls (rt c) 0) @ held_segments (rt c) 0) = {#0, 1#} \<and>
     distinct (free_kernarg_segments (impls (rt c) 0) @ held_segments (rt c) 0)"
proof -
  obtain c where c: "reachable demo_env (mset [100, 101, 102]) (\<lambda>_. mset [0, 1]) c"
    "state_of (rt c) 0 = ATMI_DISPATCHED" "state_of (rt c) 1 = ATMI_DISPATCHED" "n_impls (rt c) = 1"
    using demo_kernel_run [OF demo_busy_run] by auto
  have "mset (free_kernarg_segments (impls (rt c) 0) @ held_segments (rt c) 0) = mset [0, 1] \<and>
      distinct (free_kernarg_segments (impls (rt c) 0) @ held_segments (rt c) 0)"
    by (rule segments_exclusive [OF c(1)]) (use c in simp_all)
  then show ?thesis using c by auto
qed



text \<open>
  C5. A group's wait ends when its tasks are done: in a reachable configuration where the
  condition of \<open>sync\<close> holds, every groupable task of the group, and every task of it if it is
  not ordered, is completed.
\<close>

theorem group_sync_complete:
  assumes "reachable E A B c" and "sync_done g (rt c)" and "t < n_tasks (rt c)"
    and "tk_group (tasks (rt c) t) = Some g"
    and "groupable (tasks (rt c) t) \<or> \<not> tg_ordered (groups (rt c) g)"
  shows "state_of (rt c) t = ATMI_COMPLETED"
  by (rule sync_done_completed [OF reachable_parts(2, 8) [OF assms(1)] assms(2-5)])

theorem group_sync_complete_witness:
  "\<exists>c. reachable demo_env {#100, 101#} (\<lambda>_. {#0, 1, 2#}) c \<and> sync_done 0 (rt c) \<and>
     groupable (tasks (rt c) 1) \<and> state_of (rt c) 1 = ATMI_COMPLETED"
proof -
  obtain c where c: "reachable demo_env (mset [100, 101]) (\<lambda>_. mset [0, 1, 2]) c"
    "n_tasks (rt c) = 3" "tk_group (tasks (rt c) 1) = Some 0" "groupable (tasks (rt c) 1)"
    "sync_done 0 (rt c)"
    using demo_kernel_run [OF demo_group_run] by auto
  have "state_of (rt c) 1 = ATMI_COMPLETED"
    by (rule group_sync_complete [OF c(1, 5)]) (use c in simp_all)
  then show ?thesis using c by auto
qed

text \<open>
  C6. Tasks only move forward: in no step of the system, whatever call or handler it is, does a
  task that was created go back in its life cycle, nor does an initialized task change what it
  is (kind, kernel, group, predecessors, flags).
\<close>

theorem tasks_move_forward:
  assumes "reachable E A B c" and "step E c c'" and "room c'" and "t < n_tasks (rt c)"
  shows "t < n_tasks (rt c') \<and> state_of (rt c) t \<le> state_of (rt c') t \<and>
    (ATMI_INITIALIZED \<le> state_of (rt c) t \<longrightarrow>
       predecessors (tasks (rt c') t) = predecessors (tasks (rt c) t) \<and>
       tk_group (tasks (rt c') t) = tk_group (tasks (rt c) t) \<and>
       tk_kernel (tasks (rt c') t) = tk_kernel (tasks (rt c) t) \<and>
       groupable (tasks (rt c') t) = groupable (tasks (rt c) t))"
proof -
  have a: "ages (rt c) (rt c')" using step_inv [OF assms(2) reachable_inv [OF assms(1)] assms(3)] by blast
  have s: "static_task (tasks (rt c') t) = static_task (tasks (rt c) t)"
    if "ATMI_INITIALIZED \<le> state_of (rt c) t"
    using a that assms(4) by (simp add: ages_def)
  have f: "predecessors k' = predecessors k \<and> tk_group k' = tk_group k \<and> tk_kernel k' = tk_kernel k \<and>
      groupable k' = groupable k" if "static_task k' = static_task k" for k k'
    using that unfolding static_task_def by (cases k, cases k') simp
  show ?thesis using a assms(4) f [OF s] by (auto simp: ages_def)
qed

theorem tasks_move_forward_witness:
  "\<exists>c c'. reachable demo_env {#100, 101, 102#} (\<lambda>_. {#0, 1#}) c \<and> step demo_env c c' \<and>
     state_of (rt c) 2 = ATMI_INITIALIZED \<and> state_of (rt c') 2 = ATMI_DISPATCHED \<and>
     tk_group (tasks (rt c') 2) = tk_group (tasks (rt c) 2)"
proof -
  obtain c c' where c: "reachable demo_env (mset [100, 101, 102]) (\<lambda>_. mset [0, 1]) c"
    "step demo_env c c'" "n_tasks (rt c) = 3" "n_tasks (rt c') = 3"
    "state_of (rt c) 2 = ATMI_INITIALIZED" "state_of (rt c') 2 = ATMI_DISPATCHED"
    using demo_kernel_step [OF demo_step_run] by auto
  have "room c'" using c by (simp add: room_def)
  from tasks_move_forward [OF c(1, 2) this, of 2] show ?thesis using c by auto
qed

section \<open>The scheduler's queues\<close>

text \<open>
  C16. The counter of a task never claims fewer predecessors than will still report: in every
  reachable configuration it is at least the number of links to the task in the successor lists
  of unfinished tasks. So no completion can bring it to zero while another is outstanding.
\<close>

theorem counter_covers_links:
  assumes "reachable E A B c" and "u < n_tasks (rt c)"
  shows "int (\<Sum>p<n_tasks (rt c). if state_of (rt c) p < ATMI_EXECUTED
           then count_list (and_successors (tasks (rt c) p)) u else 0)
         \<le> num_predecessors (tasks (rt c) u)"
  using dep_invD(1) [OF reachable_parts(3) [OF assms(1)] assms(2)]
  by (simp add: pend_def task_sum_def pend_of_def)

theorem counter_covers_links_witness:
  "\<exists>c. reachable demo_env {#100, 101, 102#} (\<lambda>_. {#0, 1, 2#}) c \<and>
     and_successors (tasks (rt c) 0) = [1] \<and> state_of (rt c) 0 = ATMI_DISPATCHED \<and>
     1 \<le> num_predecessors (tasks (rt c) 1)"
proof -
  obtain c where c: "reachable demo_env (mset [100, 101, 102]) (\<lambda>_. mset [0, 1, 2]) c"
    "n_tasks (rt c) = Suc (Suc 0)" "state_of (rt c) 0 = ATMI_DISPATCHED" "state_of (rt c) 1 = ATMI_INITIALIZED"
    "and_successors (tasks (rt c) 0) = [1]" "and_successors (tasks (rt c) 1) = []"
    using demo_kernel_run [OF demo_linked_run] by auto
  have "int (\<Sum>p<n_tasks (rt c). if state_of (rt c) p < ATMI_EXECUTED
      then count_list (and_successors (tasks (rt c) p)) 1 else 0) \<le> num_predecessors (tasks (rt c) 1)"
    by (rule counter_covers_links [OF c(1), of 1]) (simp add: c)
  then show ?thesis using c by (auto simp: state_order)
qed

text \<open>
  C17. Only tasks that are free to run are in the ready queue: each was created and initialized
  and all its required tasks are executed.
\<close>

theorem ready_queue_sound:
  assumes "reachable E A B c" and "u \<in> set (ReadyTaskQueue (rt c))"
  shows "u < n_tasks (rt c) \<and> ATMI_INITIALIZED \<le> state_of (rt c) u \<and>
    (\<forall>p \<in> set (predecessors (tasks (rt c) u)). ATMI_EXECUTED \<le> state_of (rt c) p)"
  using dep_invD(5) [OF reachable_parts(3) [OF assms(1)] assms(2)] by (simp add: preds_done_def)

theorem ready_queue_sound_witness:
  "\<exists>c. reachable demo_env {#100, 101, 102#} (\<lambda>_. {#0, 1#}) c \<and> ReadyTaskQueue (rt c) = [2] \<and>
     ATMI_INITIALIZED \<le> state_of (rt c) 2"
proof -
  obtain c where c: "reachable demo_env (mset [100, 101, 102]) (\<lambda>_. mset [0, 1]) c"
    "ReadyTaskQueue (rt c) = [2]"
    using demo_kernel_run [OF demo_busy_run] by auto
  from ready_queue_sound [OF c(1), of 2] show ?thesis using c by auto
qed

text \<open>
  C21. Completion handlers belong to running tasks: a registered handler is for a task that was
  created, holds its own signal, the handler's, and is ready or dispatched; no two handlers are
  for the same task; a task in a group's list of running groupable tasks is a running task of
  that group and listed once.
\<close>

theorem handlers_sound:
  assumes "reachable E A B c"
  shows "(\<forall>sg t. HandleTask sg t \<in> set (handlers (rt c)) \<longrightarrow> t < n_tasks (rt c) \<and>
      state_of (rt c) t \<in> {ATMI_READY, ATMI_DISPATCHED} \<and>
      \<not> groupable (tasks (rt c) t) \<and> tk_signal (tasks (rt c) t) = sg) \<and>
    distinct (handler_tasks (handlers (rt c))) \<and>
    (\<forall>g. distinct (running_groupable (groups (rt c) g)) \<and>
      (\<forall>u \<in> set (running_groupable (groups (rt c) g)). u < n_tasks (rt c) \<and>
         state_of (rt c) u \<in> {ATMI_READY, ATMI_DISPATCHED} \<and> tk_group (tasks (rt c) u) = Some g))"
  using handler_invD [OF reachable_parts(6) [OF assms(1)]] by (fastforce simp: live_def)

theorem handlers_sound_witness:
  "\<exists>c. reachable demo_env {#100, 101, 102#} (\<lambda>_. {#0, 1#}) c \<and>
     handlers (rt c) = [HandleTask 100 0, HandleTask 101 1] \<and>
     tk_signal (tasks (rt c) 1) = 101 \<and> distinct (handler_tasks (handlers (rt c)))"
proof -
  obtain c where c: "reachable demo_env (mset [100, 101, 102]) (\<lambda>_. mset [0, 1]) c"
    "handlers (rt c) = [HandleTask 100 0, HandleTask 101 1]"
    using demo_kernel_run [OF demo_busy_run] by auto
  from handlers_sound [OF c(1)] c show ?thesis by (intro exI [of _ c]) simp
qed

text \<open>
  A staged copy is issued once: the detached threads that have yet to issue their copy are
  for different tasks, and each of these tasks is ready and not dispatched, so its handler has
  not run.
\<close>

lemma copy_threads_sound:
  assumes "reachable E A B c" and "t \<in> set (copy_threads (rt c))"
  shows "t < n_tasks (rt c) \<and> state_of (rt c) t = ATMI_READY \<and> distinct (copy_threads (rt c))"
  using reachable_parts(7) [OF assms(1)] assms(2) by (simp add: copy_inv_def)

lemma copy_threads_sound_witness:
  "\<exists>c. reachable demo_env {#100, 101#} (\<lambda>_. {#}) c \<and> copy_threads (rt c) = [0] \<and>
     state_of (rt c) 0 = ATMI_READY"
proof -
  obtain c where c: "reachable demo_env (mset [100, 101]) (\<lambda>_. {#}) c" "copy_threads (rt c) = [0]"
    using demo_mapped_run by auto
  from copy_threads_sound [OF c(1), of 0] show ?thesis using c by auto
qed

section \<open>Granting, completing, draining\<close>

text \<open>
  C18. \<open>tryDispatch\<close>'s grant does to the scheduling state what its specification says, whatever
  packets, queues and memory it writes on the way: the task gets its group's signal or the first
  free one, the first free segment of its implementation, leaves the front of its ordered group
  and becomes ready; nothing else that scheduling reads changes.
\<close>

theorem grant_refines:
  assumes "host_grant E t g args s = Some s'" and "task_kernel_impl s t = Some impl"
  shows "sched_core s' = sched_core (grant_abs t g impl s)"
  by (rule host_grant_core [OF assms])

theorem grant_refines_witness:
  "\<exists>c s'. reachable demo_env {#100, 101#} (\<lambda>_. {#0, 1#}) c \<and>
     host_grant demo_env 0 0 None (rt c) = Some s' \<and>
     sched_core s' = sched_core (grant_abs 0 0 (Some 0) (rt c))"
proof -
  obtain c where c: "reachable demo_env (mset [100, 101]) (\<lambda>_. mset [0, 1]) c"
    "task_kernel_impl (rt c) 0 = Some (Some 0)" "host_grant demo_env 0 0 None (rt c) \<noteq> None"
    using demo_kernel_run [OF demo_created_run] by auto
  then obtain s' where s': "host_grant demo_env 0 0 None (rt c) = Some s'" by blast
  from grant_refines [OF s' c(2)] s' c(1) show ?thesis by auto
qed

text \<open>
  C19. The completion of a task does to the scheduling state what its specification says: the
  task is completed, every successor's counter drops by the number of links, the successor at
  each position where this brings its counter to zero joins the ready queue, in order, the signal
  returns to the pool and the segment to its implementation; nothing else that scheduling reads
  changes. (\<open>freed\<close> selects the positions by the counters before the completion, it does not run
  the code's loop.)
\<close>

theorem completion_refines:
  assumes "complete_task E t s = Some s'"
  shows "sched_core s' = sched_core (complete_abs t s)"
  by (rule complete_task_core [OF assms])

theorem completion_refines_witness:
  "\<exists>c s'. reachable demo_env {#100, 101#} (\<lambda>_. {#0, 1#}) c \<and>
     complete_task demo_env 0 (rt c) = Some s' \<and> ReadyTaskQueue s' = [1] \<and>
     num_predecessors (tasks (rt c) 1) = 1 \<and> FreeSignalPool s' = [101, 100] \<and>
     sched_core s' = sched_core (complete_abs 0 (rt c))"
proof -
  obtain c s' where c: "reachable demo_env (mset [100, 101]) (\<lambda>_. mset [0, 1]) c"
    "complete_task demo_env 0 (rt c) = Some s'" "FreeSignalPool s' = [101, 100]"
    "ReadyTaskQueue s' = [1]" "num_predecessors (tasks (rt c) 1) = 1"
    using demo_kernel_run [OF demo_release_run] by auto
  from completion_refines [OF c(2)] c show ?thesis by auto
qed

text \<open>
  C20. Draining an ordered group ends. In a reachable configuration there are never more rounds
  of the loop that go on than the group has waiting tasks, and each takes a task off the list; so the loop comes after finitely many rounds to one that does not go on. With a bound
  above the number of waiting tasks the model of the loop has the result of that last round: it
  returns, unless the dispatch of the head itself crashes there.
\<close>

theorem ordered_drain_terminates:
  assumes "reachable E A B c" and "tg_ordered (groups (rt c) g)"
  shows "(\<forall>k s'. (ordered_round E g isC ^^ k) (rt c) s' \<longrightarrow>
      k + length (running_ordered (groups s' g)) \<le> length (running_ordered (groups (rt c) g))) \<and>
    (\<exists>k s'. (ordered_round E g isC ^^ k) (rt c) s' \<and> (\<nexists>u. ordered_round E g isC s' u) \<and>
      (\<forall>n > length (running_ordered (groups (rt c) g)).
         ordered_loop n E g isC (rt c) = map_option snd (ordered_head E g isC s')))"
proof -
  let ?m = "Suc (length (running_ordered (groups (rt c) g)))"
  note i = reachable_parts(1) [OF assms(1)]
  have "ordered_loop n E g isC (rt c) = ordered_loop ?m E g isC (rt c)"
    if "length (running_ordered (groups (rt c) g)) < n" for n
    using ordered_loop_fuel [OF i assms(2), of ?m "n - ?m"] that by simp
  then show ?thesis
    using ordered_rounds_bounded [OF i assms(2)]
      ordered_loop_ends [OF i assms(2), of ?m E isC] by auto
qed

theorem ordered_drain_terminates_witness:
  "\<exists>c s. reachable demo_env {#100, 101#} (\<lambda>_. {#0, 1#}) c \<and>
     running_ordered (groups (rt c) 0) = [0, 1] \<and> ordered_loop 9 demo_env 0 True (rt c) = Some (NoWait, s) \<and>
     state_of s 0 = ATMI_DISPATCHED \<and> state_of s 1 = ATMI_DISPATCHED"
proof -
  obtain c s where c: "reachable demo_env (mset [100, 101]) (\<lambda>_. mset [0, 1]) c"
    "tg_ordered (groups (rt c) 0)" "running_ordered (groups (rt c) 0) = [0, 1]"
    "ordered_loop 3 demo_env 0 True (rt c) = Some (NoWait, s)"
    "state_of s 0 = ATMI_DISPATCHED" "state_of s 1 = ATMI_DISPATCHED"
    using demo_kernel_run [OF demo_drain_run] by auto
  have "length (running_ordered (groups (rt c) 0)) = 2" using c(3) by simp
  then obtain s' where s': "\<forall>n > 2. ordered_loop n demo_env 0 True (rt c) =
      map_option snd (ordered_head demo_env 0 True s')"
    using ordered_drain_terminates [OF c(1, 2), of True] by metis
  have "ordered_loop 9 demo_env 0 True (rt c) = ordered_loop 3 demo_env 0 True (rt c)"
    using s' [rule_format, of 9] s' [rule_format, of 3] by (simp del: ordered_loop.simps)
  then show ?thesis using c by (auto simp del: ordered_loop.simps)
qed

section \<open>Where the code does less than it means to\<close>

text \<open>
  A finished group releases nobody: \<open>handle_group_signal\<close> clears the list of the group's
  successors before it walks it, so no counter changes and no task joins the ready queue.
\<close>

lemma group_successors_dropped:
  "release_group_successors E g s =
     Some (NoWait, upd_group g (\<lambda>k. k\<lparr>tg_and_successors := []\<rparr>) s)"
  by (simp add: release_group_successors_def Let_def)

text \<open>
  So a task that requires a group can be left behind for good: there is a reachable
  configuration in which every task of the group is completed and the group's wait would return,
  no handler, detached thread or queued task is left, and the task still counts one predecessor.
\<close>

lemma group_waiter_left_behind:
  "\<exists>c. reachable demo_env {#100, 101#} (\<lambda>_. {#0, 1, 2#}) c \<and> n_tasks (rt c) = 3 \<and>
     state_of (rt c) 0 = ATMI_COMPLETED \<and> state_of (rt c) 1 = ATMI_COMPLETED \<and> sync_done 0 (rt c) \<and>
     state_of (rt c) 2 = ATMI_INITIALIZED \<and> num_predecessors (tasks (rt c) 2) = 1 \<and>
     ReadyTaskQueue (rt c) = [] \<and> handlers (rt c) = [] \<and> copy_threads (rt c) = [] \<and> stuck c = NoWait"
  using demo_kernel_run [OF demo_group_run] by auto

text \<open>
  An ordered group may start a task before the tasks it requires: there is a reachable
  configuration in which a task of an ordered group is dispatched while a task it requires is
  dispatched and not executed.
\<close>

lemma ordered_group_ignores_requirements:
  "\<exists>c. reachable demo_env {#100, 101, 102#} (\<lambda>_. {#0, 1, 2#}) c \<and>
     state_of (rt c) 2 = ATMI_DISPATCHED \<and> predecessors (tasks (rt c) 2) = [0] \<and>
     state_of (rt c) 0 = ATMI_DISPATCHED"
  using demo_kernel_run [OF demo_ordered_run] by auto

text \<open>
  Activating a task of an unordered group that has required tasks does nothing in the
  callback mode, whatever state they are in; a task created after they completed stays
  initialized, since no completion will queue it.
\<close>

lemma activation_skips_required:
  assumes "dep_sync s = ATL_SYNC_CALLBACK" and "getTaskImpl s h = Some (Some t)"
    and "tk_group (tasks s t) = Some g" "\<not> tg_ordered (groups s g)" "predecessors (tasks s t) \<noteq> []"
  shows "ActivateTask E h s = Some (tk_id (tasks s t), NoWait, s)"
  using assms by (simp add: ActivateTask_def)

lemma activation_skips_required_witness:
  "\<exists>c. reachable demo_env {#100, 101#} (\<lambda>_. {#0, 1#}) c \<and>
     ActivateTask demo_env 1 (rt c) = Some (1, NoWait, rt c) \<and>
     state_of (rt c) 0 = ATMI_COMPLETED \<and> state_of (rt c) 1 = ATMI_INITIALIZED \<and>
     ReadyTaskQueue (rt c) = [] \<and> handlers (rt c) = []"
proof -
  obtain c where c: "reachable demo_env (mset [100, 101]) (\<lambda>_. mset [0, 1]) c"
    "dep_sync (rt c) = ATL_SYNC_CALLBACK" "getTaskImpl (rt c) 1 = Some (Some 1)"
    "tk_group (tasks (rt c) 1) = Some 0" "\<not> tg_ordered (groups (rt c) 0)"
    "predecessors (tasks (rt c) 1) = [0]" "tk_id (tasks (rt c) 1) = 1"
    "state_of (rt c) 0 = ATMI_COMPLETED" "state_of (rt c) 1 = ATMI_INITIALIZED"
    "ReadyTaskQueue (rt c) = []" "handlers (rt c) = []"
    using demo_kernel_run [OF demo_late_run] by auto
  have "ActivateTask demo_env 1 (rt c) = Some (tk_id (tasks (rt c) 1), NoWait, rt c)"
    by (rule activation_skips_required [OF c(2-5)]) (use c in simp)
  then show ?thesis using c by auto
qed

text \<open>
  Waiting twice for an ordered group with no launch in between crashes: the first wait
  forgets the last task, the second one dereferences it.
\<close>

lemma ordered_group_second_sync:
  assumes "tg_ordered (groups s g)" and "sync_finish g s = Some s'"
  shows "sync_finish g s' = None"
proof -
  have o: "tg_ordered (groups (set_state t st s) g) = tg_ordered (groups s g)" for t st and s :: rt_state
    by (simp add: set_state_def Let_def split: option.split)
  obtain t where "last_task (groups s g) = Some t"
    using assms by (auto simp: sync_finish_def sync_tasks_def bind_eq_Some_conv)
  then have "tg_ordered (groups s' g) \<and> last_task (groups s' g) = None"
    using assms by (auto simp: sync_finish_def sync_tasks_def clearSavedTasks_def o)
  then show ?thesis by (simp add: sync_finish_def sync_tasks_def)
qed

lemma ordered_group_second_sync_witness:
  "\<exists>c s'. reachable demo_env {#100, 101#} (\<lambda>_. {#0, 1#}) c \<and> sync_finish 0 (rt c) = Some s' \<and>
     sync_finish 0 s' = None"
proof -
  obtain c s' where c: "reachable demo_env (mset [100, 101]) (\<lambda>_. mset [0, 1]) c"
    "tg_ordered (groups (rt c) 0)" "sync_finish 0 (rt c) = Some s'"
    using demo_kernel_run [OF demo_synced_run] by auto
  from ordered_group_second_sync [OF c(2, 3)] c show ?thesis by auto
qed

end
